(* ===== verification/JS_Prelude.thy ===== *)
theory JS_Prelude
  imports Main "HOL-Library.Word"
begin

text \<open>
  What every other theory shares: the types of bytes and of UTF-16 code units, JavaScript's and
  Ruby's notions of truth for optional numbers, the results of operations that can throw, and the
  fact collections of the components.

  A JavaScript string is a list of 16-bit code units (\<open>ustring\<close>), because \<open>length\<close>, \<open>slice\<close> and
  \<open>charCodeAt\<close> count code units. Identifiers, tags and other ASCII texts that the code only
  compares are HOL strings.
\<close>

type_synonym byte = "8 word"
type_synonym cu = "16 word"
type_synonym ustring = "cu list"

named_theorems codec_simps
  \<comment> \<open>evaluation of the byte codecs\<close>
named_theorems cable_defs
  \<comment> \<open>the operations of the Action Cable client\<close>
named_theorems session_defs
  \<comment> \<open>the operations of the terminal sessions\<close>
named_theorems text_simps
  \<comment> \<open>the content of editor documents\<close>
named_theorems change_simps
  \<comment> \<open>sections of change sets\<close>

subsection \<open>Truth values\<close>

text \<open>
  A number property that may be \<open>undefined\<close> is an \<open>int option\<close>; it is truthy when it is present
  and not zero.
\<close>

definition truthy_num :: "int option \<Rightarrow> bool" where
  "truthy_num x = (case x of None \<Rightarrow> False | Some n \<Rightarrow> n \<noteq> 0)"

lemma truthy_num_simps [simp]:
  "\<not> truthy_num None"
  "truthy_num (Some n) \<longleftrightarrow> n \<noteq> 0"
  by (simp_all add: truthy_num_def)

text \<open>An optional string is truthy when it is present and not empty.\<close>

definition truthy_str :: "string option \<Rightarrow> bool" where
  "truthy_str x = (case x of None \<Rightarrow> False | Some s \<Rightarrow> s \<noteq> [])"

lemma truthy_str_simps [simp]:
  "\<not> truthy_str None"
  "truthy_str (Some s) \<longleftrightarrow> s \<noteq> []"
  by (simp_all add: truthy_str_def)

subsection \<open>Lists\<close>

text \<open>The part of a list from position \<open>i\<close> (inclusive) to \<open>j\<close> (exclusive), as \<open>slice\<close> gives it.\<close>

definition sub_list :: "int \<Rightarrow> int \<Rightarrow> 'a list \<Rightarrow> 'a list" where
  "sub_list i j xs = take (nat j - nat i) (drop (nat i) xs)"

lemma sub_list_all [simp]: "i \<le> 0 \<Longrightarrow> int (length xs) \<le> j \<Longrightarrow> sub_list i j xs = xs"
  by (simp add: sub_list_def)

lemma sub_list_empty [simp]: "j \<le> i \<Longrightarrow> sub_list i j xs = []"
  by (simp add: sub_list_def nat_mono)

lemma length_sub_list:
  "0 \<le> i \<Longrightarrow> i \<le> j \<Longrightarrow> j \<le> int (length xs) \<Longrightarrow> int (length (sub_list i j xs)) = j - i"
  by (simp add: sub_list_def)

lemma distinct_filter_neq: "distinct xs \<Longrightarrow> distinct (filter (\<lambda>y. y \<noteq> x) xs)"
  by simp

lemma word_nat_less [simp]: "unat (b :: byte) < 256"
  using unsigned_less [of b] by simp

lemma of_nat_unat_byte [simp]: "(of_nat (unat (b :: byte)) :: byte) = b"
  by simp

text \<open>The code units of an ASCII text, and decimal numbers in texts.\<close>

definition ustr :: "string \<Rightarrow> ustring" where
  "ustr s = map (\<lambda>c. of_nat (of_char c)) s"

subsection \<open>JSON\<close>

text \<open>
  JSON values with integral numbers, their attributes in order, and the text that \<open>JSON.stringify\<close>
  gives for them. Strings are ASCII here: channel names, VM names, hexadecimal ids and base64.
\<close>

datatype json =
    JNull | JBool bool | JNum int | JStr string | JArr "json list" | JObj "(string \<times> json) list"

definition hex_digit :: "nat \<Rightarrow> char" where
  "hex_digit n = ''0123456789abcdef'' ! n"

definition escape_char :: "char \<Rightarrow> string" where
  "escape_char c =
     (let n = of_char c :: nat
      in if c = CHR 0x22 then [CHR 0x5C, CHR 0x22]
         else if c = CHR 0x5C then [CHR 0x5C, CHR 0x5C]
         else if n = 8 then [CHR 0x5C, CHR ''b'']
         else if n = 9 then [CHR 0x5C, CHR ''t'']
         else if n = 10 then [CHR 0x5C, CHR ''n'']
         else if n = 12 then [CHR 0x5C, CHR ''f'']
         else if n = 13 then [CHR 0x5C, CHR ''r'']
         else if n < 32 then
           [CHR 0x5C, CHR ''u'', CHR ''0'', CHR ''0'', hex_digit (n div 16), hex_digit (n mod 16)]
         else [c])"

definition json_quote :: "string \<Rightarrow> string" where
  "json_quote s = CHR 0x22 # concat (map escape_char s) @ [CHR 0x22]"

fun nat_digits :: "nat \<Rightarrow> string" where
  "nat_digits n =
     (if n < 10 then [char_of (48 + n)] else nat_digits (n div 10) @ [char_of (48 + n mod 10)])"

declare nat_digits.simps [simp del]

definition int_digits :: "int \<Rightarrow> string" where
  "int_digits n = (if n < 0 then CHR ''-'' # nat_digits (nat (- n)) else nat_digits (nat n))"

definition unum :: "int \<Rightarrow> ustring" where
  "unum n = ustr (int_digits n)"

fun comma_join :: "string list \<Rightarrow> string" where
  "comma_join [] = []"
| "comma_join [s] = s"
| "comma_join (s # t # ts) = s @ '','' @ comma_join (t # ts)"

fun json_stringify :: "json \<Rightarrow> string" where
  "json_stringify JNull = ''null''"
| "json_stringify (JBool b) = (if b then ''true'' else ''false'')"
| "json_stringify (JNum n) = int_digits n"
| "json_stringify (JStr s) = json_quote s"
| "json_stringify (JArr js) = ''['' @ comma_join (map json_stringify js) @ '']''"
| "json_stringify (JObj kvs) =
     ''{'' @ comma_join (map (\<lambda>kv. json_quote (fst kv) @ '':'' @ json_stringify (snd kv)) kvs) @ ''}''"

text \<open>An attribute of an object; \<open>None\<close> is a missing attribute or a value that is not an object.\<close>

fun json_get :: "json \<Rightarrow> string \<Rightarrow> json option" where
  "json_get (JObj kvs) k = map_of kvs k"
| "json_get _ k = None"

end
