(* ===== verification/Cable_Client.thy ===== *)
theory Cable_Client
  imports JS_Prelude Complex_Main
begin

text \<open>
  The Action Cable client that the page runs (\<open>@rails/actioncable\<close>, bundled into
  \<open>app/assets/builds/application.js\<close>): the connection over one WebSocket at a time, the monitor that
  reopens a stale connection with back-off, the list of subscriptions, and the guarantor that repeats
  a subscribe command until the server confirms it.

  The whole client is one record. What the environment decides is an argument or a field read by the
  operations: the clock (\<open>now_ms\<close>), the sequence of random numbers (\<open>rand_src\<close>), the protocol the server
  selects. Timers are fields: the poll timer with its delay, the retry timer, and the number of
  pending reopen and visibility timers. A mixin function of a subscription is called by its name; the
  calls are logged in \<open>called\<close>, in order, for the page's controllers to run. Log messages are left out.
\<close>

subsection \<open>State\<close>

datatype ready_state = CONNECTING | OPEN | CLOSING | CLOSED

record websocket =
  ws_id :: nat
  readyState :: ready_state
  ws_protocol :: string
  handlers_on :: bool
  ws_requested :: "string list"
  ws_url :: string

record subscription =
  sub_ref :: nat
  sub_identifier :: string
  callbacks :: "string list" \<comment> \<open>the names of the mixin's functions\<close>

record monitor =
  startedAt :: "int option"
  stoppedAt :: "int option"
  pingedAt :: "int option"
  disconnectedAt :: "int option"
  reconnectAttempts :: nat
  pollTimeout :: "real option"
  visibility_listener :: bool

datatype frame = Frame (fr_command: string) (fr_identifier: string) (fr_data: "string option")

datatype call = Call (call_ref: nat) (call_name: string) (call_args: "json list")

record cable =
  now_ms :: int
  rand_src :: "nat \<Rightarrow> real"
  rand_ix :: nat
  url :: string
  subprotocols :: "string list"
  webSocket :: "websocket option"
  next_ws :: nat
  disconnected :: bool
  reconnectAttempted :: bool
  mon :: monitor
  subscriptions :: "subscription list"
  next_sub :: nat
  pendingSubscriptions :: "subscription list"
  retryTimeout :: bool
  reopenTimers :: nat
  visibilityTimers :: nat
  sent :: "frame list"
  called :: "call list"

text \<open>Constants of the source.\<close>

definition staleThreshold :: real where "staleThreshold = 6"
definition reconnectionBackoffRate :: real where "reconnectionBackoffRate = 15 / 100"

datatype message_type = Welcome | Disconnect | Ping | Confirmation | Rejection

definition message_types :: "(string \<times> message_type) list" where
  "message_types =
     [(''welcome'', Welcome), (''disconnect'', Disconnect), (''ping'', Ping),
      (''confirm_subscription'', Confirmation), (''reject_subscription'', Rejection)]"

definition default_mount_path :: string where "default_mount_path = ''/cable''"

definition protocols :: "string list" where
  "protocols = [''actioncable-v1-json'', ''actioncable-unsupported'']"

definition supportedProtocols :: "string list" where
  "supportedProtocols = butlast protocols"

subsection \<open>Construction\<close>

definition init_monitor :: monitor where
  "init_monitor = \<lparr>startedAt = None, stoppedAt = None, pingedAt = None, disconnectedAt = None,
     reconnectAttempts = 0, pollTimeout = None, visibility_listener = False\<rparr>"

definition new_consumer :: "string \<Rightarrow> int \<Rightarrow> (nat \<Rightarrow> real) \<Rightarrow> cable" where
  "new_consumer u t rnd =
     \<lparr>now_ms = t, rand_src = rnd, rand_ix = 0, url = u, subprotocols = [], webSocket = None,
      next_ws = 0, disconnected = True, reconnectAttempted = False, mon = init_monitor,
      subscriptions = [], next_sub = 0, pendingSubscriptions = [], retryTimeout = False,
      reopenTimers = 0, visibilityTimers = 0, sent = [], called = []\<rparr>"

text \<open>
  \<open>getConfig\<close> reads a \<open>meta\<close> element of the page (a parameter); \<open>createConsumer\<close> falls back to the
  default mount path when its content is missing or empty.
\<close>

definition getConfig :: "(string \<Rightarrow> string option) \<Rightarrow> string \<Rightarrow> string option" where
  "getConfig meta_content name = meta_content (''action-cable-'' @ name)"

definition createConsumer ::
    "(string \<Rightarrow> string option) \<Rightarrow> int \<Rightarrow> (nat \<Rightarrow> real) \<Rightarrow> cable" where
  "createConsumer meta_content t rnd =
     (let u = getConfig meta_content ''url''
      in new_consumer (if truthy_str u then the u else default_mount_path) t rnd)"

text \<open>
  \<open>createWebSocketURL\<close>: a text that does not start with \<open>ws:\<close> or \<open>wss:\<close> (in any case) is resolved by
  the page's anchor element (\<open>resolve\<close>, giving the protocol and the rest of the absolute URL), and
  the first \<open>http\<close> in its protocol becomes \<open>ws\<close>.
\<close>

definition lower :: "char \<Rightarrow> char" where
  "lower c = (let n = of_char c :: nat in if 65 \<le> n \<and> n \<le> 90 then char_of (n + 32) else c)"

definition is_ws_url :: "string \<Rightarrow> bool" where
  "is_ws_url u = (map lower (take 3 u) = ''ws:'' \<or> map lower (take 4 u) = ''wss:'')"

fun replace_http :: "string \<Rightarrow> string" where
  "replace_http [] = []"
| "replace_http (c # cs) =
     (if take 4 (c # cs) = ''http'' then ''ws'' @ drop 4 (c # cs) else c # replace_http cs)"

definition createWebSocketURL :: "(string \<Rightarrow> string \<times> string) \<Rightarrow> string \<Rightarrow> string" where
  "createWebSocketURL resolve u =
     (if u \<noteq> [] \<and> \<not> is_ws_url u
      then (case resolve u of (protocol, rest) \<Rightarrow> replace_http protocol @ rest)
      else u)"

subsection \<open>The connection's state\<close>

fun state_name :: "ready_state \<Rightarrow> string" where
  "state_name CONNECTING = ''connecting''"
| "state_name OPEN = ''open''"
| "state_name CLOSING = ''closing''"
| "state_name CLOSED = ''closed''"

definition getState :: "cable \<Rightarrow> string option" where
  "getState c = map_option (\<lambda>w. state_name (readyState w)) (webSocket c)"

definition isState :: "string list \<Rightarrow> cable \<Rightarrow> bool" where
  "isState states c = (case getState c of None \<Rightarrow> False | Some s \<Rightarrow> s \<in> set states)"

definition isOpen :: "cable \<Rightarrow> bool" where
  "isOpen c = isState [''open''] c"

definition isActive :: "cable \<Rightarrow> bool" where
  "isActive c = isState [''open'', ''connecting''] c"

definition getProtocol :: "cable \<Rightarrow> string option" where
  "getProtocol c = map_option ws_protocol (webSocket c)"

definition isProtocolSupported :: "cable \<Rightarrow> bool" where
  "isProtocolSupported c =
     (case getProtocol c of None \<Rightarrow> False | Some p \<Rightarrow> p \<in> set supportedProtocols)"

definition triedToReconnect :: "cable \<Rightarrow> bool" where
  "triedToReconnect c = (0 < reconnectAttempts (mon c))"

definition conn_send :: "frame \<Rightarrow> cable \<Rightarrow> cable \<times> bool" where
  "conn_send f c = (if isOpen c then (c\<lparr>sent := sent c @ [f]\<rparr>, True) else (c, False))"

subsection \<open>The monitor\<close>

definition upd_mon :: "(monitor \<Rightarrow> monitor) \<Rightarrow> cable \<Rightarrow> cable" where
  "upd_mon f c = c\<lparr>mon := f (mon c)\<rparr>"

definition isRunning :: "cable \<Rightarrow> bool" where
  "isRunning c = (truthy_num (startedAt (mon c)) \<and> \<not> truthy_num (stoppedAt (mon c)))"

definition secondsSince :: "int \<Rightarrow> cable \<Rightarrow> real" where
  "secondsSince t c = real_of_int (now_ms c - t) / 1000"

text \<open>The delay in milliseconds, for a random number in \<open>[0, 1)\<close>.\<close>

definition getPollInterval :: "nat \<Rightarrow> real \<Rightarrow> real" where
  "getPollInterval attempts random =
     (let backoff = (1 + reconnectionBackoffRate) ^ min attempts 10;
          jitterMax = (if attempts = 0 then 1 else reconnectionBackoffRate);
          jitter = jitterMax * random
      in staleThreshold * 1000 * backoff * (1 + jitter))"

definition poll :: "cable \<Rightarrow> cable" where
  "poll c =
     upd_mon (\<lambda>m. m\<lparr>pollTimeout :=
                Some (getPollInterval (reconnectAttempts m) (rand_src c (rand_ix c)))\<rparr>)
       (c\<lparr>rand_ix := Suc (rand_ix c)\<rparr>)"

definition stopPolling :: "cable \<Rightarrow> cable" where
  "stopPolling = upd_mon (\<lambda>m. m\<lparr>pollTimeout := None\<rparr>)"

definition startPolling :: "cable \<Rightarrow> cable" where
  "startPolling c = poll (stopPolling c)"

definition monitor_start :: "cable \<Rightarrow> cable" where
  "monitor_start c =
     (if \<not> isRunning c then
        upd_mon (\<lambda>m. m\<lparr>visibility_listener := True\<rparr>)
          (startPolling (upd_mon (\<lambda>m. m\<lparr>startedAt := Some (now_ms c), stoppedAt := None\<rparr>) c))
      else c)"

definition monitor_stop :: "cable \<Rightarrow> cable" where
  "monitor_stop c =
     (if isRunning c then
        upd_mon (\<lambda>m. m\<lparr>visibility_listener := False\<rparr>)
          (stopPolling (upd_mon (\<lambda>m. m\<lparr>stoppedAt := Some (now_ms c)\<rparr>) c))
      else c)"

definition recordMessage :: "cable \<Rightarrow> cable" where
  "recordMessage c = upd_mon (\<lambda>m. m\<lparr>pingedAt := Some (now_ms c)\<rparr>) c"

definition recordConnect :: "cable \<Rightarrow> cable" where
  "recordConnect = upd_mon (\<lambda>m. m\<lparr>reconnectAttempts := 0, disconnectedAt := None\<rparr>)"

definition recordDisconnect :: "cable \<Rightarrow> cable" where
  "recordDisconnect c = upd_mon (\<lambda>m. m\<lparr>disconnectedAt := Some (now_ms c)\<rparr>) c"

definition refreshedAt :: "cable \<Rightarrow> int option" where
  "refreshedAt c = (if truthy_num (pingedAt (mon c)) then pingedAt (mon c) else startedAt (mon c))"

text \<open>A comparison with \<open>undefined\<close> is a comparison with NaN: false.\<close>

definition connectionIsStale :: "cable \<Rightarrow> bool" where
  "connectionIsStale c =
     (case refreshedAt c of None \<Rightarrow> False | Some t \<Rightarrow> secondsSince t c > staleThreshold)"

definition disconnectedRecently :: "cable \<Rightarrow> bool" where
  "disconnectedRecently c =
     (case disconnectedAt (mon c) of
        None \<Rightarrow> False
      | Some t \<Rightarrow> t \<noteq> 0 \<and> secondsSince t c < staleThreshold)"

subsection \<open>Opening and closing\<close>

definition new_socket :: "cable \<Rightarrow> cable" where
  "new_socket c =
     c\<lparr>webSocket := Some \<lparr>ws_id = next_ws c, readyState = CONNECTING, ws_protocol = [],
                         handlers_on = True, ws_requested = protocols @ subprotocols c,
                         ws_url = url c\<rparr>,
       next_ws := Suc (next_ws c)\<rparr>"

text \<open>
  \<open>open\<close>. The handlers of the socket that is replaced become empty functions, so that nothing it does
  later reaches the client; the new one has the client's handlers.
\<close>

definition conn_open :: "cable \<Rightarrow> cable \<times> bool" where
  "conn_open c = (if isActive c then (c, False) else (monitor_start (new_socket c), True))"

definition conn_close :: "bool \<Rightarrow> cable \<Rightarrow> cable" where
  "conn_close allowReconnect c =
     (let c1 = (if \<not> allowReconnect then monitor_stop c else c)
      in if isOpen c1
         then c1\<lparr>webSocket := map_option (\<lambda>w. w\<lparr>readyState := CLOSING\<rparr>) (webSocket c1)\<rparr>
         else c1)"

definition conn_reopen :: "cable \<Rightarrow> cable" where
  "conn_reopen c =
     (if isActive c
      then (let c1 = conn_close True c in c1\<lparr>reopenTimers := Suc (reopenTimers c1)\<rparr>)
      else fst (conn_open c))"

definition reconnectIfStale :: "cable \<Rightarrow> cable" where
  "reconnectIfStale c =
     (if connectionIsStale c then
        (let c1 = upd_mon (\<lambda>m. m\<lparr>reconnectAttempts := Suc (reconnectAttempts m)\<rparr>) c
         in if disconnectedRecently c1 then c1 else conn_reopen c1)
      else c)"

definition ensureActiveConnection :: "cable \<Rightarrow> cable" where
  "ensureActiveConnection c = (if \<not> isActive c then fst (conn_open c) else c)"

definition consumer_connect :: "cable \<Rightarrow> cable \<times> bool" where
  "consumer_connect c = conn_open c"

definition consumer_disconnect :: "cable \<Rightarrow> cable" where
  "consumer_disconnect c = conn_close False c"

definition addSubProtocol :: "string \<Rightarrow> cable \<Rightarrow> cable" where
  "addSubProtocol p c = c\<lparr>subprotocols := subprotocols c @ [p]\<rparr>"

subsection \<open>The guarantor\<close>

text \<open>Subscriptions are compared by reference.\<close>

definition same_sub :: "subscription \<Rightarrow> subscription \<Rightarrow> bool" where
  "same_sub s t = (sub_ref s = sub_ref t)"

definition startGuaranteeing :: "cable \<Rightarrow> cable" where
  "startGuaranteeing c = c\<lparr>retryTimeout := True\<rparr>" \<comment> \<open>clears the timer and sets it again\<close>

definition guarantee :: "subscription \<Rightarrow> cable \<Rightarrow> cable" where
  "guarantee s c =
     startGuaranteeing
       (if \<not> list_ex (same_sub s) (pendingSubscriptions c)
        then c\<lparr>pendingSubscriptions := pendingSubscriptions c @ [s]\<rparr>
        else c)"

definition guarantor_forget :: "subscription \<Rightarrow> cable \<Rightarrow> cable" where
  "guarantor_forget s c =
     c\<lparr>pendingSubscriptions := filter (\<lambda>t. \<not> same_sub s t) (pendingSubscriptions c)\<rparr>"

subsection \<open>Subscriptions\<close>

definition sendCommand :: "subscription \<Rightarrow> string \<Rightarrow> cable \<Rightarrow> cable \<times> bool" where
  "sendCommand s command c = conn_send (Frame command (sub_identifier s) None) c"

definition subscribe :: "subscription \<Rightarrow> cable \<Rightarrow> cable" where
  "subscribe s c =
     (case sendCommand s ''subscribe'' c of (c1, ok) \<Rightarrow> if ok then guarantee s c1 else c1)"

definition findAll :: "string option \<Rightarrow> cable \<Rightarrow> subscription list" where
  "findAll i c = filter (\<lambda>s. Some (sub_identifier s) = i) (subscriptions c)"

text \<open>\<open>notify\<close> of one subscription: the mixin function is called if there is one of that name.\<close>

definition notify_sub :: "string \<Rightarrow> json list \<Rightarrow> subscription \<Rightarrow> cable \<Rightarrow> cable" where
  "notify_sub name args s c =
     (if name \<in> set (callbacks s) then c\<lparr>called := called c @ [Call (sub_ref s) name args]\<rparr> else c)"

definition notifyAll :: "string \<Rightarrow> json list \<Rightarrow> cable \<Rightarrow> cable" where
  "notifyAll name args c = fold (notify_sub name args) (subscriptions c) c"

text \<open>
  \<open>notify\<close> by identifier. Without an identifier it looks a property of \<open>undefined\<close> up, which throws
  (the second component).
\<close>

definition notify_id :: "string option \<Rightarrow> string \<Rightarrow> json list \<Rightarrow> cable \<Rightarrow> cable \<times> bool" where
  "notify_id i name args c =
     (case i of None \<Rightarrow> (c, True) | Some _ \<Rightarrow> (fold (notify_sub name args) (findAll i c) c, False))"

definition subs_forget :: "subscription \<Rightarrow> cable \<Rightarrow> cable" where
  "subs_forget s c =
     (let c1 = guarantor_forget s c
      in c1\<lparr>subscriptions := filter (\<lambda>t. \<not> same_sub s t) (subscriptions c1)\<rparr>)"

definition subs_add :: "subscription \<Rightarrow> cable \<Rightarrow> cable" where
  "subs_add s c =
     subscribe s (notify_sub ''initialized'' []  s
       (ensureActiveConnection (c\<lparr>subscriptions := subscriptions c @ [s]\<rparr>)))"

text \<open>\<open>create\<close>: a channel name is turned into \<open>{channel}\<close>, an object is taken as the parameters.\<close>

definition channel_params :: "string + json \<Rightarrow> json" where
  "channel_params ch =
     (case ch of Inl name \<Rightarrow> JObj [(''channel'', JStr name)] | Inr params \<Rightarrow> params)"

definition subs_create :: "string + json \<Rightarrow> string list \<Rightarrow> cable \<Rightarrow> cable \<times> subscription" where
  "subs_create ch mixin c =
     (let s = \<lparr>sub_ref = next_sub c, sub_identifier = json_stringify (channel_params ch),
               callbacks = mixin\<rparr>
      in (subs_add s (c\<lparr>next_sub := Suc (next_sub c)\<rparr>), s))"

definition subs_remove :: "subscription \<Rightarrow> cable \<Rightarrow> cable" where
  "subs_remove s c =
     (let c1 = subs_forget s c
      in if findAll (Some (sub_identifier s)) c1 = [] then fst (sendCommand s ''unsubscribe'' c1)
         else c1)"

definition subs_reject :: "string option \<Rightarrow> cable \<Rightarrow> cable" where
  "subs_reject i c =
     fold (\<lambda>s c. notify_sub ''rejected'' [] s (subs_forget s c)) (findAll i c) c"

definition subs_reload :: "cable \<Rightarrow> cable" where
  "subs_reload c = fold subscribe (subscriptions c) c"

definition confirmSubscription :: "string option \<Rightarrow> cable \<Rightarrow> cable" where
  "confirmSubscription i c = fold guarantor_forget (findAll i c) c"

text \<open>\<open>perform\<close> sets the action in the data object and sends it as a message.\<close>

definition sub_send :: "subscription \<Rightarrow> json \<Rightarrow> cable \<Rightarrow> cable \<times> bool" where
  "sub_send s data c =
     conn_send (Frame ''message'' (sub_identifier s) (Some (json_stringify data))) c"

fun set_attr :: "string \<Rightarrow> json \<Rightarrow> (string \<times> json) list \<Rightarrow> (string \<times> json) list" where
  "set_attr k v [] = [(k, v)]"
| "set_attr k v (kv # kvs) = (if fst kv = k then (k, v) # kvs else kv # set_attr k v kvs)"

definition perform ::
    "subscription \<Rightarrow> string \<Rightarrow> (string \<times> json) list \<Rightarrow> cable \<Rightarrow> cable \<times> bool" where
  "perform s action data c =
     sub_send s (JObj (set_attr ''action'' (JStr action) data)) c"

subsection \<open>Events of the socket\<close>

record incoming =
  in_identifier :: "string option"
  in_message :: json
  in_reconnect :: "bool option"
  in_type :: "string option"

definition on_open :: "cable \<Rightarrow> cable" where
  "on_open c =
     (let c1 = c\<lparr>disconnected := False\<rparr>
      in if \<not> isProtocolSupported c1 then conn_close False c1 else c1)"

definition on_close :: "cable \<Rightarrow> cable" where
  "on_close c =
     (if disconnected c then c
      else (let c1 = recordDisconnect (c\<lparr>disconnected := True\<rparr>)
            in notifyAll ''disconnected''
                 [JObj [(''willAttemptReconnect'', JBool (isRunning c1))]] c1))"

definition on_message :: "incoming \<Rightarrow> cable \<Rightarrow> cable \<times> bool" where
  "on_message m c =
     (if \<not> isProtocolSupported c then (c, False)
      else
        (let c1 = recordMessage c;
             ty = (case in_type m of None \<Rightarrow> None | Some t \<Rightarrow> map_of message_types t)
         in case ty of
              Some Welcome \<Rightarrow>
                (let c2 = (if triedToReconnect c1 then c1\<lparr>reconnectAttempted := True\<rparr> else c1)
                 in (subs_reload (recordConnect c2), False))
            | Some Disconnect \<Rightarrow> (conn_close (in_reconnect m = Some True) c1, False)
            | Some Ping \<Rightarrow> (c1, False)
            | Some Confirmation \<Rightarrow>
                (let c2 = confirmSubscription (in_identifier m) c1
                 in if reconnectAttempted c2
                    then notify_id (in_identifier m) ''connected''
                           [JObj [(''reconnected'', JBool True)]] (c2\<lparr>reconnectAttempted := False\<rparr>)
                    else notify_id (in_identifier m) ''connected''
                           [JObj [(''reconnected'', JBool False)]] c2)
            | Some Rejection \<Rightarrow> (subs_reject (in_identifier m) c1, False)
            | None \<Rightarrow> notify_id (in_identifier m) ''received'' [in_message m] c1))"

text \<open>
  What the environment can do: time passes, the server's end of the socket acts, a timer fires. An
  event that the present state does not allow changes nothing.
\<close>

datatype cable_event =
    Tick nat
  | Sock_open string
  | Sock_message incoming
  | Sock_close
  | Poll_timer
  | Retry_timer
  | Reopen_timer
  | Page_visible
  | Visibility_timer

definition set_ready :: "ready_state \<Rightarrow> cable \<Rightarrow> cable" where
  "set_ready r c = c\<lparr>webSocket := map_option (\<lambda>w. w\<lparr>readyState := r\<rparr>) (webSocket c)\<rparr>"

definition retrySubscribing_fire :: "cable \<Rightarrow> cable" where
  "retrySubscribing_fire c =
     fold subscribe (pendingSubscriptions c) (c\<lparr>retryTimeout := False\<rparr>)"

definition visibilityDidChange_fire :: "cable \<Rightarrow> cable" where
  "visibilityDidChange_fire c =
     (if connectionIsStale c \<or> \<not> isOpen c then conn_reopen c else c)"

fun handle_event :: "cable_event \<Rightarrow> cable \<Rightarrow> cable" where
  "handle_event (Tick d) c = c\<lparr>now_ms := now_ms c + int d\<rparr>"
| "handle_event (Sock_open p) c =
     (case webSocket c of
        Some w \<Rightarrow>
          if readyState w = CONNECTING
          then on_open (c\<lparr>webSocket := Some (w\<lparr>readyState := OPEN, ws_protocol := p\<rparr>)\<rparr>)
          else c
      | None \<Rightarrow> c)"
| "handle_event (Sock_message m) c = (if isOpen c then fst (on_message m c) else c)"
| "handle_event Sock_close c =
     (case webSocket c of
        Some w \<Rightarrow> if readyState w = CLOSED then c else on_close (set_ready CLOSED c)
      | None \<Rightarrow> c)"
| "handle_event Poll_timer c =
     (case pollTimeout (mon c) of None \<Rightarrow> c | Some _ \<Rightarrow> poll (reconnectIfStale c))"
| "handle_event Retry_timer c = (if retryTimeout c then retrySubscribing_fire c else c)"
| "handle_event Reopen_timer c =
     (case reopenTimers c of 0 \<Rightarrow> c | Suc n \<Rightarrow> fst (conn_open (c\<lparr>reopenTimers := n\<rparr>)))"
| "handle_event Page_visible c =
     (if visibility_listener (mon c) then c\<lparr>visibilityTimers := Suc (visibilityTimers c)\<rparr> else c)"
| "handle_event Visibility_timer c =
     (case visibilityTimers c of
        0 \<Rightarrow> c
      | Suc n \<Rightarrow> visibilityDidChange_fire (c\<lparr>visibilityTimers := n\<rparr>))"

subsection \<open>Steps of the client\<close>

text \<open>An event of the environment, or a call of the page.\<close>

inductive cable_step :: "cable \<Rightarrow> cable \<Rightarrow> bool" where
  step_event: "cable_step c (handle_event e c)"
| step_connect: "cable_step c (fst (consumer_connect c))"
| step_disconnect: "cable_step c (consumer_disconnect c)"
| step_subprotocol: "cable_step c (addSubProtocol p c)"
| step_create: "cable_step c (fst (subs_create ch mixin c))"
| step_remove: "cable_step c (subs_remove s c)"
| step_perform: "cable_step c (fst (perform s action data c))"

inductive cable_reachable :: "cable \<Rightarrow> bool" where
  reach_new: "0 < t \<Longrightarrow> cable_reachable (createConsumer meta_content t rnd)"
| reach_cable_step: "cable_reachable c \<Longrightarrow> cable_step c c' \<Longrightarrow> cable_reachable c'"

text \<open>
  What the client keeps: the clock is positive; the monitor is running exactly while its poll timer is
  armed and it listens for visibility changes; the socket in use has its handlers; subscriptions have
  distinct references; every pending subscription is one of the subscriptions, and only once.
\<close>

definition monitor_ok :: "cable \<Rightarrow> bool" where
  "monitor_ok c \<longleftrightarrow>
     0 < now_ms c \<and>
     (isRunning c \<longleftrightarrow> pollTimeout (mon c) \<noteq> None) \<and>
     (isRunning c \<longleftrightarrow> visibility_listener (mon c))"

definition socket_ok :: "cable \<Rightarrow> bool" where
  "socket_ok c \<longleftrightarrow>
     (case webSocket c of None \<Rightarrow> True | Some w \<Rightarrow> handlers_on w \<and> ws_id w < next_ws c)"

definition subs_ok :: "cable \<Rightarrow> bool" where
  "subs_ok c \<longleftrightarrow>
     distinct (map sub_ref (subscriptions c)) \<and>
     (\<forall>s \<in> set (subscriptions c). sub_ref s < next_sub c) \<and>
     set (pendingSubscriptions c) \<subseteq> set (subscriptions c) \<and>
     distinct (map sub_ref (pendingSubscriptions c))"

definition cable_inv :: "cable \<Rightarrow> bool" where
  "cable_inv c \<longleftrightarrow> monitor_ok c \<and> socket_ok c \<and> subs_ok c"

text \<open>The operations on the subscription lists leave connection and monitor alone, and conversely.\<close>

definition same_conn :: "cable \<Rightarrow> cable \<Rightarrow> bool" where
  "same_conn c d \<longleftrightarrow>
     now_ms d = now_ms c \<and> mon d = mon c \<and> webSocket d = webSocket c \<and> next_ws d = next_ws c"

definition same_subs :: "cable \<Rightarrow> cable \<Rightarrow> bool" where
  "same_subs c d \<longleftrightarrow>
     subscriptions d = subscriptions c \<and> pendingSubscriptions d = pendingSubscriptions c \<and>
     next_sub d = next_sub c \<and> sent d = sent c \<and> called d = called c \<and> retryTimeout d = retryTimeout c"

lemma same_conn_refl [simp]: "same_conn c c"
  by (simp add: same_conn_def)

lemma same_subs_refl [simp]: "same_subs c c"
  by (simp add: same_subs_def)

lemma same_conn_trans: "same_conn c d \<Longrightarrow> same_conn d e \<Longrightarrow> same_conn c e"
  by (simp add: same_conn_def)

lemma same_subs_trans: "same_subs c d \<Longrightarrow> same_subs d e \<Longrightarrow> same_subs c e"
  by (simp add: same_subs_def)

lemma conn_ok_cong:
  "same_conn c d \<Longrightarrow> monitor_ok d = monitor_ok c"
  "same_conn c d \<Longrightarrow> socket_ok d = socket_ok c"
  "same_conn c d \<Longrightarrow> isOpen d = isOpen c"
  "same_conn c d \<Longrightarrow> isActive d = isActive c"
  by (simp_all add: same_conn_def monitor_ok_def socket_ok_def isRunning_def isOpen_def isActive_def
      isState_def getState_def split: option.splits)

lemma subs_ok_cong: "same_subs c d \<Longrightarrow> subs_ok d = subs_ok c"
  by (simp add: same_subs_def subs_ok_def)

lemmas conn_defs [cable_defs] =
  conn_open_def new_socket_def monitor_start_def startPolling_def poll_def stopPolling_def
  upd_mon_def conn_close_def monitor_stop_def conn_reopen_def reconnectIfStale_def Let_def

lemma conn_same_subs [simp]:
  "same_subs c (poll c)" "same_subs c (fst (conn_open c))" "same_subs c (conn_close b c)"
  "same_subs c (conn_reopen c)" "same_subs c (reconnectIfStale c)"
  "same_subs c (ensureActiveConnection c)" "same_subs c (set_ready r c)"
  "same_subs c (recordMessage c)" "same_subs c (recordConnect c)" "same_subs c (recordDisconnect c)"
  by (simp_all add: cable_defs same_subs_def ensureActiveConnection_def set_ready_def
      recordMessage_def recordConnect_def recordDisconnect_def)

definition conn_inv :: "cable \<Rightarrow> bool" where
  "conn_inv c \<longleftrightarrow> monitor_ok c \<and> socket_ok c"

lemma conn_inv_cong: "same_conn c d \<Longrightarrow> conn_inv d = conn_inv c"
  by (simp add: conn_inv_def conn_ok_cong)

lemma conn_inv_frame [simp]:
  "conn_inv (c\<lparr>disconnected := b1\<rparr>) = conn_inv c"
  "conn_inv (c\<lparr>reopenTimers := n\<rparr>) = conn_inv c"
  "conn_inv (c\<lparr>visibilityTimers := n\<rparr>) = conn_inv c"
  "conn_inv (c\<lparr>reconnectAttempted := b2\<rparr>) = conn_inv c"
  "conn_inv (c\<lparr>retryTimeout := b3\<rparr>) = conn_inv c"
  "conn_inv (c\<lparr>subscriptions := ss\<rparr>) = conn_inv c"
  "conn_inv (c\<lparr>next_sub := n\<rparr>) = conn_inv c"
  "conn_inv (c\<lparr>subprotocols := ps\<rparr>) = conn_inv c"
  by (rule conn_inv_cong, simp add: same_conn_def)+

lemma conn_inv_start: "conn_inv c \<Longrightarrow> conn_inv (monitor_start c)"
  by (auto simp: conn_inv_def monitor_ok_def socket_ok_def isRunning_def monitor_start_def
      startPolling_def poll_def stopPolling_def upd_mon_def split: option.splits)

lemma conn_inv_stop: "conn_inv c \<Longrightarrow> conn_inv (monitor_stop c)"
  by (auto simp: conn_inv_def monitor_ok_def socket_ok_def isRunning_def monitor_stop_def
      stopPolling_def upd_mon_def split: option.splits)

lemma conn_inv_new_socket: "conn_inv c \<Longrightarrow> conn_inv (new_socket c)"
  by (auto simp: conn_inv_def monitor_ok_def socket_ok_def isRunning_def new_socket_def
      split: option.splits)

lemma conn_inv_ready: "conn_inv c \<Longrightarrow> conn_inv (set_ready r c)"
  by (auto simp: conn_inv_def monitor_ok_def socket_ok_def isRunning_def set_ready_def
      split: option.splits)

lemma conn_inv_open: "conn_inv c \<Longrightarrow> conn_inv (fst (conn_open c))"
  by (simp add: conn_open_def conn_inv_start conn_inv_new_socket)

lemma conn_close_eq:
  "conn_close b c =
     (let c1 = (if \<not> b then monitor_stop c else c) in if isOpen c1 then set_ready CLOSING c1 else c1)"
  by (simp add: conn_close_def set_ready_def Let_def)

lemma conn_inv_close: "conn_inv c \<Longrightarrow> conn_inv (conn_close b c)"
  by (simp add: conn_close_eq Let_def conn_inv_ready conn_inv_stop)

lemma conn_inv_reopen: "conn_inv c \<Longrightarrow> conn_inv (conn_reopen c)"
  by (simp add: conn_reopen_def Let_def conn_inv_open conn_inv_close)

lemma conn_inv_attempts [simp]:
  "conn_inv (upd_mon (\<lambda>m. m\<lparr>reconnectAttempts := f m\<rparr>) c) = conn_inv c"
  by (simp add: conn_inv_def monitor_ok_def socket_ok_def isRunning_def upd_mon_def
      split: option.splits)

lemma conn_inv_reconnect: "conn_inv c \<Longrightarrow> conn_inv (reconnectIfStale c)"
  by (simp add: reconnectIfStale_def Let_def conn_inv_reopen)

lemma conn_inv_records [simp]:
  "conn_inv (recordMessage c) = conn_inv c"
  "conn_inv (recordConnect c) = conn_inv c"
  "conn_inv (recordDisconnect c) = conn_inv c"
  by (simp_all add: conn_inv_def monitor_ok_def socket_ok_def isRunning_def upd_mon_def
      recordMessage_def recordConnect_def recordDisconnect_def split: option.splits)

text \<open>The poll timer fires only while it is armed, and stays so: the monitor keeps running.\<close>

lemma isRunning_open [simp]: "isRunning c \<Longrightarrow> isRunning (fst (conn_open c))"
  by (simp add: conn_open_def monitor_start_def new_socket_def isRunning_def)

lemma isRunning_reconnect: "isRunning c \<Longrightarrow> isRunning (reconnectIfStale c)"
proof -
  assume run: "isRunning c"
  let ?c1 = "upd_mon (\<lambda>m. m\<lparr>reconnectAttempts := Suc (reconnectAttempts m)\<rparr>) c"
  have run1: "isRunning ?c1" using run by (simp add: isRunning_def upd_mon_def)
  have "isRunning (conn_reopen ?c1)"
    using run1 by (simp add: conn_reopen_def conn_close_def Let_def) (simp add: isRunning_def)
  with run run1 show ?thesis by (simp add: reconnectIfStale_def Let_def)
qed

lemma conn_inv_poll: "conn_inv c \<Longrightarrow> isRunning c \<Longrightarrow> conn_inv (poll c)"
  by (auto simp: conn_inv_def monitor_ok_def socket_ok_def isRunning_def poll_def upd_mon_def
      split: option.splits)

lemma conn_inv_poll_timer:
  "conn_inv c \<Longrightarrow> pollTimeout (mon c) \<noteq> None \<Longrightarrow> conn_inv (poll (reconnectIfStale c))"
  by (intro conn_inv_poll conn_inv_reconnect isRunning_reconnect)
    (auto simp: conn_inv_def monitor_ok_def)

subsection \<open>The subscription lists\<close>

lemma same_conn_fold: "(\<And>x d. same_conn d (f x d)) \<Longrightarrow> same_conn c (fold f xs c)"
  by (induction xs arbitrary: c) (auto intro: same_conn_trans)

lemma same_conn_basic [simp]:
  "same_conn c (guarantee s c)" "same_conn c (guarantor_forget s c)"
  "same_conn c (notify_sub nm args s c)" "same_conn c (subs_forget s c)"
  "same_conn c (fst (conn_send f c))"
  by (simp_all add: same_conn_def guarantee_def startGuaranteeing_def guarantor_forget_def
      notify_sub_def subs_forget_def conn_send_def)

lemma same_conn_subscribe [simp]: "same_conn c (subscribe s c)"
proof -
  have "same_conn c (fst (sendCommand s ''subscribe'' c))" by (simp add: sendCommand_def)
  then show ?thesis
    by (auto simp: subscribe_def split: prod.splits intro: same_conn_trans)
qed

lemma same_conn_lists [simp]:
  "same_conn c (subs_reload c)" "same_conn c (confirmSubscription i c)"
  "same_conn c (notifyAll nm args c)" "same_conn c (fst (notify_id i nm args c))"
  "same_conn c (subs_reject i c)" "same_conn c (subs_remove s c)"
  "same_conn c (fst (perform s action data c))"
proof -
  show "same_conn c (subs_reload c)" by (simp add: subs_reload_def same_conn_fold)
  show "same_conn c (confirmSubscription i c)" by (simp add: confirmSubscription_def same_conn_fold)
  show "same_conn c (notifyAll nm args c)" by (simp add: notifyAll_def same_conn_fold)
  show "same_conn c (fst (notify_id i nm args c))"
    by (simp add: notify_id_def same_conn_fold split: option.splits)
  have "same_conn d (notify_sub ''rejected'' [] s (subs_forget s d))" for s d
    by (rule same_conn_trans [of _ "subs_forget s d"]) simp_all
  then show "same_conn c (subs_reject i c)" by (simp add: subs_reject_def same_conn_fold)
  have "same_conn c (fst (sendCommand s ''unsubscribe'' (subs_forget s c)))"
    by (rule same_conn_trans [of _ "subs_forget s c"]) (simp_all add: sendCommand_def)
  then show "same_conn c (subs_remove s c)" by (simp add: subs_remove_def Let_def)
  show "same_conn c (fst (perform s action data c))" by (simp add: perform_def sub_send_def)
qed

text \<open>What each operation does to the lists.\<close>

lemma subs_ok_guarantee:
  "subs_ok c \<Longrightarrow> s \<in> set (subscriptions c) \<Longrightarrow> subs_ok (guarantee s c)"
  by (auto simp: subs_ok_def guarantee_def startGuaranteeing_def list_ex_iff same_sub_def)

lemma subs_ok_forget:
  "subs_ok c \<Longrightarrow> subs_ok (guarantor_forget s c)" "subs_ok c \<Longrightarrow> subs_ok (subs_forget s c)"
  by (auto simp: subs_ok_def guarantor_forget_def subs_forget_def distinct_map_filter)

lemma guarantee_subscriptions [simp]: "subscriptions (guarantee s c) = subscriptions c"
  by (simp add: guarantee_def startGuaranteeing_def)

lemma subscribe_fields [simp]:
  "subscriptions (subscribe s c) = subscriptions c" "next_sub (subscribe s c) = next_sub c"
  "called (subscribe s c) = called c"
  by (simp_all add: subscribe_def sendCommand_def conn_send_def guarantee_def startGuaranteeing_def)

lemma subs_ok_subscribe:
  "subs_ok c \<Longrightarrow> s \<in> set (subscriptions c) \<Longrightarrow> subs_ok (subscribe s c)"
proof -
  assume ok: "subs_ok c" and s: "s \<in> set (subscriptions c)"
  then have "subs_ok (guarantee s (c\<lparr>sent := sent c @ [f]\<rparr>))" for f
    by (intro subs_ok_guarantee) (simp_all add: subs_ok_def)
  with ok show ?thesis by (simp add: subscribe_def sendCommand_def conn_send_def)
qed

lemma subs_ok_subscribe_all:
  "subs_ok c \<Longrightarrow> set xs \<subseteq> set (subscriptions c) \<Longrightarrow> subs_ok (fold subscribe xs c)"
  by (induction xs arbitrary: c) (simp_all add: subs_ok_subscribe)

lemma subs_ok_notify [simp]: "subs_ok (notify_sub nm args s c) = subs_ok c"
  by (simp add: notify_sub_def subs_ok_def)

lemma subs_ok_notify_all [simp]: "subs_ok (fold (notify_sub nm args) xs c) = subs_ok c"
  by (induction xs arbitrary: c) simp_all

lemma subs_ok_fold:
  "(\<And>x d. subs_ok d \<Longrightarrow> subs_ok (f x d)) \<Longrightarrow> subs_ok c \<Longrightarrow> subs_ok (fold f xs c)"
  by (induction xs arbitrary: c) auto

lemma subs_ok_lists:
  assumes "subs_ok c"
  shows "subs_ok (subs_reload c)" "subs_ok (confirmSubscription i c)" "subs_ok (subs_reject i c)"
    "subs_ok (fst (notify_id i nm args c))" "subs_ok (notifyAll nm args c)"
  using assms
  by (simp_all add: subs_reload_def subs_ok_subscribe_all confirmSubscription_def subs_reject_def
      subs_ok_fold subs_ok_forget notify_id_def notifyAll_def split: option.splits)

lemma subs_ok_send [simp]: "subs_ok (fst (conn_send f c)) = subs_ok c"
  by (simp add: conn_send_def subs_ok_def)

lemma subs_ok_frame [simp]:
  "subs_ok (c\<lparr>disconnected := b1\<rparr>) = subs_ok c"
  "subs_ok (c\<lparr>reopenTimers := n\<rparr>) = subs_ok c"
  "subs_ok (c\<lparr>visibilityTimers := n\<rparr>) = subs_ok c"
  "subs_ok (c\<lparr>reconnectAttempted := b2\<rparr>) = subs_ok c"
  "subs_ok (c\<lparr>retryTimeout := b3\<rparr>) = subs_ok c"
  "subs_ok (c\<lparr>subprotocols := ps\<rparr>) = subs_ok c"
  "subs_ok (c\<lparr>now_ms := t\<rparr>) = subs_ok c"
  "subs_ok (c\<lparr>webSocket := so\<rparr>) = subs_ok c"
  by (simp_all add: subs_ok_def)

lemma subs_ok_create: "subs_ok c \<Longrightarrow> subs_ok (fst (subs_create ch mixin c))"
proof -
  assume ok: "subs_ok c"
  let ?s = "\<lparr>sub_ref = next_sub c, sub_identifier = json_stringify (channel_params ch),
    callbacks = mixin\<rparr>"
  let ?c1 = "c\<lparr>next_sub := Suc (next_sub c), subscriptions := subscriptions c @ [?s]\<rparr>"
  let ?c2 = "ensureActiveConnection ?c1"
  have "subs_ok ?c1"
    using ok by (auto simp: subs_ok_def less_Suc_eq)
  then have ok2: "subs_ok ?c2" using subs_ok_cong [of ?c1 ?c2] by simp
  have in2: "?s \<in> set (subscriptions ?c2)"
    using conn_same_subs(6) [of ?c1] by (simp add: same_subs_def)
  show ?thesis
    using subs_ok_subscribe [of "notify_sub ''initialized'' [] ?s ?c2" ?s] ok2 in2
    by (simp add: subs_create_def subs_add_def Let_def) (simp add: notify_sub_def)
qed

lemma conn_inv_ensure: "conn_inv c \<Longrightarrow> conn_inv (ensureActiveConnection c)"
  by (simp add: ensureActiveConnection_def conn_inv_open)

lemma conn_inv_create: "conn_inv c \<Longrightarrow> conn_inv (fst (subs_create ch mixin c))"
  by (simp add: subs_create_def subs_add_def Let_def conn_inv_cong [OF same_conn_subscribe]
      conn_inv_cong [OF same_conn_basic(3)] conn_inv_ensure)

lemma subs_ok_remove: "subs_ok c \<Longrightarrow> subs_ok (subs_remove s c)"
  by (simp add: subs_remove_def Let_def subs_ok_forget sendCommand_def)

lemma cable_inv_iff: "cable_inv c \<longleftrightarrow> conn_inv c \<and> subs_ok c"
  by (simp add: cable_inv_def conn_inv_def)

lemma cable_inv_on_open: "cable_inv c \<Longrightarrow> cable_inv (on_open c)"
  by (auto simp: cable_inv_iff on_open_def Let_def conn_inv_close
      subs_ok_cong [OF conn_same_subs(3)])

lemma cable_inv_on_close: "cable_inv c \<Longrightarrow> cable_inv (on_close c)"
  by (auto simp: cable_inv_iff on_close_def Let_def conn_inv_cong [OF same_conn_lists(3)]
      subs_ok_lists subs_ok_cong [OF conn_same_subs(10)])

lemma cable_inv_on_message: "cable_inv c \<Longrightarrow> cable_inv (fst (on_message m c))"
proof -
  assume inv: "cable_inv c"
  let ?c1 = "recordMessage c"
  have inv1: "conn_inv ?c1" "subs_ok ?c1"
    using inv by (simp_all add: cable_inv_iff subs_ok_cong [OF conn_same_subs(8)])
  have conf: "conn_inv (confirmSubscription i ?c1)" "subs_ok (confirmSubscription i ?c1)" for i
    using inv1 by (simp_all add: conn_inv_cong [OF same_conn_lists(2)] subs_ok_lists)
  have rc: "conn_inv (recordConnect d)" "subs_ok (recordConnect d)" if "conn_inv d" "subs_ok d" for d
    using that by (simp_all add: subs_ok_cong [OF conn_same_subs(9)])
  show ?thesis
    using inv inv1 conf
    by (auto simp: cable_inv_iff on_message_def Let_def conn_inv_close rc subs_ok_lists
        conn_inv_cong [OF same_conn_lists(1)] conn_inv_cong [OF same_conn_lists(4)]
        conn_inv_cong [OF same_conn_lists(5)] subs_ok_cong [OF conn_same_subs(3)]
        split: option.splits message_type.splits)
qed

lemma conn_inv_socket:
  "conn_inv c \<Longrightarrow> webSocket c = Some w \<Longrightarrow>
     conn_inv (c\<lparr>webSocket := Some (w\<lparr>readyState := r, ws_protocol := p\<rparr>)\<rparr>)"
  by (auto simp: conn_inv_def monitor_ok_def socket_ok_def isRunning_def)

lemma cable_inv_event: "cable_inv c \<Longrightarrow> cable_inv (handle_event e c)"
proof (cases e)
  case (Tick d)
  assume "cable_inv c"
  with Tick show ?thesis
    by (auto simp: cable_inv_iff conn_inv_def monitor_ok_def socket_ok_def isRunning_def
        split: option.splits)
next
  case (Sock_open p)
  assume "cable_inv c"
  with Sock_open show ?thesis
    by (auto simp: cable_inv_iff [of "_\<lparr>webSocket := _\<rparr>"] cable_inv_iff [of c]
        intro!: cable_inv_on_open conn_inv_socket split: option.splits)
next
  case Sock_close
  assume "cable_inv c"
  with Sock_close show ?thesis
    by (auto simp: cable_inv_iff [of "set_ready _ _"] cable_inv_iff [of c] conn_inv_ready
        subs_ok_cong [OF conn_same_subs(7)] intro!: cable_inv_on_close split: option.splits)
next
  case Poll_timer
  assume "cable_inv c"
  with Poll_timer show ?thesis
    by (auto simp: cable_inv_iff conn_inv_poll_timer subs_ok_cong [OF conn_same_subs(1)]
        subs_ok_cong [OF conn_same_subs(5)] split: option.splits)
next
  case Retry_timer
  assume "cable_inv c"
  then have "conn_inv (c\<lparr>retryTimeout := False\<rparr>)" "subs_ok (c\<lparr>retryTimeout := False\<rparr>)"
    "set (pendingSubscriptions c) \<subseteq> set (subscriptions (c\<lparr>retryTimeout := False\<rparr>))"
    by (simp_all add: cable_inv_iff) (simp add: subs_ok_def)
  with Retry_timer \<open>cable_inv c\<close> show ?thesis
    by (simp add: cable_inv_iff retrySubscribing_fire_def subs_ok_subscribe_all
        conn_inv_cong [OF same_conn_fold [OF same_conn_subscribe]])
next
  case Reopen_timer
  assume "cable_inv c"
  with Reopen_timer show ?thesis
    by (auto simp: cable_inv_iff conn_inv_open subs_ok_cong [OF conn_same_subs(2)]
        split: nat.splits)
next
  case Visibility_timer
  assume "cable_inv c"
  with Visibility_timer show ?thesis
    by (auto simp: cable_inv_iff visibilityDidChange_fire_def conn_inv_reopen
        subs_ok_cong [OF conn_same_subs(4)] split: nat.splits)
qed (auto simp: cable_inv_on_message, auto simp: cable_inv_iff)

lemma cable_step_inv: "cable_step c c' \<Longrightarrow> cable_inv c \<Longrightarrow> cable_inv c'"
proof (induction rule: cable_step.induct)
  case (step_event c e)
  then show ?case by (rule cable_inv_event)
next
  case (step_perform c s action data)
  have "conn_inv (fst (perform s action data c)) = conn_inv c"
    by (rule conn_inv_cong) simp
  with step_perform show ?case by (simp add: cable_inv_iff perform_def sub_send_def)
qed (auto simp: cable_inv_iff consumer_connect_def consumer_disconnect_def addSubProtocol_def
    conn_inv_open conn_inv_close conn_inv_create subs_ok_create subs_ok_remove
    subs_ok_cong [OF conn_same_subs(2)] subs_ok_cong [OF conn_same_subs(3)]
    conn_inv_cong [OF same_conn_lists(6)])

lemma cable_inv_new: "0 < t \<Longrightarrow> cable_inv (new_consumer u t rnd)"
  by (simp add: cable_inv_def monitor_ok_def socket_ok_def subs_ok_def new_consumer_def
      init_monitor_def isRunning_def)

lemma cable_reachable_inv: "cable_reachable c \<Longrightarrow> cable_inv c"
  by (induction rule: cable_reachable.induct)
    (auto simp: createConsumer_def Let_def cable_inv_new intro: cable_step_inv)

subsection \<open>What the commands do on an open connection\<close>

lemma isOpen_cong: "webSocket d = webSocket c \<Longrightarrow> isOpen d = isOpen c"
  by (simp add: isOpen_def isState_def getState_def)

lemma sent_subscribe:
  "isOpen c \<Longrightarrow> sent (subscribe s c) = sent c @ [Frame ''subscribe'' (sub_identifier s) None]"
  by (simp add: subscribe_def sendCommand_def conn_send_def guarantee_def startGuaranteeing_def)

lemma retry_subscribe: "isOpen c \<Longrightarrow> retryTimeout (subscribe s c)"
  by (simp add: subscribe_def sendCommand_def conn_send_def guarantee_def startGuaranteeing_def)

lemma isOpen_subscribe [simp]: "isOpen (subscribe s c) = isOpen c"
  by (rule conn_ok_cong(3)) simp

definition subscribe_frame :: "subscription \<Rightarrow> frame" where
  "subscribe_frame s = Frame ''subscribe'' (sub_identifier s) None"

lemma sent_subscribe_all:
  "isOpen c \<Longrightarrow> sent (fold subscribe xs c) = sent c @ map subscribe_frame xs"
  by (induction xs arbitrary: c) (simp_all add: sent_subscribe subscribe_frame_def)

lemma retry_subscribe_all:
  "isOpen c \<Longrightarrow> xs \<noteq> [] \<Longrightarrow> retryTimeout (fold subscribe xs c)"
proof (induction xs arbitrary: c)
  case (Cons s xs)
  then show ?case by (cases "xs = []") (simp_all add: retry_subscribe)
qed simp

lemma pending_subscribe:
  "isOpen c \<Longrightarrow>
     sub_ref ` set (pendingSubscriptions (subscribe s c))
       = insert (sub_ref s) (sub_ref ` set (pendingSubscriptions c))"
  by (auto simp: subscribe_def sendCommand_def conn_send_def guarantee_def startGuaranteeing_def
      list_ex_iff same_sub_def)

lemma pending_subscribe_all:
  "isOpen c \<Longrightarrow>
     sub_ref ` set (pendingSubscriptions (fold subscribe xs c))
       = sub_ref ` set xs \<union> sub_ref ` set (pendingSubscriptions c)"
  by (induction xs arbitrary: c) (auto simp: pending_subscribe)

lemma pending_subscribe_old:
  "isOpen c \<Longrightarrow> list_ex (same_sub s) (pendingSubscriptions c) \<Longrightarrow>
     pendingSubscriptions (subscribe s c) = pendingSubscriptions c"
  by (simp add: subscribe_def sendCommand_def conn_send_def guarantee_def startGuaranteeing_def)

lemma pending_subscribe_all_old:
  "isOpen c \<Longrightarrow> set xs \<subseteq> set (pendingSubscriptions c) \<Longrightarrow>
     pendingSubscriptions (fold subscribe xs c) = pendingSubscriptions c"
proof (induction xs arbitrary: c)
  case (Cons s xs)
  have "list_ex (same_sub s) (pendingSubscriptions c)"
    using Cons.prems(2) by (auto simp: list_ex_iff same_sub_def)
  with Cons show ?case by (simp add: pending_subscribe_old)
qed simp

lemma pending_confirm:
  "pendingSubscriptions (fold guarantor_forget xs c)
     = filter (\<lambda>t. sub_ref t \<notin> sub_ref ` set xs) (pendingSubscriptions c)"
  by (induction xs arbitrary: c)
    (auto simp: guarantor_forget_def same_sub_def intro!: filter_cong)

lemma confirm_keeps [simp]:
  "subscriptions (fold guarantor_forget xs c) = subscriptions c"
  by (induction xs arbitrary: c) (simp_all add: guarantor_forget_def)

text \<open>A confirmed identifier is no longer pending; other subscriptions still are.\<close>

lemma pending_confirmed:
  assumes "cable_inv c"
  shows "pendingSubscriptions (confirmSubscription (Some i) c)
    = filter (\<lambda>s. sub_identifier s \<noteq> i) (pendingSubscriptions c)"
proof -
  have inj: "s = t" if "s \<in> set (subscriptions c)" "t \<in> set (subscriptions c)" "sub_ref s = sub_ref t"
    for s t
    using assms that by (auto simp: cable_inv_iff subs_ok_def distinct_map dest: inj_onD)
  have "set (pendingSubscriptions c) \<subseteq> set (subscriptions c)"
    using assms by (simp add: cable_inv_iff subs_ok_def)
  then have "sub_ref t \<notin> sub_ref ` set (findAll (Some i) c) \<longleftrightarrow> sub_identifier t \<noteq> i"
    if "t \<in> set (pendingSubscriptions c)" for t
    using that inj by (fastforce simp: findAll_def)
  then show ?thesis
    by (simp add: confirmSubscription_def pending_confirm cong: filter_cong)
qed

subsection \<open>A disconnected client stays so\<close>

text \<open>
  When the monitor is stopped and no reopen or visibility timer is pending, nothing the environment
  does makes the client open a socket.
\<close>

definition quiet :: "cable \<Rightarrow> bool" where
  "quiet c \<longleftrightarrow>
     cable_inv c \<and> \<not> isRunning c \<and> reopenTimers c = 0 \<and> visibilityTimers c = 0"

definition timers_of :: "cable \<Rightarrow> nat \<times> nat \<times> nat" where
  "timers_of c = (reopenTimers c, visibilityTimers c, next_ws c)"

lemma timers_basic [simp]:
  "timers_of (subscribe s c) = timers_of c" "timers_of (guarantor_forget s c) = timers_of c"
  "timers_of (notify_sub nm args s c) = timers_of c" "timers_of (subs_forget s c) = timers_of c"
  "timers_of (conn_close b c) = timers_of c" "timers_of (upd_mon f c) = timers_of c"
  "timers_of (set_ready r c) = timers_of c"
  by (simp_all add: timers_of_def subscribe_def sendCommand_def conn_send_def guarantee_def
      startGuaranteeing_def guarantor_forget_def notify_sub_def subs_forget_def conn_close_def
      Let_def monitor_stop_def stopPolling_def upd_mon_def set_ready_def)

lemma timers_fold: "(\<And>x d. timers_of (f x d) = timers_of d) \<Longrightarrow> timers_of (fold f xs c) = timers_of c"
  by (induction xs arbitrary: c) simp_all

lemma timers_frame [simp]:
  "timers_of (c\<lparr>disconnected := b\<rparr>) = timers_of c"
  "timers_of (c\<lparr>reconnectAttempted := b\<rparr>) = timers_of c"
  "timers_of (c\<lparr>retryTimeout := b\<rparr>) = timers_of c"
  "timers_of (c\<lparr>webSocket := so\<rparr>) = timers_of c"
  "timers_of (c\<lparr>now_ms := t\<rparr>) = timers_of c"
  by (simp_all add: timers_of_def)

lemma timers_message: "timers_of (fst (on_message m c)) = timers_of c"
  by (simp add: on_message_def Let_def recordMessage_def recordConnect_def subs_reload_def
      timers_fold confirmSubscription_def subs_reject_def notify_id_def
      split: option.splits message_type.splits)

lemma timers_open_close:
  "timers_of (on_open c) = timers_of c" "timers_of (on_close c) = timers_of c"
  by (simp_all add: on_open_def on_close_def Let_def recordDisconnect_def notifyAll_def timers_fold)

lemma running_cong: "same_conn c d \<Longrightarrow> isRunning d = isRunning c"
  by (simp add: same_conn_def isRunning_def)

lemma running_records [simp]:
  "isRunning (recordMessage c) = isRunning c" "isRunning (recordConnect c) = isRunning c"
  "isRunning (recordDisconnect c) = isRunning c" "isRunning (c\<lparr>disconnected := b\<rparr>) = isRunning c"
  "isRunning (c\<lparr>reconnectAttempted := b\<rparr>) = isRunning c"
  "isRunning (c\<lparr>retryTimeout := b\<rparr>) = isRunning c"
  "isRunning (set_ready r c) = isRunning c" "isRunning (c\<lparr>webSocket := so\<rparr>) = isRunning c"
  "isRunning (c\<lparr>now_ms := t\<rparr>) = isRunning c"
  by (simp_all add: isRunning_def recordMessage_def recordConnect_def recordDisconnect_def upd_mon_def
      set_ready_def)

lemma not_running_close: "\<not> isRunning c \<Longrightarrow> \<not> isRunning (conn_close b c)"
  by (simp add: conn_close_eq Let_def monitor_stop_def)

lemma not_running_message: "\<not> isRunning c \<Longrightarrow> \<not> isRunning (fst (on_message m c))"
  by (simp add: on_message_def Let_def not_running_close running_cong [OF same_conn_lists(1)]
      running_cong [OF same_conn_lists(2)] running_cong [OF same_conn_lists(4)]
      running_cong [OF same_conn_lists(5)] split: option.splits message_type.splits)

lemma not_running_open_close:
  "\<not> isRunning c \<Longrightarrow> \<not> isRunning (on_open c)" "\<not> isRunning c \<Longrightarrow> \<not> isRunning (on_close c)"
  by (simp_all add: on_open_def on_close_def Let_def not_running_close
      running_cong [OF same_conn_lists(3)])

lemma quiet_event:
  assumes "quiet c"
  shows "quiet (handle_event e c)" and "next_ws (handle_event e c) = next_ws c"
proof -
  have inv: "cable_inv c" and nr: "\<not> isRunning c" and t0: "reopenTimers c = 0" "visibilityTimers c = 0"
    using assms by (auto simp: quiet_def)
  have off: "pollTimeout (mon c) = None" "\<not> visibility_listener (mon c)"
    using inv nr by (auto simp: cable_inv_def monitor_ok_def)
  have "timers_of (handle_event e c) = timers_of c \<and> \<not> isRunning (handle_event e c)"
  proof (cases e)
    case Retry_timer
    then show ?thesis
      using nr by (simp add: retrySubscribing_fire_def timers_fold
          running_cong [OF same_conn_fold [OF same_conn_subscribe]])
  qed (use nr off t0 in \<open>auto simp: timers_message timers_open_close not_running_message
      not_running_open_close split: option.splits\<close>)
  then show "quiet (handle_event e c)" "next_ws (handle_event e c) = next_ws c"
    using t0 cable_inv_event [OF inv] by (auto simp: quiet_def timers_of_def)
qed

lemma quiet_events:
  "quiet c \<Longrightarrow> quiet (fold handle_event es c) \<and> next_ws (fold handle_event es c) = next_ws c"
  by (induction es arbitrary: c) (simp_all add: quiet_event)

subsection \<open>Back-off\<close>

lemma backoff_bounds:
  "1 \<le> (1 + reconnectionBackoffRate) ^ n"
  "n \<le> 10 \<Longrightarrow> (1 + reconnectionBackoffRate) ^ n \<le> (1 + reconnectionBackoffRate) ^ 10"
  by (simp_all add: reconnectionBackoffRate_def power_increasing)

subsection \<open>Properties\<close>

definition demo_socket :: "ready_state \<Rightarrow> websocket" where
  "demo_socket r = \<lparr>ws_id = 0, readyState = r, ws_protocol = ''actioncable-v1-json'',
     handlers_on = True, ws_requested = protocols, ws_url = ''/cable''\<rparr>"

definition demo_sub :: "nat \<Rightarrow> string \<Rightarrow> subscription" where
  "demo_sub n i = \<lparr>sub_ref = n, sub_identifier = i, callbacks = [''received'']\<rparr>"

definition demo_cable :: "ready_state \<Rightarrow> subscription list \<Rightarrow> cable" where
  "demo_cable r ss = (new_consumer ''/cable'' 1000 (\<lambda>_. 0))\<lparr>webSocket := Some (demo_socket r),
     next_ws := 1, subscriptions := ss, next_sub := 5\<rparr>"

lemma demo_isOpen [simp]: "isOpen (demo_cable OPEN ss)" "isProtocolSupported (demo_cable OPEN ss)"
  by (simp_all add: demo_cable_def demo_socket_def isOpen_def isState_def getState_def
      isProtocolSupported_def getProtocol_def supportedProtocols_def protocols_def)

text \<open>
  C23: In every reachable state of the cable client the monitor runs exactly while its poll timer is armed
  and it listens for visibility changes, the socket in use has the client's handlers, subscriptions
  have distinct references, and every pending subscription is one of the current subscriptions, once.
\<close>

theorem cable_invariant:
  assumes "cable_reachable c"
  shows "(isRunning c \<longleftrightarrow> pollTimeout (mon c) \<noteq> None) \<and>
    (isRunning c \<longleftrightarrow> visibility_listener (mon c)) \<and>
    (case webSocket c of None \<Rightarrow> True | Some ws \<Rightarrow> handlers_on ws) \<and>
    distinct (map sub_ref (subscriptions c)) \<and>
    set (pendingSubscriptions c) \<subseteq> set (subscriptions c) \<and>
    distinct (map sub_ref (pendingSubscriptions c))"
  using cable_reachable_inv [OF assms]
  by (auto simp: cable_inv_def monitor_ok_def socket_ok_def subs_ok_def split: option.splits)

lemma connected_reachable:
  "cable_reachable (fst (consumer_connect (createConsumer (\<lambda>_. None) 1 (\<lambda>_. 0))))"
  by (rule reach_cable_step [OF reach_new]) (auto intro: step_connect)

theorem cable_invariant_witness:
  "let c = fst (consumer_connect (createConsumer (\<lambda>_. None) 1 (\<lambda>_. 0))) in
     isRunning c \<and> pollTimeout (mon c) \<noteq> None"
  using cable_invariant [OF connected_reachable]
  by (simp add: consumer_connect_def conn_open_def createConsumer_def getConfig_def new_consumer_def
      isActive_def isState_def getState_def monitor_start_def new_socket_def isRunning_def
      init_monitor_def upd_mon_def startPolling_def poll_def stopPolling_def Let_def)

text \<open>
  C24: No subscription is lost over a reconnection: when the server's welcome arrives, the client sends a
  subscribe command for each of its subscriptions, in order, makes all of them pending with the retry
  timer armed, and resets the count of reconnection attempts.
\<close>

theorem welcome_resubscribes:
  assumes "isOpen c" and "isProtocolSupported c" and "in_type m = Some ''welcome''"
  shows "let c' = handle_event (Sock_message m) c in
    sent c' = sent c @ map (\<lambda>s. Frame ''subscribe'' (sub_identifier s) None) (subscriptions c) \<and>
    sub_ref ` set (subscriptions c) \<subseteq> sub_ref ` set (pendingSubscriptions c') \<and>
    (subscriptions c \<noteq> [] \<longrightarrow> retryTimeout c') \<and>
    reconnectAttempts (mon c') = 0 \<and> subscriptions c' = subscriptions c"
proof -
  define c1 where "c1 = recordMessage c"
  define c2 where "c2 = recordConnect (if triedToReconnect c1 then c1\<lparr>reconnectAttempted := True\<rparr> else c1)"
  have ev: "handle_event (Sock_message m) c = fold subscribe (subscriptions c2) c2"
    using assms by (simp add: on_message_def Let_def message_types_def c1_def c2_def subs_reload_def)
  have c2: "webSocket c2 = webSocket c" "subscriptions c2 = subscriptions c" "sent c2 = sent c"
    "reconnectAttempts (mon c2) = 0"
    by (simp_all add: c1_def c2_def recordMessage_def recordConnect_def upd_mon_def)
  have open2: "isOpen c2" using assms(1) isOpen_cong [OF c2(1)] by simp
  have keep: "same_conn c2 (fold subscribe (subscriptions c2) c2)" by (rule same_conn_fold) simp
  have subs: "subscriptions (fold subscribe xs d) = subscriptions d" for xs d
    by (induction xs arbitrary: d) simp_all
  show ?thesis
    using pending_subscribe_all [OF open2, of "subscriptions c2"]
      retry_subscribe_all [OF open2, of "subscriptions c2"]
      sent_subscribe_all [OF open2, of "subscriptions c2"] keep
    unfolding ev Let_def by (auto simp: c2 subs same_conn_def subscribe_frame_def [abs_def])
qed

theorem welcome_resubscribes_witness:
  "let m = \<lparr>in_identifier = None, in_message = JNull, in_reconnect = None, in_type = Some ''welcome''\<rparr>;
       c' = handle_event (Sock_message m) (demo_cable OPEN [demo_sub 0 ''a'', demo_sub 1 ''b'']) in
    sent c' = [Frame ''subscribe'' ''a'' None, Frame ''subscribe'' ''b'' None] \<and>
    {0, 1} \<subseteq> sub_ref ` set (pendingSubscriptions c') \<and> retryTimeout c'"
proof -
  let ?m = "\<lparr>in_identifier = None, in_message = JNull, in_reconnect = None, in_type = Some ''welcome''\<rparr>"
  have s: "subscriptions (demo_cable OPEN ss) = ss" "sent (demo_cable OPEN ss) = []" for ss
    by (simp_all add: demo_cable_def new_consumer_def)
  show ?thesis
    using welcome_resubscribes [OF demo_isOpen, of ?m "[demo_sub 0 ''a'', demo_sub 1 ''b'']"]
    unfolding Let_def s by (simp add: demo_sub_def)
qed

text \<open>
  The guarantor repeats what is not confirmed and only that: when the server confirms an identifier,
  exactly the subscriptions with this identifier stop being pending, and when the retry timer then fires
  on the open connection, a subscribe command is sent for each remaining pending subscription in order;
  the timer is armed again exactly when something is still pending.
\<close>

theorem retry_until_confirmed:
  assumes "cable_inv c" and "isOpen c" and "retryTimeout c"
  shows "let c1 = confirmSubscription (Some i) c; c2 = handle_event Retry_timer c1 in
    pendingSubscriptions c1 = filter (\<lambda>s. sub_identifier s \<noteq> i) (pendingSubscriptions c) \<and>
    sent c2 = sent c @ map (\<lambda>s. Frame ''subscribe'' (sub_identifier s) None) (pendingSubscriptions c1) \<and>
    pendingSubscriptions c2 = pendingSubscriptions c1 \<and>
    (retryTimeout c2 \<longleftrightarrow> pendingSubscriptions c1 \<noteq> [])"
proof -
  define c1 where "c1 = confirmSubscription (Some i) c"
  have forget: "sent (fold guarantor_forget xs d) = sent d \<and>
      retryTimeout (fold guarantor_forget xs d) = retryTimeout d" for xs d
    by (induction xs arbitrary: d) (simp_all add: guarantor_forget_def)
  have conn: "same_conn c c1" unfolding c1_def by simp
  have s1: "sent c1 = sent c" "retryTimeout c1" using forget assms(3)
    by (simp_all add: c1_def confirmSubscription_def)
  let ?d = "c1\<lparr>retryTimeout := False\<rparr>"
  have open_d: "isOpen ?d"
    using assms(2) conn_ok_cong(3) [OF conn] by (simp add: isOpen_def isState_def getState_def)
  have ev: "handle_event Retry_timer c1 = fold subscribe (pendingSubscriptions c1) ?d"
    using s1(2) by (simp add: retrySubscribing_fire_def)
  have "pendingSubscriptions (fold subscribe (pendingSubscriptions c1) ?d) = pendingSubscriptions ?d"
    by (rule pending_subscribe_all_old [OF open_d]) simp
  moreover have "retryTimeout (fold subscribe (pendingSubscriptions c1) ?d)
      \<longleftrightarrow> pendingSubscriptions c1 \<noteq> []"
    using retry_subscribe_all [OF open_d, of "pendingSubscriptions c1"]
    by (cases "pendingSubscriptions c1 = []") simp_all
  ultimately show ?thesis
    using pending_confirmed [OF assms(1), of i] sent_subscribe_all [OF open_d, of "pendingSubscriptions c1"] s1
    unfolding Let_def c1_def [symmetric] ev subscribe_frame_def by simp
qed

lemma retry_demo_inv:
  "cable_inv (demo_cable OPEN [demo_sub 0 ''a'', demo_sub 1 ''b'']
     \<lparr>pendingSubscriptions := [demo_sub 0 ''a'', demo_sub 1 ''b''], retryTimeout := True\<rparr>)"
  by (simp add: cable_inv_def monitor_ok_def socket_ok_def subs_ok_def demo_cable_def demo_socket_def
      demo_sub_def new_consumer_def init_monitor_def isRunning_def)

theorem retry_until_confirmed_witness:
  "let c = demo_cable OPEN [demo_sub 0 ''a'', demo_sub 1 ''b'']
       \<lparr>pendingSubscriptions := [demo_sub 0 ''a'', demo_sub 1 ''b''], retryTimeout := True\<rparr>;
     c1 = confirmSubscription (Some ''a'') c; c2 = handle_event Retry_timer c1 in
    sent c2 = [Frame ''subscribe'' ''b'' None] \<and> retryTimeout c2"
proof -
  let ?c = "demo_cable OPEN [demo_sub 0 ''a'', demo_sub 1 ''b'']
       \<lparr>pendingSubscriptions := [demo_sub 0 ''a'', demo_sub 1 ''b''], retryTimeout := True\<rparr>"
  have o: "isOpen ?c" using isOpen_cong [of ?c "demo_cable OPEN [demo_sub 0 ''a'', demo_sub 1 ''b'']"] by simp
  have s: "sent ?c = []" by (simp add: demo_cable_def new_consumer_def)
  show ?thesis
    using retry_until_confirmed [OF retry_demo_inv o, of "''a''"] s
    by (simp add: Let_def demo_sub_def)
qed

text \<open>
  The delay of the monitor's next poll is at least the stale threshold (6 seconds) and less than
  6 * 1.15^11 seconds (about 28 s) however many attempts have failed, and less than 12 seconds when
  none has; for the same random number it never gets shorter from one failed attempt to the next.
\<close>

theorem poll_interval_bounds:
  assumes "0 \<le> random" and "random < 1"
  shows "6000 \<le> getPollInterval n random \<and>
    (n = 0 \<longrightarrow> getPollInterval n random < 12000) \<and>
    (0 < n \<longrightarrow> getPollInterval n random < 6000 * (115 / 100) ^ 11 \<and>
               getPollInterval n random \<le> getPollInterval (Suc n) random)"
proof (cases "n = 0")
  case True
  with assms show ?thesis
    by (simp add: getPollInterval_def staleThreshold_def)
next
  case False
  define b where "b = (1 + reconnectionBackoffRate) ^ min n 10"
  define j where "j = 1 + reconnectionBackoffRate * random"
  have rate: "reconnectionBackoffRate = 15 / 100" by (simp add: reconnectionBackoffRate_def)
  have b: "1 \<le> b" "b \<le> (115 / 100) ^ 10"
    using backoff_bounds(1) [of "min n 10"] backoff_bounds(2) [of "min n 10"]
    by (simp_all add: b_def rate)
  have j: "1 \<le> j" "j < 115 / 100" using assms by (simp_all add: j_def rate)
  have eq: "getPollInterval n random = 6000 * (b * j)"
    using False by (simp add: getPollInterval_def staleThreshold_def b_def j_def Let_def)
  have "1 * 1 \<le> b * j" using b(1) j(1) by (intro mult_mono) simp_all
  moreover have "b * j < (115 / 100) ^ 10 * (115 / 100)"
    using b j by (intro mult_le_less_imp_less) simp_all
  moreover have "b \<le> (1 + reconnectionBackoffRate) ^ min (Suc n) 10"
    unfolding b_def by (rule power_increasing) (simp_all add: rate)
  then have "b * j \<le> (1 + reconnectionBackoffRate) ^ min (Suc n) 10 * j"
    using j by (intro mult_right_mono) simp_all
  moreover have "(115 / 100 :: real) ^ 11 = (115 / 100) ^ 10 * (115 / 100)"
    using power_Suc2 [of "115 / 100 :: real" 10] by simp
  moreover have "getPollInterval (Suc n) random = 6000 * ((1 + reconnectionBackoffRate) ^ min (Suc n) 10 * j)"
    by (simp only: getPollInterval_def staleThreshold_def j_def Let_def) simp
  ultimately show ?thesis
    unfolding eq using False by linarith
qed

theorem poll_interval_bounds_witness:
  "6000 \<le> getPollInterval 3 (1 / 2) \<and> getPollInterval 3 (1 / 2) < 6000 * (115 / 100) ^ 11"
  using poll_interval_bounds [of "1 / 2" 3] by simp

text \<open>
  C25: A stale connection is reopened: when the poll timer of a running monitor fires, no ping has come for
  more than 6 seconds and the last disconnection is not recent, then the attempt is counted and the poll timer is armed
  again. If the old socket was open or connecting, a reopen timer is pending and the socket is not open any more (an
  open one is asked to close); otherwise a new socket is connecting at once.
\<close>

theorem stale_connection_reopens:
  assumes "cable_inv c" and "pollTimeout (mon c) \<noteq> None" and "connectionIsStale c"
    and "\<not> disconnectedRecently c"
  shows "let c' = handle_event Poll_timer c in
    reconnectAttempts (mon c') = Suc (reconnectAttempts (mon c)) \<and> pollTimeout (mon c') \<noteq> None \<and>
    (if isActive c then 0 < reopenTimers c' \<and> \<not> isOpen c'
     else next_ws c' = Suc (next_ws c) \<and> map_option readyState (webSocket c') = Some CONNECTING)"
proof -
  have run: "isRunning c" using assms(1,2) by (auto simp: cable_inv_def monitor_ok_def)
  let ?c1 = "upd_mon (\<lambda>m. m\<lparr>reconnectAttempts := Suc (reconnectAttempts m)\<rparr>) c"
  have c1: "\<not> disconnectedRecently ?c1" "isActive ?c1 = isActive c" "isOpen ?c1 = isOpen c"
    using assms(4) by (simp_all add: disconnectedRecently_def secondsSince_def upd_mon_def isActive_def
        isOpen_def isState_def getState_def split: option.splits)
  have ev: "handle_event Poll_timer c = poll (conn_reopen ?c1)"
    using assms(2,3) c1(1) by (auto simp: reconnectIfStale_def Let_def)
  show ?thesis
  proof (cases "isActive c")
    case True
    with c1 show ?thesis
      unfolding ev
      by (auto simp: Let_def conn_reopen_def conn_close_def poll_def upd_mon_def isOpen_def isState_def
          getState_def comp_def split: option.splits)
  next
    case False
    have "isRunning (new_socket ?c1)" using run by (simp add: isRunning_def upd_mon_def new_socket_def)
    with False c1 show ?thesis
      unfolding ev
      by (simp add: Let_def conn_reopen_def conn_open_def monitor_start_def)
        (simp add: poll_def upd_mon_def new_socket_def)
  qed
qed

definition stale_cable :: cable where
  "stale_cable = (fst (conn_open (new_consumer ''/cable'' 1000 (\<lambda>_. 0))))
     \<lparr>webSocket := Some (demo_socket CLOSED), now_ms := 9000\<rparr>"

lemma stale_cable_ok:
  "cable_inv stale_cable" "pollTimeout (mon stale_cable) \<noteq> None" "connectionIsStale stale_cable"
  "\<not> disconnectedRecently stale_cable" "\<not> isActive stale_cable" "next_ws stale_cable = 1"
  by (simp_all add: stale_cable_def conn_open_def new_consumer_def isActive_def isState_def getState_def
      new_socket_def monitor_start_def isRunning_def init_monitor_def upd_mon_def startPolling_def
      poll_def stopPolling_def cable_inv_def monitor_ok_def socket_ok_def subs_ok_def demo_socket_def
      connectionIsStale_def refreshedAt_def secondsSince_def staleThreshold_def disconnectedRecently_def)

theorem stale_connection_reopens_witness:
  "let c' = handle_event Poll_timer stale_cable in
     next_ws c' = 2 \<and> map_option readyState (webSocket c') = Some CONNECTING"
  using stale_connection_reopens [OF stale_cable_ok(1-4)] stale_cable_ok(5,6) by (simp add: Let_def)

text \<open>
  C26: Disconnecting is final: after the consumer's \<open>disconnect\<close>, when no reopen or visibility timer is
  pending, no sequence of events of the environment makes the client open another socket, until the
  page itself connects or subscribes again.
\<close>

theorem disconnect_is_final:
  assumes "cable_inv c" and "reopenTimers c = 0" and "visibilityTimers c = 0"
  shows "next_ws (fold handle_event es (consumer_disconnect c)) = next_ws c \<and>
    \<not> isRunning (fold handle_event es (consumer_disconnect c))"
proof -
  have inv: "cable_inv (consumer_disconnect c)"
    by (rule cable_step_inv [OF step_disconnect assms(1)])
  have "0 < now_ms c" using assms(1) by (simp add: cable_inv_def monitor_ok_def)
  then have "\<not> isRunning (monitor_stop c)"
    by (simp add: monitor_stop_def isRunning_def stopPolling_def upd_mon_def)
  then have "\<not> isRunning (consumer_disconnect c)"
    by (simp add: consumer_disconnect_def conn_close_eq Let_def)
  moreover have "timers_of (consumer_disconnect c) = timers_of c"
    by (simp add: consumer_disconnect_def)
  ultimately have q: "quiet (consumer_disconnect c)" and n: "next_ws (consumer_disconnect c) = next_ws c"
    using inv assms(2,3) by (simp_all add: quiet_def timers_of_def)
  show ?thesis using quiet_events [OF q, of es] n by (simp add: quiet_def)
qed

theorem disconnect_is_final_witness:
  "next_ws (fold handle_event [Sock_close, Tick 60000, Poll_timer, Page_visible, Visibility_timer]
     (consumer_disconnect stale_cable)) = 1"
  using disconnect_is_final [OF stale_cable_ok(1), of "[Sock_close, Tick 60000, Poll_timer, Page_visible, Visibility_timer]"]
    stale_cable_ok(6)
  by (simp add: stale_cable_def conn_open_def new_consumer_def isActive_def isState_def getState_def
      new_socket_def monitor_start_def isRunning_def init_monitor_def upd_mon_def startPolling_def
      poll_def stopPolling_def)

end
