(* ===== verification/Byte_Codecs.thy ===== *)
theory Byte_Codecs
  imports JS_Prelude
begin

text \<open>
  The codecs of the terminal wire: \<open>btoa\<close> and \<open>atob\<close> of the browser, \<open>Base64.strict_encode64\<close>
  and \<open>Base64.strict_decode64\<close> of Ruby, and \<open>TextEncoder.encode\<close>. They are the standard library
  the two ends of the wire use (\<open>terminal_controller.js\<close>, \<open>terminal_channel.rb\<close>,
  \<open>terminals/session.rb\<close>). A locale states what the wire needs of a pair of an encoder and a
  decoder; it is interpreted for both directions.
\<close>

subsection \<open>The base64 alphabet\<close>

definition b64_alphabet :: string where
  "b64_alphabet = ''ABCDEFGHIJKLMNOPQRSTUVWXYZabcdefghijklmnopqrstuvwxyz0123456789+/''"

definition b64_char :: "nat \<Rightarrow> char" where
  "b64_char n = b64_alphabet ! n"

fun index_of :: "'a \<Rightarrow> 'a list \<Rightarrow> nat option" where
  "index_of x [] = None"
| "index_of x (y # ys) = (if x = y then Some 0 else map_option Suc (index_of x ys))"

definition b64_val :: "char \<Rightarrow> nat option" where
  "b64_val c = index_of c b64_alphabet"

lemma index_of_nth:
  "distinct xs \<Longrightarrow> n < length xs \<Longrightarrow> index_of (xs ! n) xs = Some n"
  by (induction xs arbitrary: n) (auto simp: nth_Cons split: nat.splits)

lemma index_of_less: "index_of x xs = Some n \<Longrightarrow> n < length xs \<and> xs ! n = x"
  by (induction xs arbitrary: n) (auto split: if_splits)

lemma length_b64_alphabet [simp]: "length b64_alphabet = 64"
  by (simp add: b64_alphabet_def)

lemma distinct_b64_alphabet: "distinct b64_alphabet"
  by (simp add: b64_alphabet_def)

lemma b64_val_char [simp]: "n < 64 \<Longrightarrow> b64_val (b64_char n) = Some n"
  by (simp add: b64_val_def b64_char_def index_of_nth distinct_b64_alphabet)

lemma pad_not_in_alphabet [simp]: "b64_val CHR ''='' = None"
  by (simp add: b64_val_def b64_alphabet_def)

lemma b64_char_not_pad [simp]: "n < 64 \<Longrightarrow> b64_char n \<noteq> CHR ''=''"
  using b64_val_char [of n] pad_not_in_alphabet by fastforce

lemma b64_char_not_pad' [simp]: "n < 64 \<Longrightarrow> CHR ''='' \<noteq> b64_char n"
  by (metis b64_char_not_pad)

subsection \<open>Encoding\<close>

text \<open>
  \<open>btoa\<close> on a string whose code units are bytes, and \<open>Base64.strict_encode64\<close>: the same text,
  with padding and without line breaks.
\<close>

fun base64_encode :: "byte list \<Rightarrow> string" where
  "base64_encode [] = []"
| "base64_encode [a] =
     [b64_char (unat a div 4), b64_char (unat a mod 4 * 16), CHR ''='', CHR ''='']"
| "base64_encode [a, b] =
     [b64_char (unat a div 4), b64_char (unat a mod 4 * 16 + unat b div 16),
      b64_char (unat b mod 16 * 4), CHR ''='']"
| "base64_encode (a # b # c # rest) =
     [b64_char (unat a div 4), b64_char (unat a mod 4 * 16 + unat b div 16),
      b64_char (unat b mod 16 * 4 + unat c div 64), b64_char (unat c mod 64)]
     @ base64_encode rest"

definition out1 :: "nat \<Rightarrow> nat \<Rightarrow> byte" where
  "out1 a b = of_nat (a * 4 + b div 16)"

definition out2 :: "nat \<Rightarrow> nat \<Rightarrow> byte" where
  "out2 b c = of_nat (b mod 16 * 16 + c div 4)"

definition out3 :: "nat \<Rightarrow> nat \<Rightarrow> byte" where
  "out3 c d = of_nat (c mod 4 * 64 + d)"

subsection \<open>Decoding\<close>

text \<open>
  \<open>Base64.strict_decode64\<close> is \<open>unpack1("m0")\<close>: \<open>None\<close> stands for the \<open>ArgumentError\<close> it raises on
  a character outside the alphabet, on padding that is missing, misplaced or in excess, and on
  trailing bits that are not zero.
\<close>

fun strict_decode64 :: "string \<Rightarrow> byte list option" where
  "strict_decode64 [] = Some []"
| "strict_decode64 [w, x, y, z] =
     (case (b64_val w, b64_val x) of
        (Some a, Some b) \<Rightarrow>
          (if y = CHR ''='' then
             (if z = CHR ''='' \<and> b mod 16 = 0 then Some [out1 a b] else None)
           else
             (case b64_val y of
                None \<Rightarrow> None
              | Some c \<Rightarrow>
                  (if z = CHR ''='' then
                     (if c mod 4 = 0 then Some [out1 a b, out2 b c] else None)
                   else
                     (case b64_val z of
                        None \<Rightarrow> None
                      | Some d \<Rightarrow> Some [out1 a b, out2 b c, out3 c d]))))
      | _ \<Rightarrow> None)"
| "strict_decode64 (w # x # y # z # v # rest) =
     (case (b64_val w, b64_val x, b64_val y, b64_val z) of
        (Some a, Some b, Some c, Some d) \<Rightarrow>
          map_option (\<lambda>bs. out1 a b # out2 b c # out3 c d # bs) (strict_decode64 (v # rest))
      | _ \<Rightarrow> None)"
| "strict_decode64 _ = None"

text \<open>
  \<open>atob\<close> is the forgiving decoder of the HTML standard: ASCII white space is removed, then up to two
  padding characters of a text whose length is a multiple of four; a remaining length of one modulo
  four or a character outside the alphabet throws (\<open>None\<close>); trailing bits are dropped.
\<close>

definition b64_space :: "char \<Rightarrow> bool" where
  "b64_space c = (c \<in> {CHR '' '', CHR 0x09, CHR 0x0A, CHR 0x0C, CHR 0x0D})"

definition strip_pad :: "string \<Rightarrow> string" where
  "strip_pad s =
     (if length s mod 4 = 0 \<and> s \<noteq> [] \<and> last s = CHR ''='' then
        (if butlast s \<noteq> [] \<and> last (butlast s) = CHR ''='' then butlast (butlast s)
         else butlast s)
      else s)"

fun decode_groups :: "nat list \<Rightarrow> byte list option" where
  "decode_groups [] = Some []"
| "decode_groups [a] = None"
| "decode_groups [a, b] = Some [out1 a b]"
| "decode_groups [a, b, c] = Some [out1 a b, out2 b c]"
| "decode_groups (a # b # c # d # rest) =
     map_option (\<lambda>bs. out1 a b # out2 b c # out3 c d # bs) (decode_groups rest)"

definition atob :: "string \<Rightarrow> byte list option" where
  "atob s =
     (let t = strip_pad (filter (\<lambda>c. \<not> b64_space c) s)
      in if \<forall>c \<in> set t. b64_val c \<noteq> None
         then decode_groups (map (\<lambda>c. the (b64_val c)) t)
         else None)"

subsection \<open>Round trips\<close>

lemma div_16_of_sextet: "m < 16 \<Longrightarrow> (r * 16 + m) div 16 = (r :: nat)"
  by simp

lemma mod_16_of_sextet: "m < 16 \<Longrightarrow> (r * 16 + m) mod 16 = (m :: nat)"
  by simp

lemma div_4_of_sextet: "m < 4 \<Longrightarrow> (r * 4 + m) div 4 = (r :: nat)"
  by simp

lemma mod_4_of_sextet: "m < 4 \<Longrightarrow> (r * 4 + m) mod 4 = (m :: nat)"
  by simp

lemma byte_div_16 [simp]: "unat (b :: byte) div 16 < 16"
  using word_nat_less [of b] by (simp only: less_mult_imp_div_less)

lemma byte_div_64 [simp]: "unat (b :: byte) div 64 < 4"
  using word_nat_less [of b] by (simp only: less_mult_imp_div_less)

lemma byte_div_4 [simp]: "unat (b :: byte) div 4 < 64"
  using word_nat_less [of b] by (simp only: less_mult_imp_div_less)

lemma out1_byte: "out1 (unat (a :: byte) div 4) (unat a mod 4 * 16 + unat (b :: byte) div 16) = a"
  unfolding out1_def div_16_of_sextet [OF byte_div_16] by (simp del: of_nat_add of_nat_mult)

lemma out1_byte_single: "out1 (unat (a :: byte) div 4) (unat a mod 4 * 16) = a"
  using out1_byte [of a 0] by simp

lemma out2_byte:
  "out2 (unat (a :: byte) mod 4 * 16 + unat b div 16) (unat b mod 16 * 4 + unat (c :: byte) div 64) = b"
  unfolding out2_def mod_16_of_sextet [OF byte_div_16] div_4_of_sextet [OF byte_div_64]
  by (simp del: of_nat_add of_nat_mult)

lemma out2_byte_last: "out2 (unat (a :: byte) mod 4 * 16 + unat b div 16) (unat b mod 16 * 4) = b"
  using out2_byte [of a b 0] by simp

lemma out3_byte: "out3 (unat (b :: byte) mod 16 * 4 + unat c div 64) (unat (c :: byte) mod 64) = c"
  unfolding out3_def mod_4_of_sextet [OF byte_div_64] by (simp del: of_nat_add of_nat_mult)

lemma sextet_bounds [simp]:
  "unat (a :: byte) mod 4 * 16 + unat (b :: byte) div 16 < 64"
  "unat (b :: byte) mod 16 * 4 + unat (c :: byte) div 64 < 64"
  "unat (a :: byte) mod 4 * 16 < 64"
  "unat (b :: byte) mod 16 * 4 < 64"
proof -
  have "unat a mod 4 < 4" "unat b mod 16 < 16" by simp_all
  then show "unat a mod 4 * 16 + unat b div 16 < 64" "unat b mod 16 * 4 + unat c div 64 < 64"
    "unat a mod 4 * 16 < 64" "unat b mod 16 * 4 < 64"
    using byte_div_16 [of b] byte_div_64 [of c] by linarith+
qed

lemmas out_byte [codec_simps] =
  out1_byte out1_byte_single out2_byte out2_byte_last out3_byte

lemma base64_encode_Nil_iff [simp]: "base64_encode bs = [] \<longleftrightarrow> bs = []"
  by (cases bs rule: base64_encode.cases) auto

lemma length_base64_encode [simp]: "length (base64_encode bs) mod 4 = 0"
  by (induction bs rule: base64_encode.induct) (auto simp: mod_simps)

theorem strict_decode64_encode [simp]: "strict_decode64 (base64_encode bs) = Some bs"
proof (induction bs rule: base64_encode.induct)
  case (4 a b c rest)
  show ?case
  proof (cases "base64_encode rest")
    case Nil
    then show ?thesis by (simp add: codec_simps)
  next
    case (Cons v vs)
    with 4 show ?thesis by (simp add: codec_simps)
  qed
qed (simp_all add: codec_simps)

text \<open>The sextets of a byte list, without padding: what \<open>atob\<close> sees after stripping.\<close>

fun sextets :: "byte list \<Rightarrow> nat list" where
  "sextets [] = []"
| "sextets [a] = [unat a div 4, unat a mod 4 * 16]"
| "sextets [a, b] = [unat a div 4, unat a mod 4 * 16 + unat b div 16, unat b mod 16 * 4]"
| "sextets (a # b # c # rest) =
     [unat a div 4, unat a mod 4 * 16 + unat b div 16,
      unat b mod 16 * 4 + unat c div 64, unat c mod 64] @ sextets rest"

lemma sextets_less: "n \<in> set (sextets bs) \<Longrightarrow> n < 64"
  by (induction bs rule: sextets.induct) auto

lemma decode_groups_sextets: "decode_groups (sextets bs) = Some bs"
  by (induction bs rule: sextets.induct) (simp_all add: codec_simps)

lemma strip_pad_group:
  assumes "t \<noteq> []" and "length t mod 4 = 0"
  shows "strip_pad (w # x # y # z # t) = w # x # y # z # strip_pad t"
proof -
  have "butlast t \<noteq> []"
  proof
    assume "butlast t = []"
    with assms(1) have "length t = 1" by (cases t) (auto split: if_splits)
    with assms(2) show False by simp
  qed
  moreover have "(4 + length t) mod 4 = 0" using assms(2) by simp
  ultimately show ?thesis using assms by (simp add: strip_pad_def)
qed

lemma strip_pad_encode: "strip_pad (base64_encode bs) = map b64_char (sextets bs)"
proof (induction bs rule: base64_encode.induct)
  case (4 a b c rest)
  show ?case
  proof (cases "rest = []")
    case True
    then show ?thesis by (simp add: strip_pad_def)
  next
    case False
    then show ?thesis using 4 by (simp add: strip_pad_group)
  qed
qed (simp_all add: strip_pad_def)

lemma no_space_in_alphabet: "list_all (\<lambda>c. \<not> b64_space c) b64_alphabet"
  by (simp add: b64_alphabet_def b64_space_def)

lemma b64_char_not_space [simp]: "n < 64 \<Longrightarrow> \<not> b64_space (b64_char n)"
  using no_space_in_alphabet by (simp add: list_all_length b64_char_def)

lemma no_space_encode: "c \<in> set (base64_encode bs) \<Longrightarrow> \<not> b64_space c"
  by (induction bs rule: base64_encode.induct) (auto simp: b64_space_def [of "CHR ''=''"])

theorem atob_encode [simp]: "atob (base64_encode bs) = Some bs"
proof -
  have filter_id: "filter (\<lambda>c. \<not> b64_space c) (base64_encode bs) = base64_encode bs"
    by (simp add: filter_id_conv no_space_encode)
  have undo: "map ((\<lambda>c. the (b64_val c)) \<circ> b64_char) (sextets bs) = sextets bs"
    by (simp add: map_idI sextets_less)
  have ok: "\<forall>n \<in> set (sextets bs). \<exists>y. b64_val (b64_char n) = Some y"
    by (simp add: sextets_less)
  show ?thesis
    using ok by (simp add: atob_def filter_id strip_pad_encode Let_def undo decode_groups_sextets)
qed

subsection \<open>What the wire needs of a codec\<close>

text \<open>
  The channel sends every chunk of bytes through an encoder and a decoder on the other side. All it
  needs is that decoding undoes encoding; then a sequence of chunks arrives with its content and its
  boundaries.
\<close>

locale byte_wire =
  fixes enc :: "byte list \<Rightarrow> string"
    and dec :: "string \<Rightarrow> byte list option"
  assumes dec_enc: "dec (enc bs) = Some bs"
begin

lemma enc_inj: "enc bs = enc cs \<Longrightarrow> bs = cs"
  by (metis dec_enc option.inject)

lemma chunks_arrive: "map (dec \<circ> enc) chunks = map Some chunks"
  by (simp add: dec_enc)

lemma stream_arrives: "concat (map (\<lambda>c. the (dec (enc c))) chunks) = concat chunks"
  by (simp add: dec_enc)

end

text \<open>Browser to server, and server to browser.\<close>

interpretation upstream: byte_wire base64_encode strict_decode64
  by unfold_locales simp

interpretation downstream: byte_wire base64_encode atob
  by unfold_locales simp

subsection \<open>UTF-8\<close>

text \<open>
  \<open>TextEncoder.encode\<close> reads a string of code units as code points, a surrogate without its partner
  as U+FFFD, and writes each code point in UTF-8.
\<close>

definition high_surrogate :: "cu \<Rightarrow> bool" where
  "high_surrogate u = (0xD800 \<le> unat u \<and> unat u < 0xDC00)"

definition low_surrogate :: "cu \<Rightarrow> bool" where
  "low_surrogate u = (0xDC00 \<le> unat u \<and> unat u < 0xE000)"

fun code_points :: "ustring \<Rightarrow> nat list" where
  "code_points [] = []"
| "code_points [u] =
     [if high_surrogate u \<or> low_surrogate u then 0xFFFD else unat u]"
| "code_points (u # v # rest) =
     (if high_surrogate u then
        (if low_surrogate v then
           (0x10000 + (unat u - 0xD800) * 0x400 + (unat v - 0xDC00)) # code_points rest
         else 0xFFFD # code_points (v # rest))
      else if low_surrogate u then 0xFFFD # code_points (v # rest)
      else unat u # code_points (v # rest))"

definition utf8_bytes :: "nat \<Rightarrow> byte list" where
  "utf8_bytes c =
     (if c < 0x80 then [of_nat c]
      else if c < 0x800 then [of_nat (0xC0 + c div 64), of_nat (0x80 + c mod 64)]
      else if c < 0x10000 then
        [of_nat (0xE0 + c div 4096), of_nat (0x80 + c div 64 mod 64), of_nat (0x80 + c mod 64)]
      else
        [of_nat (0xF0 + c div 262144), of_nat (0x80 + c div 4096 mod 64),
         of_nat (0x80 + c div 64 mod 64), of_nat (0x80 + c mod 64)])"

definition text_encode :: "ustring \<Rightarrow> byte list" where
  "text_encode s = concat (map utf8_bytes (code_points s))"

lemma utf8_bytes_not_Nil [simp]: "utf8_bytes c \<noteq> []"
  by (simp add: utf8_bytes_def)

lemma code_points_not_Nil [simp]: "code_points s = [] \<longleftrightarrow> s = []"
  by (cases s rule: code_points.cases) auto

lemma text_encode_Nil [simp]: "text_encode [] = []"
  by (simp add: text_encode_def)

text \<open>ASCII text is one byte per character.\<close>

lemma code_points_ascii:
  "\<forall>u \<in> set s. unat u < 128 \<Longrightarrow> code_points s = map unat s"
  by (induction s rule: code_points.induct) (auto simp: high_surrogate_def low_surrogate_def)

lemma text_encode_ascii:
  "\<forall>u \<in> set s. unat u < 128 \<Longrightarrow> text_encode s = map (\<lambda>u. of_nat (unat u)) s"
proof -
  assume *: "\<forall>u \<in> set s. unat u < 128"
  have "\<forall>u \<in> set s. unat u < 128 \<Longrightarrow>
      concat (map utf8_bytes (map unat s)) = map (\<lambda>u. of_nat (unat u)) s"
    by (induction s) (simp_all add: utf8_bytes_def)
  with * show ?thesis by (simp only: text_encode_def code_points_ascii [OF *])
qed

end
