(* ===== verification/Names.thy ===== *)
theory Names
  imports JS_Prelude
begin

text \<open>
  \<open>app/services/multipass/name_validator.rb\<close>: the names that may reach the command line of the
  \<open>multipass\<close> binary. Each pattern is anchored at both ends (\<open>\A\<close>, \<open>\z\<close>), so a match is a predicate
  on the whole string. A Ruby value that is not a string is \<open>Not_string\<close>.
\<close>

datatype ruby_val = Nil_val | Str string | Not_string

definition ascii_alnum :: "char \<Rightarrow> bool" where
  "ascii_alnum c =
     (let n = of_char c :: nat
      in 97 \<le> n \<and> n \<le> 122 \<or> 65 \<le> n \<and> n \<le> 90 \<or> 48 \<le> n \<and> n \<le> 57)"

text \<open>\<open>[a-zA-Z0-9]\<close> followed by at most 62 characters that are alphanumeric or among \<open>extra\<close>.\<close>

definition name_pattern :: "char list \<Rightarrow> string \<Rightarrow> bool" where
  "name_pattern extra s =
     (case s of
        [] \<Rightarrow> False
      | c # cs \<Rightarrow>
          ascii_alnum c \<and> list_all (\<lambda>d. ascii_alnum d \<or> d \<in> set extra) cs \<and> length cs \<le> 62)"

definition VM_NAME_PATTERN :: "string \<Rightarrow> bool" where
  "VM_NAME_PATTERN = name_pattern ''-''"

definition GROUP_NAME_PATTERN :: "string \<Rightarrow> bool" where
  "GROUP_NAME_PATTERN = name_pattern '' _-''"

definition PROFILE_ID_PATTERN :: "string \<Rightarrow> bool" where
  "PROFILE_ID_PATTERN = name_pattern ''_-''"

text \<open>The profile pattern, then \<open>.yml\<close> or \<open>.yaml\<close>.\<close>

definition has_suffix :: "string \<Rightarrow> string \<Rightarrow> bool" where
  "has_suffix s suf = (length suf \<le> length s \<and> drop (length s - length suf) s = suf)"

definition without_suffix :: "string \<Rightarrow> string \<Rightarrow> string" where
  "without_suffix s suf = take (length s - length suf) s"

definition PLAYBOOK_FILE_PATTERN :: "string \<Rightarrow> bool" where
  "PLAYBOOK_FILE_PATTERN s =
     (has_suffix s ''.yml'' \<and> PROFILE_ID_PATTERN (without_suffix s ''.yml'') \<or>
      has_suffix s ''.yaml'' \<and> PROFILE_ID_PATTERN (without_suffix s ''.yaml''))"

fun is_match :: "(string \<Rightarrow> bool) \<Rightarrow> ruby_val \<Rightarrow> bool" where
  "is_match p (Str s) = p s"
| "is_match p _ = False"

definition valid_vm_name :: "ruby_val \<Rightarrow> bool" where
  "valid_vm_name name = is_match VM_NAME_PATTERN name"

definition valid_group_name :: "ruby_val \<Rightarrow> bool" where
  "valid_group_name name = is_match GROUP_NAME_PATTERN name"

definition valid_profile_id :: "ruby_val \<Rightarrow> bool" where
  "valid_profile_id i = is_match PROFILE_ID_PATTERN i"

definition valid_playbook_filename :: "ruby_val \<Rightarrow> bool" where
  "valid_playbook_filename name = is_match PLAYBOOK_FILE_PATTERN name"

text \<open>The raising forms: \<open>Inl\<close> is the \<open>ValidationError\<close>, carrying the rejected value.\<close>

datatype validation_error = ValidationError ruby_val

definition validate_vm_name :: "ruby_val \<Rightarrow> validation_error + unit" where
  "validate_vm_name name = (if valid_vm_name name then Inr () else Inl (ValidationError name))"

definition validate_group_name :: "ruby_val \<Rightarrow> validation_error + unit" where
  "validate_group_name name =
     (if \<not> is_match GROUP_NAME_PATTERN name then Inl (ValidationError name) else Inr ())"

definition validate_profile_id :: "ruby_val \<Rightarrow> validation_error + unit" where
  "validate_profile_id i =
     (if \<not> is_match PROFILE_ID_PATTERN i then Inl (ValidationError i) else Inr ())"

definition validate_playbook_filename :: "ruby_val \<Rightarrow> validation_error + unit" where
  "validate_playbook_filename name =
     (if \<not> is_match PLAYBOOK_FILE_PATTERN name then Inl (ValidationError name) else Inr ())"

subsection \<open>What a valid name cannot be\<close>

lemma name_pattern_props:
  assumes "name_pattern extra s"
  shows "s \<noteq> []" and "ascii_alnum (hd s)" and "length s \<le> 63"
    and "c \<in> set s \<Longrightarrow> ascii_alnum c \<or> c \<in> set extra"
  using assms by (auto simp: name_pattern_def list_all_iff split: list.splits)

lemma not_alnum [simp]:
  "\<not> ascii_alnum CHR ''-''" "\<not> ascii_alnum CHR '' ''" "\<not> ascii_alnum CHR ''/''"
  "\<not> ascii_alnum CHR ''.''" "\<not> ascii_alnum CHR '':''" "\<not> ascii_alnum CHR ''=''"
  by (simp_all add: ascii_alnum_def)

lemma valid_vm_nameE:
  assumes "valid_vm_name name"
  obtains s where "name = Str s" and "s \<noteq> []" and "length s \<le> 63"
    and "hd s \<noteq> CHR ''-''" and "CHR ''/'' \<notin> set s" and "CHR ''.'' \<notin> set s"
    and "CHR '' '' \<notin> set s" and "CHR '':'' \<notin> set s"
proof -
  obtain s where s: "name = Str s" and p: "name_pattern ''-'' s"
    using assms by (cases name) (auto simp: valid_vm_name_def VM_NAME_PATTERN_def)
  note props = name_pattern_props [OF p]
  show thesis
    by (rule that [of s]) (use s props in \<open>fastforce+\<close>)
qed

lemma validate_vm_name_cases:
  "validate_vm_name name = Inr () \<longleftrightarrow> valid_vm_name name"
  "validate_vm_name name = Inl e \<longleftrightarrow> \<not> valid_vm_name name \<and> e = ValidationError name"
  by (auto simp: validate_vm_name_def)

end
