(* ===== verification/Terminal_Session.thy ===== *)
theory Terminal_Session
  imports Byte_Codecs Names
begin

text \<open>
  \<open>app/services/terminals/session.rb\<close>: the pseudo-terminals of the server process. A session object
  lives in a heap of references, because the registry \<open>SESSIONS\<close>, the reader thread and every
  subscribed channel share it, and a channel keeps its reference after the registry has dropped it.
  \<open>SESSIONS_MUTEX\<close> is Ruby's \<open>Mutex\<close>, which is not reentrant: \<open>synchronize\<close> by the thread that holds
  it raises \<open>ThreadError\<close>.

  Every operation returns the new server state and a result, \<open>Inl\<close> for an exception that leaves it.
  What the operating system decides (whether the spawn succeeds, what a read finds, whether the
  terminal is gone) is an argument.
\<close>

subsection \<open>State\<close>

datatype ruby_error =
    ThreadError | SystemCallError | IOError string | TypeError | NoMethodError
  | ArgumentError | KeyError | InvalidName validation_error

datatype fd = Fd_nil | Fd_open | Fd_closed

record pty_session =
  ses_vm_name :: ruby_val
  session_id :: string
  scrollback :: "byte list"
  closed :: bool
  created_at :: int
  master :: fd
  slave :: fd
  winsize :: "(nat \<times> nat) option" \<comment> \<open>rows and columns, as last set\<close>
  pty_input :: "byte list" \<comment> \<open>everything written to the master\<close>
  pid :: "nat option"
  reader_alive :: bool

type_synonym ref = nat

datatype message = Message (msg_type: string) (msg_data: string)

record server =
  heap :: "ref \<Rightarrow> pty_session"
  next_ref :: ref
  SESSIONS :: "string \<rightharpoonup> ref"
  mutex_held :: bool
  broadcasts :: "(string \<times> message) list"
  signals :: "nat list" \<comment> \<open>process groups sent TERM\<close>

type_synonym 'a outcome = "server \<times> (ruby_error + 'a)"

definition SCROLLBACK_CAP :: nat where
  "SCROLLBACK_CAP = 64 * 1024"

definition RESIZE_PREFIX_BYTE :: byte where
  "RESIZE_PREFIX_BYTE = 1"

definition upd_session :: "ref \<Rightarrow> (pty_session \<Rightarrow> pty_session) \<Rightarrow> server \<Rightarrow> server" where
  "upd_session r f w = w\<lparr>heap := (heap w)(r := f (heap w r))\<rparr>"

lemma upd_session_simps [simp]:
  "heap (upd_session r f w) = (heap w)(r := f (heap w r))"
  "SESSIONS (upd_session r f w) = SESSIONS w"
  "next_ref (upd_session r f w) = next_ref w"
  "mutex_held (upd_session r f w) = mutex_held w"
  "broadcasts (upd_session r f w) = broadcasts w"
  "signals (upd_session r f w) = signals w"
  by (simp_all add: upd_session_def)

definition synchronize :: "(server \<Rightarrow> 'a outcome) \<Rightarrow> server \<Rightarrow> 'a outcome" where
  "synchronize body w =
     (if mutex_held w then (w, Inl ThreadError)
      else (case body (w\<lparr>mutex_held := True\<rparr>) of (w', res) \<Rightarrow> (w'\<lparr>mutex_held := False\<rparr>, res)))"

subsection \<open>Registry operations\<close>

definition session_initialize :: "ruby_val \<Rightarrow> string \<Rightarrow> int \<Rightarrow> pty_session" where
  "session_initialize vm sid now =
     \<lparr>ses_vm_name = vm, session_id = sid, scrollback = [], closed = False, created_at = now,
      master = Fd_nil, slave = Fd_nil, winsize = None, pty_input = [], pid = None,
      reader_alive = False\<rparr>"

text \<open>
  \<open>start\<close>: the name check, \<open>PTY.open\<close>, the default window size, and \<open>spawn\<close>, whose outcome is the
  process id or a \<open>SystemCallError\<close>. Only a started session has a reader thread.
\<close>

definition session_start :: "ref \<Rightarrow> nat option \<Rightarrow> server \<Rightarrow> unit outcome" where
  "session_start r spawned w =
     (case validate_vm_name (ses_vm_name (heap w r)) of
        Inl e \<Rightarrow> (w, Inl (InvalidName e))
      | Inr _ \<Rightarrow>
          (let w1 = upd_session r (\<lambda>s. s\<lparr>master := Fd_open, slave := Fd_open,
                                        winsize := Some (40, 120)\<rparr>) w
           in case spawned of
                None \<Rightarrow> (w1, Inl SystemCallError)
              | Some p \<Rightarrow>
                  (upd_session r (\<lambda>s. s\<lparr>pid := Some p, slave := Fd_closed, reader_alive := True\<rparr>) w1,
                   Inr ())))"

definition session_open ::
    "ruby_val \<Rightarrow> string \<Rightarrow> int \<Rightarrow> nat option \<Rightarrow> server \<Rightarrow> ref outcome" where
  "session_open vm sid now spawned w =
     (let r = next_ref w;
          w1 = w\<lparr>heap := (heap w)(r := session_initialize vm sid now), next_ref := Suc r\<rparr>
      in case synchronize (\<lambda>v. (v\<lparr>SESSIONS := (SESSIONS v)(sid \<mapsto> r)\<rparr>, Inr ())) w1 of
           (w2, Inl e) \<Rightarrow> (w2, Inl e)
         | (w2, Inr _) \<Rightarrow>
             (case session_start r spawned w2 of
                (w3, Inl e) \<Rightarrow> (w3, Inl e)
              | (w3, Inr _) \<Rightarrow> (w3, Inr r)))"

definition session_find :: "string \<Rightarrow> server \<Rightarrow> (ref option) outcome" where
  "session_find sid = synchronize (\<lambda>v. (v, Inr (SESSIONS v sid)))"

definition session_for_vm :: "ruby_val \<Rightarrow> server \<Rightarrow> ((string \<rightharpoonup> ref)) outcome" where
  "session_for_vm vm =
     synchronize (\<lambda>v. (v, Inr (\<lambda>sid. case SESSIONS v sid of
        None \<Rightarrow> None
      | Some r \<Rightarrow> if ses_vm_name (heap v r) = vm then Some r else None)))"

text \<open>
  \<open>kill\<close> of one session. The \<open>ensure\<close> part runs on the early return too: it closes both ends and takes
  the session out of the registry under the mutex; an exception raised there is the method's result.
  A \<open>SystemCallError\<close> of \<open>Process.kill\<close> is rescued, so only the signal is recorded.
\<close>

definition close_fd :: "fd \<Rightarrow> fd" where
  "close_fd f = (if f = Fd_nil then Fd_nil else Fd_closed)"

definition kill_body :: "ref \<Rightarrow> server \<Rightarrow> server" where
  "kill_body r w =
     (if closed (heap w r) then w
      else
        (let w1 = upd_session r (\<lambda>s. s\<lparr>closed := True, reader_alive := False\<rparr>) w
         in case pid (heap w r) of
              None \<Rightarrow> w1
            | Some p \<Rightarrow> w1\<lparr>signals := signals w1 @ [p]\<rparr>))"

definition kill_ensure :: "ref \<Rightarrow> server \<Rightarrow> unit outcome" where
  "kill_ensure r w =
     (let w1 = upd_session r (\<lambda>s. s\<lparr>master := close_fd (master s), slave := close_fd (slave s)\<rparr>) w
      in synchronize (\<lambda>v. (v\<lparr>SESSIONS := (SESSIONS v)(session_id (heap v r) := None)\<rparr>, Inr ())) w1)"

definition session_kill :: "ref \<Rightarrow> server \<Rightarrow> unit outcome" where
  "session_kill r w = kill_ensure r (kill_body r w)"

text \<open>\<open>Session.kill(session_id)\<close>, the class method: \<open>SESSIONS.delete(session_id)&.kill\<close> under the mutex.\<close>

definition kill_by_id :: "string \<Rightarrow> server \<Rightarrow> unit outcome" where
  "kill_by_id sid =
     synchronize (\<lambda>v.
       let v1 = v\<lparr>SESSIONS := (SESSIONS v)(sid := None)\<rparr>
       in case SESSIONS v sid of
            None \<Rightarrow> (v1, Inr ())
          | Some r \<Rightarrow> session_kill r v1)"

subsection \<open>Input\<close>

datatype encoding = ASCII_8BIT | UTF_8

text \<open>
  What the operating system does with a write or a window-size request on an open master: it works, or
  it fails with a \<open>SystemCallError\<close>. On a master that was closed Ruby raises \<open>IOError\<close>; without a
  master, \<open>NoMethodError\<close>.
\<close>

definition is_resize :: "encoding \<Rightarrow> byte list \<Rightarrow> bool" where
  "is_resize enc data =
     (enc = ASCII_8BIT \<and> 5 \<le> length data \<and> data ! 0 = RESIZE_PREFIX_BYTE)"

definition session_write :: "ref \<Rightarrow> bool \<Rightarrow> encoding \<Rightarrow> byte list \<Rightarrow> server \<Rightarrow> unit outcome" where
  "session_write r pty_gone enc data w =
     (let s = heap w r
      in if closed s then (w, Inr ())
         else if is_resize enc data then
           (let cols = unat (data ! 1) * 256 + unat (data ! 2);
                rows = unat (data ! 3) * 256 + unat (data ! 4)
            in case master s of
                 Fd_nil \<Rightarrow> (w, Inl NoMethodError)
               | Fd_closed \<Rightarrow> (w, Inr ()) \<comment> \<open>\<open>IOError\<close>, rescued by the method\<close>
               | Fd_open \<Rightarrow>
                   if pty_gone then (w, Inr ())
                   else (upd_session r (\<lambda>s. s\<lparr>winsize := Some (rows, cols)\<rparr>) w, Inr ()))
         else
           (case master s of
              Fd_nil \<Rightarrow> (w, Inl NoMethodError)
            | Fd_closed \<Rightarrow> (w, Inr ())
            | Fd_open \<Rightarrow>
                if pty_gone then (w, Inr ())
                else (upd_session r (\<lambda>s. s\<lparr>pty_input := pty_input s @ data\<rparr>) w, Inr ())))"

subsection \<open>Output\<close>

text \<open>
  \<open>append_scrollback\<close>. \<open>bytes\<close> of a string is an array of integers, and \<open>String#replace\<close> takes only a
  string: on the branch beyond the cap it raises \<open>TypeError\<close>, after the chunk has been appended.
\<close>

definition append_scrollback :: "ref \<Rightarrow> byte list \<Rightarrow> server \<Rightarrow> unit outcome" where
  "append_scrollback r chunk w =
     (let w1 = upd_session r (\<lambda>s. s\<lparr>scrollback := scrollback s @ chunk\<rparr>) w
      in if SCROLLBACK_CAP < length (scrollback (heap w1 r)) then (w1, Inl TypeError)
         else (w1, Inr ()))"

definition output_stream :: "string \<Rightarrow> string" where
  "output_stream sid = ''terminal:'' @ sid @ '':output''"

definition broadcast_output :: "ref \<Rightarrow> byte list \<Rightarrow> server \<Rightarrow> server" where
  "broadcast_output r chunk w =
     w\<lparr>broadcasts := broadcasts w @
         [(output_stream (session_id (heap w r)), Message ''output'' (base64_encode chunk))]\<rparr>"

text \<open>
  What the reader finds on the master: data (never empty), nothing yet, the end of the terminal as
  end-of-file or as an I/O error of the system, or a stream closed by \<open>kill\<close>. \<open>read_nonblock\<close> without
  \<open>exception: false\<close> reports the end by raising \<open>EOFError\<close>, an \<open>IOError\<close>; it never returns \<open>nil\<close>.
\<close>

datatype pty_condition = Data "byte list" | No_data | Hangup_eof | Hangup_eio | Stream_closed

datatype read_result = Chunk "byte list" | Nil_chunk | Wait_readable | Raise_io string | Raise_other

fun read_nonblock :: "nat \<Rightarrow> pty_condition \<Rightarrow> read_result" where
  "read_nonblock n (Data bs) = Chunk (take n bs)"
| "read_nonblock n No_data = Wait_readable"
| "read_nonblock n Hangup_eof = Raise_io ''end of file reached''"
| "read_nonblock n Hangup_eio = Raise_other"
| "read_nonblock n Stream_closed = Raise_io ''closed stream''"

definition ascii_bytes :: "string \<Rightarrow> byte list" where
  "ascii_bytes s = map (\<lambda>c. of_nat (of_char c)) s"

definition crlf :: string where
  "crlf = [CHR 0x0D, CHR 0x0A]"

definition exited_notice :: "byte list" where
  "exited_notice = ascii_bytes (crlf @ ''[multipass shell exited]'' @ crlf)"

definition closed_notice :: "string \<Rightarrow> byte list" where
  "closed_notice m = ascii_bytes (crlf @ ''[terminal closed: '' @ m @ '']'' @ crlf)"

text \<open>The end of the reader thread, by any way out of the loop: the \<open>ensure\<close> sets \<open>@closed\<close>.\<close>

definition reader_end :: "ref \<Rightarrow> server \<Rightarrow> server" where
  "reader_end r = upd_session r (\<lambda>s. s\<lparr>closed := True, reader_alive := False\<rparr>)"

text \<open>One round of the reader's loop; a thread that has ended does nothing.\<close>

definition reader_step :: "ref \<Rightarrow> pty_condition \<Rightarrow> server \<Rightarrow> server" where
  "reader_step r cond w =
     (if \<not> reader_alive (heap w r) then w
      else if closed (heap w r) then reader_end r w
      else
        (case read_nonblock 4096 cond of
           Wait_readable \<Rightarrow> w
         | Nil_chunk \<Rightarrow> reader_end r (broadcast_output r exited_notice w)
         | Chunk chunk \<Rightarrow>
             (case append_scrollback r chunk w of
                (w1, Inl _) \<Rightarrow> reader_end r w1
              | (w1, Inr _) \<Rightarrow> broadcast_output r chunk w1)
         | Raise_io m \<Rightarrow> reader_end r (broadcast_output r (closed_notice m) w)
         | Raise_other \<Rightarrow> reader_end r w))"

fun reader_run :: "ref \<Rightarrow> pty_condition list \<Rightarrow> server \<Rightarrow> server" where
  "reader_run r [] w = w"
| "reader_run r (c # cs) w = reader_run r cs (reader_step r c w)"

subsection \<open>Reaping\<close>

text \<open>
  \<open>app/jobs/terminals/reap_idle_sessions_job.rb\<close>. The subscriber count comes from the pub/sub adapter
  of Action Cable, a parameter (\<open>None\<close> for a missing or unreadable counter, which counts as 0).
  \<open>order\<close> is the iteration order of the registry's hash. An exception of \<open>kill\<close> ends the job.
\<close>

definition IDLE_TTL :: int where
  "IDLE_TTL = 30 * 60"

fun reap_each ::
    "(string \<Rightarrow> nat option) \<Rightarrow> int \<Rightarrow> string list \<Rightarrow> string list \<Rightarrow> server \<Rightarrow> (string list) outcome"
where
  "reap_each counts now [] reaped w = (w, Inr reaped)"
| "reap_each counts now (sid # ids) reaped w =
     (case SESSIONS w sid of
        None \<Rightarrow> reap_each counts now ids reaped w
      | Some r \<Rightarrow>
          if created_at (heap w r) > now - IDLE_TTL then reap_each counts now ids reaped w
          else if (case counts (output_stream sid) of None \<Rightarrow> 0 | Some n \<Rightarrow> n) > 0
          then reap_each counts now ids reaped w
          else
            (case session_kill r w of
               (w1, Inl e) \<Rightarrow> (w1, Inl e)
             | (w1, Inr _) \<Rightarrow> reap_each counts now ids (reaped @ [sid]) w1))"

definition reap_perform ::
    "(string \<Rightarrow> nat option) \<Rightarrow> int \<Rightarrow> string list \<Rightarrow> server \<Rightarrow> (string list) outcome" where
  "reap_perform counts now order w = reap_each counts now order [] w"

subsection \<open>The registry as a whole\<close>

lemmas session_ops [session_defs] =
  synchronize_def session_initialize_def session_start_def session_open_def session_find_def
  session_for_vm_def kill_body_def kill_ensure_def session_kill_def kill_by_id_def

text \<open>
  Between operations nobody holds the mutex, and the registry is keyed by the sessions' own ids.
\<close>

definition registry_ok :: "server \<Rightarrow> bool" where
  "registry_ok w \<longleftrightarrow>
     \<not> mutex_held w \<and>
     (\<forall>sid r. SESSIONS w sid = Some r \<longrightarrow> r < next_ref w \<and> session_id (heap w r) = sid)"

text \<open>
  The scrollback of a live session is within the cap; the chunk that goes beyond ends the session, so
  that even then at most one chunk (4096 bytes) is in excess.
\<close>

definition scrollback_ok :: "pty_session \<Rightarrow> bool" where
  "scrollback_ok s \<longleftrightarrow>
     length (scrollback s) \<le> SCROLLBACK_CAP + 4096 \<and>
     (reader_alive s \<longrightarrow> length (scrollback s) \<le> SCROLLBACK_CAP)"

definition server_inv :: "server \<Rightarrow> bool" where
  "server_inv w \<longleftrightarrow> registry_ok w \<and> (\<forall>r. scrollback_ok (heap w r))"

definition init_server :: server where
  "init_server = \<lparr>heap = (\<lambda>_. session_initialize Nil_val [] 0), next_ref = 0, SESSIONS = Map.empty,
     mutex_held = False, broadcasts = [], signals = []\<rparr>"

inductive server_step :: "server \<Rightarrow> server \<Rightarrow> bool" where
  step_open: "server_step w (fst (session_open vm sid now spawned w))"
| step_kill_id: "server_step w (fst (kill_by_id sid w))"
| step_kill: "server_step w (fst (session_kill r w))"
| step_write: "server_step w (fst (session_write r gone enc data w))"
| step_read: "server_step w (reader_step r cond w)"
| step_reap: "server_step w (fst (reap_perform counts now order w))"

inductive server_reachable :: "server \<Rightarrow> bool" where
  reach_init: "server_reachable init_server"
| reach_step: "server_reachable w \<Longrightarrow> server_step w w' \<Longrightarrow> server_reachable w'"

lemma server_invI:
  assumes "\<not> mutex_held w"
    and "\<And>sid r. SESSIONS w sid = Some r \<Longrightarrow> r < next_ref w \<and> session_id (heap w r) = sid"
    and "\<And>r. scrollback_ok (heap w r)"
  shows "server_inv w"
  using assms by (auto simp: server_inv_def registry_ok_def)

lemma server_invD:
  assumes "server_inv w"
  shows "\<not> mutex_held w" and "SESSIONS w sid = Some r \<Longrightarrow> r < next_ref w"
    and "SESSIONS w sid = Some r \<Longrightarrow> session_id (heap w r) = sid" and "scrollback_ok (heap w r)"
  using assms by (auto simp: server_inv_def registry_ok_def)

lemma scrollback_ok_fresh [simp]: "scrollback_ok (session_initialize vm sid now)"
  by (simp add: scrollback_ok_def session_initialize_def)

text \<open>An update of a session that keeps its id and the scrollback property keeps the invariant.\<close>

lemma server_inv_upd:
  assumes "server_inv w"
    and "\<And>s. session_id (f s) = session_id s"
    and "scrollback_ok (heap w r) \<Longrightarrow> scrollback_ok (f (heap w r))"
  shows "server_inv (upd_session r f w)"
  using assms by (intro server_invI) (auto dest: server_invD)

lemma server_inv_effects [simp]:
  "server_inv (w\<lparr>broadcasts := b\<rparr>) = server_inv w"
  "server_inv (w\<lparr>signals := ps\<rparr>) = server_inv w"
  by (simp_all add: server_inv_def registry_ok_def)

lemma server_inv_unregister:
  "server_inv w \<Longrightarrow> server_inv (w\<lparr>SESSIONS := (SESSIONS w)(sid := None)\<rparr>)"
  by (auto simp: server_inv_def registry_ok_def)

lemma server_inv_start:
  "server_inv w \<Longrightarrow> scrollback (heap w r) = [] \<Longrightarrow> server_inv (fst (session_start r spawned w))"
  by (auto simp: session_start_def Let_def scrollback_ok_def split: sum.splits option.splits
      intro!: server_inv_upd)

lemma fresh_session_fields [simp]:
  "session_id (session_initialize vm sid now) = sid"
  "ses_vm_name (session_initialize vm sid now) = vm"
  "master (session_initialize vm sid now) = Fd_nil"
  "scrollback (session_initialize vm sid now) = []"
  "\<not> closed (session_initialize vm sid now)"
  by (simp_all add: session_initialize_def)

text \<open>\<open>open\<close> in two steps: registration of the fresh object, then \<open>start\<close>.\<close>

definition registered :: "ruby_val \<Rightarrow> string \<Rightarrow> int \<Rightarrow> server \<Rightarrow> server" where
  "registered vm sid now w =
     w\<lparr>heap := (heap w)(next_ref w := session_initialize vm sid now),
       next_ref := Suc (next_ref w), SESSIONS := (SESSIONS w)(sid \<mapsto> next_ref w),
       mutex_held := False\<rparr>"

lemma registered_fields [simp]:
  "heap (registered vm sid now w) = (heap w)(next_ref w := session_initialize vm sid now)"
  "SESSIONS (registered vm sid now w) = (SESSIONS w)(sid \<mapsto> next_ref w)"
  "broadcasts (registered vm sid now w) = broadcasts w"
  by (simp_all add: registered_def)

lemma session_open_eq:
  "\<not> mutex_held w \<Longrightarrow>
     session_open vm sid now spawned w =
       (case session_start (next_ref w) spawned (registered vm sid now w) of
          (w', Inl e) \<Rightarrow> (w', Inl e)
        | (w', Inr _) \<Rightarrow> (w', Inr (next_ref w)))"
  by (simp add: session_open_def synchronize_def registered_def Let_def)

lemma fst_session_open:
  "\<not> mutex_held w \<Longrightarrow>
     fst (session_open vm sid now spawned w)
       = fst (session_start (next_ref w) spawned (registered vm sid now w))"
  by (auto simp: session_open_eq split: prod.splits sum.splits)

lemma server_inv_registered: "server_inv w \<Longrightarrow> server_inv (registered vm sid now w)"
  by (rule server_invI) (auto simp: registered_def less_Suc_eq dest: server_invD split: if_splits)

lemma server_inv_open: "server_inv w \<Longrightarrow> server_inv (fst (session_open vm sid now spawned w))"
  by (simp add: fst_session_open server_invD(1) server_inv_start server_inv_registered
      registered_fields)

lemma server_inv_kill_body: "server_inv w \<Longrightarrow> server_inv (kill_body r w)"
  by (auto simp: kill_body_def Let_def scrollback_ok_def split: option.splits intro!: server_inv_upd)

lemma server_inv_kill: "server_inv w \<Longrightarrow> server_inv (fst (session_kill r w))"
proof -
  assume inv: "server_inv w"
  let ?w1 = "upd_session r (\<lambda>s. s\<lparr>master := close_fd (master s), slave := close_fd (slave s)\<rparr>)
    (kill_body r w)"
  have inv1: "server_inv ?w1"
    by (rule server_inv_upd [OF server_inv_kill_body [OF inv]]) (simp_all add: scrollback_ok_def)
  then have "fst (session_kill r w)
      = ?w1\<lparr>SESSIONS := (SESSIONS ?w1)(session_id (heap ?w1 r) := None)\<rparr>"
    using server_invD(1) [OF inv1] by (simp add: session_kill_def kill_ensure_def synchronize_def)
  then show ?thesis using server_inv_unregister [OF inv1] by simp
qed

text \<open>\<open>Session.kill\<close> on an unknown id only returns; on a known one it never returns normally.\<close>

definition killed :: "ref \<Rightarrow> server \<Rightarrow> server" where
  "killed r w =
     upd_session r (\<lambda>s. s\<lparr>master := close_fd (master s), slave := close_fd (slave s)\<rparr>)
       (kill_body r w)"

lemma kill_body_mutex [simp]:
  "kill_body r (w\<lparr>mutex_held := b, SESSIONS := m\<rparr>) = (kill_body r w)\<lparr>mutex_held := b, SESSIONS := m\<rparr>"
  by (simp add: kill_body_def upd_session_def Let_def split: option.splits)

lemma kill_body_fields [simp]:
  "mutex_held (kill_body r w) = mutex_held w" "SESSIONS (kill_body r w) = SESSIONS w"
  "next_ref (kill_body r w) = next_ref w" "broadcasts (kill_body r w) = broadcasts w"
  by (auto simp: kill_body_def Let_def split: option.splits)

lemma kill_by_id_unknown:
  "\<not> mutex_held w \<Longrightarrow> SESSIONS w sid = None \<Longrightarrow> kill_by_id sid w = (w, Inr ())"
  by (simp add: kill_by_id_def synchronize_def fun_upd_idem)

lemma kill_by_id_known:
  assumes "\<not> mutex_held w" and "SESSIONS w sid = Some r"
  shows "kill_by_id sid w =
    ((killed r w)\<lparr>SESSIONS := (SESSIONS w)(sid := None), mutex_held := False\<rparr>, Inl ThreadError)"
  using assms
  by (simp add: kill_by_id_def synchronize_def session_kill_def kill_ensure_def killed_def Let_def
      upd_session_def kill_body_def split: option.splits)

lemma server_inv_killed: "server_inv w \<Longrightarrow> server_inv (killed r w)"
  unfolding killed_def
  by (rule server_inv_upd) (simp_all add: server_inv_kill_body scrollback_ok_def)

lemma server_inv_kill_by_id: "server_inv w \<Longrightarrow> server_inv (fst (kill_by_id sid w))"
proof -
  assume inv: "server_inv w"
  show ?thesis
  proof (cases "SESSIONS w sid")
    case None
    then show ?thesis using inv server_invD(1) [OF inv] by (simp add: kill_by_id_unknown)
  next
    case (Some r)
    have "SESSIONS (killed r w) = SESSIONS w" by (simp add: killed_def)
    then show ?thesis
      using server_inv_unregister [OF server_inv_killed [OF inv], of r sid] server_invD(1) [OF inv] Some
      by (simp add: kill_by_id_known server_inv_def registry_ok_def)
  qed
qed

lemma server_inv_write: "server_inv w \<Longrightarrow> server_inv (fst (session_write r gone enc data w))"
  by (auto simp: session_write_def Let_def scrollback_ok_def split: fd.splits intro!: server_inv_upd)

lemma read_chunk_length: "read_nonblock n cond = Chunk bs \<Longrightarrow> length bs \<le> n"
  by (cases cond) auto

lemma server_inv_reader: "server_inv w \<Longrightarrow> server_inv (reader_step r cond w)"
proof -
  assume inv: "server_inv w"
  have end_inv: "server_inv (reader_end r v)" if "server_inv v" for v
    unfolding reader_end_def by (rule server_inv_upd [OF that]) (simp_all add: scrollback_ok_def)
  show ?thesis
  proof (cases "reader_alive (heap w r) \<and> \<not> closed (heap w r)")
    case False
    then show ?thesis using inv end_inv [OF inv] by (auto simp: reader_step_def)
  next
    case True
    show ?thesis
    proof (cases "read_nonblock 4096 cond")
      case (Chunk bs)
      let ?s = "heap w r" and ?w1 = "upd_session r (\<lambda>s. s\<lparr>scrollback := scrollback s @ bs\<rparr>) w"
      have len: "length bs \<le> 4096" by (rule read_chunk_length [OF Chunk])
      have old: "length (scrollback ?s) \<le> SCROLLBACK_CAP"
        using True server_invD(4) [OF inv, of r] by (simp add: scrollback_ok_def)
      show ?thesis
      proof (cases "SCROLLBACK_CAP < length (scrollback ?s) + length bs")
        case over: True
        have "reader_step r cond w = reader_end r ?w1"
          using True Chunk over by (simp add: reader_step_def append_scrollback_def Let_def)
        also have "\<dots> = upd_session r
            (\<lambda>s. s\<lparr>scrollback := scrollback s @ bs, closed := True, reader_alive := False\<rparr>) w"
          by (simp add: reader_end_def upd_session_def)
        finally show ?thesis
          using inv len old by (auto intro!: server_inv_upd simp: scrollback_ok_def)
      next
        case fits: False
        have "reader_step r cond w = broadcast_output r bs ?w1"
          using True Chunk fits by (simp add: reader_step_def append_scrollback_def Let_def)
        moreover have "server_inv ?w1"
          using inv fits by (auto intro!: server_inv_upd simp: scrollback_ok_def)
        ultimately show ?thesis by (simp add: broadcast_output_def)
      qed
    qed (use True inv end_inv in \<open>simp_all add: reader_step_def broadcast_output_def\<close>)
  qed
qed

lemma server_inv_reap_each:
  "server_inv w \<Longrightarrow> server_inv (fst (reap_each counts now ids reaped w))"
proof (induction counts now ids reaped w rule: reap_each.induct)
  case (2 counts now sid ids reaped w)
  have kill: "server_inv w1" if "session_kill r w = (w1, res)" for r w1 res
    using server_inv_kill [OF "2.prems", of r] that by simp
  show ?case
    using 2
    by (auto split: option.splits prod.splits sum.splits dest: kill) (metis kill)+
qed simp

lemma server_step_inv: "server_step w w' \<Longrightarrow> server_inv w \<Longrightarrow> server_inv w'"
  by (induction rule: server_step.induct)
    (simp_all add: server_inv_open server_inv_kill_by_id server_inv_kill server_inv_write
      server_inv_reader reap_perform_def server_inv_reap_each)

lemma server_inv_init: "server_inv init_server"
  by (simp add: server_inv_def registry_ok_def init_server_def)

lemma reachable_server_inv: "server_reachable w \<Longrightarrow> server_inv w"
  by (induction rule: server_reachable.induct) (auto intro: server_inv_init server_step_inv)

end
