(* ===== verification/Terminal_Channel.thy ===== *)
theory Terminal_Channel
  imports Terminal_Session
begin

text \<open>
  \<open>app/channels/terminal_channel.rb\<close>: the server's end of a terminal subscription. The channel object
  keeps the session it found when the browser subscribed; Action Cable hands its methods the
  parameters and the payload as parsed JSON.
\<close>

record channel =
  chan_session :: "ref option"
  chan_streams :: "string list"
  chan_rejected :: bool
  chan_transmitted :: "message list"

definition new_channel :: channel where
  "new_channel =
     \<lparr>chan_session = None, chan_streams = [], chan_rejected = False, chan_transmitted = []\<rparr>"

text \<open>In Ruby only \<open>nil\<close> and \<open>false\<close> are false; a missing parameter is \<open>nil\<close>.\<close>

definition ruby_truthy :: "json option \<Rightarrow> bool" where
  "ruby_truthy v = (case v of None \<Rightarrow> False | Some JNull \<Rightarrow> False | Some (JBool b) \<Rightarrow> b | _ \<Rightarrow> True)"

definition find_param :: "json option \<Rightarrow> server \<Rightarrow> (ref option) outcome" where
  "find_param v w =
     (case v of Some (JStr sid) \<Rightarrow> session_find sid w | _ \<Rightarrow> synchronize (\<lambda>u. (u, Inr None)) w)"

definition str_param :: "json option \<Rightarrow> string" where
  "str_param v = (case v of Some (JStr s) \<Rightarrow> s | _ \<Rightarrow> [])"

definition subscribed :: "json \<Rightarrow> server \<Rightarrow> channel outcome" where
  "subscribed params w =
     (let vm_name = json_get params ''vm_name''; sid = json_get params ''session_id'';
          rejected = new_channel\<lparr>chan_rejected := True\<rparr>
      in if \<not> (ruby_truthy vm_name \<and> ruby_truthy sid) then (w, Inr rejected)
         else
           (case find_param sid w of
              (w1, Inl e) \<Rightarrow> (w1, Inl e)
            | (w1, Inr None) \<Rightarrow> (w1, Inr rejected)
            | (w1, Inr (Some r)) \<Rightarrow>
                (w1, Inr (new_channel\<lparr>chan_session := Some r,
                   chan_streams := [output_stream (str_param sid)],
                   chan_transmitted :=
                     [Message ''scrollback'' (base64_encode (scrollback (heap w1 r)))]\<rparr>))))"

definition unsubscribed :: "channel \<Rightarrow> server \<Rightarrow> server" where
  "unsubscribed ch w = w"

text \<open>
  \<open>receive\<close>: \<open>payload.fetch("data")\<close> raises \<open>KeyError\<close> without the key, \<open>strict_decode64\<close> raises
  \<open>ArgumentError\<close> on malformed text; both are dropped. A value that is not a string has no
  \<open>unpack1\<close>, and that error is not rescued.
\<close>

definition decode_payload :: "json \<Rightarrow> ruby_error + byte list" where
  "decode_payload payload =
     (case json_get payload ''data'' of
        None \<Rightarrow> Inl KeyError
      | Some (JStr s) \<Rightarrow>
          (case strict_decode64 s of None \<Rightarrow> Inl ArgumentError | Some bs \<Rightarrow> Inr bs)
      | Some _ \<Rightarrow> Inl NoMethodError)"

definition channel_receive :: "channel \<Rightarrow> bool \<Rightarrow> json \<Rightarrow> server \<Rightarrow> unit outcome" where
  "channel_receive ch pty_gone payload w =
     (case chan_session ch of
        None \<Rightarrow> (w, Inr ())
      | Some r \<Rightarrow>
          (case decode_payload payload of
             Inl ArgumentError \<Rightarrow> (w, Inr ())
           | Inl KeyError \<Rightarrow> (w, Inr ())
           | Inl e \<Rightarrow> (w, Inl e)
           | Inr decoded \<Rightarrow> session_write r pty_gone ASCII_8BIT decoded w))"

lemma decode_payload_b64 [simp]:
  "json_get payload ''data'' = Some (JStr (base64_encode bs)) \<Longrightarrow> decode_payload payload = Inr bs"
  by (simp add: decode_payload_def)

text \<open>A subscription is accepted exactly when both parameters are given and the session is known.\<close>

lemma subscribed_accepts:
  assumes "\<not> mutex_held w" and "json_get params ''session_id'' = Some (JStr sid)"
    and "ruby_truthy (json_get params ''vm_name'')" and "SESSIONS w sid = Some r"
  shows "subscribed params w =
    (w, Inr (new_channel\<lparr>chan_session := Some r,
       chan_streams := [output_stream sid],
       chan_transmitted := [Message ''scrollback'' (base64_encode (scrollback (heap w r)))]\<rparr>))"
  using assms
  by (simp add: subscribed_def find_param_def session_find_def synchronize_def ruby_truthy_def
      str_param_def)

lemma receive_decoded:
  assumes "chan_session ch = Some r" and "json_get payload ''data'' = Some (JStr (base64_encode bs))"
  shows "channel_receive ch gone payload w = session_write r gone ASCII_8BIT bs w"
  using assms by (simp add: channel_receive_def)

subsection \<open>The reader's output, as a stream\<close>

text \<open>What a run of data chunks does to a live session, as long as it stays within the cap.\<close>

definition output_frame :: "string \<Rightarrow> byte list \<Rightarrow> string \<times> message" where
  "output_frame sid bs = (output_stream sid, Message ''output'' (base64_encode bs))"

definition live :: "ref \<Rightarrow> server \<Rightarrow> bool" where
  "live r w \<longleftrightarrow> reader_alive (heap w r) \<and> \<not> closed (heap w r)"

lemma reader_step_data:
  assumes "live r w" and "length bs \<le> 4096"
    and "length (scrollback (heap w r)) + length bs \<le> SCROLLBACK_CAP"
  shows "reader_step r (Data bs) w =
    (upd_session r (\<lambda>s. s\<lparr>scrollback := scrollback s @ bs\<rparr>) w)
      \<lparr>broadcasts := broadcasts w @ [output_frame (session_id (heap w r)) bs]\<rparr>"
  using assms
  by (simp add: reader_step_def live_def append_scrollback_def broadcast_output_def output_frame_def
      Let_def upd_session_def)

lemma reader_run_data:
  assumes "live r w" and "\<forall>bs \<in> set chunks. length bs \<le> 4096"
    and "length (scrollback (heap w r)) + length (concat chunks) \<le> SCROLLBACK_CAP"
  shows "let w' = reader_run r (map Data chunks) w in
    live r w' \<and> scrollback (heap w' r) = scrollback (heap w r) @ concat chunks \<and>
    broadcasts w' = broadcasts w @ map (output_frame (session_id (heap w r))) chunks"
  using assms
proof (induction chunks arbitrary: w)
  case Nil
  then show ?case by simp
next
  case (Cons bs chunks)
  let ?w1 = "reader_step r (Data bs) w"
  have fits: "length (scrollback (heap w r)) + length bs \<le> SCROLLBACK_CAP"
    using Cons.prems(3) by simp
  have eq: "?w1 = (upd_session r (\<lambda>s. s\<lparr>scrollback := scrollback s @ bs\<rparr>) w)
      \<lparr>broadcasts := broadcasts w @ [output_frame (session_id (heap w r)) bs]\<rparr>"
    by (rule reader_step_data) (use Cons.prems fits in simp_all)
  have "live r ?w1" using Cons.prems(1) by (simp add: eq live_def)
  moreover have "length (scrollback (heap ?w1 r)) + length (concat chunks) \<le> SCROLLBACK_CAP"
    using Cons.prems(3) by (simp add: eq)
  ultimately show ?case
    using Cons.IH [of ?w1] Cons.prems(2) by (simp add: eq Let_def)
qed

lemma reader_step_overflow:
  assumes "live r w" and "length bs \<le> 4096"
    and "SCROLLBACK_CAP < length (scrollback (heap w r)) + length bs"
  shows "reader_step r (Data bs) w =
    upd_session r (\<lambda>s. s\<lparr>scrollback := scrollback s @ bs, closed := True, reader_alive := False\<rparr>) w"
  using assms
  by (simp add: reader_step_def live_def append_scrollback_def reader_end_def Let_def upd_session_def)

lemma reader_ended: "\<not> reader_alive (heap w r) \<Longrightarrow> reader_run r cs w = w"
  by (induction cs) (simp_all add: reader_step_def)

end
