(* ===== verification/Terminal_Controller.thy ===== *)
theory Terminal_Controller
  imports Cable_Client Terminal_Channel
begin

unbundle bit_operations_syntax

text \<open>
  \<open>app/javascript/controllers/terminal_controller.js\<close>: the browser's end of a terminal. A page is the
  controller together with the Action Cable client. The terminal emulator (xterm.js) is its size and
  the log of what the controller does to its screen; the size that \<open>fitAddon.fit()\<close> finds is an
  argument. Sizes are JavaScript numbers that the code only shifts and masks, so they are kept as the
  32-bit integers the bit operators work on.
\<close>

subsection \<open>State\<close>

datatype screen_op = Reset | Write "byte list" | Writeln ustring

record terminal_ctl =
  vmNameValue :: string
  sessionIdValue :: string
  hasStatusTarget :: bool
  status_text :: ustring
  term_cols :: "32 word"
  term_rows :: "32 word"
  screen :: "screen_op list"
  disposed :: bool
  resize_listener :: bool
  size_timer :: bool \<comment> \<open>the 50 ms timer of \<open>connect\<close>\<close>
  term_sub :: "subscription option"

record page =
  ctl :: terminal_ctl
  cab :: cable

definition upd_ctl :: "(terminal_ctl \<Rightarrow> terminal_ctl) \<Rightarrow> page \<Rightarrow> page" where
  "upd_ctl f p = p\<lparr>ctl := f (ctl p)\<rparr>"

subsection \<open>Outbound\<close>

definition setStatus :: "ustring \<Rightarrow> page \<Rightarrow> page" where
  "setStatus t = upd_ctl (\<lambda>k. if hasStatusTarget k then k\<lparr>status_text := t\<rparr> else k)"

text \<open>\<open>this.subscription?.perform("receive", { data: b64 })\<close>.\<close>

definition sendBytes :: "byte list \<Rightarrow> page \<Rightarrow> page" where
  "sendBytes bytes p =
     (let b64 = base64_encode bytes
      in case term_sub (ctl p) of
           None \<Rightarrow> p
         | Some s \<Rightarrow> p\<lparr>cab := fst (perform s ''receive'' [(''data'', JStr b64)] (cab p))\<rparr>)"

text \<open>The five bytes of the resize message; storing into a \<open>Uint8Array\<close> keeps the low byte.\<close>

definition hi_byte :: "32 word \<Rightarrow> byte" where
  "hi_byte n = ucast (signed_drop_bit 8 n AND 255)"

definition lo_byte :: "32 word \<Rightarrow> byte" where
  "lo_byte n = ucast (n AND 255)"

definition resize_message :: "32 word \<Rightarrow> 32 word \<Rightarrow> byte list" where
  "resize_message cols rows = [1, hi_byte cols, lo_byte cols, hi_byte rows, lo_byte rows]"

definition sendResize :: "page \<Rightarrow> page" where
  "sendResize p = sendBytes (resize_message (term_cols (ctl p)) (term_rows (ctl p))) p"

definition onData :: "ustring \<Rightarrow> page \<Rightarrow> page" where
  "onData data p = sendBytes (text_encode data) p"

definition fit :: "32 word \<Rightarrow> 32 word \<Rightarrow> page \<Rightarrow> page" where
  "fit cols rows = upd_ctl (\<lambda>k. k\<lparr>term_cols := cols, term_rows := rows\<rparr>)"

definition resizeListener :: "32 word \<Rightarrow> 32 word \<Rightarrow> page \<Rightarrow> page" where
  "resizeListener cols rows p = sendResize (fit cols rows p)"

subsection \<open>Inbound\<close>

fun json_truthy :: "json \<Rightarrow> bool" where
  "json_truthy JNull = False"
| "json_truthy (JBool b) = b"
| "json_truthy (JNum n) = (n \<noteq> 0)"
| "json_truthy (JStr s) = (s \<noteq> [])"
| "json_truthy (JArr _) = True"
| "json_truthy (JObj _) = True"

text \<open>The string that \<open>atob\<close> makes of its argument; \<open>None\<close> is \<open>undefined\<close>.\<close>

fun js_to_string :: "json \<Rightarrow> string" where
  "js_to_string JNull = ''null''"
| "js_to_string (JBool b) = (if b then ''true'' else ''false'')"
| "js_to_string (JNum n) = int_digits n"
| "js_to_string (JStr s) = s"
| "js_to_string (JArr js) = comma_join (map (\<lambda>j. if j = JNull then [] else js_to_string j) js)"
| "js_to_string (JObj _) = ''[object Object]''"

definition atob_arg :: "json option \<Rightarrow> string" where
  "atob_arg d = (case d of None \<Rightarrow> ''undefined'' | Some j \<Rightarrow> js_to_string j)"

definition add_screen :: "screen_op list \<Rightarrow> page \<Rightarrow> page" where
  "add_screen ops = upd_ctl (\<lambda>k. k\<lparr>screen := screen k @ ops\<rparr>)"

text \<open>\<open>handleMessage\<close>; the second component tells that \<open>atob\<close> threw.\<close>

definition handleMessage :: "json \<Rightarrow> page \<Rightarrow> page \<times> bool" where
  "handleMessage msg p =
     (if \<not> json_truthy msg \<or> \<not> (case json_get msg ''type'' of None \<Rightarrow> False | Some t \<Rightarrow> json_truthy t)
      then (p, False)
      else
        (case atob (atob_arg (json_get msg ''data'')) of
           None \<Rightarrow> (p, True)
         | Some bytes \<Rightarrow>
             if json_get msg ''type'' = Some (JStr ''scrollback'')
             then (add_screen [Reset, Write bytes] p, False)
             else if json_get msg ''type'' = Some (JStr ''output'')
             then (add_screen [Write bytes] p, False)
             else (p, False)))"

definition em_dash :: cu where "em_dash = 0x2014"
definition ellipsis :: cu where "ellipsis = 0x2026"

definition disconnected_line :: ustring where
  "disconnected_line = ustr (crlf @ ''[ActionCable disconnected]'')"

definition rejected_line :: ustring where
  "rejected_line =
     ustr (crlf @ ''[Subscription rejected '') @ [em_dash] @ ustr '' session missing?]''"

text \<open>The mixin of the subscription: what each callback name runs.\<close>

definition mixin_names :: "string list" where
  "mixin_names = [''received'', ''connected'', ''disconnected'', ''rejected'']"

definition run_callback :: "call \<Rightarrow> page \<Rightarrow> page" where
  "run_callback k p =
     (if term_sub (ctl p) \<noteq> None \<and> sub_ref (the (term_sub (ctl p))) = call_ref k then
        (if call_name k = ''received'' then
           (case call_args k of m # _ \<Rightarrow> fst (handleMessage m p) | [] \<Rightarrow> p)
         else if call_name k = ''connected'' then setStatus (ustr ''connected'') p
         else if call_name k = ''disconnected'' then
           add_screen [Writeln disconnected_line] (setStatus (ustr ''disconnected'') p)
         else if call_name k = ''rejected'' then
           add_screen [Writeln rejected_line] (setStatus (ustr ''rejected'') p)
         else p)
      else p)"

subsection \<open>Life cycle\<close>

definition subscription_params :: "terminal_ctl \<Rightarrow> json" where
  "subscription_params k =
     JObj [(''channel'', JStr ''TerminalChannel''), (''vm_name'', JStr (vmNameValue k)),
           (''session_id'', JStr (sessionIdValue k))]"

definition new_ctl :: "string \<Rightarrow> string \<Rightarrow> bool \<Rightarrow> terminal_ctl" where
  "new_ctl vm sid has_status =
     \<lparr>vmNameValue = vm, sessionIdValue = sid, hasStatusTarget = has_status, status_text = [],
      term_cols = 80, term_rows = 24, screen = [], disposed = False, resize_listener = False,
      size_timer = False, term_sub = None\<rparr>"

definition connect :: "32 word \<Rightarrow> 32 word \<Rightarrow> page \<Rightarrow> page" where
  "connect cols rows p =
     (let p1 = fit cols rows (upd_ctl (\<lambda>k. k\<lparr>term_cols := 80, term_rows := 24, screen := []\<rparr>) p);
          p2 = sendResize (setStatus (ustr ''connecting'' @ [ellipsis]) p1);
          p3 = upd_ctl (\<lambda>k. k\<lparr>resize_listener := True\<rparr>) p2
      in case subs_create (Inr (subscription_params (ctl p3))) mixin_names (cab p3) of
           (c, s) \<Rightarrow>
             upd_ctl (\<lambda>k. k\<lparr>term_sub := Some s, size_timer := True\<rparr>) (p3\<lparr>cab := c\<rparr>))"

definition ctl_disconnect :: "page \<Rightarrow> page" where
  "ctl_disconnect p =
     (let p1 = upd_ctl (\<lambda>k. k\<lparr>resize_listener := False\<rparr>) p;
          p2 = (case term_sub (ctl p1) of
                  None \<Rightarrow> p1
                | Some s \<Rightarrow> p1\<lparr>cab := subs_remove s (cab p1)\<rparr>)
      in upd_ctl (\<lambda>k. k\<lparr>disposed := True\<rparr>) p2)"

subsection \<open>Events of the page\<close>

text \<open>
  An event of the cable client runs the callbacks it has called, in order; the callbacks do not call
  back into the client.
\<close>

definition page_cable :: "cable_event \<Rightarrow> page \<Rightarrow> page" where
  "page_cable e p =
     (let c1 = handle_event e (cab p)
      in fold run_callback (drop (length (called (cab p))) (called c1)) (p\<lparr>cab := c1\<rparr>))"

datatype page_event =
    On_cable cable_event | On_keys ustring | On_resize "32 word" "32 word" | On_size_timer | On_leave

fun handle_page :: "page_event \<Rightarrow> page \<Rightarrow> page" where
  "handle_page (On_cable e) p = page_cable e p"
| "handle_page (On_keys data) p = (if disposed (ctl p) then p else onData data p)"
| "handle_page (On_resize cols rows) p =
     (if resize_listener (ctl p) then resizeListener cols rows p else p)"
| "handle_page On_size_timer p =
     (if size_timer (ctl p) then sendResize (upd_ctl (\<lambda>k. k\<lparr>size_timer := False\<rparr>) p) else p)"
| "handle_page On_leave p = ctl_disconnect p"

end
