(* ===== verification/Terminal_Link.thy ===== *)
theory Terminal_Link
  imports Terminal_Controller
begin

unbundle bit_operations_syntax

text \<open>
  The two ends of the terminal wire together: what the browser sends reaches the pseudo-terminal, what
  the pseudo-terminal prints reaches the screen, and where the code loses bytes.
\<close>

subsection \<open>Frames\<close>

text \<open>The object that \<open>sendBytes\<close> performs with, and a message of the server as JSON.\<close>

definition wire_payload :: "byte list \<Rightarrow> json" where
  "wire_payload bytes =
     JObj [(''data'', JStr (base64_encode bytes)), (''action'', JStr ''receive'')]"

definition message_json :: "message \<Rightarrow> json" where
  "message_json m = JObj [(''type'', JStr (msg_type m)), (''data'', JStr (msg_data m))]"

lemma decode_wire_payload [simp]: "decode_payload (wire_payload bytes) = Inr bytes"
  by (simp add: wire_payload_def)

lemma receive_wire_payload:
  "chan_session ch = Some r \<Longrightarrow>
     channel_receive ch gone (wire_payload bytes) w = session_write r gone ASCII_8BIT bytes w"
  by (simp add: channel_receive_def)

definition message_frame :: "subscription \<Rightarrow> byte list \<Rightarrow> frame" where
  "message_frame s bytes =
     Frame ''message'' (sub_identifier s) (Some (json_stringify (wire_payload bytes)))"

lemma perform_receive:
  "perform s ''receive'' [(''data'', JStr (base64_encode bytes))] c
     = conn_send (message_frame s bytes) c"
  by (simp add: perform_def sub_send_def message_frame_def wire_payload_def)

lemma sendBytes_open:
  "term_sub (ctl p) = Some s \<Longrightarrow> isOpen (cab p) \<Longrightarrow>
     sent (cab (sendBytes bytes p)) = sent (cab p) @ [message_frame s bytes]"
  by (simp add: sendBytes_def perform_receive conn_send_def)

lemma sendBytes_closed: "\<not> isOpen (cab p) \<Longrightarrow> sendBytes bytes p = p"
  by (simp add: sendBytes_def perform_receive conn_send_def split: option.splits)

lemma sendBytes_unsubscribed: "term_sub (ctl p) = None \<Longrightarrow> sendBytes bytes p = p"
  by (simp add: sendBytes_def)

subsection \<open>Upstream\<close>

lemma mask_255: "(255 :: 32 word) = mask 8"
  by (simp add: mask_eq_exp_minus_1)

lemma unat_hi_byte: "unat (hi_byte c) = unat c div 256 mod 256"
proof -
  have "hi_byte c = (ucast (drop_bit 8 c) :: byte)"
    unfolding hi_byte_def mask_255 by (rule bit_word_eqI) (auto simp: bit_simps)
  moreover have "unat (drop_bit 8 c) = unat c div 256"
    using unsigned_less [of c, where ?'a = nat] unfolding unsigned_drop_bit_eq
    by (simp add: drop_bit_eq_div take_bit_nat_eq_self)
  ultimately show ?thesis
    by (simp add: unsigned_ucast_eq take_bit_eq_mod del: drop_bit_eq_div)
qed

lemma unat_lo_byte: "unat (lo_byte c) = unat c mod 256"
proof -
  have "lo_byte c = (ucast c :: byte)"
    unfolding lo_byte_def mask_255 by (rule bit_word_eqI) (auto simp: bit_simps)
  then show ?thesis
    by (simp add: unsigned_ucast_eq take_bit_eq_mod)
qed

lemma two_bytes: "n div 256 mod 256 * 256 + n mod 256 = n mod (65536 :: nat)"
  using mod_mult2_eq [of n 256 256] by simp

lemma resize_message_is_resize [simp]: "is_resize ASCII_8BIT (resize_message cols rows)"
  by (simp add: is_resize_def resize_message_def RESIZE_PREFIX_BYTE_def)

lemma resize_message_fields:
  "unat (resize_message cols rows ! 1) * 256 + unat (resize_message cols rows ! 2) = unat cols mod 65536"
  "unat (resize_message cols rows ! 3) * 256 + unat (resize_message cols rows ! 4) = unat rows mod 65536"
  by (simp_all add: resize_message_def unat_hi_byte unat_lo_byte two_bytes)

definition ready :: "ref \<Rightarrow> server \<Rightarrow> bool" where
  "ready r w \<longleftrightarrow> \<not> closed (heap w r) \<and> master (heap w r) = Fd_open"

lemma write_resize:
  "ready r w \<Longrightarrow>
     session_write r False ASCII_8BIT (resize_message cols rows) w =
       (upd_session r (\<lambda>s. s\<lparr>winsize := Some (unat rows mod 65536, unat cols mod 65536)\<rparr>) w, Inr ())"
  by (simp only: session_write_def ready_def Let_def resize_message_fields resize_message_is_resize) simp

lemma write_input:
  "ready r w \<Longrightarrow> \<not> is_resize ASCII_8BIT bytes \<Longrightarrow>
     session_write r False ASCII_8BIT bytes w =
       (upd_session r (\<lambda>s. s\<lparr>pty_input := pty_input s @ bytes\<rparr>) w, Inr ())"
  by (simp add: session_write_def ready_def Let_def)

text \<open>
  A resize notice reaches the terminal: with an open connection, \<open>sendResize\<close> sends one message whose
  payload, received by the channel of a running session, sets the window size of the pseudo-terminal to
  the emulator's rows and columns, each modulo 65536, and writes nothing to the shell.
\<close>

theorem resize_reaches_pty:
  assumes "term_sub (ctl p) = Some s" and "isOpen (cab p)"
    and "chan_session ch = Some r" and "ready r w"
  shows "\<exists>payload.
    sent (cab (sendResize p)) = sent (cab p) @
      [Frame ''message'' (sub_identifier s) (Some (json_stringify payload))] \<and>
    channel_receive ch False payload w =
      (upd_session r (\<lambda>u. u\<lparr>winsize := Some (unat (term_rows (ctl p)) mod 65536,
                                         unat (term_cols (ctl p)) mod 65536)\<rparr>) w, Inr ())"
  using assms
  by (intro exI [of _ "wire_payload (resize_message (term_cols (ctl p)) (term_rows (ctl p)))"])
    (simp add: sendResize_def sendBytes_open message_frame_def receive_wire_payload write_resize)

definition sample_sub :: subscription where
  "sample_sub = \<lparr>sub_ref = 0, sub_identifier = ''id'', callbacks = mixin_names\<rparr>"

definition open_cable :: cable where
  "open_cable = (new_consumer ''/cable'' 1 (\<lambda>_. 0))\<lparr>webSocket :=
     Some \<lparr>ws_id = 0, readyState = OPEN, ws_protocol = ''actioncable-v1-json'', handlers_on = True,
           ws_requested = protocols, ws_url = ''/cable''\<rparr>, next_ws := 1\<rparr>"

definition open_page :: "32 word \<Rightarrow> 32 word \<Rightarrow> page" where
  "open_page cols rows =
     \<lparr>ctl = (new_ctl ''vm'' ''sid'' True)\<lparr>term_cols := cols, term_rows := rows,
                                       term_sub := Some sample_sub\<rparr>,
      cab = open_cable\<rparr>"

definition running_server :: server where
  "running_server = fst (session_open (Str ''vm'') ''sid'' 0 (Some 42) init_server)"

lemma open_page_simps [simp]:
  "term_sub (ctl (open_page cols rows)) = Some sample_sub" "isOpen (cab (open_page cols rows))"
  by (simp_all add: open_page_def new_ctl_def open_cable_def isOpen_def isState_def getState_def)

lemma vm_is_valid [simp]: "validate_vm_name (Str ''vm'') = Inr ()"
  by (simp add: validate_vm_name_def valid_vm_name_def VM_NAME_PATTERN_def name_pattern_def
      ascii_alnum_def)

lemma running_server_simps [simp]:
  "ready 0 running_server" "live 0 running_server" "scrollback (heap running_server 0) = []"
  "SESSIONS running_server ''sid'' = Some 0" "\<not> mutex_held running_server"
  "session_id (heap running_server 0) = ''sid''" "broadcasts running_server = []"
  by (simp_all add: running_server_def session_open_def init_server_def synchronize_def
      session_start_def Let_def ready_def live_def session_initialize_def)

lemma running_server_reachable: "server_reachable running_server"
  unfolding running_server_def
  by (rule reach_step [OF reach_init]) (rule step_open)

theorem resize_reaches_pty_witness:
  "ready 0 running_server \<and> (\<exists>payload.
    sent (cab (sendResize (open_page 100 30))) = [] @
      [Frame ''message'' ''id'' (Some (json_stringify payload))] \<and>
    channel_receive (new_channel\<lparr>chan_session := Some 0\<rparr>) False payload running_server =
      (upd_session 0 (\<lambda>u. u\<lparr>winsize := Some (30, 100)\<rparr>) running_server, Inr ()))"
  using resize_reaches_pty [of "open_page 100 30" sample_sub
      "new_channel\<lparr>chan_session := Some 0\<rparr>" 0 running_server]
  by (simp add: open_page_def new_ctl_def open_cable_def isOpen_def isState_def getState_def
      sample_sub_def new_consumer_def)

text \<open>
  Keystrokes reach the shell: what the user types, encoded in UTF-8, is appended unchanged to the
  input of the running pseudo-terminal, and nothing else changes, provided that it is shorter than five
  bytes or does not begin with U+0001.
\<close>

theorem keystrokes_reach_shell:
  assumes "term_sub (ctl p) = Some s" and "isOpen (cab p)"
    and "chan_session ch = Some r" and "ready r w"
    and "length (text_encode keys) < 5 \<or> hd (text_encode keys) \<noteq> 1"
  shows "\<exists>payload.
    sent (cab (onData keys p)) = sent (cab p) @
      [Frame ''message'' (sub_identifier s) (Some (json_stringify payload))] \<and>
    channel_receive ch False payload w =
      (upd_session r (\<lambda>u. u\<lparr>pty_input := pty_input u @ text_encode keys\<rparr>) w, Inr ())"
proof -
  have "\<not> is_resize ASCII_8BIT (text_encode keys)"
    using assms(5) by (cases "text_encode keys") (auto simp: is_resize_def RESIZE_PREFIX_BYTE_def)
  with assms show ?thesis
    by (intro exI [of _ "wire_payload (text_encode keys)"])
      (simp add: onData_def sendBytes_open message_frame_def receive_wire_payload write_input)
qed

lemma text_encode_ls: "text_encode (ustr ''ls'') = [108, 115]"
  by (simp add: text_encode_ascii ustr_def)

theorem keystrokes_reach_shell_witness:
  "\<exists>payload.
    sent (cab (onData (ustr ''ls'') (open_page 80 24))) =
      [Frame ''message'' ''id'' (Some (json_stringify payload))] \<and>
    channel_receive (new_channel\<lparr>chan_session := Some 0\<rparr>) False payload running_server =
      (upd_session 0 (\<lambda>u. u\<lparr>pty_input := pty_input u @ [108, 115]\<rparr>) running_server, Inr ())"
  using keystrokes_reach_shell [of "open_page 80 24" sample_sub
      "new_channel\<lparr>chan_session := Some 0\<rparr>" 0 running_server "ustr ''ls''"]
  by (simp add: text_encode_ls open_page_def new_ctl_def open_cable_def isOpen_def isState_def
      getState_def sample_sub_def new_consumer_def)

text \<open>
  C3: The resize prefix is ambiguous: typed or pasted text of at least five bytes that begins with
  Ctrl-A (U+0001) is taken for a resize by the session: the shell receives none of it, and the window
  size becomes whatever its next four bytes spell.
\<close>

theorem ctrl_a_input_is_taken_for_resize:
  assumes "chan_session ch = Some r" and "ready r w"
    and "\<forall>u \<in> set keys. unat u < 128" and "keys = 1 # c1 # c2 # r1 # r2 # others"
  shows "channel_receive ch False (wire_payload (text_encode keys)) w =
    (upd_session r (\<lambda>u. u\<lparr>winsize := Some (unat r1 * 256 + unat r2, unat c1 * 256 + unat c2)\<rparr>) w,
     Inr ())"
proof -
  have enc: "text_encode keys = map (\<lambda>u. of_nat (unat u)) keys"
    by (rule text_encode_ascii [OF assms(3)])
  have small: "unat c1 < 128" "unat c2 < 128" "unat r1 < 128" "unat r2 < 128"
    using assms(3,4) by auto
  have byte: "unat (of_nat (unat u) :: byte) = unat u" if "unat u < 128" for u :: cu
    using that by (simp add: unsigned_ucast_eq take_bit_nat_eq_self)
  show ?thesis
    unfolding receive_wire_payload [OF assms(1)] assms(4) enc [unfolded assms(4)]
    using assms(2) small
    by (simp add: session_write_def ready_def Let_def is_resize_def RESIZE_PREFIX_BYTE_def byte
        del: of_nat_unat ucast_id)
qed

theorem ctrl_a_input_witness:
  "channel_receive (new_channel\<lparr>chan_session := Some 0\<rparr>) False
     (wire_payload (text_encode (1 # ustr ''echo''))) running_server =
   (upd_session 0 (\<lambda>u. u\<lparr>winsize := Some (104 * 256 + 111, 101 * 256 + 99)\<rparr>) running_server, Inr ())"
  using ctrl_a_input_is_taken_for_resize [of "new_channel\<lparr>chan_session := Some 0\<rparr>" 0
      running_server "1 # ustr ''echo''" 101 99 104 111 "[]"]
  by (simp add: ustr_def)

subsection \<open>Downstream\<close>

definition screen_of :: "page \<Rightarrow> screen_op list" where
  "screen_of p = screen (ctl p)"

lemma handle_scrollback:
  "handleMessage (message_json (Message ''scrollback'' (base64_encode bs))) p
     = (add_screen [Reset, Write bs] p, False)"
  by (simp add: handleMessage_def message_json_def atob_arg_def)

lemma handle_output:
  "handleMessage (message_json (Message ''output'' (base64_encode bs))) p
     = (add_screen [Write bs] p, False)"
  by (simp add: handleMessage_def message_json_def atob_arg_def)

lemma add_screen_add [simp]:
  "add_screen ys (add_screen xs p) = add_screen (xs @ ys) p" "add_screen [] p = p"
  by (simp_all add: add_screen_def upd_ctl_def)

definition deliver :: "message \<Rightarrow> page \<Rightarrow> page" where
  "deliver m p = fst (handleMessage (message_json m) p)"

lemma deliver_outputs:
  "fold deliver (map (\<lambda>bs. snd (output_frame sid bs)) chunks) p = add_screen (map Write chunks) p"
  by (induction chunks arbitrary: p) (simp_all add: deliver_def output_frame_def handle_output)

text \<open>
  C4: Output reaches the screen: the chunks that the reader of a live session takes from the
  pseudo-terminal are broadcast on the session's stream one by one, and a page that receives these
  messages writes exactly the same chunks to its emulator, in order; the session stays live and its
  scrollback is extended by all of them (as long as the scrollback stays within 64 KiB).
\<close>

theorem output_reaches_screen:
  assumes "live r w" and "\<forall>bs \<in> set chunks. length bs \<le> 4096"
    and "length (scrollback (heap w r)) + length (concat chunks) \<le> SCROLLBACK_CAP"
  shows "\<exists>msgs. let w' = reader_run r (map Data chunks) w in
    broadcasts w' = broadcasts w @ map (Pair (output_stream (session_id (heap w r)))) msgs \<and>
    fold deliver msgs p = add_screen (map Write chunks) p \<and>
    live r w' \<and> scrollback (heap w' r) = scrollback (heap w r) @ concat chunks"
proof -
  let ?sid = "session_id (heap w r)"
  have frames: "map (output_frame ?sid) chunks
      = map (Pair (output_stream ?sid)) (map (\<lambda>bs. snd (output_frame ?sid bs)) chunks)"
    by (simp add: output_frame_def comp_def)
  show ?thesis
    using reader_run_data [OF assms] deliver_outputs [of ?sid chunks p] frames
    by (intro exI [of _ "map (\<lambda>bs. snd (output_frame ?sid bs)) chunks"]) (simp add: Let_def)
qed

theorem output_reaches_screen_witness:
  "\<exists>msgs. let w' = reader_run 0 (map Data [[104, 105], [10]]) running_server in
    broadcasts w' = [] @ map (Pair (output_stream ''sid'')) msgs \<and>
    fold deliver msgs (open_page 80 24) = add_screen (map Write [[104, 105], [10]]) (open_page 80 24) \<and>
    live 0 w' \<and> scrollback (heap w' 0) = [] @ [104, 105, 10]"
  using output_reaches_screen [of 0 running_server "[[104, 105], [10]]" "open_page 80 24"]
  by (simp add: SCROLLBACK_CAP_def)

text \<open>
  C5: Reconnecting replays the terminal: a browser that subscribes to a known session is accepted and
  sent one scrollback message, and handling it resets the emulator and writes all the bytes the
  session's scrollback holds.
\<close>

theorem reconnect_replays_scrollback:
  assumes "server_reachable w" and "SESSIONS w sid = Some r"
    and "vm \<noteq> []" and "sessionIdValue k = sid" and "vmNameValue k = vm"
  shows "\<exists>ch m. subscribed (subscription_params k) w = (w, Inr ch) \<and>
    \<not> chan_rejected ch \<and> chan_session ch = Some r \<and>
    chan_streams ch = [output_stream (session_id (heap w r))] \<and> chan_transmitted ch = [m] \<and>
    deliver m p = add_screen [Reset, Write (scrollback (heap w r))] p"
proof -
  have inv: "server_inv w" by (rule reachable_server_inv [OF assms(1)])
  have "subscribed (subscription_params k) w =
    (w, Inr (new_channel\<lparr>chan_session := Some r, chan_streams := [output_stream sid],
       chan_transmitted := [Message ''scrollback'' (base64_encode (scrollback (heap w r)))]\<rparr>))"
    by (rule subscribed_accepts)
      (use assms server_invD(1) [OF inv] in \<open>simp_all add: subscription_params_def ruby_truthy_def\<close>)
  then show ?thesis
    using server_invD(3) [OF inv assms(2)]
    by (simp add: new_channel_def deliver_def handle_scrollback)
qed

theorem reconnect_replays_scrollback_witness:
  "\<exists>ch m. subscribed (subscription_params (new_ctl ''vm'' ''sid'' True)) running_server
      = (running_server, Inr ch) \<and>
    \<not> chan_rejected ch \<and> chan_session ch = Some 0 \<and>
    chan_streams ch = [output_stream ''sid''] \<and> chan_transmitted ch = [m] \<and>
    deliver m (open_page 80 24) = add_screen [Reset, Write []] (open_page 80 24)"
  using reconnect_replays_scrollback [of running_server "''sid''" 0 "''vm''"
      "new_ctl ''vm'' ''sid'' True" "open_page 80 24"]
  by (simp add: running_server_reachable new_ctl_def)

subsection \<open>The size the terminal starts with\<close>

definition size_messages :: "page \<Rightarrow> frame list" where
  "size_messages p = filter (\<lambda>f. fr_command f = ''message'') (sent (cab p))"

definition messages_of :: "cable \<Rightarrow> frame list" where
  "messages_of c = filter (\<lambda>f. fr_command f = ''message'') (sent c)"

lemma messages_of_cong: "sent d = sent c \<Longrightarrow> messages_of d = messages_of c"
  by (simp add: messages_of_def)

lemma messages_of_command:
  "command \<noteq> ''message'' \<Longrightarrow> messages_of (fst (sendCommand s command c)) = messages_of c"
  by (simp add: messages_of_def sendCommand_def conn_send_def)

lemma sent_guarantor [simp]:
  "sent (guarantee s c) = sent c" "sent (guarantor_forget s c) = sent c"
  "sent (subs_forget s c) = sent c" "sent (notify_sub nm args s c) = sent c"
  by (simp_all add: guarantee_def startGuaranteeing_def guarantor_forget_def subs_forget_def
      notify_sub_def)

lemma messages_of_subscribe [simp]: "messages_of (subscribe s c) = messages_of c"
  by (auto simp: subscribe_def messages_of_def sendCommand_def conn_send_def)

lemma messages_fold:
  "(\<And>x d. messages_of (f x d) = messages_of d) \<Longrightarrow> messages_of (fold f xs c) = messages_of c"
  by (induction xs arbitrary: c) simp_all

lemma messages_same_subs: "same_subs c d \<Longrightarrow> messages_of d = messages_of c"
  by (rule messages_of_cong) (simp add: same_subs_def)

lemma messages_basic [simp]:
  "messages_of (notify_sub nm args s c) = messages_of c"
  "messages_of (guarantor_forget s c) = messages_of c"
  "messages_of (subs_forget s c) = messages_of c"
  by (simp_all add: messages_of_def)

lemma messages_frame [simp]:
  "messages_of (c\<lparr>disconnected := b\<rparr>) = messages_of c"
  "messages_of (c\<lparr>reconnectAttempted := b\<rparr>) = messages_of c"
  "messages_of (c\<lparr>retryTimeout := b\<rparr>) = messages_of c"
  "messages_of (c\<lparr>webSocket := so\<rparr>) = messages_of c"
  "messages_of (c\<lparr>now_ms := t\<rparr>) = messages_of c"
  "messages_of (c\<lparr>reopenTimers := n\<rparr>) = messages_of c"
  "messages_of (c\<lparr>visibilityTimers := n\<rparr>) = messages_of c"
  "messages_of (c\<lparr>next_sub := n\<rparr>) = messages_of c"
  "messages_of (c\<lparr>subscriptions := ss\<rparr>) = messages_of c"
  by (simp_all add: messages_of_def)

lemmas messages_conn [simp] = conn_same_subs [THEN messages_same_subs]

text \<open>Only \<open>perform\<close> sends messages; nothing that the client does by itself is one.\<close>

lemma messages_event: "messages_of (handle_event e c) = messages_of c"
proof (cases e)
  case (Sock_message m)
  have "messages_of (fst (on_message m c)) = messages_of c"
    by (simp add: on_message_def Let_def subs_reload_def messages_fold confirmSubscription_def
        subs_reject_def notify_id_def split: option.splits message_type.splits)
  with Sock_message show ?thesis by simp
qed (auto simp: on_open_def on_close_def Let_def notifyAll_def messages_fold
    retrySubscribing_fire_def visibilityDidChange_fire_def split: option.splits nat.splits)

lemma run_callback_cab [simp]: "cab (fold run_callback ks p) = cab p"
proof (induction ks arbitrary: p)
  case (Cons k ks)
  have "cab (run_callback k p) = cab p"
    by (simp add: run_callback_def handleMessage_def add_screen_def setStatus_def upd_ctl_def
        split: list.splits option.splits)
  with Cons show ?case by simp
qed simp

lemma messages_page_cable: "messages_of (cab (page_cable e p)) = messages_of (cab p)"
  by (simp add: page_cable_def Let_def messages_event)

lemma messages_page_cables:
  "messages_of (cab (fold handle_page (map On_cable es) p)) = messages_of (cab p)"
  by (induction es arbitrary: p) (simp_all add: messages_page_cable)

lemma ctl_only [simp]:
  "cab (upd_ctl f p) = cab p" "ctl (upd_ctl f p) = f (ctl p)"
  "cab (setStatus t p) = cab p" "term_sub (ctl (setStatus t p)) = term_sub (ctl p)"
  "cab (fit cols rows p) = cab p" "term_sub (ctl (fit cols rows p)) = term_sub (ctl p)"
  by (simp_all add: upd_ctl_def setStatus_def fit_def)

lemma isOpen_ensure [simp]: "isOpen (ensureActiveConnection c) = isOpen c"
  by (simp add: ensureActiveConnection_def conn_open_def monitor_start_def new_socket_def
      startPolling_def poll_def stopPolling_def upd_mon_def isOpen_def isActive_def isState_def
      getState_def split: option.splits)

lemma create_sends_no_message:
  "messages_of (fst (subs_create ch mx c)) = messages_of c"
  "isOpen (fst (subs_create ch mx c)) = isOpen c"
proof -
  have "isOpen (c\<lparr>next_sub := n, subscriptions := ss\<rparr>) = isOpen c" for n ss
    by (simp add: isOpen_def isState_def getState_def)
  then show "messages_of (fst (subs_create ch mx c)) = messages_of c"
    "isOpen (fst (subs_create ch mx c)) = isOpen c"
    by (simp_all add: subs_create_def subs_add_def Let_def conn_ok_cong(3) [OF same_conn_basic(3)])
qed

lemma connect_cab_eq:
  "term_sub (ctl p) = None \<Longrightarrow>
     \<exists>ch. cab (connect cols rows p) = fst (subs_create ch mixin_names (cab p))"
  by (simp add: connect_def Let_def sendResize_def sendBytes_unsubscribed case_prod_beta) blast

lemma connect_cab:
  assumes "term_sub (ctl p) = None"
  shows "messages_of (cab (connect cols rows p)) = messages_of (cab p)"
    and "isOpen (cab (connect cols rows p)) = isOpen (cab p)"
  using connect_cab_eq [OF assms, of cols rows] create_sends_no_message by force+

text \<open>What the callbacks of the subscription leave alone.\<close>

definition same_sender :: "page \<Rightarrow> page \<Rightarrow> bool" where
  "same_sender p q \<longleftrightarrow> term_sub (ctl q) = term_sub (ctl p) \<and> term_cols (ctl q) = term_cols (ctl p) \<and>
     term_rows (ctl q) = term_rows (ctl p) \<and> size_timer (ctl q) = size_timer (ctl p)"

lemma run_callback_sender: "same_sender p (run_callback k p)"
  by (auto simp: same_sender_def run_callback_def handleMessage_def setStatus_def add_screen_def upd_ctl_def
      split: list.split option.split)

lemma same_sender_trans: "same_sender p q \<Longrightarrow> same_sender q r \<Longrightarrow> same_sender p r"
  by (simp add: same_sender_def)

lemma run_callbacks_sender: "same_sender p (fold run_callback ks p)"
proof (induction ks arbitrary: p)
  case (Cons k ks)
  then show ?case using same_sender_trans [OF run_callback_sender Cons.IH] by simp
qed (simp add: same_sender_def)

lemma page_cables_sender: "same_sender p (fold handle_page (map On_cable es) p)"
proof (induction es arbitrary: p)
  case (Cons e es)
  have "same_sender (p\<lparr>cab := handle_event e (cab p)\<rparr>) (page_cable e p)"
    by (simp add: page_cable_def Let_def run_callbacks_sender)
  then have "same_sender p (page_cable e p)" by (simp add: same_sender_def)
  from same_sender_trans [OF this Cons.IH] show ?case by simp
qed (simp add: same_sender_def)

lemma connect_sender:
  "\<exists>s. term_sub (ctl (connect cols rows p)) = Some s \<and> term_cols (ctl (connect cols rows p)) = cols \<and>
     term_rows (ctl (connect cols rows p)) = rows \<and> size_timer (ctl (connect cols rows p))"
  if "term_sub (ctl p) = None"
  using that by (simp add: connect_def Let_def sendResize_def sendBytes_unsubscribed case_prod_beta)
    (simp add: upd_ctl_def fit_def setStatus_def)

text \<open>
  C18: The initial size can be lost: the \<open>sendResize\<close> of \<open>connect\<close> runs before there is a subscription and
  sends nothing, also when the connection is open already. Whatever the connection does before the 50 ms timer fires
  and afterwards (open, welcome, confirmation, messages), the size has been sent in the end, once, exactly if the
  connection is open when the timer fires; otherwise it is not sent until the user resizes the window.
\<close>

theorem initial_size_is_lost:
  assumes "term_sub (ctl p) = None"
    and "p1 = connect cols rows p" "p2 = fold handle_page (map On_cable es) p1"
  shows "size_messages p1 = size_messages p \<and>
    (\<exists>s. term_sub (ctl p1) = Some s \<and>
       size_messages (fold handle_page (On_size_timer # map On_cable es') p2) =
         size_messages p @ (if isOpen (cab p2) then [message_frame s (resize_message cols rows)] else []))"
proof -
  have p1: "size_messages p1 = size_messages p"
    by (simp add: assms(2) size_messages_def messages_of_def [symmetric] connect_cab [OF assms(1)])
  obtain s where "term_sub (ctl p1) = Some s" "same_sender p1 p2"
    "term_cols (ctl p1) = cols" "term_rows (ctl p1) = rows" "size_timer (ctl p1)"
    using connect_sender [OF assms(1)] page_cables_sender assms(2,3) by metis
  then have s: "term_sub (ctl p1) = Some s" "term_sub (ctl p2) = Some s" "term_cols (ctl p2) = cols"
    "term_rows (ctl p2) = rows" "size_timer (ctl p2)" by (simp_all add: same_sender_def)
  let ?q = "upd_ctl (\<lambda>k. k\<lparr>size_timer := False\<rparr>) p2"
  have q: "term_sub (ctl ?q) = Some s" "cab ?q = cab p2" "term_cols (ctl ?q) = cols" "term_rows (ctl ?q) = rows"
    using s by simp_all
  have fire: "handle_page On_size_timer p2 = sendBytes (resize_message cols rows) ?q"
    using s(5) q(3,4) by (simp add: sendResize_def)
  have "messages_of (cab p2) = size_messages p"
    using p1 messages_page_cables [of es p1] assms(3) by (simp add: size_messages_def messages_of_def)
  then have "messages_of (cab (handle_page On_size_timer p2)) =
      size_messages p @ (if isOpen (cab p2) then [message_frame s (resize_message cols rows)] else [])"
    using sendBytes_open [OF q(1)] sendBytes_closed [of ?q] q(2) unfolding fire
    by (simp add: messages_of_def message_frame_def)
  then show ?thesis using p1 s(1) messages_page_cables [of es' "handle_page On_size_timer p2"]
    by (simp add: size_messages_def messages_of_def [symmetric] del: handle_page.simps)
qed

theorem initial_size_is_lost_witness:
  "size_messages (fold handle_page (On_size_timer # map On_cable [Sock_open ''actioncable-v1-json''])
     (connect 100 30 \<lparr>ctl = new_ctl ''vm'' ''sid'' True, cab = new_consumer ''/cable'' 1 (\<lambda>_. 0)\<rparr>)) = []
   \<and> size_messages (connect 100 30 \<lparr>ctl = new_ctl ''vm'' ''sid'' True, cab = open_cable\<rparr>) = []"
proof -
  let ?p = "\<lparr>ctl = new_ctl ''vm'' ''sid'' True, cab = new_consumer ''/cable'' 1 (\<lambda>_. 0)\<rparr>"
  let ?o = "\<lparr>ctl = new_ctl ''vm'' ''sid'' True, cab = open_cable\<rparr>"
  have n: "term_sub (ctl ?p) = None" "term_sub (ctl ?o) = None" by (simp_all add: new_ctl_def)
  have "\<not> isOpen (cab (connect 100 30 ?p))"
    unfolding connect_cab(2) [OF n(1)] by (simp add: new_consumer_def isOpen_def isState_def getState_def)
  then show ?thesis
    using initial_size_is_lost [OF n(1) refl refl, where cols = 100 and rows = 30 and es = "[]" and es' = "[Sock_open ''actioncable-v1-json'']"]
      initial_size_is_lost [OF n(2) refl refl, where cols = 100 and rows = 30 and es = "[]"]
    by (simp add: size_messages_def new_consumer_def open_cable_def del: handle_page.simps)
qed

subsection \<open>How sessions end\<close>

text \<open>
  C19: In every reachable state of the server the scrollback of a session is within 64 KiB while its
  reader runs, and never more than one read (4096 bytes) beyond.
\<close>

theorem scrollback_bounded:
  assumes "server_reachable w"
  shows "length (scrollback (heap w r)) \<le> SCROLLBACK_CAP + 4096 \<and>
    (reader_alive (heap w r) \<longrightarrow> length (scrollback (heap w r)) \<le> SCROLLBACK_CAP)"
  using server_invD(4) [OF reachable_server_inv [OF assms], of r] by (simp add: scrollback_ok_def)

theorem scrollback_bounded_witness:
  "server_reachable running_server \<and> reader_alive (heap running_server 0) \<and>
     length (scrollback (heap running_server 0)) \<le> SCROLLBACK_CAP"
  using scrollback_bounded [OF running_server_reachable, of 0] running_server_simps(2)
    running_server_reachable by (simp only: live_def)

text \<open>
  C20: The scrollback is not trimmed: the chunk that takes it beyond 64 KiB ends the session instead
  (\<open>String#replace\<close> is given an array of bytes and raises). The chunk stays in the scrollback but is
  not broadcast, the session is closed, and nothing the terminal prints afterwards is broadcast.
\<close>

theorem overflow_ends_session:
  assumes "live r w" and "length bs \<le> 4096"
    and "SCROLLBACK_CAP < length (scrollback (heap w r)) + length bs"
  shows "let w' = reader_run r (Data bs # conds) w in
    closed (heap w' r) \<and> \<not> reader_alive (heap w' r) \<and> broadcasts w' = broadcasts w \<and>
    scrollback (heap w' r) = scrollback (heap w r) @ bs \<and>
    SCROLLBACK_CAP < length (scrollback (heap w' r))"
proof -
  let ?w1 = "reader_step r (Data bs) w"
  have eq: "?w1 = upd_session r
      (\<lambda>s. s\<lparr>scrollback := scrollback s @ bs, closed := True, reader_alive := False\<rparr>) w"
    by (rule reader_step_overflow [OF assms])
  then have "reader_run r (Data bs # conds) w = ?w1"
    by (simp add: reader_ended)
  then show ?thesis using assms(3) by (simp add: eq Let_def)
qed

definition full_server :: server where
  "full_server = upd_session 0 (\<lambda>s. s\<lparr>scrollback := replicate SCROLLBACK_CAP 65\<rparr>) running_server"

theorem overflow_ends_session_witness:
  "let w' = reader_run 0 (Data [66] # [Data [67]]) full_server in
    closed (heap w' 0) \<and> \<not> reader_alive (heap w' 0) \<and> broadcasts w' = broadcasts full_server \<and>
    scrollback (heap w' 0) = replicate SCROLLBACK_CAP 65 @ [66] \<and>
    SCROLLBACK_CAP < length (scrollback (heap w' 0))"
proof -
  have live: "live 0 full_server"
    using running_server_simps(2) by (simp add: full_server_def live_def)
  have sb: "scrollback (heap full_server 0) = replicate SCROLLBACK_CAP 65"
    by (simp add: full_server_def)
  show ?thesis
    using overflow_ends_session [OF live, of "[66]" "[Data [67]]"] unfolding sb by simp
qed

text \<open>
  C21: \<open>Session.kill(id)\<close> on a known id raises \<open>ThreadError\<close>, because the instance's \<open>kill\<close> takes the
  mutex that the class method holds; by then the session has been removed from the registry, its
  terminal closed and (when it was still open) marked closed, and the mutex is free again.
\<close>

theorem kill_by_id_raises:
  assumes "\<not> mutex_held w" and "SESSIONS w sid = Some r"
  shows "snd (kill_by_id sid w) = Inl ThreadError \<and>
    SESSIONS (fst (kill_by_id sid w)) sid = None \<and>
    closed (heap (fst (kill_by_id sid w)) r) \<and>
    master (heap (fst (kill_by_id sid w)) r) \<noteq> Fd_open \<and>
    \<not> mutex_held (fst (kill_by_id sid w))"
  unfolding kill_by_id_known [OF assms]
  by (simp add: killed_def kill_body_def close_fd_def Let_def split: option.splits)

theorem kill_by_id_raises_witness:
  "snd (kill_by_id ''sid'' running_server) = Inl ThreadError \<and>
    SESSIONS (fst (kill_by_id ''sid'' running_server)) ''sid'' = None \<and>
    closed (heap (fst (kill_by_id ''sid'' running_server)) 0) \<and>
    master (heap (fst (kill_by_id ''sid'' running_server)) 0) \<noteq> Fd_open \<and>
    \<not> mutex_held (fst (kill_by_id ''sid'' running_server))"
  by (rule kill_by_id_raises) simp_all

lemma exited_notice_other: "exited_notice \<noteq> closed_notice m"
proof
  assume "exited_notice = closed_notice m"
  then have "exited_notice ! 3 = closed_notice m ! 3" by simp
  then show False
    by (simp add: exited_notice_def closed_notice_def ascii_bytes_def crlf_def of_char_def)
qed

lemma exited_notice_encoded [simp]:
  "base64_encode exited_notice \<noteq> base64_encode (closed_notice m)"
  using exited_notice_other [of m] downstream.enc_inj by blast

text \<open>
  C22: When the shell ends, the session is closed, but the notice \<open>[multipass shell exited]\<close> is never
  sent: \<open>read_nonblock\<close> reports the end as an exception. After the end-of-file of some systems a
  \<open>terminal closed\<close> notice is sent, after the I/O error of Linux nothing at all.
\<close>

theorem shell_exit_notice_never_sent:
  assumes "live r w" and "cond = Hangup_eof \<or> cond = Hangup_eio"
  shows "let w' = reader_step r cond w in
    closed (heap w' r) \<and>
    output_frame sid exited_notice \<notin> set (drop (length (broadcasts w)) (broadcasts w')) \<and>
    (cond = Hangup_eio \<longrightarrow> broadcasts w' = broadcasts w)"
  using assms
  by (auto simp: reader_step_def live_def reader_end_def broadcast_output_def output_frame_def Let_def)

theorem shell_exit_notice_never_sent_witness:
  "let w' = reader_step 0 Hangup_eio running_server in
    closed (heap w' 0) \<and>
    output_frame ''sid'' exited_notice \<notin> set (drop (length (broadcasts running_server)) (broadcasts w')) \<and>
    broadcasts w' = broadcasts running_server"
  using shell_exit_notice_never_sent [of 0 running_server Hangup_eio "''sid''"] by simp

text \<open>
  A session whose start fails stays in the registry: when the VM's name is invalid or the spawn
  fails, \<open>open\<close> raises, yet the id is registered and the session not closed, so a browser that
  subscribes to it is accepted.
\<close>

theorem failed_open_stays_registered:
  assumes "\<not> mutex_held w" and "\<not> valid_vm_name vm \<or> spawned = None"
  shows "\<exists>e w' r. session_open vm sid now spawned w = (w', Inl e) \<and>
    SESSIONS w' sid = Some r \<and> \<not> closed (heap w' r) \<and> \<not> reader_alive (heap w' r)"
  using assms
  by (auto simp: session_open_eq session_start_def Let_def validate_vm_name_def
      session_initialize_def split: option.splits)

theorem failed_open_stays_registered_witness:
  "\<exists>e w' r. session_open (Str ''vm'') ''sid'' 0 None init_server = (w', Inl e) \<and>
    SESSIONS w' ''sid'' = Some r \<and> \<not> closed (heap w' r) \<and> \<not> reader_alive (heap w' r)"
  by (rule failed_open_stays_registered) (simp_all add: init_server_def)

end
