(* ===== verification/Xterm_Decode.thy ===== *)
theory Xterm_Decode
  imports Byte_Codecs
begin

text \<open>
  The decoders of the terminal emulator (xterm.js in \<open>app/assets/builds/application.js\<close>): bytes and strings
  that \<open>write\<close> gets become code points, chunk by chunk, with an incomplete character kept between the
  chunks. \<open>terminal_controller.js\<close> writes the bytes of each message as one chunk, so a character that the
  pseudo-terminal's reads cut apart is put together here.

  A code point is an element of the \<open>Uint32Array\<close> that the decoders fill; the filled part is a list.
\<close>

unbundle bit_operations_syntax

type_synonym cp = nat

named_theorems decode_simps
  \<comment> \<open>the tests and masks of the decoders as arithmetic\<close>

subsection \<open>Strings\<close>

text \<open>\<open>stringFromCodePoint\<close> (\<open>Ce\<close> in the bundle); \<open>fromCharCode\<close> keeps 16 bits.\<close>

definition stringFromCodePoint :: "cp \<Rightarrow> ustring" where
  "stringFromCodePoint s =
     (if 65535 < s then
        (let s' = s - 65536 in [of_nat (drop_bit 10 s' + 55296), of_nat (s' mod 1024 + 56320)])
      else [of_nat s])"

text \<open>\<open>utf32ToString(data, start, end)\<close> (\<open>It\<close>).\<close>

definition utf32ToString :: "cp list \<Rightarrow> nat \<Rightarrow> nat \<Rightarrow> ustring" where
  "utf32ToString d s e = concat (map stringFromCodePoint (take (e - s) (drop s d)))"

text \<open>\<open>StringToUtf32\<close> (\<open>er\<close>): a high surrogate at the end of a chunk waits for the next one, 0 is none.\<close>

definition surrogate_pair :: "cu \<Rightarrow> cu \<Rightarrow> cp" where
  "surrogate_pair l a = (unat l - 55296) * 1024 + unat a - 56320 + 65536"

fun str_decode_loop :: "ustring \<Rightarrow> cp list \<times> cu" where
  "str_decode_loop [] = ([], 0)"
| "str_decode_loop [l] =
     (if high_surrogate l then ([], l) else (if l \<noteq> 65279 then [unat l] else [], 0))"
| "str_decode_loop (l # a # rest) =
     (if high_surrogate l then
        (let (out, st) = str_decode_loop rest
         in ((if low_surrogate a then [surrogate_pair l a] else [unat l, unat a]) @ out, st))
      else
        (let (out, st) = str_decode_loop (a # rest)
         in ((if l \<noteq> 65279 then [unat l] else []) @ out, st)))"

definition str_decode :: "cu \<Rightarrow> ustring \<Rightarrow> cp list \<times> cu" where
  "str_decode interim s =
     (case s of
        [] \<Rightarrow> ([], interim)
      | a # rest \<Rightarrow>
          (if interim \<noteq> 0 then
             (let (out, st) = str_decode_loop rest
              in ((if low_surrogate a then [surrogate_pair interim a] else [unat interim, unat a]) @ out, st))
           else str_decode_loop s))"

subsection \<open>UTF-8\<close>

text \<open>
  \<open>Utf8ToUtf32\<close> (\<open>tr\<close>). The bytes of an incomplete character are in an array of three; a write beyond it
  has no effect, and a read gives no bits.
\<close>

type_synonym interim = "byte list"

definition no_interim :: interim where "no_interim = [0, 0, 0]"

definition put_interim :: "byte list \<Rightarrow> interim \<Rightarrow> interim" where
  "put_interim bs st = bs @ drop (length bs) st"

definition is_cont :: "byte \<Rightarrow> bool" where "is_cont b \<longleftrightarrow> b AND 192 = 128"
definition payload :: "byte \<Rightarrow> nat" where "payload b = unat (b AND 63)"

text \<open>The fast path: four ASCII bytes at a time while more than four bytes are left.\<close>

fun ascii_runs :: "byte list \<Rightarrow> cp list \<times> byte list" where
  "ascii_runs (n # a # b # c # d # rest) =
     (if n AND 128 = 0 \<and> a AND 128 = 0 \<and> b AND 128 = 0 \<and> c AND 128 = 0 then
        (let (out, r) = ascii_runs (d # rest) in (unat n # unat a # unat b # unat c # out, r))
      else ([], n # a # b # c # d # rest))"
| "ascii_runs bs = ([], bs)"

text \<open>
  One character: what it gives and the bytes after it, or the bytes to keep when the chunk ends first. A
  malformed sequence gives nothing, and the byte that breaks it is read again.
\<close>

datatype char_step = Keep "byte list" | Emit "cp list" "byte list"

definition step2 :: "byte \<Rightarrow> byte list \<Rightarrow> char_step" where
  "step2 n r1 =
     (case r1 of
        [] \<Rightarrow> Keep [n]
      | a # r2 \<Rightarrow>
          (if \<not> is_cont a then Emit [] r1
           else
             (let u = push_bit 6 (unat (n AND 31)) OR payload a
              in if u < 128 then Emit [] r1 else Emit [u] r2)))"

definition skipped3 :: "cp \<Rightarrow> bool" where
  "skipped3 u \<longleftrightarrow> u < 2048 \<or> 55296 \<le> u \<and> u \<le> 57343 \<or> u = 65279"

definition step3 :: "byte \<Rightarrow> byte list \<Rightarrow> char_step" where
  "step3 n r1 =
     (case r1 of
        [] \<Rightarrow> Keep [n]
      | a # r2 \<Rightarrow>
          (if \<not> is_cont a then Emit [] r1
           else
             (case r2 of
                [] \<Rightarrow> Keep [n, a]
              | b # r3 \<Rightarrow>
                  (if \<not> is_cont b then Emit [] r2
                   else
                     (let u = push_bit 12 (unat (n AND 15)) OR push_bit 6 (payload a) OR payload b
                      in Emit (if skipped3 u then [] else [u]) r3)))))"

definition skipped4 :: "cp \<Rightarrow> bool" where
  "skipped4 u \<longleftrightarrow> u < 65536 \<or> 1114111 < u"

definition step4 :: "byte \<Rightarrow> byte list \<Rightarrow> char_step" where
  "step4 n r1 =
     (case r1 of
        [] \<Rightarrow> Keep [n]
      | a # r2 \<Rightarrow>
          (if \<not> is_cont a then Emit [] r1
           else
             (case r2 of
                [] \<Rightarrow> Keep [n, a]
              | b # r3 \<Rightarrow>
                  (if \<not> is_cont b then Emit [] r2
                   else
                     (case r3 of
                        [] \<Rightarrow> Keep [n, a, b]
                      | c # r4 \<Rightarrow>
                          (if \<not> is_cont c then Emit [] r3
                           else
                             (let u = push_bit 18 (unat (n AND 7)) OR push_bit 12 (payload a)
                                    OR push_bit 6 (payload b) OR payload c
                              in Emit (if skipped4 u then [] else [u]) r4)))))))"

fun u8_step :: "byte list \<Rightarrow> char_step" where
  "u8_step [] = Keep []"
| "u8_step (n # r1) =
     (if n < 128 then Emit [unat n] r1
      else if n AND 224 = 192 then step2 n r1
      else if n AND 240 = 224 then step3 n r1
      else if n AND 248 = 240 then step4 n r1
      else Emit [] r1)"

lemma ascii_runs_length: "ascii_runs bs = (out, r) \<Longrightarrow> length r \<le> length bs"
  by (induction bs arbitrary: out r rule: ascii_runs.induct) (auto split: if_splits prod.splits simp: Let_def)

lemma u8_step_length: "u8_step bs = Emit out r \<Longrightarrow> length r < length bs"
  by (cases bs)
    (auto simp: step2_def step3_def step4_def Let_def split: if_splits list.splits)

function u8_loop :: "byte list \<Rightarrow> cp list \<times> byte list" where
  "u8_loop bs =
     (if bs = [] then ([], [])
      else
        (let (run, r) = ascii_runs bs
         in case u8_step r of
              Keep k \<Rightarrow> (run, k)
            | Emit out r' \<Rightarrow> (let (outs, k) = u8_loop r' in (run @ out @ outs, k))))"
  by pat_completeness auto
termination
proof (relation "measure length", simp)
  fix bs x run r out r'
  assume "x = ascii_runs bs" "(run, r) = x" "u8_step r = Emit out r'"
  then show "(r', bs) \<in> measure length"
    using ascii_runs_length [of bs run r] u8_step_length [of r out r'] by simp
qed

declare u8_loop.simps [simp del]

text \<open>
  The start of a chunk when a character is incomplete. The code counts the kept bytes by their payload: it
  stops at the first one without bits.
\<close>

definition interim_payload :: "interim \<Rightarrow> nat \<Rightarrow> nat" where
  "interim_payload st m = (if m < length st then payload (st ! m) else 0)"

fun kept_bytes :: "nat \<Rightarrow> interim \<Rightarrow> nat \<Rightarrow> cp \<Rightarrow> nat \<times> cp" where
  "kept_bytes 0 st m p = (m, p)"
| "kept_bytes (Suc k) st m p =
     (if interim_payload st m = 0 \<or> 4 \<le> m then (m, p)
      else kept_bytes k st (Suc m) (push_bit 6 p OR interim_payload st m))"

datatype resumed = Starved interim | Broken "byte list" | Whole cp "byte list"

fun resume :: "nat \<Rightarrow> nat \<Rightarrow> cp \<Rightarrow> interim \<Rightarrow> byte list \<Rightarrow> resumed" where
  "resume 0 m p st bs = Whole p bs"
| "resume (Suc k) m p st [] = Starved st"
| "resume (Suc k) m p st (f # bs) =
     (if \<not> is_cont f then Broken (f # bs)
      else resume k (Suc m) (push_bit 6 p OR payload f) (st[m := f]) bs)"

definition lead_bits :: "byte \<Rightarrow> cp" where
  "lead_bits n = unat (n AND (if n AND 224 = 192 then 31 else if n AND 240 = 224 then 15 else 7))"

definition char_bytes :: "byte \<Rightarrow> nat" where
  "char_bytes n = (if n AND 224 = 192 then 2 else if n AND 240 = 224 then 3 else 4)"

definition with_loop :: "cp list \<Rightarrow> byte list \<Rightarrow> cp list \<times> interim" where
  "with_loop out bs = (let (outs, k) = u8_loop bs in (out @ outs, put_interim k no_interim))"

definition u8_decode :: "interim \<Rightarrow> byte list \<Rightarrow> cp list \<times> interim" where
  "u8_decode st bs =
     (if bs = [] then ([], st)
      else if st ! 0 \<noteq> 0 then
        (let (m, p) = kept_bytes 4 st 1 (lead_bits (st ! 0));
             A = char_bytes (st ! 0)
         in case resume (A - m) m p st bs of
              Starved st' \<Rightarrow> ([], st')
            | Broken r \<Rightarrow> with_loop [] r
            | Whole u r \<Rightarrow>
                (if A = 2 then
                   (if u < 128 then with_loop [] (drop (length bs - length r - 1) bs) else with_loop [u] r)
                 else if A = 3 then with_loop (if skipped3 u then [] else [u]) r
                 else with_loop (if skipped4 u then [] else [u]) r))
      else (let (outs, k) = u8_loop bs in (outs, put_interim k st)))"


subsection \<open>The tests as arithmetic\<close>

lemma and_high: "n AND push_bit k (mask m) = push_bit k (take_bit m (drop_bit k (n :: nat)))"
  by (rule bit_eqI) (auto simp: bit_simps)

lemma or_low: "b < 2 ^ k \<Longrightarrow> push_bit k a OR b = 2 ^ k * a + (b :: nat)"
proof -
  assume "b < 2 ^ k"
  then have b: "take_bit k b = b" by (simp add: take_bit_nat_eq_self)
  have "drop_bit k b = 0" using \<open>b < 2 ^ k\<close> by (simp add: drop_bit_eq_div)
  moreover have "drop_bit k (push_bit k a) = a" by (simp add: drop_bit_eq_div push_bit_eq_mult)
  ultimately have "drop_bit k (push_bit k a OR b) = a" by simp
  moreover have "take_bit k (push_bit k a OR b) = b"
    using b by (simp add: take_bit_or take_bit_push_bit)
  ultimately show ?thesis
    using bits_ident [of k "push_bit k a OR b"] by (simp add: push_bit_eq_mult ac_simps)
qed

lemma unat_and: "unat (v AND w) = unat v AND unat w"
  by (simp add: unsigned_and_eq)

lemma payload_eq [decode_simps]: "payload b = unat b mod 64"
proof -
  have "unat b AND 63 = take_bit 6 (unat b)" using take_bit_eq_mask [of 6 "unat b"] by (simp add: mask_eq_exp_minus_1)
  then show ?thesis by (simp add: payload_def unat_and take_bit_eq_mod)
qed

lemma payload_less [simp]: "payload b < 64"
  by (simp add: payload_eq)

lemma low_bits [decode_simps]:
  "unat (b AND 31) = unat (b :: byte) mod 32" "unat (b AND 15) = unat b mod 16" "unat (b AND 7) = unat b mod 8"
  using take_bit_eq_mask [of 5 "unat b"] take_bit_eq_mask [of 4 "unat b"] take_bit_eq_mask [of 3 "unat b"]
  by (simp_all add: unat_and mask_eq_exp_minus_1 take_bit_eq_mod)

lemma byte_eq_iff: "(v :: byte) = w \<longleftrightarrow> unat v = unat w"
  by (simp add: word_unat_eq_iff)

lemma high_bits: "m + k = 8 \<Longrightarrow> unat (b AND w) = 2 ^ k * (unat (b :: byte) div 2 ^ k)"
  if "unat w = push_bit k (mask m)"
proof -
  assume mk: "m + k = 8"
  have "unat b < 2 ^ m * 2 ^ k" using mk word_nat_less [of b] by (simp flip: power_add)
  then have "unat b div 2 ^ k < 2 ^ m" by (simp add: less_mult_imp_div_less)
  then show ?thesis
    unfolding unat_and that and_high by (simp add: drop_bit_eq_div take_bit_nat_eq_self push_bit_eq_mult)
qed

lemma lead_tests [decode_simps]:
  "is_cont b \<longleftrightarrow> unat b div 64 = 2"
  "b AND 224 = 192 \<longleftrightarrow> unat (b :: byte) div 32 = 6"
  "b AND 240 = 224 \<longleftrightarrow> unat b div 16 = 14"
  "b AND 248 = 240 \<longleftrightarrow> unat b div 8 = 30"
  "b AND 128 = 0 \<longleftrightarrow> unat b < 128"
  "b < 128 \<longleftrightarrow> unat b < 128"
proof -
  have mask2: "push_bit 6 (mask 2) = (192 :: nat)" "push_bit 5 (mask 3) = (224 :: nat)"
    "push_bit 4 (mask 4) = (240 :: nat)" "push_bit 3 (mask 5) = (248 :: nat)" "push_bit 7 (mask 1) = (128 :: nat)"
    by (simp_all add: mask_eq_exp_minus_1 push_bit_eq_mult)
  show "is_cont b \<longleftrightarrow> unat b div 64 = 2"
    using high_bits [of 192 6 2 b] by (simp add: is_cont_def byte_eq_iff mask2)
  show "b AND 224 = 192 \<longleftrightarrow> unat b div 32 = 6"
    using high_bits [of 224 5 3 b] by (simp add: byte_eq_iff mask2)
  show "b AND 240 = 224 \<longleftrightarrow> unat b div 16 = 14"
    using high_bits [of 240 4 4 b] by (simp add: byte_eq_iff mask2)
  show "b AND 248 = 240 \<longleftrightarrow> unat b div 8 = 30"
    using high_bits [of 248 3 5 b] by (simp add: byte_eq_iff mask2)
  show "b AND 128 = 0 \<longleftrightarrow> unat b < 128"
    using high_bits [of 128 7 1 b] by (simp add: byte_eq_iff mask2 div_eq_0_iff)
  show "b < 128 \<longleftrightarrow> unat b < 128" by (simp add: word_less_nat_alt)
qed

text \<open>Each line takes the result of the one before it.\<close>

lemma combine [decode_simps]:
  "b < 64 \<Longrightarrow> push_bit 6 a OR b = 64 * a + b"
  "b < 64 \<Longrightarrow> c < 64 \<Longrightarrow> push_bit 12 a OR 64 * b + c = 4096 * a + (64 * b + c)"
  "b < 64 \<Longrightarrow> c < 64 \<Longrightarrow> d < 64 \<Longrightarrow>
     push_bit 18 a OR 4096 * b + (64 * c + d) = 262144 * a + (4096 * b + (64 * c + d))" for b :: nat
  using or_low [of b 6 a] or_low [of "64 * b + c" 12 a] or_low [of "4096 * b + (64 * c + d)" 18 a] by simp_all

subsection \<open>The decoder without its fast path\<close>

function u8_plain :: "byte list \<Rightarrow> cp list \<times> byte list" where
  "u8_plain bs =
     (case u8_step bs of
        Keep k \<Rightarrow> ([], k)
      | Emit out r \<Rightarrow> (let (outs, k) = u8_plain r in (out @ outs, k)))"
  by pat_completeness auto
termination
  by (relation "measure length") (simp_all add: u8_step_length)

declare u8_plain.simps [simp del]

lemma u8_plain_Keep: "u8_step bs = Keep k \<Longrightarrow> u8_plain bs = ([], k)"
  by (simp add: u8_plain.simps)

lemma u8_plain_Emit: "u8_step bs = Emit out r \<Longrightarrow> u8_plain bs = (out @ fst (u8_plain r), snd (u8_plain r))"
  by (subst u8_plain.simps) (simp add: case_prod_beta)

lemma u8_plain_Nil [simp]: "u8_plain [] = ([], [])"
  by (simp add: u8_plain_Keep)

lemma u8_plain_ascii: "n AND 128 = 0 \<Longrightarrow> u8_plain (n # r) = (unat n # fst (u8_plain r), snd (u8_plain r))"
  using u8_plain_Emit [of "n # r" "[unat n]" r] by (simp add: decode_simps)

lemma ascii_runs_plain:
  "ascii_runs bs = (out, r) \<Longrightarrow> u8_plain bs = (out @ fst (u8_plain r), snd (u8_plain r))"
  by (induction bs arbitrary: out r rule: ascii_runs.induct)
    (auto simp: u8_plain_ascii split: if_splits prod.splits)

lemma u8_loop_plain: "u8_loop bs = u8_plain bs"
proof (induction bs rule: u8_loop.induct)
  case (1 bs)
  show ?case
  proof (cases "bs = []")
    case False
    obtain run r where run: "ascii_runs bs = (run, r)" by fastforce
    note loop = u8_loop.simps [of bs] ascii_runs_plain [OF run]
    show ?thesis
    proof (cases "u8_step r")
      case (Keep k)
      then show ?thesis using loop False by (simp add: run u8_plain_Keep)
    next
      case (Emit out r')
      then show ?thesis using loop False "1.IH" [OF False run [symmetric] refl Emit]
        by (simp add: run u8_plain_Emit case_prod_beta)
    qed
  qed (simp add: u8_loop.simps)
qed

lemma with_loop_plain: "with_loop out bs = (out @ fst (u8_plain bs), put_interim (snd (u8_plain bs)) no_interim)"
  by (simp add: with_loop_def u8_loop_plain case_prod_beta)

subsection \<open>Complete characters\<close>

definition scalar :: "cp \<Rightarrow> bool" where
  "scalar c \<longleftrightarrow> c < 0xD800 \<or> 0xDFFF < c \<and> c < 0x110000"

lemma unat_byte_of_nat: "n < 256 \<Longrightarrow> unat (of_nat n :: byte) = n"
  by (simp only: unat_of_nat) simp

lemma utf8_bytes_unat:
  "c < 0x80 \<Longrightarrow> map unat (utf8_bytes c) = [c]"
  "0x80 \<le> c \<Longrightarrow> c < 0x800 \<Longrightarrow> map unat (utf8_bytes c) = [0xC0 + c div 64, 0x80 + c mod 64]"
  "0x800 \<le> c \<Longrightarrow> c < 0x10000 \<Longrightarrow>
     map unat (utf8_bytes c) = [0xE0 + c div 4096, 0x80 + c div 64 mod 64, 0x80 + c mod 64]"
  "0x10000 \<le> c \<Longrightarrow> c < 0x110000 \<Longrightarrow>
     map unat (utf8_bytes c) = [0xF0 + c div 262144, 0x80 + c div 4096 mod 64, 0x80 + c div 64 mod 64, 0x80 + c mod 64]"
proof -
  have lt: "n mod 64 < 128" "c < 0x800 \<Longrightarrow> c div 64 < 32" "c < 0x10000 \<Longrightarrow> c div 4096 < 16"
    "c < 0x110000 \<Longrightarrow> c div 262144 < 8" for n :: nat
    using mod_less_divisor [of 64 n] by (simp_all add: less_mult_imp_div_less)
  show "c < 0x80 \<Longrightarrow> map unat (utf8_bytes c) = [c]"
    by (simp add: utf8_bytes_def unat_byte_of_nat)
  show "0x80 \<le> c \<Longrightarrow> c < 0x800 \<Longrightarrow> map unat (utf8_bytes c) = [0xC0 + c div 64, 0x80 + c mod 64]"
    using lt by (simp add: utf8_bytes_def unat_byte_of_nat del: of_nat_add)
  show "0x800 \<le> c \<Longrightarrow> c < 0x10000 \<Longrightarrow>
     map unat (utf8_bytes c) = [0xE0 + c div 4096, 0x80 + c div 64 mod 64, 0x80 + c mod 64]"
    using lt by (simp add: utf8_bytes_def unat_byte_of_nat del: of_nat_add)
  show "0x10000 \<le> c \<Longrightarrow> c < 0x110000 \<Longrightarrow>
     map unat (utf8_bytes c) = [0xF0 + c div 262144, 0x80 + c div 4096 mod 64, 0x80 + c div 64 mod 64, 0x80 + c mod 64]"
    using lt by (simp add: utf8_bytes_def unat_byte_of_nat del: of_nat_add)
qed

lemma lead_divs:
  "d < 64 \<Longrightarrow> (0x80 + d) div 64 = (2 :: nat)" "d < 32 \<Longrightarrow> (0xC0 + d) div 32 = (6 :: nat)"
  "d < 16 \<Longrightarrow> (0xE0 + d) div 32 = (7 :: nat)" "d < 16 \<Longrightarrow> (0xE0 + d) div 16 = (14 :: nat)"
  "d < 8 \<Longrightarrow> (0xF0 + d) div 32 = (7 :: nat)" "d < 8 \<Longrightarrow> (0xF0 + d) div 16 = (15 :: nat)"
  "d < 8 \<Longrightarrow> (0xF0 + d) div 8 = (30 :: nat)"
  by (rule div_nat_eqI; simp)+

lemma lead_mods:
  "d < 64 \<Longrightarrow> (0x80 + d) mod 64 = (d :: nat)" "d < 32 \<Longrightarrow> (0xC0 + d) mod 32 = d"
  "d < 16 \<Longrightarrow> (0xE0 + d) mod 16 = d" "d < 8 \<Longrightarrow> (0xF0 + d) mod 8 = d"
  by (simp_all add: lead_divs flip: minus_mult_div_eq_mod)

lemma sextets_value:
  "64 * (c div 64) + c mod 64 = (c :: nat)"
  "4096 * (c div 4096) + (64 * (c div 64 mod 64) + c mod 64) = c"
  "262144 * (c div 262144) + (4096 * (c div 4096 mod 64) + (64 * (c div 64 mod 64) + c mod 64)) = c"
proof -
  have d: "c div 4096 = c div 64 div 64" "c div 262144 = c div 4096 div 64"
    by (simp_all add: div_mult2_eq [symmetric])
  note parts = mult_div_mod_eq [of 64 c] mult_div_mod_eq [of 64 "c div 64"] mult_div_mod_eq [of 64 "c div 4096"]
  show "64 * (c div 64) + c mod 64 = c" by simp
  show "4096 * (c div 4096) + (64 * (c div 64 mod 64) + c mod 64) = c"
    using parts unfolding d(1) by linarith
  show "262144 * (c div 262144) + (4096 * (c div 4096 mod 64) + (64 * (c div 64 mod 64) + c mod 64)) = c"
    using parts unfolding d(2) unfolding d(1) by linarith
qed

lemma u8_step_utf8:
  assumes "scalar c"
  shows "u8_step (utf8_bytes c @ rest) = Emit (if c = 65279 then [] else [c]) rest"
proof -
  consider "c < 0x80" | "0x80 \<le> c" "c < 0x800" | "0x800 \<le> c" "c < 0x10000" | "0x10000 \<le> c" "c < 0x110000"
    using assms unfolding scalar_def by linarith
  then show ?thesis
  proof cases
    case 1
    with utf8_bytes_unat(1) [OF 1] show ?thesis
      by (auto simp: map_eq_Cons_conv decode_simps)
  next
    case 2
    obtain n a where bs: "utf8_bytes c = [n, a]" "unat n = 0xC0 + c div 64" "unat a = 0x80 + c mod 64"
      using utf8_bytes_unat(2) [OF 2] by (auto simp: map_eq_Cons_conv)
    have d: "c div 64 < 32" using 2 by (simp add: less_mult_imp_div_less)
    note parts = lead_divs(2) [OF d] lead_mods(2) [OF d] lead_divs(1) [of "c mod 64"] lead_mods(1) [of "c mod 64"]
    show ?thesis using parts bs 2 sextets_value(1) [of c] by (simp add: decode_simps step2_def Let_def)
  next
    case 3
    obtain n a b where bs: "utf8_bytes c = [n, a, b]" "unat n = 0xE0 + c div 4096" "unat a = 0x80 + c div 64 mod 64"
        "unat b = 0x80 + c mod 64"
      using utf8_bytes_unat(3) [OF 3] by (auto simp: map_eq_Cons_conv)
    have d: "c div 4096 < 16" using 3 by (simp add: less_mult_imp_div_less)
    note parts = lead_divs(3,4) [OF d] lead_mods(3) [OF d] lead_divs(1) [of "c mod 64"] lead_mods(1) [of "c mod 64"] lead_divs(1) [of "c div 64 mod 64"] lead_mods(1) [of "c div 64 mod 64"]
    show ?thesis using parts bs 3 assms sextets_value(2) [of c]
      by (auto simp: decode_simps step3_def skipped3_def scalar_def Let_def)
  next
    case 4
    obtain n a b d where bs: "utf8_bytes c = [n, a, b, d]" "unat n = 0xF0 + c div 262144"
        "unat a = 0x80 + c div 4096 mod 64" "unat b = 0x80 + c div 64 mod 64" "unat d = 0x80 + c mod 64"
      using utf8_bytes_unat(4) [OF 4] by (auto simp: map_eq_Cons_conv)
    have d: "c div 262144 < 8" using 4 by (simp add: less_mult_imp_div_less)
    note parts = lead_divs(5-7) [OF d] lead_mods(4) [OF d] lead_divs(1) [of "c mod 64"] lead_mods(1) [of "c mod 64"] lead_divs(1) [of "c div 64 mod 64"] lead_mods(1) [of "c div 64 mod 64"]
      lead_divs(1) [of "c div 4096 mod 64"] lead_mods(1) [of "c div 4096 mod 64"]
    have sx: "payload a = c div 4096 mod 64" "payload b = c div 64 mod 64" "payload d = c mod 64"
        "unat (n AND 7) = c div 262144"
      by (simp_all only: payload_eq low_bits bs parts mod_less_divisor zero_less_numeral)
    have v: "push_bit 18 (unat (n AND 7)) OR push_bit 12 (payload a) OR push_bit 6 (payload b) OR payload d = c"
      unfolding sx by (simp only: combine mod_less_divisor zero_less_numeral sextets_value)
    have "\<not> n < 128" "n AND 224 \<noteq> 192" "n AND 240 \<noteq> 224" "n AND 248 = 240" "is_cont a" "is_cont b" "is_cont d"
      by (simp_all only: lead_tests bs parts mod_less_divisor zero_less_numeral)
    with v show ?thesis using bs(1) 4 by (simp add: step4_def skipped4_def)
  qed
qed

lemma u8_plain_text:
  "\<forall>c \<in> set cs. scalar c \<Longrightarrow> u8_plain (concat (map utf8_bytes cs) @ rest)
     = (filter (\<lambda>c. c \<noteq> 65279) cs @ fst (u8_plain rest), snd (u8_plain rest))"
  by (induction cs) (simp_all add: u8_plain_Emit u8_step_utf8)

subsection \<open>Chunks\<close>

text \<open>The chunks that \<open>write\<close> is called with, one after the other.\<close>

fun u8_chunks :: "interim \<Rightarrow> byte list list \<Rightarrow> cp list \<times> interim" where
  "u8_chunks st [] = ([], st)"
| "u8_chunks st (c # cs) =
     (let (out, st') = u8_decode st c; (outs, st'') = u8_chunks st' cs in (out @ outs, st''))"

lemma u8_chunks_append:
  "u8_chunks st (cs @ ds) =
     (fst (u8_chunks st cs) @ fst (u8_chunks (snd (u8_chunks st cs)) ds), snd (u8_chunks (snd (u8_chunks st cs)) ds))"
  by (induction cs arbitrary: st) (simp_all add: case_prod_beta)

lemma u8_step_append: "u8_step xs = Emit out r \<Longrightarrow> u8_step (xs @ ys) = Emit out (r @ ys)"
  by (cases xs) (auto simp: step2_def step3_def step4_def Let_def split: if_splits list.splits)

lemma u8_step_Keep: "u8_step xs = Keep k \<Longrightarrow> k = xs"
  by (cases xs) (auto simp: step2_def step3_def step4_def Let_def split: if_splits list.splits)

lemma u8_plain_append:
  "u8_plain (xs @ ys) =
     (fst (u8_plain xs) @ fst (u8_plain (snd (u8_plain xs) @ ys)), snd (u8_plain (snd (u8_plain xs) @ ys)))"
proof (induction xs rule: u8_plain.induct)
  case (1 xs)
  show ?case
  proof (cases "u8_step xs")
    case (Keep k)
    then show ?thesis using u8_step_Keep [OF Keep] by (simp add: u8_plain_Keep)
  next
    case (Emit out r)
    then show ?thesis
      using 1 [OF Emit] u8_plain_Emit [OF Emit] u8_plain_Emit [OF u8_step_append [OF Emit], of ys] by simp
  qed
qed

lemma u8_plain_kept: "u8_step (snd (u8_plain xs)) = Keep (snd (u8_plain xs))"
proof (induction xs rule: u8_plain.induct)
  case (1 xs)
  show ?case
  proof (cases "u8_step xs")
    case (Keep k)
    then show ?thesis using u8_step_Keep [OF Keep] by (simp add: u8_plain_Keep)
  next
    case (Emit out r)
    then show ?thesis using 1 [OF Emit] by (simp add: u8_plain_Emit)
  qed
qed

text \<open>What a chunk can end with.\<close>

lemma kept_cases:
  assumes "u8_step k = Keep k"
  obtains "k = []"
    | n where "k = [n]" "n AND 224 = 192 \<or> n AND 240 = 224 \<or> n AND 248 = 240"
    | n a where "k = [n, a]" "n AND 240 = 224 \<or> n AND 248 = 240" "is_cont a"
    | n a b where "k = [n, a, b]" "n AND 248 = 240" "is_cont a" "is_cont b"
  using assms
  by (cases k) (auto simp: step2_def step3_def step4_def Let_def split: if_splits list.splits)

text \<open>The leading bytes exclude each other.\<close>

lemma lead_kinds:
  "n AND 224 = 192 \<Longrightarrow> \<not> n < 128 \<and> n AND 240 \<noteq> 224 \<and> n AND 248 \<noteq> 240 \<and> n \<noteq> 0"
  "n AND 240 = 224 \<Longrightarrow> \<not> n < 128 \<and> n AND 224 \<noteq> 192 \<and> n AND 248 \<noteq> 240 \<and> n \<noteq> 0"
  "n AND 248 = 240 \<Longrightarrow> \<not> n < 128 \<and> n AND 224 \<noteq> 192 \<and> n AND 240 \<noteq> 224 \<and> n \<noteq> 0" for n :: byte
proof -
  have z: "n = 0 \<longleftrightarrow> unat n = 0" by (simp add: unat_eq_0)
  have "unat n div 16 = unat n div 8 div 2" "unat n div 32 = unat n div 8 div 4" "unat n < 128 \<longleftrightarrow> unat n div 8 < 16"
    "unat n div 32 = unat n div 16 div 2" "unat n < 128 \<longleftrightarrow> unat n div 16 < 8" "unat n < 128 \<longleftrightarrow> unat n div 32 < 4"
    by (simp_all add: div_mult2_eq [symmetric] div_less_iff_less_mult)
  then show
    "n AND 224 = 192 \<Longrightarrow> \<not> n < 128 \<and> n AND 240 \<noteq> 224 \<and> n AND 248 \<noteq> 240 \<and> n \<noteq> 0"
    "n AND 240 = 224 \<Longrightarrow> \<not> n < 128 \<and> n AND 224 \<noteq> 192 \<and> n AND 248 \<noteq> 240 \<and> n \<noteq> 0"
    "n AND 248 = 240 \<Longrightarrow> \<not> n < 128 \<and> n AND 224 \<noteq> 192 \<and> n AND 240 \<noteq> 224 \<and> n \<noteq> 0"
    by (auto simp: decode_simps z)
qed

text \<open>
  An incomplete character whose kept continuation bytes all have payload bits is taken up as if the chunk
  had not been cut.
\<close>

lemma kept_bytes_eval:
  "kept_bytes 4 [n, a, b] (Suc 0) p =
     (if payload a = 0 then (Suc 0, p)
      else if payload b = 0 then (2, push_bit 6 p OR payload a)
      else (3, push_bit 6 (push_bit 6 p OR payload a) OR payload b))"
  by (simp add: eval_nat_numeral interim_payload_def)

lemma payload_0 [simp]: "payload 0 = 0"
  by (simp add: payload_def)

lemma resume_eval:
  "resume (Suc 0) m p st bs =
     (case bs of [] \<Rightarrow> Starved st
      | f # r \<Rightarrow> (if is_cont f then Whole (push_bit 6 p OR payload f) r else Broken (f # r)))"
  "resume 2 m p st bs =
     (case bs of [] \<Rightarrow> Starved st
      | f # r \<Rightarrow> (if is_cont f then resume (Suc 0) (Suc m) (push_bit 6 p OR payload f) (st[m := f]) r else Broken (f # r)))"
  "resume 3 m p st bs =
     (case bs of [] \<Rightarrow> Starved st
      | f # r \<Rightarrow> (if is_cont f then resume 2 (Suc m) (push_bit 6 p OR payload f) (st[m := f]) r else Broken (f # r)))"
  by (simp_all add: numeral_2_eq_2 numeral_3_eq_3 split: list.split)

lemmas decode_eval = u8_decode_def put_interim_def no_interim_def lead_bits_def char_bytes_def with_loop_plain
  kept_bytes_eval resume_eval push_bit_or or.assoc

lemma resume_2byte:
  assumes "n AND 224 = 192"
  shows "u8_decode [n, 0, 0] (f # fs) = (fst (u8_plain (n # f # fs)), put_interim (snd (u8_plain (n # f # fs))) no_interim)"
  unfolding u8_plain.simps [of "n # f # fs"] using lead_kinds(1) [OF assms] assms
  by (simp add: decode_eval step2_def Let_def case_prod_beta)

lemma resume_3byte:
  assumes "n AND 240 = 224"
  shows "u8_decode [n, 0, 0] (f # fs) = (fst (u8_plain (n # f # fs)), put_interim (snd (u8_plain (n # f # fs))) no_interim)"
    "is_cont a \<Longrightarrow> payload a \<noteq> 0 \<Longrightarrow>
     u8_decode [n, a, 0] (f # fs) = (fst (u8_plain (n # a # f # fs)), put_interim (snd (u8_plain (n # a # f # fs))) no_interim)"
  unfolding u8_plain.simps [of "n # f # fs"] u8_plain.simps [of "n # a # f # fs"]
  using lead_kinds(2) [OF assms] assms
  by (simp_all add: decode_eval step3_def Let_def case_prod_beta split: list.split)

lemma resume_4byte:
  assumes "n AND 248 = 240"
  shows "u8_decode [n, 0, 0] (f # fs) = (fst (u8_plain (n # f # fs)), put_interim (snd (u8_plain (n # f # fs))) no_interim)"
    "is_cont a \<Longrightarrow> payload a \<noteq> 0 \<Longrightarrow>
     u8_decode [n, a, 0] (f # fs) = (fst (u8_plain (n # a # f # fs)), put_interim (snd (u8_plain (n # a # f # fs))) no_interim)"
    "is_cont a \<Longrightarrow> is_cont b \<Longrightarrow> payload a \<noteq> 0 \<Longrightarrow> payload b \<noteq> 0 \<Longrightarrow>
     u8_decode [n, a, b] (f # fs)
       = (fst (u8_plain (n # a # b # f # fs)), put_interim (snd (u8_plain (n # a # b # f # fs))) no_interim)"
  unfolding u8_plain.simps [of "n # f # fs"] u8_plain.simps [of "n # a # f # fs"]
    u8_plain.simps [of "n # a # b # f # fs"]
  using lead_kinds(3) [OF assms] assms
  by (simp_all add: decode_eval step4_def Let_def case_prod_beta split: list.split)

text \<open>
  An incomplete character whose kept continuation bytes all have payload bits is taken up as if the chunk
  had not been cut.
\<close>

lemma resume_kept:
  assumes k: "u8_step k = Keep k" and p: "\<forall>b \<in> set (tl k). payload b \<noteq> 0" and ys: "ys \<noteq> []"
  shows "u8_decode (put_interim k no_interim) ys
    = (fst (u8_plain (k @ ys)), put_interim (snd (u8_plain (k @ ys))) no_interim)"
proof -
  obtain f fs where f: "ys = f # fs" using ys by (cases ys) auto
  show ?thesis using k
  proof (cases rule: kept_cases)
    case 1
    then show ?thesis using ys
      by (simp add: u8_decode_def put_interim_def no_interim_def u8_loop_plain case_prod_beta)
  next
    case (2 n)
    then show ?thesis using resume_2byte [of n f fs] resume_3byte(1) [of n f fs] resume_4byte(1) [of n f fs] f
      by (auto simp: put_interim_def no_interim_def)
  next
    case (3 n a)
    then show ?thesis using resume_3byte(2) [of n a f fs] resume_4byte(2) [of n a f fs] f p
      by (auto simp: put_interim_def no_interim_def)
  next
    case (4 n a b)
    then show ?thesis using resume_4byte(3) [of n a b f fs] f p
      by (auto simp: put_interim_def no_interim_def)
  qed
qed

definition cut_ok :: "byte list \<Rightarrow> bool" where
  "cut_ok bs \<longleftrightarrow> (\<forall>b \<in> set (tl (snd (u8_plain bs))). payload b \<noteq> 0)"

lemma chunks_plain:
  assumes "\<forall>i < length chunks. cut_ok (concat (take i chunks))"
  shows "u8_chunks no_interim chunks
    = (fst (u8_plain (concat chunks)), put_interim (snd (u8_plain (concat chunks))) no_interim)"
  using assms
proof (induction chunks rule: rev_induct)
  case Nil
  then show ?case by (simp add: put_interim_def)
next
  case (snoc c cs)
  have "\<forall>i < length cs. cut_ok (concat (take i cs))" using snoc.prems by (auto simp: less_Suc_eq)
  then have IH: "u8_chunks no_interim cs
      = (fst (u8_plain (concat cs)), put_interim (snd (u8_plain (concat cs))) no_interim)"
    by (rule snoc.IH)
  have cut: "\<forall>b \<in> set (tl (snd (u8_plain (concat cs)))). payload b \<noteq> 0"
    using snoc.prems [rule_format, of "length cs"] by (simp add: cut_ok_def)
  show ?case
  proof (cases "c = []")
    case True
    then show ?thesis using IH by (simp add: u8_chunks_append u8_decode_def)
  next
    case False
    then show ?thesis
      using IH resume_kept [OF u8_plain_kept cut False] u8_plain_append [of "concat cs" c]
      by (simp add: u8_chunks_append)
  qed
qed

lemma put_interim_Nil [simp]: "put_interim [] st = st"
  by (simp add: put_interim_def)

lemma u8_decode_start: "u8_decode no_interim bs = (fst (u8_plain bs), put_interim (snd (u8_plain bs)) no_interim)"
  using chunks_plain [of "[bs]"] by (simp add: cut_ok_def case_prod_beta prod_eq_iff)

text \<open>
  C37: Text written to the emulator arrives: the UTF-8 encoding of any code points that are Unicode scalar
  values is decoded to these code points, with nothing left over; only the byte order mark U+FEFF is left
  out, wherever it stands.
\<close>

theorem utf8_text_arrives:
  assumes "\<forall>c \<in> set cs. scalar c"
  shows "u8_decode no_interim (concat (map utf8_bytes cs)) = (filter (\<lambda>c. c \<noteq> 65279) cs, no_interim)"
  using u8_plain_text [OF assms, of "[]"] by (simp add: u8_decode_start)

theorem utf8_text_arrives_witness:
  "u8_decode no_interim (concat (map utf8_bytes [65, 0x2026, 65279, 0x1F600])) = ([65, 0x2026, 0x1F600], no_interim)"
  using utf8_text_arrives [of "[65, 0x2026, 65279, 0x1F600]"] by (simp add: scalar_def)

text \<open>
  C38: The chunks do not matter: any bytes, valid UTF-8 or not, decode to the same code points however they are
  cut, as long as no cut is inside a character of which a continuation byte before the cut has no payload bits (is 0x80).
\<close>

theorem utf8_chunks_join:
  assumes "\<forall>i < length chunks. cut_ok (concat (take i chunks))"
  shows "u8_chunks no_interim chunks = u8_decode no_interim (concat chunks)"
  using chunks_plain [OF assms] by (simp add: u8_decode_start)

theorem utf8_chunks_join_witness:
  "u8_chunks no_interim [[0x41, 0xE2, 0x82], [0xAC]] = ([0x41, 0x20AC], no_interim)"
proof -
  have "u8_plain [0xE2, 0x82] = ([], [0xE2, 0x82])"
    by (intro u8_plain_Keep) (simp add: step3_def is_cont_def)
  then have "u8_plain [0x41, 0xE2, 0x82] = ([0x41], [0xE2, 0x82])"
    using u8_plain_ascii [where n = "0x41" and r = "[0xE2, 0x82]"] by simp
  then have "\<forall>i < length [[0x41, 0xE2, 0x82], [0xAC]]. cut_ok (concat (take i [[0x41, 0xE2, 0x82], [0xAC :: byte]]))"
    by (auto simp: cut_ok_def payload_def less_Suc_eq)
  from utf8_chunks_join [OF this] show ?thesis
    using utf8_text_arrives [of "[0x41, 0x20AC]"] by (simp add: scalar_def utf8_bytes_def)
qed

text \<open>
  A character of three bytes that is cut after a second byte 0x80 is lost (the ellipsis U+2026, the dashes
  and quotation marks from U+2010 to U+201F, and every other character whose middle six bits are zero): the
  decoder takes the 0x80 for missing and waits for a byte too many. The same bytes in one chunk give the
  character.
\<close>

theorem utf8_cut_loses_character:
  assumes c: "scalar c" "0x800 \<le> c" "c < 0x10000" "c \<noteq> 65279" "c div 64 mod 64 = 0"
    and cs: "\<forall>d \<in> set (cs @ e # ds). scalar d"
  shows "fst (u8_chunks no_interim [concat (map utf8_bytes cs) @ take 2 (utf8_bytes c),
             drop 2 (utf8_bytes c) @ concat (map utf8_bytes (e # ds))])
           = filter (\<lambda>d. d \<noteq> 65279) (cs @ e # ds)
    \<and> fst (u8_decode no_interim (concat (map utf8_bytes (cs @ c # e # ds))))
           = filter (\<lambda>d. d \<noteq> 65279) (cs @ c # e # ds)"
proof -
  obtain n a b where bs: "utf8_bytes c = [n, a, b]" "unat n = 0xE0 + c div 4096" "unat a = 0x80" "unat b = 0x80 + c mod 64"
    using utf8_bytes_unat(3) [OF c(2,3)] c(5) by (auto simp: map_eq_Cons_conv)
  have d: "c div 4096 < 16" using c(3) by (simp add: less_mult_imp_div_less)
  have n: "n AND 240 = 224"
    by (simp only: lead_tests bs lead_divs(4) [OF d])
  have a: "is_cont a" "payload a = 0" and b: "is_cont b"
    using lead_divs(1) [of "c mod 64"] by (simp_all only: lead_tests payload_eq bs) simp_all
  have first: "u8_decode no_interim (concat (map utf8_bytes cs) @ [n, a])
      = (filter (\<lambda>d. d \<noteq> 65279) cs, [n, a, 0])"
  proof -
    have "u8_plain [n, a] = ([], [n, a])"
      using lead_kinds(2) [OF n] n a by (intro u8_plain_Keep) (simp add: step3_def)
    then have "u8_plain (concat (map utf8_bytes cs) @ [n, a]) = (filter (\<lambda>d. d \<noteq> 65279) cs, [n, a])"
      using u8_plain_text [of cs "[n, a]"] cs by simp
    then show ?thesis unfolding u8_decode_start by (simp add: put_interim_def no_interim_def)
  qed
  obtain f fs where f: "concat (map utf8_bytes (e # ds)) = f # fs"
    by (cases "concat (map utf8_bytes (e # ds))") auto
  have nf: "\<not> is_cont f"
  proof
    assume "is_cont f"
    then have "unat f div 64 = 2" by (simp add: lead_tests)
    then have "u8_step (f # fs) = Emit [] fs"
      by (auto simp: lead_tests)
    moreover have "u8_step (f # fs) = Emit (if e = 65279 then [] else [e]) (concat (map utf8_bytes ds))"
      using f u8_step_utf8 [of e "concat (map utf8_bytes ds)"] cs by simp
    ultimately have "e = 65279" "fs = concat (map utf8_bytes ds)" by (auto split: if_splits)
    with f have "length (utf8_bytes e) = 1" by simp
    with \<open>e = 65279\<close> show False by (simp add: utf8_bytes_def)
  qed
  have second: "fst (u8_decode [n, a, 0] (b # f # fs)) = filter (\<lambda>d. d \<noteq> 65279) (e # ds)"
  proof -
    have "fst (u8_decode [n, a, 0] (b # f # fs)) = fst (u8_plain (f # fs))"
      using lead_kinds(2) [OF n] n a b nf by (simp add: decode_eval)
    also have "\<dots> = filter (\<lambda>d. d \<noteq> 65279) (e # ds)"
      using u8_plain_text [of "e # ds" "[]"] cs by (simp add: f [simplified])
    finally show ?thesis .
  qed
  have "fst (u8_decode no_interim (concat (map utf8_bytes (cs @ c # e # ds))))
      = filter (\<lambda>d. d \<noteq> 65279) (cs @ c # e # ds)"
    using utf8_text_arrives [of "cs @ c # e # ds"] c(1) cs by simp
  with first second show ?thesis by (simp add: bs(1) f [simplified] case_prod_beta)
qed

theorem utf8_cut_loses_character_witness:
  "fst (u8_chunks no_interim [[0x41, 0xE2, 0x80], [0xA6, 0x42]]) = [0x41, 0x42]"
  using utf8_cut_loses_character [of "0x2026" "[0x41]" "0x42" "[]"] by (simp add: scalar_def utf8_bytes_def)

end
