(* ===== verification/Xterm_Cells.thy ===== *)
theory Xterm_Cells
  imports Xterm_Decode
begin

text \<open>
  The character cells of the terminal emulator: \<open>AttributeData\<close> (\<open>De\<close> in the bundle), \<open>ExtendedAttrs\<close>
  (\<open>rt\<close>), \<open>CellData\<close> (\<open>q\<close>) and \<open>BufferLine\<close> (\<open>Ze\<close>).

  The attributes are 32-bit words: JavaScript's bit operations give 32-bit numbers, and a line keeps them in
  a \<open>Uint32Array\<close>. A flag is tested by its bits, so the sign of the number does not matter; the one place
  where it does is the arithmetic shift \<open>>>\<close>.
\<close>

type_synonym u32 = "32 word"

named_theorems cell_defs
  \<comment> \<open>the accessors of cells and lines\<close>

definition truthy :: "u32 \<Rightarrow> bool" where
  "truthy w \<longleftrightarrow> w \<noteq> 0"

subsection \<open>Extended attributes\<close>

record ext_attrs =
  ext_word :: u32
  urlId :: nat

definition plain_ext :: ext_attrs where
  "plain_ext = \<lparr>ext_word = 0, urlId = 0\<rparr>"

definition underlineStyle :: "ext_attrs \<Rightarrow> u32" where
  "underlineStyle e = (if urlId e \<noteq> 0 then 5 else signed_drop_bit 26 (ext_word e AND 0x1C000000))"

definition set_underlineStyle :: "u32 \<Rightarrow> ext_attrs \<Rightarrow> ext_attrs" where
  "set_underlineStyle t e =
     e\<lparr>ext_word := (ext_word e AND NOT 0x1C000000) OR (push_bit 26 t AND 0x1C000000)\<rparr>"

definition ext_value :: "ext_attrs \<Rightarrow> u32" where
  "ext_value e =
     (if urlId e \<noteq> 0 then (ext_word e AND NOT 0x1C000000) OR push_bit 26 (underlineStyle e) else ext_word e)"

definition underlineColor :: "ext_attrs \<Rightarrow> u32" where
  "underlineColor e = ext_word e AND 0x3FFFFFF"

definition set_underlineColor :: "u32 \<Rightarrow> ext_attrs \<Rightarrow> ext_attrs" where
  "set_underlineColor t e = e\<lparr>ext_word := (ext_word e AND NOT 0x3FFFFFF) OR (t AND 0x3FFFFFF)\<rparr>"

definition underlineVariantOffset :: "ext_attrs \<Rightarrow> u32" where
  "underlineVariantOffset e =
     (let t = signed_drop_bit 29 (ext_word e AND 0xE0000000)
      in if sint t < 0 then t XOR 0xFFFFFFF8 else t)"

definition set_underlineVariantOffset :: "u32 \<Rightarrow> ext_attrs \<Rightarrow> ext_attrs" where
  "set_underlineVariantOffset t e =
     e\<lparr>ext_word := (ext_word e AND 0x1FFFFFFF) OR (push_bit 29 t AND 0xE0000000)\<rparr>"

definition ext_isEmpty :: "ext_attrs \<Rightarrow> bool" where
  "ext_isEmpty e \<longleftrightarrow> underlineStyle e = 0 \<and> urlId e = 0"

subsection \<open>Attributes\<close>

record attr =
  fg :: u32
  bg :: u32
  extended :: ext_attrs

definition default_attr :: attr where
  "default_attr = \<lparr>fg = 0, bg = 0, extended = plain_ext\<rparr>"

definition toColorRGB :: "u32 \<Rightarrow> u32 \<times> u32 \<times> u32" where
  "toColorRGB t = (drop_bit 16 t AND 255, drop_bit 8 t AND 255, t AND 255)"

definition fromColorRGB :: "u32 \<times> u32 \<times> u32 \<Rightarrow> u32" where
  "fromColorRGB c = (case c of (r, g, b) \<Rightarrow> push_bit 16 (r AND 255) OR push_bit 8 (g AND 255) OR (b AND 255))"

definition isInverse :: "'a attr_scheme \<Rightarrow> bool" where "isInverse a = truthy (fg a AND 0x4000000)"
definition isBold :: "'a attr_scheme \<Rightarrow> bool" where "isBold a = truthy (fg a AND 0x8000000)"
definition isBlink :: "'a attr_scheme \<Rightarrow> bool" where "isBlink a = truthy (fg a AND 0x20000000)"
definition isInvisible :: "'a attr_scheme \<Rightarrow> bool" where "isInvisible a = truthy (fg a AND 0x40000000)"
definition isStrikethrough :: "'a attr_scheme \<Rightarrow> bool" where "isStrikethrough a = truthy (fg a AND 0x80000000)"
definition isItalic :: "'a attr_scheme \<Rightarrow> bool" where "isItalic a = truthy (bg a AND 0x4000000)"
definition isDim :: "'a attr_scheme \<Rightarrow> bool" where "isDim a = truthy (bg a AND 0x8000000)"
definition hasExtendedAttrs :: "'a attr_scheme \<Rightarrow> bool" where "hasExtendedAttrs a = truthy (bg a AND 0x10000000)"
definition isProtected :: "'a attr_scheme \<Rightarrow> bool" where "isProtected a = truthy (bg a AND 0x20000000)"
definition isOverline :: "'a attr_scheme \<Rightarrow> bool" where "isOverline a = truthy (bg a AND 0x40000000)"

definition isUnderline :: "'a attr_scheme \<Rightarrow> bool" where
  "isUnderline a = (if hasExtendedAttrs a \<and> underlineStyle (extended a) \<noteq> 0 then True else truthy (fg a AND 0x10000000))"

definition colorMode :: "u32 \<Rightarrow> u32" where "colorMode c = c AND 0x3000000"

text \<open>The colour of a word: \<open>None\<close> is the -1 of the default colour.\<close>

definition color_of :: "u32 \<Rightarrow> u32 option" where
  "color_of c =
     (if colorMode c = 0x1000000 \<or> colorMode c = 0x2000000 then Some (c AND 0xFF)
      else if colorMode c = 0x3000000 then Some (c AND 0xFFFFFF)
      else None)"

definition getFgColor :: "'a attr_scheme \<Rightarrow> u32 option" where "getFgColor a = color_of (fg a)"
definition getBgColor :: "'a attr_scheme \<Rightarrow> u32 option" where "getBgColor a = color_of (bg a)"
definition getFgColorMode :: "'a attr_scheme \<Rightarrow> u32" where "getFgColorMode a = colorMode (fg a)"
definition getBgColorMode :: "'a attr_scheme \<Rightarrow> u32" where "getBgColorMode a = colorMode (bg a)"
definition isFgRGB :: "'a attr_scheme \<Rightarrow> bool" where "isFgRGB a \<longleftrightarrow> colorMode (fg a) = 0x3000000"
definition isBgRGB :: "'a attr_scheme \<Rightarrow> bool" where "isBgRGB a \<longleftrightarrow> colorMode (bg a) = 0x3000000"

definition isFgPalette :: "'a attr_scheme \<Rightarrow> bool" where
  "isFgPalette a \<longleftrightarrow> colorMode (fg a) = 0x1000000 \<or> colorMode (fg a) = 0x2000000"

definition isBgPalette :: "'a attr_scheme \<Rightarrow> bool" where
  "isBgPalette a \<longleftrightarrow> colorMode (bg a) = 0x1000000 \<or> colorMode (bg a) = 0x2000000"

definition isFgDefault :: "'a attr_scheme \<Rightarrow> bool" where "isFgDefault a \<longleftrightarrow> colorMode (fg a) = 0"
definition isBgDefault :: "'a attr_scheme \<Rightarrow> bool" where "isBgDefault a \<longleftrightarrow> colorMode (bg a) = 0"
definition isAttributeDefault :: "'a attr_scheme \<Rightarrow> bool" where "isAttributeDefault a \<longleftrightarrow> fg a = 0 \<and> bg a = 0"

definition updateExtended :: "'a attr_scheme \<Rightarrow> 'a attr_scheme" where
  "updateExtended a =
     (if ext_isEmpty (extended a) then a\<lparr>bg := bg a AND NOT 0x10000000\<rparr> else a\<lparr>bg := bg a OR 0x10000000\<rparr>)"

text \<open>The colour of the underline: \<open>~c\<close> is zero only for -1.\<close>

definition own_underline :: "'a attr_scheme \<Rightarrow> bool" where
  "own_underline a \<longleftrightarrow> hasExtendedAttrs a \<and> truthy (NOT (underlineColor (extended a)))"

definition getUnderlineColor :: "'a attr_scheme \<Rightarrow> u32 option" where
  "getUnderlineColor a =
     (if own_underline a then
        (case color_of (underlineColor (extended a)) of None \<Rightarrow> getFgColor a | Some c \<Rightarrow> Some c)
      else getFgColor a)"

definition getUnderlineColorMode :: "'a attr_scheme \<Rightarrow> u32" where
  "getUnderlineColorMode a =
     (if own_underline a then colorMode (underlineColor (extended a)) else getFgColorMode a)"

definition isUnderlineColorRGB :: "'a attr_scheme \<Rightarrow> bool" where
  "isUnderlineColorRGB a =
     (if own_underline a then colorMode (underlineColor (extended a)) = 0x3000000 else isFgRGB a)"

definition isUnderlineColorPalette :: "'a attr_scheme \<Rightarrow> bool" where
  "isUnderlineColorPalette a =
     (if own_underline a then
        colorMode (underlineColor (extended a)) = 0x1000000 \<or> colorMode (underlineColor (extended a)) = 0x2000000
      else isFgPalette a)"

definition isUnderlineColorDefault :: "'a attr_scheme \<Rightarrow> bool" where
  "isUnderlineColorDefault a =
     (if own_underline a then colorMode (underlineColor (extended a)) = 0 else isFgDefault a)"

definition getUnderlineStyle :: "'a attr_scheme \<Rightarrow> u32" where
  "getUnderlineStyle a =
     (if truthy (fg a AND 0x10000000) then
        (if truthy (bg a AND 0x10000000) then underlineStyle (extended a) else 1)
      else 0)"

definition getUnderlineVariantOffset :: "'a attr_scheme \<Rightarrow> u32" where
  "getUnderlineVariantOffset a = underlineVariantOffset (extended a)"

subsection \<open>Cells\<close>

record cell = attr +
  content :: u32
  combinedData :: ustring

definition new_cell :: cell where
  "new_cell = \<lparr>fg = 0, bg = 0, extended = plain_ext, content = 0, combinedData = []\<rparr>"

definition width_of :: "u32 \<Rightarrow> int" where
  "width_of c = sint (signed_drop_bit 22 c)"

definition combined_flag :: "u32 \<Rightarrow> bool" where
  "combined_flag c = truthy (c AND 0x200000)"

definition cell_isCombined :: "cell \<Rightarrow> bool" where "cell_isCombined c = combined_flag (content c)"
definition cell_getWidth :: "cell \<Rightarrow> int" where "cell_getWidth c = width_of (content c)"

definition cell_getChars :: "cell \<Rightarrow> ustring" where
  "cell_getChars c =
     (if combined_flag (content c) then combinedData c
      else if truthy (content c AND 0x1FFFFF) then stringFromCodePoint (unat (content c AND 0x1FFFFF))
      else [])"

text \<open>\<open>charCodeAt\<close> beyond the end is \<open>NaN\<close>, which bit operations take for 0.\<close>

definition cell_getCode :: "cell \<Rightarrow> nat" where
  "cell_getCode c =
     (if cell_isCombined c then (if combinedData c = [] then 0 else unat (last (combinedData c)))
      else unat (content c AND 0x1FFFFF))"

definition char_code :: "ustring \<Rightarrow> u32" where
  "char_code s = (case s of [] \<Rightarrow> 0 | c # _ \<Rightarrow> ucast c)"

definition setFromCharData :: "u32 \<times> ustring \<times> u32 \<Rightarrow> cell \<Rightarrow> cell" where
  "setFromCharData d c =
     (case d of (f, s, w) \<Rightarrow>
        (let c1 = c\<lparr>fg := f, bg := 0\<rparr>;
             as_combined = c1\<lparr>combinedData := s, content := 0x200000 OR push_bit 22 w\<rparr>
         in if length s > 2 then as_combined
            else if length s = 2 then
              (if high_surrogate (s ! 0) \<and> low_surrogate (s ! 1) then
                 c1\<lparr>content := of_nat (surrogate_pair (s ! 0) (s ! 1)) OR push_bit 22 w\<rparr>
               else as_combined)
            else c1\<lparr>content := char_code s OR push_bit 22 w\<rparr>))"

definition fromCharData :: "u32 \<times> ustring \<times> u32 \<Rightarrow> cell" where
  "fromCharData d = setFromCharData d new_cell"

definition getAsCharData :: "cell \<Rightarrow> u32 \<times> ustring \<times> int \<times> nat" where
  "getAsCharData c = (fg c, cell_getChars c, cell_getWidth c, cell_getCode c)"

definition null_cell :: cell where
  "null_cell = fromCharData (0, [], 1)"

lemma null_cell_content [simp]: "content null_cell = 0x400000"
  by (simp add: null_cell_def fromCharData_def setFromCharData_def char_code_def)

lemmas [cell_defs] = truthy_def width_of_def combined_flag_def

end
