(* ===== verification/Xterm_Line.thy ===== *)
theory Xterm_Line
  imports Xterm_Cells
begin

text \<open>
  A line of the terminal's buffer (\<open>BufferLine\<close>, \<open>Ze\<close> in the bundle). The \<open>Uint32Array\<close> holds three words
  per cell: content, foreground, background; here it is a list of such slots. A write outside a typed array
  has no effect, and an element outside is \<open>undefined\<close>, which bit operations take for 0. The texts of combined
  characters and the extended attributes are in maps by column.
\<close>

record slot =
  s_content :: u32
  s_fg :: u32
  s_bg :: u32

record line =
  slots :: "slot list"
  combined :: "int \<rightharpoonup> ustring"
  ext_map :: "int \<rightharpoonup> ext_attrs"
  isWrapped :: bool

definition no_slot :: slot where
  "no_slot = \<lparr>s_content = 0, s_fg = 0, s_bg = 0\<rparr>"

definition line_length :: "line \<Rightarrow> int" where
  "line_length l = int (length (slots l))"

definition slot_at :: "line \<Rightarrow> int \<Rightarrow> slot" where
  "slot_at l i = (if 0 \<le> i \<and> i < line_length l then slots l ! nat i else no_slot)"

definition put_slot :: "int \<Rightarrow> slot \<Rightarrow> line \<Rightarrow> line" where
  "put_slot i s l = (if 0 \<le> i then l\<lparr>slots := (slots l)[nat i := s]\<rparr> else l)"

definition getWidth :: "line \<Rightarrow> int \<Rightarrow> int" where "getWidth l i = width_of (s_content (slot_at l i))"
definition hasWidth :: "line \<Rightarrow> int \<Rightarrow> bool" where "hasWidth l i = truthy (s_content (slot_at l i) AND 0xC00000)"
definition getFg :: "line \<Rightarrow> int \<Rightarrow> u32" where "getFg l i = s_fg (slot_at l i)"
definition getBg :: "line \<Rightarrow> int \<Rightarrow> u32" where "getBg l i = s_bg (slot_at l i)"
definition hasContent :: "line \<Rightarrow> int \<Rightarrow> bool" where "hasContent l i = truthy (s_content (slot_at l i) AND 0x3FFFFF)"
definition isCombined :: "line \<Rightarrow> int \<Rightarrow> bool" where "isCombined l i = combined_flag (s_content (slot_at l i))"
definition line_isProtected :: "line \<Rightarrow> int \<Rightarrow> bool" where "line_isProtected l i = truthy (s_bg (slot_at l i) AND 0x20000000)"

text \<open>A combined cell always has its text; a missing entry would be \<open>undefined\<close>.\<close>

definition combined_text :: "line \<Rightarrow> int \<Rightarrow> ustring" where
  "combined_text l i = (case combined l i of None \<Rightarrow> [] | Some s \<Rightarrow> s)"

definition getCodePoint :: "line \<Rightarrow> int \<Rightarrow> nat" where
  "getCodePoint l i =
     (if isCombined l i then (if combined_text l i = [] then 0 else unat (last (combined_text l i)))
      else unat (s_content (slot_at l i) AND 0x1FFFFF))"

definition getString :: "line \<Rightarrow> int \<Rightarrow> ustring" where
  "getString l i =
     (let c = s_content (slot_at l i)
      in if combined_flag c then combined_text l i
         else if truthy (c AND 0x1FFFFF) then stringFromCodePoint (unat (c AND 0x1FFFFF))
         else [])"

definition loadCell :: "line \<Rightarrow> int \<Rightarrow> cell \<Rightarrow> cell" where
  "loadCell l i c =
     (let s = slot_at l i;
          c1 = c\<lparr>content := s_content s, fg := s_fg s, bg := s_bg s\<rparr>;
          c2 = (if combined_flag (content c1) then c1\<lparr>combinedData := combined_text l i\<rparr> else c1)
      in if hasExtendedAttrs c2 then c2\<lparr>extended := (case ext_map l i of None \<Rightarrow> plain_ext | Some e \<Rightarrow> e)\<rparr> else c2)"

definition setCell :: "int \<Rightarrow> cell \<Rightarrow> line \<Rightarrow> line" where
  "setCell i c l =
     (let l1 = (if combined_flag (content c) then l\<lparr>combined := (combined l)(i \<mapsto> combinedData c)\<rparr> else l);
          l2 = (if hasExtendedAttrs c then l1\<lparr>ext_map := (ext_map l1)(i \<mapsto> extended c)\<rparr> else l1)
      in put_slot i \<lparr>s_content = content c, s_fg = fg c, s_bg = bg c\<rparr> l2)"

definition setCellFromCodepoint :: "int \<Rightarrow> cp \<Rightarrow> int \<Rightarrow> 'a attr_scheme \<Rightarrow> line \<Rightarrow> line" where
  "setCellFromCodepoint i code width a l =
     (let l1 = (if hasExtendedAttrs a then l\<lparr>ext_map := (ext_map l)(i \<mapsto> extended a)\<rparr> else l)
      in put_slot i \<lparr>s_content = of_nat code OR push_bit 22 (of_int width), s_fg = fg a, s_bg = bg a\<rparr> l1)"

definition addCodepointToCell :: "int \<Rightarrow> cp \<Rightarrow> int \<Rightarrow> line \<Rightarrow> line" where
  "addCodepointToCell i code width l =
     (let r = s_content (slot_at l i);
          (l1, r1) =
            (if combined_flag r then
               (l\<lparr>combined := (combined l)(i \<mapsto> combined_text l i @ stringFromCodePoint code)\<rparr>, r)
             else if truthy (r AND 0x1FFFFF) then
               (l\<lparr>combined := (combined l)(i \<mapsto> stringFromCodePoint (unat (r AND 0x1FFFFF)) @ stringFromCodePoint code)\<rparr>,
                (r AND NOT 0x1FFFFF) OR 0x200000)
             else (l, of_nat code OR 0x400000));
          r2 = (if width \<noteq> 0 then (r1 AND NOT 0xC00000) OR push_bit 22 (of_int width) else r1)
      in put_slot i ((slot_at l1 i)\<lparr>s_content := r2\<rparr>) l1)"

text \<open>Loops over columns: the body for each column of the range, upwards.\<close>

definition for_up :: "int \<Rightarrow> int \<Rightarrow> (int \<Rightarrow> 'b \<Rightarrow> 'b) \<Rightarrow> 'b \<Rightarrow> 'b" where
  "for_up a b f = fold f [a..b - 1]"

definition for_down :: "int \<Rightarrow> int \<Rightarrow> (int \<Rightarrow> 'b \<Rightarrow> 'b) \<Rightarrow> 'b \<Rightarrow> 'b" where
  "for_down a b f = fold f (rev [a..b])"

definition new_line :: "int \<Rightarrow> cell option \<Rightarrow> bool \<Rightarrow> line" where
  "new_line n c wrapped =
     for_up 0 n (\<lambda>i. setCell i (case c of None \<Rightarrow> null_cell | Some c \<Rightarrow> c))
       \<lparr>slots = replicate (nat n) no_slot, combined = Map.empty, ext_map = Map.empty, isWrapped = wrapped\<rparr>"

text \<open>The middle of a wide character that an edit cuts becomes a blank.\<close>

definition blank_at :: "int \<Rightarrow> 'a attr_scheme \<Rightarrow> line \<Rightarrow> line" where
  "blank_at i a l = setCellFromCodepoint i 0 1 a l"

definition mend_wide :: "int \<Rightarrow> 'a attr_scheme \<Rightarrow> line \<Rightarrow> line" where
  "mend_wide i a l = (if getWidth l i = 2 then blank_at i a l else l)"

definition insertCells :: "int \<Rightarrow> int \<Rightarrow> cell \<Rightarrow> line \<Rightarrow> line" where
  "insertCells pos n c l =
     (let len = line_length l;
          t = pos mod len;
          l1 = (if t \<noteq> 0 then mend_wide (t - 1) c l else l);
          l2 = (if n < len - t then
                  for_up 0 n (\<lambda>k. setCell (t + k) c)
                    (for_down 0 (len - t - n - 1) (\<lambda>k l. setCell (t + n + k) (loadCell l (t + k) new_cell) l) l1)
                else for_up t len (\<lambda>k. setCell k c) l1)
      in mend_wide (len - 1) c l2)"

definition deleteCells :: "int \<Rightarrow> int \<Rightarrow> cell \<Rightarrow> line \<Rightarrow> line" where
  "deleteCells pos n c l =
     (let len = line_length l;
          t = pos mod len;
          l1 = (if n < len - t then
                  for_up (len - n) len (\<lambda>k. setCell k c)
                    (for_up 0 (len - t - n) (\<lambda>k l. setCell (t + k) (loadCell l (t + n + k) new_cell) l) l)
                else for_up t len (\<lambda>k. setCell k c) l);
          l2 = (if t \<noteq> 0 then mend_wide (t - 1) c l1 else l1)
      in if getWidth l2 t = 0 \<and> \<not> hasContent l2 t then blank_at t c l2 else l2)"

definition replaceCells :: "int \<Rightarrow> int \<Rightarrow> cell \<Rightarrow> bool \<Rightarrow> line \<Rightarrow> line" where
  "replaceCells a b c respectProtect l =
     (let len = line_length l
      in if respectProtect then
           (let l1 = (if a \<noteq> 0 \<and> \<not> line_isProtected l (a - 1) then mend_wide (a - 1) c l else l);
                l2 = (if b < len \<and> getWidth l1 (b - 1) = 2 \<and> \<not> line_isProtected l1 b then blank_at b c l1 else l1)
            in for_up a (min b len) (\<lambda>k l. if line_isProtected l k then l else setCell k c l) l2)
         else
           (let l1 = (if a \<noteq> 0 then mend_wide (a - 1) c l else l);
                l2 = (if b < len \<and> getWidth l1 (b - 1) = 2 then blank_at b c l1 else l1)
            in for_up a (min b len) (\<lambda>k. setCell k c) l2))"

text \<open>The result of \<open>resize\<close> that asks for a clean-up of memory is left out.\<close>

definition drop_from :: "int \<Rightarrow> (int \<rightharpoonup> 'v) \<Rightarrow> (int \<rightharpoonup> 'v)" where
  "drop_from n m = (\<lambda>i. if n \<le> i then None else m i)"

definition line_resize :: "int \<Rightarrow> cell \<Rightarrow> line \<Rightarrow> line" where
  "line_resize n c l =
     (if n = line_length l then l
      else if line_length l < n then
        for_up (line_length l) n (\<lambda>i. setCell i c)
          (l\<lparr>slots := slots l @ replicate (nat (n - line_length l)) no_slot\<rparr>)
      else l\<lparr>slots := take (nat n) (slots l), combined := drop_from n (combined l),
             ext_map := drop_from n (ext_map l)\<rparr>)"

definition line_fill :: "cell \<Rightarrow> bool \<Rightarrow> line \<Rightarrow> line" where
  "line_fill c respectProtect l =
     (if respectProtect then
        for_up 0 (line_length l) (\<lambda>i l. if line_isProtected l i then l else setCell i c l) l
      else for_up 0 (line_length l) (\<lambda>i. setCell i c) (l\<lparr>combined := Map.empty, ext_map := Map.empty\<rparr>))"

text \<open>\<open>copyFrom\<close> and \<open>clone\<close> copy all parts.\<close>

definition copyFrom :: "line \<Rightarrow> line \<Rightarrow> line" where "copyFrom src l = src"
definition line_clone :: "line \<Rightarrow> line" where "line_clone l = l"

definition trimmed :: "(slot \<Rightarrow> bool) \<Rightarrow> line \<Rightarrow> int" where
  "trimmed used l =
     (case List.find (\<lambda>i. used (slots l ! i)) (rev [0..<length (slots l)]) of
        None \<Rightarrow> 0
      | Some i \<Rightarrow> int i + width_of (s_content (slots l ! i)))"

definition getTrimmedLength :: "line \<Rightarrow> int" where
  "getTrimmedLength = trimmed (\<lambda>s. truthy (s_content s AND 0x3FFFFF))"

definition getNoBgTrimmedLength :: "line \<Rightarrow> int" where
  "getNoBgTrimmedLength = trimmed (\<lambda>s. truthy (s_content s AND 0x3FFFFF) \<or> truthy (s_bg s AND 0x3000000))"

definition copy_slot :: "line \<Rightarrow> int \<Rightarrow> int \<Rightarrow> line \<Rightarrow> line" where
  "copy_slot src e i l =
     (let l1 = put_slot i (slot_at src e) l
      in if truthy (s_bg (slot_at src e) AND 0x10000000) then l1\<lparr>ext_map := (ext_map l1)(i := ext_map src e)\<rparr> else l1)"

definition copyCellsFrom :: "line \<Rightarrow> int \<Rightarrow> int \<Rightarrow> int \<Rightarrow> bool \<Rightarrow> line \<Rightarrow> line" where
  "copyCellsFrom src e i n applyInReverse l =
     (let l1 = (if applyInReverse then for_down 0 (n - 1) (\<lambda>a. copy_slot src (e + a) (i + a)) l
                else for_up 0 n (\<lambda>a. copy_slot src (e + a) (i + a)) l)
      in l1\<lparr>combined := (\<lambda>k. if i \<le> k \<and> combined src (k - i + e) \<noteq> None then combined src (k - i + e) else combined l1 k)\<rparr>)"

text \<open>\<open>translateToString(trimRight, startCol, endCol)\<close>; a cell without width counts as one column.\<close>

definition cell_text :: "line \<Rightarrow> int \<Rightarrow> ustring" where
  "cell_text l i =
     (let c = s_content (slot_at l i)
      in if combined_flag c then combined_text l i
         else if truthy (c AND 0x1FFFFF) then stringFromCodePoint (unat (c AND 0x1FFFFF))
         else [32])"

definition col_step :: "line \<Rightarrow> int \<Rightarrow> int" where
  "col_step l i = (if getWidth l i = 0 then 1 else getWidth l i)"

fun text_from :: "nat \<Rightarrow> line \<Rightarrow> int \<Rightarrow> int \<Rightarrow> ustring" where
  "text_from 0 l i e = []"
| "text_from (Suc fuel) l i e =
     (if i < e then cell_text l i @ text_from fuel l (i + col_step l i) e else [])"

definition translateToString :: "bool \<Rightarrow> int \<Rightarrow> int \<Rightarrow> line \<Rightarrow> ustring" where
  "translateToString trimRight a e l =
     (let e' = (if trimRight then min e (getTrimmedLength l) else e)
      in text_from (nat (e' - a)) l a e')"

subsection \<open>Loops over columns\<close>

lemma for_up_Nil [simp]: "b \<le> a \<Longrightarrow> for_up a b f l = l"
  by (simp add: for_up_def)

lemma for_up_step: "a < b \<Longrightarrow> for_up a b f l = for_up (a + 1) b f (f a l)"
  by (simp add: for_up_def upto.simps [of a])

lemma for_down_Nil [simp]: "b < a \<Longrightarrow> for_down a b f l = l"
  by (simp add: for_down_def)

lemma for_down_step: "a \<le> b \<Longrightarrow> for_down a b f l = for_down a (b - 1) f (f b l)"
  by (simp add: for_down_def upto_rec2 [of a b])

lemma fold_inv: "(\<And>i l. P l \<Longrightarrow> P (f i l)) \<Longrightarrow> P l \<Longrightarrow> P (fold f is l)"
  by (induction "is" arbitrary: l) simp_all

lemma for_up_inv: "(\<And>i l. P l \<Longrightarrow> P (f i l)) \<Longrightarrow> P l \<Longrightarrow> P (for_up a b f l)"
  unfolding for_up_def by (rule fold_inv)

lemma for_down_inv: "(\<And>i l. P l \<Longrightarrow> P (f i l)) \<Longrightarrow> P l \<Longrightarrow> P (for_down a b f l)"
  unfolding for_down_def by (rule fold_inv)

subsection \<open>The length of a line\<close>

lemma length_put_slot [simp]: "line_length (put_slot i s l) = line_length l"
  by (simp add: put_slot_def line_length_def)

lemma length_setCell [simp]: "line_length (setCell i c l) = line_length l"
  by (simp add: setCell_def Let_def put_slot_def line_length_def)

lemma length_setCellFromCodepoint [simp]: "line_length (setCellFromCodepoint i code w a l) = line_length l"
  by (simp add: setCellFromCodepoint_def Let_def put_slot_def line_length_def)

lemma length_addCodepointToCell [simp]: "line_length (addCodepointToCell i code w l) = line_length l"
  by (simp add: addCodepointToCell_def Let_def put_slot_def line_length_def)

lemma length_blank_at [simp]: "line_length (blank_at i a l) = line_length l"
  by (simp add: blank_at_def)

lemma length_mend_wide [simp]: "line_length (mend_wide i a l) = line_length l"
  by (simp add: mend_wide_def)

lemma length_loop [simp]:
  "(\<And>i l. line_length (f i l) = line_length l) \<Longrightarrow> line_length (for_up a b f l) = line_length l"
  "(\<And>i l. line_length (f i l) = line_length l) \<Longrightarrow> line_length (for_down a b f l) = line_length l"
  using for_up_inv [of "\<lambda>l'. line_length l' = line_length l" f l a b]
    for_down_inv [of "\<lambda>l'. line_length l' = line_length l" f l a b] by simp_all

lemma length_insertCells [simp]: "line_length (insertCells t n c l) = line_length l"
  by (simp add: insertCells_def Let_def)

lemma length_deleteCells [simp]: "line_length (deleteCells t n c l) = line_length l"
  by (simp add: deleteCells_def Let_def)

lemma length_replaceCells [simp]: "line_length (replaceCells a b c p l) = line_length l"
  by (simp add: replaceCells_def Let_def)

lemma line_length_wrapped [simp]:
  "line_length (l\<lparr>isWrapped := w\<rparr>) = line_length l" "line_length (l\<lparr>combined := m\<rparr>) = line_length l"
  "line_length (l\<lparr>ext_map := m'\<rparr>) = line_length l"
  by (simp_all add: line_length_def)

lemma length_line_fill [simp]: "line_length (line_fill c p l) = line_length l"
  by (simp add: line_fill_def)

lemma length_copyCellsFrom [simp]: "line_length (copyCellsFrom src e i n r l) = line_length l"
  by (simp add: copyCellsFrom_def copy_slot_def Let_def)

lemma length_new_line [simp]: "0 \<le> n \<Longrightarrow> line_length (new_line n c w) = n"
  by (simp add: new_line_def) (simp add: line_length_def)

lemma length_line_resize [simp]: "0 \<le> n \<Longrightarrow> line_length (line_resize n c l) = n"
  by (auto simp: line_resize_def) (simp_all add: line_length_def)

subsection \<open>Slots after an operation\<close>

definition slot_of :: "cell \<Rightarrow> slot" where
  "slot_of c = \<lparr>s_content = content c, s_fg = fg c, s_bg = bg c\<rparr>"

definition blank_slot :: "'a attr_scheme \<Rightarrow> slot" where
  "blank_slot a = \<lparr>s_content = 0x400000, s_fg = fg a, s_bg = bg a\<rparr>"

lemma slot_at_put_slot:
  "slot_at (put_slot i s l) j = (if i = j \<and> 0 \<le> j \<and> j < line_length l then s else slot_at l j)"
  by (auto simp: slot_at_def put_slot_def line_length_def nth_list_update)

lemma slot_at_maps [simp]:
  "slot_at (l\<lparr>combined := m\<rparr>) j = slot_at l j" "slot_at (l\<lparr>ext_map := m'\<rparr>) j = slot_at l j"
  "slot_at (l\<lparr>isWrapped := w\<rparr>) j = slot_at l j"
  by (simp_all add: slot_at_def line_length_def)

lemma slot_at_setCell:
  "slot_at (setCell i c l) j = (if i = j \<and> 0 \<le> j \<and> j < line_length l then slot_of c else slot_at l j)"
  by (simp add: setCell_def Let_def slot_at_put_slot slot_of_def)

lemma slot_at_blank:
  "slot_at (blank_at i a l) j = (if i = j \<and> 0 \<le> j \<and> j < line_length l then blank_slot a else slot_at l j)"
  by (simp add: blank_at_def setCellFromCodepoint_def Let_def slot_at_put_slot blank_slot_def)

lemma slot_of_loadCell: "slot_of (loadCell l i c) = slot_at l i"
  by (simp add: loadCell_def slot_of_def Let_def)

lemma slot_at_fill:
  "slot_at (for_up a b (\<lambda>k. setCell (t + k) c) l) j
    = (if a \<le> j - t \<and> j - t < b \<and> 0 \<le> j \<and> j < line_length l then slot_of c else slot_at l j)"
proof (induction "nat (b - a)" arbitrary: a l)
  case (Suc n)
  then show ?case by (auto simp: for_up_step slot_at_setCell)
qed auto

lemma slot_at_fill0:
  "slot_at (for_up a b (\<lambda>k. setCell k c) l) j
    = (if a \<le> j \<and> j < b \<and> 0 \<le> j \<and> j < line_length l then slot_of c else slot_at l j)"
  using slot_at_fill [of a b 0] by simp

lemma slot_at_shift_right:
  assumes "0 \<le> t" "0 \<le> n"
  shows "slot_at (for_down 0 m (\<lambda>k l. setCell (t + n + k) (loadCell l (t + k) d) l) l) j
    = (if t + n \<le> j \<and> j \<le> t + n + m \<and> j < line_length l then slot_at l (j - n) else slot_at l j)"
proof (induction "nat (m + 1)" arbitrary: m l)
  case (Suc k)
  then have m: "0 \<le> m" "k = nat (m - 1 + 1)" by simp_all
  have "slot_at (for_down 0 (m - 1) (\<lambda>k l. setCell (t + n + k) (loadCell l (t + k) d) l)
      (setCell (t + n + m) (loadCell l (t + m) d) l)) j
    = (if t + n \<le> j \<and> j \<le> t + n + (m - 1) \<and> j < line_length l
       then slot_at (setCell (t + n + m) (loadCell l (t + m) d) l) (j - n)
       else slot_at (setCell (t + n + m) (loadCell l (t + m) d) l) j)"
    using Suc.hyps(1) [OF m(2), of "setCell (t + n + m) (loadCell l (t + m) d) l"] by simp
  then show ?case using m assms
    by (auto simp: for_down_step slot_at_setCell slot_of_loadCell)
qed auto

lemma slot_at_shift_left:
  assumes "0 \<le> t" "0 \<le> n" "0 \<le> a"
  shows "slot_at (for_up a m (\<lambda>k l. setCell (t + k) (loadCell l (t + n + k) d) l) l) j
    = (if t + a \<le> j \<and> j < t + m \<and> j < line_length l then slot_at l (j + n) else slot_at l j)"
  using assms(3)
proof (induction "nat (m - a)" arbitrary: a l)
  case (Suc k)
  then have m: "a < m" "k = nat (m - (a + 1))" "0 \<le> a + 1" by simp_all
  let ?l = "setCell (t + a) (loadCell l (t + n + a) d) l"
  have "slot_at (for_up (a + 1) m (\<lambda>k l. setCell (t + k) (loadCell l (t + n + k) d) l) ?l) j
    = (if t + (a + 1) \<le> j \<and> j < t + m \<and> j < line_length l then slot_at ?l (j + n) else slot_at ?l j)"
    using Suc.hyps(1) [OF m(2,3), of ?l] by simp
  moreover have "\<not> 0 \<le> j \<Longrightarrow> \<not> a + t \<le> j" using assms(1) Suc.prems by linarith
  ultimately show ?case using m assms
    by (cases "0 \<le> j") (auto simp: for_up_step slot_at_setCell slot_of_loadCell algebra_simps)
qed auto

subsection \<open>Inserting and deleting cells\<close>

lemma width_of_eq: "width_of c = drop_bit 22 (sint c)"
  by (simp add: width_of_def sint_signed_drop_bit_eq)

definition single_width :: "line \<Rightarrow> bool" where
  "single_width l \<longleftrightarrow> (\<forall>i. 0 \<le> i \<and> i < line_length l \<longrightarrow> getWidth l i = 1)"

lemma getWidth_outside [simp]: "\<not> (0 \<le> i \<and> i < line_length l) \<Longrightarrow> getWidth l i = 0"
  by (auto simp: getWidth_def slot_at_def no_slot_def width_of_eq)

lemma mend_narrow [simp]: "getWidth l i \<noteq> 2 \<Longrightarrow> mend_wide i a l = l"
  by (simp add: mend_wide_def)

lemma single_width_not_wide: "single_width l \<Longrightarrow> getWidth l i \<noteq> 2"
  using getWidth_outside [of i l] by (cases "0 \<le> i \<and> i < line_length l") (auto simp: single_width_def)

lemma insertCells_slots:
  assumes l: "single_width l" and c: "cell_getWidth c = 1" and t: "0 \<le> t" "t < line_length l" and n: "0 \<le> n"
    and j: "0 \<le> j" "j < line_length l"
  shows "slot_at (insertCells t n c l) j
    = (if j < t then slot_at l j else if j < t + n then slot_of c else slot_at l (j - n))"
proof -
  let ?len = "line_length l"
  define l2 where "l2 = (if n < ?len - t then
      for_up 0 n (\<lambda>k. setCell (t + k) c)
        (for_down 0 (?len - t - n - 1) (\<lambda>k l. setCell (t + n + k) (loadCell l (t + k) new_cell) l) l)
      else for_up t ?len (\<lambda>k. setCell k c) l)"
  have len: "line_length l2 = ?len" by (simp add: l2_def)
  have slots: "slot_at l2 i = (if i < t then slot_at l i else if i < t + n then slot_of c else slot_at l (i - n))"
    if "0 \<le> i" "i < ?len" for i
  proof (cases "n < ?len - t")
    case True
    then have "l2 = for_up 0 n (\<lambda>k. setCell (t + k) c)
        (for_down 0 (?len - t - n - 1) (\<lambda>k l. setCell (t + n + k) (loadCell l (t + k) new_cell) l) l)"
      by (simp add: l2_def)
    then show ?thesis using True that t n slot_at_shift_right [OF t(1) n, of "?len - t - n - 1" new_cell l i]
      by (auto simp: slot_at_fill)
  next
    case False
    then show ?thesis using that t n by (auto simp: l2_def slot_at_fill0)
  qed
  have "getWidth l2 (?len - 1) \<noteq> 2"
  proof (cases "?len - 1 < t + n")
    case True
    have "getWidth l2 (?len - 1) = (if ?len - 1 < t then getWidth l (?len - 1) else cell_getWidth c)"
      using slots [of "?len - 1"] t True by (auto simp: getWidth_def cell_getWidth_def slot_of_def)
    then show ?thesis using c single_width_not_wide [OF l] by simp
  next
    case False
    then have "getWidth l2 (?len - 1) = getWidth l (?len - 1 - n)"
      using slots [of "?len - 1"] t n by (auto simp: getWidth_def)
    then show ?thesis using single_width_not_wide [OF l] by simp
  qed
  moreover have "insertCells t n c l = mend_wide (?len - 1) c l2"
    using t single_width_not_wide [OF l] by (simp add: insertCells_def Let_def l2_def)
  ultimately have "insertCells t n c l = l2" by simp
  then show ?thesis using slots [OF j] by simp
qed

lemma deleteCells_slots:
  assumes l: "single_width l" and c: "cell_getWidth c = 1" and t: "0 \<le> t" "t < line_length l" and n: "0 \<le> n"
    and j: "0 \<le> j" "j < line_length l"
  shows "slot_at (deleteCells t n c l) j
    = (if j < t then slot_at l j else if j + n < line_length l then slot_at l (j + n) else slot_of c)"
proof -
  let ?len = "line_length l"
  define l1 where "l1 = (if n < ?len - t then
      for_up (?len - n) ?len (\<lambda>k. setCell k c)
        (for_up 0 (?len - t - n) (\<lambda>k l. setCell (t + k) (loadCell l (t + n + k) new_cell) l) l)
      else for_up t ?len (\<lambda>k. setCell k c) l)"
  have slots: "slot_at l1 i = (if i < t then slot_at l i else if i + n < ?len then slot_at l (i + n) else slot_of c)"
    if "0 \<le> i" "i < ?len" for i
  proof (cases "n < ?len - t")
    case True
    then have "l1 = for_up (?len - n) ?len (\<lambda>k. setCell k c)
        (for_up 0 (?len - t - n) (\<lambda>k l. setCell (t + k) (loadCell l (t + n + k) new_cell) l) l)"
      by (simp add: l1_def)
    then show ?thesis using True that t n slot_at_shift_left [OF t(1) n, of 0 "?len - t - n" new_cell l i]
      by (auto simp: slot_at_fill0)
  next
    case False
    then show ?thesis using that t n by (auto simp: l1_def slot_at_fill0)
  qed
  have len: "line_length l1 = ?len" by (simp add: l1_def)
  have one: "getWidth l1 i = 1" if "0 \<le> i" "i < ?len" for i
    using slots [OF that] l c that t n by (auto simp: getWidth_def single_width_def cell_getWidth_def slot_of_def)
  have "getWidth l1 (t - 1) \<noteq> 2" using one [of "t - 1"] len t by (cases "t = 0") simp_all
  moreover have "deleteCells t n c l
      = (let l2 = (if t \<noteq> 0 then mend_wide (t - 1) c l1 else l1)
         in if getWidth l2 t = 0 \<and> \<not> hasContent l2 t then blank_at t c l2 else l2)"
    by (simp only: deleteCells_def Let_def l1_def mod_pos_pos_trivial [OF t])
  ultimately have "deleteCells t n c l = l1" using t one [of t] by (cases "t = 0") (simp_all add: Let_def)
  then show ?thesis using slots [OF j] by simp
qed

text \<open>
  On a line without wide characters, inserting \<open>n\<close> cells at a column moves the cells from there to the
  right by \<open>n\<close>, loses those pushed over the edge and keeps the rest of the line; deleting \<open>n\<close> cells moves
  them back. So deleting what was inserted gives the old line except for the \<open>n\<close> last columns, which are
  fill cells.
\<close>

theorem insert_delete_cells:
  assumes "single_width l" "cell_getWidth c = 1" "0 \<le> t" "t < line_length l" "0 \<le> n" "0 \<le> j" "j < line_length l"
  shows "slot_at (insertCells t n c l) j
      = (if j < t then slot_at l j else if j < t + n then slot_of c else slot_at l (j - n))
    \<and> slot_at (deleteCells t n c (insertCells t n c l)) j
      = (if j < t \<or> j + n < line_length l then slot_at l j else slot_of c)"
proof -
  have sw: "single_width (insertCells t n c l)"
    using assms insertCells_slots [OF assms(1-5)]
    by (auto simp: single_width_def getWidth_def cell_getWidth_def slot_of_def)
  have "slot_at (deleteCells t n c (insertCells t n c l)) j
      = (if j < t \<or> j + n < line_length l then slot_at l j else slot_of c)"
    using deleteCells_slots [OF sw assms(2), of t n j] insertCells_slots [OF assms(1-5)] assms by auto
  then show ?thesis using insertCells_slots [OF assms] by simp
qed

theorem insert_delete_cells_witness:
  "let l = setCellFromCodepoint 1 66 1 default_attr (setCellFromCodepoint 0 65 1 default_attr (new_line 3 None False))
   in s_content (slot_at (insertCells 0 1 null_cell l) 1) = 0x400041
    \<and> s_content (slot_at (deleteCells 0 1 null_cell (insertCells 0 1 null_cell l)) 1) = 0x400042"
proof -
  let ?l = "setCellFromCodepoint 1 66 1 default_attr (setCellFromCodepoint 0 65 1 default_attr (new_line 3 None False))"
  have len: "line_length ?l = 3" by simp
  have s: "slot_at (new_line 3 None False) i = slot_of null_cell" if "0 \<le> i" "i < 3" for i
    using that slot_at_fill0 [of 0 3 null_cell] by (simp add: new_line_def line_length_def)
  have l: "s_content (slot_at ?l i) = (if i = 0 then 0x400041 else if i = 1 then 0x400042 else 0x400000)"
    if "0 \<le> i" "i < 3" for i
    using that s [of i] by (simp add: setCellFromCodepoint_def Let_def slot_at_put_slot default_attr_def
        hasExtendedAttrs_def truthy_def slot_of_def)
  have "single_width ?l"
    using l by (simp add: single_width_def len getWidth_def width_of_eq drop_bit_eq_div)
  moreover have "cell_getWidth null_cell = 1"
    by (simp add: cell_getWidth_def width_of_eq drop_bit_eq_div)
  ultimately show ?thesis
    using insert_delete_cells [of ?l null_cell 0 1 1] l [of 0] l [of 1] by (simp add: len Let_def)
qed

end
