(* ===== verification/Xterm_Ring.thy ===== *)
theory Xterm_Ring
  imports JS_Prelude
begin

text \<open>
  The store of the terminal's lines (\<open>CircularList\<close>, \<open>zi\<close> in the bundle): an array of a fixed maximal length,
  of which the lines are a cyclic section. An element never set is \<open>None\<close>. The emitters' events are logged;
  the markers of a buffer follow their lines by them. Every operation is one on the list of the elements.
\<close>

datatype ring_event = Trim nat | Deleted nat nat | Inserted nat nat

record 'a ring =
  arr :: "'a option list"
  startIndex :: nat
  rlen :: nat
  maxLength :: nat
  fired :: "ring_event list"

definition new_ring :: "nat \<Rightarrow> 'a ring" where
  "new_ring m = \<lparr>arr = replicate m None, startIndex = 0, rlen = 0, maxLength = m, fired = []\<rparr>"

definition cyclicIndex :: "'a ring \<Rightarrow> nat \<Rightarrow> nat" where
  "cyclicIndex r i = (startIndex r + i) mod maxLength r"

definition ring_get :: "'a ring \<Rightarrow> nat \<Rightarrow> 'a option" where
  "ring_get r i = arr r ! cyclicIndex r i"

definition ring_set :: "nat \<Rightarrow> 'a option \<Rightarrow> 'a ring \<Rightarrow> 'a ring" where
  "ring_set i x r = r\<lparr>arr := (arr r)[cyclicIndex r i := x]\<rparr>"

definition fire :: "ring_event \<Rightarrow> 'a ring \<Rightarrow> 'a ring" where
  "fire e r = r\<lparr>fired := fired r @ [e]\<rparr>"

definition isFull :: "'a ring \<Rightarrow> bool" where
  "isFull r \<longleftrightarrow> rlen r = maxLength r"

definition set_maxLength :: "nat \<Rightarrow> 'a ring \<Rightarrow> 'a ring" where
  "set_maxLength e r =
     (if maxLength r = e then r
      else r\<lparr>arr := map (\<lambda>i. if i < min e (rlen r) then ring_get r i else None) [0..<e],
             maxLength := e, startIndex := 0\<rparr>)"

text \<open>A longer length clears the array at the plain indices, not the cyclic ones.\<close>

definition set_length :: "nat \<Rightarrow> 'a ring \<Rightarrow> 'a ring" where
  "set_length e r =
     (let r1 = (if rlen r < e then r\<lparr>arr := fold (\<lambda>i a. a[i := None]) [rlen r..<e] (arr r)\<rparr> else r)
      in r1\<lparr>rlen := e\<rparr>)"

definition ring_push :: "'a \<Rightarrow> 'a ring \<Rightarrow> 'a ring" where
  "ring_push x r =
     (let r1 = ring_set (rlen r) (Some x) r
      in if rlen r = maxLength r then
           fire (Trim 1) (r1\<lparr>startIndex := Suc (startIndex r) mod maxLength r\<rparr>)
         else r1\<lparr>rlen := Suc (rlen r)\<rparr>)"

text \<open>\<open>None\<close> is the error of a list that is not full; the result is the recycled element.\<close>

definition ring_recycle :: "'a ring \<Rightarrow> ('a option \<times> 'a ring) option" where
  "ring_recycle r =
     (if rlen r \<noteq> maxLength r then None
      else
        (let r1 = fire (Trim 1) (r\<lparr>startIndex := Suc (startIndex r) mod maxLength r\<rparr>)
         in Some (ring_get r1 (rlen r - 1), r1)))"

definition ring_pop :: "'a ring \<Rightarrow> 'a option \<times> 'a ring" where
  "ring_pop r = (ring_get r (rlen r - 1), r\<lparr>rlen := rlen r - 1\<rparr>)"

definition move_up :: "nat \<Rightarrow> nat \<Rightarrow> 'a ring \<Rightarrow> 'a ring" where
  "move_up k n r = ring_set (n + k) (ring_get r n) r"

definition move_down :: "nat \<Rightarrow> nat \<Rightarrow> 'a ring \<Rightarrow> 'a ring" where
  "move_down k n r = ring_set n (ring_get r (n + k)) r"

definition ring_delete :: "nat \<Rightarrow> nat \<Rightarrow> 'a ring \<Rightarrow> 'a ring" where
  "ring_delete e i r =
     (if i = 0 then r
      else
        (let r1 = fold (move_down i) [e..<rlen r - i] r
         in fire (Deleted e i) (r1\<lparr>rlen := rlen r - i\<rparr>)))"

definition ring_insert :: "nat \<Rightarrow> 'a list \<Rightarrow> 'a ring \<Rightarrow> 'a ring" where
  "ring_insert e xs r =
     (let k = length xs;
          r1 = fold (move_up k) (rev [e..<rlen r]) r;
          r2 = fold (\<lambda>n r. ring_set (e + n) (Some (xs ! n)) r) [0..<k] r1;
          r3 = (if k \<noteq> 0 then fire (Inserted e k) r2 else r2)
      in if maxLength r < rlen r + k then
           (let n = rlen r + k - maxLength r
            in fire (Trim n) (r3\<lparr>startIndex := startIndex r + n, rlen := maxLength r\<rparr>))
         else r3\<lparr>rlen := rlen r + k\<rparr>)"

definition ring_splice :: "nat \<Rightarrow> nat \<Rightarrow> 'a list \<Rightarrow> 'a ring \<Rightarrow> 'a ring" where
  "ring_splice e i xs r = ring_insert e xs (ring_delete e i r)"

definition ring_trimStart :: "nat \<Rightarrow> 'a ring \<Rightarrow> 'a ring" where
  "ring_trimStart e r =
     (let n = (if rlen r < e then rlen r else e)
      in fire (Trim n) (r\<lparr>startIndex := startIndex r + n, rlen := rlen r - n\<rparr>))"

text \<open>
  \<open>shiftElements(start, count, offset)\<close> by an offset up or down; \<open>None\<close> is an error. A list that grows
  beyond its maximal length loses its first elements, one by one.
\<close>

definition grow_to :: "nat \<Rightarrow> 'a ring \<Rightarrow> 'a ring" where
  "grow_to m r =
     (let over = m - maxLength r
      in (fold (\<lambda>_ r. fire (Trim 1) r) [0..<over] r)
           \<lparr>startIndex := startIndex r + over, rlen := m - over\<rparr>)"

definition shift_up :: "nat \<Rightarrow> nat \<Rightarrow> nat \<Rightarrow> 'a ring \<Rightarrow> 'a ring option" where
  "shift_up s n k r =
     (if n = 0 then Some r
      else if rlen r \<le> s then None
      else
        (let r1 = fold (\<lambda>j. move_up k (s + j)) (rev [0..<n]) r
         in Some (if rlen r < s + n + k then grow_to (s + n + k) r1 else r1)))"

definition shift_down :: "nat \<Rightarrow> nat \<Rightarrow> nat \<Rightarrow> 'a ring \<Rightarrow> 'a ring option" where
  "shift_down s n k r =
     (if n = 0 then Some r
      else if rlen r \<le> s \<or> s < k then None
      else Some (fold (\<lambda>j. move_down k (s - k + j)) [0..<n] r))"

definition ring_items :: "'a ring \<Rightarrow> 'a list" where
  "ring_items r = map (\<lambda>i. the (ring_get r i)) [0..<rlen r]"

definition ring_wf :: "'a ring \<Rightarrow> bool" where
  "ring_wf r \<longleftrightarrow> 0 < maxLength r \<and> length (arr r) = maxLength r \<and> rlen r \<le> maxLength r \<and>
     (\<forall>i < rlen r. ring_get r i \<noteq> None)"

subsection \<open>Reading and writing\<close>

lemma fire_simps [simp]:
  "arr (fire e r) = arr r" "startIndex (fire e r) = startIndex r" "rlen (fire e r) = rlen r"
  "maxLength (fire e r) = maxLength r" "ring_get (fire e r) i = ring_get r i"
  by (simp_all add: fire_def ring_get_def cyclicIndex_def)

lemma ring_set_fields [simp]:
  "startIndex (ring_set i x r) = startIndex r" "rlen (ring_set i x r) = rlen r"
  "maxLength (ring_set i x r) = maxLength r" "length (arr (ring_set i x r)) = length (arr r)"
  "fired (ring_set i x r) = fired r"
  by (simp_all add: ring_set_def)

lemma mod_window: "a mod m = b mod m \<Longrightarrow> a \<le> b \<Longrightarrow> b < a + m \<Longrightarrow> a = (b :: nat)"
  by (metis add_diff_cancel_left' add_less_cancel_left le_add_diff_inverse mod_eq_dvd_iff_nat nat_dvd_not_less
      neq0_conv diff_is_0_eq' add.right_neutral)

lemma get_set:
  assumes "i < w + maxLength r" "w \<le> i" "j < w + maxLength r" "w \<le> j" "length (arr r) = maxLength r"
  shows "ring_get (ring_set i x r) j = (if i = j then x else ring_get r j)"
proof -
  have m: "0 < maxLength r" using assms by linarith
  have "cyclicIndex r i = cyclicIndex r j \<longleftrightarrow> i = j"
  proof (cases "i \<le> j")
    case True
    then show ?thesis using mod_window [of "startIndex r + i" "maxLength r" "startIndex r + j"] assms
      by (auto simp: cyclicIndex_def)
  next
    case False
    then show ?thesis using mod_window [of "startIndex r + j" "maxLength r" "startIndex r + i"] assms
      by (auto simp: cyclicIndex_def)
  qed
  moreover have "cyclicIndex r i < length (arr r)" using m assms by (simp add: cyclicIndex_def)
  moreover have "cyclicIndex (ring_set i x r) j = cyclicIndex r j" by (simp add: cyclicIndex_def)
  ultimately show ?thesis by (auto simp: ring_get_def ring_set_def nth_list_update)
qed

text \<open>The fields that a loop of writes leaves alone.\<close>

definition same_frame :: "'a ring \<Rightarrow> 'a ring \<Rightarrow> bool" where
  "same_frame r r' \<longleftrightarrow> startIndex r' = startIndex r \<and> rlen r' = rlen r \<and> maxLength r' = maxLength r \<and>
     length (arr r') = length (arr r) \<and> fired r' = fired r"

lemma same_frame_refl [simp]: "same_frame r r"
  by (simp add: same_frame_def)

lemma same_frame_fold: "(\<And>i r. same_frame r (f i r)) \<Longrightarrow> same_frame r (fold f is r)"
proof (induction "is" arbitrary: r)
  case (Cons i "is")
  then have "same_frame (f i r) (fold f is (f i r))" "same_frame r (f i r)" by blast+
  then show ?case by (simp add: same_frame_def)
qed simp

lemma same_frame_moves [simp]:
  "same_frame r (move_up k n r)" "same_frame r (move_down k n r)" "same_frame r (ring_set i x r)"
  by (simp_all add: same_frame_def move_up_def move_down_def)

lemma get_moved_up:
  assumes "length (arr r) = maxLength r" "w \<le> e" "m + k \<le> w + maxLength r" "w \<le> j" "j < w + maxLength r"
  shows "ring_get (fold (move_up k) (rev [e..<m]) r) j
    = (if e + k \<le> j \<and> j < m + k then ring_get r (j - k) else ring_get r j)"
  using assms
proof (induction m arbitrary: r)
  case (Suc m)
  show ?case
  proof (cases "e \<le> m")
    case True
    have "maxLength (move_up k m r) = maxLength r" "length (arr (move_up k m r)) = maxLength r"
      using Suc.prems by (simp_all add: move_up_def)
    moreover have "ring_get (move_up k m r) i = (if m + k = i then ring_get r m else ring_get r i)"
      if "w \<le> i" "i < w + maxLength r" for i
      using get_set [of "m + k" w r i] that Suc.prems True by (simp add: move_up_def)
    ultimately show ?thesis using Suc.IH [of "move_up k m r"] Suc.prems True by (auto simp: le_Suc_eq)
  qed (use Suc.prems in auto)
qed auto

lemma get_moved_down:
  assumes "length (arr r) = maxLength r" "w \<le> e" "m + k \<le> w + maxLength r" "w \<le> j" "j < w + maxLength r"
  shows "ring_get (fold (move_down k) [e..<m] r) j
    = (if e \<le> j \<and> j < m then ring_get r (j + k) else ring_get r j)"
  using assms
proof (induction "m - e" arbitrary: e r)
  case (Suc n)
  then have em: "e < m" "n = m - Suc e" by simp_all
  have "maxLength (move_down k e r) = maxLength r" "length (arr (move_down k e r)) = maxLength r"
    using Suc.prems by (simp_all add: move_down_def)
  moreover have "ring_get (move_down k e r) i = (if e = i then ring_get r (e + k) else ring_get r i)"
    if "w \<le> i" "i < w + maxLength r" for i
    using get_set [of e w r i] that Suc.prems em by (simp add: move_down_def)
  ultimately show ?case
    using Suc.hyps(1) [OF em(2), of "move_down k e r"] Suc.prems em by (auto simp: upt_conv_Cons)
qed auto

lemma get_written:
  assumes "length (arr r) = maxLength r" "w \<le> e" "e + k \<le> w + maxLength r" "w \<le> j" "j < w + maxLength r"
  shows "ring_get (fold (\<lambda>n r. ring_set (e + n) (Some (xs ! n)) r) [0..<k] r) j
    = (if e \<le> j \<and> j < e + k then Some (xs ! (j - e)) else ring_get r j)"
  using assms
proof (induction k)
  case (Suc k)
  let ?r = "fold (\<lambda>n r. ring_set (e + n) (Some (xs ! n)) r) [0..<k] r"
  have "same_frame r ?r" by (rule same_frame_fold) simp
  then show ?case using Suc get_set [of "e + k" w ?r j "Some (xs ! k)"] by (auto simp: same_frame_def)
qed auto

subsection \<open>The list of the elements\<close>

lemma length_ring_items [simp]: "length (ring_items r) = rlen r"
  by (simp add: ring_items_def)

lemma ring_items_nth: "i < rlen r \<Longrightarrow> ring_items r ! i = the (ring_get r i)"
  by (simp add: ring_items_def)

lemma ring_get_items: "ring_wf r \<Longrightarrow> i < rlen r \<Longrightarrow> ring_get r i = Some (ring_items r ! i)"
  by (auto simp: ring_wf_def ring_items_nth)

lemma ring_eqI:
  assumes "rlen r = length xs" "\<And>i. i < length xs \<Longrightarrow> ring_get r i = Some (xs ! i)"
    "0 < maxLength r" "length (arr r) = maxLength r" "length xs \<le> maxLength r"
  shows "ring_wf r \<and> ring_items r = xs"
  using assms by (auto simp: ring_wf_def ring_items_nth intro!: nth_equalityI)

lemma ring_wf_bounds: "ring_wf r \<Longrightarrow> rlen r \<le> maxLength r" "ring_wf r \<Longrightarrow> 0 < maxLength r"
  "ring_wf r \<Longrightarrow> length (arr r) = maxLength r"
  by (simp_all add: ring_wf_def)

lemma new_ring_items: "0 < m \<Longrightarrow> ring_wf (new_ring m) \<and> ring_items (new_ring m) = []"
  by (simp add: new_ring_def ring_wf_def ring_items_def)

lemma ring_set_items:
  assumes "ring_wf r" "i < rlen r"
  shows "ring_wf (ring_set i (Some x) r) \<and> ring_items (ring_set i (Some x) r) = (ring_items r)[i := x]"
proof (rule ring_eqI)
  fix j assume "j < length ((ring_items r)[i := x])"
  then show "ring_get (ring_set i (Some x) r) j = Some ((ring_items r)[i := x] ! j)"
    using get_set [of i 0 r j "Some x"] assms ring_wf_bounds [OF assms(1)] ring_get_items [OF assms(1), of j]
    by (auto simp: nth_list_update)
qed (use assms ring_wf_bounds [OF assms(1)] in auto)

text \<open>Moving the start drops elements.\<close>

lemma ring_advance:
  assumes "length (arr r) = maxLength r" "0 < maxLength r"
  shows "ring_get (r\<lparr>startIndex := (startIndex r + n) mod maxLength r, rlen := m\<rparr>) i = ring_get r (i + n)"
    "ring_get (r\<lparr>startIndex := startIndex r + n, rlen := m\<rparr>) i = ring_get r (i + n)"
    "ring_get (r\<lparr>startIndex := (startIndex r + n) mod maxLength r\<rparr>) i = ring_get r (i + n)"
  by (simp_all add: ring_get_def cyclicIndex_def mod_simps ac_simps)

lemma ring_push_items:
  assumes r: "ring_wf r"
  shows "ring_wf (ring_push x r) \<and> ring_items (ring_push x r)
    = (if isFull r then tl (ring_items r) @ [x] else ring_items r @ [x])"
proof -
  note b = ring_wf_bounds [OF r]
  let ?r = "ring_set (rlen r) (Some x) r"
  show ?thesis
  proof (cases "isFull r")
    case True
    then have full: "rlen r = maxLength r" by (simp add: isFull_def)
    have g: "ring_get ?r (i + 1) = (if Suc i = rlen r then Some x else ring_get r (i + 1))" if "i < rlen r" for i
      using get_set [of "rlen r" 1 r "i + 1" "Some x"] that full b by auto
    have "ring_wf (ring_push x r) \<and> ring_items (ring_push x r) = tl (ring_items r) @ [x]"
    proof (rule ring_eqI)
      fix i assume i: "i < length (tl (ring_items r) @ [x])"
      then have "ring_get (ring_push x r) i = ring_get ?r (i + 1)"
        using full b ring_advance(3) [of ?r 1 i] by (simp add: ring_push_def Let_def)
      then show "ring_get (ring_push x r) i = Some ((tl (ring_items r) @ [x]) ! i)"
        using g [of i] i full b ring_get_items [OF r, of "Suc i"]
        by (auto simp: nth_append nth_tl)
    qed (use full b in \<open>simp_all add: ring_push_def Let_def\<close>)
    then show ?thesis using True by simp
  next
    case False
    then have less: "rlen r < maxLength r" using b by (simp add: isFull_def)
    have g: "ring_get ?r i = (if i = rlen r then Some x else ring_get r i)" if "i \<le> rlen r" for i
      using get_set [of "rlen r" 0 r i "Some x"] that less b by auto
    have "ring_wf (ring_push x r) \<and> ring_items (ring_push x r) = ring_items r @ [x]"
    proof (rule ring_eqI)
      fix i assume i: "i < length (ring_items r @ [x])"
      have "ring_get (?r\<lparr>rlen := Suc (rlen r)\<rparr>) i = ring_get ?r i" by (simp add: ring_get_def cyclicIndex_def)
      then show "ring_get (ring_push x r) i = Some ((ring_items r @ [x]) ! i)"
        using g [of i] i less ring_get_items [OF r, of i] by (auto simp: ring_push_def Let_def nth_append)
    qed (use less b in \<open>simp_all add: ring_push_def Let_def\<close>)
    then show ?thesis using False by simp
  qed
qed

lemma ring_recycle_items:
  assumes r: "ring_wf r" and full: "isFull r"
  obtains r' where "ring_recycle r = Some (Some (hd (ring_items r)), r')" "ring_wf r'"
    "ring_items r' = tl (ring_items r) @ [hd (ring_items r)]" "maxLength r' = maxLength r"
proof -
  note b = ring_wf_bounds [OF r]
  let ?r = "fire (Trim 1) (r\<lparr>startIndex := Suc (startIndex r) mod maxLength r\<rparr>)"
  have len: "rlen r = maxLength r" using full by (simp add: isFull_def)
  have ne: "ring_items r \<noteq> []" using len b by (metis length_ring_items less_numeral_extra(3) list.size(3))
  have g: "ring_get ?r i = Some ((tl (ring_items r) @ [hd (ring_items r)]) ! i)" if "i < rlen r" for i
  proof -
    have "ring_get ?r i = ring_get r (i + 1)" using ring_advance(3) [of r 1 i] b by simp
    also have "\<dots> = (if Suc i = rlen r then ring_get r 0 else ring_get r (Suc i))"
    proof (cases "Suc i = rlen r")
      case True
      then have "startIndex r + (i + 1) = startIndex r + maxLength r" using len by simp
      then show ?thesis using True by (simp only: ring_get_def cyclicIndex_def) simp
    qed simp
    finally show ?thesis using that ring_get_items [OF r, of 0] ring_get_items [OF r, of "Suc i"] ne
      by (auto simp: nth_append nth_tl hd_conv_nth)
  qed
  have "ring_wf ?r \<and> ring_items ?r = tl (ring_items r) @ [hd (ring_items r)]"
    using g b len by (intro ring_eqI) simp_all
  moreover have "ring_get ?r (rlen r - 1) = Some (hd (ring_items r))"
    using g [of "rlen r - 1"] b len by (simp add: nth_append)
  ultimately show ?thesis using that len by (simp add: ring_recycle_def Let_def)
qed

lemma ring_trimStart_items:
  assumes r: "ring_wf r"
  shows "ring_wf (ring_trimStart n r) \<and> ring_items (ring_trimStart n r) = drop n (ring_items r)"
proof (rule ring_eqI)
  fix i assume "i < length (drop n (ring_items r))"
  moreover from this have "n \<le> rlen r" by simp
  ultimately show "ring_get (ring_trimStart n r) i = Some (drop n (ring_items r) ! i)"
    using ring_advance(2) [of r, where n = n and m = "rlen r - n" and i = i] ring_wf_bounds [OF r] ring_get_items [OF r, of "i + n"]
    by (simp add: ring_trimStart_def Let_def add.commute)
qed (use ring_wf_bounds [OF r] in \<open>auto simp: ring_trimStart_def Let_def\<close>)

lemma ring_pop_items:
  assumes r: "ring_wf r" and n: "0 < rlen r"
  shows "fst (ring_pop r) = Some (last (ring_items r)) \<and> ring_wf (snd (ring_pop r)) \<and>
    ring_items (snd (ring_pop r)) = butlast (ring_items r)"
proof -
  have "ring_wf (r\<lparr>rlen := rlen r - 1\<rparr>) \<and> ring_items (r\<lparr>rlen := rlen r - 1\<rparr>) = butlast (ring_items r)"
  proof (rule ring_eqI)
    fix i assume i: "i < length (butlast (ring_items r))"
    have "ring_get (r\<lparr>rlen := rlen r - 1\<rparr>) i = ring_get r i" by (simp add: ring_get_def cyclicIndex_def)
    then show "ring_get (r\<lparr>rlen := rlen r - 1\<rparr>) i = Some (butlast (ring_items r) ! i)"
      using ring_get_items [OF r, of i] i by (simp add: nth_butlast)
  qed (use ring_wf_bounds [OF r] in auto)
  moreover have "ring_items r \<noteq> []" using n by (metis length_ring_items less_numeral_extra(3) list.size(3))
  ultimately show ?thesis using n ring_get_items [OF r, of "rlen r - 1"] by (simp add: ring_pop_def last_conv_nth)
qed

lemma ring_rlen_get [simp]: "ring_get (r\<lparr>rlen := n\<rparr>) i = ring_get r i"
  by (simp add: ring_get_def cyclicIndex_def)

lemma ring_delete_items:
  assumes r: "ring_wf r" and e: "e + n \<le> rlen r"
  shows "ring_wf (ring_delete e n r) \<and> ring_items (ring_delete e n r) = take e (ring_items r) @ drop (e + n) (ring_items r)
    \<and> maxLength (ring_delete e n r) = maxLength r"
proof (cases "n = 0")
  case True
  then show ?thesis using r by (simp add: ring_delete_def)
next
  case False
  note b = ring_wf_bounds [OF r]
  let ?r = "fold (move_down n) [e..<rlen r - n] r"
  have f: "same_frame r ?r" by (rule same_frame_fold) simp
  have "ring_wf (ring_delete e n r) \<and>
      ring_items (ring_delete e n r) = take e (ring_items r) @ drop (e + n) (ring_items r)"
  proof (rule ring_eqI)
    fix i assume "i < length (take e (ring_items r) @ drop (e + n) (ring_items r))"
    then have i: "i < rlen r - n" using e by auto
    have "ring_get ?r i = (if e \<le> i then ring_get r (i + n) else ring_get r i)"
      using get_moved_down [of r 0 e "rlen r - n" n i] b e i by auto
    then show "ring_get (ring_delete e n r) i = Some ((take e (ring_items r) @ drop (e + n) (ring_items r)) ! i)"
      using False i e ring_get_items [OF r, of "i + n"] ring_get_items [OF r, of i]
      by (auto simp: ring_delete_def Let_def nth_append min_def ac_simps)
  qed (use f b e False in \<open>auto simp: ring_delete_def Let_def same_frame_def\<close>)
  then show ?thesis using f False by (simp add: ring_delete_def Let_def same_frame_def)
qed

lemma ring_insert_items:
  assumes r: "ring_wf r" and e: "e \<le> rlen r" and over: "rlen r + length xs - maxLength r \<le> e"
  shows "ring_wf (ring_insert e xs r) \<and>
    ring_items (ring_insert e xs r)
      = drop (rlen r + length xs - maxLength r) (take e (ring_items r) @ xs @ drop e (ring_items r)) \<and>
    maxLength (ring_insert e xs r) = maxLength r"
proof -
  note b = ring_wf_bounds [OF r]
  let ?k = "length xs" and ?w = "rlen r + length xs - maxLength r"
  let ?r1 = "fold (move_up ?k) (rev [e..<rlen r]) r"
  let ?r2 = "fold (\<lambda>n r. ring_set (e + n) (Some (xs ! n)) r) [0..<?k] ?r1"
  let ?ys = "take e (ring_items r) @ xs @ drop e (ring_items r)"
  have f1: "same_frame r ?r1" by (rule same_frame_fold) simp
  have "same_frame ?r1 ?r2" by (rule same_frame_fold) simp
  with f1 have f: "same_frame r ?r2" by (simp add: same_frame_def)
  have g: "ring_get ?r2 j = Some (?ys ! j)" if j: "?w \<le> j" "j < rlen r + ?k" for j
  proof -
    have j': "j < ?w + maxLength r" using j by simp
    have "ring_get ?r2 j = (if e \<le> j \<and> j < e + ?k then Some (xs ! (j - e)) else ring_get ?r1 j)"
      using get_written [of ?r1 ?w e ?k j xs] f1 over j j' b e by (simp add: same_frame_def)
    also have "ring_get ?r1 j = (if e + ?k \<le> j then ring_get r (j - ?k) else ring_get r j)"
      using get_moved_up [of r ?w e "rlen r" ?k j] over j j' b e by auto
    finally show ?thesis
      using j e ring_get_items [OF r, of "j - ?k"] ring_get_items [OF r, of j]
      by (auto simp: nth_append min_def)
  qed
  have "ring_wf (ring_insert e xs r) \<and> ring_items (ring_insert e xs r) = drop ?w ?ys"
  proof (rule ring_eqI)
    fix i assume "i < length (drop ?w ?ys)"
    then have i: "i + ?w < rlen r + ?k" using e by auto
    have "ring_get (ring_insert e xs r) i = ring_get ?r2 (i + ?w)"
    proof (cases "maxLength r < rlen r + ?k")
      case True
      moreover from this have "xs \<noteq> []" using b by auto
      ultimately show ?thesis using f b ring_advance(2) [of ?r2, where n = ?w and m = "maxLength r" and i = i]
        ring_advance(2) [of "fire (Inserted e ?k) ?r2", where n = ?w and m = "maxLength r" and i = i]
        by (simp add: ring_insert_def Let_def same_frame_def)
    qed (simp add: ring_insert_def Let_def)
    then show "ring_get (ring_insert e xs r) i = Some (drop ?w ?ys ! i)"
      using g [of "i + ?w"] i e by (simp add: add.commute del: drop_append)
  qed (use f b e in \<open>auto simp: ring_insert_def Let_def same_frame_def\<close>)
  moreover have "maxLength (ring_insert e xs r) = maxLength r"
    using f f1 by (cases "xs = []") (simp_all add: ring_insert_def Let_def same_frame_def)
  ultimately show ?thesis by simp
qed

lemma ring_splice_items:
  assumes r: "ring_wf r" and e: "e + n \<le> rlen r" and over: "rlen r - n + length xs - maxLength r \<le> e"
  shows "ring_wf (ring_splice e n xs r) \<and>
    ring_items (ring_splice e n xs r)
      = drop (rlen r - n + length xs - maxLength r) (take e (ring_items r) @ xs @ drop (e + n) (ring_items r)) \<and>
    maxLength (ring_splice e n xs r) = maxLength r"
proof -
  have d: "ring_wf (ring_delete e n r)" "maxLength (ring_delete e n r) = maxLength r"
    "ring_items (ring_delete e n r) = take e (ring_items r) @ drop (e + n) (ring_items r)"
    using ring_delete_items [OF r e] by simp_all
  have len: "rlen (ring_delete e n r) = rlen r - n"
    using arg_cong [OF d(3), of length] e by simp
  show ?thesis
    using ring_insert_items [OF d(1), of e xs] e over by (simp add: ring_splice_def len d)
qed

lemma ring_shift_down_items:
  assumes r: "ring_wf r" and s: "k \<le> s" "s + n \<le> rlen r" "0 < n"
  obtains r' where "shift_down s n k r = Some r'" "ring_wf r'" "maxLength r' = maxLength r"
    "ring_items r' = take (s - k) (ring_items r) @ take n (drop s (ring_items r)) @ drop (s - k + n) (ring_items r)"
proof -
  note b = ring_wf_bounds [OF r]
  let ?r = "fold (\<lambda>j. move_down k (s - k + j)) [0..<n] r"
  have "fold (\<lambda>j. move_down k (s - k + j)) [0..<m] r = fold (move_down k) [s - k..<s - k + m] r" for m :: nat and r :: "'a ring"
    by (induction m arbitrary: r) simp_all
  then have eq: "?r = fold (move_down k) [s - k..<s - k + n] r" by simp
  have f: "same_frame r ?r" by (rule same_frame_fold) simp
  have "ring_wf ?r \<and> ring_items ?r
      = take (s - k) (ring_items r) @ take n (drop s (ring_items r)) @ drop (s - k + n) (ring_items r)" (is "_ \<and> _ = ?ys")
  proof (rule ring_eqI)
    fix i assume "i < length ?ys"
    then have i: "i < rlen r" using s by auto
    have "ring_get ?r i = (if s - k \<le> i \<and> i < s - k + n then ring_get r (i + k) else ring_get r i)"
      unfolding eq using get_moved_down [of r 0 "s - k" "s - k + n" k i] b s i by simp
    then show "ring_get ?r i = Some (?ys ! i)"
      using i s ring_get_items [OF r, of "i + k"] ring_get_items [OF r, of i]
      by (auto simp: nth_append min_absorb2 ac_simps)
  qed (use f b s in \<open>auto simp: same_frame_def\<close>)
  then show ?thesis using that f s by (auto simp: shift_down_def same_frame_def)
qed

lemma ring_shift_up_items:
  assumes r: "ring_wf r" and s: "s + n + k \<le> rlen r" "0 < n"
  obtains r' where "shift_up s n k r = Some r'" "ring_wf r'" "maxLength r' = maxLength r"
    "ring_items r' = take (s + k) (ring_items r) @ take n (drop s (ring_items r)) @ drop (s + k + n) (ring_items r)"
proof -
  note b = ring_wf_bounds [OF r]
  let ?r = "fold (\<lambda>j. move_up k (s + j)) (rev [0..<n]) r"
  have "fold (\<lambda>j. move_up k (s + j)) (rev [0..<m]) r = fold (move_up k) (rev [s..<s + m]) r" for m :: nat and r :: "'a ring"
    by (induction m arbitrary: r) simp_all
  then have eq: "?r = fold (move_up k) (rev [s..<s + n]) r" by simp
  have f: "same_frame r ?r" by (rule same_frame_fold) simp
  have "ring_wf ?r \<and> ring_items ?r
      = take (s + k) (ring_items r) @ take n (drop s (ring_items r)) @ drop (s + k + n) (ring_items r)" (is "_ \<and> _ = ?ys")
  proof (rule ring_eqI)
    fix i assume "i < length ?ys"
    then have i: "i < rlen r" using s by auto
    have "ring_get ?r i = (if s + k \<le> i \<and> i < s + n + k then ring_get r (i - k) else ring_get r i)"
      unfolding eq using get_moved_up [of r 0 s "s + n" k i] b s i by simp
    then show "ring_get ?r i = Some (?ys ! i)"
      using i s ring_get_items [OF r, of "i - k"] ring_get_items [OF r, of i]
      by (auto simp: nth_append min_absorb2 ac_simps)
  qed (use f b s in \<open>auto simp: same_frame_def\<close>)
  then show ?thesis using that f s by (auto simp: shift_up_def same_frame_def)
qed

end
