(* ===== verification/Xterm_Buffer.thy ===== *)
theory Xterm_Buffer
  imports Xterm_Line Xterm_Ring
begin

text \<open>
  The buffers of the terminal: \<open>Buffer\<close> (\<open>$i\<close> in the bundle), the pair of the normal and the alternate buffer
  (\<open>BufferSet\<close>, \<open>hn\<close>) and the scrolling of \<open>BufferService\<close> (\<open>ni\<close>).

  Rows and columns are integers. A line is read through the ring of lines; an index that the ring does not
  hold gives \<open>None\<close>, and using it is a \<open>TypeError\<close>: the operations that can throw return an option.
  A marker is the number of the hyperlink it belongs to and its line; the buffer lists the markers that are
  not disposed, and each change of the lines settles them by the events that the ring fires.
\<close>

type_synonym charset = "cp \<rightharpoonup> cp"
type_synonym marker = "nat \<times> int"

record buffer =
  lines :: "line ring"
  ydisp :: int
  ybase :: int
  cy :: int
  cx :: int
  scrollTop :: int
  scrollBottom :: int
  tabs :: "int set"
  savedX :: int
  savedY :: int
  savedAttr :: attr
  savedCharset :: "charset option"
  b_cols :: int
  b_rows :: int
  hasScrollback :: bool
  markers :: "marker list"

subsection \<open>Cells and lines for a buffer\<close>

definition getNullCell :: "attr \<Rightarrow> cell" where
  "getNullCell a = null_cell\<lparr>fg := fg a, bg := bg a, extended := extended a\<rparr>"

definition getWhitespaceCell :: "attr \<Rightarrow> cell" where
  "getWhitespaceCell a = (fromCharData (0, [32], 1))\<lparr>fg := fg a, bg := bg a, extended := extended a\<rparr>"

definition getBlankLine :: "int \<Rightarrow> attr \<Rightarrow> bool \<Rightarrow> line" where
  "getBlankLine cols a wrapped = new_line cols (Some (getNullCell a)) wrapped"

definition correctBufferLength :: "bool \<Rightarrow> int \<Rightarrow> int \<Rightarrow> int" where
  "correctBufferLength scrollback_buffer scrollback rows =
     (if scrollback_buffer then (if rows + scrollback > 4294967295 then 4294967295 else rows + scrollback) else rows)"

subsection \<open>Markers\<close>

text \<open>The listeners of \<open>addMarker\<close>: where an event moves a marker; a disposed one is gone.\<close>

definition marker_line :: "ring_event \<Rightarrow> int \<Rightarrow> int option" where
  "marker_line e l =
     (case e of
        Trim n \<Rightarrow> if l - int n < 0 then None else Some (l - int n)
      | Inserted i n \<Rightarrow> Some (if int i \<le> l then l + int n else l)
      | Deleted i n \<Rightarrow>
          (if int i \<le> l \<and> l < int i + int n then None else Some (if int i < l then l - int n else l)))"

definition settle_marker :: "ring_event \<Rightarrow> marker list \<Rightarrow> marker list" where
  "settle_marker e = List.map_filter (\<lambda>(k, l). map_option (Pair k) (marker_line e l))"

definition update_lines :: "(line ring \<Rightarrow> line ring) \<Rightarrow> buffer \<Rightarrow> buffer" where
  "update_lines f b =
     (let r = f ((lines b)\<lparr>fired := []\<rparr>)
      in b\<lparr>lines := r, markers := fold settle_marker (fired r) (markers b)\<rparr>)"

definition addMarker :: "nat \<Rightarrow> int \<Rightarrow> buffer \<Rightarrow> buffer" where
  "addMarker k l b = b\<lparr>markers := markers b @ [(k, l)]\<rparr>"

definition clearMarkers :: "int \<Rightarrow> buffer \<Rightarrow> buffer" where
  "clearMarkers l b = b\<lparr>markers := filter (\<lambda>m. snd m \<noteq> l) (markers b)\<rparr>"

definition clearAllMarkers :: "buffer \<Rightarrow> buffer" where
  "clearAllMarkers b = b\<lparr>markers := []\<rparr>"

subsection \<open>Tab stops\<close>

function stops_from :: "int \<Rightarrow> int \<Rightarrow> int \<Rightarrow> int set" where
  "stops_from w c t = (if t < c \<and> 0 < w then insert t (stops_from w c (t + w)) else {})"
  by pat_completeness auto
termination by (relation "measure (\<lambda>(w, c, t). nat (c - t))") auto

function prev_loop :: "int set \<Rightarrow> int \<Rightarrow> int" where
  "prev_loop ts t = (if t - 1 \<notin> ts \<and> 0 < t - 1 then prev_loop ts (t - 1) else t - 1)"
  by pat_completeness auto
termination by (relation "measure (\<lambda>(ts, t). nat t)") auto

function next_loop :: "int set \<Rightarrow> int \<Rightarrow> int \<Rightarrow> int" where
  "next_loop ts c t = (if t + 1 \<notin> ts \<and> t + 1 < c then next_loop ts c (t + 1) else t + 1)"
  by pat_completeness auto
termination by (relation "measure (\<lambda>(ts, c, t). nat (c - t))") auto

declare stops_from.simps [simp del] prev_loop.simps [simp del] next_loop.simps [simp del]

definition clamp_stop :: "int \<Rightarrow> int \<Rightarrow> int" where
  "clamp_stop c t = (if c \<le> t then c - 1 else if t < 0 then 0 else t)"

definition prevStop :: "buffer \<Rightarrow> int \<Rightarrow> int" where
  "prevStop b t = clamp_stop (b_cols b) (prev_loop (tabs b) t)"

definition nextStop :: "buffer \<Rightarrow> int \<Rightarrow> int" where
  "nextStop b t = clamp_stop (b_cols b) (next_loop (tabs b) (b_cols b) t)"

definition setupTabStops :: "int \<Rightarrow> int option \<Rightarrow> buffer \<Rightarrow> buffer" where
  "setupTabStops w at b =
     (case at of
        None \<Rightarrow> b\<lparr>tabs := stops_from w (b_cols b) 0\<rparr>
      | Some t \<Rightarrow> b\<lparr>tabs := tabs b \<union> stops_from w (b_cols b) (if t \<in> tabs b then t else prevStop b t)\<rparr>)"

subsection \<open>Creating and clearing\<close>

definition blank_buffer :: "bool \<Rightarrow> int \<Rightarrow> int \<Rightarrow> int \<Rightarrow> int \<Rightarrow> buffer" where
  "blank_buffer scrollback_buffer scrollback w cols rows =
     setupTabStops w None
       \<lparr>lines = new_ring (nat (correctBufferLength scrollback_buffer scrollback rows)),
        ydisp = 0, ybase = 0, cy = 0, cx = 0, scrollTop = 0, scrollBottom = rows - 1, tabs = {},
        savedX = 0, savedY = 0, savedAttr = default_attr, savedCharset = None,
        b_cols = cols, b_rows = rows, hasScrollback = scrollback_buffer, markers = []\<rparr>"

definition fillViewportRows :: "int \<Rightarrow> attr \<Rightarrow> buffer \<Rightarrow> buffer" where
  "fillViewportRows cols a b =
     (if rlen (lines b) = 0 then
        update_lines (ring_push (getBlankLine cols a False) ^^ nat (b_rows b)) b
      else b)"

definition buffer_clear :: "int \<Rightarrow> int \<Rightarrow> buffer \<Rightarrow> buffer" where
  "buffer_clear scrollback w b =
     setupTabStops w None
       (b\<lparr>ydisp := 0, ybase := 0, cy := 0, cx := 0,
          lines := new_ring (nat (correctBufferLength (hasScrollback b) scrollback (b_rows b))),
          scrollTop := 0, scrollBottom := b_rows b - 1\<rparr>)"

subsection \<open>Lines\<close>

definition lines_get :: "buffer \<Rightarrow> int \<Rightarrow> line option" where
  "lines_get b i = (if i < 0 then None else ring_get (lines b) (nat i))"

text \<open>Calling a method of the line at an index, which must exist.\<close>

definition with_line :: "int \<Rightarrow> (line \<Rightarrow> line) \<Rightarrow> buffer \<Rightarrow> buffer option" where
  "with_line i f b =
     (case lines_get b i of
        None \<Rightarrow> None
      | Some l \<Rightarrow> Some (update_lines (ring_set (nat i) (Some (f l))) b))"

definition put_line :: "int \<Rightarrow> line \<Rightarrow> buffer \<Rightarrow> buffer" where
  "put_line i l = update_lines (ring_set (nat i) (Some l))"

definition lines_splice :: "int \<Rightarrow> nat \<Rightarrow> line list \<Rightarrow> buffer \<Rightarrow> buffer" where
  "lines_splice i n ls = update_lines (ring_splice (nat i) n ls)"

text \<open>\<open>shiftElements\<close>, an error outside the list.\<close>

definition lines_shift :: "int \<Rightarrow> int \<Rightarrow> int \<Rightarrow> buffer \<Rightarrow> buffer option" where
  "lines_shift i n k b =
     (let f = (if 0 < k then shift_up (nat i) (nat n) (nat k) else shift_down (nat i) (nat n) (nat (- k)))
      in case f (lines b) of
           None \<Rightarrow> None
         | Some _ \<Rightarrow> Some (update_lines (\<lambda>r. case f r of None \<Rightarrow> r | Some r' \<Rightarrow> r') b))"

definition translateBufferLineToString :: "int \<Rightarrow> bool \<Rightarrow> int \<Rightarrow> int option \<Rightarrow> buffer \<Rightarrow> ustring" where
  "translateBufferLineToString i trimRight a e b =
     (case lines_get b i of
        None \<Rightarrow> []
      | Some l \<Rightarrow> translateToString trimRight a (case e of None \<Rightarrow> line_length l | Some e \<Rightarrow> e) l)"

definition wrapped_at :: "buffer \<Rightarrow> int \<Rightarrow> bool" where
  "wrapped_at b i = (case lines_get b i of None \<Rightarrow> False | Some l \<Rightarrow> isWrapped l)"

fun range_first :: "nat \<Rightarrow> buffer \<Rightarrow> int \<Rightarrow> int" where
  "range_first 0 b i = i"
| "range_first (Suc k) b i = (if 0 < i \<and> wrapped_at b i then range_first k b (i - 1) else i)"

fun range_last :: "nat \<Rightarrow> buffer \<Rightarrow> int \<Rightarrow> int" where
  "range_last 0 b i = i"
| "range_last (Suc k) b i =
     (if i + 1 < int (rlen (lines b)) \<and> wrapped_at b (i + 1) then range_last k b (i + 1) else i)"

definition getWrappedRangeForLine :: "buffer \<Rightarrow> int \<Rightarrow> int \<times> int" where
  "getWrappedRangeForLine b i = (range_first (nat i) b i, range_last (rlen (lines b)) b i)"

subsection \<open>Scrolling\<close>

text \<open>
  The part of the buffer service that scrolling uses. The blank line is cached between calls; the cached
  line is cloned, so it is a value here.
\<close>

record screen =
  cols :: int
  rows :: int
  isUserScrolling :: bool
  cachedBlankLine :: "line option"

definition blank_for_scroll :: "attr \<Rightarrow> bool \<Rightarrow> 'a screen_scheme \<Rightarrow> line" where
  "blank_for_scroll a wrapped s =
     (case cachedBlankLine s of
        None \<Rightarrow> getBlankLine (cols s) a wrapped
      | Some n \<Rightarrow>
          (if line_length n \<noteq> cols s \<or> getFg n 0 \<noteq> fg a \<or> getBg n 0 \<noteq> bg a then getBlankLine (cols s) a wrapped
           else n\<lparr>isWrapped := wrapped\<rparr>))"

definition lines_recycle :: "line \<Rightarrow> buffer \<Rightarrow> buffer option" where
  "lines_recycle n b =
     (case ring_recycle (lines b) of
        Some (Some old, _) \<Rightarrow>
          Some (update_lines
            (\<lambda>r. case ring_recycle r of
                   None \<Rightarrow> r
                 | Some (_, r') \<Rightarrow> ring_set (rlen r' - 1) (Some (copyFrom n old)) r') b)
      | _ \<Rightarrow> None)"

definition scroll_lines :: "line \<Rightarrow> buffer \<Rightarrow> buffer option" where
  "scroll_lines n b =
     (let o2 = ybase b + scrollTop b;
          l = ybase b + scrollBottom b
      in if scrollTop b = 0 then
           (if l = int (rlen (lines b)) - 1 then
              (if isFull (lines b) then lines_recycle n b
               else Some (update_lines (ring_push (line_clone n)) b))
            else Some (lines_splice (l + 1) 0 [line_clone n] b))
         else
           map_option (put_line l (line_clone n)) (lines_shift (o2 + 1) (l - o2) (-1) b))"

definition scroll_position :: "bool \<Rightarrow> bool \<Rightarrow> buffer \<Rightarrow> buffer" where
  "scroll_position user full b =
     (if scrollTop b = 0 then
        (if full then (if user then b\<lparr>ydisp := max (ydisp b - 1) 0\<rparr> else b)
         else b\<lparr>ybase := ybase b + 1, ydisp := (if user then ydisp b else ydisp b + 1)\<rparr>)
      else b)"

text \<open>\<open>scroll\<close> on the active buffer; the event \<open>onScroll\<close> carries the new \<open>ydisp\<close>.\<close>

definition buffer_scroll :: "attr \<Rightarrow> bool \<Rightarrow> 'a screen_scheme \<Rightarrow> buffer \<Rightarrow> ('a screen_scheme \<times> buffer) option" where
  "buffer_scroll a wrapped s b =
     (let n = blank_for_scroll a wrapped s;
          s' = s\<lparr>cachedBlankLine := Some n\<rparr>;
          full = isFull (lines b)
      in map_option
           (\<lambda>b1. (let b2 = scroll_position (isUserScrolling s) full b1
                  in (s', if isUserScrolling s then b2 else b2\<lparr>ydisp := ybase b2\<rparr>)))
           (scroll_lines n b))"

text \<open>\<open>scrollLines(disp)\<close>: the user scrolls the viewport.\<close>

definition scrollLines :: "int \<Rightarrow> 'a screen_scheme \<Rightarrow> buffer \<Rightarrow> 'a screen_scheme \<times> buffer" where
  "scrollLines e s b =
     (if e < 0 \<and> ydisp b = 0 then (s, b)
      else
        (let s' = (if e < 0 then s\<lparr>isUserScrolling := True\<rparr>
                   else if ybase b \<le> e + ydisp b then s\<lparr>isUserScrolling := False\<rparr> else s)
         in (s', b\<lparr>ydisp := max (min (ydisp b + e) (ybase b)) 0\<rparr>)))"

end
