(* ===== verification/Xterm_Width.thy ===== *)
theory Xterm_Width
  imports Xterm_Decode
begin

text \<open>
  The width of characters in the terminal (\<open>UnicodeV6\<close>, \<open>fn\<close> in the bundle, and the packed character
  properties of \<open>UnicodeService\<close>, \<open>Ae\<close>): 0 for control and combining characters, 2 for wide ones, else 1.
\<close>

unbundle bit_operations_syntax

subsection \<open>The tables\<close>

definition bmp_combining :: "(nat \<times> nat) list" where
  "bmp_combining =
    [(768, 879), (1155, 1158), (1160, 1161), (1425, 1469), (1471, 1471), (1473, 1474), (1476, 1477),
     (1479, 1479), (1536, 1539), (1552, 1557), (1611, 1630), (1648, 1648), (1750, 1764), (1767, 1768),
     (1770, 1773), (1807, 1807), (1809, 1809), (1840, 1866), (1958, 1968), (2027, 2035), (2305, 2306),
     (2364, 2364), (2369, 2376), (2381, 2381), (2385, 2388), (2402, 2403), (2433, 2433), (2492, 2492),
     (2497, 2500), (2509, 2509), (2530, 2531), (2561, 2562), (2620, 2620), (2625, 2626), (2631, 2632),
     (2635, 2637), (2672, 2673), (2689, 2690), (2748, 2748), (2753, 2757), (2759, 2760), (2765, 2765),
     (2786, 2787), (2817, 2817), (2876, 2876), (2879, 2879), (2881, 2883), (2893, 2893), (2902, 2902),
     (2946, 2946), (3008, 3008), (3021, 3021), (3134, 3136), (3142, 3144), (3146, 3149), (3157, 3158),
     (3260, 3260), (3263, 3263), (3270, 3270), (3276, 3277), (3298, 3299), (3393, 3395), (3405, 3405),
     (3530, 3530), (3538, 3540), (3542, 3542), (3633, 3633), (3636, 3642), (3655, 3662), (3761, 3761),
     (3764, 3769), (3771, 3772), (3784, 3789), (3864, 3865), (3893, 3893), (3895, 3895), (3897, 3897),
     (3953, 3966), (3968, 3972), (3974, 3975), (3984, 3991), (3993, 4028), (4038, 4038), (4141, 4144),
     (4146, 4146), (4150, 4151), (4153, 4153), (4184, 4185), (4448, 4607), (4959, 4959), (5906, 5908),
     (5938, 5940), (5970, 5971), (6002, 6003), (6068, 6069), (6071, 6077), (6086, 6086), (6089, 6099),
     (6109, 6109), (6155, 6157), (6313, 6313), (6432, 6434), (6439, 6440), (6450, 6450), (6457, 6459),
     (6679, 6680), (6912, 6915), (6964, 6964), (6966, 6970), (6972, 6972), (6978, 6978), (7019, 7027),
     (7616, 7626), (7678, 7679), (8203, 8207), (8234, 8238), (8288, 8291), (8298, 8303), (8400, 8431),
     (12330, 12335), (12441, 12442), (43014, 43014), (43019, 43019), (43045, 43046), (64286, 64286),
     (65024, 65039), (65056, 65059), (65279, 65279), (65529, 65531)]"

definition high_combining :: "(nat \<times> nat) list" where
  "high_combining =
    [(68097, 68099), (68101, 68102), (68108, 68111), (68152, 68154), (68159, 68159), (119143, 119145),
     (119155, 119170), (119173, 119179), (119210, 119213), (119362, 119364), (917505, 917505),
     (917536, 917631), (917760, 917999)]"

text \<open>\<open>table.fill(value, from, to)\<close>, in the order of the constructor.\<close>

definition bmp_fills :: "(nat \<times> nat \<times> nat) list" where
  "bmp_fills =
     [(1, 0, 65536), (0, 0, 1), (0, 1, 32), (0, 127, 160), (2, 4352, 4448), (2, 9001, 9002), (2, 9002, 9003),
      (2, 11904, 42192), (1, 12351, 12352), (2, 44032, 55204), (2, 63744, 64256), (2, 65040, 65050),
      (2, 65072, 65136), (2, 65280, 65377), (2, 65504, 65511)]"

definition fill_entry :: "nat \<Rightarrow> nat \<times> nat \<times> nat \<Rightarrow> nat \<Rightarrow> nat" where
  "fill_entry c f w = (case f of (v, lo, hi) \<Rightarrow> if lo \<le> c \<and> c < hi then v else w)"

definition bmp_width :: "nat \<Rightarrow> nat" where
  "bmp_width c =
     fold (fill_entry c) (bmp_fills @ map (\<lambda>(lo, hi). (0, lo, hi + 1)) bmp_combining) 0"

subsection \<open>Binary search\<close>

text \<open>\<open>bisearch(ucs, data)\<close> (\<open>cc\<close>): the loop over the bounds \<open>e\<close> and \<open>i\<close>.\<close>

function bisearch_loop :: "nat \<Rightarrow> (nat \<times> nat) list \<Rightarrow> int \<Rightarrow> int \<Rightarrow> bool" where
  "bisearch_loop c t e i =
     (if i < e then False
      else
        (let r = (e + i) div 2
         in if snd (t ! nat r) < c then bisearch_loop c t (r + 1) i
            else if c < fst (t ! nat r) then bisearch_loop c t e (r - 1)
            else True))"
  by pat_completeness auto
termination
  by (relation "measure (\<lambda>(c, t, e, i). nat (i - e + 1))") auto

declare bisearch_loop.simps [simp del]

definition bisearch :: "nat \<Rightarrow> (nat \<times> nat) list \<Rightarrow> bool" where
  "bisearch c t =
     (if c < fst (t ! 0) \<or> snd (t ! (length t - 1)) < c then False
      else bisearch_loop c t 0 (int (length t) - 1))"

subsection \<open>Widths and properties\<close>

definition wcwidth :: "nat \<Rightarrow> nat" where
  "wcwidth c =
     (if c < 32 then 0 else if c < 127 then 1 else if c < 65536 then bmp_width c
      else if bisearch c high_combining then 0
      else if 131072 \<le> c \<and> c \<le> 196605 \<or> 196608 \<le> c \<and> c \<le> 262141 then 2
      else 1)"

text \<open>The properties of a character: its kind, its width and whether it joins the one before.\<close>

definition createPropertyValue :: "nat \<Rightarrow> nat \<Rightarrow> bool \<Rightarrow> nat" where
  "createPropertyValue kind w join =
     push_bit 3 (kind AND 16777215) OR push_bit 1 (w AND 3) OR (if join then 1 else 0)"

definition extractShouldJoin :: "nat \<Rightarrow> bool" where "extractShouldJoin v \<longleftrightarrow> v AND 1 \<noteq> 0"
definition extractWidth :: "nat \<Rightarrow> nat" where "extractWidth v = drop_bit 1 v AND 3"
definition extractCharKind :: "nat \<Rightarrow> nat" where "extractCharKind v = drop_bit 3 v"

definition charProperties :: "nat \<Rightarrow> nat \<Rightarrow> nat" where
  "charProperties c preceding =
     (let w = wcwidth c;
          join = (w = 0 \<and> preceding \<noteq> 0);
          n = extractWidth preceding
      in if join then
           (if n = 0 then createPropertyValue 0 w False
            else createPropertyValue 0 (if w < n then n else w) True)
         else createPropertyValue 0 w False)"

text \<open>\<open>getStringCellWidth\<close>; a high surrogate at the end counts by itself.\<close>

definition width_round :: "nat \<Rightarrow> nat \<Rightarrow> int \<times> nat" where
  "width_round c prev =
     (let p = charProperties c prev;
          w = int (extractWidth p)
      in (if extractShouldJoin p then w - int (extractWidth prev) else w, p))"

fun string_width :: "ustring \<Rightarrow> nat \<Rightarrow> int" where
  "string_width [] prev = 0"
| "string_width [c] prev =
     (if high_surrogate c then int (wcwidth (unat c)) else fst (width_round (unat c) prev))"
| "string_width (c # d # rest) prev =
     (if high_surrogate c then
        (if low_surrogate d then
           (let (w, p) = width_round (surrogate_pair c d) prev in w + string_width rest p)
         else
           (let (w, p) = width_round (unat c) prev in int (wcwidth (unat d)) + w + string_width rest p))
      else (let (w, p) = width_round (unat c) prev in w + string_width (d # rest) p))"

definition getStringCellWidth :: "ustring \<Rightarrow> int" where
  "getStringCellWidth s = string_width s 0"

subsection \<open>The search finds exactly the table's characters\<close>

definition sorted_ranges :: "(nat \<times> nat) list \<Rightarrow> bool" where
  "sorted_ranges t \<longleftrightarrow> (\<forall>r \<in> set t. fst r \<le> snd r) \<and> sorted_wrt (\<lambda>r s. snd r < fst s) t"

definition in_ranges :: "nat \<Rightarrow> (nat \<times> nat) list \<Rightarrow> bool" where
  "in_ranges c t \<longleftrightarrow> (\<exists>r \<in> set t. fst r \<le> c \<and> c \<le> snd r)"

lemma sorted_ranges_less:
  assumes "sorted_ranges t" "i < j" "j < length t"
  shows "snd (t ! i) < fst (t ! j)"
  using assms by (auto simp: sorted_ranges_def sorted_wrt_iff_nth_less)

lemma sorted_ranges_proper: "sorted_ranges t \<Longrightarrow> i < length t \<Longrightarrow> fst (t ! i) \<le> snd (t ! i)"
  by (auto simp: sorted_ranges_def)

lemma sorted_ranges_first: "sorted_ranges t \<Longrightarrow> k < length t \<Longrightarrow> fst (t ! 0) \<le> fst (t ! k)"
  using sorted_ranges_less [of t 0 k] sorted_ranges_proper [of t 0] by (cases "k = 0") force+

lemma sorted_ranges_last: "sorted_ranges t \<Longrightarrow> k < length t \<Longrightarrow> snd (t ! k) \<le> snd (t ! (length t - 1))"
  using sorted_ranges_less [of t k "length t - 1"] sorted_ranges_proper [of t "length t - 1"]
  by (cases "k = length t - 1") force+

lemma bisearch_loop_correct:
  assumes "sorted_ranges t" "0 \<le> e" "i < int (length t)"
  shows "bisearch_loop c t e i \<longleftrightarrow> (\<exists>k. e \<le> int k \<and> int k \<le> i \<and> fst (t ! k) \<le> c \<and> c \<le> snd (t ! k))"
  using assms
proof (induction c t e i rule: bisearch_loop.induct)
  case (1 c t e i)
  show ?case
  proof (cases "i < e")
    case False
    let ?r = "(e + i) div 2"
    have r: "e \<le> ?r" "?r \<le> i" "nat ?r < length t" using False 1(4,5) by auto
    have below: "snd (t ! k) \<le> snd (t ! nat ?r)" if "k \<le> nat ?r" for k
      using sorted_ranges_less [OF 1(3), of k "nat ?r"] sorted_ranges_proper [OF 1(3), of "nat ?r"] that r
      by (cases "k = nat ?r") auto
    have above: "fst (t ! nat ?r) \<le> fst (t ! k)" if "nat ?r \<le> k" "k < length t" for k
      using sorted_ranges_less [OF 1(3), of "nat ?r" k] sorted_ranges_proper [OF 1(3), of "nat ?r"] that r
      by (cases "k = nat ?r") auto
    consider "snd (t ! nat ?r) < c" | "\<not> snd (t ! nat ?r) < c" "c < fst (t ! nat ?r)"
      | "\<not> snd (t ! nat ?r) < c" "\<not> c < fst (t ! nat ?r)" by blast
    then show ?thesis
    proof cases
      case 1
      then have "bisearch_loop c t e i \<longleftrightarrow> bisearch_loop c t (?r + 1) i"
        using False by (subst bisearch_loop.simps) (simp add: Let_def)
      also have "\<dots> \<longleftrightarrow> (\<exists>k. ?r + 1 \<le> int k \<and> int k \<le> i \<and> fst (t ! k) \<le> c \<and> c \<le> snd (t ! k))"
        using "1.IH"(1) [OF False refl 1] 1(1) "1.prems" r by simp
      also have "\<dots> \<longleftrightarrow> (\<exists>k. e \<le> int k \<and> int k \<le> i \<and> fst (t ! k) \<le> c \<and> c \<le> snd (t ! k))"
      proof (intro iff_exI)
        fix k
        have "k \<le> nat ?r \<Longrightarrow> \<not> c \<le> snd (t ! k)" using below [of k] 1(1) by linarith
        then have "\<not> ?r + 1 \<le> int k \<Longrightarrow> \<not> c \<le> snd (t ! k)" using "1.prems" r by linarith
        then show "(?r + 1 \<le> int k \<and> int k \<le> i \<and> fst (t ! k) \<le> c \<and> c \<le> snd (t ! k))
          \<longleftrightarrow> (e \<le> int k \<and> int k \<le> i \<and> fst (t ! k) \<le> c \<and> c \<le> snd (t ! k))" using r by auto
      qed
      finally show ?thesis .
    next
      case 2
      then have "bisearch_loop c t e i \<longleftrightarrow> bisearch_loop c t e (?r - 1)"
        using False by (subst bisearch_loop.simps) (simp add: Let_def)
      also have "\<dots> \<longleftrightarrow> (\<exists>k. e \<le> int k \<and> int k \<le> ?r - 1 \<and> fst (t ! k) \<le> c \<and> c \<le> snd (t ! k))"
        using "1.IH"(2) [OF False refl 2] "1.prems" r by simp
      also have "\<dots> \<longleftrightarrow> (\<exists>k. e \<le> int k \<and> int k \<le> i \<and> fst (t ! k) \<le> c \<and> c \<le> snd (t ! k))"
      proof (intro iff_exI)
        fix k
        have "nat ?r \<le> k \<Longrightarrow> k < length t \<Longrightarrow> \<not> fst (t ! k) \<le> c" using above [of k] 2(2) by linarith
        then have "\<not> int k \<le> ?r - 1 \<Longrightarrow> int k \<le> i \<Longrightarrow> \<not> fst (t ! k) \<le> c" using "1.prems" r by linarith
        then show "(e \<le> int k \<and> int k \<le> ?r - 1 \<and> fst (t ! k) \<le> c \<and> c \<le> snd (t ! k))
          \<longleftrightarrow> (e \<le> int k \<and> int k \<le> i \<and> fst (t ! k) \<le> c \<and> c \<le> snd (t ! k))" using r by auto
      qed
      finally show ?thesis .
    next
      case 3
      then have "bisearch_loop c t e i"
        using False by (subst bisearch_loop.simps) (simp add: Let_def)
      moreover have "\<exists>k. e \<le> int k \<and> int k \<le> i \<and> fst (t ! k) \<le> c \<and> c \<le> snd (t ! k)"
        using 3 r "1.prems"(2) by (intro exI [of _ "nat ?r"]) auto
      ultimately show ?thesis by simp
    qed
  qed (subst bisearch_loop.simps, auto)
qed

lemma bisearch_correct:
  assumes "sorted_ranges t" "t \<noteq> []"
  shows "bisearch c t \<longleftrightarrow> in_ranges c t"
proof -
  have "in_ranges c t \<longleftrightarrow> (\<exists>k. 0 \<le> int k \<and> int k \<le> int (length t) - 1 \<and> fst (t ! k) \<le> c \<and> c \<le> snd (t ! k))"
  proof
    assume "in_ranges c t"
    then obtain k where "k < length t" "fst (t ! k) \<le> c" "c \<le> snd (t ! k)"
      by (auto simp: in_ranges_def in_set_conv_nth)
    then show "\<exists>k. 0 \<le> int k \<and> int k \<le> int (length t) - 1 \<and> fst (t ! k) \<le> c \<and> c \<le> snd (t ! k)"
      by (intro exI [of _ k]) auto
  next
    assume "\<exists>k. 0 \<le> int k \<and> int k \<le> int (length t) - 1 \<and> fst (t ! k) \<le> c \<and> c \<le> snd (t ! k)"
    then obtain k where "int k \<le> int (length t) - 1" "fst (t ! k) \<le> c" "c \<le> snd (t ! k)" by blast
    then show "in_ranges c t" unfolding in_ranges_def by (intro bexI [of _ "t ! k"]) auto
  qed
  also have "\<dots> \<longleftrightarrow> bisearch_loop c t 0 (int (length t) - 1)"
    using bisearch_loop_correct [OF assms(1), of 0 "int (length t) - 1" c] by simp
  finally have loop: "in_ranges c t \<longleftrightarrow> bisearch_loop c t 0 (int (length t) - 1)" .
  have "\<not> in_ranges c t" if "c < fst (t ! 0) \<or> snd (t ! (length t - 1)) < c"
  proof
    assume "in_ranges c t"
    then obtain k where k: "k < length t" "fst (t ! k) \<le> c" "c \<le> snd (t ! k)"
      by (auto simp: in_ranges_def in_set_conv_nth)
    then show False
      using that sorted_ranges_first [OF assms(1) k(1)] sorted_ranges_last [OF assms(1) k(1)] by linarith
  qed
  then show ?thesis using loop by (auto simp: bisearch_def)
qed

lemma high_combining_sorted: "sorted_ranges high_combining"
  by (simp add: sorted_ranges_def high_combining_def)

subsection \<open>Widths\<close>

lemma fill_entries_le: "\<forall>f \<in> set fs. fst f \<le> 2 \<Longrightarrow> w \<le> 2 \<Longrightarrow> fold (fill_entry c) fs w \<le> 2"
  by (induction fs arbitrary: w) (auto simp: fill_entry_def)

lemma bmp_width_le: "bmp_width c \<le> 2"
  unfolding bmp_width_def by (rule fill_entries_le) (auto simp: bmp_fills_def)

lemma wcwidth_le: "wcwidth c \<le> 2"
  using bmp_width_le [of c] by (simp add: wcwidth_def)

lemma and_3: "n AND 3 = n mod (4 :: nat)"
  using take_bit_eq_mask [of 2 n] by (simp add: mask_eq_exp_minus_1 take_bit_eq_mod)

lemma property_value:
  "w \<le> 3 \<Longrightarrow> createPropertyValue 0 w j = 2 * w + (if j then 1 else 0)"
  using or_low [of "if j then 1 else 0" 1 w] by (simp add: createPropertyValue_def and_3)

lemma extract_property:
  "w \<le> 3 \<Longrightarrow> extractWidth (createPropertyValue 0 w j) = w"
  "w \<le> 3 \<Longrightarrow> extractShouldJoin (createPropertyValue 0 w j) = j"
  by (auto simp: property_value extractWidth_def extractShouldJoin_def drop_bit_eq_div and_3 and_one_eq odd_iff_mod_2_eq_one)

end
