(* ===== verification/Xterm_Screen.thy ===== *)
theory Xterm_Screen
  imports Xterm_Buffer Xterm_Width "HOL-Library.Monad_Syntax"
begin

text \<open>
  The state that the handlers of the terminal's output work on: the buffer service (\<open>ni\<close>), the buffer set
  (\<open>hn\<close>), the core service with its modes (\<open>li\<close>), the charset service (\<open>pn\<close>), the protocol and encoding of
  the mouse service (\<open>ai\<close>), the link service (\<open>ui\<close>), the options and the fields of \<open>InputHandler\<close> (\<open>vn\<close>)
  with its tracker of dirty rows (\<open>Zi\<close>).

  A handler maps a state to \<open>Some\<close> new state, or to \<open>None\<close> where the code would call a method of
  \<open>undefined\<close> and throw a \<open>TypeError\<close>. What the emitters fire and what is sent to the shell is logged in
  \<open>out\<close>, in order.
\<close>

datatype cursor_style = Block | Underline | Bar
datatype mouse_protocol = NONE | X10 | VT200 | DRAG | ANY
datatype mouse_encoding = DEFAULT | SGR | SGR_PIXELS

text \<open>A request about a colour, \<open>None\<close> as the index is for all colours.\<close>

datatype color_request = Report nat | Set_color nat "nat \<times> nat \<times> nat" | Restore "nat option"

datatype term_event =
    On_data ustring | On_binary ustring | On_user_input | On_request_scroll_to_bottom
  | On_bell | On_line_feed | On_title ustring | On_color "color_request list"
  | On_refresh_rows "(int \<times> int) option" | On_request_reset | On_request_send_focus | On_sync_scroll_bar
  | On_windows_report nat | On_a11y_char ustring | On_a11y_tab int | On_cursor_move | On_scroll int
  | On_protocol_change nat | On_option_change string | On_write_parsed

record term_options =
  scrollback :: int
  tabStopWidth :: int
  convertEol :: bool
  opt_cursorBlink :: bool
  opt_cursorStyle :: cursor_style
  screenReaderMode :: bool
  scrollOnEraseInDisplay :: bool
  scrollOnUserInput :: bool
  disableStdin :: bool
  termName :: string
  windowOptions :: "string list"

record dec_modes =
  applicationCursorKeys :: bool
  applicationKeypad :: bool
  bracketedPasteMode :: bool
  dec_cursorBlink :: "bool option"
  dec_cursorStyle :: "cursor_style option"
  origin :: bool
  reverseWraparound :: bool
  sendFocus :: bool
  synchronizedOutput :: bool
  wraparound :: bool

definition default_modes :: dec_modes where
  "default_modes =
     \<lparr>applicationCursorKeys = False, applicationKeypad = False, bracketedPasteMode = False,
      dec_cursorBlink = None, dec_cursorStyle = None, origin = False, reverseWraparound = False,
      sendFocus = False, synchronizedOutput = False, wraparound = True\<rparr>"

record terminal_state = screen +
  options :: term_options
  normal_buffer :: buffer
  alt_buffer :: buffer
  alt_active :: bool
  insertMode :: bool
  dec :: dec_modes
  isCursorHidden :: bool
  isCursorInitialized :: bool
  charset_now :: "charset option"
  charsets :: "nat \<Rightarrow> charset option"
  glevel :: nat
  activeProtocol :: mouse_protocol
  activeEncoding :: mouse_encoding
  nextLinkId :: nat
  link_data :: "(nat \<times> ustring option \<times> ustring) list"
  detached :: "marker list"
  curAttr :: attr
  eraseAttr_internal :: attr
  windowTitle :: ustring
  iconName :: ustring
  windowTitleStack :: "ustring list"
  iconNameStack :: "ustring list"
  precedingJoinState :: nat
  dirtyStart :: int
  dirtyEnd :: int
  out :: "term_event list"

definition emit :: "term_event \<Rightarrow> terminal_state \<Rightarrow> terminal_state" where
  "emit e t = t\<lparr>out := out t @ [e]\<rparr>"

subsection \<open>The active buffer\<close>

definition active :: "terminal_state \<Rightarrow> buffer" where
  "active t = (if alt_active t then alt_buffer t else normal_buffer t)"

definition set_active :: "buffer \<Rightarrow> terminal_state \<Rightarrow> terminal_state" where
  "set_active b t = (if alt_active t then t\<lparr>alt_buffer := b\<rparr> else t\<lparr>normal_buffer := b\<rparr>)"

definition upd_active :: "(buffer \<Rightarrow> buffer) \<Rightarrow> terminal_state \<Rightarrow> terminal_state" where
  "upd_active f t = set_active (f (active t)) t"

abbreviation xpos :: "terminal_state \<Rightarrow> int" where "xpos t \<equiv> cx (active t)"
abbreviation ypos :: "terminal_state \<Rightarrow> int" where "ypos t \<equiv> cy (active t)"

definition set_x :: "int \<Rightarrow> terminal_state \<Rightarrow> terminal_state" where "set_x v = upd_active (\<lambda>b. b\<lparr>cx := v\<rparr>)"
definition set_y :: "int \<Rightarrow> terminal_state \<Rightarrow> terminal_state" where "set_y v = upd_active (\<lambda>b. b\<lparr>cy := v\<rparr>)"

text \<open>The row of the cursor in the lines of the buffer.\<close>

definition abs_row :: "int \<Rightarrow> terminal_state \<Rightarrow> int" where
  "abs_row r t = ybase (active t) + r"

definition line_here :: "int \<Rightarrow> terminal_state \<Rightarrow> line option" where
  "line_here i t = lines_get (active t) i"

definition upd_line :: "int \<Rightarrow> (line \<Rightarrow> line) \<Rightarrow> terminal_state \<Rightarrow> terminal_state option" where
  "upd_line i f t = map_option (\<lambda>b. set_active b t) (with_line i f (active t))"

text \<open>The same for a line that may be missing, in which case nothing happens.\<close>

definition upd_line_if :: "int \<Rightarrow> (line \<Rightarrow> line) \<Rightarrow> terminal_state \<Rightarrow> terminal_state" where
  "upd_line_if i f t = (case upd_line i f t of None \<Rightarrow> t | Some t' \<Rightarrow> t')"

subsection \<open>Dirty rows\<close>

definition clearRange :: "terminal_state \<Rightarrow> terminal_state" where
  "clearRange t = t\<lparr>dirtyStart := ypos t, dirtyEnd := ypos t\<rparr>"

definition markDirty :: "int \<Rightarrow> terminal_state \<Rightarrow> terminal_state" where
  "markDirty y t =
     (if y < dirtyStart t then t\<lparr>dirtyStart := y\<rparr> else if dirtyEnd t < y then t\<lparr>dirtyEnd := y\<rparr> else t)"

definition markRangeDirty :: "int \<Rightarrow> int \<Rightarrow> terminal_state \<Rightarrow> terminal_state" where
  "markRangeDirty a b t =
     (let lo = (if b < a then b else a); hi = (if b < a then a else b);
          t1 = (if lo < dirtyStart t then t\<lparr>dirtyStart := lo\<rparr> else t)
      in if dirtyEnd t1 < hi then t1\<lparr>dirtyEnd := hi\<rparr> else t1)"

definition markAllDirty :: "terminal_state \<Rightarrow> terminal_state" where
  "markAllDirty t = markRangeDirty 0 (rows t - 1) t"

subsection \<open>Scrolling\<close>

definition eraseAttrData :: "terminal_state \<Rightarrow> attr" where
  "eraseAttrData t =
     (let e = eraseAttr_internal t
      in e\<lparr>bg := (bg e AND NOT 0x3FFFFFF) OR (bg (curAttr t) AND 0x3FFFFFF)\<rparr>)"

text \<open>Computing it stores it.\<close>

definition keep_eraseAttr :: "terminal_state \<Rightarrow> terminal_state" where
  "keep_eraseAttr t = t\<lparr>eraseAttr_internal := eraseAttrData t\<rparr>"

definition null_here :: "terminal_state \<Rightarrow> cell" where
  "null_here t = getNullCell (eraseAttrData t)"

definition blank_here :: "terminal_state \<Rightarrow> line" where
  "blank_here t = getBlankLine (cols t) (eraseAttrData t) False"

definition handle_scroll :: "terminal_state \<Rightarrow> terminal_state" where
  "handle_scroll t =
     (let b = active t in markRangeDirty (scrollTop b) (scrollBottom b) (emit (On_scroll (ydisp b)) t))"

definition term_scroll :: "attr \<Rightarrow> bool \<Rightarrow> terminal_state \<Rightarrow> terminal_state option" where
  "term_scroll a wrapped t =
     do {
       (t', b) \<leftarrow> buffer_scroll a wrapped t (active t);
       Some (handle_scroll (set_active b t'))
     }"

definition scroll_erased :: "bool \<Rightarrow> terminal_state \<Rightarrow> terminal_state option" where
  "scroll_erased wrapped t = term_scroll (eraseAttrData t) wrapped (keep_eraseAttr t)"

subsection \<open>The buffer set\<close>

definition new_buffer :: "bool \<Rightarrow> 'a screen_scheme \<Rightarrow> term_options \<Rightarrow> buffer" where
  "new_buffer normal s opts = blank_buffer normal (scrollback opts) (tabStopWidth opts) (cols s) (rows s)"

definition buffers_reset :: "terminal_state \<Rightarrow> terminal_state" where
  "buffers_reset t =
     (let n = fillViewportRows (cols t) default_attr (new_buffer True t (options t));
          a = new_buffer False t (options t)
      in handle_scroll
           (t\<lparr>normal_buffer := setupTabStops (tabStopWidth (options t)) None n,
              alt_buffer := setupTabStops (tabStopWidth (options t)) None a, alt_active := False,
              detached := detached t @ markers (normal_buffer t) @ markers (alt_buffer t)\<rparr>))"

definition activateNormalBuffer :: "terminal_state \<Rightarrow> terminal_state" where
  "activateNormalBuffer t =
     (if alt_active t then
        (let a = alt_buffer t
         in handle_scroll
              (t\<lparr>normal_buffer := (normal_buffer t)\<lparr>cx := cx a, cy := cy a\<rparr>,
                 alt_buffer := buffer_clear (scrollback (options t)) (tabStopWidth (options t)) (clearAllMarkers a),
                 alt_active := False\<rparr>))
      else t)"

definition activateAltBuffer :: "attr \<Rightarrow> terminal_state \<Rightarrow> terminal_state" where
  "activateAltBuffer e t =
     (if alt_active t then t
      else
        (let n = normal_buffer t
         in handle_scroll
              (t\<lparr>alt_buffer := (fillViewportRows (cols t) e (alt_buffer t))\<lparr>cx := cx n, cy := cy n\<rparr>,
                 alt_active := True\<rparr>)))"

subsection \<open>Services\<close>

text \<open>\<open>triggerDataEvent(data, wasUserInput)\<close> and \<open>triggerBinaryEvent\<close>.\<close>

definition triggerDataEvent :: "ustring \<Rightarrow> bool \<Rightarrow> terminal_state \<Rightarrow> terminal_state" where
  "triggerDataEvent s user t =
     (if disableStdin (options t) then t
      else
        (let b = active t;
             t1 = (if user \<and> scrollOnUserInput (options t) \<and> ybase b \<noteq> ydisp b
                   then emit On_request_scroll_to_bottom t else t);
             t2 = (if user then emit On_user_input t1 else t1)
         in emit (On_data s) t2))"

definition triggerBinaryEvent :: "ustring \<Rightarrow> terminal_state \<Rightarrow> terminal_state" where
  "triggerBinaryEvent s t = (if disableStdin (options t) then t else emit (On_binary s) t)"

definition core_reset :: "terminal_state \<Rightarrow> terminal_state" where
  "core_reset t = t\<lparr>insertMode := False, dec := default_modes\<rparr>"

definition charset_reset :: "terminal_state \<Rightarrow> terminal_state" where
  "charset_reset t = t\<lparr>charset_now := None, charsets := (\<lambda>_. None), glevel := 0\<rparr>"

definition setgLevel :: "nat \<Rightarrow> terminal_state \<Rightarrow> terminal_state" where
  "setgLevel g t = t\<lparr>glevel := g, charset_now := charsets t g\<rparr>"

definition setgCharset :: "nat \<Rightarrow> charset option \<Rightarrow> terminal_state \<Rightarrow> terminal_state" where
  "setgCharset g c t =
     (let t1 = t\<lparr>charsets := (charsets t)(g := c)\<rparr>
      in if glevel t = g then t1\<lparr>charset_now := c\<rparr> else t1)"

text \<open>\<open>set activeProtocol\<close> tells the events of the protocol: the numbers of the table \<open>dl\<close>.\<close>

fun protocol_events :: "mouse_protocol \<Rightarrow> nat" where
  "protocol_events NONE = 0"
| "protocol_events X10 = 1"
| "protocol_events VT200 = 19"
| "protocol_events DRAG = 23"
| "protocol_events ANY = 31"

definition set_activeProtocol :: "mouse_protocol \<Rightarrow> terminal_state \<Rightarrow> terminal_state" where
  "set_activeProtocol p t = emit (On_protocol_change (protocol_events p)) (t\<lparr>activeProtocol := p\<rparr>)"

definition set_option :: "string \<Rightarrow> (term_options \<Rightarrow> term_options) \<Rightarrow> terminal_state \<Rightarrow> terminal_state" where
  "set_option name f t =
     (if f (options t) = options t then t else emit (On_option_change name) (t\<lparr>options := f (options t)\<rparr>))"

subsection \<open>The link service\<close>

text \<open>
  A link exists as long as one of its markers is not disposed; its lines are the lines of its markers. A reset
  replaces the buffers without disposing of their markers, which are kept apart in \<open>detached\<close>.
\<close>

definition link_markers :: "nat \<Rightarrow> terminal_state \<Rightarrow> marker list" where
  "link_markers k t = filter (\<lambda>m. fst m = k) (markers (normal_buffer t) @ markers (alt_buffer t) @ detached t)"

definition link_exists :: "nat \<Rightarrow> terminal_state \<Rightarrow> bool" where
  "link_exists k t \<longleftrightarrow> link_markers k t \<noteq> []"

definition getLinkData :: "nat \<Rightarrow> terminal_state \<Rightarrow> (ustring option \<times> ustring) option" where
  "getLinkData k t = (if link_exists k t then map_of (link_data t) k else None)"

definition addLineToLink :: "nat \<Rightarrow> int \<Rightarrow> terminal_state \<Rightarrow> terminal_state" where
  "addLineToLink k l t =
     (if link_exists k t \<and> (\<forall>m \<in> set (link_markers k t). snd m \<noteq> l) then upd_active (addMarker k l) t else t)"

definition entry_key :: "ustring \<Rightarrow> ustring \<Rightarrow> ustring" where
  "entry_key i uri = i @ [59, 59] @ uri"

definition find_entry :: "ustring \<Rightarrow> terminal_state \<Rightarrow> nat option" where
  "find_entry key t =
     map_option fst
       (List.find (\<lambda>(k, i, uri). link_exists k t \<and> i \<noteq> None \<and> entry_key (the i) uri = key) (link_data t))"

definition new_link :: "ustring option \<Rightarrow> ustring \<Rightarrow> terminal_state \<Rightarrow> nat \<times> terminal_state" where
  "new_link i uri t =
     (let k = nextLinkId t
      in (k, upd_active (addMarker k (abs_row (ypos t) t))
               (t\<lparr>nextLinkId := Suc k, link_data := (k, i, uri) # link_data t\<rparr>)))"

definition registerLink :: "ustring option \<Rightarrow> ustring \<Rightarrow> terminal_state \<Rightarrow> nat \<times> terminal_state" where
  "registerLink i uri t =
     (case i of
        None \<Rightarrow> new_link None uri t
      | Some s \<Rightarrow>
          (case find_entry (entry_key s uri) t of
             None \<Rightarrow> new_link i uri t
           | Some k \<Rightarrow> (k, addLineToLink k (abs_row (ypos t) t) t)))"

end
