(* ===== verification/Xterm_Params.thy ===== *)
theory Xterm_Params
  imports Xterm_Decode
begin

text \<open>
  The parameters of a control sequence (\<open>Params\<close>, \<open>ci\<close> in the bundle): at most 32 numbers and at most 32
  sub-parameters, in typed arrays that keep their old contents beyond the current lengths. The entry of the
  index array of a parameter holds the start of its sub-parameters in the upper byte, their end in the lower.
\<close>

unbundle bit_operations_syntax

definition MAX_VALUE :: int where "MAX_VALUE = 2147483647"

record params =
  maxParams :: nat
  maxSubParams :: nat
  ps :: "int list"
  plen :: nat
  subs :: "int list"
  slen :: nat
  sidx :: "nat list"
  rejectDigits :: bool
  rejectSubDigits :: bool
  digitIsSub :: bool

text \<open>The constructor; more than 256 sub-parameters are an error.\<close>

definition new_params :: "nat \<Rightarrow> nat \<Rightarrow> params option" where
  "new_params m k =
     (if 256 < k then None
      else Some \<lparr>maxParams = m, maxSubParams = k, ps = replicate m 0, plen = 0, subs = replicate k 0, slen = 0,
                 sidx = replicate m 0, rejectDigits = False, rejectSubDigits = False, digitIsSub = False\<rparr>)"

definition default_params :: params where
  "default_params = the (new_params 32 32)"

definition params_reset :: "params \<Rightarrow> params" where
  "params_reset p =
     p\<lparr>plen := 0, slen := 0, rejectDigits := False, rejectSubDigits := False, digitIsSub := False\<rparr>"

definition cap_value :: "int \<Rightarrow> int" where
  "cap_value v = (if v > MAX_VALUE then MAX_VALUE else v)"

text \<open>\<open>None\<close> is the error of a value below -1.\<close>

definition addParam :: "int \<Rightarrow> params \<Rightarrow> params option" where
  "addParam v p =
     (let p1 = p\<lparr>digitIsSub := False\<rparr>
      in if maxParams p \<le> plen p then Some (p1\<lparr>rejectDigits := True\<rparr>)
         else if v < -1 then None
         else Some (p1\<lparr>sidx := (sidx p)[plen p := push_bit 8 (slen p) OR slen p],
                       ps := (ps p)[plen p := cap_value v], plen := Suc (plen p)\<rparr>))"

definition addSubParam :: "int \<Rightarrow> params \<Rightarrow> params option" where
  "addSubParam v p =
     (let p1 = p\<lparr>digitIsSub := True\<rparr>
      in if plen p = 0 then Some p1
         else if rejectDigits p \<or> maxSubParams p \<le> slen p then Some (p1\<lparr>rejectSubDigits := True\<rparr>)
         else if v < -1 then None
         else Some (p1\<lparr>subs := (subs p)[slen p := cap_value v], slen := Suc (slen p),
                       sidx := (sidx p)[plen p - 1 := Suc (sidx p ! (plen p - 1))]\<rparr>))"

definition sub_start :: "params \<Rightarrow> nat \<Rightarrow> nat" where "sub_start p i = drop_bit 8 (sidx p ! i)"
definition sub_end :: "params \<Rightarrow> nat \<Rightarrow> nat" where "sub_end p i = sidx p ! i AND 255"

definition hasSubParams :: "params \<Rightarrow> nat \<Rightarrow> bool" where
  "hasSubParams p i \<longleftrightarrow> sub_start p i < sub_end p i"

definition sub_slice :: "params \<Rightarrow> nat \<Rightarrow> int list" where
  "sub_slice p i = take (sub_end p i - sub_start p i) (drop (sub_start p i) (subs p))"

definition getSubParams :: "params \<Rightarrow> nat \<Rightarrow> int list option" where
  "getSubParams p i = (if hasSubParams p i then Some (sub_slice p i) else None)"

definition getSubParamsAll :: "params \<Rightarrow> nat \<rightharpoonup> int list" where
  "getSubParamsAll p = (\<lambda>i. if i < plen p then getSubParams p i else None)"

definition addDigit :: "int \<Rightarrow> params \<Rightarrow> params" where
  "addDigit d p =
     (let e = (if digitIsSub p then slen p else plen p)
      in if rejectDigits p \<or> e = 0 \<or> digitIsSub p \<and> rejectSubDigits p then p
         else if digitIsSub p then
           p\<lparr>subs := (subs p)[e - 1 := (if subs p ! (e - 1) \<noteq> -1 then min (subs p ! (e - 1) * 10 + d) MAX_VALUE else d)]\<rparr>
         else
           p\<lparr>ps := (ps p)[e - 1 := (if ps p ! (e - 1) \<noteq> -1 then min (ps p ! (e - 1) * 10 + d) MAX_VALUE else d)]\<rparr>)"

text \<open>An array of numbers, each followed by the array of its sub-parameters if it has any.\<close>

datatype param_item = Num int | Subs "int list"

definition toArray :: "params \<Rightarrow> param_item list" where
  "toArray p =
     concat (map (\<lambda>i. Num (ps p ! i) # (if hasSubParams p i then [Subs (sub_slice p i)] else [])) [0..<plen p])"

fun add_subs :: "int list \<Rightarrow> params \<Rightarrow> params option" where
  "add_subs [] p = Some p"
| "add_subs (v # vs) p = Option.bind (addSubParam v p) (add_subs vs)"

fun add_items :: "param_item list \<Rightarrow> params \<Rightarrow> params option" where
  "add_items [] p = Some p"
| "add_items (Num v # xs) p = Option.bind (addParam v p) (add_items xs)"
| "add_items (Subs vs # xs) p = Option.bind (add_subs vs p) (add_items xs)"

definition fromArray :: "param_item list \<Rightarrow> params option" where
  "fromArray xs =
     (case xs of
        [] \<Rightarrow> Some default_params
      | Num v # _ \<Rightarrow> add_items xs default_params
      | Subs vs # rest \<Rightarrow> add_items rest default_params)"

subsection \<open>Bounds\<close>

definition params_ok :: "params \<Rightarrow> bool" where
  "params_ok p \<longleftrightarrow>
     plen p \<le> maxParams p \<and> slen p \<le> maxSubParams p \<and> maxSubParams p \<le> 255 \<and>
     length (ps p) = maxParams p \<and> length (sidx p) = maxParams p \<and> length (subs p) = maxSubParams p \<and>
     (\<forall>v \<in> set (ps p) \<union> set (subs p). -1 \<le> v \<and> v \<le> MAX_VALUE) \<and>
     (\<forall>i < plen p. sub_start p i \<le> sub_end p i \<and> sub_end p i \<le> slen p)"

lemma MAX_VALUE_pos [simp]: "0 < MAX_VALUE" "-1 \<le> MAX_VALUE"
  by (simp_all add: MAX_VALUE_def)

lemma sub_bounds_div: "sub_start p i = sidx p ! i div 256" "sub_end p i = sidx p ! i mod 256"
  using take_bit_eq_mask [of 8 "sidx p ! i"]
  by (simp_all add: sub_start_def sub_end_def drop_bit_eq_div mask_eq_exp_minus_1 take_bit_eq_mod)

lemma index_value:
  "k \<le> 255 \<Longrightarrow> (push_bit 8 k OR k) div 256 = (k :: nat)" "k \<le> 255 \<Longrightarrow> (push_bit 8 k OR k) mod 256 = k"
proof -
  assume "k \<le> 255"
  moreover from this have v: "push_bit 8 k OR k = k + 256 * k" using or_low [of k 8 k] by simp
  moreover have "(k + 256 * j) div 256 = j" "(k + 256 * j) mod 256 = k" for j using \<open>k \<le> 255\<close> by simp_all
  ultimately show "(push_bit 8 k OR k) div 256 = k" "(push_bit 8 k OR k) mod 256 = k"
    by (simp_all only:)
qed

lemma params_reset_ok: "params_ok p \<Longrightarrow> params_ok (params_reset p)"
  by (simp add: params_ok_def params_reset_def)

lemma default_params_ok: "params_ok default_params"
  by (simp add: params_ok_def default_params_def new_params_def MAX_VALUE_def)

lemma addParam_ok: "params_ok p \<Longrightarrow> -1 \<le> v \<Longrightarrow> \<exists>p'. addParam v p = Some p' \<and> params_ok p' \<and> plen p' \<ge> plen p
    \<and> maxParams p' = maxParams p \<and> slen p' = slen p"
  by (auto simp: params_ok_def addParam_def Let_def cap_value_def sub_bounds_div index_value nth_list_update less_Suc_eq
      dest: set_update_subset_insert [THEN subsetD])

lemma addSubParam_ok: "params_ok p \<Longrightarrow> -1 \<le> v \<Longrightarrow> \<exists>p'. addSubParam v p = Some p' \<and> params_ok p'"
proof -
  assume p: "params_ok p" and v: "-1 \<le> v"
  show ?thesis
  proof (cases "plen p = 0 \<or> rejectDigits p \<or> maxSubParams p \<le> slen p")
    case True
    then show ?thesis using p by (auto simp: params_ok_def addSubParam_def Let_def sub_bounds_div)
  next
    case False
    let ?i = "plen p - 1"
    have i: "?i < plen p" "plen p \<le> length (sidx p)" using False p by (auto simp: params_ok_def)
    have b: "sidx p ! ?i div 256 \<le> sidx p ! ?i mod 256" "sidx p ! ?i mod 256 \<le> slen p" "slen p < 255"
      using p i False by (auto simp: params_ok_def sub_bounds_div)
    then have m: "Suc (sidx p ! ?i) mod 256 = Suc (sidx p ! ?i mod 256)" "Suc (sidx p ! ?i) div 256 = sidx p ! ?i div 256"
      by (simp_all add: mod_Suc div_Suc)
    show ?thesis using p v i b m False
      by (auto simp: params_ok_def addSubParam_def Let_def cap_value_def sub_bounds_div nth_list_update le_Suc_eq
          dest!: set_update_subset_insert [THEN subsetD])
  qed
qed

lemma digit_bounds:
  assumes "-1 \<le> v" "0 \<le> d" "d \<le> 9"
  shows "-1 \<le> (if v \<noteq> -1 then min (v * 10 + d) MAX_VALUE else d)"
    "(if v \<noteq> -1 then min (v * 10 + d) MAX_VALUE else d) \<le> MAX_VALUE"
  using assms by (auto simp: MAX_VALUE_def)

lemma addDigit_ok:
  assumes p: "params_ok p" and d: "0 \<le> d" "d \<le> 9"
  shows "params_ok (addDigit d p)"
proof -
  have s: "-1 \<le> subs p ! i \<and> subs p ! i \<le> MAX_VALUE" if "i < length (subs p)" for i
    using p that by (auto simp: params_ok_def)
  have n: "-1 \<le> ps p ! i \<and> ps p ! i \<le> MAX_VALUE" if "i < length (ps p)" for i
    using p that by (auto simp: params_ok_def)
  have set_upd: "x \<in> set (xs[i := y]) \<Longrightarrow> x = y \<or> x \<in> set xs" for x y :: int and xs i
    using set_update_subset_insert [of xs i y] by auto
  show ?thesis
  proof (cases "digitIsSub p")
    case True
    then show ?thesis using p d s [of "slen p - 1"] digit_bounds [of "subs p ! (slen p - 1)" d]
      by (auto simp: params_ok_def addDigit_def Let_def sub_bounds_div dest!: set_upd split: if_splits)
  next
    case False
    then show ?thesis using p d n [of "plen p - 1"] digit_bounds [of "ps p ! (plen p - 1)" d]
      by (auto simp: params_ok_def addDigit_def Let_def sub_bounds_div dest!: set_upd split: if_splits)
  qed
qed

text \<open>The digits of a parameter.\<close>

definition digits_step :: "int \<Rightarrow> int \<Rightarrow> int" where
  "digits_step d v = min (v * 10 + d) MAX_VALUE"

lemma addDigit_param:
  assumes "params_ok p" "0 < plen p" "\<not> digitIsSub p" "\<not> rejectDigits p" "ps p ! (plen p - 1) \<noteq> -1"
  shows "ps (addDigit d p) = (ps p)[plen p - 1 := digits_step d (ps p ! (plen p - 1))]"
    "plen (addDigit d p) = plen p" "digitIsSub (addDigit d p) = digitIsSub p" "rejectDigits (addDigit d p) = rejectDigits p"
  using assms by (simp_all add: addDigit_def Let_def digits_step_def)

lemma digits_fold:
  assumes "params_ok p" "0 < plen p" "\<not> digitIsSub p" "\<not> rejectDigits p" "0 \<le> ps p ! (plen p - 1)"
    "\<forall>d \<in> set ds. 0 \<le> d \<and> d \<le> 9"
  shows "ps (fold addDigit ds p) ! (plen p - 1) = fold digits_step ds (ps p ! (plen p - 1))
    \<and> params_ok (fold addDigit ds p)"
  using assms
proof (induction ds arbitrary: p)
  case (Cons d ds)
  have l: "plen p - 1 < length (ps p)" using Cons.prems by (auto simp: params_ok_def)
  have "0 \<le> digits_step d (ps p ! (plen p - 1))" using Cons.prems by (simp add: digits_step_def MAX_VALUE_def)
  then show ?case
    using Cons.IH [of "addDigit d p"] Cons.prems addDigit_ok [of p d] addDigit_param [of p d] l by simp
qed simp

lemma digits_step_value:
  assumes "\<forall>d \<in> set ds. 0 \<le> d" "0 \<le> v"
  shows "fold digits_step ds (min v MAX_VALUE) = min (foldl (\<lambda>a d. a * 10 + d) v ds) MAX_VALUE"
  using assms
proof (induction ds arbitrary: v)
  case (Cons d ds)
  have "digits_step d (min v MAX_VALUE) = min (v * 10 + d) MAX_VALUE"
    using Cons.prems by (auto simp: digits_step_def min_def MAX_VALUE_def)
  then show ?case using Cons.IH [of "v * 10 + d"] Cons.prems by simp
qed simp

text \<open>
  However many digits and parameters a control sequence has, the arrays are never written out of
  bounds and every value stays between -1 and 2147483647: each operation keeps these bounds, the digits of a
  parameter give their decimal value capped at 2147483647, and adding a value below -1 is the only error.
\<close>

theorem params_bounded:
  assumes "params_ok p"
  shows "params_ok (params_reset p)
    \<and> (-1 \<le> v \<longrightarrow> (\<exists>p1 p2. addParam v p = Some p1 \<and> params_ok p1 \<and> addSubParam v p = Some p2 \<and> params_ok p2))
    \<and> (addParam v p = None \<longleftrightarrow> v < -1 \<and> plen p < maxParams p)
    \<and> (0 \<le> d \<and> d \<le> 9 \<longrightarrow> params_ok (addDigit d p))
    \<and> (plen p < maxParams p \<and> \<not> rejectDigits p \<and> (\<forall>d \<in> set ds. 0 \<le> d \<and> d \<le> 9) \<longrightarrow>
        ps (fold addDigit ds (the (addParam 0 p))) ! plen p
          = min (foldl (\<lambda>a d. a * 10 + d) 0 ds) MAX_VALUE)"
proof (intro conjI impI)
  show "addParam v p = None \<longleftrightarrow> v < -1 \<and> plen p < maxParams p" by (auto simp: addParam_def Let_def)
  show "-1 \<le> v \<Longrightarrow> \<exists>p1 p2. addParam v p = Some p1 \<and> params_ok p1 \<and> addSubParam v p = Some p2 \<and> params_ok p2"
    using addParam_ok [OF assms] addSubParam_ok [OF assms] by blast
  assume d: "plen p < maxParams p \<and> \<not> rejectDigits p \<and> (\<forall>d \<in> set ds. 0 \<le> d \<and> d \<le> 9)"
  let ?p = "the (addParam 0 p)"
  have p: "params_ok ?p" using addParam_ok [OF assms, of 0] by auto
  have q: "plen ?p = Suc (plen p)" "\<not> digitIsSub ?p" "\<not> rejectDigits ?p" "ps ?p ! plen p = 0"
    using d assms by (auto simp: addParam_def Let_def params_ok_def cap_value_def MAX_VALUE_def)
  have "ps (fold addDigit ds ?p) ! plen p = fold digits_step ds 0"
    using digits_fold [OF p, of ds] q d by simp
  also have "\<dots> = min (foldl (\<lambda>a d. a * 10 + d) 0 ds) MAX_VALUE"
    using digits_step_value [of ds 0] d by (simp add: MAX_VALUE_def)
  finally show "ps (fold addDigit ds ?p) ! plen p = min (foldl (\<lambda>a d. a * 10 + d) 0 ds) MAX_VALUE" .
qed (use assms in \<open>auto simp: params_reset_ok addDigit_ok\<close>)

theorem params_bounded_witness:
  "ps (fold addDigit [9, 9, 9, 9, 9, 9, 9, 9, 9, 9, 9] (the (addParam 0 default_params))) ! 0 = 2147483647"
  using params_bounded [OF default_params_ok, where ds = "[9, 9, 9, 9, 9, 9, 9, 9, 9, 9, 9]"]
  by (simp add: default_params_def new_params_def MAX_VALUE_def)

end
