(* ===== verification/Xterm_Cursor.thy ===== *)
theory Xterm_Cursor
  imports Xterm_Screen Xterm_Params
begin

text \<open>
  The handlers of \<open>InputHandler\<close> that move the cursor: control characters, cursor movement, tab stops, the
  scroll region, saving and restoring. Columns and rows count from 0 as in the code; the column may be one
  past the last, when the next character wraps.
\<close>

text \<open>\<open>params[i]\<close>, and \<open>params[i] || 1\<close>.\<close>

definition par :: "params \<Rightarrow> nat \<Rightarrow> int" where "par p i = ps p ! i"
definition par1 :: "params \<Rightarrow> nat \<Rightarrow> int" where "par1 p i = (if par p i = 0 then 1 else par p i)"

subsection \<open>Positions\<close>

definition restrictCursor :: "int \<Rightarrow> terminal_state \<Rightarrow> terminal_state" where
  "restrictCursor e t =
     (let b = active t;
          x = min e (max 0 (cx b));
          y = (if origin (dec t) then min (scrollBottom b) (max (scrollTop b) (cy b))
               else min (rows t - 1) (max 0 (cy b)))
      in markDirty y (set_y y (set_x x t)))"

text \<open>The default of the argument.\<close>

definition restrict_default :: "terminal_state \<Rightarrow> terminal_state" where
  "restrict_default t = restrictCursor (cols t - 1) t"

definition setCursor :: "int \<Rightarrow> int \<Rightarrow> terminal_state \<Rightarrow> terminal_state" where
  "setCursor x y t =
     (let t1 = markDirty (ypos t) t;
          t2 = set_y (if origin (dec t) then scrollTop (active t) + y else y) (set_x x t1);
          t3 = restrict_default t2
      in markDirty (ypos t3) t3)"

definition moveCursor :: "int \<Rightarrow> int \<Rightarrow> terminal_state \<Rightarrow> terminal_state" where
  "moveCursor dx dy t = (let t1 = restrict_default t in setCursor (xpos t1 + dx) (ypos t1 + dy) t1)"

definition cursorUp :: "params \<Rightarrow> terminal_state \<Rightarrow> terminal_state" where
  "cursorUp p t =
     (let i = ypos t - scrollTop (active t)
      in if 0 \<le> i then moveCursor 0 (- min i (par1 p 0)) t else moveCursor 0 (- par1 p 0) t)"

definition cursorDown :: "params \<Rightarrow> terminal_state \<Rightarrow> terminal_state" where
  "cursorDown p t =
     (let i = scrollBottom (active t) - ypos t
      in if 0 \<le> i then moveCursor 0 (min i (par1 p 0)) t else moveCursor 0 (par1 p 0) t)"

definition cursorForward :: "params \<Rightarrow> terminal_state \<Rightarrow> terminal_state" where "cursorForward p = moveCursor (par1 p 0) 0"
definition cursorBackward :: "params \<Rightarrow> terminal_state \<Rightarrow> terminal_state" where "cursorBackward p = moveCursor (- par1 p 0) 0"
definition cursorNextLine :: "params \<Rightarrow> terminal_state \<Rightarrow> terminal_state" where "cursorNextLine p t = set_x 0 (cursorDown p t)"
definition cursorPrecedingLine :: "params \<Rightarrow> terminal_state \<Rightarrow> terminal_state" where "cursorPrecedingLine p t = set_x 0 (cursorUp p t)"
definition cursorCharAbsolute :: "params \<Rightarrow> terminal_state \<Rightarrow> terminal_state" where
  "cursorCharAbsolute p t = setCursor (par1 p 0 - 1) (ypos t) t"
definition cursorPosition :: "params \<Rightarrow> terminal_state \<Rightarrow> terminal_state" where
  "cursorPosition p = setCursor (if 2 \<le> plen p then par1 p 1 - 1 else 0) (par1 p 0 - 1)"
definition charPosAbsolute :: "params \<Rightarrow> terminal_state \<Rightarrow> terminal_state" where
  "charPosAbsolute p t = setCursor (par1 p 0 - 1) (ypos t) t"
definition hPositionRelative :: "params \<Rightarrow> terminal_state \<Rightarrow> terminal_state" where "hPositionRelative p = moveCursor (par1 p 0) 0"
definition linePosAbsolute :: "params \<Rightarrow> terminal_state \<Rightarrow> terminal_state" where
  "linePosAbsolute p t = setCursor (xpos t) (par1 p 0 - 1) t"
definition vPositionRelative :: "params \<Rightarrow> terminal_state \<Rightarrow> terminal_state" where "vPositionRelative p = moveCursor 0 (par1 p 0)"
definition hVPosition :: "params \<Rightarrow> terminal_state \<Rightarrow> terminal_state" where "hVPosition p = cursorPosition p"

definition setScrollRegion :: "params \<Rightarrow> terminal_state \<Rightarrow> terminal_state" where
  "setScrollRegion p t =
     (let i = par1 p 0;
          r = (if plen p < 2 \<or> rows t < par p 1 \<or> par p 1 = 0 then rows t else par p 1)
      in if i < r then
           setCursor 0 0 (upd_active (\<lambda>b. b\<lparr>scrollTop := i - 1, scrollBottom := r - 1\<rparr>) t)
         else t)"

subsection \<open>Tab stops\<close>

definition tabClear :: "params \<Rightarrow> terminal_state \<Rightarrow> terminal_state" where
  "tabClear p t =
     (if par p 0 = 0 then upd_active (\<lambda>b. b\<lparr>tabs := tabs b - {cx b}\<rparr>) t
      else if par p 0 = 3 then upd_active (\<lambda>b. b\<lparr>tabs := {}\<rparr>) t
      else t)"

definition tabSet :: "terminal_state \<Rightarrow> terminal_state" where
  "tabSet = upd_active (\<lambda>b. b\<lparr>tabs := insert (cx b) (tabs b)\<rparr>)"

definition cursorForwardTab :: "params \<Rightarrow> terminal_state \<Rightarrow> terminal_state" where
  "cursorForwardTab p t =
     (if cols t \<le> xpos t then t
      else upd_active ((\<lambda>b. b\<lparr>cx := nextStop b (cx b)\<rparr>) ^^ nat (par1 p 0)) t)"

definition cursorBackwardTab :: "params \<Rightarrow> terminal_state \<Rightarrow> terminal_state" where
  "cursorBackwardTab p t =
     (if cols t \<le> xpos t then t
      else upd_active ((\<lambda>b. b\<lparr>cx := prevStop b (cx b)\<rparr>) ^^ nat (par1 p 0)) t)"

text \<open>The handler of HT.\<close>

definition tab :: "terminal_state \<Rightarrow> terminal_state" where
  "tab t =
     (if cols t \<le> xpos t then t
      else
        (let e = xpos t;
             t1 = set_x (nextStop (active t) e) t
         in if screenReaderMode (options t) then emit (On_a11y_tab (xpos t1 - e)) t1 else t1))"

subsection \<open>Control characters\<close>

definition lineFeed :: "terminal_state \<Rightarrow> terminal_state option" where
  "lineFeed t =
     do {
       let t1 = markDirty (ypos t) t;
       let t2 = (if convertEol (options t) then set_x 0 t1 else t1);
       let t3 = set_y (ypos t + 1) t2;
       t4 \<leftarrow> (if ypos t3 = scrollBottom (active t3) + 1 then scroll_erased False (set_y (ypos t3 - 1) t3)
              else if rows t \<le> ypos t3 then Some (set_y (rows t - 1) t3)
              else upd_line (abs_row (ypos t3) t3) (\<lambda>l. l\<lparr>isWrapped := False\<rparr>) t3);
       let t5 = (if cols t \<le> xpos t4 then set_x (xpos t4 - 1) t4 else t4);
       Some (emit On_line_feed (markDirty (ypos t5) t5))
     }"

definition carriageReturn :: "terminal_state \<Rightarrow> terminal_state" where
  "carriageReturn = set_x 0"

definition wrapped_here :: "terminal_state \<Rightarrow> bool" where
  "wrapped_here t = wrapped_at (active t) (abs_row (ypos t) t)"

definition backspace :: "terminal_state \<Rightarrow> terminal_state option" where
  "backspace t =
     (if \<not> reverseWraparound (dec t) then
        (let t1 = restrict_default t in Some (if 0 < xpos t1 then set_x (xpos t1 - 1) t1 else t1))
      else
        (let t1 = restrictCursor (cols t) t
         in do {
              t2 \<leftarrow>
                (if 0 < xpos t1 then Some (set_x (xpos t1 - 1) t1)
                 else if scrollTop (active t1) < ypos t1 \<and> ypos t1 \<le> scrollBottom (active t1) \<and> wrapped_here t1 then
                   do {
                     t3 \<leftarrow> upd_line (abs_row (ypos t1) t1) (\<lambda>l. l\<lparr>isWrapped := False\<rparr>) t1;
                     let t4 = set_x (cols t - 1) (set_y (ypos t3 - 1) t3);
                     l \<leftarrow> line_here (abs_row (ypos t4) t4) t4;
                     Some (if hasWidth l (xpos t4) \<and> \<not> hasContent l (xpos t4) then set_x (xpos t4 - 1) t4 else t4)
                   }
                 else Some t1);
              Some (restrict_default t2)
            }))"

definition shiftOut :: "terminal_state \<Rightarrow> terminal_state" where "shiftOut = setgLevel 1"
definition shiftIn :: "terminal_state \<Rightarrow> terminal_state" where "shiftIn = setgLevel 0"

definition index :: "terminal_state \<Rightarrow> terminal_state option" where
  "index t =
     do {
       let t1 = restrict_default t;
       let t2 = set_y (ypos t1 + 1) t1;
       t3 \<leftarrow> (if ypos t2 = scrollBottom (active t2) + 1 then scroll_erased False (set_y (ypos t2 - 1) t2)
              else Some (if rows t \<le> ypos t2 then set_y (rows t - 1) t2 else t2));
       Some (restrict_default t3)
     }"

definition nextLine :: "terminal_state \<Rightarrow> terminal_state option" where
  "nextLine t = index (set_x 0 t)"

definition reverseIndex :: "terminal_state \<Rightarrow> terminal_state option" where
  "reverseIndex t =
     (let t1 = restrict_default t;
          b = active t1
      in if cy b = scrollTop b then
           do {
             b1 \<leftarrow> lines_shift (ybase b + cy b) (scrollBottom b - scrollTop b) 1 b;
             let b2 = put_line (ybase b + cy b) (blank_here t1) b1;
             Some (markRangeDirty (scrollTop b) (scrollBottom b) (keep_eraseAttr (set_active b2 t1)))
           }
         else Some (restrict_default (set_y (cy b - 1) t1)))"

subsection \<open>Saving and restoring\<close>

definition saveCursor :: "terminal_state \<Rightarrow> terminal_state" where
  "saveCursor t =
     upd_active
       (\<lambda>b. b\<lparr>savedX := cx b, savedY := ybase b + cy b,
              savedAttr := (savedAttr b)\<lparr>fg := fg (curAttr t), bg := bg (curAttr t)\<rparr>,
              savedCharset := charset_now t\<rparr>) t"

text \<open>\<open>this._savedCharset\<close> is never set, so it is \<open>undefined\<close>.\<close>

definition restoreCursor :: "terminal_state \<Rightarrow> terminal_state" where
  "restoreCursor t =
     (let b = active t;
          t1 = set_y (max (savedY b - ybase b) 0) (set_x (savedX b) t);
          t2 = t1\<lparr>curAttr := (curAttr t1)\<lparr>fg := fg (savedAttr b), bg := bg (savedAttr b)\<rparr>,
                  charset_now := savedCharset b\<rparr>
      in restrict_default t2)"

end
