(* ===== verification/Xterm_Color.thy ===== *)
theory Xterm_Color
  imports Xterm_Decode
begin

text \<open>
  Colours in control strings: \<open>Ws\<close> parses the forms of \<open>XParseColor\<close> that the terminal takes,
  \<open>rgb:r/g/b\<close> with one to four hexadecimal digits each and \<open>#rgb\<close> with one to four, and \<open>ml\<close> writes the
  answer to a query. Upper case letters are lowered first; the only other letters whose lower case is ASCII
  are no hexadecimal digits.
\<close>

definition code_of :: "char \<Rightarrow> cu" where
  "code_of c = of_nat (of_char c)"

definition lower_unit :: "cu \<Rightarrow> cu" where
  "lower_unit c = (if code_of CHR ''A'' \<le> c \<and> c \<le> code_of CHR ''Z'' then c + 32 else c)"

definition is_hex :: "cu \<Rightarrow> bool" where
  "is_hex c \<longleftrightarrow> code_of CHR ''0'' \<le> c \<and> c \<le> code_of CHR ''9'' \<or> code_of CHR ''a'' \<le> c \<and> c \<le> code_of CHR ''f''"

definition hex_value :: "cu \<Rightarrow> nat" where
  "hex_value c = (if c \<le> code_of CHR ''9'' then unat c - 48 else unat c - 87)"

definition parse_hex :: "ustring \<Rightarrow> nat" where
  "parse_hex s = foldl (\<lambda>n c. n * 16 + hex_value c) 0 s"

text \<open>\<open>split\<close> at a code unit.\<close>

fun split_at :: "cu \<Rightarrow> ustring \<Rightarrow> ustring list" where
  "split_at d [] = [[]]"
| "split_at d (c # s) =
     (if c = d then [] # split_at d s
      else (case split_at d s of [] \<Rightarrow> [[c]] | w # ws \<Rightarrow> (c # w) # ws))"

text \<open>
  \<open>Math.round(n / i * 255)\<close>. The quotient is never halfway between two integers and the rounding errors
  are far smaller than its distance from that, so this is the rounding of the exact quotient.
\<close>

definition scale_color :: "nat \<Rightarrow> nat \<Rightarrow> nat" where
  "scale_color n i = (2 * n * 255 + i) div (2 * i)"

definition digits_max :: "nat \<Rightarrow> nat" where
  "digits_max k = (if k = 1 then 15 else if k = 2 then 255 else if k = 3 then 4095 else 65535)"

definition rgb_form :: "ustring \<Rightarrow> (nat \<times> nat \<times> nat) option" where
  "rgb_form s =
     (case split_at (code_of CHR ''/'') s of
        [r, g, b] \<Rightarrow>
          (if length r = length g \<and> length g = length b \<and> 1 \<le> length r \<and> length r \<le> 4 \<and>
              list_all is_hex (r @ g @ b) then
             (let i = digits_max (length r)
              in Some (scale_color (parse_hex r) i, scale_color (parse_hex g) i, scale_color (parse_hex b) i))
           else None)
      | _ \<Rightarrow> None)"

definition hash_digit :: "nat \<Rightarrow> nat \<Rightarrow> nat" where
  "hash_digit k n =
     (if k = 1 then push_bit 4 n else if k = 2 then n else if k = 3 then drop_bit 4 n else drop_bit 8 n)"

definition hash_form :: "ustring \<Rightarrow> (nat \<times> nat \<times> nat) option" where
  "hash_form s =
     (if s \<noteq> [] \<and> list_all is_hex s \<and> length s \<in> {3, 6, 9, 12} then
        (let k = length s div 3;
             v = (\<lambda>r. hash_digit k (parse_hex (take k (drop (k * r) s))))
         in Some (v 0, v 1, v 2))
      else None)"

definition parse_color :: "ustring \<Rightarrow> (nat \<times> nat \<times> nat) option" where
  "parse_color s =
     (if s = [] then None
      else
        (let t = map lower_unit s
         in if take 4 t = ustr ''rgb:'' then rgb_form (drop 4 t)
            else if take 1 t = ustr ''#'' then hash_form (drop 1 t)
            else None))"

subsection \<open>Writing colours\<close>

text \<open>\<open>toString(16)\<close>.\<close>

fun to_hex :: "nat \<Rightarrow> string" where
  "to_hex n = (if n < 16 then [hex_digit n] else to_hex (n div 16) @ [hex_digit (n mod 16)])"

declare to_hex.simps [simp del]

definition pad_color :: "nat \<Rightarrow> nat \<Rightarrow> string" where
  "pad_color n bits =
     (let e = to_hex n;
          i = (if length e < 2 then CHR ''0'' # e else e)
      in if bits = 4 then take 1 e
         else if bits = 8 then i
         else if bits = 12 then take 3 (i @ i)
         else i @ i)"

definition toRgbString :: "nat \<times> nat \<times> nat \<Rightarrow> nat \<Rightarrow> ustring" where
  "toRgbString c bits =
     (case c of (r, g, b) \<Rightarrow>
        ustr (''rgb:'' @ pad_color r bits @ ''/'' @ pad_color g bits @ ''/'' @ pad_color b bits))"

end
