(* ===== verification/Xterm_Attributes.thy ===== *)
theory Xterm_Attributes
  imports Xterm_Cells Xterm_Params
begin

text \<open>
  Select graphic rendition, \<open>CSI m\<close>: how \<open>InputHandler\<close> changes the current attributes. A colour after 38, 48
  or 58 is given in further parameters or in sub-parameters; the code collects them into an array of six
  numbers, where an empty sub-parameter (-1) in the third place stands for the colour space.
\<close>

definition updateAttrColor :: "u32 \<Rightarrow> int \<Rightarrow> int \<Rightarrow> int \<Rightarrow> int \<Rightarrow> u32" where
  "updateAttrColor e mode c1 c2 c3 =
     (if mode = 2 then
        ((e OR 0x3000000) AND 0xFF000000) OR fromColorRGB (of_int c1, of_int c2, of_int c3)
      else if mode = 5 then (e AND 0xFCFFFF00) OR (0x2000000 OR (of_int c1 AND 255))
      else e)"

text \<open>The inner loop over the sub-parameters, from the \<open>u\<close>-th on.\<close>

fun take_subs :: "nat \<Rightarrow> int list \<Rightarrow> nat \<Rightarrow> int list \<Rightarrow> nat \<Rightarrow> int list \<times> nat" where
  "take_subs l [] u n o2 = (n, o2)"
| "take_subs l (x # xs) u n o2 =
     (let o' = (if n ! 1 = 5 then 1 else o2);
          n' = n[l + u + 1 + o' := x]
      in if xs \<noteq> [] \<and> Suc u + l + 1 + o' < 6 then take_subs l xs (Suc u) n' o' else (n', o'))"

text \<open>The loop over the parameters from the \<open>i\<close>-th on: the array and the number of parameters passed.\<close>

function color_loop :: "params \<Rightarrow> nat \<Rightarrow> nat \<Rightarrow> int list \<Rightarrow> nat \<Rightarrow> int list \<times> nat" where
  "color_loop p i l n o2 =
     (let n1 = n[l + o2 := ps p ! (i + l)]
      in case getSubParams p (i + l) of
           Some a \<Rightarrow> (fst (take_subs l a 0 n1 o2), l)
         | None \<Rightarrow>
             if n1 ! 1 = 5 \<and> 2 \<le> l + o2 \<or> n1 ! 1 = 2 \<and> 5 \<le> l + o2 then (n1, l)
             else
               (let o' = (if n1 ! 1 \<noteq> 0 then 1 else o2)
                in if Suc l + i < plen p \<and> Suc l + o' < 6 then color_loop p i (Suc l) n1 o' else (n1, Suc l)))"
  by pat_completeness auto
termination by (relation "measure (\<lambda>(p, i, l, n, o2). 6 - l)") auto

declare color_loop.simps [simp del]

definition default_missing :: "int list \<Rightarrow> int list" where
  "default_missing n = take 2 n @ map (\<lambda>v. if v = -1 then 0 else v) (drop 2 n)"

definition apply_color :: "int list \<Rightarrow> attr \<Rightarrow> attr" where
  "apply_color n a =
     (let c = (\<lambda>e. updateAttrColor e (n ! 1) (n ! 3) (n ! 4) (n ! 5))
      in if n ! 0 = 38 then a\<lparr>fg := c (fg a)\<rparr>
         else if n ! 0 = 48 then a\<lparr>bg := c (bg a)\<rparr>
         else if n ! 0 = 58 then
           a\<lparr>extended := set_underlineColor (c (underlineColor (extended a))) (extended a)\<rparr>
         else a)"

definition extractColor :: "params \<Rightarrow> nat \<Rightarrow> attr \<Rightarrow> nat \<times> attr" where
  "extractColor p i a =
     (let (n, l) = color_loop p i 0 [0, 0, -1, 0, 0, 0] 0 in (l, apply_color (default_missing n) a))"

definition processUnderline :: "int \<Rightarrow> attr \<Rightarrow> attr" where
  "processUnderline e a =
     (let e' = (if e = -1 \<or> 5 < e then 1 else e);
          a1 = a\<lparr>extended := set_underlineStyle (of_int e') (extended a), fg := fg a OR 0x10000000\<rparr>;
          a2 = (if e' = 0 then a1\<lparr>fg := fg a1 AND NOT 0x10000000\<rparr> else a1)
      in updateExtended a2)"

definition processSGR0 :: "attr \<Rightarrow> attr" where
  "processSGR0 a =
     (let x = set_underlineStyle 0 (extended a)
      in updateExtended
           (a\<lparr>fg := 0, bg := 0, extended := set_underlineColor (underlineColor x AND NOT 0x3FFFFFF) x\<rparr>))"

definition on_fg :: "(u32 \<Rightarrow> u32) \<Rightarrow> attr \<Rightarrow> attr" where "on_fg f a = a\<lparr>fg := f (fg a)\<rparr>"
definition on_bg :: "(u32 \<Rightarrow> u32) \<Rightarrow> attr \<Rightarrow> attr" where "on_bg f a = a\<lparr>bg := f (bg a)\<rparr>"

definition palette :: "int \<Rightarrow> u32 \<Rightarrow> u32 \<Rightarrow> u32" where
  "palette r bright e = (e AND 0xFCFFFF00) OR (0x1000000 OR of_int r OR bright)"

definition default_color :: "u32 \<Rightarrow> u32" where
  "default_color e = (e AND 0xFC000000) OR (0 AND 0xFFFFFF)"

text \<open>One parameter other than 38, 48 and 58; 100 is a colour, so its later meaning is never reached.\<close>

definition sgr :: "params \<Rightarrow> nat \<Rightarrow> attr \<Rightarrow> attr" where
  "sgr p i a =
     (let r = ps p ! i
      in if 30 \<le> r \<and> r \<le> 37 then on_fg (palette (r - 30) 0) a
         else if 40 \<le> r \<and> r \<le> 47 then on_bg (palette (r - 40) 0) a
         else if 90 \<le> r \<and> r \<le> 97 then on_fg (palette (r - 90) 8) a
         else if 100 \<le> r \<and> r \<le> 107 then on_bg (palette (r - 100) 8) a
         else if r = 0 then processSGR0 a
         else if r = 1 then on_fg (\<lambda>e. e OR 0x8000000) a
         else if r = 3 then on_bg (\<lambda>e. e OR 0x4000000) a
         else if r = 4 then
           processUnderline (case getSubParams p i of None \<Rightarrow> 1 | Some s \<Rightarrow> s ! 0) (on_fg (\<lambda>e. e OR 0x10000000) a)
         else if r = 5 then on_fg (\<lambda>e. e OR 0x20000000) a
         else if r = 7 then on_fg (\<lambda>e. e OR 0x4000000) a
         else if r = 8 then on_fg (\<lambda>e. e OR 0x40000000) a
         else if r = 9 then on_fg (\<lambda>e. e OR 0x80000000) a
         else if r = 2 then on_bg (\<lambda>e. e OR 0x8000000) a
         else if r = 21 then processUnderline 2 a
         else if r = 22 then on_bg (\<lambda>e. e AND NOT 0x8000000) (on_fg (\<lambda>e. e AND NOT 0x8000000) a)
         else if r = 23 then on_bg (\<lambda>e. e AND NOT 0x4000000) a
         else if r = 24 then processUnderline 0 (on_fg (\<lambda>e. e AND NOT 0x10000000) a)
         else if r = 25 then on_fg (\<lambda>e. e AND NOT 0x20000000) a
         else if r = 27 then on_fg (\<lambda>e. e AND NOT 0x4000000) a
         else if r = 28 then on_fg (\<lambda>e. e AND NOT 0x40000000) a
         else if r = 29 then on_fg (\<lambda>e. e AND 0x7FFFFFFF) a
         else if r = 39 then on_fg default_color a
         else if r = 49 then on_bg default_color a
         else if r = 53 then on_bg (\<lambda>e. e OR 0x40000000) a
         else if r = 55 then on_bg (\<lambda>e. e AND NOT 0x40000000) a
         else if r = 59 then updateExtended (a\<lparr>extended := set_underlineColor (-1) (extended a)\<rparr>)
         else a)"

definition is_color :: "int \<Rightarrow> bool" where
  "is_color r \<longleftrightarrow> r = 38 \<or> r = 48 \<or> r = 58"

function sgr_loop :: "params \<Rightarrow> nat \<Rightarrow> attr \<Rightarrow> attr" where
  "sgr_loop p i a =
     (if i < plen p then
        (if is_color (ps p ! i) then (let (l, a') = extractColor p i a in sgr_loop p (i + l + 1) a')
         else sgr_loop p (i + 1) (sgr p i a))
      else a)"
  by pat_completeness auto
termination by (relation "measure (\<lambda>(p, i, a). plen p - i)") auto

declare sgr_loop.simps [simp del]

text \<open>\<open>charAttributes\<close> on the current attributes.\<close>

definition sgr_attributes :: "params \<Rightarrow> attr \<Rightarrow> attr" where
  "sgr_attributes p a = (if plen p = 1 \<and> ps p ! 0 = 0 then processSGR0 a else sgr_loop p 0 a)"

end
