(* ===== verification/Xterm_Modes.thy ===== *)
theory Xterm_Modes
  imports Xterm_Cursor Xterm_Color Xterm_Attributes
begin

text \<open>
  The handlers of \<open>InputHandler\<close> for modes, reports, titles, charsets, colours and hyperlinks. What a handler
  asks of the terminal's user interface is an event.

  Mode 3 (132 columns) is off unless the option \<open>setWinLines\<close> is on; then the code resizes the buffers, which
  is left to the argument \<open>resize\<close>.
\<close>

definition upd_dec :: "(dec_modes \<Rightarrow> dec_modes) \<Rightarrow> terminal_state \<Rightarrow> terminal_state" where
  "upd_dec f t = t\<lparr>dec := f (dec t)\<rparr>"

definition ESC :: ustring where "ESC = [27]"

subsection \<open>Setting and resetting modes\<close>

definition set_convertEol :: "bool \<Rightarrow> terminal_state \<Rightarrow> terminal_state" where
  "set_convertEol v = set_option ''convertEol'' (\<lambda>q. q\<lparr>convertEol := v\<rparr>)"

definition set_cursorBlink :: "bool \<Rightarrow> terminal_state \<Rightarrow> terminal_state" where
  "set_cursorBlink v = set_option ''cursorBlink'' (\<lambda>q. q\<lparr>opt_cursorBlink := v\<rparr>)"

definition ansi_mode :: "bool \<Rightarrow> int \<Rightarrow> terminal_state \<Rightarrow> terminal_state" where
  "ansi_mode v m t = (if m = 4 then t\<lparr>insertMode := v\<rparr> else if m = 20 then set_convertEol v t else t)"

text \<open>The first parameters of a sequence, in order.\<close>

definition for_params :: "(int \<Rightarrow> 's \<Rightarrow> 's) \<Rightarrow> params \<Rightarrow> 's \<Rightarrow> 's" where
  "for_params f p = fold f (take (plen p) (ps p))"

definition setMode :: "params \<Rightarrow> terminal_state \<Rightarrow> terminal_state" where "setMode = for_params (ansi_mode True)"
definition resetMode :: "params \<Rightarrow> terminal_state \<Rightarrow> terminal_state" where "resetMode = for_params (ansi_mode False)"

definition default_charsets :: "terminal_state \<Rightarrow> terminal_state" where
  "default_charsets t = setgCharset 3 None (setgCharset 2 None (setgCharset 1 None (setgCharset 0 None t)))"

definition refresh_all :: "terminal_state \<Rightarrow> terminal_state" where
  "refresh_all t = emit On_sync_scroll_bar (emit (On_refresh_rows None) (t\<lparr>isCursorInitialized := True\<rparr>))"

definition use_alt :: "terminal_state \<Rightarrow> terminal_state" where
  "use_alt t = refresh_all (activateAltBuffer (eraseAttrData t) (keep_eraseAttr t))"

definition use_normal :: "bool \<Rightarrow> terminal_state \<Rightarrow> terminal_state" where
  "use_normal restore t =
     (let t1 = activateNormalBuffer t in refresh_all (if restore then restoreCursor t1 else t1))"

definition set_columns :: "(int \<Rightarrow> int \<Rightarrow> terminal_state \<Rightarrow> terminal_state) \<Rightarrow> int \<Rightarrow> terminal_state \<Rightarrow> terminal_state" where
  "set_columns resize n t =
     (if ''setWinLines'' \<in> set (windowOptions (options t)) then emit On_request_reset (resize n (rows t) t) else t)"

definition dec_set :: "(int \<Rightarrow> int \<Rightarrow> terminal_state \<Rightarrow> terminal_state) \<Rightarrow> int \<Rightarrow> terminal_state \<Rightarrow> terminal_state" where
  "dec_set resize m t =
     (if m = 1 then upd_dec (\<lambda>d. d\<lparr>applicationCursorKeys := True\<rparr>) t
      else if m = 2 then default_charsets t
      else if m = 3 then set_columns resize 132 t
      else if m = 6 then setCursor 0 0 (upd_dec (\<lambda>d. d\<lparr>origin := True\<rparr>) t)
      else if m = 7 then upd_dec (\<lambda>d. d\<lparr>wraparound := True\<rparr>) t
      else if m = 12 then set_cursorBlink True t
      else if m = 45 then upd_dec (\<lambda>d. d\<lparr>reverseWraparound := True\<rparr>) t
      else if m = 66 then emit On_sync_scroll_bar (upd_dec (\<lambda>d. d\<lparr>applicationKeypad := True\<rparr>) t)
      else if m = 9 then set_activeProtocol X10 t
      else if m = 1000 then set_activeProtocol VT200 t
      else if m = 1002 then set_activeProtocol DRAG t
      else if m = 1003 then set_activeProtocol ANY t
      else if m = 1004 then emit On_request_send_focus (upd_dec (\<lambda>d. d\<lparr>sendFocus := True\<rparr>) t)
      else if m = 1006 then t\<lparr>activeEncoding := SGR\<rparr>
      else if m = 1016 then t\<lparr>activeEncoding := SGR_PIXELS\<rparr>
      else if m = 25 then t\<lparr>isCursorHidden := False\<rparr>
      else if m = 1048 then saveCursor t
      else if m = 1049 then use_alt (saveCursor t)
      else if m = 47 \<or> m = 1047 then use_alt t
      else if m = 2004 then upd_dec (\<lambda>d. d\<lparr>bracketedPasteMode := True\<rparr>) t
      else if m = 2026 then upd_dec (\<lambda>d. d\<lparr>synchronizedOutput := True\<rparr>) t
      else t)"

definition dec_reset :: "(int \<Rightarrow> int \<Rightarrow> terminal_state \<Rightarrow> terminal_state) \<Rightarrow> int \<Rightarrow> terminal_state \<Rightarrow> terminal_state" where
  "dec_reset resize m t =
     (if m = 1 then upd_dec (\<lambda>d. d\<lparr>applicationCursorKeys := False\<rparr>) t
      else if m = 3 then set_columns resize 80 t
      else if m = 6 then setCursor 0 0 (upd_dec (\<lambda>d. d\<lparr>origin := False\<rparr>) t)
      else if m = 7 then upd_dec (\<lambda>d. d\<lparr>wraparound := False\<rparr>) t
      else if m = 12 then set_cursorBlink False t
      else if m = 45 then upd_dec (\<lambda>d. d\<lparr>reverseWraparound := False\<rparr>) t
      else if m = 66 then emit On_sync_scroll_bar (upd_dec (\<lambda>d. d\<lparr>applicationKeypad := False\<rparr>) t)
      else if m = 9 \<or> m = 1000 \<or> m = 1002 \<or> m = 1003 then set_activeProtocol NONE t
      else if m = 1004 then upd_dec (\<lambda>d. d\<lparr>sendFocus := False\<rparr>) t
      else if m = 1006 \<or> m = 1016 then t\<lparr>activeEncoding := DEFAULT\<rparr>
      else if m = 25 then t\<lparr>isCursorHidden := True\<rparr>
      else if m = 1048 then restoreCursor t
      else if m = 1049 \<or> m = 47 \<or> m = 1047 then use_normal (m = 1049) t
      else if m = 2004 then upd_dec (\<lambda>d. d\<lparr>bracketedPasteMode := False\<rparr>) t
      else if m = 2026 then emit (On_refresh_rows None) (upd_dec (\<lambda>d. d\<lparr>synchronizedOutput := False\<rparr>) t)
      else t)"

definition setModePrivate :: "(int \<Rightarrow> int \<Rightarrow> terminal_state \<Rightarrow> terminal_state) \<Rightarrow> params \<Rightarrow> terminal_state \<Rightarrow> terminal_state" where
  "setModePrivate resize = for_params (dec_set resize)"

definition resetModePrivate :: "(int \<Rightarrow> int \<Rightarrow> terminal_state \<Rightarrow> terminal_state) \<Rightarrow> params \<Rightarrow> terminal_state \<Rightarrow> terminal_state" where
  "resetModePrivate resize = for_params (dec_reset resize)"

subsection \<open>Reports\<close>

definition mode_bit :: "bool \<Rightarrow> int" where "mode_bit v = (if v then 1 else 2)"

definition ansi_mode_state :: "int \<Rightarrow> terminal_state \<Rightarrow> int" where
  "ansi_mode_state f t =
     (if f = 2 then 4 else if f = 4 then mode_bit (insertMode t) else if f = 12 then 3
      else if f = 20 then mode_bit (convertEol (options t)) else 0)"

definition dec_mode_state :: "int \<Rightarrow> terminal_state \<Rightarrow> int" where
  "dec_mode_state f t =
     (let n = dec t
      in if f = 1 then mode_bit (applicationCursorKeys n)
         else if f = 3 then
           (if ''setWinLines'' \<in> set (windowOptions (options t)) then (if cols t = 80 then 2 else if cols t = 132 then 1 else 0)
            else 0)
         else if f = 6 then mode_bit (origin n)
         else if f = 7 then mode_bit (wraparound n)
         else if f = 8 then 3
         else if f = 9 then mode_bit (activeProtocol t = X10)
         else if f = 12 then mode_bit (opt_cursorBlink (options t))
         else if f = 25 then mode_bit (\<not> isCursorHidden t)
         else if f = 45 then mode_bit (reverseWraparound n)
         else if f = 66 then mode_bit (applicationKeypad n)
         else if f = 67 then 4
         else if f = 1000 then mode_bit (activeProtocol t = VT200)
         else if f = 1002 then mode_bit (activeProtocol t = DRAG)
         else if f = 1003 then mode_bit (activeProtocol t = ANY)
         else if f = 1004 then mode_bit (sendFocus n)
         else if f = 1005 then 4
         else if f = 1006 then mode_bit (activeEncoding t = SGR)
         else if f = 1015 then 4
         else if f = 1016 then mode_bit (activeEncoding t = SGR_PIXELS)
         else if f = 1048 then 1
         else if f = 47 \<or> f = 1047 \<or> f = 1049 then mode_bit (alt_active t)
         else if f = 2004 then mode_bit (bracketedPasteMode n)
         else if f = 2026 then mode_bit (synchronizedOutput n)
         else 0)"

definition answer :: "ustring \<Rightarrow> terminal_state \<Rightarrow> terminal_state" where
  "answer s = triggerDataEvent s False"

definition requestMode :: "params \<Rightarrow> bool \<Rightarrow> terminal_state \<Rightarrow> terminal_state" where
  "requestMode p ansi t =
     (let f = par p 0;
          v = (if ansi then ansi_mode_state f t else dec_mode_state f t)
      in answer (ESC @ ustr ''['' @ (if ansi then [] else ustr ''?'') @ unum f @ ustr '';'' @ unum v @ ustr ''$y'') t)"

definition term_is :: "string \<Rightarrow> terminal_state \<Rightarrow> bool" where
  "term_is s t \<longleftrightarrow> take (length s) (termName (options t)) = s"

definition sendDeviceAttributesPrimary :: "params \<Rightarrow> terminal_state \<Rightarrow> terminal_state" where
  "sendDeviceAttributesPrimary p t =
     (if 0 < par p 0 then t
      else if term_is ''xterm'' t \<or> term_is ''rxvt-unicode'' t \<or> term_is ''screen'' t then answer (ESC @ ustr ''[?1;2c'') t
      else if term_is ''linux'' t then answer (ESC @ ustr ''[?6c'') t
      else t)"

definition sendDeviceAttributesSecondary :: "params \<Rightarrow> terminal_state \<Rightarrow> terminal_state" where
  "sendDeviceAttributesSecondary p t =
     (if 0 < par p 0 then t
      else if term_is ''xterm'' t then answer (ESC @ ustr ''[>0;276;0c'') t
      else if term_is ''rxvt-unicode'' t then answer (ESC @ ustr ''[>85;95;0c'') t
      else if term_is ''linux'' t then answer (unum (par p 0) @ ustr ''c'') t
      else if term_is ''screen'' t then answer (ESC @ ustr ''[>83;40003;0c'') t
      else t)"

definition cursor_report :: "string \<Rightarrow> terminal_state \<Rightarrow> ustring" where
  "cursor_report prefix t =
     ESC @ ustr ''['' @ ustr prefix @ unum (ypos t + 1) @ ustr '';'' @ unum (xpos t + 1) @ ustr ''R''"

definition deviceStatus :: "params \<Rightarrow> terminal_state \<Rightarrow> terminal_state" where
  "deviceStatus p t =
     (if par p 0 = 5 then answer (ESC @ ustr ''[0n'') t
      else if par p 0 = 6 then answer (cursor_report '''' t) t
      else t)"

definition deviceStatusPrivate :: "params \<Rightarrow> terminal_state \<Rightarrow> terminal_state" where
  "deviceStatusPrivate p t = (if par p 0 = 6 then answer (cursor_report ''?'' t) t else t)"

definition style_number :: "cursor_style \<Rightarrow> int" where
  "style_number s = (case s of Block \<Rightarrow> 2 | Underline \<Rightarrow> 4 | Bar \<Rightarrow> 6)"

definition requestStatusString :: "ustring \<Rightarrow> terminal_state \<Rightarrow> terminal_state" where
  "requestStatusString e t =
     (let b = active t; o2 = options t;
          r = (\<lambda>a. answer (ESC @ a @ ESC @ [92]) t)
      in if e = ustr [CHR 0x22, CHR ''q''] then
           r (ustr ''P1$r'' @ unum (if isProtected (curAttr t) then 1 else 0) @ ustr [CHR 0x22, CHR ''q''])
         else if e = ustr [CHR 0x22, CHR ''p''] then r (ustr (''P1$r61;1'' @ [CHR 0x22, CHR ''p'']))
         else if e = ustr ''r'' then
           r (ustr ''P1$r'' @ unum (scrollTop b + 1) @ ustr '';'' @ unum (scrollBottom b + 1) @ ustr ''r'')
         else if e = ustr ''m'' then r (ustr ''P1$r0m'')
         else if e = ustr '' q'' then
           r (ustr ''P1$r'' @ unum (style_number (opt_cursorStyle o2) - (if opt_cursorBlink o2 then 1 else 0)) @ ustr '' q'')
         else r (ustr ''P0$r''))"

text \<open>The window operations that the option allows (\<open>bl\<close>).\<close>

definition window_option_name :: "int \<Rightarrow> string option" where
  "window_option_name n =
     (if 24 < n then Some ''setWinLines''
      else
        map_of
          [(1, ''restoreWin''), (2, ''minimizeWin''), (3, ''setWinPosition''), (4, ''setWinSizePixels''),
           (5, ''raiseWin''), (6, ''lowerWin''), (7, ''refreshWin''), (8, ''setWinSizeChars''),
           (9, ''maximizeWin''), (10, ''fullscreenWin''), (11, ''getWinState''), (13, ''getWinPosition''),
           (14, ''getWinSizePixels''), (15, ''getScreenSizePixels''), (16, ''getCellSizePixels''),
           (18, ''getWinSizeChars''), (19, ''getScreenSizeChars''), (20, ''getIconTitle''), (21, ''getWinTitle''),
           (22, ''pushTitle''), (23, ''popTitle''), (24, ''setWinLines'')] n)"

definition window_allowed :: "int \<Rightarrow> terminal_state \<Rightarrow> bool" where
  "window_allowed n t =
     (case window_option_name n of None \<Rightarrow> False | Some s \<Rightarrow> s \<in> set (windowOptions (options t)))"

definition setTitle :: "ustring \<Rightarrow> terminal_state \<Rightarrow> terminal_state" where
  "setTitle s t = emit (On_title s) (t\<lparr>windowTitle := s\<rparr>)"

definition setIconName :: "ustring \<Rightarrow> terminal_state \<Rightarrow> terminal_state" where
  "setIconName s t = t\<lparr>iconName := s\<rparr>"

text \<open>The title stacks hold ten titles; the last one is the top.\<close>

definition push_capped :: "ustring \<Rightarrow> ustring list \<Rightarrow> ustring list" where
  "push_capped s xs = (let ys = xs @ [s] in if 10 < length ys then tl ys else ys)"

definition pushTitle :: "int \<Rightarrow> terminal_state \<Rightarrow> terminal_state" where
  "pushTitle i t =
     (let t1 = (if i = 0 \<or> i = 2 then t\<lparr>windowTitleStack := push_capped (windowTitle t) (windowTitleStack t)\<rparr> else t)
      in if i = 0 \<or> i = 1 then t1\<lparr>iconNameStack := push_capped (iconName t1) (iconNameStack t1)\<rparr> else t1)"

definition popTitle :: "int \<Rightarrow> terminal_state \<Rightarrow> terminal_state" where
  "popTitle i t =
     (let ws = windowTitleStack t;
          t1 = (if (i = 0 \<or> i = 2) \<and> ws \<noteq> [] then setTitle (last ws) (t\<lparr>windowTitleStack := butlast ws\<rparr>) else t);
          ns = iconNameStack t1
      in if (i = 0 \<or> i = 1) \<and> ns \<noteq> [] then setIconName (last ns) (t1\<lparr>iconNameStack := butlast ns\<rparr>) else t1)"

definition windowOptions_handler :: "params \<Rightarrow> terminal_state \<Rightarrow> terminal_state" where
  "windowOptions_handler p t =
     (let n = par p 0; i = (if 1 < plen p then par p 1 else 0)
      in if \<not> window_allowed n t then t
         else if n = 14 then (if i \<noteq> 2 then emit (On_windows_report 0) t else t)
         else if n = 16 then emit (On_windows_report 1) t
         else if n = 18 then answer (ESC @ ustr ''[8;'' @ unum (rows t) @ ustr '';'' @ unum (cols t) @ ustr ''t'') t
         else if n = 22 then pushTitle i t
         else if n = 23 then popTitle i t
         else t)"

end
