(* ===== verification/Xterm_Osc.thy ===== *)
theory Xterm_Osc
  imports Xterm_Modes
begin

text \<open>
  The rest of \<open>InputHandler\<close>: selecting charsets (the tables of the national replacement sets, \<open>ne\<close>), the
  operating system commands for titles, colours and hyperlinks, the soft and the full reset.

  Of a replacement the code prints the first code unit only; that of the Dutch \<open>ij\<close> is \<open>i\<close>.
\<close>

subsection \<open>Charsets\<close>

definition charset_special :: "(cp \<times> cp) list" where
  "charset_special =
     [(96, 9670), (97, 9618), (98, 9225), (99, 9228), (100, 9229), (101, 9226), (102, 176), (103, 177),
      (104, 9252), (105, 9227), (106, 9496), (107, 9488), (108, 9484), (109, 9492), (110, 9532),
      (111, 9146), (112, 9147), (113, 9472), (114, 9148), (115, 9149), (116, 9500), (117, 9508),
      (118, 9524), (119, 9516), (120, 9474), (121, 8804), (122, 8805), (123, 960), (124, 8800),
      (125, 163), (126, 183)]"

definition charset_british :: "(cp \<times> cp) list" where
  "charset_british =
     [(35, 163)]"

definition charset_dutch :: "(cp \<times> cp) list" where
  "charset_dutch =
     [(35, 163), (64, 190), (91, 105), (92, 189), (93, 124), (123, 168), (124, 102), (125, 188),
      (126, 180)]"

definition charset_finnish :: "(cp \<times> cp) list" where
  "charset_finnish =
     [(91, 196), (92, 214), (93, 197), (94, 220), (96, 233), (123, 228), (124, 246), (125, 229),
      (126, 252)]"

definition charset_french :: "(cp \<times> cp) list" where
  "charset_french =
     [(35, 163), (64, 224), (91, 176), (92, 231), (93, 167), (123, 233), (124, 249), (125, 232),
      (126, 168)]"

definition charset_french_canadian :: "(cp \<times> cp) list" where
  "charset_french_canadian =
     [(64, 224), (91, 226), (92, 231), (93, 234), (94, 238), (96, 244), (123, 233), (124, 249),
      (125, 232), (126, 251)]"

definition charset_german :: "(cp \<times> cp) list" where
  "charset_german =
     [(64, 167), (91, 196), (92, 214), (93, 220), (123, 228), (124, 246), (125, 252), (126, 223)]"

definition charset_italian :: "(cp \<times> cp) list" where
  "charset_italian =
     [(35, 163), (64, 167), (91, 176), (92, 231), (93, 233), (96, 249), (123, 224), (124, 242),
      (125, 232), (126, 236)]"

definition charset_norwegian :: "(cp \<times> cp) list" where
  "charset_norwegian =
     [(64, 196), (91, 198), (92, 216), (93, 197), (94, 220), (96, 228), (123, 230), (124, 248),
      (125, 229), (126, 252)]"

definition charset_spanish :: "(cp \<times> cp) list" where
  "charset_spanish =
     [(35, 163), (64, 167), (91, 161), (92, 209), (93, 191), (123, 176), (124, 241), (125, 231)]"

definition charset_swedish :: "(cp \<times> cp) list" where
  "charset_swedish =
     [(64, 201), (91, 196), (92, 214), (93, 197), (94, 220), (96, 233), (123, 228), (124, 246),
      (125, 229), (126, 252)]"

definition charset_swiss :: "(cp \<times> cp) list" where
  "charset_swiss =
     [(35, 249), (64, 224), (91, 233), (92, 231), (93, 234), (94, 238), (95, 232), (96, 244), (123, 228),
      (124, 246), (125, 252), (126, 251)]"

text \<open>\<open>ne[c]\<close>; the ASCII set \<open>B\<close> is \<open>undefined\<close>, which means no replacements.\<close>

definition national_set :: "char \<Rightarrow> charset option" where
  "national_set c =
     map_option map_of
       (map_of
         [(CHR ''0'', charset_special), (CHR ''A'', charset_british), (CHR ''4'', charset_dutch),
          (CHR ''C'', charset_finnish), (CHR ''5'', charset_finnish), (CHR ''R'', charset_french),
          (CHR ''Q'', charset_french_canadian), (CHR ''K'', charset_german), (CHR ''Y'', charset_italian),
          (CHR ''E'', charset_norwegian), (CHR ''6'', charset_norwegian), (CHR ''Z'', charset_spanish),
          (CHR ''H'', charset_swedish), (CHR ''7'', charset_swedish), (CHR ''='', charset_swiss)] c)"

text \<open>The level that an intermediate designates (\<open>mc\<close>).\<close>

definition charset_level :: "char \<Rightarrow> nat option" where
  "charset_level c =
     map_of [(CHR ''('', 0), (CHR '')'', 1), (CHR ''*'', 2), (CHR ''+'', 3), (CHR ''-'', 1), (CHR ''.'', 2)] c"

definition selectDefaultCharset :: "terminal_state \<Rightarrow> terminal_state" where
  "selectDefaultCharset t = setgCharset 0 None (setgLevel 0 t)"

definition selectCharset :: "char \<Rightarrow> char \<Rightarrow> terminal_state \<Rightarrow> terminal_state" where
  "selectCharset i c t =
     (case charset_level i of None \<Rightarrow> t | Some g \<Rightarrow> setgCharset g (national_set c) t)"

subsection \<open>Keypad, protection, attributes and resets\<close>

definition keypadApplicationMode :: "terminal_state \<Rightarrow> terminal_state" where
  "keypadApplicationMode t = emit On_sync_scroll_bar (upd_dec (\<lambda>d. d\<lparr>applicationKeypad := True\<rparr>) t)"

definition keypadNumericMode :: "terminal_state \<Rightarrow> terminal_state" where
  "keypadNumericMode t = emit On_sync_scroll_bar (upd_dec (\<lambda>d. d\<lparr>applicationKeypad := False\<rparr>) t)"

definition selectProtected :: "params \<Rightarrow> terminal_state \<Rightarrow> terminal_state" where
  "selectProtected p t =
     (let i = par p 0; a = curAttr t
      in if i = 1 then t\<lparr>curAttr := a\<lparr>bg := bg a OR 0x20000000\<rparr>\<rparr>
         else if i = 2 \<or> i = 0 then t\<lparr>curAttr := a\<lparr>bg := bg a AND NOT 0x20000000\<rparr>\<rparr>
         else t)"

definition charAttributes :: "params \<Rightarrow> terminal_state \<Rightarrow> terminal_state" where
  "charAttributes p t = t\<lparr>curAttr := sgr_attributes p (curAttr t)\<rparr>"

definition setCursorStyle :: "params \<Rightarrow> terminal_state \<Rightarrow> terminal_state" where
  "setCursorStyle p t =
     (let i = (if plen p = 0 then 1 else par p 0);
          style = (if i = 1 \<or> i = 2 then Some Block else if i = 3 \<or> i = 4 then Some Underline
                   else if i = 5 \<or> i = 6 then Some Bar else None)
      in if i = 0 then upd_dec (\<lambda>d. d\<lparr>dec_cursorStyle := None, dec_cursorBlink := None\<rparr>) t
         else upd_dec
           (\<lambda>d. d\<lparr>dec_cursorStyle := (if style = None then dec_cursorStyle d else style),
                   dec_cursorBlink := Some (i mod 2 = 1)\<rparr>) t)"

definition softReset :: "params \<Rightarrow> terminal_state \<Rightarrow> terminal_state" where
  "softReset p t =
     (let t1 = emit On_sync_scroll_bar (t\<lparr>isCursorHidden := False\<rparr>);
          t2 = upd_active (\<lambda>b. b\<lparr>scrollTop := 0, scrollBottom := rows t - 1\<rparr>) t1;
          t3 = charset_reset (core_reset (t2\<lparr>curAttr := default_attr\<rparr>));
          t4 = upd_active
                 (\<lambda>b. b\<lparr>savedX := 0, savedY := ybase b,
                        savedAttr := (savedAttr b)\<lparr>fg := fg (curAttr t3), bg := bg (curAttr t3)\<rparr>,
                        savedCharset := charset_now t3\<rparr>) t3
      in upd_dec (\<lambda>d. d\<lparr>origin := False\<rparr>) t4)"

text \<open>
  \<open>CoreTerminal.reset\<close>, which the terminal calls when the handler requests a reset, and \<open>fullReset\<close>. The reset
  of the parser is left out: after \<open>ESC c\<close> it is in the ground state, and its parameters are cleared before the
  next sequence uses them.
\<close>

definition mouse_reset :: "terminal_state \<Rightarrow> terminal_state" where
  "mouse_reset t = (set_activeProtocol NONE t)\<lparr>activeEncoding := DEFAULT\<rparr>"

definition terminal_reset :: "terminal_state \<Rightarrow> terminal_state" where
  "terminal_reset t =
     mouse_reset (core_reset (charset_reset
       ((buffers_reset (t\<lparr>curAttr := default_attr, eraseAttr_internal := default_attr\<rparr>))\<lparr>isUserScrolling := False\<rparr>)))"

definition fullReset :: "terminal_state \<Rightarrow> terminal_state" where
  "fullReset t = terminal_reset (emit On_request_reset (t\<lparr>precedingJoinState := 0\<rparr>))"

text \<open>\<open>Terminal.clear\<close>: the cursor's line becomes the first, all others go.\<close>

definition terminal_clear :: "terminal_state \<Rightarrow> terminal_state" where
  "terminal_clear t =
     (let b = active t
      in if ybase b = 0 \<and> cy b = 0 then t
         else
           (let b1 = update_lines (\<lambda>r. set_length 1 (ring_set 0 (ring_get r (nat (ybase b + cy b))) r)) (clearAllMarkers b);
                b2 = update_lines (ring_push (getBlankLine (cols t) default_attr False) ^^ nat (rows t - 1))
                       (b1\<lparr>ydisp := 0, ybase := 0, cy := 0\<rparr>)
            in emit (On_refresh_rows (Some (0, rows t - 1))) (emit (On_scroll (ydisp b2)) (set_active b2 t))))"

subsection \<open>Colours\<close>

definition all_digits :: "ustring \<Rightarrow> bool" where
  "all_digits s \<longleftrightarrow> s \<noteq> [] \<and> list_all (\<lambda>c. code_of CHR ''0'' \<le> c \<and> c \<le> code_of CHR ''9'') s"

definition decimal :: "ustring \<Rightarrow> nat" where
  "decimal s = foldl (\<lambda>n c. n * 10 + (unat c - 48)) 0 s"

definition semicolon :: cu where "semicolon = 59"

fun indexed_requests :: "ustring list \<Rightarrow> color_request list" where
  "indexed_requests (n # c # rest) =
     (if all_digits n \<and> decimal n < 256 then
        (if c = ustr ''?'' then [Report (decimal n)]
         else (case parse_color c of None \<Rightarrow> [] | Some rgb \<Rightarrow> [Set_color (decimal n) rgb]))
      else []) @ indexed_requests rest"
| "indexed_requests _ = []"

definition fire_colors :: "color_request list \<Rightarrow> terminal_state \<Rightarrow> terminal_state" where
  "fire_colors rs t = (if rs = [] then t else emit (On_color rs) t)"

definition setOrReportIndexedColor :: "ustring \<Rightarrow> terminal_state \<Rightarrow> terminal_state" where
  "setOrReportIndexedColor e = fire_colors (indexed_requests (split_at semicolon e))"

text \<open>The foreground, background and cursor colours are 256, 257 and 258.\<close>

fun special_requests :: "ustring list \<Rightarrow> nat \<Rightarrow> terminal_state \<Rightarrow> terminal_state" where
  "special_requests [] i t = t"
| "special_requests (c # rest) i t =
     (if 3 \<le> i then t
      else
        special_requests rest (Suc i)
          (if c = ustr ''?'' then fire_colors [Report (256 + i)] t
           else (case parse_color c of None \<Rightarrow> t | Some rgb \<Rightarrow> fire_colors [Set_color (256 + i) rgb] t)))"

definition setOrReportSpecialColor :: "ustring \<Rightarrow> nat \<Rightarrow> terminal_state \<Rightarrow> terminal_state" where
  "setOrReportSpecialColor e i = special_requests (split_at semicolon e) i"

definition restoreIndexedColor :: "ustring \<Rightarrow> terminal_state \<Rightarrow> terminal_state" where
  "restoreIndexedColor e t =
     (if e = [] then fire_colors [Restore None] t
      else
        fire_colors
          (map (\<lambda>n. Restore (Some (decimal n)))
            (filter (\<lambda>n. all_digits n \<and> decimal n < 256) (split_at semicolon e))) t)"

subsection \<open>Hyperlinks\<close>

definition js_space :: "cu \<Rightarrow> bool" where
  "js_space c \<longleftrightarrow> 9 \<le> c \<and> c \<le> 13 \<or> c = 32 \<or> c = 160 \<or> c = 0x1680 \<or> 0x2000 \<le> c \<and> c \<le> 0x200A \<or>
     c = 0x2028 \<or> c = 0x2029 \<or> c = 0x202F \<or> c = 0x205F \<or> c = 0x3000 \<or> c = 0xFEFF"

definition trim :: "ustring \<Rightarrow> ustring" where
  "trim s = rev (dropWhile js_space (rev (dropWhile js_space s)))"

definition link_id :: "ustring \<Rightarrow> ustring option" where
  "link_id e =
     (case List.find (\<lambda>l. take 3 l = ustr ''id='') (split_at (code_of CHR '':'') e) of
        None \<Rightarrow> None
      | Some l \<Rightarrow> if drop 3 l = [] then None else Some (drop 3 l))"

definition set_urlId :: "nat \<Rightarrow> terminal_state \<Rightarrow> terminal_state" where
  "set_urlId k t = t\<lparr>curAttr := updateExtended ((curAttr t)\<lparr>extended := (extended (curAttr t))\<lparr>urlId := k\<rparr>\<rparr>)\<rparr>"

definition finishHyperlink :: "terminal_state \<Rightarrow> terminal_state" where
  "finishHyperlink = set_urlId 0"

definition createHyperlink :: "ustring \<Rightarrow> ustring \<Rightarrow> terminal_state \<Rightarrow> terminal_state" where
  "createHyperlink e uri t =
     (let t1 = (if urlId (extended (curAttr t)) \<noteq> 0 then finishHyperlink t else t);
          (k, t2) = registerLink (link_id e) uri t1
      in set_urlId k t2)"

definition setHyperlink :: "ustring \<Rightarrow> terminal_state \<Rightarrow> terminal_state" where
  "setHyperlink e t =
     (if semicolon \<notin> set e then t
      else
        (let r = trim (takeWhile (\<lambda>c. c \<noteq> semicolon) e);
             n = drop 1 (dropWhile (\<lambda>c. c \<noteq> semicolon) e)
         in if n \<noteq> [] then createHyperlink r n t
            else if trim r \<noteq> [] then t
            else finishHyperlink t))"

subsection \<open>Commands\<close>

definition bell :: "terminal_state \<Rightarrow> terminal_state" where "bell = emit On_bell"

definition osc_handler :: "int \<Rightarrow> ustring \<Rightarrow> terminal_state \<Rightarrow> terminal_state" where
  "osc_handler n s t =
     (if n = 0 then setIconName s (setTitle s t)
      else if n = 1 then setIconName s t
      else if n = 2 then setTitle s t
      else if n = 4 then setOrReportIndexedColor s t
      else if n = 8 then setHyperlink s t
      else if n = 10 then setOrReportSpecialColor s 0 t
      else if n = 11 then setOrReportSpecialColor s 1 t
      else if n = 12 then setOrReportSpecialColor s 2 t
      else if n = 104 then restoreIndexedColor s t
      else if n = 110 then fire_colors [Restore (Some 256)] t
      else if n = 111 then fire_colors [Restore (Some 257)] t
      else if n = 112 then fire_colors [Restore (Some 258)] t
      else t)"

end
