(* ===== verification/Xterm_Mouse.thy ===== *)
theory Xterm_Mouse
  imports Xterm_Osc
begin

unbundle bit_operations_syntax

text \<open>
  The mouse of the terminal: the protocols (\<open>dl\<close> in the bundle), which choose the events to report, the
  encodings (\<open>fl\<close>), the class \<open>CoreMouseService\<close> (\<open>ai\<close>), which reports an event at most once, and the
  listeners that \<open>Terminal.bindMouse\<close> puts on the document. Where the pointer is in the grid of cells, and
  whether a turn of the wheel adds up to a line, is the browser's, and comes with the event.
\<close>

subsection \<open>Events, protocols and encodings\<close>

text \<open>Buttons are 0 to 2, 3 for none and 4 for the wheel; actions 0 up, 1 down, 2 left, 3 right, 32 move.\<close>

record mouse_event =
  m_col :: int
  m_row :: int
  m_x :: int
  m_y :: int
  m_button :: nat
  m_action :: nat
  m_ctrl :: bool
  m_alt :: bool
  m_shift :: bool

record mouse_state =
  mterm :: terminal_state
  lastEvent :: "mouse_event option"

text \<open>\<open>restrict\<close>: \<open>None\<close> is an event that the protocol does not report; X10 takes away the modifiers.\<close>

fun restrict_event :: "mouse_protocol \<Rightarrow> mouse_event \<Rightarrow> mouse_event option" where
  "restrict_event NONE e = None"
| "restrict_event X10 e =
     (if m_button e = 4 \<or> m_action e \<noteq> 1 then None
      else Some (e\<lparr>m_ctrl := False, m_alt := False, m_shift := False\<rparr>))"
| "restrict_event VT200 e = (if m_action e \<noteq> 32 then Some e else None)"
| "restrict_event DRAG e = (if m_action e = 32 \<and> m_button e = 3 then None else Some e)"
| "restrict_event ANY e = Some e"

definition eventCode :: "mouse_event \<Rightarrow> bool \<Rightarrow> nat" where
  "eventCode e in_sgr =
     (let k = (if m_ctrl e then 16 else 0) OR (if m_shift e then 4 else 0) OR (if m_alt e then 8 else 0)
      in if m_button e = 4 then (k OR 64) OR m_action e
         else
           (let k1 = k OR (m_button e AND 3);
                k2 = (if m_button e AND 4 \<noteq> 0 then k1 OR 64 else k1);
                k3 = (if m_button e AND 8 \<noteq> 0 then k2 OR 128 else k2)
            in if m_action e = 32 then k3 OR 32
               else if m_action e = 0 \<and> \<not> in_sgr then k3 OR 3
               else k3))"

definition final_byte :: "mouse_event \<Rightarrow> ustring" where
  "final_byte e = (if m_action e = 0 \<and> m_button e \<noteq> 4 then ustr ''m'' else ustr ''M'')"

definition sgr_report :: "nat \<Rightarrow> int \<Rightarrow> int \<Rightarrow> ustring \<Rightarrow> ustring" where
  "sgr_report k a b f = ESC @ ustr ''[<'' @ unum (int k) @ ustr '';'' @ unum a @ ustr '';'' @ unum b @ f"

fun encode_event :: "mouse_encoding \<Rightarrow> mouse_event \<Rightarrow> ustring" where
  "encode_event DEFAULT e =
     (let k = int (eventCode e False) + 32; c = m_col e + 32; r = m_row e + 32
      in if 255 < k \<or> 255 < c \<or> 255 < r then []
         else ESC @ ustr ''[M'' @ [word_of_int k, word_of_int c, word_of_int r])"
| "encode_event SGR e = sgr_report (eventCode e True) (m_col e) (m_row e) (final_byte e)"
| "encode_event SGR_PIXELS e = sgr_report (eventCode e True) (m_x e) (m_y e) (final_byte e)"

subsection \<open>Reporting\<close>

definition equalEvents :: "mouse_event \<Rightarrow> mouse_event \<Rightarrow> bool \<Rightarrow> bool" where
  "equalEvents a b pixels \<longleftrightarrow>
     (if pixels then m_x a = m_x b \<and> m_y a = m_y b else m_col a = m_col b \<and> m_row a = m_row b)
     \<and> m_button a = m_button b \<and> m_action a = m_action b \<and> m_ctrl a = m_ctrl b \<and> m_alt a = m_alt b
     \<and> m_shift a = m_shift b"

definition send_report :: "mouse_encoding \<Rightarrow> ustring \<Rightarrow> terminal_state \<Rightarrow> terminal_state" where
  "send_report enc s t =
     (if s = [] then t else if enc = DEFAULT then triggerBinaryEvent s t else triggerDataEvent s True t)"

text \<open>An event that cannot be: outside the screen, the wheel moving, no button pressed, a button going sideways.\<close>

definition impossible_event :: "mouse_event \<Rightarrow> terminal_state \<Rightarrow> bool" where
  "impossible_event e t \<longleftrightarrow>
     m_col e < 0 \<or> cols t \<le> m_col e \<or> m_row e < 0 \<or> rows t \<le> m_row e
     \<or> m_button e = 4 \<and> m_action e = 32 \<or> m_button e = 3 \<and> m_action e \<noteq> 32
     \<or> m_button e \<noteq> 4 \<and> (m_action e = 2 \<or> m_action e = 3)"

text \<open>Columns and rows of reports count from 1.\<close>

definition triggerMouseEvent :: "mouse_event \<Rightarrow> mouse_state \<Rightarrow> bool \<times> mouse_state" where
  "triggerMouseEvent e s =
     (let t = mterm s
      in if impossible_event e t then (False, s)
         else
           (let e1 = e\<lparr>m_col := m_col e + 1, m_row := m_row e + 1\<rparr>;
                again = (m_action e1 = 32 \<and>
                  (case lastEvent s of None \<Rightarrow> False | Some l \<Rightarrow> equalEvents l e1 (activeEncoding t = SGR_PIXELS)))
            in if again then (False, s)
               else
                 (case restrict_event (activeProtocol t) e1 of
                    None \<Rightarrow> (False, s)
                  | Some e2 \<Rightarrow>
                      (True, s\<lparr>mterm := send_report (activeEncoding t) (encode_event (activeEncoding t) e2) t,
                               lastEvent := Some e2\<rparr>))))"

definition areMouseEventsActive :: "terminal_state \<Rightarrow> bool" where
  "areMouseEventsActive t \<longleftrightarrow> protocol_events (activeProtocol t) \<noteq> 0"

definition service_reset :: "mouse_state \<Rightarrow> mouse_state" where
  "service_reset s = s\<lparr>mterm := mouse_reset (mterm s), lastEvent := None\<rparr>"

subsection \<open>The document's events\<close>

datatype pointer_type = Mousemove | Mouseup | Mousedown | Wheel

text \<open>A DOM event; \<open>dm_cell\<close> is the cell and pixel, \<open>dm_scrolls\<close> that the wheel's turns make a scroll.\<close>

record dom_mouse =
  dm_type :: pointer_type
  dm_buttons :: "nat option"
  dm_button :: "nat option"
  dm_deltaY :: int
  dm_scrolls :: bool
  dm_cell :: "(int \<times> int \<times> int \<times> int) option"
  dm_ctrl :: bool
  dm_alt :: bool
  dm_shift :: bool

definition low_button :: "nat option \<Rightarrow> nat" where
  "low_button b = (case b of Some n \<Rightarrow> if n < 3 then n else 3 | None \<Rightarrow> 3)"

definition moving_button :: "nat option \<Rightarrow> nat option \<Rightarrow> nat" where
  "moving_button bs b =
     (case bs of
        None \<Rightarrow> low_button b
      | Some n \<Rightarrow> if n AND 1 \<noteq> 0 then 0 else if n AND 4 \<noteq> 0 then 1 else if n AND 2 \<noteq> 0 then 2 else 3)"

text \<open>The button and the action of a DOM event, \<open>None\<close> for one that is not reported.\<close>

definition dom_action :: "dom_mouse \<Rightarrow> (nat \<times> nat) option" where
  "dom_action d =
     (case dm_type d of
        Mousemove \<Rightarrow> Some (moving_button (dm_buttons d) (dm_button d), 32)
      | Mouseup \<Rightarrow> Some (low_button (dm_button d), 0)
      | Mousedown \<Rightarrow> Some (low_button (dm_button d), 1)
      | Wheel \<Rightarrow> if dm_deltaY d = 0 \<or> \<not> dm_scrolls d then None else Some (4, if dm_deltaY d < 0 then 0 else 1))"

definition report_dom :: "dom_mouse \<Rightarrow> mouse_state \<Rightarrow> bool \<times> mouse_state" where
  "report_dom d s =
     (case dm_cell d of
        None \<Rightarrow> (False, s)
      | Some (c, r, x, y) \<Rightarrow>
          (case dom_action d of
             None \<Rightarrow> (False, s)
           | Some (b, a) \<Rightarrow>
               if 4 < b then (False, s)
               else
                 triggerMouseEvent
                   \<lparr>m_col = c, m_row = r, m_x = x, m_y = y, m_button = b, m_action = a, m_ctrl = dm_ctrl d,
                    m_alt = dm_alt d, m_shift = dm_shift d\<rparr> s))"

subsection \<open>Listeners\<close>

text \<open>
  The listeners that reports need: which of them exist (the object \<open>n\<close> of \<open>bindMouse\<close>) and which of the two of
  the document are registered now.
\<close>

record mouse_binding =
  mserv :: mouse_state
  l_mouseup :: bool
  l_wheel :: bool
  l_mousedrag :: bool
  l_mousemove :: bool
  doc_mouseup :: bool
  doc_mousemove :: bool
  selecting :: bool

definition protocolChanged :: "nat \<Rightarrow> mouse_binding \<Rightarrow> mouse_binding" where
  "protocolChanged k m =
     m\<lparr>selecting := (k = 0), l_mousemove := (k AND 8 \<noteq> 0), l_wheel := (k AND 16 \<noteq> 0),
       l_mouseup := (k AND 2 \<noteq> 0), doc_mouseup := (doc_mouseup m \<and> k AND 2 \<noteq> 0),
       l_mousedrag := (k AND 4 \<noteq> 0), doc_mousemove := (doc_mousemove m \<and> k AND 4 \<noteq> 0)\<rparr>"

definition report_by :: "dom_mouse \<Rightarrow> mouse_binding \<Rightarrow> mouse_binding" where
  "report_by d m = m\<lparr>mserv := snd (report_dom d (mserv m))\<rparr>"

text \<open>A button goes down on the terminal; \<open>force\<close> is the selection's wish to have the event (shift or alt).\<close>

definition on_mousedown :: "bool \<Rightarrow> dom_mouse \<Rightarrow> mouse_binding \<Rightarrow> mouse_binding" where
  "on_mousedown force d m =
     (if \<not> areMouseEventsActive (mterm (mserv m)) \<or> force then m
      else
        (let m1 = report_by d m
         in m1\<lparr>doc_mouseup := (doc_mouseup m1 \<or> l_mouseup m1), doc_mousemove := (doc_mousemove m1 \<or> l_mousedrag m1)\<rparr>))"

definition no_buttons :: "dom_mouse \<Rightarrow> bool" where
  "no_buttons d \<longleftrightarrow> (case dm_buttons d of None \<Rightarrow> True | Some n \<Rightarrow> n = 0)"

definition on_mouseup :: "dom_mouse \<Rightarrow> mouse_binding \<Rightarrow> mouse_binding" where
  "on_mouseup d m =
     (if \<not> doc_mouseup m then m
      else
        (let m1 = report_by d m
         in if no_buttons d
            then m1\<lparr>doc_mouseup := False, doc_mousemove := (doc_mousemove m1 \<and> \<not> l_mousedrag m1)\<rparr>
            else m1))"

text \<open>A move over the terminal: the document's listener reports drags, the terminal's own the rest.\<close>

definition on_mousemove :: "dom_mouse \<Rightarrow> mouse_binding \<Rightarrow> mouse_binding" where
  "on_mousemove d m =
     (let m1 = (if l_mousemove m \<and> no_buttons d then report_by d m else m)
      in if doc_mousemove m1 \<and> \<not> no_buttons d then report_by d m1 else m1)"

text \<open>
  The wheel: with no report of it and no scrollback, a turn is a cursor key.
\<close>

definition buffer_hasScrollback :: "buffer \<Rightarrow> bool" where
  "buffer_hasScrollback b \<longleftrightarrow> hasScrollback b \<and> b_rows b < int (maxLength (lines b))"

definition wheel_key :: "dom_mouse \<Rightarrow> terminal_state \<Rightarrow> ustring" where
  "wheel_key d t =
     ESC @ (if applicationCursorKeys (dec t) then ustr ''O'' else ustr ''['') @ (if dm_deltaY d < 0 then ustr ''A'' else ustr ''B'')"

definition on_wheel :: "dom_mouse \<Rightarrow> mouse_binding \<Rightarrow> mouse_binding" where
  "on_wheel d m =
     (if l_wheel m then report_by d m
      else
        (let s = mserv m; t = mterm s
         in if buffer_hasScrollback (active t) \<or> dm_deltaY d = 0 \<or> \<not> dm_scrolls d then m
            else m\<lparr>mserv := s\<lparr>mterm := triggerDataEvent (wheel_key d t) True t\<rparr>\<rparr>))"

end
