(* ===== verification/Xterm_Keys.thy ===== *)
theory Xterm_Keys
  imports Xterm_Modes
begin

unbundle bit_operations_syntax

text \<open>
  The keyboard of the terminal: \<open>evaluateKeyboardEvent\<close> (\<open>Il\<close> in the bundle) tells what a key sends; the class
  \<open>CompositionHelper\<close> (\<open>$t\<close>) follows the input methods that write into the hidden text area; the listeners of
  \<open>Terminal\<close> for key, input and paste events send to the shell. A view is the terminal's state with what these
  listeners remember. What a \<open>setTimeout(f, 0)\<close> is to run is a task of the view.

  The listeners that scroll, select and focus act on the document, and are logged. The application attaches
  no handler of its own for key events.
\<close>

subsection \<open>Key events\<close>

text \<open>A \<open>KeyboardEvent\<close>; \<open>altGraph\<close> is \<open>getModifierState("AltGraph")\<close>. A number that is not there is \<open>None\<close>.\<close>

record key_event =
  keyCode :: nat
  key_name :: ustring
  key_phys :: ustring
  ctrlKey :: bool
  altKey :: bool
  shiftKey :: bool
  metaKey :: bool
  altGraph :: bool
  charCode :: "nat option"
  which_code :: "nat option"

datatype key_kind = Send_key | Select_all | Page_up | Page_down

record key_result =
  kind :: key_kind
  cancels :: bool
  sends :: "ustring option"

definition modifiers :: "key_event \<Rightarrow> nat" where
  "modifiers e =
     (if shiftKey e then 1 else 0) OR (if altKey e then 2 else 0) OR (if ctrlKey e then 4 else 0) OR (if metaKey e then 8 else 0)"

definition fromCharCode :: "nat \<Rightarrow> ustring" where
  "fromCharCode n = [of_nat n]"

text \<open>The keys of punctuation and digits with what they give without and with shift.\<close>

definition key_chars :: "(nat \<times> string \<times> string) list" where
  "key_chars =
     [(48, ''0'', '')''), (49, ''1'', ''!''), (50, ''2'', ''@''), (51, ''3'', ''#''), (52, ''4'', ''$''), (53, ''5'', ''%''),
      (54, ''6'', ''^''), (55, ''7'', ''&''), (56, ''8'', ''*''), (57, ''9'', ''(''), (186, '';'', '':''), (187, ''='', ''+''),
      (188, '','', ''<''), (189, ''-'', ''_''), (190, ''.'', ''>''), (191, ''/'', ''?''), (192, [CHR 0x60], ''~''),
      (219, ''['', ''{''), (220, [CHR 0x5C], ''|''), (221, '']'', ''}''), (222, [CHR 0x27], [CHR 0x22])]"

definition key_char :: "key_event \<Rightarrow> ustring option" where
  "key_char e = map_option (\<lambda>(a, b). ustr (if shiftKey e then b else a)) (map_of key_chars (keyCode e))"

text \<open>\<open>toUpperCase\<close> and \<open>toLowerCase\<close> of the ASCII characters they are used on.\<close>

definition upper_ascii :: "cu \<Rightarrow> cu" where
  "upper_ascii c = (if 97 \<le> c \<and> c \<le> 122 then c - 32 else c)"

definition lower_ascii :: "cu \<Rightarrow> cu" where
  "lower_ascii c = (if 65 \<le> c \<and> c \<le> 90 then c + 32 else c)"

text \<open>The sequences of the cursor and editing keys, which tell the modifiers as a parameter.\<close>

definition csi_modified :: "string \<Rightarrow> nat \<Rightarrow> string \<Rightarrow> ustring" where
  "csi_modified p n f = ESC @ ustr ''['' @ ustr p @ ustr '';'' @ unum (int n + 1) @ ustr f"

definition cursor_key :: "nat \<Rightarrow> bool \<Rightarrow> string \<Rightarrow> ustring" where
  "cursor_key n app f =
     (if n \<noteq> 0 then csi_modified ''1'' n f else if app then ESC @ ustr ''O'' @ ustr f else ESC @ ustr ''['' @ ustr f)"

definition function_key :: "nat \<Rightarrow> string \<Rightarrow> ustring" where
  "function_key n f = (if n \<noteq> 0 then csi_modified ''1'' n f else ESC @ ustr ''O'' @ ustr f)"

definition tilde_key :: "nat \<Rightarrow> string \<Rightarrow> ustring" where
  "tilde_key n p = (if n \<noteq> 0 then csi_modified p n ''~'' else ESC @ ustr ''['' @ ustr p @ ustr ''~'')"

text \<open>A key with control alone.\<close>

definition control_key :: "nat \<Rightarrow> ustring option" where
  "control_key k =
     (if 65 \<le> k \<and> k \<le> 90 then Some (fromCharCode (k - 64))
      else if k = 32 then Some [0]
      else if 51 \<le> k \<and> k \<le> 55 then Some (fromCharCode (k - 51 + 27))
      else if k = 56 then Some [127]
      else if k = 219 then Some ESC
      else if k = 220 then Some [28]
      else if k = 221 then Some [29]
      else None)"

text \<open>A key with alt: the second component tells to cancel the event.\<close>

definition alt_key :: "key_event \<Rightarrow> ustring option \<times> bool" where
  "alt_key e =
     (case key_char e of
        Some l \<Rightarrow> (Some (ESC @ l), False)
      | None \<Rightarrow>
          if 65 \<le> keyCode e \<and> keyCode e \<le> 90 then
            (let u = fromCharCode (if ctrlKey e then keyCode e - 64 else keyCode e + 32)
             in (Some (ESC @ (if shiftKey e then map upper_ascii u else u)), False))
          else if keyCode e = 32 then (Some (ESC @ (if ctrlKey e then [0] else [32])), False)
          else if key_name e = ustr ''Dead'' \<and> take 3 (key_phys e) = ustr ''Key'' then
            (let a = take 1 (drop 3 (key_phys e))
             in (Some (ESC @ (if shiftKey e then a else map lower_ascii a)), True))
          else (None, False))"

text \<open>Keys that are none of the special ones; \<open>mac\<close> and \<open>meta\<close> are the third and fourth argument.\<close>

definition default_key :: "key_event \<Rightarrow> bool \<Rightarrow> bool \<Rightarrow> key_result" where
  "default_key e mac meta =
     (let none = \<lparr>kind = Send_key, cancels = False, sends = None\<rparr>
      in if ctrlKey e \<and> \<not> shiftKey e \<and> \<not> altKey e \<and> \<not> metaKey e then none\<lparr>sends := control_key (keyCode e)\<rparr>
         else if (\<not> mac \<or> meta) \<and> altKey e \<and> \<not> metaKey e then
           none\<lparr>sends := fst (alt_key e), cancels := snd (alt_key e)\<rparr>
         else if mac \<and> \<not> altKey e \<and> \<not> ctrlKey e \<and> \<not> shiftKey e \<and> metaKey e then
           (if keyCode e = 65 then none\<lparr>kind := Select_all\<rparr> else none)
         else if key_name e \<noteq> [] \<and> \<not> ctrlKey e \<and> \<not> altKey e \<and> \<not> metaKey e \<and> 48 \<le> keyCode e
                 \<and> length (key_name e) = 1 then none\<lparr>sends := Some (key_name e)\<rparr>
         else if key_name e \<noteq> [] \<and> ctrlKey e then
           (if key_name e = ustr ''_'' then none\<lparr>sends := Some [31]\<rparr>
            else if key_name e = ustr ''@'' then none\<lparr>sends := Some [0]\<rparr>
            else none)
         else none)"

definition uikit_key :: "ustring \<Rightarrow> bool \<Rightarrow> ustring option" where
  "uikit_key k app =
     (if k = ustr ''UIKeyInputUpArrow'' then Some (cursor_key 0 app ''A'')
      else if k = ustr ''UIKeyInputLeftArrow'' then Some (cursor_key 0 app ''D'')
      else if k = ustr ''UIKeyInputRightArrow'' then Some (cursor_key 0 app ''C'')
      else if k = ustr ''UIKeyInputDownArrow'' then Some (cursor_key 0 app ''B'')
      else None)"

definition page_key :: "key_kind \<Rightarrow> string \<Rightarrow> key_event \<Rightarrow> key_result" where
  "page_key k p e =
     (if shiftKey e then \<lparr>kind = k, cancels = False, sends = None\<rparr>
      else
        \<lparr>kind = Send_key, cancels = False,
         sends = Some (if ctrlKey e then csi_modified p (modifiers e) ''~'' else tilde_key 0 p)\<rparr>)"

definition plain_key :: "ustring option \<Rightarrow> key_result" where
  "plain_key s = \<lparr>kind = Send_key, cancels = False, sends = s\<rparr>"

definition canceling_key :: "ustring \<Rightarrow> key_result" where
  "canceling_key s = \<lparr>kind = Send_key, cancels = True, sends = Some s\<rparr>"

definition arrow_key :: "key_event \<Rightarrow> bool \<Rightarrow> string \<Rightarrow> key_result" where
  "arrow_key e app f = plain_key (if metaKey e then None else Some (cursor_key (modifiers e) app f))"

definition evaluateKeyboardEvent :: "key_event \<Rightarrow> bool \<Rightarrow> bool \<Rightarrow> bool \<Rightarrow> key_result" where
  "evaluateKeyboardEvent e app mac meta =
     (let n = modifiers e; k = keyCode e
      in if k = 0 then plain_key (uikit_key (key_name e) app)
         else if k = 8 then
           (let s = (if ctrlKey e then [8] else [127]) in plain_key (Some (if altKey e then ESC @ s else s)))
         else if k = 9 then (if shiftKey e then plain_key (Some (ESC @ ustr ''[Z'')) else canceling_key [9])
         else if k = 13 then canceling_key (if altKey e then ESC @ [13] else [13])
         else if k = 27 then canceling_key (if altKey e then ESC @ ESC else ESC)
         else if k = 37 then arrow_key e app ''D''
         else if k = 39 then arrow_key e app ''C''
         else if k = 38 then arrow_key e app ''A''
         else if k = 40 then arrow_key e app ''B''
         else if k = 45 then plain_key (if \<not> shiftKey e \<and> \<not> ctrlKey e then Some (tilde_key 0 ''2'') else None)
         else if k = 46 then plain_key (Some (tilde_key n ''3''))
         else if k = 36 then plain_key (Some (cursor_key n app ''H''))
         else if k = 35 then plain_key (Some (cursor_key n app ''F''))
         else if k = 33 then page_key Page_up ''5'' e
         else if k = 34 then page_key Page_down ''6'' e
         else if k = 112 then plain_key (Some (function_key n ''P''))
         else if k = 113 then plain_key (Some (function_key n ''Q''))
         else if k = 114 then plain_key (Some (function_key n ''R''))
         else if k = 115 then plain_key (Some (function_key n ''S''))
         else if k = 116 then plain_key (Some (tilde_key n ''15''))
         else if k = 117 then plain_key (Some (tilde_key n ''17''))
         else if k = 118 then plain_key (Some (tilde_key n ''18''))
         else if k = 119 then plain_key (Some (tilde_key n ''19''))
         else if k = 120 then plain_key (Some (tilde_key n ''20''))
         else if k = 121 then plain_key (Some (tilde_key n ''21''))
         else if k = 122 then plain_key (Some (tilde_key n ''23''))
         else if k = 123 then plain_key (Some (tilde_key n ''24''))
         else default_key e mac meta)"

end
