(* ===== verification/Xterm_Typing.thy ===== *)
theory Xterm_Typing
  imports Xterm_Keys
begin

text \<open>
  The listeners of the terminal for keys, input, input methods and pasting, and what they send to the shell.
\<close>

subsection \<open>State\<close>

datatype view_task = Update_end | Send_composition int | Compare_textarea ustring

datatype view_event =
    On_key ustring | Scroll_lines int | Scroll_to_bottom | Select_all_text | Focus | Refresh_row int | Refresh_screen

record view =
  emu :: terminal_state
  textarea :: ustring
  isMac :: bool
  isWindows :: bool
  macOptionIsMeta :: bool
  cancelEvents :: bool
  ignoreBracketedPasteMode :: bool
  keyDownHandled :: bool
  keyDownSeen :: bool
  keyPressHandled :: bool
  unprocessedDeadKey :: bool
  isComposing :: bool
  isSendingComposition :: bool
  comp_start :: int
  comp_end :: int
  dataAlreadySent :: ustring
  tasks :: "view_task list"
  asked :: "view_event list"

text \<open>
  What a listener makes of an event: whether it prevents the browser's own action, what it returns
  (\<open>None\<close> is \<open>undefined\<close>), and the view.
\<close>

type_synonym reaction = "bool \<times> bool option \<times> view"

definition ask :: "view_event \<Rightarrow> view \<Rightarrow> view" where
  "ask e v = v\<lparr>asked := asked v @ [e]\<rparr>"

definition upd_emu :: "(terminal_state \<Rightarrow> terminal_state) \<Rightarrow> view \<Rightarrow> view" where
  "upd_emu f v = v\<lparr>emu := f (emu v)\<rparr>"

definition later :: "view_task \<Rightarrow> view \<Rightarrow> view" where
  "later k v = v\<lparr>tasks := tasks v @ [k]\<rparr>"

definition type_text :: "ustring \<Rightarrow> view \<Rightarrow> view" where
  "type_text s = upd_emu (triggerDataEvent s True)"

subsection \<open>Strings\<close>

text \<open>\<open>substring\<close> clips its arguments and exchanges them when they are in the wrong order.\<close>

definition substring :: "int \<Rightarrow> int \<Rightarrow> ustring \<Rightarrow> ustring" where
  "substring a b s =
     (let clip = (\<lambda>x. max 0 (min x (int (length s))))
      in sub_list (min (clip a) (clip b)) (max (clip a) (clip b)) s)"

definition substring_from :: "int \<Rightarrow> ustring \<Rightarrow> ustring" where
  "substring_from a s = substring a (int (length s)) s"

text \<open>\<open>s.replace(p, "")\<close> with a string: the first occurrence goes.\<close>

fun remove_first :: "ustring \<Rightarrow> ustring \<Rightarrow> ustring" where
  "remove_first p [] = []"
| "remove_first p (c # s) =
     (if take (length p) (c # s) = p then drop (length p) (c # s) else c # remove_first p s)"

subsection \<open>Input methods\<close>

definition compositionstart :: "view \<Rightarrow> view" where
  "compositionstart v = v\<lparr>isComposing := True, comp_start := int (length (textarea v)), dataAlreadySent := []\<rparr>"

definition compositionupdate :: "view \<Rightarrow> view" where
  "compositionupdate v = later Update_end v"

definition finalizeComposition :: "bool \<Rightarrow> view \<Rightarrow> view" where
  "finalizeComposition wait v =
     (if wait then later (Send_composition (comp_start v)) (v\<lparr>isComposing := False, isSendingComposition := True\<rparr>)
      else
        type_text (substring (comp_start v) (comp_end v) (textarea v))
          (v\<lparr>isComposing := False, isSendingComposition := False\<rparr>))"

definition compositionend :: "view \<Rightarrow> view" where
  "compositionend = finalizeComposition True"

text \<open>The keys that do not end a composition: caps lock, shift, control, alt, and any key the method handles.\<close>

definition comp_keydown :: "key_event \<Rightarrow> view \<Rightarrow> bool \<times> view" where
  "comp_keydown e v =
     (let busy = isComposing v \<or> isSendingComposition v
      in if busy \<and> keyCode e \<in> {20, 229, 16, 17, 18} then (False, v)
         else
           (let v1 = (if busy then finalizeComposition False v else v)
            in if keyCode e = 229 then (False, later (Compare_textarea (textarea v1)) v1) else (True, v1)))"

fun run_view_task :: "view_task \<Rightarrow> view \<Rightarrow> view" where
  "run_view_task Update_end v = v\<lparr>comp_end := int (length (textarea v))\<rparr>"
| "run_view_task (Send_composition start) v =
     (if isSendingComposition v then
        (let from_pos = start + int (length (dataAlreadySent v));
             s = (if isComposing v then substring from_pos (comp_start v) (textarea v)
                  else substring_from from_pos (textarea v));
             v1 = v\<lparr>isSendingComposition := False\<rparr>
         in if s \<noteq> [] then type_text s v1 else v1)
      else v)"
| "run_view_task (Compare_textarea old) v =
     (if isComposing v then v
      else
        (let new = textarea v; s = remove_first old new; v1 = v\<lparr>dataAlreadySent := s\<rparr>
         in if length old < length new then type_text s v1
            else if length new < length old then type_text [127] v1
            else if new \<noteq> old then type_text new v1
            else v1))"

text \<open>The browser runs the next task.\<close>

definition view_tick :: "view \<Rightarrow> view" where
  "view_tick v = (case tasks v of [] \<Rightarrow> v | k # ks \<Rightarrow> run_view_task k (v\<lparr>tasks := ks\<rparr>))"

subsection \<open>Keys\<close>

definition cancel_event :: "bool \<Rightarrow> view \<Rightarrow> bool \<times> bool option" where
  "cancel_event force v = (if cancelEvents v \<or> force then (True, Some False) else (False, None))"

definition reply :: "bool \<times> bool option \<Rightarrow> view \<Rightarrow> reaction" where
  "reply r v = (fst r, snd r, v)"

definition isThirdLevelShift :: "bool \<Rightarrow> key_event \<Rightarrow> view \<Rightarrow> bool" where
  "isThirdLevelShift keypress e v =
     (let r = (isMac v \<and> \<not> macOptionIsMeta v \<and> altKey e \<and> \<not> ctrlKey e \<and> \<not> metaKey e
               \<or> isWindows v \<and> altKey e \<and> ctrlKey e \<and> \<not> metaKey e \<or> isWindows v \<and> altGraph e)
      in if keypress then r else r \<and> (keyCode e = 0 \<or> 47 < keyCode e))"

definition showCursor :: "view \<Rightarrow> view" where
  "showCursor v =
     (if isCursorInitialized (emu v) then v
      else ask (Refresh_row (ypos (emu v))) (upd_emu (\<lambda>t. t\<lparr>isCursorInitialized := True\<rparr>) v))"

text \<open>A single capital letter without control, alt or meta: the key press sends it.\<close>

definition is_capital :: "key_event \<Rightarrow> bool" where
  "is_capital e \<longleftrightarrow> \<not> ctrlKey e \<and> \<not> altKey e \<and> \<not> metaKey e \<and> length (key_name e) = 1
     \<and> 65 \<le> hd (key_name e) \<and> hd (key_name e) \<le> 90"

definition is_dead :: "key_event \<Rightarrow> bool" where
  "is_dead e \<longleftrightarrow> key_name e = ustr ''Dead'' \<or> key_name e = ustr ''AltGraph''"

definition send_key :: "ustring \<Rightarrow> key_event \<Rightarrow> view \<Rightarrow> reaction" where
  "send_key s e v =
     (let v1 = (if s = [3] \<or> s = [13] then v\<lparr>textarea := []\<rparr> else v);
          v2 = type_text s (showCursor (ask (On_key s) v1))
      in if \<not> screenReaderMode (options (emu v2)) \<or> altKey e \<or> ctrlKey e then reply (cancel_event True v2) v2
         else (False, None, v2\<lparr>keyDownHandled := True\<rparr>))"

definition keyDown :: "key_event \<Rightarrow> view \<Rightarrow> reaction" where
  "keyDown e v0 =
     (let v = v0\<lparr>keyDownHandled := False, keyDownSeen := True\<rparr>;
          i = (isMac v \<and> macOptionIsMeta v \<and> altKey e);
          (go, v1) = (if i then (True, v) else comp_keydown e v)
      in if \<not> go then
           (False, Some False,
            (if scrollOnUserInput (options (emu v1)) \<and> ybase (active (emu v1)) \<noteq> ydisp (active (emu v1))
             then ask Scroll_to_bottom v1 else v1))
         else
           (let v2 = (if \<not> i \<and> is_dead e then v1\<lparr>unprocessedDeadKey := True\<rparr> else v1);
                r = evaluateKeyboardEvent e (applicationCursorKeys (dec (emu v2))) (isMac v2) (macOptionIsMeta v2)
            in if kind r = Page_up then
                 (let v3 = ask (Scroll_lines (1 - rows (emu v2))) v2 in reply (cancel_event True v3) v3)
               else if kind r = Page_down then
                 (let v3 = ask (Scroll_lines (rows (emu v2) - 1)) v2 in reply (cancel_event True v3) v3)
               else
                 (let v3 = (if kind r = Select_all then ask Select_all_text v2 else v2)
                  in if isThirdLevelShift False e v3 then (False, Some True, v3)
                     else
                       (case sends r of
                          None \<Rightarrow> (cancels r, Some True, v3)
                        | Some s \<Rightarrow>
                            if s = [] \<or> is_capital e then (cancels r, Some True, v3)
                            else if unprocessedDeadKey v3 then (cancels r, Some True, v3\<lparr>unprocessedDeadKey := False\<rparr>)
                            else
                              (case send_key s e v3 of (p, ret, v4) \<Rightarrow> (cancels r \<or> p, ret, v4))))))"

definition keyUp :: "key_event \<Rightarrow> view \<Rightarrow> view" where
  "keyUp e v =
     (let v1 = v\<lparr>keyDownSeen := False\<rparr>;
          v2 = (if keyCode e \<in> {16, 17, 18} then v1 else ask Focus v1)
      in v2\<lparr>keyPressHandled := False\<rparr>)"

text \<open>The character of a key press, by whichever property the browser gives.\<close>

definition pressed_char :: "key_event \<Rightarrow> nat option" where
  "pressed_char e =
     (case charCode e of
        Some (Suc n) \<Rightarrow> Some (Suc n)
      | c \<Rightarrow>
          (case which_code e of
             None \<Rightarrow> Some (keyCode e)
           | Some w \<Rightarrow> if w \<noteq> 0 \<and> c = None then Some w else None))"

definition keyPress :: "key_event \<Rightarrow> view \<Rightarrow> reaction" where
  "keyPress e v0 =
     (let v = v0\<lparr>keyPressHandled := False\<rparr>
      in if keyDownHandled v then (False, Some False, v)
         else
           (let p = fst (cancel_event False v)
            in case pressed_char e of
                 None \<Rightarrow> (p, Some False, v)
               | Some i \<Rightarrow>
                   if i = 0 \<or> (altKey e \<or> ctrlKey e \<or> metaKey e) \<and> \<not> isThirdLevelShift True e v
                   then (p, Some False, v)
                   else
                     (let s = fromCharCode i;
                          v1 = type_text s (showCursor (ask (On_key s) v))
                      in (p, Some True, v1\<lparr>keyPressHandled := True, unprocessedDeadKey := False\<rparr>))))"

text \<open>An \<open>InputEvent\<close> of the text area: its data, whether it is an \<open>insertText\<close>, whether it is composed.\<close>

definition inputEvent :: "ustring \<Rightarrow> bool \<Rightarrow> bool \<Rightarrow> view \<Rightarrow> reaction" where
  "inputEvent s inserted composed v =
     (if s \<noteq> [] \<and> inserted \<and> (\<not> composed \<or> \<not> keyDownSeen v) \<and> \<not> screenReaderMode (options (emu v)) then
        (if keyPressHandled v then (False, Some False, v)
         else
           (let v1 = type_text s (v\<lparr>unprocessedDeadKey := False\<rparr>)
            in (fst (cancel_event False v1), Some True, v1)))
      else (False, Some False, v))"

subsection \<open>Pasting\<close>

text \<open>\<open>replace(/\r?\n/g, "\r")\<close>.\<close>

fun prepareTextForTerminal :: "ustring \<Rightarrow> ustring" where
  "prepareTextForTerminal [] = []"
| "prepareTextForTerminal (c # s) =
     (if c = 10 then 13 # prepareTextForTerminal s
      else if c = 13 \<and> take 1 s = [10] then 13 # prepareTextForTerminal (drop 1 s)
      else c # prepareTextForTerminal s)"

definition paste_start :: ustring where "paste_start = ESC @ ustr ''[200~''"
definition paste_end :: ustring where "paste_end = ESC @ ustr ''[201~''"

definition bracketTextForPaste :: "ustring \<Rightarrow> bool \<Rightarrow> ustring" where
  "bracketTextForPaste s on = (if on then paste_start @ s @ paste_end else s)"

definition paste :: "ustring \<Rightarrow> view \<Rightarrow> view" where
  "paste s v =
     (let on = (bracketedPasteMode (dec (emu v)) \<and> \<not> ignoreBracketedPasteMode v)
      in (type_text (bracketTextForPaste (prepareTextForTerminal s) on) v)\<lparr>textarea := []\<rparr>)"

text \<open>A paste event that has no clipboard data does nothing.\<close>

definition handlePasteEvent :: "ustring option \<Rightarrow> view \<Rightarrow> view" where
  "handlePasteEvent d v = (case d of None \<Rightarrow> v | Some s \<Rightarrow> paste s v)"

subsection \<open>Focus\<close>

definition handleTextAreaFocus :: "view \<Rightarrow> view" where
  "handleTextAreaFocus v =
     showCursor (if sendFocus (dec (emu v)) then upd_emu (triggerDataEvent (ESC @ ustr ''[I'') False) v else v)"

definition handleTextAreaBlur :: "view \<Rightarrow> view" where
  "handleTextAreaBlur v =
     (let v1 = ask (Refresh_row (ypos (emu v))) (v\<lparr>textarea := []\<rparr>)
      in if sendFocus (dec (emu v1)) then upd_emu (triggerDataEvent (ESC @ ustr ''[O'') False) v1 else v1)"

definition reportFocus :: "bool \<Rightarrow> view \<Rightarrow> view" where
  "reportFocus focused = upd_emu (triggerDataEvent (if focused then ESC @ ustr ''[I'' else ESC @ ustr ''[O'') False)"

subsection \<open>A new view\<close>

definition new_view :: "bool \<Rightarrow> bool \<Rightarrow> terminal_state \<Rightarrow> view" where
  "new_view mac windows t =
     \<lparr>emu = t, textarea = [], isMac = mac, isWindows = windows, macOptionIsMeta = False, cancelEvents = False,
      ignoreBracketedPasteMode = False, keyDownHandled = False, keyDownSeen = False, keyPressHandled = False,
      unprocessedDeadKey = False, isComposing = False, isSendingComposition = False, comp_start = 0, comp_end = 0,
      dataAlreadySent = [], tasks = [], asked = []\<rparr>"

end
