(* ===== verification/Xterm_Print.thy ===== *)
theory Xterm_Print
  imports Xterm_Cursor
begin

text \<open>
  Printing: \<open>InputHandler.print\<close> puts a run of code points at the cursor, with the charset's replacements,
  wide characters over two cells, combining characters joined to the cell before, wrapping at the edge and
  the insert mode.

  The code holds the line it writes to as a reference; here it is the line's index in the list. When the
  screen scrolls in the middle of a run, the line that was left moves, and \<open>left_line\<close> says where it is then.
\<close>

definition translate_char :: "terminal_state \<Rightarrow> cp \<Rightarrow> cp" where
  "translate_char t n =
     (if n < 127 then
        (case charset_now t of None \<Rightarrow> n | Some m \<Rightarrow> (case m n of None \<Rightarrow> n | Some k \<Rightarrow> k))
      else n)"

definition a11y_char :: "cp \<Rightarrow> terminal_state \<Rightarrow> terminal_state" where
  "a11y_char n t = (if screenReaderMode (options t) then emit (On_a11y_char (stringFromCodePoint n)) t else t)"

definition link_here :: "terminal_state \<Rightarrow> terminal_state" where
  "link_here t =
     (let k = urlId (extended (curAttr t)) in if k \<noteq> 0 then addLineToLink k (abs_row (ypos t) t) t else t)"

text \<open>Cells from a column up to the edge are blanked.\<close>

definition blank_rest :: "int \<Rightarrow> int \<Rightarrow> attr \<Rightarrow> line \<Rightarrow> line" where
  "blank_rest i u a = for_up i u (\<lambda>k. blank_at k a)"

definition left_line :: "buffer \<Rightarrow> int \<Rightarrow> int" where
  "left_line b i = (if scrollTop b = 0 then (if isFull (lines b) then max (i - 1) 0 else i) else i - 1)"

text \<open>
  The wrap at the edge: the cursor goes to the next row, which is marked as wrapped, and the cell that the
  next character joins moves there; \<open>r\<close> is the width of that cell, 0 when nothing is joined.
\<close>

definition wrap_line :: "int \<Rightarrow> int \<Rightarrow> terminal_state \<Rightarrow> (terminal_state \<times> int) option" where
  "wrap_line r li t =
     do {
       let i = xpos t - r;
       let t1 = set_y (ypos t + 1) (set_x r t);
       (t2, old) \<leftarrow>
         (if ypos t1 = scrollBottom (active t1) + 1 then
            map_option (\<lambda>t'. (t', left_line (active t1) li)) (scroll_erased True (set_y (ypos t1 - 1) t1))
          else
            (let t' = (if rows t \<le> ypos t1 then set_y (rows t - 1) t1 else t1)
             in map_option (\<lambda>t''. (t'', li)) (upd_line (abs_row (ypos t') t') (\<lambda>l. l\<lparr>isWrapped := True\<rparr>) t')));
       let ln = abs_row (ypos t2) t2;
       o1 \<leftarrow> line_here old t2;
       t3 \<leftarrow> (if 0 < r then upd_line ln (copyCellsFrom o1 i 0 r False) t2 else Some t2);
       t4 \<leftarrow> upd_line old (blank_rest i (cols t) (curAttr t)) t3;
       Some (t4, ln)
     }"

text \<open>Cells of width 0 after a wide character, with the cursor.\<close>

definition put_width0 :: "int \<Rightarrow> int \<Rightarrow> terminal_state \<Rightarrow> terminal_state option" where
  "put_width0 k li t =
     map_option (set_x (xpos t + max k 0))
       (upd_line li (for_up (xpos t) (xpos t + k) (\<lambda>c. setCellFromCodepoint c 0 0 (curAttr t))) t)"

definition join_cell :: "cp \<Rightarrow> int \<Rightarrow> int \<Rightarrow> int \<Rightarrow> terminal_state \<Rightarrow> terminal_state option" where
  "join_cell n w r li t =
     do {
       l \<leftarrow> line_here li t;
       let off = (if getWidth l (xpos t - 1) \<noteq> 0 then 1 else 2);
       t1 \<leftarrow> upd_line li (addCodepointToCell (xpos t - off) n w) t;
       put_width0 (w - r) li t1
     }"

definition put_cell :: "cp \<Rightarrow> int \<Rightarrow> int \<Rightarrow> int \<Rightarrow> terminal_state \<Rightarrow> terminal_state option" where
  "put_cell n w r li t =
     do {
       let u = cols t;
       t1 \<leftarrow> (if insertMode t then
                upd_line li (\<lambda>l. mend_wide (u - 1) (curAttr t) (insertCells (xpos t) (w - r) (getNullCell (curAttr t)) l)) t
              else Some t);
       t2 \<leftarrow> upd_line li (setCellFromCodepoint (xpos t1) n w (curAttr t)) t1;
       put_width0 (w - 1) li (set_x (xpos t2 + 1) t2)
     }"

text \<open>One code point; the state is the terminal, the line and the join state.\<close>

definition print_code :: "cp \<Rightarrow> terminal_state \<times> int \<times> nat \<Rightarrow> (terminal_state \<times> int \<times> nat) option" where
  "print_code c s =
     (case s of (t, li, p) \<Rightarrow>
        (let n = translate_char t c;
             f = charProperties n p;
             w = int (extractWidth f);
             j = extractShouldJoin f;
             r = (if j then int (extractWidth p) else 0);
             t1 = link_here (a11y_char n t)
         in do {
              (t2, ln, skip) \<leftarrow>
                (if cols t < xpos t1 + w - r then
                   (if wraparound (dec t) then map_option (\<lambda>(t', k). (t', k, False)) (wrap_line r li t1)
                    else Some (set_x (cols t - 1) t1, li, w = 2))
                 else Some (t1, li, False));
              t3 \<leftarrow> (if skip then Some t2
                     else if j \<and> xpos t2 \<noteq> 0 then join_cell n w r ln t2
                     else put_cell n w r ln t2);
              Some (t3, ln, f)
            }))"

fun print_loop :: "cp list \<Rightarrow> terminal_state \<times> int \<times> nat \<Rightarrow> (terminal_state \<times> int \<times> nat) option" where
  "print_loop [] s = Some s"
| "print_loop (c # cs) s = (case print_code c s of None \<Rightarrow> None | Some s' \<Rightarrow> print_loop cs s')"

definition print :: "cp list \<Rightarrow> terminal_state \<Rightarrow> terminal_state option" where
  "print cs t =
     do {
       let u = cols t;
       let li = abs_row (ypos t) t;
       let t1 = markDirty (ypos t) t;
       t2 \<leftarrow> (if xpos t \<noteq> 0 \<and> cs \<noteq> [] then upd_line li (mend_wide (xpos t - 1) (curAttr t)) t1 else Some t1);
       (t3, ln, p) \<leftarrow> print_loop cs (t2, li, precedingJoinState t);
       let t4 = t3\<lparr>precedingJoinState := p\<rparr>;
       let x = xpos t4;
       t5 \<leftarrow> (if x < u \<and> cs \<noteq> [] then
                upd_line ln (\<lambda>l. if getWidth l x = 0 \<and> \<not> hasContent l x then blank_at x (curAttr t) l else l) t4
              else Some t4);
       Some (markDirty (ypos t5) t5)
     }"

text \<open>
  \<open>repeatPrecedingCharacter\<close> prints the text of the cell before the cursor again, as often as asked.
\<close>

fun string_code_points :: "ustring \<Rightarrow> cp list" where
  "string_code_points [] = []"
| "string_code_points [c] = [unat c]"
| "string_code_points (c # d # rest) =
     (if high_surrogate c \<and> low_surrogate d then surrogate_pair c d # string_code_points rest
      else unat c # string_code_points (d # rest))"

definition repeatPrecedingCharacter :: "params \<Rightarrow> terminal_state \<Rightarrow> terminal_state option" where
  "repeatPrecedingCharacter p t =
     (let i = precedingJoinState t
      in if i = 0 then Some t
         else
           do {
             l \<leftarrow> line_here (abs_row (ypos t) t) t;
             let cs = string_code_points (getString l (xpos t - int (extractWidth i)));
             print (concat (replicate (nat (par1 p 0)) cs)) t
           })"

end
