(* ===== verification/Xterm_Erase.thy ===== *)
theory Xterm_Erase
  imports Xterm_Cursor
begin

text \<open>
  The handlers of \<open>InputHandler\<close> that erase, insert and delete: in the display, in a line, whole lines,
  characters and columns, and the scrolling of the region.
\<close>

text \<open>Loops whose body may throw: over a list, and a number of times.\<close>

fun each_opt :: "('i \<Rightarrow> 's \<Rightarrow> 's option) \<Rightarrow> 'i list \<Rightarrow> 's \<Rightarrow> 's option" where
  "each_opt f [] s = Some s"
| "each_opt f (x # xs) s = (case f x s of None \<Rightarrow> None | Some s' \<Rightarrow> each_opt f xs s')"

fun times_opt :: "nat \<Rightarrow> ('s \<Rightarrow> 's option) \<Rightarrow> 's \<Rightarrow> 's option" where
  "times_opt 0 f s = Some s"
| "times_opt (Suc n) f s = (case f s of None \<Rightarrow> None | Some s' \<Rightarrow> times_opt n f s')"

subsection \<open>Erasing\<close>

definition eraseInBufferLine :: "int \<Rightarrow> int \<Rightarrow> int \<Rightarrow> bool \<Rightarrow> bool \<Rightarrow> terminal_state \<Rightarrow> terminal_state option" where
  "eraseInBufferLine y a b clearWrap respectProtect t =
     upd_line (abs_row y t)
       (\<lambda>l. let l1 = replaceCells a b (null_here t) respectProtect l
            in if clearWrap then l1\<lparr>isWrapped := False\<rparr> else l1)
       (keep_eraseAttr t)"

definition resetBufferLine :: "bool \<Rightarrow> int \<Rightarrow> terminal_state \<Rightarrow> terminal_state" where
  "resetBufferLine respectProtect y t =
     (case upd_line (abs_row y t) (\<lambda>l. (line_fill (null_here t) respectProtect l)\<lparr>isWrapped := False\<rparr>)
             (keep_eraseAttr t) of
        None \<Rightarrow> t
      | Some t1 \<Rightarrow> upd_active (clearMarkers (abs_row y t)) t1)"

text \<open>The last row with content, or -1.\<close>

fun last_used :: "nat \<Rightarrow> buffer \<Rightarrow> int" where
  "last_used 0 b = -1"
| "last_used (Suc k) b =
     (case lines_get b (ybase b + int k) of
        None \<Rightarrow> last_used k b
      | Some l \<Rightarrow> if getTrimmedLength l = 0 then last_used k b else int k)"

definition erase_below :: "bool \<Rightarrow> terminal_state \<Rightarrow> terminal_state option" where
  "erase_below prot t =
     do {
       let y = ypos t;
       t1 \<leftarrow> eraseInBufferLine y (xpos t) (cols t) (xpos t = 0) prot (markDirty y t);
       Some (markDirty (max (y + 1) (rows t)) (fold (resetBufferLine prot) [y + 1..rows t - 1] t1))
     }"

text \<open>The line below is looked up without \<open>ybase\<close>.\<close>

definition erase_above :: "bool \<Rightarrow> terminal_state \<Rightarrow> terminal_state option" where
  "erase_above prot t =
     do {
       let y = ypos t;
       t1 \<leftarrow> eraseInBufferLine y 0 (xpos t + 1) True prot (markDirty y t);
       t2 \<leftarrow> (if cols t \<le> xpos t1 + 1 then upd_line (y + 1) (\<lambda>l. l\<lparr>isWrapped := False\<rparr>) t1 else Some t1);
       Some (markDirty 0 (fold (resetBufferLine prot) (rev [0..y - 1]) t2))
     }"

definition erase_all :: "bool \<Rightarrow> terminal_state \<Rightarrow> terminal_state option" where
  "erase_all prot t =
     (if scrollOnEraseInDisplay (options t) then
        (let t1 = markRangeDirty 0 (rows t - 1) t
         in times_opt (nat (last_used (nat (rows t)) (active t1) + 1)) (scroll_erased False) t1)
      else Some (markDirty 0 (fold (resetBufferLine prot) (rev [0..rows t - 1]) (markDirty (rows t - 1) t))))"

definition erase_saved :: "terminal_state \<Rightarrow> terminal_state" where
  "erase_saved t =
     (let b = active t;
          n = int (rlen (lines b)) - rows t
      in if 0 < n then
           emit (On_scroll 0)
             (set_active
               ((update_lines (ring_trimStart (nat n)) b)
                  \<lparr>ybase := max (ybase b - n) 0, ydisp := max (ydisp b - n) 0\<rparr>) t)
         else t)"

definition eraseInDisplay :: "params \<Rightarrow> bool \<Rightarrow> terminal_state \<Rightarrow> terminal_state option" where
  "eraseInDisplay p prot t =
     (let t1 = restrictCursor (cols t) t
      in if par p 0 = 0 then erase_below prot t1
         else if par p 0 = 1 then erase_above prot t1
         else if par p 0 = 2 then erase_all prot t1
         else if par p 0 = 3 then Some (erase_saved t1)
         else Some t1)"

definition eraseInLine :: "params \<Rightarrow> bool \<Rightarrow> terminal_state \<Rightarrow> terminal_state option" where
  "eraseInLine p prot t =
     do {
       let t1 = restrictCursor (cols t) t;
       let x = xpos t1;
       t2 \<leftarrow> (if par p 0 = 0 then eraseInBufferLine (ypos t1) x (cols t1) (x = 0) prot t1
              else if par p 0 = 1 then eraseInBufferLine (ypos t1) 0 (x + 1) False prot t1
              else if par p 0 = 2 then eraseInBufferLine (ypos t1) 0 (cols t1) True prot t1
              else Some t1);
       Some (markDirty (ypos t2) t2)
     }"

definition eraseChars :: "params \<Rightarrow> terminal_state \<Rightarrow> terminal_state" where
  "eraseChars p t =
     (let t1 = restrict_default t;
          i = abs_row (ypos t1) t1
      in if line_here i t1 = None then t1
         else markDirty (ypos t1)
           (upd_line_if i (replaceCells (xpos t1) (xpos t1 + par1 p 0) (null_here t1) False) (keep_eraseAttr t1)))"

subsection \<open>Lines\<close>

definition outside_region :: "terminal_state \<Rightarrow> bool" where
  "outside_region t \<longleftrightarrow> scrollBottom (active t) < ypos t \<or> ypos t < scrollTop (active t)"

definition mark_region :: "terminal_state \<Rightarrow> terminal_state" where
  "mark_region t = markRangeDirty (scrollTop (active t)) (scrollBottom (active t)) t"

text \<open>One round of a loop: a line is taken out at one row and a blank one put in at another.\<close>

definition move_blank :: "int \<Rightarrow> int \<Rightarrow> line \<Rightarrow> buffer \<Rightarrow> buffer" where
  "move_blank a b n buf = lines_splice b 0 [n] (lines_splice a 1 [] buf)"

definition insertLines :: "params \<Rightarrow> terminal_state \<Rightarrow> terminal_state" where
  "insertLines p t =
     (let t1 = restrict_default t;
          b = active t1;
          r = ybase b + cy b;
          n = rows t1 - 1 - scrollBottom b;
          o2 = rows t1 - 1 + ybase b - n + 1
      in if outside_region t1 then t1
         else set_x 0
           (markRangeDirty (cy b) (scrollBottom b)
             (set_active ((move_blank (o2 - 1) r (blank_here t1) ^^ nat (par1 p 0)) b) (keep_eraseAttr t1))))"

definition deleteLines :: "params \<Rightarrow> terminal_state \<Rightarrow> terminal_state" where
  "deleteLines p t =
     (let t1 = restrict_default t;
          b = active t1;
          r = ybase b + cy b;
          n = rows t1 - 1 - scrollBottom b;
          o2 = rows t1 - 1 + ybase b - n
      in if outside_region t1 then t1
         else set_x 0
           (markRangeDirty (cy b) (scrollBottom b)
             (set_active ((move_blank r o2 (blank_here t1) ^^ nat (par1 p 0)) b) (keep_eraseAttr t1))))"

definition scrollUp :: "params \<Rightarrow> terminal_state \<Rightarrow> terminal_state" where
  "scrollUp p t =
     (let b = active t
      in mark_region
           (set_active ((move_blank (ybase b + scrollTop b) (ybase b + scrollBottom b) (blank_here t) ^^ nat (par1 p 0)) b)
             (keep_eraseAttr t)))"

definition scrollDown :: "params \<Rightarrow> terminal_state \<Rightarrow> terminal_state" where
  "scrollDown p t =
     (let b = active t
      in mark_region
           (set_active
             ((move_blank (ybase b + scrollBottom b) (ybase b + scrollTop b) (getBlankLine (cols t) default_attr False)
                ^^ nat (par1 p 0)) b) t))"

subsection \<open>Characters and columns\<close>

definition insertChars :: "params \<Rightarrow> terminal_state \<Rightarrow> terminal_state" where
  "insertChars p t =
     (let t1 = restrict_default t;
          i = abs_row (ypos t1) t1
      in if line_here i t1 = None then t1
         else markDirty (ypos t1)
           (upd_line_if i (insertCells (xpos t1) (par1 p 0) (null_here t1)) (keep_eraseAttr t1)))"

definition deleteChars :: "params \<Rightarrow> terminal_state \<Rightarrow> terminal_state" where
  "deleteChars p t =
     (let t1 = restrict_default t;
          i = abs_row (ypos t1) t1
      in if line_here i t1 = None then t1
         else markDirty (ypos t1)
           (upd_line_if i (deleteCells (xpos t1) (par1 p 0) (null_here t1)) (keep_eraseAttr t1)))"

text \<open>An edit of every line of the scroll region.\<close>

definition edit_region :: "(cell \<Rightarrow> line \<Rightarrow> line) \<Rightarrow> terminal_state \<Rightarrow> terminal_state option" where
  "edit_region f t =
     (if outside_region t then Some t
      else map_option mark_region
        (each_opt (\<lambda>r t. upd_line (abs_row r t) (\<lambda>l. (f (null_here t) l)\<lparr>isWrapped := False\<rparr>) (keep_eraseAttr t))
          [scrollTop (active t)..scrollBottom (active t)] t))"

definition scrollLeft :: "params \<Rightarrow> terminal_state \<Rightarrow> terminal_state option" where
  "scrollLeft p = edit_region (deleteCells 0 (par1 p 0))"

definition scrollRight :: "params \<Rightarrow> terminal_state \<Rightarrow> terminal_state option" where
  "scrollRight p = edit_region (insertCells 0 (par1 p 0))"

definition insertColumns :: "params \<Rightarrow> terminal_state \<Rightarrow> terminal_state option" where
  "insertColumns p t = edit_region (insertCells (xpos t) (par1 p 0)) t"

definition deleteColumns :: "params \<Rightarrow> terminal_state \<Rightarrow> terminal_state option" where
  "deleteColumns p t = edit_region (deleteCells (xpos t) (par1 p 0)) t"

definition alignment_cell :: "terminal_state \<Rightarrow> cell" where
  "alignment_cell t = new_cell\<lparr>content := push_bit 22 1 OR 69, fg := fg (curAttr t), bg := bg (curAttr t)\<rparr>"

definition screenAlignmentPattern :: "terminal_state \<Rightarrow> terminal_state" where
  "screenAlignmentPattern t =
     (let t1 = setCursor 0 0 t;
          t2 = fold (\<lambda>i t'. upd_line_if (abs_row (ypos t' + i) t')
                       (\<lambda>l. (line_fill (alignment_cell t) False l)\<lparr>isWrapped := False\<rparr>) t')
                 [0..rows t - 1] t1
      in setCursor 0 0 (markAllDirty t2))"

end
