(* ===== verification/Xterm_Parser.thy ===== *)
theory Xterm_Parser
  imports Xterm_Params
begin

text \<open>
  The parser of the terminal's output (\<open>EscapeSequenceParser\<close>, \<open>bn\<close> in the bundle), a state machine after the
  VT500: its transition table, the parsers of operating system commands (\<open>mn\<close>, \<open>pe\<close>) and device control
  strings (\<open>_n\<close>, \<open>Xi\<close>), and the loop over a chunk of code points.

  The handlers that the terminal registers all return at once and never a promise, so a call of a handler is
  an event in the result. Unknown sequences are logged by the fallback handlers, which does nothing else.
\<close>

subsection \<open>The transition table\<close>

text \<open>
  A row says that in a state a set of codes leads to an action and a next state; a later row overwrites an
  earlier one. Codes from 160 on use the column 160.
\<close>

record row =
  codes :: "nat \<Rightarrow> bool"
  in_state :: nat
  act :: nat
  nxt :: nat

definition many :: "nat list \<Rightarrow> nat \<Rightarrow> nat \<Rightarrow> nat \<Rightarrow> row" where
  "many cs s a n = \<lparr>codes = (\<lambda>c. c \<in> set cs), in_state = s, act = a, nxt = n\<rparr>"

definition code_range :: "nat \<Rightarrow> nat \<Rightarrow> nat \<Rightarrow> nat \<Rightarrow> nat \<Rightarrow> row" where
  "code_range lo hi s a n = \<lparr>codes = (\<lambda>c. lo \<le> c \<and> c < hi), in_state = s, act = a, nxt = n\<rparr>"

text \<open>The printable codes and the executable ones.\<close>

definition printables :: "nat \<Rightarrow> nat \<Rightarrow> nat \<Rightarrow> row" where
  "printables s a n = code_range 32 127 s a n"

definition executables :: "nat \<Rightarrow> nat \<Rightarrow> nat \<Rightarrow> row" where
  "executables s a n = \<lparr>codes = (\<lambda>c. c < 24 \<or> c = 25 \<or> 28 \<le> c \<and> c < 32), in_state = s, act = a, nxt = n\<rparr>"

definition anywhere :: "nat \<Rightarrow> row list" where
  "anywhere l =
     [many [24, 26, 153, 154] l 3 0, code_range 128 144 l 3 0, code_range 144 152 l 3 0, many [156] l 0 0,
      many [27] l 11 1, many [157] l 4 8, many [152, 158, 159] l 0 7, many [155] l 11 3, many [144] l 11 9]"

definition ground_rows :: "row list" where
  "ground_rows =
     [executables 0 3 0, executables 1 3 1, many [127] 1 0 1, executables 8 0 8, executables 3 3 3,
      many [127] 3 0 3, executables 4 3 4, many [127] 4 0 4, executables 6 3 6, executables 5 3 5,
      many [127] 5 0 5, executables 2 3 2, many [127] 2 0 2]"

definition osc_rows :: "row list" where
  "osc_rows =
     [many [93] 1 4 8, printables 8 5 8, many [127] 8 5 8, many [156, 27, 24, 26, 7] 8 6 0, code_range 28 32 8 0 8]"

definition string_rows :: "row list" where
  "string_rows =
     [many [88, 94, 95] 1 0 7, printables 7 0 7, executables 7 0 7, many [156] 7 0 0, many [127] 7 0 7]"

definition csi_rows :: "row list" where
  "csi_rows =
     [many [91] 1 11 3, code_range 64 127 3 7 0, code_range 48 60 3 8 4, many [60, 61, 62, 63] 3 9 4, code_range 48 60 4 8 4,
      code_range 64 127 4 7 0, many [60, 61, 62, 63] 4 0 6, code_range 32 64 6 0 6, many [127] 6 0 6, code_range 64 127 6 0 0,
      code_range 32 48 3 9 5, code_range 32 48 5 9 5, code_range 48 64 5 0 6, code_range 64 127 5 7 0, code_range 32 48 4 9 5]"

definition esc_rows :: "row list" where
  "esc_rows =
     [code_range 32 48 1 9 2, code_range 32 48 2 9 2, code_range 48 127 2 10 0, code_range 48 80 1 10 0, code_range 81 88 1 10 0,
      many [89, 90, 92] 1 10 0, code_range 96 127 1 10 0]"

definition dcs_rows :: "row list" where
  "dcs_rows =
     [many [80] 1 11 9, executables 9 0 9, many [127] 9 0 9, code_range 28 32 9 0 9, code_range 32 48 9 9 12,
      code_range 48 60 9 8 10, many [60, 61, 62, 63] 9 9 10, executables 11 0 11, code_range 32 128 11 0 11,
      code_range 28 32 11 0 11, executables 10 0 10, many [127] 10 0 10, code_range 28 32 10 0 10, code_range 48 60 10 8 10,
      many [60, 61, 62, 63] 10 0 11, code_range 32 48 10 9 12, executables 12 0 12, many [127] 12 0 12,
      code_range 28 32 12 0 12, code_range 32 48 12 9 12, code_range 48 64 12 0 11, code_range 64 127 12 12 13,
      code_range 64 127 10 12 13, code_range 64 127 9 12 13, executables 13 13 13, printables 13 13 13,
      many [127] 13 0 13, many [27, 156, 24, 26] 13 14 0]"

definition unicode_rows :: "row list" where
  "unicode_rows =
     [many [160] 0 2 0, many [160] 8 5 8, many [160] 6 0 6, many [160] 11 0 11, many [160] 13 13 13]"

definition table_rows :: "row list" where
  "table_rows =
     printables 0 2 0 # concat (map anywhere [0..<14]) @ ground_rows @ osc_rows @ string_rows @ csi_rows @
     esc_rows @ dcs_rows @ unicode_rows"

definition overwrite :: "nat \<Rightarrow> nat \<Rightarrow> row \<Rightarrow> nat \<times> nat \<Rightarrow> nat \<times> nat" where
  "overwrite s c r entry = (if in_state r = s \<and> codes r c then (act r, nxt r) else entry)"

definition transition :: "nat \<Rightarrow> cp \<Rightarrow> nat \<times> nat" where
  "transition s c = fold (overwrite s (if c < 160 then c else 160)) table_rows (1, 0)"

subsection \<open>Operating system commands\<close>

text \<open>
  The numbers with a handler; each handler is an \<open>OscHandler\<close>, which collects up to \<open>10 ^ 7\<close> characters.
\<close>

definition osc_known :: "int \<Rightarrow> bool" where
  "osc_known n \<longleftrightarrow> n \<in> {0, 1, 2, 4, 8, 10, 11, 12, 104, 110, 111, 112}"

definition payload_limit :: nat where "payload_limit = 10000000"

record osc =
  osc_state :: nat
  osc_id :: int
  osc_data :: ustring
  osc_hit :: bool

definition osc_init :: osc where
  "osc_init = \<lparr>osc_state = 0, osc_id = -1, osc_data = [], osc_hit = False\<rparr>"

text \<open>\<open>start\<close> first resets, which ends active handlers without success.\<close>

definition osc_start :: "osc \<Rightarrow> osc" where
  "osc_start o1 = o1\<lparr>osc_state := 1, osc_id := -1, osc_data := [], osc_hit := False\<rparr>"

text \<open>\<open>put\<close> of a handler: nothing more is collected once the limit was hit.\<close>

definition collect_data :: "cp list \<Rightarrow> ustring \<times> bool \<Rightarrow> ustring \<times> bool" where
  "collect_data cs d =
     (if snd d then d
      else
        (let t = fst d @ concat (map stringFromCodePoint cs)
         in if payload_limit < length t then ([], True) else (t, False)))"

definition osc_collect :: "cp list \<Rightarrow> osc \<Rightarrow> osc" where
  "osc_collect cs o1 =
     (if cs = [] \<or> \<not> osc_known (osc_id o1) then o1
      else (let (t, h) = collect_data cs (osc_data o1, osc_hit o1) in o1\<lparr>osc_data := t, osc_hit := h\<rparr>))"

fun osc_put :: "cp list \<Rightarrow> osc \<Rightarrow> osc" where
  "osc_put [] o1 = o1"
| "osc_put (c # cs) o1 =
     (if osc_state o1 = 1 then
        (if c = 59 then osc_collect cs (o1\<lparr>osc_state := 2, osc_data := [], osc_hit := False\<rparr>)
         else if c < 48 \<or> 57 < c then o1\<lparr>osc_state := 3\<rparr>
         else osc_put cs (o1\<lparr>osc_id := (if osc_id o1 = -1 then 0 else osc_id o1) * 10 + int c - 48\<rparr>))
      else if osc_state o1 = 2 then osc_collect (c # cs) o1
      else o1)"

text \<open>
  \<open>String_end\<close> stands for \<open>precedingJoinState = 0\<close> at the end of a string, with or without a handler; the
  other events but \<open>Print\<close> and \<open>Parse_error\<close> also end with it.
\<close>

datatype parser_event =
    Print "cp list"
  | Execute cp
  | Csi "32 word" params
  | Esc "32 word"
  | Osc int ustring
  | Dcs "32 word" ustring params
  | String_end
  | Parse_error cp

text \<open>\<open>end(success)\<close> calls the handler of a known number that collected its data.\<close>

definition osc_end :: "bool \<Rightarrow> osc \<Rightarrow> osc \<times> parser_event list" where
  "osc_end success o1 =
     (osc_init,
      if osc_state o1 \<in> {1, 2} \<and> osc_known (osc_id o1) \<and> success \<and> \<not> (osc_state o1 = 2 \<and> osc_hit o1)
      then [Osc (osc_id o1) (if osc_state o1 = 2 then osc_data o1 else [])] else [])"

subsection \<open>Device control strings\<close>

text \<open>The one registered handler is that of the status request, \<open>DCS $ q\<close>.\<close>

definition dcs_known :: "32 word \<Rightarrow> bool" where
  "dcs_known ident \<longleftrightarrow> ident = 0x2471"

record dcs =
  dcs_ident :: "32 word"
  dcs_data :: ustring
  dcs_params :: params
  dcs_hit :: bool

definition zero_params :: params where
  "zero_params = the (addParam 0 default_params)"

definition dcs_init :: dcs where
  "dcs_init = \<lparr>dcs_ident = 0, dcs_data = [], dcs_params = zero_params, dcs_hit = False\<rparr>"

definition dcs_hook :: "32 word \<Rightarrow> params \<Rightarrow> dcs \<Rightarrow> dcs" where
  "dcs_hook ident p d =
     \<lparr>dcs_ident = ident, dcs_data = [],
      dcs_params = (if 1 < plen p \<or> ps p ! 0 \<noteq> 0 then p else zero_params), dcs_hit = False\<rparr>"

definition dcs_put :: "cp list \<Rightarrow> dcs \<Rightarrow> dcs" where
  "dcs_put cs d =
     (if dcs_known (dcs_ident d) then
        (let (t, h) = collect_data cs (dcs_data d, dcs_hit d) in d\<lparr>dcs_data := t, dcs_hit := h\<rparr>)
      else d)"

definition dcs_unhook :: "bool \<Rightarrow> dcs \<Rightarrow> dcs \<times> parser_event list" where
  "dcs_unhook success d =
     (dcs_init,
      if dcs_known (dcs_ident d) \<and> success \<and> \<not> dcs_hit d then [Dcs (dcs_ident d) (dcs_data d) (dcs_params d)] else [])"

subsection \<open>The parser\<close>

record parser =
  currentState :: nat
  p_params :: params
  p_collect :: "32 word"
  oscParser :: osc
  dcsParser :: dcs

definition init_parser :: parser where
  "init_parser =
     \<lparr>currentState = 0, p_params = zero_params, p_collect = 0, oscParser = osc_init, dcsParser = dcs_init\<rparr>"

text \<open>\<open>params.reset(); params.addParam(0); collect = 0\<close>.\<close>

definition clear_sequence :: "parser \<Rightarrow> parser" where
  "clear_sequence p = p\<lparr>p_params := the (addParam 0 (params_reset (p_params p))), p_collect := 0\<rparr>"

definition parser_reset :: "parser \<Rightarrow> parser" where
  "parser_reset p = (clear_sequence p)\<lparr>currentState := 0, oscParser := osc_init, dcsParser := dcs_init\<rparr>"

definition identifier_of :: "parser \<Rightarrow> cp \<Rightarrow> 32 word" where
  "identifier_of p n = push_bit 8 (p_collect p) OR of_nat n"

definition param_code :: "cp \<Rightarrow> params \<Rightarrow> params" where
  "param_code n q =
     (if n = 59 then the (addParam 0 q) else if n = 58 then the (addSubParam (-1) q) else addDigit (int n - 48) q)"

text \<open>The runs of codes that the loop takes together.\<close>

definition in_print_run :: "cp \<Rightarrow> bool" where "in_print_run c \<longleftrightarrow> \<not> (c < 32 \<or> 126 < c \<and> c < 160)"
definition in_osc_run :: "cp \<Rightarrow> bool" where "in_osc_run c \<longleftrightarrow> \<not> (c < 32 \<or> 127 < c \<and> c < 160)"
definition in_dcs_run :: "cp \<Rightarrow> bool" where "in_dcs_run c \<longleftrightarrow> \<not> (c = 24 \<or> c = 26 \<or> c = 27 \<or> 127 < c \<and> c < 160)"
definition in_param_run :: "cp \<Rightarrow> bool" where "in_param_run c \<longleftrightarrow> 47 < c \<and> c < 60"

definition run_of :: "nat \<Rightarrow> cp \<Rightarrow> bool" where
  "run_of a c =
     (if a = 2 then in_print_run c else if a = 5 then in_osc_run c else if a = 13 then in_dcs_run c
      else if a = 8 then in_param_run c else False)"

text \<open>
  One round of the loop: the action for a code and the run of codes after it, and the next state. An escape
  that ends a string also starts a sequence.
\<close>

definition run_action :: "nat \<Rightarrow> nat \<Rightarrow> cp \<Rightarrow> cp list \<Rightarrow> parser \<Rightarrow> parser \<times> parser_event list" where
  "run_action a s n run p =
     (let st = (\<lambda>p. p\<lparr>currentState := s AND 15\<rparr>);
          esc = (if n = 27 then s OR 1 else s)
      in if a = 2 then (st p, [Print (n # run)])
         else if a = 3 then (st p, [Execute n])
         else if a = 1 then (st p, [Parse_error n])
         else if a = 7 then (st p, [Csi (identifier_of p n) (p_params p)])
         else if a = 8 then (st (p\<lparr>p_params := fold param_code (n # run) (p_params p)\<rparr>), [])
         else if a = 9 then (st (p\<lparr>p_collect := identifier_of p n\<rparr>), [])
         else if a = 10 then (st p, [Esc (identifier_of p n)])
         else if a = 11 then (st (clear_sequence p), [])
         else if a = 12 then (st (p\<lparr>dcsParser := dcs_hook (identifier_of p n) (p_params p) (dcsParser p)\<rparr>), [])
         else if a = 13 then (st (p\<lparr>dcsParser := dcs_put (n # run) (dcsParser p)\<rparr>), [])
         else if a = 14 then
           (let (d, ev) = dcs_unhook (n \<noteq> 24 \<and> n \<noteq> 26) (dcsParser p)
            in ((clear_sequence (p\<lparr>dcsParser := d\<rparr>))\<lparr>currentState := esc AND 15\<rparr>, ev @ [String_end]))
         else if a = 4 then (st (p\<lparr>oscParser := osc_start (oscParser p)\<rparr>), [])
         else if a = 5 then (st (p\<lparr>oscParser := osc_put (n # run) (oscParser p)\<rparr>), [])
         else if a = 6 then
           (let (q, ev) = osc_end (n \<noteq> 24 \<and> n \<noteq> 26) (oscParser p)
            in ((clear_sequence (p\<lparr>oscParser := q\<rparr>))\<lparr>currentState := esc AND 15\<rparr>, ev @ [String_end]))
         else (st p, []))"

function parse :: "parser \<Rightarrow> cp list \<Rightarrow> parser \<times> parser_event list" where
  "parse p [] = (p, [])"
| "parse p (n # rest) =
     (let (a, s) = transition (currentState p) n;
          (p1, ev) = run_action a s n (takeWhile (run_of a) rest) p;
          (p2, evs) = parse p1 (dropWhile (run_of a) rest)
      in (p2, ev @ evs))"
  by pat_completeness auto
termination
  by (relation "measure (\<lambda>(p, cs). length cs)") (auto simp: less_Suc_eq_le length_dropWhile_le)

declare parse.simps(2) [simp del]

subsection \<open>Facts about the table\<close>

lemmas row_defs = many_def code_range_def printables_def executables_def
lemmas rows_defs = anywhere_def ground_rows_def osc_rows_def string_rows_def csi_rows_def esc_rows_def dcs_rows_def
  unicode_rows_def

text \<open>Only the rows of the state matter.\<close>

definition rows_at :: "nat \<Rightarrow> row list" where
  "rows_at s = filter (\<lambda>r. in_state r = s) table_rows"

lemma fold_overwrite_filter:
  "fold (overwrite s c) rs e = fold (overwrite s c) (filter (\<lambda>r. in_state r = s) rs) e"
  by (induction rs arbitrary: e) (simp_all add: overwrite_def)

lemma transition_rows_at: "transition s c = fold (overwrite s (if c < 160 then c else 160)) (rows_at s) (1, 0)"
  unfolding transition_def rows_at_def by (rule fold_overwrite_filter)

lemma fold_overwrite_cases:
  "fold (overwrite s c) rs e = x \<Longrightarrow> x = e \<or> (\<exists>r \<in> set rs. in_state r = s \<and> codes r c \<and> x = (act r, nxt r))"
proof (induction rs arbitrary: e)
  case (Cons r rs)
  from Cons.IH [of "overwrite s c r e"] Cons.prems show ?case by (auto simp: overwrite_def split: if_splits)
qed simp

lemma transition_cases:
  assumes "transition s c = (a, t)"
  obtains "a = 1" "t = 0"
    | r where "r \<in> set table_rows" "in_state r = s" "codes r (if c < 160 then c else 160)" "a = act r" "t = nxt r"
  using fold_overwrite_cases [of s "if c < 160 then c else 160" table_rows "(1, 0)"] assms
  unfolding transition_def by auto

lemma ball_table_rows:
  "(\<forall>r \<in> set table_rows. P r) \<longleftrightarrow>
     P (printables 0 2 0) \<and> (\<forall>l < 14. \<forall>r \<in> set (anywhere l). P r) \<and>
     (\<forall>r \<in> set (ground_rows @ osc_rows @ string_rows @ csi_rows @ esc_rows @ dcs_rows @ unicode_rows). P r)"
  by (auto simp: table_rows_def)

lemma table_states: "\<forall>r \<in> set table_rows. nxt r < 14 \<and> act r \<le> 14"
  unfolding ball_table_rows by (simp add: rows_defs row_defs)

text \<open>Where a run of codes starts, it goes on.\<close>

definition run_state :: "nat \<Rightarrow> nat \<Rightarrow> bool" where
  "run_state a t \<longleftrightarrow> (a = 2 \<longrightarrow> t = 0) \<and> (a = 5 \<longrightarrow> t = 8) \<and> (a = 13 \<longrightarrow> t = 13) \<and> (a = 8 \<longrightarrow> t = 4 \<or> t = 10)"

lemma table_runs: "\<forall>r \<in> set table_rows. run_state (act r) (nxt r)"
  unfolding ball_table_rows by (simp add: rows_defs row_defs run_state_def)

lemma transition_run_state: "transition s c = (a, t) \<Longrightarrow> run_state a t \<and> t < 14"
  by (erule transition_cases) (use table_runs table_states in \<open>auto simp: run_state_def\<close>)

lemma filter_anywhere: "filter (\<lambda>r. in_state r = s) (anywhere l) = (if l = s then anywhere l else [])"
  by (simp add: anywhere_def row_defs)

lemma filter_anywheres:
  "filter (\<lambda>r. in_state r = s) (concat (map anywhere [0..<n])) = (if s < n then anywhere s else [])"
  by (induction n) (auto simp: filter_anywhere)

lemma rows_at_eval:
  "rows_at 0 = printables 0 2 0 # anywhere 0 @ [executables 0 3 0, many [160] 0 2 0]"
  "rows_at 4 = anywhere 4 @ [executables 4 3 4, many [127] 4 0 4, code_range 48 60 4 8 4, code_range 64 127 4 7 0,
     many [60, 61, 62, 63] 4 0 6, code_range 32 48 4 9 5]"
  "rows_at 8 = anywhere 8 @ [executables 8 0 8, printables 8 5 8, many [127] 8 5 8, many [156, 27, 24, 26, 7] 8 6 0,
     code_range 28 32 8 0 8, many [160] 8 5 8]"
  "rows_at 10 = anywhere 10 @ [executables 10 0 10, many [127] 10 0 10, code_range 28 32 10 0 10, code_range 48 60 10 8 10,
     many [60, 61, 62, 63] 10 0 11, code_range 32 48 10 9 12, code_range 64 127 10 12 13]"
  "rows_at 13 = anywhere 13 @ [executables 13 13 13, printables 13 13 13, many [127] 13 0 13,
     many [27, 156, 24, 26] 13 14 0, many [160] 13 13 13]"
  by (simp_all add: rows_at_def table_rows_def filter_anywheres ground_rows_def osc_rows_def string_rows_def
      csi_rows_def esc_rows_def dcs_rows_def unicode_rows_def row_defs)

lemmas transition_eval = transition_rows_at rows_at_eval anywhere_def row_defs overwrite_def

lemma transition_run:
  "in_print_run c \<Longrightarrow> transition 0 c = (2, 0)"
  "in_osc_run c \<Longrightarrow> transition 8 c = (5, 8)"
  "in_param_run c \<Longrightarrow> transition 4 c = (8, 4)"
  "in_param_run c \<Longrightarrow> transition 10 c = (8, 10)"
  "in_dcs_run c \<Longrightarrow> c \<noteq> 127 \<Longrightarrow> transition 13 c = (13, 13)"
proof -
  show "transition 0 c = (2, 0)" if "in_print_run c"
  proof (cases "c < 160")
    case True
    then have "32 \<le> c" "c < 127" using that by (auto simp: in_print_run_def)
    then show ?thesis using True by (simp add: transition_eval)
  qed (simp add: transition_eval)
  show "transition 8 c = (5, 8)" if "in_osc_run c"
  proof (cases "c < 160")
    case True
    then have "32 \<le> c" "c < 128" using that by (auto simp: in_osc_run_def)
    then show ?thesis using True by (simp add: transition_eval)
  qed (simp add: transition_eval)
  show "transition 4 c = (8, 4)" "transition 10 c = (8, 10)" if "in_param_run c"
  proof -
    have "48 \<le> c" "c < 60" using that by (auto simp: in_param_run_def)
    then show "transition 4 c = (8, 4)" "transition 10 c = (8, 10)" by (simp_all add: transition_eval)
  qed
  show "transition 13 c = (13, 13)" if d: "in_dcs_run c" "c \<noteq> 127"
  proof (cases "c < 160")
    case True
    then consider "c < 24" | "c = 25" | "28 \<le> c" "c < 32" | "32 \<le> c" "c < 127"
      using d unfolding in_dcs_run_def by linarith
    then show ?thesis using True by cases (simp_all add: transition_eval)
  qed (simp add: transition_eval)
qed

lemma run_goes_on:
  assumes "transition s n = (a, t)" "run_of a c" "c \<noteq> 127"
  shows "transition t c = (a, t)"
  using transition_run_state [OF assms(1)] assms(2,3) transition_run [of c]
  by (auto simp: run_of_def run_state_def split: if_splits)

subsection \<open>One code at a time\<close>

text \<open>The parser without its runs, and the events with the printed text code by code.\<close>

definition parse_one :: "parser \<Rightarrow> cp \<Rightarrow> parser \<times> parser_event list" where
  "parse_one p n = (let (a, s) = transition (currentState p) n in run_action a s n [] p)"

fun parse_singly :: "parser \<Rightarrow> cp list \<Rightarrow> parser \<times> parser_event list" where
  "parse_singly p [] = (p, [])"
| "parse_singly p (n # rest) =
     (let (p1, ev) = parse_one p n; (p2, evs) = parse_singly p1 rest in (p2, ev @ evs))"

fun explode_event :: "parser_event \<Rightarrow> parser_event list" where
  "explode_event (Print cs) = map (\<lambda>c. Print [c]) cs"
| "explode_event e = [e]"

definition explode :: "parser_event list \<Rightarrow> parser_event list" where
  "explode es = concat (map explode_event es)"

lemma explode_simps [simp]:
  "explode [] = []" "explode (e # es) = explode_event e @ explode es" "explode (es @ fs) = explode es @ explode fs"
  by (simp_all add: explode_def)

lemma parse_singly_append:
  "parse_singly p (xs @ ys) =
     (fst (parse_singly (fst (parse_singly p xs)) ys),
      snd (parse_singly p xs) @ snd (parse_singly (fst (parse_singly p xs)) ys))"
  by (induction xs arbitrary: p) (simp_all add: case_prod_beta)

lemma collect_data_append: "collect_data (xs @ ys) d = collect_data ys (collect_data xs d)"
  by (auto simp: collect_data_def Let_def)

lemma collect_data_Nil: "length (fst d) \<le> payload_limit \<Longrightarrow> collect_data [] d = d"
  by (cases d) (simp add: collect_data_def)

lemma osc_collect_append: "osc_collect (xs @ ys) o1 = osc_collect ys (osc_collect xs o1)"
  by (cases "xs = []") (auto simp: osc_collect_def collect_data_append case_prod_beta)

lemma osc_put_collect: "osc_state o1 = 2 \<Longrightarrow> osc_put cs o1 = osc_collect cs o1"
  by (cases cs) (simp_all add: osc_collect_def)

lemma osc_put_idle: "osc_state o1 \<noteq> 1 \<Longrightarrow> osc_state o1 \<noteq> 2 \<Longrightarrow> osc_put cs o1 = o1"
  by (cases cs) simp_all

lemma osc_collect_state [simp]: "osc_state (osc_collect cs o1) = osc_state o1"
  by (simp add: osc_collect_def case_prod_beta)

lemma osc_put_append: "osc_put (xs @ ys) o1 = osc_put ys (osc_put xs o1)"
proof (induction xs arbitrary: o1)
  case (Cons c xs)
  consider "osc_state o1 = 1" | "osc_state o1 = 2" | "osc_state o1 \<noteq> 1" "osc_state o1 \<noteq> 2" by blast
  then show ?case
  proof cases
    case 1
    then show ?thesis using Cons.IH by (simp add: osc_put_collect osc_collect_append osc_put_idle)
  next
    case 2
    then show ?thesis using osc_put_collect [of o1 "(c # xs) @ ys"] osc_put_collect [of o1 "c # xs"]
      osc_collect_append [of "c # xs" ys o1] by (simp add: osc_put_collect)
  next
    case 3
    then show ?thesis by (simp add: osc_put_idle)
  qed
qed simp

lemma dcs_put_append: "dcs_put (xs @ ys) d = dcs_put ys (dcs_put xs d)"
  by (simp add: dcs_put_def collect_data_append case_prod_beta)

lemma and_15: "t < 14 \<Longrightarrow> t AND 15 = (t :: nat)"
  using take_bit_eq_mask [of 4 t] by (simp add: mask_eq_exp_minus_1 take_bit_nat_eq_self)

lemma run_of_kinds: "run_of a c \<Longrightarrow> a = 2 \<or> a = 5 \<or> a = 8 \<or> a = 13"
  by (simp add: run_of_def split: if_splits)

lemma run_action_state: "a = 2 \<or> a = 5 \<or> a = 8 \<or> a = 13 \<Longrightarrow> currentState (fst (run_action a t n run p)) = t AND 15"
  by (auto simp: run_action_def Let_def)

lemma run_action_snoc:
  assumes "a = 2 \<or> a = 5 \<or> a = 8 \<or> a = 13"
  shows "fst (run_action a t c [] (fst (run_action a t n run p))) = fst (run_action a t n (run @ [c]) p)"
    "explode (snd (run_action a t n run p)) @ snd (run_action a t c [] q) = explode (snd (run_action a t n (run @ [c]) p))"
proof -
  have d: "dcs_put (n # run @ [c]) d = dcs_put [c] (dcs_put (n # run) d)"
    "osc_put (n # run @ [c]) o1 = osc_put [c] (osc_put (n # run) o1)" for d o1
    using dcs_put_append [of "n # run" "[c]"] osc_put_append [of "n # run" "[c]"] by simp_all
  show "fst (run_action a t c [] (fst (run_action a t n run p))) = fst (run_action a t n (run @ [c]) p)"
    using assms by (elim disjE) (simp_all add: run_action_def Let_def d del: osc_put.simps)
  show "explode (snd (run_action a t n run p)) @ snd (run_action a t c [] q) = explode (snd (run_action a t n (run @ [c]) p))"
    using assms by (elim disjE) (simp_all add: run_action_def Let_def)
qed

lemma explode_run_action_single: "explode (snd (run_action a t n [] p)) = snd (run_action a t n [] p)"
  by (simp add: run_action_def Let_def osc_end_def dcs_unhook_def)

lemma parse_run:
  assumes "transition (currentState p) n = (a, t)" "\<forall>c \<in> set run. run_of a c \<and> c \<noteq> 127"
  shows "parse_singly p (n # run) = (fst (run_action a t n run p), explode (snd (run_action a t n run p)))"
  using assms(2)
proof (induction run rule: rev_induct)
  case Nil
  then show ?case
    by (simp add: parse_one_def assms(1) case_prod_beta explode_run_action_single)
next
  case (snoc c run)
  have kinds: "a = 2 \<or> a = 5 \<or> a = 8 \<or> a = 13" using snoc.prems run_of_kinds by auto
  have t: "t < 14" using transition_run_state [OF assms(1)] by simp
  let ?p = "fst (run_action a t n run p)"
  have "transition (currentState ?p) c = (a, t)"
    using run_goes_on [OF assms(1), of c] snoc.prems run_action_state [OF kinds] t by (simp add: and_15)
  then have one: "parse_one ?p c = run_action a t c [] ?p" by (simp add: parse_one_def)
  have "parse_singly p (n # run) = (?p, explode (snd (run_action a t n run p)))"
    using snoc by simp
  then have "parse_singly p ((n # run) @ [c])
      = (fst (run_action a t c [] ?p), explode (snd (run_action a t n run p)) @ snd (run_action a t c [] ?p))"
    unfolding parse_singly_append by (simp add: one case_prod_beta)
  then show ?case using run_action_snoc [OF kinds] by simp
qed

lemma parse_singly_eq:
  "127 \<notin> set cs \<Longrightarrow> parse_singly p cs = (fst (parse p cs), explode (snd (parse p cs)))"
proof (induction p cs rule: parse.induct)
  case (2 p n rest)
  obtain a t where at: "transition (currentState p) n = (a, t)" by fastforce
  let ?run = "takeWhile (run_of a) rest" and ?rest = "dropWhile (run_of a) rest"
  let ?p = "fst (run_action a t n ?run p)"
  have "127 \<notin> set ?rest" using "2.prems" by (auto dest: set_dropWhileD)
  then have IH: "parse_singly ?p ?rest = (fst (parse ?p ?rest), explode (snd (parse ?p ?rest)))"
    using "2.IH" [OF refl at [symmetric] refl prod.collapse] by simp
  have "\<forall>c \<in> set ?run. run_of a c \<and> c \<noteq> 127" using "2.prems" by (auto dest: set_takeWhileD)
  from parse_run [OF at this]
  have "parse_singly p ((n # ?run) @ ?rest)
      = (fst (parse ?p ?rest), explode (snd (run_action a t n ?run p)) @ explode (snd (parse ?p ?rest)))"
    unfolding parse_singly_append by (simp add: IH)
  moreover have "(n # ?run) @ ?rest = n # rest" by simp
  ultimately show ?case by (simp only: parse.simps(2) at Let_def case_prod_beta) (simp add: case_prod_beta)
qed simp

subsection \<open>Properties\<close>

text \<open>
  C39: Output may be cut anywhere: parsing a chunk and then the next one gives the same parser state and the
  same events as parsing both at once, except that a run of printed text is handed over in several pieces.
  (Without DEL: inside a device control string a DEL is data or not depending on the code before it in the
  same chunk.)
\<close>

theorem parser_chunks:
  assumes "127 \<notin> set (xs @ ys)"
  shows "fst (parse p (xs @ ys)) = fst (parse (fst (parse p xs)) ys)
    \<and> explode (snd (parse p (xs @ ys))) = explode (snd (parse p xs) @ snd (parse (fst (parse p xs)) ys))"
proof -
  have "parse_singly p (xs @ ys) = (fst (parse (fst (parse p xs)) ys),
      explode (snd (parse p xs)) @ explode (snd (parse (fst (parse p xs)) ys)))"
    using assms by (simp add: parse_singly_append parse_singly_eq)
  then show ?thesis using parse_singly_eq [OF assms, of p] by simp
qed

lemma parse_print_run:
  assumes "currentState p = 0" "cs \<noteq> []" "\<forall>c \<in> set cs. in_print_run c"
  shows "parse p cs = (p, [Print cs])"
proof -
  obtain c r where cs: "cs = c # r" using assms(2) by (cases cs) auto
  have run: "takeWhile (run_of 2) r = r" "dropWhile (run_of 2) r = []"
    using assms(3) by (auto simp: cs run_of_def takeWhile_eq_all_conv)
  have "p\<lparr>currentState := 0\<rparr> = p" using assms(1) by (cases p) simp
  then show ?thesis using assms(1,3) transition_run(1) [of c]
    by (simp add: cs parse.simps(2) run_action_def run)
qed

theorem parser_chunks_witness:
  "explode (snd (parse init_parser [65, 66])) = explode (snd (parse init_parser [65]) @ snd (parse init_parser [66]))"
  using parser_chunks [of "[65]" "[66]" init_parser]
    parse_print_run [of init_parser "[65]"]
  by (simp add: init_parser_def in_print_run_def)

lemma table_cancel: "\<forall>r \<in> set table_rows. codes r 24 \<longrightarrow> nxt r = 0 \<and> act r \<in> {3, 6, 14}"
  unfolding ball_table_rows by (simp add: rows_defs row_defs)

lemma transition_cancel: "transition s 24 = (a, t) \<Longrightarrow> t = 0 \<and> a \<in> {1, 3, 6, 14}"
  by (erule transition_cases) (use table_cancel in auto)

text \<open>
  C40: The parser recovers from anything: whatever sequence it is in the middle of, a CAN brings it back to the
  ground state with at most one event, runs no handler of the cancelled sequence, and the text after it is
  printed in full.
\<close>

theorem cancel_recovers:
  assumes "cs \<noteq> []" "\<forall>c \<in> set cs. in_print_run c"
  shows "\<exists>p' ev. parse p (24 # cs) = (p', ev @ [Print cs]) \<and> currentState p' = 0
    \<and> (ev = [String_end] \<or> ev = [Execute 24] \<or> ev = [Parse_error 24])"
proof -
  obtain a t where at: "transition (currentState p) 24 = (a, t)" by fastforce
  note c = transition_cancel [OF at]
  let ?r = "run_action a t 24 [] p"
  have run: "takeWhile (run_of a) cs = []" "dropWhile (run_of a) cs = cs"
    using c run_of_kinds [of a] by (cases cs; auto)+
  have s: "currentState (fst ?r) = 0"
    and ev: "snd ?r = [String_end] \<or> snd ?r = [Execute 24] \<or> snd ?r = [Parse_error 24]"
    using c by (auto simp: run_action_def Let_def osc_end_def dcs_unhook_def)
  have "parse p (24 # cs) = (fst ?r, snd ?r @ [Print cs])"
    using parse_print_run [OF s assms] by (simp add: parse.simps(2) at run case_prod_beta)
  then show ?thesis using s ev by blast
qed

theorem cancel_recovers_witness:
  "\<exists>p' ev. parse (init_parser\<lparr>currentState := 13\<rparr>) [24, 79, 75] = (p', ev @ [Print [79, 75]]) \<and> currentState p' = 0"
  using cancel_recovers [of "[79, 75]" "init_parser\<lparr>currentState := 13\<rparr>"] by (auto simp: in_print_run_def)

end
