(* ===== verification/Xterm_Handler.thy ===== *)
theory Xterm_Handler
  imports Xterm_Print Xterm_Erase Xterm_Osc Xterm_Parser
begin

text \<open>
  The dispatch of the parser's events to the handlers, as the constructor of \<open>InputHandler\<close> registers them,
  and \<open>InputHandler.parse\<close>, which decodes and parses a chunk of output and reports the dirty rows.

  A sequence is identified by its prefix, intermediates and final character, packed into a number.
\<close>

type_synonym resizer = "int \<Rightarrow> int \<Rightarrow> terminal_state \<Rightarrow> terminal_state"
type_synonym csi_handler = "params \<Rightarrow> terminal_state \<Rightarrow> terminal_state option"

definition ident :: "string \<Rightarrow> 32 word" where
  "ident s = foldl (\<lambda>r c. push_bit 8 r OR of_nat (of_char c)) 0 s"

text \<open>A handler that cannot throw.\<close>

definition safe :: "(params \<Rightarrow> terminal_state \<Rightarrow> terminal_state) \<Rightarrow> csi_handler" where
  "safe f = (\<lambda>p t. Some (f p t))"

definition csi_cursor :: "(string \<times> csi_handler) list" where
  "csi_cursor =
     [(''A'', safe cursorUp), (''B'', safe cursorDown), (''C'', safe cursorForward), (''D'', safe cursorBackward),
      (''E'', safe cursorNextLine), (''F'', safe cursorPrecedingLine), (''G'', safe cursorCharAbsolute),
      (''H'', safe cursorPosition), (''I'', safe cursorForwardTab), (''Z'', safe cursorBackwardTab),
      ([CHR 0x60], safe charPosAbsolute), (''a'', safe hPositionRelative), (''d'', safe linePosAbsolute),
      (''e'', safe vPositionRelative), (''f'', safe hVPosition), (''g'', safe tabClear),
      (''r'', safe setScrollRegion), (''s'', safe (\<lambda>_. saveCursor)), (''u'', safe (\<lambda>_. restoreCursor))]"

definition csi_edit :: "(string \<times> csi_handler) list" where
  "csi_edit =
     [(''@'', safe insertChars), ('' @'', scrollLeft), ('' A'', scrollRight),
      (''J'', \<lambda>p. eraseInDisplay p False), (''?J'', \<lambda>p. eraseInDisplay p True),
      (''K'', \<lambda>p. eraseInLine p False), (''?K'', \<lambda>p. eraseInLine p True),
      (''L'', safe insertLines), (''M'', safe deleteLines), (''P'', safe deleteChars), (''S'', safe scrollUp),
      (''T'', safe scrollDown), (''X'', safe eraseChars), (''b'', repeatPrecedingCharacter),
      ([CHR 0x27, CHR ''}''], insertColumns), ([CHR 0x27, CHR ''~''], deleteColumns)]"

definition csi_modes :: "resizer \<Rightarrow> (string \<times> csi_handler) list" where
  "csi_modes resize =
     [(''c'', safe sendDeviceAttributesPrimary), (''>c'', safe sendDeviceAttributesSecondary),
      (''h'', safe setMode), (''?h'', safe (setModePrivate resize)), (''l'', safe resetMode),
      (''?l'', safe (resetModePrivate resize)), (''m'', safe charAttributes), (''n'', safe deviceStatus),
      (''?n'', safe deviceStatusPrivate), (''!p'', safe softReset), ('' q'', safe setCursorStyle),
      (''t'', safe windowOptions_handler), ([CHR 0x22, CHR ''q''], safe selectProtected),
      (''$p'', safe (\<lambda>p. requestMode p True)), (''?$p'', safe (\<lambda>p. requestMode p False))]"

definition csi_handlers :: "resizer \<Rightarrow> (32 word \<times> csi_handler) list" where
  "csi_handlers resize = map (\<lambda>(s, h). (ident s, h)) (csi_cursor @ csi_edit @ csi_modes resize)"

definition execute_handlers :: "(cp \<times> (terminal_state \<Rightarrow> terminal_state option)) list" where
  "execute_handlers =
     [(7, Some \<circ> bell), (10, lineFeed), (11, lineFeed), (12, lineFeed), (13, Some \<circ> carriageReturn), (8, backspace),
      (9, Some \<circ> tab), (14, Some \<circ> shiftOut), (15, Some \<circ> shiftIn), (0x84, index), (0x85, nextLine),
      (0x88, Some \<circ> tabSet)]"

definition esc_plain :: "(string \<times> (terminal_state \<Rightarrow> terminal_state option)) list" where
  "esc_plain =
     [(''7'', Some \<circ> saveCursor), (''8'', Some \<circ> restoreCursor), (''D'', index), (''E'', nextLine),
      (''H'', Some \<circ> tabSet), (''M'', reverseIndex), (''='', Some \<circ> keypadApplicationMode),
      (''>'', Some \<circ> keypadNumericMode), (''c'', Some \<circ> fullReset), (''n'', Some \<circ> setgLevel 2),
      (''o'', Some \<circ> setgLevel 3), (''|'', Some \<circ> setgLevel 3), (''}'', Some \<circ> setgLevel 2),
      (''~'', Some \<circ> setgLevel 1), (''%@'', Some \<circ> selectDefaultCharset), (''%G'', Some \<circ> selectDefaultCharset),
      (''#8'', Some \<circ> screenAlignmentPattern)]"

text \<open>\<open>for (c in CHARSETS)\<close>, with each of the intermediates.\<close>

definition esc_charsets :: "(string \<times> (terminal_state \<Rightarrow> terminal_state option)) list" where
  "esc_charsets =
     concat (map (\<lambda>c. map (\<lambda>i. ([i, c], Some \<circ> selectCharset i c)) ''()*+-./'') ''04567ABCRQKYEZH='')"

definition esc_handlers :: "(32 word \<times> (terminal_state \<Rightarrow> terminal_state option)) list" where
  "esc_handlers = map (\<lambda>(s, h). (ident s, h)) (esc_plain @ esc_charsets)"

definition call_handler :: "('k \<times> 'h) list \<Rightarrow> 'k \<Rightarrow> ('h \<Rightarrow> terminal_state option) \<Rightarrow> terminal_state \<Rightarrow> terminal_state option" where
  "call_handler hs k call t = (case map_of hs k of None \<Rightarrow> Some t | Some h \<Rightarrow> call h)"

definition end_join :: "terminal_state \<Rightarrow> terminal_state" where
  "end_join t = t\<lparr>precedingJoinState := 0\<rparr>"

fun dispatch_event :: "resizer \<Rightarrow> parser_event \<Rightarrow> terminal_state \<Rightarrow> terminal_state option" where
  "dispatch_event rs (Print cs) t = print cs t"
| "dispatch_event rs (Execute n) t = map_option end_join (call_handler execute_handlers n (\<lambda>h. h t) t)"
| "dispatch_event rs (Csi i p) t = map_option end_join (call_handler (csi_handlers rs) i (\<lambda>h. h p t) t)"
| "dispatch_event rs (Esc i) t = map_option end_join (call_handler esc_handlers i (\<lambda>h. h t) t)"
| "dispatch_event rs (Osc n s) t = Some (osc_handler n s t)"
| "dispatch_event rs (Dcs i s p) t = Some (requestStatusString s t)"
| "dispatch_event rs String_end t = Some (end_join t)"
| "dispatch_event rs (Parse_error c) t = Some t"

subsection \<open>A chunk of output\<close>

record emulator =
  screen_state :: terminal_state
  parser_state :: parser
  utf8_state :: interim
  utf16_state :: cu

datatype chunk = Text ustring | Bytes "byte list"

definition chunk_length :: "chunk \<Rightarrow> nat" where
  "chunk_length c = (case c of Text s \<Rightarrow> length s | Bytes b \<Rightarrow> length b)"

definition run_parser :: "resizer \<Rightarrow> cp list \<Rightarrow> emulator \<Rightarrow> emulator option" where
  "run_parser rs cs e =
     (let (p, evs) = parse (parser_state e) cs
      in map_option (\<lambda>t. e\<lparr>screen_state := t, parser_state := p\<rparr>)
           (each_opt (dispatch_event rs) evs (screen_state e)))"

fun decode_run :: "resizer \<Rightarrow> chunk \<Rightarrow> emulator \<Rightarrow> emulator option" where
  "decode_run rs (Text s) e =
     (let (cs, st) = str_decode (utf16_state e) s in run_parser rs cs (e\<lparr>utf16_state := st\<rparr>))"
| "decode_run rs (Bytes b) e =
     (let (cs, st) = u8_decode (utf8_state e) b in run_parser rs cs (e\<lparr>utf8_state := st\<rparr>))"

text \<open>Longer chunks are decoded and parsed in pieces of 131072.\<close>

function pieces :: "nat \<Rightarrow> 'a list \<Rightarrow> 'a list list" where
  "pieces n xs = (if n = 0 \<or> length xs \<le> n then [xs] else take n xs # pieces n (drop n xs))"
  by pat_completeness auto
termination by (relation "measure (\<lambda>(n, xs). length xs)") auto

declare pieces.simps [simp del]

definition max_parse :: nat where "max_parse = 131072"

definition chunk_pieces :: "chunk \<Rightarrow> chunk list" where
  "chunk_pieces c = (case c of Text s \<Rightarrow> map Text (pieces max_parse s) | Bytes b \<Rightarrow> map Bytes (pieces max_parse b))"

definition report_dirty :: "terminal_state \<Rightarrow> terminal_state" where
  "report_dirty t =
     (let b = active t;
          d = ybase b - ydisp b;
          h = dirtyStart t + d;
          u = dirtyEnd t + d
      in if h < rows t then emit (On_refresh_rows (Some (min h (rows t - 1), min u (rows t - 1)))) t else t)"

definition parse_chunk :: "resizer \<Rightarrow> chunk \<Rightarrow> emulator \<Rightarrow> emulator option" where
  "parse_chunk rs c e =
     do {
       let t = screen_state e;
       e1 \<leftarrow> each_opt (decode_run rs) (chunk_pieces c) (e\<lparr>screen_state := clearRange t\<rparr>);
       let t1 = screen_state e1;
       let t2 = (if xpos t1 \<noteq> xpos t \<or> ypos t1 \<noteq> ypos t then emit On_cursor_move t1 else t1);
       Some (e1\<lparr>screen_state := report_dirty t2\<rparr>)
     }"

subsection \<open>A new terminal\<close>

text \<open>The columns and rows given are raised to the least ones.\<close>

definition new_term :: "term_options \<Rightarrow> int \<Rightarrow> int \<Rightarrow> terminal_state" where
  "new_term opts c r =
     (let w = max c 2; h = max r 1;
          scr = \<lparr>cols = w, rows = h, isUserScrolling = False, cachedBlankLine = None\<rparr>;
          n = fillViewportRows w default_attr (new_buffer True scr opts)
      in \<lparr>cols = w, rows = h, isUserScrolling = False, cachedBlankLine = None, options = opts,
          normal_buffer = n, alt_buffer = new_buffer False scr opts, alt_active = False, insertMode = False,
          dec = default_modes, isCursorHidden = False, isCursorInitialized = False, charset_now = None,
          charsets = (\<lambda>_. None), glevel = 0, activeProtocol = NONE, activeEncoding = DEFAULT, nextLinkId = 1,
          link_data = [], detached = [], curAttr = default_attr, eraseAttr_internal = default_attr,
          windowTitle = [], iconName = [], windowTitleStack = [], iconNameStack = [], precedingJoinState = 0,
          dirtyStart = 0, dirtyEnd = 0, out = []\<rparr>)"

definition new_emulator :: "term_options \<Rightarrow> int \<Rightarrow> int \<Rightarrow> emulator" where
  "new_emulator opts c r =
     \<lparr>screen_state = new_term opts c r, parser_state = init_parser, utf8_state = no_interim, utf16_state = 0\<rparr>"

end
