(* ===== verification/Xterm_Buffer_Inv.thy ===== *)
theory Xterm_Buffer_Inv
  imports Xterm_Buffer
begin

text \<open>
  The invariant of a buffer, without its cursor: the lines are in a well-formed ring and all as wide as the
  screen, there are exactly \<open>ybase\<close> lines above the screen, and the scroll region is in the screen. Every
  operation on the lines of a buffer keeps it.
\<close>

definition lines_ok :: "int \<Rightarrow> line ring \<Rightarrow> bool" where
  "lines_ok w r \<longleftrightarrow> ring_wf r \<and> (\<forall>l \<in> set (ring_items r). line_length l = w)"

definition buf_frame :: "int \<Rightarrow> int \<Rightarrow> buffer \<Rightarrow> bool" where
  "buf_frame w h b \<longleftrightarrow>
     lines_ok w (lines b) \<and> int (rlen (lines b)) = ybase b + h \<and> 0 \<le> ybase b \<and> 0 \<le> ydisp b \<and> ydisp b \<le> ybase b \<and>
     0 \<le> scrollTop b \<and> scrollTop b \<le> scrollBottom b \<and> scrollBottom b < h \<and>
     (scrollTop b = 0 \<or> scrollTop b < scrollBottom b) \<and> b_cols b = w \<and> b_rows b = h \<and> 0 \<le> savedX b"

text \<open>A buffer that is not in use yet, or not any more, has no lines.\<close>

definition buf_idle :: "int \<Rightarrow> int \<Rightarrow> buffer \<Rightarrow> bool" where
  "buf_idle w h b \<longleftrightarrow>
     ring_wf (lines b) \<and> rlen (lines b) = 0 \<and> h \<le> int (maxLength (lines b)) \<and> ybase b = 0 \<and> ydisp b = 0 \<and>
     scrollTop b = 0 \<and> scrollBottom b = h - 1 \<and> b_cols b = w \<and> b_rows b = h \<and> 0 \<le> savedX b"

subsection \<open>Lines\<close>

lemma ring_wf_fired [simp]: "ring_wf (r\<lparr>fired := e\<rparr>) = ring_wf r"
  by (simp add: ring_wf_def ring_get_def cyclicIndex_def)

lemma ring_items_fired [simp]: "ring_items (r\<lparr>fired := e\<rparr>) = ring_items r"
  by (simp add: ring_items_def ring_get_def cyclicIndex_def)

lemma ring_get_fired [simp]: "ring_get (r\<lparr>fired := e\<rparr>) i = ring_get r i"
  by (simp add: ring_get_def cyclicIndex_def)

lemma lines_ok_fired [simp]: "lines_ok w (r\<lparr>fired := e\<rparr>) = lines_ok w r"
  by (simp add: lines_ok_def)

lemma lines_ok_get:
  "lines_ok w r \<Longrightarrow> i < rlen r \<Longrightarrow> \<exists>l. ring_get r i = Some l \<and> line_length l = w"
  by (auto simp: lines_ok_def ring_get_items)

lemma lines_ok_set:
  assumes "lines_ok w r" "i < rlen r" "line_length l = w"
  shows "lines_ok w (ring_set i (Some l) r)"
  using assms ring_set_items [of r i l] set_update_subset_insert [of "ring_items r" i l]
  by (auto simp: lines_ok_def)

lemma lines_ok_push:
  assumes "lines_ok w r" "line_length l = w"
  shows "lines_ok w (ring_push l r)"
  using assms ring_push_items [of r l] list.set_sel(2) [of "ring_items r"]
  by (auto simp: lines_ok_def split: if_splits) (metis list.set_sel(2) tl_Nil)+

lemma ring_push_rlen [simp]: "rlen (ring_push l r) = (if isFull r then rlen r else Suc (rlen r))"
  by (simp add: ring_push_def isFull_def Let_def)

lemma ring_push_max [simp]: "maxLength (ring_push l r) = maxLength r"
  by (simp add: ring_push_def Let_def)

lemma update_lines_fields [simp]:
  "lines (update_lines f b) = f ((lines b)\<lparr>fired := []\<rparr>)" "ybase (update_lines f b) = ybase b"
  "ydisp (update_lines f b) = ydisp b" "scrollTop (update_lines f b) = scrollTop b"
  "scrollBottom (update_lines f b) = scrollBottom b" "b_cols (update_lines f b) = b_cols b"
  "b_rows (update_lines f b) = b_rows b" "savedX (update_lines f b) = savedX b" "cx (update_lines f b) = cx b"
  "cy (update_lines f b) = cy b" "savedY (update_lines f b) = savedY b" "tabs (update_lines f b) = tabs b"
  "hasScrollback (update_lines f b) = hasScrollback b" "savedAttr (update_lines f b) = savedAttr b"
  "savedCharset (update_lines f b) = savedCharset b"
  by (simp_all add: update_lines_def Let_def)

lemma isFull_fired [simp]: "isFull (r\<lparr>fired := e\<rparr>) = isFull r"
  by (simp add: isFull_def)

lemma update_lines_frame:
  assumes "buf_frame w h b" "lines_ok w (f ((lines b)\<lparr>fired := []\<rparr>))" "rlen (f ((lines b)\<lparr>fired := []\<rparr>)) = rlen (lines b)"
  shows "buf_frame w h (update_lines f b)"
  using assms by (simp add: buf_frame_def)

lemma frame_lines_get:
  assumes "buf_frame w h b" "0 \<le> i" "i < ybase b + h"
  obtains l where "lines_get b i = Some l" "line_length l = w"
proof -
  have "nat i < rlen (lines b)" using assms by (auto simp: buf_frame_def)
  then show ?thesis using that assms(1,2) lines_ok_get [of w "lines b" "nat i"]
    by (auto simp: buf_frame_def lines_get_def)
qed

lemma frame_put:
  assumes "buf_frame w h b" "0 \<le> i" "i < ybase b + h" "line_length l = w"
  shows "buf_frame w h (put_line i l b)"
proof -
  have "nat i < rlen (lines b)" using assms by (auto simp: buf_frame_def)
  then show ?thesis unfolding put_line_def
    using assms by (intro update_lines_frame lines_ok_set) (auto simp: buf_frame_def)
qed

text \<open>All but the lines and markers is the same.\<close>

definition lines_only :: "buffer \<Rightarrow> buffer \<Rightarrow> bool" where
  "lines_only b b' \<longleftrightarrow> b' = b\<lparr>lines := lines b', markers := markers b'\<rparr>"

lemma lines_only_fields:
  assumes "lines_only b b'"
  shows "ybase b' = ybase b" "ydisp b' = ydisp b" "scrollTop b' = scrollTop b" "scrollBottom b' = scrollBottom b"
    "b_cols b' = b_cols b" "b_rows b' = b_rows b" "savedX b' = savedX b" "cx b' = cx b" "cy b' = cy b"
  using assms by (cases b; cases b'; simp add: lines_only_def)+

lemma lines_only_update [simp]: "lines_only b (update_lines f b)"
  by (simp add: lines_only_def update_lines_def Let_def)

lemma lines_only_put [simp]: "lines_only b (put_line i l b)"
  by (simp add: put_line_def)

lemma lines_only_splice [simp]: "lines_only b (lines_splice i n ls b)"
  by (simp add: lines_splice_def)

lemma lines_only_trans: "lines_only a b \<Longrightarrow> lines_only b c \<Longrightarrow> lines_only a c"
  by (cases a; cases b; cases c; simp add: lines_only_def)

lemma lines_only_frame:
  assumes "buf_frame w h b" "lines_only b b'" "lines_ok w (lines b')" "rlen (lines b') = rlen (lines b)"
  shows "buf_frame w h b'"
  using assms lines_only_fields [OF assms(2)] by (simp add: buf_frame_def)

lemma frame_with_line:
  assumes b: "buf_frame w h b" "0 \<le> i" "i < ybase b + h" and f: "\<And>l. line_length l = w \<Longrightarrow> line_length (f l) = w"
  obtains l where "lines_get b i = Some l" "line_length l = w" "with_line i f b = Some (put_line i (f l) b)"
    "buf_frame w h (put_line i (f l) b)"
proof -
  obtain l where l: "lines_get b i = Some l" "line_length l = w" using frame_lines_get [OF b] .
  then show ?thesis using that [OF l] frame_put [OF b] f by (simp add: with_line_def put_line_def)
qed

subsection \<open>Inserting and deleting lines\<close>

lemma set_take_drop_subset: "set (drop k (take e xs @ ys @ drop f xs)) \<subseteq> set xs \<union> set ys"
  using set_take_subset [of e xs] set_drop_subset [of f xs] set_drop_subset [of k "take e xs @ ys @ drop f xs"] by auto

lemma splice_ok:
  assumes "lines_ok w (lines b)" "0 \<le> e" "e + int n \<le> int (rlen (lines b))"
    "rlen (lines b) - n + length ls - maxLength (lines b) \<le> nat e" "\<forall>l \<in> set ls. line_length l = w"
  shows "lines_ok w (lines (lines_splice e n ls b))"
    "rlen (lines (lines_splice e n ls b))
       = rlen (lines b) - n + length ls - (rlen (lines b) - n + length ls - maxLength (lines b))"
    "maxLength (lines (lines_splice e n ls b)) = maxLength (lines b)"
proof -
  let ?r = "(lines b)\<lparr>fired := []\<rparr>"
  have e: "nat e + n \<le> rlen ?r" using assms(2,3) by auto
  have sp: "ring_wf (ring_splice (nat e) n ls ?r)"
    "ring_items (ring_splice (nat e) n ls ?r)
       = drop (rlen (lines b) - n + length ls - maxLength (lines b))
           (take (nat e) (ring_items (lines b)) @ ls @ drop (nat e + n) (ring_items (lines b)))"
    "maxLength (ring_splice (nat e) n ls ?r) = maxLength (lines b)"
    using ring_splice_items [of ?r "nat e" n ls] assms e by (auto simp: lines_ok_def)
  then show "lines_ok w (lines (lines_splice e n ls b))"
    using set_take_drop_subset [of "rlen (lines b) - n + length ls - maxLength (lines b)" "nat e"
        "ring_items (lines b)" ls "nat e + n"] assms(1,5) unfolding lines_ok_def lines_splice_def update_lines_fields sp(2)
    by blast
  have len: "length (take (nat e) (ring_items (lines b)) @ ls @ drop (nat e + n) (ring_items (lines b)))
      = rlen (lines b) - n + length ls" using e by simp
  show "rlen (lines (lines_splice e n ls b))
       = rlen (lines b) - n + length ls - (rlen (lines b) - n + length ls - maxLength (lines b))"
    using arg_cong [OF sp(2), of length] len by (simp only: lines_splice_def update_lines_fields length_ring_items length_drop)
  show "maxLength (lines (lines_splice e n ls b)) = maxLength (lines b)"
    using sp(3) by (simp add: lines_splice_def)
qed

lemma frame_bounds:
  assumes "buf_frame w h b"
  shows "rlen (lines b) \<le> maxLength (lines b)" "int (rlen (lines b)) = ybase b + h" "0 \<le> ybase b"
    "lines_ok w (lines b)" "0 \<le> scrollTop b" "scrollTop b \<le> scrollBottom b" "scrollBottom b < h"
  using assms by (auto simp: buf_frame_def lines_ok_def ring_wf_def)

lemma frame_move_line:
  assumes b: "buf_frame w h b" and i: "0 \<le> i" "i < ybase b + h" "0 \<le> j" "j < ybase b + h" and n: "line_length n = w"
  shows "buf_frame w h (lines_splice j 0 [n] (lines_splice i 1 [] b))"
    "lines_only b (lines_splice j 0 [n] (lines_splice i 1 [] b))"
proof -
  note f = frame_bounds [OF b]
  let ?b = "lines_splice i 1 [] b"
  note d = splice_ok [OF f(4) i(1), of 1 "[]"]
  have d': "lines_ok w (lines ?b)" "rlen (lines ?b) = rlen (lines b) - 1" "maxLength (lines ?b) = maxLength (lines b)"
    using d i f by auto
  have len: "0 < rlen (lines b)" using f i by linarith
  have "rlen (lines ?b) - 0 + length [n] - maxLength (lines ?b) \<le> nat j" using d'(2,3) f(1) len by simp
  then have s: "lines_ok w (lines (lines_splice j 0 [n] ?b))" "rlen (lines (lines_splice j 0 [n] ?b)) = rlen (lines b)"
    using splice_ok [OF d'(1) i(3), of 0 "[n]"] d'(2,3) f(1,2) len i n by auto
  show lo: "lines_only b (lines_splice j 0 [n] ?b)"
    using lines_only_trans [OF lines_only_splice lines_only_splice] .
  show "buf_frame w h (lines_splice j 0 [n] ?b)" using lines_only_frame [OF b lo] s by simp
qed

subsection \<open>Scrolling\<close>

lemma shift_lines_ok:
  assumes "lines_ok w (lines b)" "0 < n" "k = 1 \<and> 0 \<le> i \<and> i + n + 1 \<le> int (rlen (lines b)) \<or>
      k = -1 \<and> 1 \<le> i \<and> i + n \<le> int (rlen (lines b))"
  obtains b' where "lines_shift i n k b = Some b'" "lines_only b b'" "lines_ok w (lines b')"
    "rlen (lines b') = rlen (lines b)"
proof -
  let ?f = "(if 0 < k then shift_up (nat i) (nat n) (nat k) else shift_down (nat i) (nat n) (nat (- k)))
    :: line ring \<Rightarrow> line ring option"
  have "\<exists>r'. ?f r = Some r' \<and> lines_ok w r' \<and> rlen r' = rlen r" if r: "lines_ok w r" "rlen r = rlen (lines b)" for r
  proof -
    have wf: "ring_wf r" using r by (simp add: lines_ok_def)
    from assms(3) show ?thesis
    proof (elim disjE conjE)
      assume k: "k = 1" "0 \<le> i" "i + n + 1 \<le> int (rlen (lines b))"
      then have "nat i + nat n + 1 \<le> rlen r" "0 < nat n" using r assms(2) by auto
      from ring_shift_up_items [OF wf this] obtain r' where r': "shift_up (nat i) (nat n) 1 r = Some r'" "ring_wf r'"
        "ring_items r' = take (nat i + 1) (ring_items r) @ take (nat n) (drop (nat i) (ring_items r))
           @ drop (nat i + 1 + nat n) (ring_items r)" by blast
      have "set (ring_items r') \<subseteq> set (ring_items r)"
        unfolding r'(3) using set_take_subset set_drop_subset by (fastforce dest: in_set_takeD in_set_dropD)
      moreover have "rlen r' = rlen r" using arg_cong [OF r'(3), of length] \<open>nat i + nat n + 1 \<le> rlen r\<close> by simp
      ultimately show ?thesis using r r' k by (auto simp: lines_ok_def)
    next
      assume k: "k = - 1" "1 \<le> i" "i + n \<le> int (rlen (lines b))"
      then have "1 \<le> nat i" "nat i + nat n \<le> rlen r" "0 < nat n" using r assms(2) by auto
      from ring_shift_down_items [OF wf this] obtain r' where r': "shift_down (nat i) (nat n) 1 r = Some r'" "ring_wf r'"
        "ring_items r' = take (nat i - 1) (ring_items r) @ take (nat n) (drop (nat i) (ring_items r))
           @ drop (nat i - 1 + nat n) (ring_items r)" by blast
      have "set (ring_items r') \<subseteq> set (ring_items r)"
        unfolding r'(3) using set_take_subset set_drop_subset by (fastforce dest: in_set_takeD in_set_dropD)
      moreover have "rlen r' = rlen r"
        using arg_cong [OF r'(3), of length] \<open>nat i + nat n \<le> rlen r\<close> \<open>1 \<le> nat i\<close> by simp
      ultimately show ?thesis using r r' k by (auto simp: lines_ok_def)
    qed
  qed
  note ex = this
  obtain r1 where r1: "?f (lines b) = Some r1" using ex [OF assms(1)] by auto
  obtain r2 where r2: "?f ((lines b)\<lparr>fired := []\<rparr>) = Some r2" "lines_ok w r2" "rlen r2 = rlen (lines b)"
    using ex [of "(lines b)\<lparr>fired := []\<rparr>"] assms(1) by auto
  let ?b = "update_lines (\<lambda>r. case ?f r of None \<Rightarrow> r | Some r' \<Rightarrow> r') b"
  have "lines_shift i n k b = Some ?b" unfolding lines_shift_def Let_def r1 by simp
  then show ?thesis using that [of ?b] r2 by simp
qed

lemma full_frame: "buf_frame w h b \<Longrightarrow> isFull (lines b) \<longleftrightarrow> \<not> rlen (lines b) < maxLength (lines b)"
  using frame_bounds(1) [of w h b] by (auto simp: isFull_def)

lemma scroll_lines_ok:
  assumes b: "buf_frame w h b" and n: "line_length n = w"
  obtains b' where "scroll_lines n b = Some b'" "lines_only b b'" "lines_ok w (lines b')"
    "rlen (lines b') = (if scrollTop b = 0 \<and> \<not> isFull (lines b) then Suc (rlen (lines b)) else rlen (lines b))"
proof -
  note f = frame_bounds [OF b]
  let ?l = "ybase b + scrollBottom b"
  consider (top) "scrollTop b \<noteq> 0" | (push) "scrollTop b = 0" "?l = int (rlen (lines b)) - 1" "\<not> isFull (lines b)"
    | (recycle) "scrollTop b = 0" "?l = int (rlen (lines b)) - 1" "isFull (lines b)"
    | (splice) "scrollTop b = 0" "?l \<noteq> int (rlen (lines b)) - 1" by blast
  then show ?thesis
  proof cases
    case top
    then have reg: "scrollTop b < scrollBottom b" using b by (auto simp: buf_frame_def)
    obtain b1 where b1: "lines_shift (ybase b + scrollTop b + 1) (scrollBottom b - scrollTop b) (-1) b = Some b1"
      "lines_only b b1" "lines_ok w (lines b1)" "rlen (lines b1) = rlen (lines b)"
      using shift_lines_ok [OF f(4), of "scrollBottom b - scrollTop b" "-1" "ybase b + scrollTop b + 1"] reg f by auto
    have fb1: "buf_frame w h b1" using lines_only_frame [OF b b1(2,3,4)] .
    have i: "0 \<le> ?l" "?l < ybase b1 + h" using f lines_only_fields [OF b1(2)] by auto
    have "scroll_lines n b = Some (put_line ?l n b1)"
      using top b1(1) by (simp add: scroll_lines_def Let_def line_clone_def algebra_simps)
    moreover have "lines_ok w (lines (put_line ?l n b1))"
      using frame_put [OF fb1 i n] by (simp add: buf_frame_def)
    ultimately show ?thesis
      using that lines_only_trans [OF b1(2) lines_only_put [of b1 ?l n]] top b1(4) by (simp add: put_line_def)
  next
    case push
    then show ?thesis
      using that [of "update_lines (ring_push (line_clone n)) b"] lines_ok_push [of w "(lines b)\<lparr>fired := []\<rparr>" n] f n
      by (simp add: scroll_lines_def Let_def line_clone_def)
  next
    case recycle
    have wf: "ring_wf (lines b)" using f by (simp add: lines_ok_def)
    obtain r0 where r0: "ring_recycle (lines b) = Some (Some (hd (ring_items (lines b))), r0)"
      using ring_recycle_items [OF wf recycle(3)] by blast
    obtain r1 where r1: "ring_recycle ((lines b)\<lparr>fired := []\<rparr>) = Some (Some (hd (ring_items (lines b))), r1)"
      "ring_wf r1" "ring_items r1 = tl (ring_items (lines b)) @ [hd (ring_items (lines b))]"
      using ring_recycle_items [of "(lines b)\<lparr>fired := []\<rparr>"] wf recycle(3) by auto
    have "rlen (lines b) \<noteq> 0" using recycle(2) f by linarith
    then have ne: "ring_items (lines b) \<noteq> []" by (metis length_ring_items list.size(3))
    have len: "rlen r1 = rlen (lines b)" "0 < rlen (lines b)"
      using arg_cong [OF r1(3), of length] ne by (simp_all flip: length_greater_0_conv)
    have ok: "lines_ok w r1" using r1 f(4) ne by (auto simp: lines_ok_def dest: list.set_sel(2))
    have "lines_ok w (ring_set (rlen r1 - 1) (Some n) r1)" using lines_ok_set [OF ok] len n by simp
    then show ?thesis
      using that [of "the (scroll_lines n b)"] recycle r0 r1(1) len
      by (simp add: scroll_lines_def Let_def lines_recycle_def copyFrom_def)
  next
    case splice
    let ?b = "lines_splice (?l + 1) 0 [n] b"
    have l: "0 \<le> ?l + 1" "?l + 1 + int 0 \<le> int (rlen (lines b))" using f by auto
    have over: "rlen (lines b) - 0 + length [n] - maxLength (lines b) \<le> nat (?l + 1)" using f by auto
    note s = splice_ok [OF f(4) l over]
    have "rlen (lines ?b) = (if isFull (lines b) then rlen (lines b) else Suc (rlen (lines b)))"
      using s(2) n f(1) by (auto simp: isFull_def)
    then show ?thesis using that [of ?b] s(1) n splice by (simp add: scroll_lines_def Let_def line_clone_def)
  qed
qed

subsection \<open>Filling and clearing\<close>

lemma getBlankLine_length [simp]: "0 \<le> w \<Longrightarrow> line_length (getBlankLine w a wr) = w"
  by (simp add: getBlankLine_def)

lemma push_many:
  assumes "lines_ok w r" "line_length l = w" "rlen r + n \<le> maxLength r"
  shows "lines_ok w ((ring_push l ^^ n) r) \<and> rlen ((ring_push l ^^ n) r) = rlen r + n
    \<and> maxLength ((ring_push l ^^ n) r) = maxLength r"
  using assms
proof (induction n)
  case (Suc n)
  then show ?case using lines_ok_push [of w "(ring_push l ^^ n) r" l] by (simp add: isFull_def)
qed simp

lemma fill_frame:
  assumes b: "buf_idle w h b" and w: "0 \<le> w" "1 \<le> h"
  shows "buf_frame w h (fillViewportRows w a b)"
proof -
  let ?l = "getBlankLine w a False"
  have r: "lines_ok w ((lines b)\<lparr>fired := []\<rparr>)" using b by (simp add: buf_idle_def lines_ok_def ring_items_def)
  have n: "rlen ((lines b)\<lparr>fired := []\<rparr>) + nat h \<le> maxLength ((lines b)\<lparr>fired := []\<rparr>)"
    using b w by (simp add: buf_idle_def nat_le_iff)
  show ?thesis
    using push_many [OF r _ n, of ?l] b w by (simp add: fillViewportRows_def buf_idle_def buf_frame_def)
qed

lemma setupTabStops_fields [simp]:
  "lines (setupTabStops w at b) = lines b" "ybase (setupTabStops w at b) = ybase b"
  "ydisp (setupTabStops w at b) = ydisp b" "scrollTop (setupTabStops w at b) = scrollTop b"
  "scrollBottom (setupTabStops w at b) = scrollBottom b" "b_cols (setupTabStops w at b) = b_cols b"
  "b_rows (setupTabStops w at b) = b_rows b" "savedX (setupTabStops w at b) = savedX b"
  "cx (setupTabStops w at b) = cx b" "cy (setupTabStops w at b) = cy b"
  by (simp_all add: setupTabStops_def split: option.splits)

lemma frame_tabs [simp]: "buf_frame w h (setupTabStops k at b) = buf_frame w h b"
  by (simp add: buf_frame_def)

lemma idle_tabs [simp]: "buf_idle w h (setupTabStops k at b) = buf_idle w h b"
  by (simp add: buf_idle_def)

lemma correct_length:
  "0 \<le> sb \<Longrightarrow> 1 \<le> h \<Longrightarrow> h \<le> 4294967295 \<Longrightarrow> h \<le> correctBufferLength n sb h"
  by (simp add: correctBufferLength_def)

lemma new_ring_idle:
  "0 < m \<Longrightarrow> ring_wf (new_ring m :: 'a ring) \<and> rlen (new_ring m :: 'a ring) = 0 \<and> maxLength (new_ring m :: 'a ring) = m"
  using new_ring_items [of m, where ?'a = 'a] by (auto simp: new_ring_def)

lemma blank_buffer_idle:
  assumes "0 \<le> sb" "1 \<le> h" "h \<le> 4294967295"
  shows "buf_idle w h (blank_buffer n sb k w h)"
proof -
  have c: "h \<le> correctBufferLength n sb h" using correct_length [OF assms] .
  then have "0 < nat (correctBufferLength n sb h)" using assms by linarith
  from new_ring_idle [OF this, where 'a = line] c show ?thesis by (simp add: blank_buffer_def buf_idle_def)
qed

lemma clear_idle:
  assumes "b_cols b = w" "b_rows b = h" "0 \<le> savedX b" "0 \<le> sb" "1 \<le> h" "h \<le> 4294967295"
  shows "buf_idle w h (buffer_clear sb k b)"
proof -
  have c: "h \<le> correctBufferLength (hasScrollback b) sb h" using correct_length [OF assms(4-6)] .
  then have "0 < nat (correctBufferLength (hasScrollback b) sb h)" using assms by linarith
  from new_ring_idle [OF this, where 'a = line] c assms(1-3) show ?thesis
    by (simp add: buffer_clear_def buf_idle_def)
qed

lemma frame_trim:
  assumes b: "buf_frame w h b" "1 \<le> h" and n: "0 < ybase b"
  shows "buf_frame w h ((update_lines (ring_trimStart (nat (ybase b))) b)\<lparr>ybase := 0, ydisp := 0\<rparr>)"
proof -
  note f = frame_bounds [OF b(1)]
  let ?r = "(lines b)\<lparr>fired := []\<rparr>"
  have t: "ring_wf (ring_trimStart (nat (ybase b)) ?r)"
    "ring_items (ring_trimStart (nat (ybase b)) ?r) = drop (nat (ybase b)) (ring_items (lines b))"
    using ring_trimStart_items [of ?r "nat (ybase b)"] f(4) by (auto simp: lines_ok_def)
  have "lines_ok w (ring_trimStart (nat (ybase b)) ?r)"
    using t f(4) by (auto simp: lines_ok_def dest: in_set_dropD)
  moreover have "int (rlen (ring_trimStart (nat (ybase b)) ?r)) = h"
    using arg_cong [OF t(2), of length] f b(2) n by auto
  ultimately show ?thesis using b by (simp add: buf_frame_def)
qed

lemma frame_move_lines:
  assumes "buf_frame w h b" "0 \<le> i" "i < ybase b + h" "0 \<le> j" "j < ybase b + h" "line_length n = w"
  shows "buf_frame w h (((\<lambda>b. lines_splice j 0 [n] (lines_splice i 1 [] b)) ^^ k) b)
    \<and> lines_only b (((\<lambda>b. lines_splice j 0 [n] (lines_splice i 1 [] b)) ^^ k) b)"
proof (induction k)
  case 0
  then show ?case using assms by (simp add: lines_only_def)
next
  case (Suc k)
  let ?b = "((\<lambda>b. lines_splice j 0 [n] (lines_splice i 1 [] b)) ^^ k) b"
  have "ybase ?b = ybase b" using Suc lines_only_fields by blast
  then have "buf_frame w h (lines_splice j 0 [n] (lines_splice i 1 [] ?b))
      \<and> lines_only ?b (lines_splice j 0 [n] (lines_splice i 1 [] ?b))"
    using frame_move_line [of w h ?b i j n] Suc assms(2-6) by simp
  then show ?case using Suc lines_only_trans [of b ?b] by (simp del: lines_only_splice)
qed

end
