(* ===== verification/Xterm_Invariant.thy ===== *)
theory Xterm_Invariant
  imports Xterm_Handler Xterm_Buffer_Inv
begin

text \<open>
  The invariant of the terminal: both buffers are well-formed for the size of the screen, the alternate
  buffer has lines exactly while it is active, and the cursor is on a row of the screen and not left of it.
  (Right of the screen it may be: a character without width that joins nothing moves it on.) Every handler
  keeps the invariant and calls no method of \<open>undefined\<close>, except for erasing above the cursor.
\<close>

named_theorems view_simps
  \<comment> \<open>the parts of the state that an update leaves alone\<close>

definition geometry :: "terminal_state \<Rightarrow> bool" where
  "geometry t \<longleftrightarrow>
     2 \<le> cols t \<and> 1 \<le> rows t \<and> rows t \<le> 4294967295 \<and> 0 \<le> scrollback (options t) \<and>
     ''setWinLines'' \<notin> set (windowOptions (options t))"

definition term_frame :: "terminal_state \<Rightarrow> bool" where
  "term_frame t \<longleftrightarrow>
     geometry t \<and> buf_frame (cols t) (rows t) (normal_buffer t) \<and>
     (if alt_active t then buf_frame (cols t) (rows t) (alt_buffer t) else buf_idle (cols t) (rows t) (alt_buffer t))"

definition term_ok :: "terminal_state \<Rightarrow> bool" where
  "term_ok t \<longleftrightarrow> term_frame t \<and> 0 \<le> xpos t \<and> 0 \<le> ypos t \<and> ypos t < rows t"

subsection \<open>What updates leave alone\<close>

lemma buf_frame_upd [simp]:
  "buf_frame w h (b\<lparr>cx := v\<rparr>) = buf_frame w h b" "buf_frame w h (b\<lparr>cy := v\<rparr>) = buf_frame w h b"
  "buf_frame w h (b\<lparr>tabs := ts\<rparr>) = buf_frame w h b" "buf_frame w h (b\<lparr>savedY := v\<rparr>) = buf_frame w h b"
  "buf_frame w h (b\<lparr>savedAttr := a\<rparr>) = buf_frame w h b" "buf_frame w h (b\<lparr>savedCharset := c\<rparr>) = buf_frame w h b"
  "buf_frame w h (b\<lparr>markers := m\<rparr>) = buf_frame w h b"
  by (simp_all add: buf_frame_def)

lemma buf_frame_savedX: "buf_frame w h b \<Longrightarrow> 0 \<le> v \<Longrightarrow> buf_frame w h (b\<lparr>savedX := v\<rparr>)"
  by (simp add: buf_frame_def)

lemma set_active_fields [view_simps, simp]:
  "active (set_active b t) = b" "cols (set_active b t) = cols t" "rows (set_active b t) = rows t"
  "options (set_active b t) = options t" "dec (set_active b t) = dec t" "alt_active (set_active b t) = alt_active t"
  "curAttr (set_active b t) = curAttr t" "insertMode (set_active b t) = insertMode t"
  "precedingJoinState (set_active b t) = precedingJoinState t" "eraseAttr_internal (set_active b t) = eraseAttr_internal t"
  "charset_now (set_active b t) = charset_now t" "isUserScrolling (set_active b t) = isUserScrolling t"
  "cachedBlankLine (set_active b t) = cachedBlankLine t"
  by (simp_all add: set_active_def active_def)

lemma active_upd [view_simps, simp]:
  "active (t\<lparr>out := a1\<rparr>) = active t" "active (t\<lparr>dirtyStart := a2\<rparr>) = active t" "active (t\<lparr>dirtyEnd := a2\<rparr>) = active t"
  "active (t\<lparr>precedingJoinState := a3\<rparr>) = active t" "active (t\<lparr>curAttr := a4\<rparr>) = active t"
  "active (t\<lparr>eraseAttr_internal := a4\<rparr>) = active t" "active (t\<lparr>insertMode := a5\<rparr>) = active t"
  "active (t\<lparr>dec := a6\<rparr>) = active t" "active (t\<lparr>isCursorHidden := a5\<rparr>) = active t"
  "active (t\<lparr>isCursorInitialized := a5\<rparr>) = active t" "active (t\<lparr>charset_now := a7\<rparr>) = active t"
  "active (t\<lparr>charsets := a8\<rparr>) = active t" "active (t\<lparr>glevel := a3\<rparr>) = active t"
  "active (t\<lparr>activeProtocol := a9\<rparr>) = active t" "active (t\<lparr>activeEncoding := b1\<rparr>) = active t"
  "active (t\<lparr>nextLinkId := a3\<rparr>) = active t" "active (t\<lparr>link_data := b2\<rparr>) = active t"
  "active (t\<lparr>detached := b3\<rparr>) = active t" "active (t\<lparr>windowTitle := b4\<rparr>) = active t"
  "active (t\<lparr>iconName := b4\<rparr>) = active t" "active (t\<lparr>windowTitleStack := b5\<rparr>) = active t"
  "active (t\<lparr>iconNameStack := b5\<rparr>) = active t" "active (t\<lparr>isUserScrolling := a5\<rparr>) = active t"
  "active (t\<lparr>cachedBlankLine := b6\<rparr>) = active t" "active (t\<lparr>options := b7\<rparr>) = active t"
  by (simp_all add: active_def)

lemma term_frame_upd [simp]:
  "term_frame (t\<lparr>out := a1\<rparr>) = term_frame t" "term_frame (t\<lparr>dirtyStart := a2\<rparr>) = term_frame t"
  "term_frame (t\<lparr>dirtyEnd := a2\<rparr>) = term_frame t" "term_frame (t\<lparr>precedingJoinState := a3\<rparr>) = term_frame t"
  "term_frame (t\<lparr>curAttr := a4\<rparr>) = term_frame t" "term_frame (t\<lparr>eraseAttr_internal := a4\<rparr>) = term_frame t"
  "term_frame (t\<lparr>insertMode := a5\<rparr>) = term_frame t" "term_frame (t\<lparr>dec := a6\<rparr>) = term_frame t"
  "term_frame (t\<lparr>isCursorHidden := a5\<rparr>) = term_frame t" "term_frame (t\<lparr>isCursorInitialized := a5\<rparr>) = term_frame t"
  "term_frame (t\<lparr>charset_now := a7\<rparr>) = term_frame t" "term_frame (t\<lparr>charsets := a8\<rparr>) = term_frame t"
  "term_frame (t\<lparr>glevel := a3\<rparr>) = term_frame t" "term_frame (t\<lparr>activeProtocol := a9\<rparr>) = term_frame t"
  "term_frame (t\<lparr>activeEncoding := b1\<rparr>) = term_frame t" "term_frame (t\<lparr>nextLinkId := a3\<rparr>) = term_frame t"
  "term_frame (t\<lparr>link_data := b2\<rparr>) = term_frame t" "term_frame (t\<lparr>detached := b3\<rparr>) = term_frame t"
  "term_frame (t\<lparr>windowTitle := b4\<rparr>) = term_frame t" "term_frame (t\<lparr>iconName := b4\<rparr>) = term_frame t"
  "term_frame (t\<lparr>windowTitleStack := b5\<rparr>) = term_frame t" "term_frame (t\<lparr>iconNameStack := b5\<rparr>) = term_frame t"
  "term_frame (t\<lparr>isUserScrolling := a5\<rparr>) = term_frame t" "term_frame (t\<lparr>cachedBlankLine := b6\<rparr>) = term_frame t"
  by (simp_all add: term_frame_def geometry_def)

lemma term_ok_upd [simp]:
  "term_ok (t\<lparr>out := a1\<rparr>) = term_ok t" "term_ok (t\<lparr>dirtyStart := a2\<rparr>) = term_ok t"
  "term_ok (t\<lparr>dirtyEnd := a2\<rparr>) = term_ok t" "term_ok (t\<lparr>precedingJoinState := a3\<rparr>) = term_ok t"
  "term_ok (t\<lparr>curAttr := a4\<rparr>) = term_ok t" "term_ok (t\<lparr>eraseAttr_internal := a4\<rparr>) = term_ok t"
  "term_ok (t\<lparr>insertMode := a5\<rparr>) = term_ok t" "term_ok (t\<lparr>dec := a6\<rparr>) = term_ok t"
  "term_ok (t\<lparr>isCursorHidden := a5\<rparr>) = term_ok t" "term_ok (t\<lparr>isCursorInitialized := a5\<rparr>) = term_ok t"
  "term_ok (t\<lparr>charset_now := a7\<rparr>) = term_ok t" "term_ok (t\<lparr>charsets := a8\<rparr>) = term_ok t"
  "term_ok (t\<lparr>glevel := a3\<rparr>) = term_ok t" "term_ok (t\<lparr>activeProtocol := a9\<rparr>) = term_ok t"
  "term_ok (t\<lparr>activeEncoding := b1\<rparr>) = term_ok t" "term_ok (t\<lparr>nextLinkId := a3\<rparr>) = term_ok t"
  "term_ok (t\<lparr>link_data := b2\<rparr>) = term_ok t" "term_ok (t\<lparr>detached := b3\<rparr>) = term_ok t"
  "term_ok (t\<lparr>windowTitle := b4\<rparr>) = term_ok t" "term_ok (t\<lparr>iconName := b4\<rparr>) = term_ok t"
  "term_ok (t\<lparr>windowTitleStack := b5\<rparr>) = term_ok t" "term_ok (t\<lparr>iconNameStack := b5\<rparr>) = term_ok t"
  "term_ok (t\<lparr>isUserScrolling := a5\<rparr>) = term_ok t" "term_ok (t\<lparr>cachedBlankLine := b6\<rparr>) = term_ok t"
  by (simp_all add: term_ok_def)

text \<open>The updates that only note something.\<close>

lemma note_fields [view_simps, simp]:
  "active (emit e t) = active t" "cols (emit e t) = cols t" "rows (emit e t) = rows t" "options (emit e t) = options t"
  "dec (emit e t) = dec t" "alt_active (emit e t) = alt_active t" "curAttr (emit e t) = curAttr t"
  "insertMode (emit e t) = insertMode t" "precedingJoinState (emit e t) = precedingJoinState t"
  "active (markDirty y t) = active t" "cols (markDirty y t) = cols t" "rows (markDirty y t) = rows t"
  "options (markDirty y t) = options t" "dec (markDirty y t) = dec t" "alt_active (markDirty y t) = alt_active t"
  "curAttr (markDirty y t) = curAttr t" "insertMode (markDirty y t) = insertMode t"
  "precedingJoinState (markDirty y t) = precedingJoinState t"
  "active (markRangeDirty y z t) = active t" "cols (markRangeDirty y z t) = cols t" "rows (markRangeDirty y z t) = rows t"
  "options (markRangeDirty y z t) = options t" "dec (markRangeDirty y z t) = dec t"
  "alt_active (markRangeDirty y z t) = alt_active t" "curAttr (markRangeDirty y z t) = curAttr t"
  "insertMode (markRangeDirty y z t) = insertMode t"
  "precedingJoinState (markRangeDirty y z t) = precedingJoinState t"
  "active (keep_eraseAttr t) = active t" "cols (keep_eraseAttr t) = cols t" "rows (keep_eraseAttr t) = rows t"
  "options (keep_eraseAttr t) = options t" "dec (keep_eraseAttr t) = dec t"
  "alt_active (keep_eraseAttr t) = alt_active t" "curAttr (keep_eraseAttr t) = curAttr t"
  "insertMode (keep_eraseAttr t) = insertMode t" "precedingJoinState (keep_eraseAttr t) = precedingJoinState t"
  by (simp_all add: emit_def markDirty_def markRangeDirty_def keep_eraseAttr_def Let_def)

lemma note_ok [simp]:
  "term_frame (emit e t) = term_frame t" "term_ok (emit e t) = term_ok t"
  "term_frame (markDirty y t) = term_frame t" "term_ok (markDirty y t) = term_ok t"
  "term_frame (markRangeDirty y z t) = term_frame t" "term_ok (markRangeDirty y z t) = term_ok t"
  "term_frame (keep_eraseAttr t) = term_frame t" "term_ok (keep_eraseAttr t) = term_ok t"
  by (simp_all add: emit_def markDirty_def markRangeDirty_def keep_eraseAttr_def Let_def)

lemma xy_fields [view_simps, simp]:
  "active (set_x v t) = (active t)\<lparr>cx := v\<rparr>" "cols (set_x v t) = cols t" "rows (set_x v t) = rows t"
  "options (set_x v t) = options t" "dec (set_x v t) = dec t" "alt_active (set_x v t) = alt_active t"
  "curAttr (set_x v t) = curAttr t" "insertMode (set_x v t) = insertMode t"
  "precedingJoinState (set_x v t) = precedingJoinState t"
  "active (set_y v t) = (active t)\<lparr>cy := v\<rparr>" "cols (set_y v t) = cols t" "rows (set_y v t) = rows t"
  "options (set_y v t) = options t" "dec (set_y v t) = dec t" "alt_active (set_y v t) = alt_active t"
  "curAttr (set_y v t) = curAttr t" "insertMode (set_y v t) = insertMode t"
  "precedingJoinState (set_y v t) = precedingJoinState t"
  by (simp_all add: set_x_def set_y_def upd_active_def)

lemma frame_active: "term_frame t \<Longrightarrow> buf_frame (cols t) (rows t) (active t)"
  by (simp add: term_frame_def active_def split: if_splits)

lemma frame_size: "term_frame t \<Longrightarrow> 2 \<le> cols t" "term_frame t \<Longrightarrow> 1 \<le> rows t"
  by (simp_all add: term_frame_def geometry_def)

lemma frame_set_active:
  "term_frame t \<Longrightarrow> buf_frame (cols t) (rows t) b \<Longrightarrow> term_frame (set_active b t)"
  by (auto simp: term_frame_def geometry_def set_active_def)

lemma frame_upd_active:
  assumes "\<And>b. buf_frame (cols t) (rows t) (f b) = buf_frame (cols t) (rows t) b"
    "\<And>b. buf_idle (cols t) (rows t) (f b) = buf_idle (cols t) (rows t) b"
  shows "term_frame (upd_active f t) = term_frame t"
  using assms by (cases "alt_active t") (simp_all add: upd_active_def set_active_def active_def term_frame_def geometry_def)

lemma buf_idle_upd [simp]:
  "buf_idle w h (b\<lparr>cx := v\<rparr>) = buf_idle w h b" "buf_idle w h (b\<lparr>cy := v\<rparr>) = buf_idle w h b"
  by (simp_all add: buf_idle_def)

lemma frame_xy [simp]: "term_frame (set_x v t) = term_frame t" "term_frame (set_y v t) = term_frame t"
  unfolding set_x_def set_y_def by (intro frame_upd_active buf_frame_upd buf_idle_upd)+

lemma ok_frame: "term_ok t \<Longrightarrow> term_frame t"
  by (simp add: term_ok_def)

lemma ok_bounds:
  assumes "term_ok t"
  shows "2 \<le> cols t" "1 \<le> rows t" "0 \<le> xpos t" "0 \<le> ypos t" "ypos t < rows t" "0 \<le> ybase (active t)"
    "0 \<le> scrollTop (active t)" "scrollTop (active t) \<le> scrollBottom (active t)" "scrollBottom (active t) < rows t"
  using assms frame_bounds [OF frame_active [OF ok_frame [OF assms]]] frame_size [OF ok_frame [OF assms]]
  by (auto simp: term_ok_def)

lemma ok_set_x: "term_ok t \<Longrightarrow> 0 \<le> v \<Longrightarrow> term_ok (set_x v t)"
  by (simp add: term_ok_def)

lemma ok_set_y: "term_ok t \<Longrightarrow> 0 \<le> v \<Longrightarrow> v < rows t \<Longrightarrow> term_ok (set_y v t)"
  by (simp add: term_ok_def)

lemma ok_set_active:
  "term_ok t \<Longrightarrow> buf_frame (cols t) (rows t) b \<Longrightarrow> 0 \<le> cx b \<Longrightarrow> 0 \<le> cy b \<Longrightarrow> cy b < rows t \<Longrightarrow> term_ok (set_active b t)"
  by (simp add: term_ok_def frame_set_active)

subsection \<open>Cursor movement\<close>

lemma restrict_ok:
  assumes "term_frame t" "0 \<le> e"
  shows "term_ok (restrictCursor e t)"
  using assms frame_bounds [OF frame_active [OF assms(1)]] frame_size [OF assms(1)]
  by (auto simp: restrictCursor_def Let_def term_ok_def)

lemma restrict_default_ok: "term_frame t \<Longrightarrow> term_ok (restrict_default t)"
  unfolding restrict_default_def by (rule restrict_ok) (auto dest: frame_size)

lemma restrict_view [view_simps, simp]:
  "cols (restrictCursor e t) = cols t" "rows (restrictCursor e t) = rows t" "options (restrictCursor e t) = options t"
  "dec (restrictCursor e t) = dec t" "curAttr (restrictCursor e t) = curAttr t"
  "ybase (active (restrictCursor e t)) = ybase (active t)" "lines (active (restrictCursor e t)) = lines (active t)"
  "scrollTop (active (restrictCursor e t)) = scrollTop (active t)"
  "scrollBottom (active (restrictCursor e t)) = scrollBottom (active t)"
  by (simp_all add: restrictCursor_def Let_def)

lemma restrict_default_view [view_simps, simp]:
  "cols (restrict_default t) = cols t" "rows (restrict_default t) = rows t" "options (restrict_default t) = options t"
  "dec (restrict_default t) = dec t" "curAttr (restrict_default t) = curAttr t"
  "ybase (active (restrict_default t)) = ybase (active t)" "lines (active (restrict_default t)) = lines (active t)"
  "scrollTop (active (restrict_default t)) = scrollTop (active t)"
  "scrollBottom (active (restrict_default t)) = scrollBottom (active t)"
  by (simp_all add: restrict_default_def)

lemma setCursor_ok: "term_frame t \<Longrightarrow> term_ok (setCursor x y t)"
  by (simp add: setCursor_def Let_def restrict_default_ok)

lemma moveCursor_ok: "term_frame t \<Longrightarrow> term_ok (moveCursor x y t)"
  unfolding moveCursor_def Let_def by (rule setCursor_ok, rule ok_frame, rule restrict_default_ok)

lemmas cursor_defs = cursorUp_def cursorDown_def cursorForward_def cursorBackward_def cursorNextLine_def
  cursorPrecedingLine_def cursorCharAbsolute_def cursorPosition_def charPosAbsolute_def hPositionRelative_def
  linePosAbsolute_def vPositionRelative_def hVPosition_def

lemma cursor_ok:
  assumes "term_frame t"
  shows "term_ok (cursorUp p t)" "term_ok (cursorDown p t)" "term_ok (cursorForward p t)"
    "term_ok (cursorBackward p t)" "term_ok (cursorNextLine p t)" "term_ok (cursorPrecedingLine p t)"
    "term_ok (cursorCharAbsolute p t)" "term_ok (cursorPosition p t)" "term_ok (charPosAbsolute p t)"
    "term_ok (hPositionRelative p t)" "term_ok (linePosAbsolute p t)" "term_ok (vPositionRelative p t)"
    "term_ok (hVPosition p t)"
  by (simp_all add: cursor_defs Let_def setCursor_ok moveCursor_ok ok_set_x assms)

lemma setScrollRegion_ok:
  assumes "term_ok t" "0 \<le> par p 0"
  shows "term_ok (setScrollRegion p t)"
proof -
  define i where "i = par1 p 0"
  define r where "r = (if plen p < 2 \<or> rows t < par p 1 \<or> par p 1 = 0 then rows t else par p 1)"
  have "1 \<le> i" "r \<le> rows t" using assms by (auto simp: i_def r_def par1_def)
  then have "i < r \<Longrightarrow> buf_frame (cols t) (rows t) ((active t)\<lparr>scrollTop := i - 1, scrollBottom := r - 1\<rparr>)"
    using frame_active [OF ok_frame [OF assms(1)]] by (auto simp: buf_frame_def)
  then show ?thesis
    using assms(1) unfolding setScrollRegion_def Let_def i_def [symmetric] r_def [symmetric]
    by (auto intro!: setCursor_ok frame_set_active simp: upd_active_def ok_frame)
qed

subsection \<open>Tab stops\<close>

lemma clamp_stop_nonneg: "1 \<le> c \<Longrightarrow> 0 \<le> clamp_stop c t"
  by (simp add: clamp_stop_def)

lemma frame_nextStop: "buf_frame w h b \<Longrightarrow> 1 \<le> w \<Longrightarrow> 0 \<le> nextStop b x \<and> 0 \<le> prevStop b x"
  by (simp add: nextStop_def prevStop_def clamp_stop_nonneg buf_frame_def)

lemma ok_upd_active:
  assumes "term_ok t" "\<And>b. buf_frame (cols t) (rows t) b \<Longrightarrow> 0 \<le> cx b \<Longrightarrow> 0 \<le> cy b \<Longrightarrow> cy b < rows t \<Longrightarrow>
      buf_frame (cols t) (rows t) (f b) \<and> 0 \<le> cx (f b) \<and> 0 \<le> cy (f b) \<and> cy (f b) < rows t"
  shows "term_ok (upd_active f t)"
  using assms(2) [of "active t"] assms(1) frame_active [OF ok_frame [OF assms(1)]]
  unfolding upd_active_def by (intro ok_set_active) (auto simp: term_ok_def)

lemma ok_tab_loop:
  assumes "term_ok t" "\<And>b. buf_frame (cols t) (rows t) b \<Longrightarrow> 0 \<le> f b"
  shows "term_ok (upd_active ((\<lambda>b. b\<lparr>cx := f b\<rparr>) ^^ n) t)"
proof (rule ok_upd_active [OF assms(1)])
  fix b assume b: "buf_frame (cols t) (rows t) b" "0 \<le> cx b" "0 \<le> cy b" "cy b < rows t"
  show "buf_frame (cols t) (rows t) (((\<lambda>b. b\<lparr>cx := f b\<rparr>) ^^ n) b) \<and> 0 \<le> cx (((\<lambda>b. b\<lparr>cx := f b\<rparr>) ^^ n) b)
    \<and> 0 \<le> cy (((\<lambda>b. b\<lparr>cx := f b\<rparr>) ^^ n) b) \<and> cy (((\<lambda>b. b\<lparr>cx := f b\<rparr>) ^^ n) b) < rows t"
    by (induction n) (simp_all add: b assms(2))
qed

lemma tab_ok:
  assumes "term_ok t"
  shows "term_ok (tabClear p t)" "term_ok (tabSet t)" "term_ok (cursorForwardTab p t)"
    "term_ok (cursorBackwardTab p t)" "term_ok (tab t)"
proof -
  have c: "1 \<le> cols t" using ok_bounds [OF assms] by simp
  show "term_ok (tabClear p t)" "term_ok (tabSet t)"
    using assms by (auto simp: tabClear_def tabSet_def intro!: ok_upd_active)
  show "term_ok (cursorForwardTab p t)" "term_ok (cursorBackwardTab p t)"
    using assms c by (auto simp: cursorForwardTab_def cursorBackwardTab_def frame_nextStop intro!: ok_tab_loop)
  show "term_ok (tab t)"
    using assms c frame_nextStop [OF frame_active [OF ok_frame [OF assms]]]
    by (auto simp: tab_def Let_def intro!: ok_set_x)
qed

subsection \<open>Lines of the screen\<close>

text \<open>The new state is well-formed and has the size of the old one.\<close>

definition kept :: "terminal_state \<Rightarrow> terminal_state \<Rightarrow> bool" where
  "kept t t' \<longleftrightarrow> term_ok t' \<and> cols t' = cols t \<and> rows t' = rows t"

text \<open>The same, and only lines of the active buffer are changed, and what is noted.\<close>

definition same_place :: "terminal_state \<Rightarrow> terminal_state \<Rightarrow> bool" where
  "same_place t t' \<longleftrightarrow>
     kept t t' \<and> options t' = options t \<and> dec t' = dec t \<and> xpos t' = xpos t \<and> ypos t' = ypos t \<and>
     ybase (active t') = ybase (active t) \<and> scrollTop (active t') = scrollTop (active t) \<and>
     scrollBottom (active t') = scrollBottom (active t)"

lemma kept_trans: "kept a b \<Longrightarrow> kept b c \<Longrightarrow> kept a c"
  by (simp add: kept_def)

lemma same_place_refl: "term_ok t \<Longrightarrow> same_place t t"
  by (simp add: same_place_def kept_def)

lemma same_place_trans: "same_place a b \<Longrightarrow> same_place b c \<Longrightarrow> same_place a c"
  by (simp add: same_place_def kept_def)

lemma same_place_ok: "same_place t t' \<Longrightarrow> term_ok t'"
  by (simp add: same_place_def kept_def)

lemma ok_lines:
  assumes "term_ok t" "lines_only (active t) b" "buf_frame (cols t) (rows t) b"
  shows "same_place t (set_active b t)"
  using assms lines_only_fields [OF assms(2)] ok_set_active [OF assms(1,3)]
  by (simp add: same_place_def kept_def term_ok_def)

lemma upd_line_ok:
  assumes "term_ok t" "0 \<le> i" "i < ybase (active t) + rows t" "\<And>l. line_length l = cols t \<Longrightarrow> line_length (f l) = cols t"
  obtains t' where "upd_line i f t = Some t'" "same_place t t'"
proof -
  obtain l where l: "with_line i f (active t) = Some (put_line i (f l) (active t))"
    "buf_frame (cols t) (rows t) (put_line i (f l) (active t))"
    using frame_with_line [OF frame_active [OF ok_frame [OF assms(1)]] assms(2-4)] .
  then show ?thesis using that [of "set_active (put_line i (f l) (active t)) t"] ok_lines [OF assms(1) _ l(2)]
    by (simp add: upd_line_def)
qed

lemma line_here_ok:
  assumes "term_ok t" "0 \<le> i" "i < ybase (active t) + rows t"
  obtains l where "line_here i t = Some l" "line_length l = cols t"
  using frame_lines_get [OF frame_active [OF ok_frame [OF assms(1)]] assms(2,3)] unfolding line_here_def by blast

lemma abs_row_bounds:
  "term_ok t \<Longrightarrow> 0 \<le> r \<Longrightarrow> r < rows t \<Longrightarrow> 0 \<le> abs_row r t \<and> abs_row r t < ybase (active t) + rows t"
  using ok_bounds(6) [of t] by (simp add: abs_row_def)

lemma upd_row_ok:
  assumes "term_ok t" "0 \<le> r" "r < rows t" "\<And>l. line_length l = cols t \<Longrightarrow> line_length (f l) = cols t"
  obtains t' where "upd_line (abs_row r t) f t = Some t'" "same_place t t'"
  using upd_line_ok [OF assms(1), of "abs_row r t" f] abs_row_bounds [OF assms(1-3)] assms(4) by blast

subsection \<open>Scrolling\<close>

lemma blank_for_scroll_length: "0 \<le> cols t \<Longrightarrow> line_length (blank_for_scroll a w t) = cols t"
  by (auto simp: blank_for_scroll_def split: option.split)

lemma frame_scroll_position:
  assumes "buf_frame w h b" "lines_only b b1" "lines_ok w (lines b1)" "full = isFull (lines b)"
    "rlen (lines b1) = (if scrollTop b = 0 \<and> \<not> full then Suc (rlen (lines b)) else rlen (lines b))"
  shows "buf_frame w h (scroll_position user full b1)"
  using assms(1,3-) lines_only_fields [OF assms(2)] by (auto simp: buf_frame_def scroll_position_def)

lemma scroll_position_fields [simp]:
  "cx (scroll_position u f b) = cx b" "cy (scroll_position u f b) = cy b"
  "scrollTop (scroll_position u f b) = scrollTop b" "scrollBottom (scroll_position u f b) = scrollBottom b"
  "ybase (scroll_position u f b) = (if scrollTop b = 0 \<and> \<not> f then ybase b + 1 else ybase b)"
  by (simp_all add: scroll_position_def)

lemma frame_follow: "buf_frame w h b \<Longrightarrow> buf_frame w h (b\<lparr>ydisp := ybase b\<rparr>)"
  by (simp add: buf_frame_def)

text \<open>After scrolling, the cursor is where it was and the lines above the screen are as many or one more.\<close>

definition scrolled :: "terminal_state \<Rightarrow> terminal_state \<Rightarrow> bool" where
  "scrolled t t' \<longleftrightarrow>
     kept t t' \<and> options t' = options t \<and> dec t' = dec t \<and> xpos t' = xpos t \<and> ypos t' = ypos t \<and>
     ybase (active t') = (if scrollTop (active t) = 0 \<and> \<not> isFull (lines (active t)) then ybase (active t) + 1
                          else ybase (active t)) \<and>
     scrollTop (active t') = scrollTop (active t) \<and> scrollBottom (active t') = scrollBottom (active t)"

lemma cached_active [simp]:
  "active (t\<lparr>cachedBlankLine := v\<rparr>) = active t" "term_ok (t\<lparr>cachedBlankLine := v\<rparr>) = term_ok t"
  by simp_all

lemma handle_scroll_fields [simp]:
  "active (handle_scroll t) = active t" "cols (handle_scroll t) = cols t" "rows (handle_scroll t) = rows t"
  "options (handle_scroll t) = options t" "dec (handle_scroll t) = dec t" "term_ok (handle_scroll t) = term_ok t"
  "term_frame (handle_scroll t) = term_frame t" "alt_active (handle_scroll t) = alt_active t"
  by (simp_all add: handle_scroll_def Let_def)

lemma term_scroll_ok:
  assumes t: "term_ok t"
  obtains t' where "term_scroll a w t = Some t'" "scrolled t t'"
proof -
  let ?b = "active t"
  let ?n = "blank_for_scroll a w t"
  note bd = ok_bounds [OF t]
  have fr: "buf_frame (cols t) (rows t) ?b" using frame_active [OF ok_frame [OF t]] .
  have n: "line_length ?n = cols t" by (rule blank_for_scroll_length) (use bd(1) in simp)
  obtain b1 where b1: "scroll_lines ?n ?b = Some b1" "lines_only ?b b1" "lines_ok (cols t) (lines b1)"
    "rlen (lines b1) = (if scrollTop ?b = 0 \<and> \<not> isFull (lines ?b) then Suc (rlen (lines ?b)) else rlen (lines ?b))"
    using scroll_lines_ok [OF fr n] .
  let ?p = "scroll_position (isUserScrolling t) (isFull (lines ?b)) b1"
  let ?b2 = "if isUserScrolling t then ?p else ?p\<lparr>ydisp := ybase ?p\<rparr>"
  have p: "buf_frame (cols t) (rows t) ?p" using frame_scroll_position [OF fr b1(2,3) refl b1(4)] .
  then have f2: "buf_frame (cols t) (rows t) ?b2" 
    using frame_follow [OF p] by (cases "isUserScrolling t") (simp_all only: if_True if_False)
  note only = lines_only_fields [OF b1(2)]
  have ok: "term_ok (set_active ?b2 (t\<lparr>cachedBlankLine := Some ?n\<rparr>))"
    by (rule ok_set_active) (use f2 bd only t in \<open>simp_all only: screen.simps terminal_state.simps cached_active\<close>,
      auto simp: only bd)
  have "term_scroll a w t = Some (handle_scroll (set_active ?b2 (t\<lparr>cachedBlankLine := Some ?n\<rparr>)))"
    using b1(1) by (simp add: term_scroll_def buffer_scroll_def Let_def)
  moreover have "scrolled t (handle_scroll (set_active ?b2 (t\<lparr>cachedBlankLine := Some ?n\<rparr>)))"
    using ok only by (simp add: scrolled_def kept_def)
  ultimately show ?thesis using that by blast
qed

lemma scroll_erased_ok:
  assumes "term_ok t"
  obtains t' where "scroll_erased w t = Some t'" "scrolled t t'"
proof -
  have "term_ok (keep_eraseAttr t)" using assms by simp
  from term_scroll_ok [OF this, of "eraseAttrData t" w] obtain t' where
    t': "term_scroll (eraseAttrData t) w (keep_eraseAttr t) = Some t'" "scrolled (keep_eraseAttr t) t'" .
  have "scrolled t t'" using t'(2) unfolding scrolled_def kept_def by simp
  then show ?thesis using that t'(1) by (simp add: scroll_erased_def)
qed

lemma scrolled_ok: "scrolled t t' \<Longrightarrow> term_ok t'"
  by (simp add: scrolled_def kept_def)

subsection \<open>Handlers that may fail\<close>

text \<open>A handler that does not throw here and keeps the invariant and the size.\<close>

definition goes_on :: "terminal_state \<Rightarrow> terminal_state option \<Rightarrow> bool" where
  "goes_on t r \<longleftrightarrow> (\<exists>t'. r = Some t' \<and> kept t t')"

lemma goes_onI: "r = Some t' \<Longrightarrow> kept t t' \<Longrightarrow> goes_on t r"
  by (auto simp: goes_on_def)

lemma kept_refl: "term_ok t \<Longrightarrow> kept t t"
  by (simp add: kept_def)

lemma each_opt_goes_on:
  assumes "kept t s" "\<And>x s. x \<in> set xs \<Longrightarrow> kept t s \<Longrightarrow> goes_on s (f x s)"
  shows "goes_on t (each_opt f xs s)"
  using assms
proof (induction xs arbitrary: s)
  case Nil
  then show ?case by (auto simp: goes_on_def)
next
  case (Cons x xs)
  from Cons.prems(2) [of x s] Cons.prems(1) obtain s' where s': "f x s = Some s'" "kept s s'"
    by (auto simp: goes_on_def)
  have "kept t s'" using kept_trans [OF Cons.prems(1) s'(2)] .
  then show ?case using Cons.IH [of s'] Cons.prems(2) s'(1) by simp
qed

lemma times_opt_goes_on:
  assumes "kept t s" "\<And>s. kept t s \<Longrightarrow> goes_on s (f s)"
  shows "goes_on t (times_opt n f s)"
  using assms
proof (induction n arbitrary: s)
  case 0
  then show ?case by (auto simp: goes_on_def)
next
  case (Suc n)
  from Suc.prems(2) [of s] Suc.prems(1) obtain s' where s': "f s = Some s'" "kept s s'"
    by (auto simp: goes_on_def)
  have "kept t s'" using kept_trans [OF Suc.prems(1) s'(2)] .
  then show ?case using Suc.IH [of s'] Suc.prems(2) s'(1) by simp
qed

lemma lineFeed_ok:
  assumes t: "term_ok t"
  shows "goes_on t (lineFeed t)"
proof -
  define t2 where "t2 = (if convertEol (options t) then set_x 0 (markDirty (ypos t) t) else markDirty (ypos t) t)"
  define t3 where "t3 = set_y (ypos t + 1) t2"
  have t2: "term_ok t2" "ypos t2 = ypos t" "active t2 = active t \<or> active t2 = (active t)\<lparr>cx := 0\<rparr>"
    "cols t2 = cols t" "rows t2 = rows t"
    using t by (auto simp: t2_def ok_set_x)
  have t3: "term_frame t3" "ypos t3 = ypos t + 1" "scrollBottom (active t3) = scrollBottom (active t)" "cols t3 = cols t"
    "rows t3 = rows t" "0 \<le> xpos t3"
    using t2 ok_bounds [OF t] by (auto simp: t3_def ok_frame ok_set_y)
  note bd = ok_bounds [OF t]
  have mid: "\<exists>t4. (if ypos t3 = scrollBottom (active t3) + 1 then scroll_erased False (set_y (ypos t3 - 1) t3)
              else if rows t \<le> ypos t3 then Some (set_y (rows t - 1) t3)
              else upd_line (abs_row (ypos t3) t3) (\<lambda>l. l\<lparr>isWrapped := False\<rparr>) t3) = Some t4 \<and> kept t t4"
  proof (cases "ypos t3 = scrollBottom (active t3) + 1")
    case True
    have "term_ok (set_y (ypos t3 - 1) t3)" using t3 bd by (simp add: term_ok_def)
    from scroll_erased_ok [OF this, of False] show ?thesis using True t3 unfolding scrolled_def kept_def by auto
  next
    case False
    show ?thesis
    proof (cases "rows t \<le> ypos t3")
      case True
      then show ?thesis using False t3 bd by (simp add: term_ok_def kept_def)
    next
      case small: False
      then have ok3: "term_ok t3" using t3 bd by (simp add: term_ok_def)
      have "0 \<le> ypos t3" "ypos t3 < rows t3" using small t3 bd by auto
      from upd_row_ok [OF ok3 this, of "\<lambda>l. l\<lparr>isWrapped := False\<rparr>"] show ?thesis
        using False small t3 unfolding same_place_def kept_def by auto
    qed
  qed
  then obtain t4 where t4: "(if ypos t3 = scrollBottom (active t3) + 1 then scroll_erased False (set_y (ypos t3 - 1) t3)
              else if rows t \<le> ypos t3 then Some (set_y (rows t - 1) t3)
              else upd_line (abs_row (ypos t3) t3) (\<lambda>l. l\<lparr>isWrapped := False\<rparr>) t3) = Some t4" "kept t t4" by blast
  define t5 where "t5 = (if cols t \<le> xpos t4 then set_x (xpos t4 - 1) t4 else t4)"
  have "kept t t5" using t4(2) bd by (auto simp: t5_def kept_def intro!: ok_set_x)
  then have "kept t (emit On_line_feed (markDirty (ypos t5) t5))" by (simp add: kept_def)
  moreover have "lineFeed t = Some (emit On_line_feed (markDirty (ypos t5) t5))"
    using t4(1) unfolding lineFeed_def Let_def t2_def [symmetric] t3_def [symmetric] by (simp add: t5_def)
  ultimately show ?thesis by (rule goes_onI [rotated])
qed

end
