(* ===== verification/Xterm_Edit_Inv.thy ===== *)
theory Xterm_Edit_Inv
  imports Xterm_Invariant
begin

text \<open>
  The handlers that change lines keep the invariant of the terminal: line feeds, erasing, inserting and
  deleting.
\<close>

lemma ok_restrict: "term_ok t \<Longrightarrow> term_ok (restrict_default t)"
  by (rule restrict_default_ok, rule ok_frame)

lemma kept_restrict: "term_ok t \<Longrightarrow> kept t (restrict_default t)"
  by (simp add: kept_def ok_restrict)

lemma goes_on_trans: "kept t s \<Longrightarrow> goes_on s r \<Longrightarrow> goes_on t r"
  by (auto simp: goes_on_def intro: kept_trans)

lemma goes_on_map: "goes_on t r \<Longrightarrow> (\<And>s. kept t s \<Longrightarrow> kept t (f s)) \<Longrightarrow> goes_on t (map_option f r)"
  by (auto simp: goes_on_def)

lemma index_ok:
  assumes t: "term_ok t"
  shows "goes_on t (index t)"
proof -
  define t1 where "t1 = restrict_default t"
  define t2 where "t2 = set_y (ypos t1 + 1) t1"
  have t1: "term_ok t1" "kept t t1" using t by (simp_all add: t1_def ok_restrict kept_restrict)
  note bd = ok_bounds [OF t1(1)]
  have "\<exists>t3. (if ypos t2 = scrollBottom (active t2) + 1 then scroll_erased False (set_y (ypos t2 - 1) t2)
      else Some (if rows t \<le> ypos t2 then set_y (rows t - 1) t2 else t2)) = Some t3 \<and> kept t1 t3"
  proof (cases "ypos t2 = scrollBottom (active t2) + 1")
    case True
    have "term_ok (set_y (ypos t2 - 1) t2)" using t1 bd by (simp add: t2_def term_ok_def)
    from scroll_erased_ok [OF this, of False] show ?thesis
      using True by (auto simp: scrolled_def kept_def t2_def)
  next
    case False
    then show ?thesis using t1 bd by (auto simp: t2_def kept_def term_ok_def)
  qed
  then obtain t3 where "(if ypos t2 = scrollBottom (active t2) + 1 then scroll_erased False (set_y (ypos t2 - 1) t2)
      else Some (if rows t \<le> ypos t2 then set_y (rows t - 1) t2 else t2)) = Some t3" "kept t1 t3" by blast
  then have "index t = Some (restrict_default t3)" "kept t1 (restrict_default t3)"
    unfolding index_def Let_def t1_def [symmetric] t2_def [symmetric] by (simp_all add: kept_def ok_restrict)
  then show ?thesis using kept_trans [OF t1(2)] by (auto intro: goes_onI)
qed

lemma nextLine_ok: "term_ok t \<Longrightarrow> goes_on t (nextLine t)"
  unfolding nextLine_def by (rule goes_on_trans [of _ "set_x 0 t"]) (auto simp: kept_def ok_set_x intro: index_ok)

lemma shift_nothing: "n \<le> 0 \<Longrightarrow> 0 < k \<Longrightarrow> lines_shift i n k b = Some (update_lines (\<lambda>r. r) b)"
  by (simp add: lines_shift_def shift_up_def)

lemma frame_shift_put:
  assumes b: "buf_frame w h b" and y: "0 \<le> y" "y \<le> scrollBottom b" and n: "line_length n = w"
  obtains b1 where "lines_shift (ybase b + y) (scrollBottom b - y) 1 b = Some b1"
    "buf_frame w h (put_line (ybase b + y) n b1)" "lines_only b (put_line (ybase b + y) n b1)"
proof -
  note f = frame_bounds [OF b]
  have "\<exists>b1. lines_shift (ybase b + y) (scrollBottom b - y) 1 b = Some b1 \<and> lines_only b b1 \<and>
    lines_ok w (lines b1) \<and> rlen (lines b1) = rlen (lines b)"
  proof (cases "y = scrollBottom b")
    case True
    then show ?thesis using f(4) by (auto simp: shift_nothing)
  next
    case False
    then show ?thesis
      using shift_lines_ok [OF f(4), of "scrollBottom b - y" 1 "ybase b + y"] f y by (smt (verit))
  qed
  then obtain b1 where b1: "lines_shift (ybase b + y) (scrollBottom b - y) 1 b = Some b1" "lines_only b b1"
    "lines_ok w (lines b1)" "rlen (lines b1) = rlen (lines b)" by blast
  have "buf_frame w h b1" using lines_only_frame [OF b b1(2-4)] .
  then have "buf_frame w h (put_line (ybase b + y) n b1)"
    using frame_put [of w h b1 "ybase b + y" n] lines_only_fields [OF b1(2)] f y n by simp
  then show ?thesis using that [OF b1(1)] lines_only_trans [OF b1(2) lines_only_put] by blast
qed

lemma blank_here_length [simp]: "0 \<le> cols t \<Longrightarrow> line_length (blank_here t) = cols t"
  by (simp add: blank_here_def)

lemma ok_lines_kept:
  assumes "term_ok t" "lines_only (active t) b" "buf_frame (cols t) (rows t) b"
  shows "kept t (set_active b (keep_eraseAttr t))"
  using ok_lines [of "keep_eraseAttr t" b] assms by (simp add: same_place_def kept_def)

lemma kept_notes [simp]:
  "kept t (markRangeDirty a b s) = kept t s" "kept t (markDirty y s) = kept t s" "kept t (emit e s) = kept t s"
  "kept t (keep_eraseAttr s) = kept t s" "kept t (mark_region s) = kept t s"
  by (simp_all add: kept_def mark_region_def)

lemma reverseIndex_ok:
  assumes t: "term_ok t"
  shows "goes_on t (reverseIndex t)"
proof (rule goes_on_trans [OF kept_restrict [OF t]])
  define t1 where "t1 = restrict_default t"
  have t1: "term_ok t1" using t by (simp add: t1_def ok_restrict)
  note bd = ok_bounds [OF t1]
  let ?b = "active t1"
  show "goes_on (restrict_default t) (reverseIndex t)" unfolding t1_def [symmetric]
  proof (cases "cy ?b = scrollTop ?b")
    case True
    obtain b1 where b1: "lines_shift (ybase ?b + scrollTop ?b) (scrollBottom ?b - scrollTop ?b) 1 ?b = Some b1"
      "buf_frame (cols t1) (rows t1) (put_line (ybase ?b + scrollTop ?b) (blank_here t1) b1)"
      "lines_only ?b (put_line (ybase ?b + scrollTop ?b) (blank_here t1) b1)"
      using frame_shift_put [OF frame_active [OF ok_frame [OF t1]], of "scrollTop ?b" "blank_here t1"] bd by auto
    have "kept t1 (set_active (put_line (ybase ?b + scrollTop ?b) (blank_here t1) b1) t1)"
      using ok_lines [OF t1 b1(3,2)] by (simp add: same_place_def)
    then show "goes_on t1 (reverseIndex t)"
      using True b1(1) by (auto simp: reverseIndex_def Let_def t1_def [symmetric] goes_on_def)
  next
    case False
    have "kept t1 (restrict_default (set_y (cy ?b - 1) t1))"
      by (simp add: kept_def restrict_default_ok ok_frame [OF t1])
    then show "goes_on t1 (reverseIndex t)"
      using False by (auto simp: reverseIndex_def Let_def t1_def [symmetric] goes_on_def)
  qed
qed

lemma backspace_ok:
  assumes t: "term_ok t"
  shows "goes_on t (backspace t)"
proof (cases "reverseWraparound (dec t)")
  case False
  have "term_ok (restrict_default t)" using t by (rule ok_restrict)
  then show ?thesis using False ok_bounds [of "restrict_default t"]
    by (auto simp: backspace_def Let_def kept_def intro!: goes_onI ok_set_x)
next
  case rev: True
  define t1 where "t1 = restrictCursor (cols t) t"
  have t1: "term_ok t1" "kept t t1"
    using ok_bounds [OF t] t by (auto simp: t1_def kept_def intro!: restrict_ok ok_frame)
  note bd = ok_bounds [OF t1(1)]
  define r where "r = (if 0 < xpos t1 then Some (set_x (xpos t1 - 1) t1)
      else if scrollTop (active t1) < ypos t1 \<and> ypos t1 \<le> scrollBottom (active t1) \<and> wrapped_here t1 then
        do {
          t3 \<leftarrow> upd_line (abs_row (ypos t1) t1) (\<lambda>l. l\<lparr>isWrapped := False\<rparr>) t1;
          let t4 = set_x (cols t - 1) (set_y (ypos t3 - 1) t3);
          l \<leftarrow> line_here (abs_row (ypos t4) t4) t4;
          Some (if hasWidth l (xpos t4) \<and> \<not> hasContent l (xpos t4) then set_x (xpos t4 - 1) t4 else t4)
        }
      else Some t1)"
  have "goes_on t1 r"
  proof (cases "\<not> 0 < xpos t1 \<and> scrollTop (active t1) < ypos t1 \<and> ypos t1 \<le> scrollBottom (active t1) \<and> wrapped_here t1")
    case False
    then show ?thesis unfolding r_def using t1 bd by (auto simp: kept_def intro!: goes_onI ok_set_x)
  next
    case True
    obtain t3 where t3: "upd_line (abs_row (ypos t1) t1) (\<lambda>l. l\<lparr>isWrapped := False\<rparr>) t1 = Some t3" "same_place t1 t3"
      using upd_row_ok [OF t1(1) bd(4,5), of "\<lambda>l. l\<lparr>isWrapped := False\<rparr>"] by auto
    note ok3 = same_place_ok [OF t3(2)]
    define t4 where "t4 = set_x (cols t - 1) (set_y (ypos t3 - 1) t3)"
    have y3: "ypos t3 = ypos t1" "cols t3 = cols t" "rows t3 = rows t1"
      using t3(2) t1(2) by (simp_all add: same_place_def kept_def)
    have t4: "term_ok t4" "cols t4 = cols t" "rows t4 = rows t1" "xpos t4 = cols t - 1"
      using ok3 y3 True bd ok_bounds [OF ok3] ok_bounds(1) [OF t] by (auto simp: t4_def intro!: ok_set_x ok_set_y)
    obtain l where l: "line_here (abs_row (ypos t4) t4) t4 = Some l"
      using line_here_ok [OF t4(1)] abs_row_bounds [OF t4(1)] ok_bounds [OF t4(1)] by blast
    have "term_ok (if hasWidth l (xpos t4) \<and> \<not> hasContent l (xpos t4) then set_x (xpos t4 - 1) t4 else t4)"
      using t4 ok_bounds(1) [OF t] by (auto intro!: ok_set_x)
    moreover have "r = Some (if hasWidth l (xpos t4) \<and> \<not> hasContent l (xpos t4) then set_x (xpos t4 - 1) t4 else t4)"
      using True t3(1) l unfolding r_def t4_def by (simp add: Let_def)
    ultimately show ?thesis using t4(2,3) t1(2) by (auto simp: goes_on_def kept_def)
  qed
  then obtain t2 where t2: "r = Some t2" "kept t1 t2" by (auto simp: goes_on_def)
  have "backspace t = map_option restrict_default r"
    unfolding backspace_def Let_def r_def t1_def [symmetric] using rev by (simp add: map_option_bind comp_def bind_eq_Some_conv)
  then show ?thesis
    using kept_trans [OF t1(2) t2(2)] t2(1) kept_trans [OF _ kept_restrict] by (auto simp: kept_def goes_on_def)
qed

lemma saveCursor_ok: "term_ok t \<Longrightarrow> term_ok (saveCursor t)"
  unfolding saveCursor_def by (rule ok_upd_active) (auto simp: buf_frame_def)

lemma restoreCursor_frame: "term_frame t \<Longrightarrow> term_ok (restoreCursor t)"
  unfolding restoreCursor_def Let_def by (rule restrict_default_ok) simp

subsection \<open>Erasing\<close>

lemma same_place_keep [simp]: "same_place (keep_eraseAttr t) s = same_place t s"
  "same_place t (markDirty y s) = same_place t s" "same_place t (markRangeDirty a b s) = same_place t s"
  "same_place t (keep_eraseAttr s) = same_place t s"
  by (simp_all add: same_place_def kept_def)

lemma eraseInBufferLine_ok:
  assumes "term_ok t" "0 \<le> y" "y < rows t"
  obtains t' where "eraseInBufferLine y a b cw prot t = Some t'" "same_place t t'"
proof -
  let ?f = "\<lambda>l. let l1 = replaceCells a b (null_here t) prot l in if cw then l1\<lparr>isWrapped := False\<rparr> else l1"
  have k: "term_ok (keep_eraseAttr t)" "y < rows (keep_eraseAttr t)" using assms by simp_all
  have f: "line_length l = cols (keep_eraseAttr t) \<Longrightarrow> line_length (?f l) = cols (keep_eraseAttr t)" for l
    by (simp add: Let_def)
  obtain t' where "upd_line (abs_row y (keep_eraseAttr t)) ?f (keep_eraseAttr t) = Some t'" "same_place t t'"
    using upd_row_ok [where f = ?f, OF k(1) assms(2) k(2) f] by auto
  then show ?thesis using that by (simp add: eraseInBufferLine_def abs_row_def)
qed

lemma resetBufferLine_same:
  assumes "term_ok t" "0 \<le> y" "y < rows t"
  shows "same_place t (resetBufferLine prot y t)"
proof -
  have k: "term_ok (keep_eraseAttr t)" "y < rows (keep_eraseAttr t)" using assms by simp_all
  obtain t' where t': "upd_line (abs_row y (keep_eraseAttr t)) (\<lambda>l. (line_fill (null_here t) prot l)\<lparr>isWrapped := False\<rparr>)
      (keep_eraseAttr t) = Some t'" "same_place t t'"
    using upd_row_ok [OF k(1) assms(2) k(2), of "\<lambda>l. (line_fill (null_here t) prot l)\<lparr>isWrapped := False\<rparr>"] by auto
  have "lines_only b (clearMarkers l b)" for l b by (cases b) (simp add: lines_only_def clearMarkers_def)
  moreover have "buf_frame w h (clearMarkers l b) = buf_frame w h b" for l b w h by (simp add: clearMarkers_def)
  ultimately have "same_place t' (upd_active (clearMarkers (abs_row y t)) t')"
    unfolding upd_active_def
    using ok_lines [OF same_place_ok [OF t'(2)]] frame_active [OF ok_frame [OF same_place_ok [OF t'(2)]]] by simp
  then show ?thesis using t' same_place_trans [OF t'(2)] by (simp add: resetBufferLine_def abs_row_def)
qed

lemma fold_same_place:
  assumes "same_place t s" "\<And>x s. x \<in> set xs \<Longrightarrow> same_place t s \<Longrightarrow> same_place s (f x s)"
  shows "same_place t (fold f xs s)"
  using assms
proof (induction xs arbitrary: s)
  case (Cons x xs)
  have "same_place t (f x s)" using same_place_trans [OF Cons.prems(1)] Cons.prems by simp
  then show ?case using Cons by simp
qed simp

lemma reset_lines_same:
  assumes "same_place t s" "\<forall>y \<in> set ys. 0 \<le> y \<and> y < rows t"
  shows "same_place t (fold (resetBufferLine prot) ys s)"
  using assms by (intro fold_same_place resetBufferLine_same) (auto simp: same_place_def kept_def)

lemma same_kept: "same_place t s \<Longrightarrow> kept t s"
  by (simp add: same_place_def)

lemma erase_below_ok:
  assumes t: "term_ok t"
  shows "goes_on t (erase_below prot t)"
proof -
  note bd = ok_bounds [OF t]
  have m: "term_ok (markDirty (ypos t) t)" "ypos t < rows (markDirty (ypos t) t)" using t bd by simp_all
  obtain t1 where t1: "eraseInBufferLine (ypos t) (xpos t) (cols t) (xpos t = 0) prot (markDirty (ypos t) t) = Some t1"
    "same_place (markDirty (ypos t) t) t1"
    using eraseInBufferLine_ok [OF m(1) bd(4) m(2)] by blast
  have "same_place t t1" using t1(2) by (simp add: same_place_def kept_def)
  then have "same_place t (fold (resetBufferLine prot) [ypos t + 1..rows t - 1] t1)"
    by (rule reset_lines_same) (use bd in auto)
  then show ?thesis using t1(1) by (auto simp: erase_below_def Let_def goes_on_def same_kept)
qed

text \<open>
  Erasing above clears the wrap of a line that it looks up as if no lines were above the screen. Below the
  last line the ring may be empty, and the handler throws; it may also hold an old line, or, when it is full,
  the first one again.
\<close>

lemma lines_ok_set_any:
  assumes "lines_ok w r" "ring_get r i = Some l" "line_length (f l) = line_length l"
  shows "lines_ok w (ring_set i (Some (f l)) r)"
proof -
  have wf: "ring_wf r" using assms(1) by (simp add: lines_ok_def)
  note b = ring_wf_bounds [OF wf]
  let ?j = "i mod maxLength r"
  have c: "cyclicIndex r i = cyclicIndex r ?j" by (simp add: cyclicIndex_def mod_add_right_eq)
  then have eq: "ring_set i x r = ring_set ?j x r" "ring_get r ?j = Some l" for x
    using assms(2) by (simp_all add: ring_set_def ring_get_def)
  have j: "?j < maxLength r" using b(2) by simp
  show ?thesis
  proof (cases "?j < rlen r")
    case True
    then have "line_length (f l) = w" using lines_ok_get [OF assms(1) True] eq(2) assms(3) by simp
    then show ?thesis using lines_ok_set [OF assms(1) True] eq(1) by simp
  next
    case False
    have g: "ring_get (ring_set ?j (Some (f l)) r) k = ring_get r k" if "k < rlen r" for k
      using get_set [of ?j 0 r k] that b False j by simp
    have "ring_wf (ring_set ?j (Some (f l)) r)" using wf g by (simp add: ring_wf_def)
    moreover have "ring_items (ring_set ?j (Some (f l)) r) = ring_items r"
      using g by (simp add: ring_items_def)
    ultimately show ?thesis using assms(1) eq(1) by (simp add: lines_ok_def)
  qed
qed

lemma lines_get_put:
  assumes "length (arr (lines b)) = maxLength (lines b)" "0 < maxLength (lines b)"
  shows "lines_get (put_line i l b) j = None \<longleftrightarrow> lines_get b j = None \<and> \<not> (0 \<le> j \<and>
      cyclicIndex (lines b) (nat i) = cyclicIndex (lines b) (nat j))"
proof -
  have "cyclicIndex (lines b) (nat i) < length (arr (lines b))" using assms by (simp add: cyclicIndex_def)
  then show ?thesis
    by (auto simp: lines_get_def put_line_def ring_get_def ring_set_def cyclicIndex_def nth_list_update)
qed

lemma upd_line_missing:
  assumes t: "term_ok t" and u: "upd_line i f t = Some t'" and i: "0 \<le> i"
  shows "lines_get (active t') j = None \<longleftrightarrow> lines_get (active t) j = None"
proof -
  have wf: "ring_wf (lines (active t))" using frame_bounds(4) [OF frame_active [OF ok_frame [OF t]]] by (simp add: lines_ok_def)
  from u obtain l where l: "lines_get (active t) i = Some l" "t' = set_active (put_line i (f l) (active t)) t"
    by (auto simp: upd_line_def with_line_def put_line_def split: option.splits)
  have "lines_get (active t) j \<noteq> None"
    if "0 \<le> j" "cyclicIndex (lines (active t)) (nat i) = cyclicIndex (lines (active t)) (nat j)"
    using l(1) that by (auto simp: lines_get_def ring_get_def split: if_splits)
  then show ?thesis using lines_get_put [of "active t" i "f l" j] ring_wf_bounds [OF wf] l(2) by auto
qed

lemma upd_line_any:
  assumes t: "term_ok t" and f: "\<And>l. line_length (f l) = line_length l" and u: "upd_line i f t = Some t'"
  shows "same_place t t'"
proof -
  let ?b = "active t"
  have fr: "buf_frame (cols t) (rows t) ?b" using frame_active [OF ok_frame [OF t]] .
  from u obtain l where l: "lines_get ?b i = Some l" "t' = set_active (put_line i (f l) ?b) t"
    by (auto simp: upd_line_def with_line_def put_line_def split: option.splits)
  then have "lines_ok (cols t) (ring_set (nat i) (Some (f l)) ((lines ?b)\<lparr>fired := []\<rparr>))"
    using lines_ok_set_any [of "cols t" "(lines ?b)\<lparr>fired := []\<rparr>" "nat i" l f] frame_bounds(4) [OF fr] f
    by (simp add: lines_get_def split: if_splits)
  then have "buf_frame (cols t) (rows t) (put_line i (f l) ?b)"
    unfolding put_line_def by (intro update_lines_frame [OF fr]) simp_all
  then show ?thesis using ok_lines [OF t lines_only_put] l(2) by simp
qed

lemma upd_line_if_any: "term_ok t \<Longrightarrow> (\<And>l. line_length (f l) = line_length l) \<Longrightarrow> same_place t (upd_line_if i f t)"
  using upd_line_any [of t f i] by (cases "upd_line i f t") (auto simp: upd_line_if_def same_place_refl)

lemma upd_line_None: "lines_get (active t) i = None \<longleftrightarrow> upd_line i f t = None"
  by (simp add: upd_line_def with_line_def split: option.splits)

definition erase_above_throws :: "terminal_state \<Rightarrow> bool" where
  "erase_above_throws t \<longleftrightarrow> cols t \<le> xpos t + 1 \<and> lines_get (active t) (ypos t + 1) = None"

lemma erase_above_ok:
  assumes t: "term_ok t"
  shows "if erase_above_throws t then erase_above prot t = None else goes_on t (erase_above prot t)"
proof -
  note bd = ok_bounds [OF t]
  let ?s = "markDirty (ypos t) t"
  have m: "term_ok ?s" "ypos t < rows ?s" using t bd by simp_all
  obtain t1 where t1: "eraseInBufferLine (ypos t) 0 (xpos t + 1) True prot ?s = Some t1" "same_place ?s t1"
    using eraseInBufferLine_ok [OF m(1) bd(4) m(2)] by blast
  have s1: "same_place t t1" using t1(2) by (simp add: same_place_def kept_def)
  then have e1: "xpos t1 = xpos t" "ybase (active t1) = ybase (active t)" "term_ok t1" "rows t1 = rows t"
    by (simp_all add: same_place_def kept_def)
  have "lines_get (active t1) (ypos t + 1) = None \<longleftrightarrow> lines_get (active (keep_eraseAttr ?s)) (ypos t + 1) = None"
    by (rule upd_line_missing [OF _ t1(1) [unfolded eraseInBufferLine_def]])
      (use m abs_row_bounds [OF m(1) bd(4)] bd in simp_all)
  then have miss: "lines_get (active t1) (ypos t + 1) = None \<longleftrightarrow> lines_get (active t) (ypos t + 1) = None" by simp
  have fin: "goes_on t (Some (markDirty 0 (fold (resetBufferLine prot) (rev [0..ypos t - 1]) t2)))" if "same_place t t2" for t2
    using reset_lines_same [OF that, of "rev [0..ypos t - 1]" prot] bd by (auto simp: goes_on_def same_kept)
  show ?thesis
  proof (cases "cols t \<le> xpos t + 1")
    case edge: True
    show ?thesis
    proof (cases "lines_get (active t) (ypos t + 1) = None")
      case True
      then have "upd_line (ypos t + 1) (\<lambda>l. l\<lparr>isWrapped := False\<rparr>) t1 = None"
        using miss by (simp add: upd_line_def with_line_def)
      then show ?thesis using True edge t1(1) e1 by (simp add: erase_above_def Let_def erase_above_throws_def)
    next
      case False
      then obtain t2 where t2: "upd_line (ypos t + 1) (\<lambda>l. l\<lparr>isWrapped := False\<rparr>) t1 = Some t2"
        using miss by (auto simp: upd_line_None [of t1 _ "\<lambda>l. l\<lparr>isWrapped := False\<rparr>"])
      then have "same_place t1 t2" by (rule upd_line_any [OF e1(3), rotated]) simp
      then show ?thesis using fin [OF same_place_trans [OF s1]] t2 False edge t1(1) e1(1)
        by (simp add: erase_above_def Let_def erase_above_throws_def)
    qed
  next
    case False
    then show ?thesis using fin [OF s1] t1(1) e1(1) by (simp add: erase_above_def Let_def erase_above_throws_def)
  qed
qed

lemma scroll_times_ok: "term_ok t \<Longrightarrow> goes_on t (times_opt n (scroll_erased w) t)"
proof (rule times_opt_goes_on)
  fix s assume "kept t s"
  then have "term_ok s" by (simp add: kept_def)
  then obtain s' where "scroll_erased w s = Some s'" "scrolled s s'" by (rule scroll_erased_ok)
  then show "goes_on s (scroll_erased w s)" by (auto simp: scrolled_def goes_on_def)
qed (rule kept_refl)

lemma erase_all_ok:
  assumes t: "term_ok t"
  shows "goes_on t (erase_all prot t)"
proof (cases "scrollOnEraseInDisplay (options t)")
  case True
  have "kept t (markRangeDirty 0 (rows t - 1) t)" using t by (simp add: kept_def)
  then show ?thesis
    using True goes_on_trans [OF _ scroll_times_ok [of "markRangeDirty 0 (rows t - 1) t"]] t
    by (simp add: erase_all_def Let_def)
next
  case False
  have "same_place t (fold (resetBufferLine prot) (rev [0..rows t - 1]) (markDirty (rows t - 1) t))"
    by (rule reset_lines_same) (auto simp: same_place_refl t)
  then show ?thesis using False by (auto simp: erase_all_def goes_on_def same_kept)
qed

lemma erase_saved_ok:
  assumes t: "term_ok t"
  shows "kept t (erase_saved t)"
proof -
  note bd = ok_bounds [OF t]
  let ?b = "active t"
  have fr: "buf_frame (cols t) (rows t) ?b" using frame_active [OF ok_frame [OF t]] .
  have n: "int (rlen (lines ?b)) - rows t = ybase ?b" using frame_bounds(2) [OF fr] by simp
  show ?thesis
  proof (cases "0 < ybase ?b")
    case True
    have yd: "ydisp ?b \<le> ybase ?b" using fr by (simp add: buf_frame_def)
    have "term_ok (set_active ((update_lines (ring_trimStart (nat (ybase ?b))) ?b)\<lparr>ybase := 0, ydisp := 0\<rparr>) t)"
      using frame_trim [OF fr bd(2) True] bd by (intro ok_set_active [OF t]) simp_all
    then show ?thesis using True n yd by (simp add: erase_saved_def Let_def kept_def)
  next
    case False
    then show ?thesis using n kept_refl [OF t] by (simp add: erase_saved_def Let_def)
  qed
qed

lemma restrict_to_ok: "term_ok t \<Longrightarrow> 0 \<le> e \<Longrightarrow> kept t (restrictCursor e t)"
  by (simp add: kept_def restrict_ok ok_frame)

lemma eraseInDisplay_ok:
  assumes t: "term_ok t"
  shows "if par p 0 = 1 \<and> erase_above_throws (restrictCursor (cols t) t) then eraseInDisplay p prot t = None
    else goes_on t (eraseInDisplay p prot t)"
proof -
  let ?s = "restrictCursor (cols t) t"
  have k: "kept t ?s" using restrict_to_ok [OF t] ok_bounds(1) [OF t] by simp
  then have s: "term_ok ?s" by (simp add: kept_def)
  show ?thesis
    using erase_above_ok [OF s, of prot] goes_on_trans [OF k erase_below_ok [OF s, of prot]]
      goes_on_trans [OF k erase_all_ok [OF s, of prot]] kept_trans [OF k erase_saved_ok [OF s]] k goes_on_trans [OF k]
    by (auto simp: eraseInDisplay_def Let_def goes_on_def)
qed

lemma eraseInLine_ok:
  assumes t: "term_ok t"
  shows "goes_on t (eraseInLine p prot t)"
proof -
  define s where "s = restrictCursor (cols t) t"
  have k: "kept t s" using restrict_to_ok [OF t] ok_bounds(1) [OF t] by (simp add: s_def)
  then have ok: "term_ok s" by (simp add: kept_def)
  note bd = ok_bounds [OF ok]
  have e: "\<exists>t'. eraseInBufferLine (ypos s) a b cw prot s = Some t' \<and> kept t t'" for a b cw
  proof -
    obtain t' where "eraseInBufferLine (ypos s) a b cw prot s = Some t'" "same_place s t'"
      using eraseInBufferLine_ok [OF ok bd(4,5)] by blast
    then show ?thesis using kept_trans [OF k same_kept] by blast
  qed
  show ?thesis
    using e [of "xpos s" "cols s" "xpos s = 0"] e [of 0 "xpos s + 1" False] e [of 0 "cols s" True] k
    by (auto simp: eraseInLine_def Let_def s_def [symmetric] goes_on_def)
qed

text \<open>An edit of the line of the cursor.\<close>

lemma edit_here_kept:
  assumes t: "term_ok t" and f: "\<And>l. line_length (f l) = line_length l"
  shows "kept t (markDirty y (upd_line_if (abs_row (ypos (restrict_default t)) (restrict_default t)) f
           (keep_eraseAttr (restrict_default t))))"
proof -
  let ?s = "restrict_default t"
  have s: "term_ok ?s" using t by (rule ok_restrict)
  have "same_place (keep_eraseAttr ?s) (upd_line_if (abs_row (ypos ?s) ?s) f (keep_eraseAttr ?s))"
    by (rule upd_line_if_any) (use s f in simp_all)
  then have "same_place ?s (upd_line_if (abs_row (ypos ?s) ?s) f (keep_eraseAttr ?s))" unfolding same_place_keep .
  then show ?thesis using kept_trans [OF kept_restrict [OF t] same_kept] by simp
qed

lemma chars_kept:
  assumes t: "term_ok t"
  shows "kept t (eraseChars p t)" "kept t (insertChars p t)" "kept t (deleteChars p t)"
  using kept_restrict [OF t] edit_here_kept [OF t]
  by (simp_all add: eraseChars_def insertChars_def deleteChars_def Let_def)

lemma move_blank_kept:
  assumes t: "term_ok t" and r: "0 \<le> i" "i < rows t" "0 \<le> j" "j < rows t" and n: "line_length n = cols t"
  shows "kept t (set_active ((move_blank (ybase (active t) + i) (ybase (active t) + j) n ^^ k) (active t)) t)"
proof -
  note bd = ok_bounds [OF t]
  let ?b = "(move_blank (ybase (active t) + i) (ybase (active t) + j) n ^^ k) (active t)"
  have e: "move_blank a b n = (\<lambda>buf. lines_splice b 0 [n] (lines_splice a 1 [] buf))" for a b
    by (simp add: move_blank_def fun_eq_iff)
  have "buf_frame (cols t) (rows t) ?b \<and> lines_only (active t) ?b"
    unfolding e by (rule frame_move_lines [OF frame_active [OF ok_frame [OF t]]]) (use r bd n in auto)
  then show ?thesis using ok_lines [OF t] by (simp add: same_place_def)
qed

lemma region_lines_kept:
  assumes t: "term_ok t"
  shows "kept t (insertLines p t)" "kept t (deleteLines p t)" "kept t (scrollUp p t)" "kept t (scrollDown p t)"
proof -
  let ?s = "restrict_default t"
  have s: "term_ok ?s" "term_ok (keep_eraseAttr ?s)" using ok_restrict [OF t] by simp_all
  note bs = ok_bounds [OF s(1)] and bt = ok_bounds [OF t]
  have x0: "kept a b \<Longrightarrow> kept a (set_x 0 b)" for a b by (simp add: kept_def ok_set_x)
  have "kept (keep_eraseAttr ?s) (set_active ((move_blank (ybase (active ?s) + scrollBottom (active ?s))
      (ybase (active ?s) + ypos ?s) (blank_here ?s) ^^ nat (par1 p 0)) (active ?s)) (keep_eraseAttr ?s))"
    using move_blank_kept [OF s(2), of "scrollBottom (active ?s)" "ypos ?s" "blank_here ?s"] bs by simp
  then show "kept t (insertLines p t)"
    using kept_trans [OF kept_restrict [OF t]] kept_restrict [OF t]
    by (auto simp: insertLines_def Let_def algebra_simps kept_def intro!: ok_set_x)
  have "kept (keep_eraseAttr ?s) (set_active ((move_blank (ybase (active ?s) + ypos ?s)
      (ybase (active ?s) + scrollBottom (active ?s)) (blank_here ?s) ^^ nat (par1 p 0)) (active ?s)) (keep_eraseAttr ?s))"
    using move_blank_kept [OF s(2), of "ypos ?s" "scrollBottom (active ?s)" "blank_here ?s"] bs by simp
  then show "kept t (deleteLines p t)"
    using kept_trans [OF kept_restrict [OF t]] kept_restrict [OF t]
    by (auto simp: deleteLines_def Let_def algebra_simps kept_def intro!: ok_set_x)
  have "kept (keep_eraseAttr t) (set_active ((move_blank (ybase (active t) + scrollTop (active t))
      (ybase (active t) + scrollBottom (active t)) (blank_here t) ^^ nat (par1 p 0)) (active t)) (keep_eraseAttr t))"
    using move_blank_kept [of "keep_eraseAttr t" "scrollTop (active t)" "scrollBottom (active t)" "blank_here t"] t bt by simp
  then show "kept t (scrollUp p t)" by (simp add: scrollUp_def Let_def kept_def mark_region_def)
  have "kept t (set_active ((move_blank (ybase (active t) + scrollBottom (active t))
      (ybase (active t) + scrollTop (active t)) (getBlankLine (cols t) default_attr False) ^^ nat (par1 p 0)) (active t)) t)"
    using move_blank_kept [OF t, of "scrollBottom (active t)" "scrollTop (active t)"] bt by simp
  then show "kept t (scrollDown p t)" by (simp add: scrollDown_def Let_def)
qed

lemma edit_region_ok:
  assumes t: "term_ok t" and f: "\<And>c l. line_length (f c l) = line_length l"
  shows "goes_on t (edit_region f t)"
proof (cases "outside_region t")
  case True
  then show ?thesis using kept_refl [OF t] by (simp add: edit_region_def goes_on_def)
next
  case False
  note bd = ok_bounds [OF t]
  have "goes_on t (each_opt (\<lambda>r t. upd_line (abs_row r t) (\<lambda>l. (f (null_here t) l)\<lparr>isWrapped := False\<rparr>) (keep_eraseAttr t))
      [scrollTop (active t)..scrollBottom (active t)] t)"
  proof (rule each_opt_goes_on [OF kept_refl [OF t]])
    fix r s assume r: "r \<in> set [scrollTop (active t)..scrollBottom (active t)]" and "kept t s"
    then have s: "term_ok (keep_eraseAttr s)" "0 \<le> r" "r < rows (keep_eraseAttr s)"
      using bd by (auto simp: kept_def)
    obtain s' where "upd_line (abs_row r (keep_eraseAttr s)) (\<lambda>l. (f (null_here s) l)\<lparr>isWrapped := False\<rparr>)
        (keep_eraseAttr s) = Some s'" "same_place s s'"
      using upd_row_ok [OF s, of "\<lambda>l. (f (null_here s) l)\<lparr>isWrapped := False\<rparr>"] f by auto
    then show "goes_on s (upd_line (abs_row r s) (\<lambda>l. (f (null_here s) l)\<lparr>isWrapped := False\<rparr>) (keep_eraseAttr s))"
      by (auto simp: goes_on_def abs_row_def same_kept)
  qed
  then show ?thesis using False by (auto simp: edit_region_def goes_on_def)
qed

lemma columns_ok:
  assumes "term_ok t"
  shows "goes_on t (scrollLeft p t)" "goes_on t (scrollRight p t)" "goes_on t (insertColumns p t)"
    "goes_on t (deleteColumns p t)"
  by (simp_all add: scrollLeft_def scrollRight_def insertColumns_def deleteColumns_def edit_region_ok assms)

lemma screenAlignmentPattern_ok:
  assumes t: "term_ok t"
  shows "kept t (screenAlignmentPattern t)"
proof -
  have s: "term_ok (setCursor 0 0 t)" using t by (simp add: setCursor_ok ok_frame)
  have "same_place (setCursor 0 0 t) (fold (\<lambda>i t'. upd_line_if (abs_row (ypos t' + i) t')
       (\<lambda>l. (line_fill (alignment_cell t) False l)\<lparr>isWrapped := False\<rparr>) t') [0..rows t - 1] (setCursor 0 0 t))"
    (is "same_place _ ?f")
    by (rule fold_same_place [OF same_place_refl [OF s]]) (auto dest: same_place_ok intro: upd_line_if_any)
  then have "term_ok ?f" "cols ?f = cols t" "rows ?f = rows t"
    by (simp_all add: same_place_def kept_def setCursor_def Let_def)
  moreover have "kept t (setCursor 0 0 (markAllDirty f))" if "term_ok f" "cols f = cols t" "rows f = rows t" for f
    using that by (simp add: kept_def setCursor_ok ok_frame markAllDirty_def) (simp add: setCursor_def Let_def)
  ultimately show ?thesis by (simp only: screenAlignmentPattern_def Let_def)
qed

end
