(* ===== verification/Xterm_Safe.thy ===== *)
theory Xterm_Safe
  imports Xterm_Edit_Inv
begin

text \<open>
  Printing, modes, resets and commands keep the invariant of the terminal; so every event of the parser does,
  and none but erasing above the cursor throws.
\<close>

subsection \<open>Printing\<close>

text \<open>The cursor stays on its line, to which a run is written.\<close>

definition on_row :: "terminal_state \<Rightarrow> terminal_state \<Rightarrow> bool" where
  "on_row t t' \<longleftrightarrow> kept t t' \<and> ypos t' = ypos t \<and> ybase (active t') = ybase (active t)"

lemma on_row_trans: "on_row a b \<Longrightarrow> on_row b c \<Longrightarrow> on_row a c"
  by (simp add: on_row_def kept_def)

lemma same_on_row: "same_place a b \<Longrightarrow> on_row a b"
  by (simp add: on_row_def same_place_def)

lemma on_row_ok: "on_row a b \<Longrightarrow> term_ok b" "on_row a b \<Longrightarrow> kept a b" "on_row a b \<Longrightarrow> abs_row (ypos b) b = abs_row (ypos a) a"
  by (simp_all add: on_row_def kept_def abs_row_def)

lemma on_row_x: "term_ok t \<Longrightarrow> 0 \<le> v \<Longrightarrow> on_row t (set_x v t)"
  by (simp add: on_row_def kept_def ok_set_x)

lemma on_row_refl: "term_ok t \<Longrightarrow> on_row t t"
  by (simp add: on_row_def kept_def)

lemma row_in_bounds: "term_ok t \<Longrightarrow> 0 \<le> abs_row (ypos t) t \<and> abs_row (ypos t) t < ybase (active t) + rows t"
  using abs_row_bounds ok_bounds(4,5) by blast

lemma upd_here:
  assumes "term_ok t" "li = abs_row (ypos t) t" "\<And>l. line_length (f l) = line_length l"
  obtains t' where "upd_line li f t = Some t'" "same_place t t'"
  using upd_line_ok [OF assms(1), of li f] row_in_bounds [OF assms(1)] assms(2,3) by auto

lemma put_width0_ok:
  assumes "term_ok t" "li = abs_row (ypos t) t"
  obtains t' where "put_width0 k li t = Some t'" "on_row t t'"
proof -
  obtain s where s: "upd_line li (for_up (xpos t) (xpos t + k) (\<lambda>c. setCellFromCodepoint c 0 0 (curAttr t))) t = Some s"
    "same_place t s"
    using upd_here [OF assms, of "for_up (xpos t) (xpos t + k) (\<lambda>c. setCellFromCodepoint c 0 0 (curAttr t))"] by auto
  have "on_row t (set_x (xpos t + max k 0) s)"
    using on_row_trans [OF same_on_row [OF s(2)] on_row_x [OF same_place_ok [OF s(2)]]] ok_bounds(3) [OF assms(1)] by simp
  then show ?thesis using that s(1) by (simp add: put_width0_def)
qed

lemma join_cell_ok:
  assumes "term_ok t" "li = abs_row (ypos t) t"
  obtains t' where "join_cell n w r li t = Some t'" "on_row t t'"
proof -
  obtain l where l: "line_here li t = Some l"
    using line_here_ok [OF assms(1), of li] row_in_bounds [OF assms(1)] assms(2) by blast
  define off where "off = (if getWidth l (xpos t - 1) \<noteq> 0 then 1 else 2 :: int)"
  obtain t1 where t1: "upd_line li (addCodepointToCell (xpos t - off) n w) t = Some t1" "same_place t t1"
    using upd_here [OF assms, of "addCodepointToCell (xpos t - off) n w"] by auto
  have "li = abs_row (ypos t1) t1" using assms(2) on_row_ok(3) [OF same_on_row [OF t1(2)]] by simp
  then obtain t2 where "put_width0 (w - r) li t1 = Some t2" "on_row t1 t2"
    using put_width0_ok [OF same_place_ok [OF t1(2)]] by blast
  then show ?thesis using that on_row_trans [OF same_on_row [OF t1(2)]] l t1(1)
    by (simp add: join_cell_def Let_def off_def)
qed

lemma put_cell_ok:
  assumes "term_ok t" "li = abs_row (ypos t) t"
  obtains t' where "put_cell n w r li t = Some t'" "on_row t t'"
proof -
  define ins where "ins = (if insertMode t then
      upd_line li (\<lambda>l. mend_wide (cols t - 1) (curAttr t) (insertCells (xpos t) (w - r) (getNullCell (curAttr t)) l)) t
      else Some t)"
  obtain t1 where t1: "ins = Some t1" "same_place t t1"
  proof (cases "insertMode t")
    case True
    then show ?thesis
      using that upd_here [OF assms, of "\<lambda>l. mend_wide (cols t - 1) (curAttr t)
          (insertCells (xpos t) (w - r) (getNullCell (curAttr t)) l)"] by (auto simp: ins_def)
  qed (use that same_place_refl [OF assms(1)] in \<open>simp add: ins_def\<close>)
  have li1: "li = abs_row (ypos t1) t1" using assms(2) on_row_ok(3) [OF same_on_row [OF t1(2)]] by simp
  obtain t2 where t2: "upd_line li (setCellFromCodepoint (xpos t1) n w (curAttr t)) t1 = Some t2" "same_place t1 t2"
    using upd_here [OF same_place_ok [OF t1(2)] li1, of "setCellFromCodepoint (xpos t1) n w (curAttr t)"] by auto
  let ?s = "set_x (xpos t2 + 1) t2"
  have s: "on_row t ?s"
    using on_row_trans [OF same_on_row [OF same_place_trans [OF t1(2) t2(2)]] on_row_x [OF same_place_ok [OF t2(2)]]]
      ok_bounds(3) [OF same_place_ok [OF t2(2)]] by simp
  have "li = abs_row (ypos ?s) ?s" using assms(2) on_row_ok(3) [OF s] by simp
  then obtain t3 where "put_width0 (w - 1) li ?s = Some t3" "on_row ?s t3"
    using put_width0_ok [OF on_row_ok(1) [OF s]] by blast
  then show ?thesis using that on_row_trans [OF s] t1(1) t2(1)
    unfolding put_cell_def Let_def ins_def [symmetric] by simp
qed

lemma left_line_bounds:
  assumes "term_ok t" "ypos t = scrollBottom (active t)" "li = abs_row (ypos t) t"
    "yb = (if scrollTop (active t) = 0 \<and> \<not> isFull (lines (active t)) then ybase (active t) + 1 else ybase (active t))"
  shows "0 \<le> left_line (active t) li" "left_line (active t) li < yb + rows t"
proof -
  have "scrollTop (active t) = 0 \<or> scrollTop (active t) < scrollBottom (active t)"
    using frame_active [OF ok_frame [OF assms(1)]] by (simp add: buf_frame_def)
  then show "0 \<le> left_line (active t) li" "left_line (active t) li < yb + rows t"
    using assms(2-) ok_bounds [OF assms(1)] by (auto simp: left_line_def abs_row_def)
qed

lemma wrap_line_ok:
  assumes t: "term_ok t" and li: "li = abs_row (ypos t) t" and r: "0 \<le> r"
  obtains t' ln where "wrap_line r li t = Some (t', ln)" "kept t t'" "ln = abs_row (ypos t') t'"
proof -
  note bd = ok_bounds [OF t]
  define t1 where "t1 = set_y (ypos t + 1) (set_x r t)"
  have a1: "active t1 = (active t)\<lparr>cx := r, cy := ypos t + 1\<rparr>" "cols t1 = cols t" "rows t1 = rows t" "term_frame t1"
    using ok_frame [OF t] by (simp_all add: t1_def)
  define step where "step = (if ypos t1 = scrollBottom (active t1) + 1 then
            map_option (\<lambda>t'. (t', left_line (active t1) li)) (scroll_erased True (set_y (ypos t1 - 1) t1))
          else
            (let t' = (if rows t \<le> ypos t1 then set_y (rows t - 1) t1 else t1)
             in map_option (\<lambda>t''. (t'', li)) (upd_line (abs_row (ypos t') t') (\<lambda>l. l\<lparr>isWrapped := True\<rparr>) t')))"
  have "\<exists>t2 old. step = Some (t2, old) \<and> kept t t2 \<and> 0 \<le> old \<and> old < ybase (active t2) + rows t2"
  proof (cases "ypos t1 = scrollBottom (active t1) + 1")
    case True
    let ?s = "set_y (ypos t1 - 1) t1"
    have s: "term_ok ?s" using a1 bd r by (simp add: term_ok_def)
    obtain t2 where t2: "scroll_erased True ?s = Some t2" "scrolled ?s t2" using scroll_erased_ok [OF s] .
    have "left_line (active t1) li = left_line (active ?s) li" by (simp add: left_line_def)
    moreover have "ypos ?s = scrollBottom (active ?s)" "li = abs_row (ypos ?s) ?s"
      using True a1 li by (simp_all add: abs_row_def)
    ultimately have "0 \<le> left_line (active t1) li" "left_line (active t1) li < ybase (active t2) + rows ?s"
      using left_line_bounds [OF s, of li "ybase (active t2)"] t2(2) by (auto simp: scrolled_def)
    then show ?thesis using True t2 a1 by (simp add: step_def scrolled_def kept_def)
  next
    case False
    define s where "s = (if rows t \<le> ypos t1 then set_y (rows t - 1) t1 else t1)"
    have s: "term_ok s" "kept t s" "ybase (active s) = ybase (active t)" using a1 bd r by (auto simp: s_def term_ok_def kept_def)
    obtain t2 where t2: "upd_line (abs_row (ypos s) s) (\<lambda>l. l\<lparr>isWrapped := True\<rparr>) s = Some t2" "same_place s t2"
      using upd_here [OF s(1) refl, of "\<lambda>l. l\<lparr>isWrapped := True\<rparr>"] by auto
    have "step = Some (t2, li)" using False t2(1) by (simp add: step_def Let_def s_def)
    then show ?thesis using s t2(2) li row_in_bounds [OF t] by (auto simp: same_place_def kept_def)
  qed
  then obtain t2 old where t2: "step = Some (t2, old)" "kept t t2" "0 \<le> old" "old < ybase (active t2) + rows t2" by blast
  have ok2: "term_ok t2" using t2(2) by (simp add: kept_def)
  obtain o1 where o1: "line_here old t2 = Some o1" using line_here_ok [OF ok2 t2(3,4)] by blast
  let ?ln = "abs_row (ypos t2) t2"
  obtain t3 where t3: "(if 0 < r then upd_line ?ln (copyCellsFrom o1 (xpos t - r) 0 r False) t2 else Some t2) = Some t3"
    "same_place t2 t3"
  proof (cases "0 < r")
    case True
    then show ?thesis using that upd_here [OF ok2 refl, of "copyCellsFrom o1 (xpos t - r) 0 r False"] by auto
  qed (use that same_place_refl [OF ok2] in simp)
  have "old < ybase (active t3) + rows t3" using t2(4) t3(2) by (simp add: same_place_def kept_def)
  then obtain t4 where t4: "upd_line old (blank_rest (xpos t - r) (cols t) (curAttr t)) t3 = Some t4" "same_place t3 t4"
    using upd_line_ok [OF same_place_ok [OF t3(2)] t2(3), of "blank_rest (xpos t - r) (cols t) (curAttr t)"]
    by (auto simp: blank_rest_def)
  note st = same_place_trans [OF t3(2) t4(2)]
  have "wrap_line r li t = Some (t4, ?ln)"
    using t2(1) o1 t3(1) t4(1) unfolding wrap_line_def Let_def t1_def [symmetric] step_def by simp
  then show ?thesis using that kept_trans [OF t2(2) same_kept [OF st]] on_row_ok(3) [OF same_on_row [OF st]] by simp
qed

lemma frame_addMarker: "buf_frame w h (addMarker k l b) = buf_frame w h b" "lines_only b (addMarker k l b)"
  by (simp_all add: addMarker_def) (cases b; simp add: lines_only_def)

lemma addLineToLink_same: "term_ok t \<Longrightarrow> same_place t (addLineToLink k l t)"
  using ok_lines [of t "addMarker k l (active t)"] frame_active [OF ok_frame, of t]
  by (auto simp: addLineToLink_def upd_active_def frame_addMarker intro: same_place_refl)

lemma notes_same:
  assumes "term_ok t"
  shows "same_place t (a11y_char n t)" "same_place t (link_here t)"
  using same_place_refl [OF assms] addLineToLink_same [OF assms]
  by (auto simp: a11y_char_def link_here_def Let_def same_place_def kept_def)

lemma print_code_ok:
  assumes t: "term_ok t" and li: "li = abs_row (ypos t) t"
  shows "\<exists>t' ln f. print_code c (t, li, p) = Some (t', ln, f) \<and> kept t t' \<and> ln = abs_row (ypos t') t'"
proof -
  define n where "n = translate_char t c"
  define f where "f = charProperties n p"
  define w where "w = int (extractWidth f)"
  define j where "j = extractShouldJoin f"
  define r where "r = (if j then int (extractWidth p) else 0)"
  define t1 where "t1 = link_here (a11y_char n t)"
  have s1: "same_place t t1"
    using same_place_trans notes_same(1) [OF t] notes_same(2) [OF same_place_ok [OF notes_same(1) [OF t]]]
    unfolding t1_def by blast
  note ok1 = same_place_ok [OF s1]
  have li1: "li = abs_row (ypos t1) t1" using li on_row_ok(3) [OF same_on_row [OF s1]] by simp
  define st where "st = (if cols t < xpos t1 + w - r then
                 (if wraparound (dec t) then map_option (\<lambda>(t', k). (t', k, False)) (wrap_line r li t1)
                  else Some (set_x (cols t - 1) t1, li, w = 2))
               else Some (t1, li, False))"
  have "\<exists>t2 ln skip. st = Some (t2, ln, skip) \<and> kept t1 t2 \<and> ln = abs_row (ypos t2) t2"
  proof -
    have "0 \<le> r" by (simp add: r_def)
    then obtain t' ln where w: "wrap_line r li t1 = Some (t', ln)" "kept t1 t'" "ln = abs_row (ypos t') t'"
      using wrap_line_ok [OF ok1 li1] by blast
    have x: "kept t1 (set_x (cols t - 1) t1)" "abs_row (ypos t1) (set_x (cols t - 1) t1) = li"
      using ok_bounds(1) [OF t] ok1 li1 by (auto simp: kept_def abs_row_def intro: ok_set_x)
    show ?thesis using w x li1 kept_refl [OF ok1] by (auto simp: st_def)
  qed
  then obtain t2 ln skip where t2: "st = Some (t2, ln, skip)" "kept t1 t2" "ln = abs_row (ypos t2) t2" by blast
  have ok2: "term_ok t2" using t2(2) by (simp add: kept_def)
  define pt where "pt = (if skip then Some t2 else if j \<and> xpos t2 \<noteq> 0 then join_cell n w r ln t2 else put_cell n w r ln t2)"
  obtain t3 where t3: "pt = Some t3" "on_row t2 t3"
  proof -
    obtain a where a: "join_cell n w r ln t2 = Some a" "on_row t2 a" using join_cell_ok [OF ok2 t2(3)] .
    obtain b where b: "put_cell n w r ln t2 = Some b" "on_row t2 b" using put_cell_ok [OF ok2 t2(3)] .
    consider "pt = Some t2" | "pt = Some a" | "pt = Some b" using a(1) b(1) unfolding pt_def by presburger
    then show ?thesis by cases (use that a(2) b(2) on_row_refl [OF ok2] in blast)+
  qed
  have "print_code c (t, li, p) = Some (t3, ln, f)"
    using t2(1) t3(1) unfolding print_code_def Let_def n_def [symmetric] prod.case
    unfolding f_def [symmetric] unfolding w_def [symmetric] j_def [symmetric] t1_def [symmetric] unfolding r_def [symmetric]
    unfolding st_def [symmetric] by (simp add: pt_def [symmetric])
  then show ?thesis
    using kept_trans [OF kept_trans [OF same_kept [OF s1] t2(2)] on_row_ok(2) [OF t3(2)]] t2(3) on_row_ok(3) [OF t3(2)]
    by auto
qed

lemma print_loop_ok:
  assumes "term_ok t" "li = abs_row (ypos t) t"
  shows "\<exists>t' ln f. print_loop cs (t, li, p) = Some (t', ln, f) \<and> kept t t' \<and> ln = abs_row (ypos t') t'"
  using assms
proof (induction cs arbitrary: t li p)
  case Nil
  then show ?case by (simp add: kept_refl)
next
  case (Cons c cs)
  obtain t1 l1 f1 where t1: "print_code c (t, li, p) = Some (t1, l1, f1)" "kept t t1" "l1 = abs_row (ypos t1) t1"
    using print_code_ok [OF Cons.prems] by blast
  obtain t2 l2 f2 where "print_loop cs (t1, l1, f1) = Some (t2, l2, f2)" "kept t1 t2" "l2 = abs_row (ypos t2) t2"
    using Cons.IH [OF _ t1(3)] t1(2) unfolding kept_def by blast
  then show ?case using t1(1) kept_trans [OF t1(2)] by auto
qed

lemma print_ok:
  assumes t: "term_ok t"
  shows "goes_on t (print cs t)"
proof -
  let ?m = "markDirty (ypos t) t"
  let ?li = "abs_row (ypos t) t"
  have m: "term_ok ?m" "?li = abs_row (ypos ?m) ?m" using t by (simp_all add: abs_row_def)
  obtain t2 where t2: "(if xpos t \<noteq> 0 \<and> cs \<noteq> [] then upd_line ?li (mend_wide (xpos t - 1) (curAttr t)) ?m else Some ?m) = Some t2"
    "same_place ?m t2"
  proof (cases "xpos t \<noteq> 0 \<and> cs \<noteq> []")
    case True
    obtain s where "upd_line ?li (mend_wide (xpos t - 1) (curAttr t)) ?m = Some s" "same_place ?m s"
      by (rule upd_here [OF m, where f = "mend_wide (xpos t - 1) (curAttr t)", OF length_mend_wide])
    then show ?thesis using that [of s] True by presburger
  qed (use that same_place_refl [OF m(1)] in presburger)
  have li2: "?li = abs_row (ypos t2) t2" using m(2) on_row_ok(3) [OF same_on_row [OF t2(2)]] by simp
  obtain t3 ln p where t3: "print_loop cs (t2, ?li, precedingJoinState t) = Some (t3, ln, p)" "kept t2 t3"
    "ln = abs_row (ypos t3) t3"
    using print_loop_ok [OF same_place_ok [OF t2(2)] li2] by blast
  let ?t4 = "t3\<lparr>precedingJoinState := p\<rparr>"
  have t4: "term_ok ?t4" "ln = abs_row (ypos ?t4) ?t4" using t3 by (simp_all add: kept_def abs_row_def)
  let ?g = "\<lambda>l. if getWidth l (xpos ?t4) = 0 \<and> \<not> hasContent l (xpos ?t4) then blank_at (xpos ?t4) (curAttr t) l else l"
  obtain t5 where t5: "(if xpos ?t4 < cols t \<and> cs \<noteq> [] then upd_line ln ?g ?t4 else Some ?t4) = Some t5" "same_place ?t4 t5"
  proof (cases "xpos ?t4 < cols t \<and> cs \<noteq> []")
    case True
    have g: "line_length (?g l) = line_length l" for l by simp
    obtain s where "upd_line ln ?g ?t4 = Some s" "same_place ?t4 s" by (rule upd_here [OF t4, where f = ?g, OF g])
    then show ?thesis using that [of s] True by presburger
  qed (use that same_place_refl [OF t4(1)] in presburger)
  have "print cs t = Some (markDirty (ypos t5) t5)"
    using t2(1) t3(1) t5(1) unfolding print_def Let_def by simp
  moreover have "kept t t5" using t2(2) t3(2) t5(2) by (simp add: same_place_def kept_def)
  ultimately show ?thesis by (simp add: goes_on_def)
qed

lemma repeat_ok: "term_ok t \<Longrightarrow> goes_on t (repeatPrecedingCharacter p t)"
proof -
  assume t: "term_ok t"
  obtain l where "line_here (abs_row (ypos t) t) t = Some l"
    using line_here_ok [OF t] row_in_bounds [OF t] by blast
  then show ?thesis using print_ok [OF t] kept_refl [OF t]
    by (simp add: repeatPrecedingCharacter_def Let_def goes_on_def)
qed

subsection \<open>Cursor movement\<close>

lemma setCursor_kept: "term_ok t \<Longrightarrow> kept t (setCursor x y t)"
  by (simp add: kept_def setCursor_ok ok_frame) (simp add: setCursor_def Let_def)

lemma moveCursor_kept: "term_ok t \<Longrightarrow> kept t (moveCursor x y t)"
  unfolding moveCursor_def Let_def
  by (rule kept_trans [OF kept_restrict setCursor_kept]) (simp_all add: ok_restrict)

lemma kept_x0: "kept t s \<Longrightarrow> kept t (set_x 0 s)"
  by (simp add: kept_def ok_set_x)

lemma cursor_kept:
  assumes "term_ok t"
  shows "kept t (cursorUp p t)" "kept t (cursorDown p t)" "kept t (cursorForward p t)"
    "kept t (cursorBackward p t)" "kept t (cursorNextLine p t)" "kept t (cursorPrecedingLine p t)"
    "kept t (cursorCharAbsolute p t)" "kept t (cursorPosition p t)" "kept t (charPosAbsolute p t)"
    "kept t (hPositionRelative p t)" "kept t (linePosAbsolute p t)" "kept t (vPositionRelative p t)"
    "kept t (hVPosition p t)" "kept t (carriageReturn t)"
  using kept_refl [OF assms]
  by (simp_all add: cursor_defs carriageReturn_def Let_def setCursor_kept moveCursor_kept kept_x0 assms)

lemma upd_active_size [simp]: "cols (upd_active f t) = cols t" "rows (upd_active f t) = rows t"
  by (simp_all add: upd_active_def)

lemma setScrollRegion_kept: "term_ok t \<Longrightarrow> 0 \<le> par p 0 \<Longrightarrow> kept t (setScrollRegion p t)"
  by (simp add: kept_def setScrollRegion_ok) (simp add: setScrollRegion_def Let_def setCursor_def)

lemma tab_kept:
  assumes "term_ok t"
  shows "kept t (tabClear p t)" "kept t (tabSet t)" "kept t (cursorForwardTab p t)"
    "kept t (cursorBackwardTab p t)" "kept t (tab t)"
  using tab_ok [OF assms]
  by (simp_all add: kept_def tabClear_def tabSet_def cursorForwardTab_def cursorBackwardTab_def tab_def Let_def)

lemma save_kept: "term_ok t \<Longrightarrow> kept t (saveCursor t)"
  by (simp add: kept_def saveCursor_ok) (simp add: saveCursor_def)

lemma restore_kept: "term_ok t \<Longrightarrow> kept t (restoreCursor t)"
  by (simp add: kept_def restoreCursor_frame ok_frame) (simp add: restoreCursor_def Let_def)

subsection \<open>Modes, reports and commands\<close>

lemma kept_upd [simp]:
  "kept t (s\<lparr>out := a1\<rparr>) = kept t s" "kept t (s\<lparr>precedingJoinState := a3\<rparr>) = kept t s"
  "kept t (s\<lparr>curAttr := a4\<rparr>) = kept t s" "kept t (s\<lparr>eraseAttr_internal := a4\<rparr>) = kept t s"
  "kept t (s\<lparr>insertMode := a5\<rparr>) = kept t s" "kept t (s\<lparr>dec := a6\<rparr>) = kept t s"
  "kept t (s\<lparr>isCursorHidden := a5\<rparr>) = kept t s" "kept t (s\<lparr>isCursorInitialized := a5\<rparr>) = kept t s"
  "kept t (s\<lparr>charset_now := a7\<rparr>) = kept t s" "kept t (s\<lparr>charsets := a8\<rparr>) = kept t s"
  "kept t (s\<lparr>glevel := a3\<rparr>) = kept t s" "kept t (s\<lparr>activeProtocol := a9\<rparr>) = kept t s"
  "kept t (s\<lparr>activeEncoding := b1\<rparr>) = kept t s" "kept t (s\<lparr>nextLinkId := a3\<rparr>) = kept t s"
  "kept t (s\<lparr>link_data := b2\<rparr>) = kept t s" "kept t (s\<lparr>detached := b3\<rparr>) = kept t s"
  "kept t (s\<lparr>windowTitle := b4\<rparr>) = kept t s" "kept t (s\<lparr>iconName := b4\<rparr>) = kept t s"
  "kept t (s\<lparr>windowTitleStack := b5\<rparr>) = kept t s" "kept t (s\<lparr>iconNameStack := b5\<rparr>) = kept t s"
  "kept t (s\<lparr>isUserScrolling := a5\<rparr>) = kept t s" "kept t (s\<lparr>cachedBlankLine := b6\<rparr>) = kept t s"
  by (simp_all add: kept_def)

lemma set_option_ok:
  assumes "term_ok t" "scrollback (f (options t)) = scrollback (options t)"
    "windowOptions (f (options t)) = windowOptions (options t)"
  shows "kept t (set_option n f t)"
proof -
  have "term_ok (t\<lparr>options := f (options t)\<rparr>)"
    using assms unfolding term_ok_def term_frame_def geometry_def by simp
  then show ?thesis using assms(1) by (simp add: set_option_def kept_def)
qed

lemma services_kept [simp]:
  "kept t (triggerDataEvent d u s) = kept t s" "kept t (answer d s) = kept t s" "kept t (upd_dec f s) = kept t s"
  "kept t (setgLevel g s) = kept t s" "kept t (setgCharset g c s) = kept t s" "kept t (default_charsets s) = kept t s"
  "kept t (set_activeProtocol pr s) = kept t s" "kept t (refresh_all s) = kept t s"
  "kept t (core_reset s) = kept t s" "kept t (charset_reset s) = kept t s" "kept t (handle_scroll s) = kept t s"
  "kept t (setTitle d s) = kept t s" "kept t (setIconName d s) = kept t s" "kept t (fire_colors rs s) = kept t s"
  "kept t (set_urlId k s) = kept t s" "kept t (mouse_reset s) = kept t s"
  by (simp_all add: triggerDataEvent_def answer_def upd_dec_def setgLevel_def setgCharset_def default_charsets_def
      set_activeProtocol_def refresh_all_def core_reset_def charset_reset_def setTitle_def setIconName_def
      fire_colors_def set_urlId_def mouse_reset_def Let_def)
    (simp add: kept_def)

lemma reports_kept:
  assumes "term_ok t"
  shows "kept t (requestMode p a t)" "kept t (sendDeviceAttributesPrimary p t)"
    "kept t (sendDeviceAttributesSecondary p t)" "kept t (deviceStatus p t)" "kept t (deviceStatusPrivate p t)"
    "kept t (requestStatusString e t)" "kept t (windowOptions_handler p t)"
    "kept t (charAttributes p t)" "kept t (setCursorStyle p t)" "kept t (selectProtected p t)"
    "kept t (keypadApplicationMode t)" "kept t (keypadNumericMode t)" "kept t (selectDefaultCharset t)"
    "kept t (selectCharset i c t)" "kept t (shiftOut t)" "kept t (shiftIn t)" "kept t (bell t)"
  using kept_refl [OF assms]
  by (simp_all add: requestMode_def sendDeviceAttributesPrimary_def sendDeviceAttributesSecondary_def deviceStatus_def
      deviceStatusPrivate_def requestStatusString_def windowOptions_handler_def pushTitle_def popTitle_def
      charAttributes_def setCursorStyle_def selectProtected_def keypadApplicationMode_def keypadNumericMode_def
      selectDefaultCharset_def selectCharset_def shiftOut_def shiftIn_def bell_def Let_def split: option.split)

lemma kept_fold:
  assumes "kept t s" "\<And>x s. kept t s \<Longrightarrow> kept s (f x s)"
  shows "kept t (fold f xs s)"
  using assms(1)
proof (induction xs arbitrary: s)
  case (Cons x xs)
  then show ?case using kept_trans [OF Cons.prems assms(2) [OF Cons.prems]] by simp
qed simp

lemma kept_ok: "kept t s \<Longrightarrow> term_ok s"
  by (simp add: kept_def)

lemma set_option_kept:
  assumes "term_ok t"
  shows "kept t (set_convertEol v t)" "kept t (set_cursorBlink v t)"
  unfolding set_convertEol_def set_cursorBlink_def using assms by (intro set_option_ok; simp)+

lemma ansi_modes_kept:
  assumes "term_ok t"
  shows "kept t (setMode p t)" "kept t (resetMode p t)"
  unfolding setMode_def resetMode_def for_params_def
  by (rule kept_fold [OF kept_refl [OF assms]], simp add: ansi_mode_def set_option_kept kept_refl kept_ok)+

subsection \<open>The alternate buffer and resets\<close>

lemma fill_fields [simp]:
  "cx (fillViewportRows w a b) = cx b" "cy (fillViewportRows w a b) = cy b"
  by (simp_all add: fillViewportRows_def)

lemma activate_alt_kept:
  assumes t: "term_ok t"
  shows "kept t (activateAltBuffer e t)"
proof (cases "alt_active t")
  case True
  then show ?thesis using kept_refl [OF t] by (simp add: activateAltBuffer_def)
next
  case False
  let ?a = "(fillViewportRows (cols t) e (alt_buffer t))\<lparr>cx := cx (normal_buffer t), cy := cy (normal_buffer t)\<rparr>"
  have g: "geometry t" "buf_frame (cols t) (rows t) (normal_buffer t)" "buf_idle (cols t) (rows t) (alt_buffer t)"
    using ok_frame [OF t] False by (simp_all add: term_frame_def)
  have a: "buf_frame (cols t) (rows t) ?a"
    using fill_frame [OF g(3)] g(1) by (simp add: geometry_def)
  have "active t = normal_buffer t" using False by (simp add: active_def)
  then have b: "0 \<le> cx (normal_buffer t)" "0 \<le> cy (normal_buffer t)" "cy (normal_buffer t) < rows t"
    using ok_bounds [OF t] by simp_all
  have "term_ok (t\<lparr>alt_buffer := ?a, alt_active := True\<rparr>)"
    using g(1,2) a b by (simp add: term_ok_def term_frame_def geometry_def active_def)
  then show ?thesis using False by (simp add: activateAltBuffer_def Let_def kept_def)
qed

lemma activate_normal_kept:
  assumes t: "term_ok t"
  shows "kept t (activateNormalBuffer t)"
proof (cases "alt_active t")
  case False
  then show ?thesis using kept_refl [OF t] by (simp add: activateNormalBuffer_def)
next
  case True
  have g: "geometry t" "buf_frame (cols t) (rows t) (normal_buffer t)" "buf_frame (cols t) (rows t) (alt_buffer t)"
    using ok_frame [OF t] True by (simp_all add: term_frame_def)
  have act: "active t = alt_buffer t" using True by (simp add: active_def)
  let ?c = "buffer_clear (scrollback (options t)) (tabStopWidth (options t)) (clearAllMarkers (alt_buffer t))"
  have i: "buf_idle (cols t) (rows t) ?c"
    using g(1,3) by (intro clear_idle) (simp_all add: geometry_def buf_frame_def clearAllMarkers_def)
  have "term_ok (t\<lparr>normal_buffer := (normal_buffer t)\<lparr>cx := cx (alt_buffer t), cy := cy (alt_buffer t)\<rparr>,
      alt_buffer := ?c, alt_active := False\<rparr>)"
    using g(1,2) i ok_bounds [OF t] unfolding act by (simp add: term_ok_def term_frame_def geometry_def active_def)
  then show ?thesis using True by (simp add: activateNormalBuffer_def Let_def kept_def)
qed

lemma use_alt_kept: "term_ok t \<Longrightarrow> kept t (use_alt t)"
  using activate_alt_kept [of "keep_eraseAttr t" "eraseAttrData t"] by (simp add: use_alt_def) (simp add: kept_def)

lemma use_normal_kept: "term_ok t \<Longrightarrow> kept t (use_normal r t)"
  using activate_normal_kept [of t] kept_trans [OF _ restore_kept [OF kept_ok]]
  by (auto simp: use_normal_def Let_def)

lemma no_resize: "term_ok t \<Longrightarrow> set_columns rs n t = t"
  by (simp add: set_columns_def term_ok_def term_frame_def geometry_def)

lemma setCursor_dec_kept: "term_ok t \<Longrightarrow> kept t (setCursor x y (upd_dec f t))"
  using setCursor_kept [of "upd_dec f t" x y] by (simp add: upd_dec_def kept_def)

lemma dec_modes_kept:
  assumes t: "term_ok t"
  shows "kept t (dec_set rs m t)" "kept t (dec_reset rs m t)"
  using kept_refl [OF t] save_kept [OF t] use_alt_kept [OF t] use_alt_kept [OF kept_ok [OF save_kept [OF t]]]
    kept_trans [OF save_kept [OF t]] use_normal_kept [OF t] restore_kept [OF t]
  by (simp_all add: dec_set_def dec_reset_def no_resize t set_option_kept setCursor_dec_kept)

lemma private_modes_kept:
  assumes "term_ok t"
  shows "kept t (setModePrivate rs p t)" "kept t (resetModePrivate rs p t)"
  unfolding setModePrivate_def resetModePrivate_def for_params_def
  by (rule kept_fold [OF kept_refl [OF assms]], simp add: dec_modes_kept kept_ok)+

lemma softReset_kept:
  assumes t: "term_ok t"
  shows "kept t (softReset p t)"
proof -
  define t2 where "t2 = upd_active (\<lambda>b. b\<lparr>scrollTop := 0, scrollBottom := rows t - 1\<rparr>)
      (emit On_sync_scroll_bar (t\<lparr>isCursorHidden := False\<rparr>))"
  define t3 where "t3 = charset_reset (core_reset (t2\<lparr>curAttr := default_attr\<rparr>))"
  have "term_ok t2" unfolding t2_def by (rule ok_upd_active) (use t in \<open>auto simp: buf_frame_def\<close>)
  then have "kept t t2" by (simp add: kept_def t2_def)
  then have t3: "kept t t3" by (simp add: t3_def)
  have "term_ok (upd_active (\<lambda>b. b\<lparr>savedX := 0, savedY := ybase b,
      savedAttr := (savedAttr b)\<lparr>fg := fg (curAttr t3), bg := bg (curAttr t3)\<rparr>, savedCharset := charset_now t3\<rparr>) t3)"
    (is "term_ok ?t4") by (rule ok_upd_active) (use t3 in \<open>auto simp: buf_frame_def kept_def\<close>)
  then have "kept t ?t4" using t3 by (simp add: kept_def)
  then show ?thesis unfolding softReset_def Let_def t2_def [symmetric] by (simp add: t3_def [symmetric])
qed

lemma buffers_reset_kept:
  assumes g: "geometry t"
  shows "kept t (buffers_reset t)"
proof -
  have b: "0 \<le> scrollback (options t)" "1 \<le> rows t" "rows t \<le> 4294967295" "0 \<le> cols t"
    using g by (simp_all add: geometry_def)
  have i: "buf_idle (cols t) (rows t) (new_buffer n t (options t))" for n
    unfolding new_buffer_def by (rule blank_buffer_idle [OF b(1-3)])
  have z: "cx (new_buffer n t (options t)) = 0" "cy (new_buffer n t (options t)) = 0" for n
    by (simp_all add: new_buffer_def blank_buffer_def)
  let ?s = "t\<lparr>normal_buffer := setupTabStops (tabStopWidth (options t)) None
        (fillViewportRows (cols t) default_attr (new_buffer True t (options t))),
      alt_buffer := setupTabStops (tabStopWidth (options t)) None (new_buffer False t (options t)), alt_active := False,
      detached := detached t @ markers (normal_buffer t) @ markers (alt_buffer t)\<rparr>"
  have "term_ok ?s"
    using g b i fill_frame [OF i b(4,2)] z by (simp add: term_ok_def term_frame_def active_def geometry_def)
  then have "kept t ?s" by (simp add: kept_def)
  then show ?thesis by (simp only: buffers_reset_def Let_def services_kept)
qed

lemma fullReset_kept: "term_ok t \<Longrightarrow> kept t (fullReset t)"
proof -
  assume "term_ok t"
  then have "geometry t" by (simp add: term_ok_def term_frame_def)
  then have "geometry ((emit On_request_reset (t\<lparr>precedingJoinState := 0\<rparr>))
      \<lparr>curAttr := default_attr, eraseAttr_internal := default_attr\<rparr>)"
    by (simp add: geometry_def)
  from buffers_reset_kept [OF this] show ?thesis
    unfolding fullReset_def terminal_reset_def by simp (simp add: kept_def)
qed

lemma new_link_kept:
  assumes "term_ok t"
  shows "kept t (snd (new_link i u t))"
proof -
  let ?s = "t\<lparr>nextLinkId := Suc (nextLinkId t), link_data := (nextLinkId t, i, u) # link_data t\<rparr>"
  have "kept ?s (upd_active (addMarker k l) ?s)" for k l
    unfolding upd_active_def
    using ok_lines [of ?s] frame_active [OF ok_frame, of ?s] assms frame_addMarker by (simp add: same_place_def)
  then show ?thesis by (simp add: new_link_def Let_def kept_def)
qed

lemma registerLink_kept: "term_ok t \<Longrightarrow> kept t (snd (registerLink i u t))"
  using new_link_kept [of t] same_kept [OF addLineToLink_same, of t]
  by (simp add: registerLink_def split: option.split)

lemma createHyperlink_kept:
  assumes t: "term_ok t"
  shows "kept t (createHyperlink e uri t)"
proof -
  let ?t1 = "if urlId (extended (curAttr t)) \<noteq> 0 then finishHyperlink t else t"
  have k: "kept t ?t1" using kept_refl [OF t] by (simp add: finishHyperlink_def)
  have "kept t (snd (registerLink (link_id e) uri ?t1))"
    using kept_trans [OF k registerLink_kept [OF kept_ok [OF k]]] .
  then show ?thesis unfolding createHyperlink_def Let_def by (simp only: case_prod_beta services_kept)
qed

lemma special_requests_kept: "kept t s \<Longrightarrow> kept t (special_requests cs i s)"
  by (induction cs i s rule: special_requests.induct) (simp_all split: option.split)

lemma osc_kept:
  assumes t: "term_ok t"
  shows "kept t (osc_handler n s t)"
  using kept_refl [OF t] special_requests_kept [OF kept_refl [OF t]] createHyperlink_kept [OF t]
  by (simp add: osc_handler_def setOrReportIndexedColor_def setOrReportSpecialColor_def restoreIndexedColor_def
      setHyperlink_def finishHyperlink_def Let_def)

subsection \<open>The handler tables\<close>

text \<open>The parameters that the parser passes.\<close>

definition params_given :: "params \<Rightarrow> bool" where
  "params_given p \<longleftrightarrow> 0 < length (ps p) \<and> (\<forall>v \<in> set (ps p). 0 \<le> v)"

definition fine :: "csi_handler \<Rightarrow> bool" where
  "fine h \<longleftrightarrow> (\<forall>p t. term_ok t \<longrightarrow> params_given p \<longrightarrow> goes_on t (h p t))"

lemma fine_safe: "(\<And>p t. term_ok t \<Longrightarrow> params_given p \<Longrightarrow> kept t (f p t)) \<Longrightarrow> fine (safe f)"
  by (simp add: fine_def safe_def goes_on_def)

lemma params_given_par: "params_given p \<Longrightarrow> 0 \<le> par p 0"
  by (cases "ps p") (simp_all add: params_given_def par_def)

lemma csi_cursor_fine: "(s, h) \<in> set csi_cursor \<Longrightarrow> fine h"
  unfolding csi_cursor_def
  by (auto intro!: fine_safe cursor_kept tab_kept save_kept restore_kept setScrollRegion_kept params_given_par)

lemma csi_edit_fine: "(s, h) \<in> set csi_edit \<Longrightarrow> s \<noteq> ''J'' \<Longrightarrow> s \<noteq> ''?J'' \<Longrightarrow> fine h"
  unfolding csi_edit_def
  by (auto intro!: fine_safe chars_kept region_lines_kept) (simp_all add: fine_def eraseInLine_ok columns_ok repeat_ok)

lemma csi_modes_fine: "(s, h) \<in> set (csi_modes rs) \<Longrightarrow> fine h"
  unfolding csi_modes_def
  by (auto intro!: fine_safe reports_kept ansi_modes_kept private_modes_kept softReset_kept)

lemma execute_fine: "(n, h) \<in> set execute_handlers \<Longrightarrow> term_ok t \<Longrightarrow> goes_on t (h t)"
  unfolding execute_handlers_def
  by (auto simp: goes_on_def reports_kept cursor_kept tab_kept)
    (auto simp: goes_on_def [symmetric] lineFeed_ok backspace_ok index_ok nextLine_ok)

lemma esc_fine: "(s, h) \<in> set (esc_plain @ esc_charsets) \<Longrightarrow> term_ok t \<Longrightarrow> goes_on t (h t)"
proof -
  assume "(s, h) \<in> set (esc_plain @ esc_charsets)" "term_ok t"
  then consider "(s, h) \<in> set esc_plain" | i c where "h = Some \<circ> selectCharset i c" by (auto simp: esc_charsets_def)
  then show ?thesis
  proof cases
    case 1
    then show ?thesis unfolding esc_plain_def using \<open>term_ok t\<close>
      by (auto simp: goes_on_def reports_kept save_kept restore_kept tab_kept fullReset_kept kept_refl
          screenAlignmentPattern_ok) (auto simp: goes_on_def [symmetric] index_ok nextLine_ok reverseIndex_ok)
  next
    case 2
    then show ?thesis using \<open>term_ok t\<close> by (simp add: goes_on_def reports_kept)
  qed
qed

subsection \<open>Every event\<close>

fun event_given :: "parser_event \<Rightarrow> bool" where
  "event_given (Csi i p) \<longleftrightarrow> params_given p"
| "event_given _ \<longleftrightarrow> True"

text \<open>Where a handler throws: erasing above the cursor, at the edge of a screen whose next line is missing.\<close>

fun event_throws :: "parser_event \<Rightarrow> terminal_state \<Rightarrow> bool" where
  "event_throws (Csi i p) t \<longleftrightarrow>
     (i = ident ''J'' \<or> i = ident ''?J'') \<and> par p 0 = 1 \<and> erase_above_throws (restrictCursor (cols t) t)"
| "event_throws _ t \<longleftrightarrow> False"

lemma erase_lookup:
  "map_of (csi_handlers rs) (ident ''J'') = Some (\<lambda>p. eraseInDisplay p False)"
  "map_of (csi_handlers rs) (ident ''?J'') = Some (\<lambda>p. eraseInDisplay p True)"
  by (simp_all add: csi_handlers_def csi_cursor_def csi_edit_def ident_def)

lemma csi_lookup_fine:
  assumes "map_of (csi_handlers rs) i = Some h" "i \<noteq> ident ''J''" "i \<noteq> ident ''?J''"
  shows "fine h"
proof -
  obtain s where s: "(s, h) \<in> set (csi_cursor @ csi_edit @ csi_modes rs)" "i = ident s"
    using map_of_SomeD [OF assms(1)] by (auto simp: csi_handlers_def)
  then have "s \<noteq> ''J''" "s \<noteq> ''?J''" using assms(2,3) by auto
  then show ?thesis using s(1) csi_cursor_fine csi_edit_fine csi_modes_fine by fastforce
qed

lemma goes_on_end: "goes_on t r \<Longrightarrow> goes_on t (map_option end_join r)"
  by (auto simp: goes_on_def end_join_def)

lemma dispatch_ok:
  assumes t: "term_ok t" and e: "event_given e"
  shows "if event_throws e t then dispatch_event rs e t = None else goes_on t (dispatch_event rs e t)"
proof (cases e)
  case (Print cs)
  then show ?thesis using print_ok [OF t] by simp
next
  case (Execute n)
  then show ?thesis using kept_refl [OF t] execute_fine [OF map_of_SomeD t, of n]
    by (auto simp: call_handler_def goes_on_def end_join_def split: option.split)
next
  case (Csi i p)
  show ?thesis
  proof (cases "i = ident ''J'' \<or> i = ident ''?J''")
    case True
    then show ?thesis using eraseInDisplay_ok [OF t, of p False] eraseInDisplay_ok [OF t, of p True] Csi
      by (auto simp: call_handler_def erase_lookup goes_on_end)
  next
    case False
    then show ?thesis using Csi e t csi_lookup_fine [of rs i] kept_refl [OF t] goes_on_end
      by (auto simp: call_handler_def fine_def goes_on_def end_join_def split: option.split)
  qed
next
  case (Esc i)
  have "goes_on t (h t)" if "map_of esc_handlers i = Some h" for h
    using map_of_SomeD [OF that] esc_fine [OF _ t, of _ h] by (auto simp: esc_handlers_def)
  then show ?thesis using Esc kept_refl [OF t]
    by (auto simp: call_handler_def goes_on_def end_join_def split: option.split)
next
  case (Osc n s)
  then show ?thesis using osc_kept [OF t] by (simp add: goes_on_def)
next
  case (Dcs i s p)
  then show ?thesis using reports_kept [OF t] by (simp add: goes_on_def)
next
  case String_end
  then show ?thesis using kept_refl [OF t] by (simp add: goes_on_def end_join_def)
next
  case (Parse_error c)
  then show ?thesis using kept_refl [OF t] by (simp add: goes_on_def)
qed

subsection \<open>The parser gives such events\<close>

lemma given_update: "params_given p \<Longrightarrow> 0 \<le> v \<Longrightarrow> params_given (p\<lparr>ps := (ps p)[i := v]\<rparr>)"
  by (auto simp: params_given_def dest: set_update_subset_insert [THEN subsetD])

lemma params_given_ext: "ps q = ps p \<Longrightarrow> params_given q = params_given p"
  by (simp add: params_given_def)

lemma given_addParam: "params_given q \<Longrightarrow> params_given (the (addParam 0 q))"
  using given_update [of q 0 "plen q"] by (simp add: addParam_def cap_value_def MAX_VALUE_def params_given_def Let_def)

lemma given_addSubParam: "params_given q \<Longrightarrow> params_given (the (addSubParam (-1) q))"
  by (simp add: addSubParam_def params_given_def Let_def)

lemma given_addDigit:
  assumes q: "params_given q" and d: "0 \<le> d"
  shows "params_given (addDigit d q)"
proof -
  define e where "e = plen q - 1"
  define v where "v = (if ps q ! e \<noteq> -1 then min (ps q ! e * 10 + d) MAX_VALUE else d)"
  have "params_given (q\<lparr>ps := (ps q)[e := v]\<rparr>)"
  proof (cases "e < length (ps q)")
    case True
    then have "0 \<le> ps q ! e" using q by (simp add: params_given_def)
    then have "0 \<le> v" using d by (simp add: v_def MAX_VALUE_def)
    then show ?thesis by (rule given_update [OF q])
  qed (use q in \<open>simp add: params_given_def not_less list_update_beyond\<close>)
  then show ?thesis using q unfolding addDigit_def Let_def v_def e_def by (auto simp: params_given_def)
qed

lemma given_param_code: "params_given q \<Longrightarrow> 48 \<le> n \<Longrightarrow> params_given (param_code n q)"
  by (simp add: param_code_def given_addParam given_addSubParam given_addDigit)

lemma given_param_codes: "params_given q \<Longrightarrow> \<forall>c \<in> set cs. 48 \<le> c \<Longrightarrow> params_given (fold param_code cs q)"
  by (induction cs arbitrary: q) (auto simp: given_param_code)

lemma given_reset: "params_given q \<Longrightarrow> params_given (params_reset q)"
  by (simp add: params_given_def params_reset_def)

lemma table_params: "\<forall>r \<in> set table_rows. act r = 8 \<longrightarrow> codes r c \<longrightarrow> 48 \<le> c"
  unfolding ball_table_rows by (simp add: rows_defs row_defs)

lemma transition_params: "transition s c = (8, t) \<Longrightarrow> 48 \<le> c"
  by (erule transition_cases) (use table_params in \<open>auto split: if_splits\<close>)

lemma run_action_given:
  assumes at: "transition (currentState p) n = (a, s)" and p: "params_given (p_params p)"
    and run: "\<forall>c \<in> set run. run_of a c"
  shows "params_given (p_params (fst (run_action a s n run p))) \<and> (\<forall>e \<in> set (snd (run_action a s n run p)). event_given e)"
proof (cases "a = 8")
  case True
  have "\<forall>c \<in> set (n # run). 48 \<le> c"
    using transition_params [of "currentState p" n s] at run True by (auto simp: run_of_def in_param_run_def)
  then have "params_given (fold param_code (n # run) (p_params p))" by (rule given_param_codes [OF p])
  then show ?thesis using p True by (simp add: run_action_def)
next
  case False
  then show ?thesis using p given_addParam [OF given_reset [OF p]]
    by (simp add: run_action_def Let_def clear_sequence_def osc_end_def dcs_unhook_def)
qed

lemma parse_given:
  "params_given (p_params p) \<Longrightarrow>
    params_given (p_params (fst (parse p cs))) \<and> (\<forall>e \<in> set (snd (parse p cs)). event_given e)"
proof (induction p cs rule: parse.induct)
  case (2 p n rest)
  obtain a t where at: "transition (currentState p) n = (a, t)" by fastforce
  let ?run = "takeWhile (run_of a) rest" and ?rest = "dropWhile (run_of a) rest"
  let ?r = "run_action a t n ?run p"
  have "\<forall>c \<in> set ?run. run_of a c" by (auto dest: set_takeWhileD)
  from run_action_given [OF at "2.prems" this]
  have r: "params_given (p_params (fst ?r))" "\<forall>e \<in> set (snd ?r). event_given e" by simp_all
  show ?case using "2.IH" [OF refl at [symmetric] refl prod.collapse r(1)] r(2)
    by (auto simp: parse.simps(2) at case_prod_beta)
qed simp

subsection \<open>A chunk of output\<close>

definition emulator_ok :: "emulator \<Rightarrow> bool" where
  "emulator_ok e \<longleftrightarrow> term_ok (screen_state e) \<and> params_given (p_params (parser_state e))"

text \<open>The loop over events fails exactly where it comes to an event whose handler throws.\<close>

definition fails_at :: "resizer \<Rightarrow> parser_event list \<Rightarrow> terminal_state \<Rightarrow> bool" where
  "fails_at rs evs t \<longleftrightarrow>
     (\<exists>pre ev post t'. evs = pre @ ev # post \<and> each_opt (dispatch_event rs) pre t = Some t' \<and> event_throws ev t')"

lemma fails_at_Nil: "\<not> fails_at rs [] t"
  by (simp add: fails_at_def)

lemma fails_at_Cons:
  "fails_at rs (ev # evs) t \<longleftrightarrow> event_throws ev t \<or> (\<exists>s. dispatch_event rs ev t = Some s \<and> fails_at rs evs s)"
proof
  assume "fails_at rs (ev # evs) t"
  then obtain pre e post t' where p: "ev # evs = pre @ e # post" "each_opt (dispatch_event rs) pre t = Some t'" "event_throws e t'"
    by (auto simp: fails_at_def)
  then show "event_throws ev t \<or> (\<exists>s. dispatch_event rs ev t = Some s \<and> fails_at rs evs s)"
    by (cases pre) (auto simp: fails_at_def split: option.splits)
next
  assume a: "event_throws ev t \<or> (\<exists>s. dispatch_event rs ev t = Some s \<and> fails_at rs evs s)"
  then show "fails_at rs (ev # evs) t"
  proof
    assume "event_throws ev t"
    then have "ev # evs = [] @ ev # evs \<and> each_opt (dispatch_event rs) [] t = Some t \<and> event_throws ev t" by simp
    then show ?thesis unfolding fails_at_def by blast
  next
    assume "\<exists>s. dispatch_event rs ev t = Some s \<and> fails_at rs evs s"
    then obtain s pre e post t' where "dispatch_event rs ev t = Some s" "evs = pre @ e # post"
      "each_opt (dispatch_event rs) pre s = Some t'" "event_throws e t'" by (auto simp: fails_at_def)
    then have "ev # evs = (ev # pre) @ e # post \<and> each_opt (dispatch_event rs) (ev # pre) t = Some t' \<and> event_throws e t'"
      by simp
    then show ?thesis unfolding fails_at_def by blast
  qed
qed

lemma events_ok:
  assumes "term_ok t" "\<forall>e \<in> set evs. event_given e"
  shows "if fails_at rs evs t then each_opt (dispatch_event rs) evs t = None
    else goes_on t (each_opt (dispatch_event rs) evs t)"
  using assms
proof (induction evs arbitrary: t)
  case Nil
  then show ?case by (simp add: fails_at_Nil goes_on_def kept_refl)
next
  case (Cons ev evs)
  from dispatch_ok [OF Cons.prems(1), of ev rs] Cons.prems(2)
  consider "event_throws ev t" "dispatch_event rs ev t = None"
    | s where "\<not> event_throws ev t" "dispatch_event rs ev t = Some s" "kept t s"
    by (auto simp: goes_on_def split: if_splits)
  then show ?case
  proof cases
    case 1
    then show ?thesis by (simp add: fails_at_Cons)
  next
    case 2
    then show ?thesis using Cons.IH [OF kept_ok [OF 2(3)]] Cons.prems(2) goes_on_trans [OF 2(3)]
      by (simp add: fails_at_Cons)
  qed
qed

text \<open>
  What the decoders and the parser make of pieces of output does not depend on the screen: the events, and the
  states they are in then.
\<close>

fun piece_events :: "chunk \<Rightarrow> emulator \<Rightarrow> parser_event list \<times> emulator" where
  "piece_events (Text s) e =
     (let (cs, st) = str_decode (utf16_state e) s; (p, evs) = parse (parser_state e) cs
      in (evs, e\<lparr>utf16_state := st, parser_state := p\<rparr>))"
| "piece_events (Bytes b) e =
     (let (cs, st) = u8_decode (utf8_state e) b; (p, evs) = parse (parser_state e) cs
      in (evs, e\<lparr>utf8_state := st, parser_state := p\<rparr>))"

fun stream_events :: "chunk list \<Rightarrow> emulator \<Rightarrow> parser_event list \<times> emulator" where
  "stream_events [] e = ([], e)"
| "stream_events (c # cs) e =
     (let (evs, e1) = piece_events c e; (evs2, e2) = stream_events cs e1 in (evs @ evs2, e2))"

lemma state_commute: "e\<lparr>screen_state := t, parser_state := p\<rparr> = e\<lparr>parser_state := p, screen_state := (t :: terminal_state)\<rparr>"
  by (cases e) simp

lemma piece_screen: "piece_events c (e\<lparr>screen_state := t\<rparr>) = (fst (piece_events c e), (snd (piece_events c e))\<lparr>screen_state := t\<rparr>)"
  by (cases c) (simp_all add: case_prod_beta Let_def)

lemma piece_screen_state [simp]: "screen_state (snd (piece_events c e)) = screen_state e"
  by (cases c) (simp_all add: case_prod_beta Let_def)

lemma decode_run_events:
  "decode_run rs c e = map_option (\<lambda>t. (snd (piece_events c e))\<lparr>screen_state := t\<rparr>)
     (each_opt (dispatch_event rs) (fst (piece_events c e)) (screen_state e))"
  by (cases c) (simp_all add: run_parser_def case_prod_beta Let_def comp_def state_commute)

lemma each_opt_append: "each_opt f (xs @ ys) s = Option.bind (each_opt f xs s) (each_opt f ys)"
  by (induction xs arbitrary: s) (auto split: option.split)

lemma stream_screen:
  "stream_events cs (e\<lparr>screen_state := t\<rparr>) = (fst (stream_events cs e), (snd (stream_events cs e))\<lparr>screen_state := t\<rparr>)"
  by (induction cs arbitrary: e) (simp_all add: case_prod_beta Let_def piece_screen)

lemma decode_runs_events:
  "each_opt (decode_run rs) cs e = map_option (\<lambda>t. (snd (stream_events cs e))\<lparr>screen_state := t\<rparr>)
     (each_opt (dispatch_event rs) (fst (stream_events cs e)) (screen_state e))"
proof (induction cs arbitrary: e)
  case Nil
  then show ?case by simp
next
  case (Cons c cs)
  show ?case
  proof (cases "each_opt (dispatch_event rs) (fst (piece_events c e)) (screen_state e)")
    case None
    then show ?thesis by (simp add: decode_run_events each_opt_append case_prod_beta Let_def)
  next
    case (Some t)
    then show ?thesis using Cons.IH [of "(snd (piece_events c e))\<lparr>screen_state := t\<rparr>"]
      by (simp add: decode_run_events each_opt_append case_prod_beta Let_def stream_screen)
  qed
qed

lemma piece_given:
  assumes "params_given (p_params (parser_state e))"
  shows "\<forall>ev \<in> set (fst (piece_events c e)). event_given ev" "params_given (p_params (parser_state (snd (piece_events c e))))"
  using parse_given [OF assms] by (cases c; simp add: case_prod_beta Let_def)+

lemma stream_given:
  "params_given (p_params (parser_state e)) \<Longrightarrow>
    (\<forall>ev \<in> set (fst (stream_events cs e)). event_given ev) \<and> params_given (p_params (parser_state (snd (stream_events cs e))))"
proof (induction cs arbitrary: e)
  case (Cons c cs)
  show ?case using Cons.IH [OF piece_given(2) [OF Cons.prems, of c]] piece_given(1) [OF Cons.prems, of c]
    by (auto simp: case_prod_beta Let_def)
qed simp

lemma report_dirty_kept [simp]: "kept t (report_dirty s) = kept t s"
  by (simp add: report_dirty_def Let_def)

text \<open>The events of a chunk, and what becomes of it.\<close>

definition chunk_events :: "chunk \<Rightarrow> emulator \<Rightarrow> parser_event list" where
  "chunk_events c e = fst (stream_events (chunk_pieces c) e)"

lemma parse_chunk_ok:
  assumes e: "emulator_ok e"
  shows "if fails_at rs (chunk_events c e) (clearRange (screen_state e)) then parse_chunk rs c e = None
    else (\<exists>e'. parse_chunk rs c e = Some e' \<and> emulator_ok e' \<and> kept (screen_state e) (screen_state e'))"
proof -
  let ?t = "clearRange (screen_state e)"
  have k: "kept (screen_state e) ?t" using e by (simp add: clearRange_def emulator_ok_def kept_def)
  have g: "\<forall>ev \<in> set (chunk_events c e). event_given ev"
    "params_given (p_params (parser_state (snd (stream_events (chunk_pieces c) e))))"
    using stream_given [of e "chunk_pieces c"] e by (simp_all add: emulator_ok_def chunk_events_def)
  have run: "each_opt (decode_run rs) (chunk_pieces c) (e\<lparr>screen_state := ?t\<rparr>)
      = map_option (\<lambda>t. (snd (stream_events (chunk_pieces c) e))\<lparr>screen_state := t\<rparr>)
          (each_opt (dispatch_event rs) (chunk_events c e) ?t)"
    by (simp add: decode_runs_events stream_screen chunk_events_def comp_def)
  show ?thesis
  proof (cases "fails_at rs (chunk_events c e) ?t")
    case True
    then show ?thesis using events_ok [OF kept_ok [OF k] g(1), of rs] run by (simp add: parse_chunk_def Let_def)
  next
    case False
    then obtain t' where t': "each_opt (dispatch_event rs) (chunk_events c e) ?t = Some t'" "kept ?t t'"
      using events_ok [OF kept_ok [OF k] g(1), of rs] by (auto simp: goes_on_def)
    have "kept (screen_state e) t'" using kept_trans [OF k t'(2)] .
    then show ?thesis using run t'(1) False g(2)
      by (simp add: parse_chunk_def Let_def emulator_ok_def kept_ok)
  qed
qed

subsection \<open>A new terminal\<close>

lemma new_emulator_ok:
  assumes "0 \<le> scrollback opts" "''setWinLines'' \<notin> set (windowOptions opts)" "h \<le> 4294967295"
  shows "emulator_ok (new_emulator opts w h)"
proof -
  let ?t = "new_term opts w h"
  let ?s = "\<lparr>cols = max w 2, rows = max h 1, isUserScrolling = False, cachedBlankLine = None\<rparr> :: screen"
  have g: "geometry ?t" using assms by (simp add: geometry_def new_term_def Let_def)
  have i: "buf_idle (max w 2) (max h 1) (new_buffer n ?s opts)" for n
    unfolding new_buffer_def using blank_buffer_idle [of "scrollback opts" "max h 1" "max w 2" n] assms by simp
  have z: "cx (new_buffer n ?s opts) = 0" "cy (new_buffer n ?s opts) = 0" for n
    by (simp_all add: new_buffer_def blank_buffer_def)
  have f: "buf_frame (max w 2) (max h 1) (fillViewportRows (max w 2) default_attr (new_buffer True ?s opts))"
    by (rule fill_frame [OF i]) simp_all
  have "term_ok ?t"
    using g f i z unfolding term_ok_def term_frame_def active_def by (simp add: new_term_def Let_def)
  moreover have "params_given zero_params"
    unfolding zero_params_def
    by (rule given_addParam) (simp add: default_params_def new_params_def params_given_def)
  ultimately show ?thesis by (simp add: emulator_ok_def new_emulator_def init_parser_def)
qed

lemma chunks_keep:
  assumes "emulator_ok e" "each_opt (parse_chunk rs) cs e = Some e'"
  shows "emulator_ok e' \<and> kept (screen_state e) (screen_state e')"
  using assms
proof (induction cs arbitrary: e)
  case Nil
  then show ?case by (simp add: emulator_ok_def kept_refl)
next
  case (Cons c cs)
  then obtain e1 where e1: "parse_chunk rs c e = Some e1" "each_opt (parse_chunk rs) cs e1 = Some e'"
    by (auto split: option.splits)
  then have k: "emulator_ok e1" "kept (screen_state e) (screen_state e1)"
    using parse_chunk_ok [OF Cons.prems(1), of rs c] by (auto split: if_splits)
  then show ?case using Cons.IH [OF k(1) e1(2)] kept_trans [OF k(2)] by blast
qed

end
