(* ===== verification/Xterm_Write.thy ===== *)
theory Xterm_Write
  imports Xterm_Handler
begin

text \<open>
  The queue of the terminal's output, \<open>WriteBuffer\<close> (\<open>gn\<close>): \<open>Terminal.write\<close> puts a chunk in the queue, a timer
  takes chunks out and hands them to \<open>InputHandler.parse\<close> until 12 ms are over, and sets the next timer.

  The action is an argument: it gives the new state and whether it threw. (It never returns a promise: no
  asynchronous handler is registered.) A callback is a number that is noted when it is called. How many chunks
  fit in 12 ms is an argument of \<open>innerWrite\<close>: one, and so many more. An exception ends the code that is
  running; the value of a step says whether there was one.
\<close>

record 's write_buffer =
  queue :: "chunk list"
  callbacks :: "nat option list"
  pendingData :: int
  bufferOffset :: nat
  isSyncWriting :: bool
  syncCalls :: nat
  didUserInput :: bool
  timers :: nat
  sink :: 's
  called :: "nat list"
  write_parsed :: nat

type_synonym 's action = "chunk \<Rightarrow> 's \<Rightarrow> 's \<times> bool"

definition new_write_buffer :: "'s \<Rightarrow> 's write_buffer" where
  "new_write_buffer s =
     \<lparr>queue = [], callbacks = [], pendingData = 0, bufferOffset = 0, isSyncWriting = False, syncCalls = 0,
      didUserInput = False, timers = 0, sink = s, called = [], write_parsed = 0\<rparr>"

definition size_of :: "chunk \<Rightarrow> int" where
  "size_of c = int (chunk_length c)"

definition call_back :: "nat option \<Rightarrow> 's write_buffer \<Rightarrow> 's write_buffer" where
  "call_back k w = (case k of None \<Rightarrow> w | Some n \<Rightarrow> w\<lparr>called := called w @ [n]\<rparr>)"

definition handleUserInput :: "'s write_buffer \<Rightarrow> 's write_buffer" where
  "handleUserInput w = w\<lparr>didUserInput := True\<rparr>"

definition enqueue :: "chunk \<Rightarrow> nat option \<Rightarrow> 's write_buffer \<Rightarrow> 's write_buffer" where
  "enqueue c k w =
     w\<lparr>pendingData := pendingData w + size_of c, queue := queue w @ [c], callbacks := callbacks w @ [k]\<rparr>"

definition start_timer :: "'s write_buffer \<Rightarrow> 's write_buffer" where
  "start_timer w = w\<lparr>timers := Suc (timers w)\<rparr>"

text \<open>The loop, for \<open>n\<close> chunks after the first one; whether the action threw.\<close>

definition take_chunk :: "'s action \<Rightarrow> 's write_buffer \<Rightarrow> 's write_buffer \<times> bool" where
  "take_chunk f w =
     (let c = queue w ! bufferOffset w;
          (s, threw) = f c (sink w);
          w1 = w\<lparr>sink := s\<rparr>
      in if threw then (w1, True)
         else
           (let w2 = call_back (callbacks w ! bufferOffset w) w1
            in (w2\<lparr>bufferOffset := Suc (bufferOffset w), pendingData := pendingData w - size_of c\<rparr>, False)))"

fun inner_loop :: "'s action \<Rightarrow> nat \<Rightarrow> 's write_buffer \<Rightarrow> 's write_buffer \<times> bool" where
  "inner_loop f n w =
     (if bufferOffset w < length (queue w) then
        (let (w1, threw) = take_chunk f w
         in if threw then (w1, True)
            else (case n of 0 \<Rightarrow> (w1, False) | Suc m \<Rightarrow> inner_loop f m w1))
      else (w, False))"

declare inner_loop.simps [simp del]

definition drop_done :: "'s write_buffer \<Rightarrow> 's write_buffer" where
  "drop_done w =
     (if 50 < bufferOffset w then
        w\<lparr>queue := drop (bufferOffset w) (queue w), callbacks := drop (bufferOffset w) (callbacks w), bufferOffset := 0\<rparr>
      else w)"

definition inner_end :: "'s write_buffer \<Rightarrow> 's write_buffer" where
  "inner_end w =
     (let w1 = (if bufferOffset w < length (queue w) then start_timer (drop_done w)
                else w\<lparr>queue := [], callbacks := [], pendingData := 0, bufferOffset := 0\<rparr>)
      in w1\<lparr>write_parsed := Suc (write_parsed w1)\<rparr>)"

definition innerWrite :: "'s action \<Rightarrow> nat \<Rightarrow> 's write_buffer \<Rightarrow> 's write_buffer \<times> bool" where
  "innerWrite f n w =
     (let (w1, threw) = inner_loop f n w in if threw then (w1, True) else (inner_end w1, False))"

text \<open>\<open>write(data, callback)\<close> refuses data when 50 MB wait.\<close>

definition write_chunk :: "'s action \<Rightarrow> nat \<Rightarrow> chunk \<Rightarrow> nat option \<Rightarrow> 's write_buffer \<Rightarrow> 's write_buffer \<times> bool" where
  "write_chunk f n c k w =
     (if 50000000 < pendingData w then (w, True)
      else if queue w = [] then
        (let w1 = w\<lparr>bufferOffset := 0\<rparr>
         in if didUserInput w1 then innerWrite f n (enqueue c k (w1\<lparr>didUserInput := False\<rparr>))
            else (enqueue c k (start_timer w1), False))
      else (enqueue c k w, False))"

text \<open>A timer that fires.\<close>

definition fire_timer :: "'s action \<Rightarrow> nat \<Rightarrow> 's write_buffer \<Rightarrow> 's write_buffer \<times> bool" where
  "fire_timer f n w = (if timers w = 0 then (w, False) else innerWrite f n (w\<lparr>timers := timers w - 1\<rparr>))"

text \<open>\<open>writeSync\<close>, which is deprecated and which nothing of the page calls; an empty string ends its loop.\<close>

fun sync_loop :: "'s action \<Rightarrow> chunk list \<Rightarrow> 's write_buffer \<Rightarrow> 's write_buffer \<times> bool" where
  "sync_loop f [] w = (w\<lparr>queue := []\<rparr>, False)"
| "sync_loop f (c # cs) w =
     (if c = Text [] then (w\<lparr>queue := cs\<rparr>, False)
      else
        (let (s, threw) = f c (sink w);
             w1 = w\<lparr>queue := cs, sink := s\<rparr>
         in if threw then (w1, True)
            else
              (case callbacks w1 of
                 [] \<Rightarrow> sync_loop f cs w1
               | k # ks \<Rightarrow> sync_loop f cs (call_back k (w1\<lparr>callbacks := ks\<rparr>)))))"

definition writeSync :: "'s action \<Rightarrow> chunk \<Rightarrow> nat option \<Rightarrow> 's write_buffer \<Rightarrow> 's write_buffer \<times> bool" where
  "writeSync f c max_calls w =
     (if max_calls \<noteq> None \<and> the max_calls < syncCalls w then (w\<lparr>syncCalls := 0\<rparr>, False)
      else
        (let w1 = (enqueue c None w)\<lparr>syncCalls := Suc (syncCalls w)\<rparr>
         in if isSyncWriting w1 then (w1, False)
            else
              (let (w2, threw) = sync_loop f (queue w1) (w1\<lparr>isSyncWriting := True\<rparr>)
               in if threw then (w2, True)
                  else (w2\<lparr>pendingData := 0, bufferOffset := 2147483647, isSyncWriting := False, syncCalls := 0\<rparr>, False))))"

subsection \<open>What happens to the queue\<close>

datatype write_event = Write chunk "nat option" | User_input | Timer

text \<open>The number says how many chunks fit in the time if the event runs the loop.\<close>

definition write_step :: "'s action \<Rightarrow> write_event \<times> nat \<Rightarrow> 's write_buffer \<Rightarrow> 's write_buffer \<times> bool" where
  "write_step f e w =
     (case fst e of
        Write c k \<Rightarrow> write_chunk f (snd e) c k w
      | User_input \<Rightarrow> (handleUserInput w, False)
      | Timer \<Rightarrow> fire_timer f (snd e) w)"

fun write_run :: "'s action \<Rightarrow> (write_event \<times> nat) list \<Rightarrow> 's write_buffer \<Rightarrow> 's write_buffer" where
  "write_run f [] w = w"
| "write_run f (e # es) w = write_run f es (fst (write_step f e w))"

text \<open>The chunks that still wait, and those that \<open>write\<close> took.\<close>

definition waiting :: "'s write_buffer \<Rightarrow> chunk list" where
  "waiting w = drop (bufferOffset w) (queue w)"

fun accepted :: "'s action \<Rightarrow> (write_event \<times> nat) list \<Rightarrow> 's write_buffer \<Rightarrow> chunk list" where
  "accepted f [] w = []"
| "accepted f (e # es) w =
     (case fst e of Write c k \<Rightarrow> (if 50000000 < pendingData w then [] else [c]) | _ \<Rightarrow> [])
       @ accepted f es (fst (write_step f e w))"

text \<open>An action that never throws.\<close>

definition plain :: "(chunk \<Rightarrow> 's \<Rightarrow> 's) \<Rightarrow> 's action" where
  "plain g = (\<lambda>c s. (g c s, False))"

text \<open>
  The queue is sound when exactly one timer runs while chunks wait, the count of what waits is right, and there
  are as many callbacks as chunks.
\<close>

definition queue_ok :: "'s write_buffer \<Rightarrow> bool" where
  "queue_ok w \<longleftrightarrow>
     length (callbacks w) = length (queue w) \<and> pendingData w = sum_list (map size_of (waiting w)) \<and>
     (if queue w = [] then timers w = 0 else bufferOffset w < length (queue w) \<and> timers w = 1)"

text \<open>In the loop no timer runs.\<close>

definition loop_ok :: "'s write_buffer \<Rightarrow> bool" where
  "loop_ok w \<longleftrightarrow>
     length (callbacks w) = length (queue w) \<and> pendingData w = sum_list (map size_of (waiting w)) \<and>
     bufferOffset w \<le> length (queue w) \<and> timers w = 0"

lemma call_back_fields [simp]:
  "queue (call_back k w) = queue w" "callbacks (call_back k w) = callbacks w" "pendingData (call_back k w) = pendingData w"
  "bufferOffset (call_back k w) = bufferOffset w" "timers (call_back k w) = timers w" "sink (call_back k w) = sink w"
  by (simp_all add: call_back_def split: option.split)

lemma enqueue_fields [simp]:
  "queue (enqueue c k w) = queue w @ [c]" "callbacks (enqueue c k w) = callbacks w @ [k]"
  "pendingData (enqueue c k w) = pendingData w + size_of c" "bufferOffset (enqueue c k w) = bufferOffset w"
  "timers (enqueue c k w) = timers w" "sink (enqueue c k w) = sink w"
  by (simp_all add: enqueue_def)

lemma take_chunk_step:
  assumes "loop_ok w" "bufferOffset w < length (queue w)" "take_chunk f w = (w1, False)"
  obtains c where "waiting w = c # waiting w1" "f c (sink w) = (sink w1, False)" "loop_ok w1" "queue w1 = queue w"
proof -
  let ?c = "queue w ! bufferOffset w"
  have w: "waiting w = ?c # drop (Suc (bufferOffset w)) (queue w)"
    using assms(2) by (simp add: waiting_def Cons_nth_drop_Suc)
  obtain s where s: "f ?c (sink w) = (s, False)"
    using assms(3) by (cases "f ?c (sink w)") (auto simp: take_chunk_def Let_def split: if_splits)
  then have w1: "w1 = (call_back (callbacks w ! bufferOffset w) (w\<lparr>sink := s\<rparr>))
      \<lparr>bufferOffset := Suc (bufferOffset w), pendingData := pendingData w - size_of ?c\<rparr>"
    using assms(3) by (simp add: take_chunk_def Let_def)
  show ?thesis using that [of ?c] w s assms(1,2) by (simp add: w1 loop_ok_def waiting_def)
qed

lemma take_chunk_throws:
  assumes "take_chunk f w = (w1, True)"
  shows "queue w1 = queue w \<and> timers w1 = timers w"
proof (cases "f (queue w ! bufferOffset w) (sink w)")
  case (Pair s t)
  then show ?thesis using assms by (auto simp: take_chunk_def Let_def split: if_splits)
qed

lemma inner_loop_ok:
  assumes "loop_ok w" "inner_loop (plain g) n w = (w1, b)"
  shows "\<not> b \<and> loop_ok w1 \<and> queue w1 = queue w \<and>
    (\<exists>ready. waiting w = ready @ waiting w1 \<and> sink w1 = fold g ready (sink w) \<and> (waiting w \<noteq> [] \<longrightarrow> ready \<noteq> []))"
  using assms
proof (induction "plain g" n w arbitrary: w1 b rule: inner_loop.induct)
  case (1 n w)
  show ?case
  proof (cases "bufferOffset w < length (queue w)")
    case False
    then show ?thesis using "1.prems" by (simp add: inner_loop.simps [of _ n] waiting_def)
  next
    case True
    obtain w2 t where t: "take_chunk (plain g) w = (w2, t)" by fastforce
    then have "\<not> t" by (auto simp: take_chunk_def plain_def Let_def)
    then have w2: "take_chunk (plain g) w = (w2, False)" using t by simp
    obtain c where c: "waiting w = c # waiting w2" "plain g c (sink w) = (sink w2, False)" "loop_ok w2" "queue w2 = queue w"
      using take_chunk_step [OF "1.prems"(1) True w2] .
    then have s: "sink w2 = g c (sink w)" by (simp add: plain_def)
    show ?thesis
    proof (cases n)
      case 0
      then have "w1 = w2 \<and> \<not> b" using "1.prems"(2) True w2 by (simp add: inner_loop.simps [of _ 0])
      then show ?thesis using c s by (auto intro!: exI [of _ "[c]"])
    next
      case (Suc m)
      then have e: "inner_loop (plain g) m w2 = (w1, b)" using "1.prems"(2) True w2 by (simp add: inner_loop.simps [of _ "Suc m"])
      have "\<not> b \<and> loop_ok w1 \<and> queue w1 = queue w2 \<and>
        (\<exists>ready. waiting w2 = ready @ waiting w1 \<and> sink w1 = fold g ready (sink w2) \<and> (waiting w2 \<noteq> [] \<longrightarrow> ready \<noteq> []))"
        using "1.hyps" [OF True refl w2 [symmetric] _ Suc] e c(3) by simp
      then obtain ready where r: "\<not> b" "loop_ok w1" "queue w1 = queue w2" "waiting w2 = ready @ waiting w1"
        "sink w1 = fold g ready (sink w2)" by blast
      then show ?thesis using c s by (auto intro!: exI [of _ "c # ready"])
    qed
  qed
qed

lemma inner_end_fields:
  assumes "loop_ok w"
  shows "queue_ok (inner_end w)" "waiting (inner_end w) = waiting w" "sink (inner_end w) = sink w"
  using assms by (auto simp: inner_end_def drop_done_def start_timer_def queue_ok_def loop_ok_def waiting_def Let_def)

text \<open>What an event does to what waits and to the state behind the queue.\<close>

definition delivers :: "(chunk \<Rightarrow> 's \<Rightarrow> 's) \<Rightarrow> chunk list \<Rightarrow> 's write_buffer \<Rightarrow> 's write_buffer \<Rightarrow> bool" where
  "delivers g new w w' \<longleftrightarrow> (\<exists>ready. waiting w @ new = ready @ waiting w' \<and> sink w' = fold g ready (sink w))"

lemma innerWrite_ok:
  assumes "loop_ok w"
  shows "queue_ok (fst (innerWrite (plain g) n w)) \<and> delivers g [] w (fst (innerWrite (plain g) n w)) \<and>
    (waiting w \<noteq> [] \<longrightarrow> length (waiting (fst (innerWrite (plain g) n w))) < length (waiting w))"
proof -
  obtain w1 b where e: "inner_loop (plain g) n w = (w1, b)" by fastforce
  then obtain ready where r: "\<not> b" "loop_ok w1" "waiting w = ready @ waiting w1" "sink w1 = fold g ready (sink w)"
    "waiting w \<noteq> [] \<longrightarrow> ready \<noteq> []"
    using inner_loop_ok [OF assms e] by blast
  then show ?thesis using e inner_end_fields [OF r(2)] by (auto simp: innerWrite_def delivers_def)
qed

lemma step_ok:
  assumes "queue_ok w"
  shows "queue_ok (fst (write_step (plain g) e w)) \<and> delivers g (accepted (plain g) [e] w) w (fst (write_step (plain g) e w))"
proof (cases "fst e")
  case (Write c k)
  show ?thesis
  proof (cases "50000000 < pendingData w \<or> queue w \<noteq> []")
    case True
    then show ?thesis using assms Write
      by (auto simp: write_step_def write_chunk_def queue_ok_def delivers_def waiting_def)
  next
    case False
    let ?w = "enqueue c k (w\<lparr>bufferOffset := 0, didUserInput := False\<rparr>)"
    have l: "loop_ok ?w" "waiting ?w = [c]" "sink ?w = sink w" "waiting w = []"
      using assms False by (auto simp: loop_ok_def queue_ok_def waiting_def)
    show ?thesis
    proof (cases "didUserInput w")
      case True
      let ?r = "fst (innerWrite (plain g) (snd e) ?w)"
      have "delivers g [] ?w ?r" "queue_ok ?r" using innerWrite_ok [OF l(1), of g "snd e"] by simp_all
      then have "delivers g [c] w ?r" "queue_ok ?r" using l(2-4) unfolding delivers_def by simp_all
      then show ?thesis using True False Write by (simp add: write_step_def write_chunk_def Let_def)
    next
      case no: False
      then show ?thesis using assms False Write
        by (auto simp: write_step_def write_chunk_def Let_def delivers_def queue_ok_def waiting_def start_timer_def)
    qed
  qed
next
  case User_input
  then show ?thesis using assms
    by (simp add: write_step_def handleUserInput_def queue_ok_def delivers_def waiting_def)
next
  case Timer
  show ?thesis
  proof (cases "timers w = 0")
    case True
    then show ?thesis using assms Timer by (simp add: write_step_def fire_timer_def delivers_def)
  next
    case False
    then have "loop_ok (w\<lparr>timers := timers w - 1\<rparr>)"
      using assms by (auto simp: loop_ok_def queue_ok_def waiting_def split: if_splits)
    from innerWrite_ok [OF this, of g "snd e"] show ?thesis
      using Timer False by (simp add: write_step_def fire_timer_def delivers_def waiting_def)
  qed
qed

lemma timer_takes:
  assumes "queue_ok w" "waiting w \<noteq> []"
  shows "length (waiting (fst (write_step (plain g) (Timer, n) w))) < length (waiting w)"
proof -
  have q: "timers w = 1" using assms by (auto simp: queue_ok_def waiting_def split: if_splits)
  then have "loop_ok (w\<lparr>timers := 0\<rparr>)"
    using assms by (auto simp: loop_ok_def queue_ok_def waiting_def split: if_splits)
  from innerWrite_ok [OF this, of g n] show ?thesis
    using q assms(2) by (simp add: write_step_def fire_timer_def waiting_def)
qed

lemma delivers_trans:
  "delivers g a w w1 \<Longrightarrow> delivers g b w1 w2 \<Longrightarrow> delivers g (a @ b) w w2"
proof -
  assume "delivers g a w w1" "delivers g b w1 w2"
  then obtain r s where "waiting w @ a = r @ waiting w1" "sink w1 = fold g r (sink w)"
    "waiting w1 @ b = s @ waiting w2" "sink w2 = fold g s (sink w1)" by (auto simp: delivers_def)
  then have "waiting w @ (a @ b) = (r @ s) @ waiting w2 \<and> sink w2 = fold g (r @ s) (sink w)"
    by (metis append.assoc fold_append comp_apply)
  then show ?thesis unfolding delivers_def by blast
qed

lemma run_ok:
  "queue_ok w \<Longrightarrow> queue_ok (write_run (plain g) es w) \<and> delivers g (accepted (plain g) es w) w (write_run (plain g) es w)"
proof (induction es arbitrary: w)
  case Nil
  then show ?case by (simp add: delivers_def)
next
  case (Cons e es)
  let ?w = "fst (write_step (plain g) e w)"
  have s: "queue_ok ?w" "delivers g (accepted (plain g) [e] w) w ?w" using step_ok [OF Cons.prems, of g e] by simp_all
  then show ?case using Cons.IH [OF s(1)] delivers_trans [OF s(2)] by simp
qed

lemma timers_empty:
  assumes "queue_ok w" "length (waiting w) \<le> n"
  shows "waiting (write_run (plain g) (replicate n (Timer, k)) w) = []"
  using assms
proof (induction n arbitrary: w)
  case (Suc n)
  let ?w = "fst (write_step (plain g) (Timer, k) w)"
  have q: "queue_ok ?w" "delivers g [] w ?w" using step_ok [OF Suc.prems(1), of g "(Timer, k)"] by simp_all
  have "length (waiting ?w) \<le> n"
  proof (cases "waiting w = []")
    case True
    then show ?thesis using q(2) by (auto simp: delivers_def)
  next
    case False
    then show ?thesis using timer_takes [OF Suc.prems(1) False, of g k] Suc.prems(2) by simp
  qed
  then show ?case using Suc.IH [OF q(1)] by simp
qed simp

lemma accepted_timers: "accepted f (replicate n (Timer, k)) w = []"
  by (induction n arbitrary: w) simp_all

lemma inner_loop_throws:
  assumes "loop_ok w" "inner_loop f n w = (w1, True)"
  shows "queue w1 = queue w \<and> queue w \<noteq> [] \<and> timers w1 = 0"
  using assms
proof (induction f n w arbitrary: w1 rule: inner_loop.induct)
  case (1 f n w)
  then have lt: "bufferOffset w < length (queue w)" by (auto simp: inner_loop.simps [of f n w] split: if_splits)
  obtain w2 t where t: "take_chunk f w = (w2, t)" by fastforce
  show ?case
  proof (cases t)
    case True
    then show ?thesis using "1.prems" lt t take_chunk_throws [of f w w2]
      by (auto simp: inner_loop.simps [of f n w] loop_ok_def)
  next
    case False
    then have t': "take_chunk f w = (w2, False)" using t by simp
    obtain c where w2: "loop_ok w2" "queue w2 = queue w" using take_chunk_step [OF "1.prems"(1) lt t'] by blast
    obtain m where m: "n = Suc m" "inner_loop f m w2 = (w1, True)"
      using "1.prems"(2) lt t' by (cases n) (auto simp: inner_loop.simps [of f _ w])
    show ?thesis using "1.IH" [OF lt refl t' [symmetric] _ m(1) w2(1) m(2)] w2(2) by simp
  qed
qed

text \<open>Chunks wait and no timer runs.\<close>

definition stuck :: "'s write_buffer \<Rightarrow> bool" where
  "stuck w \<longleftrightarrow> queue w \<noteq> [] \<and> timers w = 0"

lemma innerWrite_throws: "loop_ok u \<Longrightarrow> innerWrite f n u = (v, True) \<Longrightarrow> stuck v"
  using inner_loop_throws [of u f n] by (auto simp: innerWrite_def stuck_def split: prod.splits if_splits)

lemma step_throws_stuck:
  assumes w: "queue_ok w" "pendingData w \<le> 50000000" and e: "write_step f e w = (w', True)"
  shows "stuck w'"
proof -
  show ?thesis
  proof (cases "fst e")
    case (Write c k)
    then have q: "queue w = []" "innerWrite f (snd e) (enqueue c k (w\<lparr>bufferOffset := 0, didUserInput := False\<rparr>)) = (w', True)"
      using e w(2) by (auto simp: write_step_def write_chunk_def Let_def split: if_splits)
    have "loop_ok (enqueue c k (w\<lparr>bufferOffset := 0, didUserInput := False\<rparr>))"
      using w(1) q(1) by (auto simp: loop_ok_def queue_ok_def waiting_def)
    then show ?thesis using innerWrite_throws q(2) by blast
  next
    case User_input
    then show ?thesis using e by (simp add: write_step_def)
  next
    case Timer
    then have q: "timers w \<noteq> 0" "innerWrite f (snd e) (w\<lparr>timers := timers w - 1\<rparr>) = (w', True)"
      using e by (auto simp: write_step_def fire_timer_def split: if_splits)
    have "loop_ok (w\<lparr>timers := timers w - 1\<rparr>)"
      using w(1) q(1) by (auto simp: loop_ok_def queue_ok_def waiting_def split: if_splits)
    then show ?thesis using innerWrite_throws q(2) by blast
  qed
qed

lemma inner_loop_keeps: "loop_ok w \<Longrightarrow> inner_loop f n w = (w1, False) \<Longrightarrow> loop_ok w1"
proof (induction f n w arbitrary: w1 rule: inner_loop.induct)
  case (1 f n w)
  show ?case
  proof (cases "bufferOffset w < length (queue w)")
    case False
    then show ?thesis using "1.prems" by (simp add: inner_loop.simps [of f n w])
  next
    case True
    obtain w2 t where t: "take_chunk f w = (w2, t)" by fastforce
    have "\<not> t" using "1.prems"(2) True t by (auto simp: inner_loop.simps [of f n w])
    then have t': "take_chunk f w = (w2, False)" using t by simp
    obtain c where w2: "loop_ok w2" using take_chunk_step [OF "1.prems"(1) True t'] by blast
    show ?thesis
    proof (cases n)
      case 0
      then show ?thesis using "1.prems"(2) True t' w2 by (simp add: inner_loop.simps [of f _ w])
    next
      case (Suc m)
      then have "inner_loop f m w2 = (w1, False)" using "1.prems"(2) True t' by (simp add: inner_loop.simps [of f _ w])
      then show ?thesis using "1.IH" [OF True refl t' [symmetric] _ Suc w2] by simp
    qed
  qed
qed

lemma innerWrite_keeps:
  assumes "loop_ok w" "innerWrite f n w = (w1, False)"
  shows "queue_ok w1"
proof -
  obtain w2 b where e: "inner_loop f n w = (w2, b)" by fastforce
  then have "\<not> b" "w1 = inner_end w2" using assms(2) by (auto simp: innerWrite_def split: if_splits)
  then show ?thesis using inner_end_fields(1) [OF inner_loop_keeps [OF assms(1)]] e by simp
qed

lemma step_keeps:
  assumes w: "queue_ok w" and e: "write_step f e w = (w', False)"
  shows "queue_ok w'"
proof (cases "fst e")
  case (Write c k)
  show ?thesis
  proof (cases "50000000 < pendingData w \<or> queue w \<noteq> [] \<or> \<not> didUserInput w")
    case True
    then show ?thesis using w e Write
      by (auto simp: write_step_def write_chunk_def queue_ok_def waiting_def start_timer_def Let_def split: if_splits)
  next
    case False
    then have "innerWrite f (snd e) (enqueue c k (w\<lparr>bufferOffset := 0, didUserInput := False\<rparr>)) = (w', False)"
      using e Write by (simp add: write_step_def write_chunk_def Let_def)
    moreover have "loop_ok (enqueue c k (w\<lparr>bufferOffset := 0, didUserInput := False\<rparr>))"
      using w False by (auto simp: loop_ok_def queue_ok_def waiting_def)
    ultimately show ?thesis by (rule innerWrite_keeps [rotated])
  qed
next
  case User_input
  then show ?thesis using w e by (auto simp: write_step_def handleUserInput_def queue_ok_def waiting_def)
next
  case Timer
  show ?thesis
  proof (cases "timers w = 0")
    case True
    then show ?thesis using w e Timer by (simp add: write_step_def fire_timer_def)
  next
    case False
    then have "innerWrite f (snd e) (w\<lparr>timers := timers w - 1\<rparr>) = (w', False)"
      using e Timer by (auto simp: write_step_def fire_timer_def)
    moreover have "loop_ok (w\<lparr>timers := timers w - 1\<rparr>)"
      using w False by (auto simp: loop_ok_def queue_ok_def waiting_def split: if_splits)
    ultimately show ?thesis by (rule innerWrite_keeps [rotated])
  qed
qed

lemma stuck_step: "stuck w \<Longrightarrow> stuck (fst (write_step f e w)) \<and> sink (fst (write_step f e w)) = sink w"
  by (cases "fst e") (auto simp: write_step_def write_chunk_def fire_timer_def handleUserInput_def stuck_def Let_def)

lemma stuck_run: "stuck w \<Longrightarrow> stuck (write_run f es w) \<and> sink (write_run f es w) = sink w"
proof (induction es arbitrary: w)
  case (Cons e es)
  then show ?case using stuck_step [OF Cons.prems, of f e] by simp
qed simp

text \<open>A write that is refused changes nothing; any other step that throws leaves the queue stuck.\<close>

lemma step_cases:
  assumes "queue_ok w" "write_step f e w = (w', b)"
  shows "queue_ok w' \<or> stuck w'"
proof (cases b)
  case False
  then show ?thesis using step_keeps [of w f e w'] assms by simp
next
  case b: True
  show ?thesis
  proof (cases "pendingData w \<le> 50000000")
    case True
    then show ?thesis using step_throws_stuck [of w f e w'] assms b by simp
  next
    case False
    show ?thesis
    proof (cases "fst e")
      case (Write c k)
      then show ?thesis using False assms by (auto simp: write_step_def write_chunk_def)
    next
      case User_input
      then show ?thesis using assms b by (simp add: write_step_def)
    next
      case Timer
      then have q: "timers w \<noteq> 0" "innerWrite f (snd e) (w\<lparr>timers := timers w - 1\<rparr>) = (w', True)"
        using assms(2) b by (auto simp: write_step_def fire_timer_def split: if_splits)
      have "loop_ok (w\<lparr>timers := timers w - 1\<rparr>)"
        using assms(1) q(1) by (auto simp: loop_ok_def queue_ok_def waiting_def split: if_splits)
      then show ?thesis using innerWrite_throws q(2) by blast
    qed
  qed
qed

lemma run_cases: "queue_ok w \<or> stuck w \<Longrightarrow> queue_ok (write_run f es w) \<or> stuck (write_run f es w)"
proof (induction es arbitrary: w)
  case (Cons e es)
  have "queue_ok (fst (write_step f e w)) \<or> stuck (fst (write_step f e w))"
    using Cons.prems step_cases [of w f e] stuck_step [of w f e] by (metis prod.collapse)
  then show ?case using Cons.IH by simp
qed simp

lemma new_queue_ok: "queue_ok (new_write_buffer s)"
  by (simp add: queue_ok_def new_write_buffer_def waiting_def)

subsection \<open>Properties\<close>

text \<open>The chunks can be handled in this order without an exception.\<close>

fun calm :: "'s action \<Rightarrow> chunk list \<Rightarrow> 's \<Rightarrow> bool" where
  "calm f [] s \<longleftrightarrow> True"
| "calm f (c # cs) s \<longleftrightarrow> \<not> snd (f c s) \<and> calm f cs (fst (f c s))"

definition handled :: "'s action \<Rightarrow> chunk \<Rightarrow> 's \<Rightarrow> 's" where
  "handled f c s = fst (f c s)"

lemma calm_append [simp]: "calm f (as @ bs) s \<longleftrightarrow> calm f as s \<and> calm f bs (fold (handled f) as s)"
  by (induction as arbitrary: s) (simp_all add: handled_def)

lemma take_chunk_calm:
  "\<not> snd (f (queue w ! bufferOffset w) (sink w)) \<Longrightarrow> take_chunk f w = take_chunk (plain (handled f)) w"
  by (simp add: take_chunk_def plain_def handled_def case_prod_beta)

text \<open>Without exceptions an action does what its results say.\<close>

lemma inner_loop_calm:
  assumes "loop_ok w" "calm f (waiting w) (sink w)"
  shows "inner_loop f n w = inner_loop (plain (handled f)) n w"
  using assms
proof (induction n arbitrary: w)
  case (Suc n)
  show ?case
  proof (cases "bufferOffset w < length (queue w)")
    case True
    then have c: "waiting w = queue w ! bufferOffset w # drop (Suc (bufferOffset w)) (queue w)"
      by (simp add: waiting_def Cons_nth_drop_Suc)
    then have t: "take_chunk f w = take_chunk (plain (handled f)) w" using Suc.prems(2) by (simp add: take_chunk_calm)
    obtain w1 where w1: "take_chunk (plain (handled f)) w = (w1, False)"
      by (simp add: take_chunk_def plain_def Let_def)
    obtain c' where "waiting w = c' # waiting w1" "plain (handled f) c' (sink w) = (sink w1, False)" "loop_ok w1"
      using take_chunk_step [OF Suc.prems(1) True w1] by blast
    then have "loop_ok w1" "calm f (waiting w1) (sink w1)" using Suc.prems(2) by (auto simp: plain_def handled_def)
    from Suc.IH [OF this] show ?thesis using t w1 by (simp add: inner_loop.simps [of _ "Suc n"])
  qed (simp add: inner_loop.simps [of _ "Suc n"])
next
  case 0
  show ?case
  proof (cases "bufferOffset w < length (queue w)")
    case True
    then have "waiting w = queue w ! bufferOffset w # drop (Suc (bufferOffset w)) (queue w)"
      by (simp add: waiting_def Cons_nth_drop_Suc)
    then show ?thesis using 0 by (simp add: take_chunk_calm inner_loop.simps [of _ 0] case_prod_beta)
  qed (simp add: inner_loop.simps [of _ 0])
qed

lemma innerWrite_calm: "loop_ok w \<Longrightarrow> calm f (waiting w) (sink w) \<Longrightarrow> innerWrite f n w = innerWrite (plain (handled f)) n w"
  by (simp add: innerWrite_def inner_loop_calm)

lemma step_calm:
  assumes "queue_ok w" "calm f (waiting w @ accepted f [e] w) (sink w)"
  shows "write_step f e w = write_step (plain (handled f)) e w"
proof (cases "fst e")
  case (Write c k)
  show ?thesis
  proof (cases "50000000 < pendingData w \<or> queue w \<noteq> []")
    case False
    let ?w = "enqueue c k (w\<lparr>bufferOffset := 0, didUserInput := False\<rparr>)"
    have "loop_ok ?w" "waiting ?w = [c]" "sink ?w = sink w" "waiting w = []"
      using assms(1) False by (auto simp: loop_ok_def queue_ok_def waiting_def)
    then have "innerWrite f (snd e) ?w = innerWrite (plain (handled f)) (snd e) ?w"
      using assms(2) Write False by (intro innerWrite_calm) auto
    then show ?thesis using Write by (simp add: write_step_def write_chunk_def Let_def)
  qed (auto simp: Write write_step_def write_chunk_def)
next
  case Timer
  show ?thesis
  proof (cases "timers w = 0")
    case False
    let ?w = "w\<lparr>timers := timers w - 1\<rparr>"
    have "loop_ok ?w" "waiting ?w = waiting w" "sink ?w = sink w"
      using assms(1) False by (auto simp: loop_ok_def queue_ok_def waiting_def split: if_splits)
    then have "innerWrite f (snd e) ?w = innerWrite (plain (handled f)) (snd e) ?w"
      using assms(2) by (intro innerWrite_calm) auto
    then show ?thesis using Timer by (simp add: write_step_def fire_timer_def)
  qed (simp add: Timer write_step_def fire_timer_def)
qed (simp add: write_step_def)

lemma run_calm:
  assumes "queue_ok w" "calm f (waiting w @ accepted f es w) (sink w)"
  shows "write_run f es w = write_run (plain (handled f)) es w \<and> accepted f es w = accepted (plain (handled f)) es w"
  using assms
proof (induction es arbitrary: w)
  case (Cons e es)
  let ?g = "plain (handled f)" and ?w = "fst (write_step f e w)"
  have acc: "accepted f (e # es) w = accepted f [e] w @ accepted f es ?w" "accepted f [e] w = accepted ?g [e] w" by simp_all
  have s: "write_step f e w = write_step ?g e w" using step_calm [OF Cons.prems(1), of f e] Cons.prems(2) acc(1) by simp
  then have q: "queue_ok ?w" "delivers (handled f) (accepted ?g [e] w) w ?w" using step_ok [OF Cons.prems(1)] by metis+
  then obtain r where "waiting w @ accepted ?g [e] w = r @ waiting ?w" "sink ?w = fold (handled f) r (sink w)"
    by (auto simp: delivers_def)
  then have "calm f (waiting ?w @ accepted f es ?w) (sink ?w)"
    using Cons.prems(2) unfolding acc append_assoc [symmetric] by simp
  from Cons.IH [OF q(1) this] show ?case using s by simp
qed simp

text \<open>
  C13: Output written to the terminal is handed on in the order of the writes, each chunk once, whatever the
  times at which writes, keystrokes and timers come and however long the handler takes, as long as the handling of
  no chunk throws: of the chunks taken so far a first part has been handed on and the rest waits, with exactly one
  timer running, and when no more is written the timers hand on all of it.
\<close>

theorem writes_in_order:
  assumes "calm f (accepted f es (new_write_buffer s)) s"
  shows "let w = write_run f es (new_write_buffer s); cs = accepted f es (new_write_buffer s)
    in (\<exists>ready. cs = ready @ waiting w \<and> sink w = fold (handled f) ready s) \<and> timers w = (if waiting w = [] then 0 else 1)
      \<and> sink (write_run f (replicate (length (waiting w)) (Timer, n)) w) = fold (handled f) cs s"
proof -
  let ?g = "handled f"
  define w where "w = write_run f es (new_write_buffer s)"
  define cs where "cs = accepted f es (new_write_buffer s)"
  have new: "waiting (new_write_buffer s) = []" "sink (new_write_buffer s) = s"
    by (simp_all add: waiting_def new_write_buffer_def)
  have run: "w = write_run (plain ?g) es (new_write_buffer s)" "cs = accepted (plain ?g) es (new_write_buffer s)"
    using run_calm [OF new_queue_ok, of f s es] assms new by (simp_all add: w_def cs_def)
  have q: "queue_ok w" "delivers ?g cs (new_write_buffer s) w"
    using run_ok [OF new_queue_ok [of s], of ?g es] by (simp_all add: run)
  then obtain ready where r: "cs = ready @ waiting w" "sink w = fold ?g ready s" using new by (auto simp: delivers_def)
  have t: "timers w = (if waiting w = [] then 0 else 1)"
    using q(1) by (auto simp: queue_ok_def waiting_def split: if_splits)
  let ?es = "replicate (length (waiting w)) (Timer, n)"
  have "calm f (waiting w @ accepted f ?es w) (sink w)"
    using assms r unfolding cs_def [symmetric] by (simp add: accepted_timers)
  then have last: "write_run f ?es w = write_run (plain ?g) ?es w" using run_calm [OF q(1)] by blast
  have "delivers ?g [] w (write_run (plain ?g) ?es w)" "waiting (write_run (plain ?g) ?es w) = []"
    using run_ok [OF q(1), of ?g ?es] timers_empty [OF q(1)] by (simp_all add: accepted_timers)
  then have "sink (write_run f ?es w) = fold ?g (waiting w) (sink w)" by (simp add: delivers_def last)
  then have "sink (write_run f ?es w) = fold ?g cs s" using r by simp
  then show ?thesis using r t unfolding w_def [symmetric] cs_def [symmetric] Let_def by blast
qed

theorem writes_in_order_witness:
  "let f = \<lambda>c s. (s @ [c], False); es = [(Write (Text [97]) None, 0), (User_input, 0), (Timer, 5), (Write (Text [98]) (Some 7), 0)];
       w = write_run f es (new_write_buffer [])
   in sink w = [Text [97], Text [98]] \<and> timers w = 0"
proof -
  let ?f = "\<lambda>c s. (s @ [c], False)"
    and ?es = "[(Write (Text [97]) None, 0), (User_input, 0), (Timer, 5), (Write (Text [98]) (Some 7), 0)]"
  have acc: "accepted ?f ?es (new_write_buffer []) = [Text [97], Text [98]]" by code_simp
  have w: "waiting (write_run ?f ?es (new_write_buffer [])) = []" by code_simp
  show ?thesis using writes_in_order [of ?f ?es "[]" 0] unfolding acc by (simp add: w handled_def Let_def del: write_run.simps)
qed

text \<open>
  C14: When the handling of a chunk throws, the terminal is dead: whatever is written, typed or waited for
  afterwards, no chunk is ever handed on again, and no write reports it before 50 MB wait.
\<close>

theorem throw_freezes:
  assumes "w = write_run f es (new_write_buffer s)" "pendingData w \<le> 50000000" "write_step f e w = (w', True)"
  shows "sink (write_run f es' w') = sink w'
    \<and> (pendingData (write_run f es' w') \<le> 50000000 \<longrightarrow> snd (write_chunk f n c k (write_run f es' w')) = False)"
proof -
  have st: "stuck w'"
  proof (cases "queue_ok w")
    case True
    then show ?thesis using step_throws_stuck assms(2,3) by blast
  next
    case False
    then have "stuck w" using run_cases [of "new_write_buffer s" f es] new_queue_ok [of s] assms(1) by blast
    then show ?thesis using stuck_step [of w f e] assms(3) by simp
  qed
  then show ?thesis using stuck_run [OF st, of f es'] by (simp add: write_chunk_def stuck_def)
qed

end
