(* ===== verification/Xterm_Props.thy ===== *)
theory Xterm_Props
  imports Xterm_Safe Xterm_Write
begin

text \<open>
  Properties of the terminal emulator as a whole: what output does to the screen, and what becomes of the
  terminal when a handler throws.
\<close>

subsection \<open>A fresh screen\<close>

text \<open>Nothing is in the ring of the lines beyond the last one.\<close>

definition bare_end :: "'a ring \<Rightarrow> bool" where
  "bare_end r \<longleftrightarrow> startIndex r = 0 \<and> length (arr r) = maxLength r \<and> (\<forall>j. rlen r \<le> j \<longrightarrow> j < maxLength r \<longrightarrow> arr r ! j = None)"

lemma bare_push: "bare_end r \<Longrightarrow> rlen r < maxLength r \<Longrightarrow> bare_end (ring_push x r)"
  by (auto simp: bare_end_def ring_push_def ring_set_def cyclicIndex_def Let_def nth_list_update)

lemma bare_pushes: "bare_end r \<Longrightarrow> rlen r + n \<le> maxLength r \<Longrightarrow>
    bare_end ((ring_push x ^^ n) r) \<and> rlen ((ring_push x ^^ n) r) = rlen r + n \<and> maxLength ((ring_push x ^^ n) r) = maxLength r"
proof (induction n)
  case (Suc n)
  then have "bare_end ((ring_push x ^^ n) r)" "rlen ((ring_push x ^^ n) r) = rlen r + n"
    "maxLength ((ring_push x ^^ n) r) = maxLength r" by simp_all
  then show ?case using Suc.prems(2) bare_push [of "(ring_push x ^^ n) r" x] by (simp add: isFull_def)
qed simp

lemma bare_get: "bare_end r \<Longrightarrow> rlen r < maxLength r \<Longrightarrow> ring_get r (rlen r) = None"
  by (simp add: bare_end_def ring_get_def cyclicIndex_def)

lemma new_term_fields [simp]:
  "cols (new_term opts w h) = max w 2" "rows (new_term opts w h) = max h 1" "options (new_term opts w h) = opts"
  "alt_active (new_term opts w h) = False" "dec (new_term opts w h) = default_modes"
  by (simp_all add: new_term_def Let_def)

lemma new_term_end:
  assumes "0 < scrollback opts" "max h 1 + scrollback opts \<le> 4294967295"
  shows "lines_get (active (new_term opts w h)) (max h 1) = None" "ybase (active (new_term opts w h)) = 0"
proof -
  let ?s = "\<lparr>cols = max w 2, rows = max h 1, isUserScrolling = False, cachedBlankLine = None\<rparr> :: screen"
  let ?b = "new_buffer True ?s opts"
  let ?x = "getBlankLine (max w 2) default_attr False"
  have f: "lines ?b = new_ring (nat (max h 1 + scrollback opts))" "b_rows ?b = max h 1" "ybase ?b = 0"
    using assms by (simp_all add: new_buffer_def blank_buffer_def correctBufferLength_def setupTabStops_def)
  have n: "bare_end (lines ?b)" "rlen (lines ?b) = 0" "maxLength (lines ?b) = nat (max h 1 + scrollback opts)"
    by (simp_all add: f new_ring_def bare_end_def)
  have e: "bare_end ((lines ?b)\<lparr>fired := []\<rparr>)" using n(1) by (simp add: bare_end_def)
  have le: "rlen ((lines ?b)\<lparr>fired := []\<rparr>) + nat (max h 1) \<le> maxLength ((lines ?b)\<lparr>fired := []\<rparr>)"
    using n(2,3) assms(1) by (simp add: nat_mono)
  have p: "bare_end ((ring_push ?x ^^ nat (max h 1)) ((lines ?b)\<lparr>fired := []\<rparr>))"
    "rlen ((ring_push ?x ^^ nat (max h 1)) ((lines ?b)\<lparr>fired := []\<rparr>)) = nat (max h 1)"
    "maxLength ((ring_push ?x ^^ nat (max h 1)) ((lines ?b)\<lparr>fired := []\<rparr>)) = nat (max h 1 + scrollback opts)"
    using bare_pushes [OF e le, of ?x] n(2,3) by simp_all
  have a: "active (new_term opts w h) = fillViewportRows (max w 2) default_attr ?b"
    by (simp add: new_term_def active_def Let_def)
  have l: "lines (active (new_term opts w h)) = (ring_push ?x ^^ nat (max h 1)) ((lines ?b)\<lparr>fired := []\<rparr>)"
    unfolding a fillViewportRows_def using n(2) f(2) by simp
  show "ybase (active (new_term opts w h)) = 0" unfolding a fillViewportRows_def using f(3) by simp
  have lt: "nat (max h 1) < nat (max h 1 + scrollback opts)" using assms(1) by linarith
  have "ring_get (lines (active (new_term opts w h))) (nat (max h 1)) = None"
    using bare_get [OF p(1)] lt unfolding l p(2,3) by blast
  then show "lines_get (active (new_term opts w h)) (max h 1) = None" by (simp add: lines_get_def)
qed

subsection \<open>Properties\<close>

text \<open>
  C10: The terminal's invariant: whatever output a new terminal has been given, its buffers are well-formed and
  fit the screen, whose size output never changes, and the cursor is on a row of the screen. The next chunk, of
  any bytes or characters, throws no error, except if it makes the terminal erase above the cursor in a state
  where the line it looks up is missing. (Window options off, and a height that a list can have.)
\<close>

theorem output_keeps_screen:
  assumes "0 \<le> scrollback opts" "''setWinLines'' \<notin> set (windowOptions opts)" "h \<le> 4294967295"
    "each_opt (parse_chunk rs) cs (new_emulator opts w h) = Some e"
  shows "term_ok (screen_state e) \<and> cols (screen_state e) = max w 2 \<and> rows (screen_state e) = max h 1
    \<and> (parse_chunk rs c e = None \<longleftrightarrow> fails_at rs (chunk_events c e) (clearRange (screen_state e)))"
proof -
  have k: "emulator_ok e" "kept (screen_state (new_emulator opts w h)) (screen_state e)"
    using chunks_keep [OF new_emulator_ok [OF assms(1-3)] assms(4)] by simp_all
  have "parse_chunk rs c e = None \<longleftrightarrow> fails_at rs (chunk_events c e) (clearRange (screen_state e))"
    using parse_chunk_ok [OF k(1), of rs c] by (auto split: if_splits)
  then show ?thesis using k by (simp add: kept_def new_emulator_def)
qed

definition plain_options :: term_options where
  "plain_options =
     \<lparr>scrollback = 1000, tabStopWidth = 8, convertEol = False, opt_cursorBlink = False, opt_cursorStyle = Block,
      screenReaderMode = False, scrollOnEraseInDisplay = False, scrollOnUserInput = True, disableStdin = False,
      termName = ''xterm'', windowOptions = []\<rparr>"

definition no_resize_fn :: resizer where
  "no_resize_fn c r t = t"

theorem output_keeps_screen_witness:
  "term_ok (screen_state (new_emulator plain_options 80 24))
    \<and> (parse_chunk no_resize_fn (Text []) (new_emulator plain_options 80 24) = None
       \<longleftrightarrow> fails_at no_resize_fn (chunk_events (Text []) (new_emulator plain_options 80 24))
             (clearRange (screen_state (new_emulator plain_options 80 24))))"
  using output_keeps_screen [of plain_options 24 no_resize_fn "[]" 80 "new_emulator plain_options 80 24" "Text []"]
  by (simp add: plain_options_def)

lemma erase_at_end:
  assumes t: "term_ok t" and o: "\<not> origin (dec t)" and xy: "xpos t = cols t - 1" "ypos t = rows t - 1"
    and l: "lines_get (active t) (rows t) = None" and q: "par q 0 = 1"
  shows "eraseInDisplay q prot t = None"
proof -
  let ?r = "restrictCursor (cols t) t"
  have r: "xpos ?r = cols t - 1" "ypos ?r = rows t - 1" "lines (active ?r) = lines (active t)"
    using ok_bounds [OF t] o xy by (simp_all add: restrictCursor_def Let_def)
  have "lines_get (active ?r) (ypos ?r + 1) = None" using l r by (simp add: lines_get_def split: if_splits)
  then have "erase_above_throws ?r" using r by (simp add: erase_above_throws_def)
  then show ?thesis using eraseInDisplay_ok [OF t, of q prot] q by simp
qed

lemma cursorPosition_last:
  assumes t: "term_ok t" and o: "\<not> origin (dec t)" and p: "rows t \<le> par p 0" "cols t \<le> par p 1" "2 \<le> plen p"
  shows "xpos (cursorPosition p t) = cols t - 1" "ypos (cursorPosition p t) = rows t - 1"
    "lines (active (cursorPosition p t)) = lines (active t)" "dec (cursorPosition p t) = dec t"
  using ok_bounds [OF t] o p
  by (auto simp: cursorPosition_def setCursor_def Let_def restrict_default_def restrictCursor_def par1_def)

text \<open>
  C15: An error of the emulator: on a new terminal with scrollback, erasing above the cursor (\<open>CSI 1 J\<close>) with the
  cursor in the last cell of the screen throws. To clear its wrap flag the code looks up the line in the row below the
  cursor; there is no row below the last one, the list has no such line, and the property of \<open>undefined\<close> is set.
\<close>

theorem erase_above_error:
  assumes "0 < scrollback opts" "max h 1 + scrollback opts \<le> 4294967295"
    "''setWinLines'' \<notin> set (windowOptions opts)"
    and p: "max h 1 \<le> par p 0" "max w 2 \<le> par p 1" "2 \<le> plen p" and q: "par q 0 = 1"
  shows "eraseInDisplay q prot (cursorPosition p (new_term opts w h)) = None"
proof -
  let ?t = "new_term opts w h"
  have t: "term_ok ?t" "\<not> origin (dec ?t)"
    using new_emulator_ok [of opts h w] assms by (simp_all add: emulator_ok_def new_emulator_def default_modes_def)
  have s: "term_ok (cursorPosition p ?t)" "cols (cursorPosition p ?t) = max w 2" "rows (cursorPosition p ?t) = max h 1"
    using cursor_kept(8) [OF t(1), of p] by (simp_all add: kept_def)
  show ?thesis
    by (rule erase_at_end [OF s(1)])
      (use s cursorPosition_last [OF t, of p] p q t(2) new_term_end [OF assms(1,2), of w] in \<open>simp_all add: lines_get_def\<close>)
qed

definition given_params :: "int list \<Rightarrow> params" where
  "given_params vs = the (fromArray (map Num vs))"

theorem erase_above_error_witness:
  "eraseInDisplay (given_params [1]) False (cursorPosition (given_params [24, 80]) (new_term plain_options 80 24)) = None"
proof -
  have "par (given_params [24, 80]) 0 = 24 \<and> par (given_params [24, 80]) 1 = 80 \<and> plen (given_params [24, 80]) = 2
      \<and> par (given_params [1]) 0 = 1"
    by code_simp
  then show ?thesis
    using erase_above_error [of plain_options 24 "given_params [24, 80]" 80 "given_params [1]" False]
    by (simp add: plain_options_def)
qed

subsection \<open>A chunk that kills the terminal\<close>

text \<open>The action of the queue; \<open>broken\<close> is what an exception leaves of the terminal.\<close>

definition emulator_action :: "resizer \<Rightarrow> (chunk \<Rightarrow> emulator \<Rightarrow> emulator) \<Rightarrow> emulator action" where
  "emulator_action rs broken c e =
     (case parse_chunk rs c e of None \<Rightarrow> (broken c e, True) | Some e' \<Rightarrow> (e', False))"

text \<open>\<open>ESC [ 24 ; 80 H\<close> and \<open>ESC [ 1 J\<close>.\<close>

definition deadly :: chunk where
  "deadly = Text [27, 91, 50, 52, 59, 56, 48, 72, 27, 91, 49, 74]"

fun csi_view :: "parser_event \<Rightarrow> (32 word \<times> int \<times> int \<times> nat) option" where
  "csi_view (Csi i p) = Some (i, par p 0, par p 1, plen p)"
| "csi_view _ = None"

lemma csi_viewD: "csi_view ev = Some (i, a, b, n) \<Longrightarrow> \<exists>p. ev = Csi i p \<and> par p 0 = a \<and> par p 1 = b \<and> plen p = n"
  by (cases ev) auto

lemma deadly_events:
  obtains p q where "chunk_events deadly (new_emulator plain_options 80 24) = [Csi (ident ''H'') p, Csi (ident ''J'') q]"
    "par p 0 = 24" "par p 1 = 80" "plen p = 2" "par q 0 = 1"
proof -
  let ?cs = "[27, 91, 50, 52, 59, 56, 48, 72, 27, 91, 49, 74] :: cp list"
  have "chunk_events deadly (new_emulator plain_options 80 24) = snd (parse init_parser ?cs)"
    by (simp add: chunk_events_def deadly_def chunk_pieces_def pieces.simps max_parse_def new_emulator_def case_prod_beta
        Let_def str_decode_def high_surrogate_def low_surrogate_def)
  moreover have "map csi_view (snd (parse init_parser ?cs)) = [Some (72, 24, 80, 2), Some (74, 1, 80, 1)]"
    by code_simp
  ultimately have "map csi_view (chunk_events deadly (new_emulator plain_options 80 24))
      = [Some (ident ''H'', 24, 80, 2), Some (ident ''J'', 1, 80, 1)]"
    by (simp add: ident_def)
  then show ?thesis using that by (auto simp: map_eq_Cons_conv dest!: csi_viewD)
qed

lemma csi_H: "map_of (csi_handlers rs) (ident ''H'') = Some (safe cursorPosition)"
  by (simp add: csi_handlers_def csi_cursor_def ident_def)

lemma deadly_throws: "parse_chunk rs deadly (new_emulator plain_options 80 24) = None"
proof -
  let ?e = "new_emulator plain_options 80 24"
  let ?t = "clearRange (screen_state ?e)"
  obtain p q where ev: "chunk_events deadly ?e = [Csi (ident ''H'') p, Csi (ident ''J'') q]"
    and pq: "par p 0 = 24" "par p 1 = 80" "plen p = 2" "par q 0 = 1"
    by (rule deadly_events)
  have e: "emulator_ok ?e" by (rule new_emulator_ok) (simp_all add: plain_options_def)
  have t: "term_ok ?t" "\<not> origin (dec ?t)" "rows ?t = 24" "cols ?t = 80"
    "lines (active ?t) = lines (active (new_term plain_options 80 24))"
    using e by (simp_all add: emulator_ok_def clearRange_def new_emulator_def default_modes_def)
  let ?s = "end_join (cursorPosition p ?t)"
  have s: "term_ok ?s" "cols ?s = 80" "rows ?s = 24" using cursor_kept(8) [OF t(1), of p] t by (simp_all add: kept_def end_join_def)
  have er: "eraseInDisplay q False ?s = None"
    by (rule erase_at_end [OF s(1)])
      (use s cursorPosition_last [OF t(1,2), of p] pq t new_term_end [of plain_options 24 80] in
        \<open>simp_all add: lines_get_def end_join_def plain_options_def\<close>)
  have "each_opt (dispatch_event rs) (chunk_events deadly ?e) ?t = None"
    unfolding ev using er by (simp add: call_handler_def csi_H erase_lookup safe_def)
  then show ?thesis using parse_chunk_ok [OF e, of rs deadly] events_ok [OF t(1), of "chunk_events deadly ?e" rs]
      stream_given [of ?e "chunk_pieces deadly"] e
    by (auto simp: chunk_events_def emulator_ok_def goes_on_def split: if_splits)
qed

theorem throw_freezes_witness:
  "sink (write_run (emulator_action no_resize_fn (\<lambda>c e. e)) [(Write (Text [104]) None, 5), (Timer, 6)]
       (fst (fire_timer (emulator_action no_resize_fn (\<lambda>c e. e)) 0
         (fst (write_chunk (emulator_action no_resize_fn (\<lambda>c e. e)) 0 deadly None (new_write_buffer (new_emulator plain_options 80 24)))))))
   = new_emulator plain_options 80 24"
proof -
  let ?f = "emulator_action no_resize_fn (\<lambda>c e. e)"
  let ?b = "new_write_buffer (new_emulator plain_options 80 24)"
  define w where "w = write_run ?f [(Write deadly None, 0)] ?b"
  have w: "queue w = [deadly]" "bufferOffset w = 0" "timers w = 1" "sink w = new_emulator plain_options 80 24"
    "pendingData w = 12" "w = fst (write_chunk ?f 0 deadly None ?b)"
    by (simp_all add: w_def write_step_def write_chunk_def new_write_buffer_def Let_def start_timer_def enqueue_def
        size_of_def chunk_length_def deadly_def)
  obtain w' where w': "write_step ?f (Timer, 0) w = (w', True)" "sink w' = new_emulator plain_options 80 24"
    "fst (fire_timer ?f 0 w) = w'"
    using w by (simp add: write_step_def fire_timer_def innerWrite_def inner_loop.simps [of _ 0] take_chunk_def
        emulator_action_def deadly_throws Let_def)
  show ?thesis using throw_freezes [OF w_def _ w'(1), of "[(Write (Text [104]) None, 5), (Timer, 6)]"] w w' by simp
qed

end
