(* ===== verification/Xterm_Typing_Props.thy ===== *)
theory Xterm_Typing_Props
  imports Xterm_Typing Xterm_Props "HOL-Library.Sublist"
begin

text \<open>
  What reaches the shell of what is typed, composed with an input method and pasted.
\<close>

subsection \<open>The data of a run of events\<close>

fun data_of :: "term_event \<Rightarrow> ustring list" where
  "data_of (On_data s) = [s]"
| "data_of _ = []"

definition data_sent :: "terminal_state \<Rightarrow> ustring list" where
  "data_sent t = concat (map data_of (out t))"

lemma data_sent_emit [simp]: "data_sent (emit e t) = data_sent t @ data_of e"
  by (simp add: data_sent_def emit_def)

lemma emit_frame [simp]: "options (emit e t) = options t" "dec (emit e t) = dec t" "active (emit e t) = active t"
  "isCursorInitialized (emit e t) = isCursorInitialized t"
  by (simp_all add: emit_def active_def)

lemma data_sent_trigger [simp]:
  "data_sent (triggerDataEvent s u t) = data_sent t @ (if disableStdin (options t) then [] else [s])"
  by (simp add: triggerDataEvent_def Let_def)

lemma trigger_frame [simp]:
  "options (triggerDataEvent s u t) = options t" "dec (triggerDataEvent s u t) = dec t"
  "active (triggerDataEvent s u t) = active t"
  by (simp_all add: triggerDataEvent_def Let_def)

lemma ask_frame [simp]:
  "emu (ask e v) = emu v" "keyDownHandled (ask e v) = keyDownHandled v" "isMac (ask e v) = isMac v"
  "isWindows (ask e v) = isWindows v" "macOptionIsMeta (ask e v) = macOptionIsMeta v" "tasks (ask e v) = tasks v"
  "keyPressHandled (ask e v) = keyPressHandled v" "unprocessedDeadKey (ask e v) = unprocessedDeadKey v"
  "cancelEvents (ask e v) = cancelEvents v" "keyDownSeen (ask e v) = keyDownSeen v" "textarea (ask e v) = textarea v"
  by (simp_all add: ask_def)

lemma type_text_frame [simp]:
  "keyDownHandled (type_text s v) = keyDownHandled v" "keyDownSeen (type_text s v) = keyDownSeen v" "isMac (type_text s v) = isMac v" "textarea (type_text s v) = textarea v"
  "isWindows (type_text s v) = isWindows v" "macOptionIsMeta (type_text s v) = macOptionIsMeta v" "keyPressHandled (type_text s v) = keyPressHandled v"
  "cancelEvents (type_text s v) = cancelEvents v" "emu (type_text s v) = triggerDataEvent s True (emu v)"
  by (simp_all add: type_text_def upd_emu_def)

lemma showCursor_frame [simp]:
  "options (emu (showCursor v)) = options (emu v)" "data_sent (emu (showCursor v)) = data_sent (emu v)"
  "keyDownHandled (showCursor v) = keyDownHandled v" "cancelEvents (showCursor v) = cancelEvents v"
  "keyPressHandled (showCursor v) = keyPressHandled v" "keyDownSeen (showCursor v) = keyDownSeen v"
  "isMac (showCursor v) = isMac v" "isWindows (showCursor v) = isWindows v" "macOptionIsMeta (showCursor v) = macOptionIsMeta v"
  by (simp_all add: showCursor_def upd_emu_def data_sent_def)

subsection \<open>Typing a character\<close>

text \<open>
  What the browser does with a key that types a character: it asks the listener of the key's press down; unless
  that prevents it, the listener of the key press; unless that prevents it, it puts the character into the text
  area and tells the listener of the input.
\<close>

definition press_of :: "cu \<Rightarrow> key_event \<Rightarrow> key_event" where
  "press_of c e = e\<lparr>charCode := Some (unat c), which_code := Some (unat c)\<rparr>"

definition browser_key :: "bool \<Rightarrow> cu \<Rightarrow> key_event \<Rightarrow> view \<Rightarrow> view" where
  "browser_key composed c e v =
     (case keyDown e v of
        (p1, _, v1) \<Rightarrow>
          if p1 then v1
          else
            (case keyPress (press_of c e) v1 of
               (p2, _, v2) \<Rightarrow>
                 if p2 then v2
                 else snd (snd (inputEvent [c] True composed (v2\<lparr>textarea := textarea v2 @ [c]\<rparr>)))))"

definition special_codes :: "nat set" where
  "special_codes = {8, 9, 13, 27, 33, 34, 35, 36, 37, 38, 39, 40, 45, 46, 112, 113, 114, 115, 116, 117, 118, 119, 120,
     121, 122, 123, 229}"

text \<open>
  A key that types the character \<open>c\<close>: it names the character, is none of the keys with a sequence of their own, and
  either control, alt and meta are up or the modifiers are those of the third level (AltGr, which is Ctrl and Alt on
  Windows, and Option on a Mac where it is not meta).
\<close>

definition types_char :: "view \<Rightarrow> cu \<Rightarrow> key_event \<Rightarrow> bool" where
  "types_char v c e \<longleftrightarrow> c \<noteq> 0 \<and> key_name e = [c] \<and> keyCode e \<notin> special_codes \<and>
     (\<not> ctrlKey e \<and> \<not> altKey e \<and> \<not> metaKey e \<or> isThirdLevelShift False e v)"

lemma evaluate_kind:
  assumes "key_name e = [c]" "keyCode e \<notin> special_codes"
  shows "kind (evaluateKeyboardEvent e app mac meta) \<in> {Send_key, Select_all}"
proof -
  have u: "uikit_key [c] app = None" by (simp add: uikit_key_def ustr_def)
  show ?thesis using assms u
    by (simp add: special_codes_def evaluateKeyboardEvent_def Let_def default_key_def plain_key_def)
qed

lemma evaluate_char:
  assumes "key_name e = [c]" "keyCode e \<notin> special_codes" "\<not> ctrlKey e" "\<not> altKey e" "\<not> metaKey e"
  shows "evaluateKeyboardEvent e app mac meta = plain_key (if 48 \<le> keyCode e then Some [c] else None)"
proof -
  have u: "uikit_key [c] app = None" by (simp add: uikit_key_def ustr_def)
  show ?thesis using assms u
    by (simp add: special_codes_def evaluateKeyboardEvent_def Let_def default_key_def plain_key_def)
qed

lemma types_char_parts:
  "types_char v c e \<Longrightarrow> key_name e = [c] \<and> \<not> is_dead e \<and> keyCode e \<noteq> 229 \<and> keyCode e \<notin> special_codes \<and> c \<noteq> 0"
  by (auto simp: types_char_def is_dead_def ustr_def special_codes_def)

text \<open>Pressed down, such a key either sends its character or leaves it to the key press.\<close>

lemma comp_keydown_go: "keyCode e \<noteq> 229 \<Longrightarrow> \<not> isComposing w \<Longrightarrow> \<not> isSendingComposition w \<Longrightarrow> comp_keydown e w = (True, w)"
  by (simp add: comp_keydown_def)

definition keeps_platform :: "view \<Rightarrow> view \<Rightarrow> bool" where
  "keeps_platform v v' \<longleftrightarrow> isMac v' = isMac v \<and> isWindows v' = isWindows v \<and> macOptionIsMeta v' = macOptionIsMeta v"

lemma third_level_platform: "keeps_platform v v' \<Longrightarrow> isThirdLevelShift k e v' = isThirdLevelShift k e v"
  by (simp add: isThirdLevelShift_def keeps_platform_def)

lemma keyDown_third_level:
  assumes e: "key_name e = [c]" "\<not> is_dead e" "keyCode e \<noteq> 229" "keyCode e \<notin> special_codes" "isThirdLevelShift False e v"
    and v: "\<not> isComposing v" "\<not> isSendingComposition v"
  shows "\<exists>v'. keyDown e v = (False, Some True, v') \<and> emu v' = emu v \<and> keyDownSeen v' \<and> \<not> keyDownHandled v' \<and> keeps_platform v v'"
proof -
  let ?v = "v\<lparr>keyDownHandled := False, keyDownSeen := True\<rparr>"
  let ?r = "evaluateKeyboardEvent e (applicationCursorKeys (dec (emu v))) (isMac v) (macOptionIsMeta v)"
  have go: "(if isMac v \<and> macOptionIsMeta v \<and> altKey e then (True, ?v) else comp_keydown e ?v) = (True, ?v)"
    using e(3) v by (simp add: comp_keydown_go)
  have k: "kind ?r = Send_key \<or> kind ?r = Select_all" using evaluate_kind [OF e(1,4)] by blast
  have t: "isThirdLevelShift False e w" if "keeps_platform v w" for w using third_level_platform [OF that] e(5) by simp
  show ?thesis using go k e(2) t by (auto simp: keyDown_def Let_def keeps_platform_def)
qed

lemma keyDown_char:
  assumes e: "types_char v c e" and v: "\<not> isComposing v" "\<not> isSendingComposition v" "\<not> disableStdin (options (emu v))"
  shows "case keyDown e v of (p, _, v') \<Rightarrow> options (emu v') = options (emu v) \<and> keyDownSeen v' \<and> keeps_platform v v'
    \<and> (keyDownHandled v' \<longrightarrow> \<not> p \<and> screenReaderMode (options (emu v)))
    \<and> data_sent (emu v') = data_sent (emu v) @ (if p \<or> keyDownHandled v' then [[c]] else [])"
proof (cases "isThirdLevelShift False e v")
  case True
  then show ?thesis using keyDown_third_level [of e c v] types_char_parts [OF e] v by auto
next
  case False
  then have plain: "\<not> ctrlKey e" "\<not> altKey e" "\<not> metaKey e" using e by (simp_all add: types_char_def)
  note parts = types_char_parts [OF e]
  have "keyCode e \<notin> special_codes" using parts by simp
  note ev = evaluate_char [OF _ this plain]
  show ?thesis
    using parts plain v
    by (simp add: keyDown_def Let_def comp_keydown_go ev plain_key_def send_key_def reply_def cancel_event_def keeps_platform_def)
qed

lemma pressed_press_of: "c \<noteq> 0 \<Longrightarrow> pressed_char (press_of c e) = Some (unat c)"
  by (cases "unat c") (simp_all add: pressed_char_def press_of_def unat_eq_zero)

lemma keyPress_char:
  assumes e: "types_char v0 c e" and v: "\<not> keyDownHandled v" "\<not> disableStdin (options (emu v))" "keeps_platform v0 v"
  shows "case keyPress (press_of c e) v of (p, _, v') \<Rightarrow> keyPressHandled v' \<and> data_sent (emu v') = data_sent (emu v) @ [[c]]"
proof -
  have nz: "unat c \<noteq> 0" "c \<noteq> 0" using types_char_parts [OF e] by (simp_all add: unat_eq_zero)
  have "fromCharCode (unat c) = [c]" by (simp add: fromCharCode_def)
  moreover have "(altKey e \<or> ctrlKey e \<or> metaKey e) \<longrightarrow> isThirdLevelShift True (press_of c e) (v\<lparr>keyPressHandled := False\<rparr>)"
    using e v(3) by (auto simp: types_char_def isThirdLevelShift_def keeps_platform_def press_of_def Let_def)
  ultimately show ?thesis using v nz pressed_press_of [OF nz(2), of e]
    by (cases "altKey e \<or> ctrlKey e \<or> metaKey e") (auto simp: keyPress_def Let_def press_of_def)
qed

text \<open>
  A typed character is sent exactly once, by the key down or by the key press, and not again by the input: for any
  key that types one character, in any state with standard input on and no composition going on (dead keys, the
  screen reader mode and AltGr included), the data sent to the shell grows by that character.
\<close>

theorem typed_key_sent_once:
  assumes "types_char v c e" "\<not> isComposing v" "\<not> isSendingComposition v" "\<not> disableStdin (options (emu v))"
  shows "data_sent (emu (browser_key composed c e v)) = data_sent (emu v) @ [[c]]"
proof -
  obtain p1 r1 v1 where d: "keyDown e v = (p1, r1, v1)" by (cases "keyDown e v")
  have v1: "options (emu v1) = options (emu v)" "keyDownHandled v1 \<longrightarrow> \<not> p1 \<and> screenReaderMode (options (emu v))"
    "data_sent (emu v1) = data_sent (emu v) @ (if p1 \<or> keyDownHandled v1 then [[c]] else [])" "keeps_platform v v1"
    using keyDown_char [OF assms] d by simp_all
  obtain p2 r2 v2 where p: "keyPress (press_of c e) v1 = (p2, r2, v2)" by (cases "keyPress (press_of c e) v1")
  show ?thesis
  proof (cases "keyDownHandled v1")
    case True
    then have "v2 = v1\<lparr>keyPressHandled := False\<rparr>" using p by (simp add: keyPress_def)
    then show ?thesis using True v1 d p by (simp add: browser_key_def inputEvent_def)
  next
    case False
    then show ?thesis
      using keyPress_char [OF assms(1) False _ v1(4)] v1 assms(4) p d by (auto simp: browser_key_def inputEvent_def)
  qed
qed

definition letter_key :: "cu \<Rightarrow> key_event" where
  "letter_key c =
     \<lparr>keyCode = 65, key_name = [c], key_phys = ustr ''KeyA'', ctrlKey = False, altKey = False, shiftKey = False,
      metaKey = False, altGraph = False, charCode = None, which_code = None\<rparr>"

theorem typed_key_sent_once_witness:
  "data_sent (emu (browser_key False 97 (letter_key 97) (new_view True False (new_term plain_options 80 24)))) =
     data_sent (new_term plain_options 80 24) @ [[97]]
   \<and> data_sent (emu (browser_key False 65 (letter_key 65) (new_view True False (new_term plain_options 80 24)))) =
     data_sent (new_term plain_options 80 24) @ [[65]]"
proof -
  have t: "types_char v 97 (letter_key 97)" "types_char v 65 (letter_key 65)" for v
    by (simp_all add: types_char_def letter_key_def special_codes_def)
  have v: "\<not> isComposing (new_view True False (new_term plain_options 80 24))"
    "\<not> isSendingComposition (new_view True False (new_term plain_options 80 24))"
    "\<not> disableStdin (options (emu (new_view True False (new_term plain_options 80 24))))"
    by (simp_all add: new_view_def plain_options_def)
  show ?thesis using typed_key_sent_once [OF t(1) v, of False] typed_key_sent_once [OF t(2) v, of False]
    by (simp add: new_view_def)
qed

subsection \<open>Control keys\<close>

lemma keyDown_control:
  assumes "65 \<le> keyCode e" "keyCode e \<le> 90" "ctrlKey e" "\<not> altKey e" "\<not> shiftKey e" "\<not> metaKey e" "\<not> altGraph e"
    and n: "\<not> is_dead e"
    and v: "\<not> isComposing v" "\<not> isSendingComposition v" "\<not> disableStdin (options (emu v))" "\<not> unprocessedDeadKey v"
  shows "case keyDown e v of (p, _, v') \<Rightarrow> p
    \<and> data_sent (emu v') = data_sent (emu v) @ [[of_nat (keyCode e - 64)]]"
proof -
  have "evaluateKeyboardEvent e a m q = plain_key (Some (fromCharCode (keyCode e - 64)))" for a m q
    using assms(1-6) by (simp add: evaluateKeyboardEvent_def Let_def default_key_def control_key_def plain_key_def)
  moreover have "comp_keydown e w = (True, w)" if "\<not> isComposing w" "\<not> isSendingComposition w" for w
    using assms(2) that by (simp add: comp_keydown_def)
  ultimately show ?thesis using assms
    by (simp add: keyDown_def Let_def plain_key_def send_key_def reply_def cancel_event_def is_capital_def
        isThirdLevelShift_def fromCharCode_def)
qed

subsection \<open>Composing\<close>

text \<open>
  What an input method that writes \<open>s\<close> behind the text of the text area does, with the tasks run where the
  browser runs them.
\<close>

definition compose_text :: "ustring \<Rightarrow> view \<Rightarrow> view" where
  "compose_text s v =
     (let v1 = compositionstart v;
          v2 = view_tick (compositionupdate (v1\<lparr>textarea := textarea v1 @ s\<rparr>))
      in view_tick (compositionend v2))"

lemma composition_sent_once:
  assumes "tasks v = []" "s \<noteq> []" "\<not> disableStdin (options (emu v))"
  shows "data_sent (emu (compose_text s v)) = data_sent (emu v) @ [s]"
proof -
  have "substring_from (int (length (textarea v))) (textarea v @ s) = s"
    by (simp add: substring_from_def substring_def sub_list_def Let_def nat_add_distrib)
  then show ?thesis using assms
    by (simp add: compose_text_def compositionstart_def compositionupdate_def compositionend_def later_def view_tick_def
        finalizeComposition_def Let_def)
qed

text \<open>A key pressed in between ends the composition at once and its text is not sent again.\<close>

lemma composition_interrupted:
  assumes "isComposing v" "keyCode e \<notin> {20, 229, 16, 17, 18}" "\<not> disableStdin (options (emu v))"
  shows "data_sent (emu (snd (comp_keydown e v))) = data_sent (emu v) @ [substring (comp_start v) (comp_end v) (textarea v)]"
    "\<not> isSendingComposition (snd (comp_keydown e v))" "fst (comp_keydown e v)"
  using assms by (simp_all add: comp_keydown_def finalizeComposition_def type_text_def upd_emu_def)

subsection \<open>Pasting\<close>

text \<open>How a program that asked for bracketed pastes reads them: up to the first end marker.\<close>

fun split_first :: "'a list \<Rightarrow> 'a list \<Rightarrow> ('a list \<times> 'a list) option" where
  "split_first p [] = None"
| "split_first p (c # s) =
     (if take (length p) (c # s) = p then Some ([], drop (length p) (c # s))
      else map_option (\<lambda>(a, b). (c # a, b)) (split_first p s))"

definition read_paste :: "ustring \<Rightarrow> (ustring \<times> ustring) option" where
  "read_paste d = (if take 6 d = paste_start then split_first paste_end (drop 6 d) else None)"

lemma split_first_some: "split_first p s = Some (a, b) \<Longrightarrow> s = a @ p @ b"
proof (induction s arbitrary: a)
  case (Cons c s)
  then show ?case by (cases "take (length p) (c # s) = p") (auto, metis append_take_drop_id)
qed simp

lemma split_first_none: "p \<noteq> [] \<Longrightarrow> split_first p s = None \<longleftrightarrow> \<not> sublist p s"
proof (induction s)
  case (Cons c s)
  have "take (length p) (c # s) = p \<longleftrightarrow> prefix p (c # s)" by (metis append_eq_conv_conj prefix_def)
  then show ?case using Cons by (auto simp: sublist_Cons_right)
qed auto

lemma paste_markers:
  "paste_start = [27, 91, 50, 48, 48, 126]" "paste_end = [27, 91, 50, 48, 49, 126]"
  by (simp_all add: paste_start_def paste_end_def ESC_def ustr_def)

text \<open>The end marker starts with the only escape in it, so text before it makes no other one.\<close>

lemma marker_once:
  assumes "s \<noteq> []" "length s < 6"
  shows "take 6 (s @ paste_end) \<noteq> paste_end"
proof
  assume a: "take 6 (s @ paste_end) = paste_end"
  have "paste_end ! length s = (s @ paste_end) ! length s" using a assms(2) by (metis nth_take)
  then have "paste_end ! length s = 27" by (simp add: nth_append paste_markers)
  moreover have "length s = 1 \<or> length s = 2 \<or> length s = 3 \<or> length s = 4 \<or> length s = 5"
    using assms(2) length_greater_0_conv [of s] assms(1) by arith
  ultimately show False by (auto simp: paste_markers)
qed

lemma split_first_end:
  "split_first paste_end (s @ paste_end) =
     (case split_first paste_end s of None \<Rightarrow> Some (s, []) | Some (a, b) \<Rightarrow> Some (a, b @ paste_end))"
proof (induction s)
  case Nil
  show ?case by (simp add: paste_markers)
next
  case (Cons c s)
  have l: "length paste_end = 6" by (simp add: paste_markers)
  have "take 6 (c # s @ paste_end) = paste_end \<longleftrightarrow> take 6 (c # s) = paste_end"
  proof (cases "length (c # s) < 6")
    case True
    then have "take 6 (c # s) \<noteq> paste_end" using l by (metis length_take less_irrefl min_less_iff_conj)
    then show ?thesis using marker_once [of "c # s"] True by simp
  qed simp
  moreover have "drop 6 (c # s @ paste_end) = drop 6 (c # s) @ paste_end" if "take 6 (c # s) = paste_end"
  proof -
    have "6 \<le> length (c # s)" using l arg_cong [OF that, of length] by simp
    then show ?thesis using drop_append [of 6 "c # s" paste_end] by simp
  qed
  ultimately show ?case using Cons l by (simp split: option.splits)
qed

lemma prepared_no_lf: "10 \<notin> set (prepareTextForTerminal s)"
proof (induction s rule: prepareTextForTerminal.induct)
  case (2 c s)
  then show ?case by (cases "c = 10"; cases "c = 13 \<and> take 1 s = [10]") simp_all
qed simp

lemma read_bracketed:
  "read_paste (bracketTextForPaste s True) =
     (case split_first paste_end s of None \<Rightarrow> Some (s, []) | Some (a, b) \<Rightarrow> Some (a, b @ paste_end))"
proof -
  have "take 6 (paste_start @ s @ paste_end) = paste_start" "drop 6 (paste_start @ s @ paste_end) = s @ paste_end"
    by (simp_all add: paste_markers)
  then show ?thesis by (simp add: read_paste_def bracketTextForPaste_def split_first_end)
qed

text \<open>
  C7: Pasting to a program that has asked for bracketed pastes sends one piece of data without line feeds. The
  program reads back exactly the text (with its line breaks as carriage returns) if the text has no end marker
  \<open>ESC [ 2 0 1 ~\<close>. A text with the marker escapes: the paste ends for the program at the marker and the rest,
  with the true end marker, arrives as if it were typed.
\<close>

theorem paste_read_back:
  assumes "bracketedPasteMode (dec (emu v))" "\<not> ignoreBracketedPasteMode v" "\<not> disableStdin (options (emu v))"
    and s: "s = prepareTextForTerminal clip"
  shows "\<exists>d. data_sent (emu (paste clip v)) = data_sent (emu v) @ [d] \<and> 10 \<notin> set d
    \<and> (\<not> sublist paste_end s \<longrightarrow> read_paste d = Some (s, []))
    \<and> (sublist paste_end s \<longrightarrow> (\<exists>a b. s = a @ paste_end @ b \<and> read_paste d = Some (a, b @ paste_end)))"
proof (rule exI [of _ "bracketTextForPaste s True"], intro conjI impI)
  show "data_sent (emu (paste clip v)) = data_sent (emu v) @ [bracketTextForPaste s True]"
    using assms by (simp add: paste_def)
  show "10 \<notin> set (bracketTextForPaste s True)"
    using prepared_no_lf [of clip] s by (simp add: bracketTextForPaste_def paste_markers)
  show "read_paste (bracketTextForPaste s True) = Some (s, [])" if "\<not> sublist paste_end s"
    using that split_first_none [of paste_end s] by (simp add: read_bracketed paste_markers)
  show "\<exists>a b. s = a @ paste_end @ b \<and> read_paste (bracketTextForPaste s True) = Some (a, b @ paste_end)"
    if "sublist paste_end s"
  proof -
    have "split_first paste_end s \<noteq> None" using that split_first_none [of paste_end s] by (simp add: paste_markers)
    then obtain a b where "split_first paste_end s = Some (a, b)" by auto
    then show ?thesis using split_first_some by (fastforce simp: read_bracketed)
  qed
qed

theorem paste_read_back_witness:
  "\<exists>d. data_sent (emu (paste (ustr ''ls'' @ [10])
        (new_view False False ((new_term plain_options 80 24)\<lparr>dec := default_modes\<lparr>bracketedPasteMode := True\<rparr>\<rparr>)))) =
      data_sent (new_term plain_options 80 24) @ [d] \<and> read_paste d = Some (ustr ''ls'' @ [13], [])"
proof -
  let ?v = "new_view False False ((new_term plain_options 80 24)\<lparr>dec := default_modes\<lparr>bracketedPasteMode := True\<rparr>\<rparr>)"
  have v: "bracketedPasteMode (dec (emu ?v))" "\<not> ignoreBracketedPasteMode ?v" "\<not> disableStdin (options (emu ?v))"
    by (simp_all add: new_view_def plain_options_def)
  have s: "ustr ''ls'' @ [13] = prepareTextForTerminal (ustr ''ls'' @ [10])" by (simp add: ustr_def)
  have "\<not> sublist paste_end (ustr ''ls'' @ [13])"
    using sublist_length_le [of paste_end "ustr ''ls'' @ [13]"] by (auto simp: paste_markers ustr_def)
  moreover have "data_sent (emu ?v) = data_sent (new_term plain_options 80 24)" by (simp add: new_view_def data_sent_def)
  ultimately show ?thesis using paste_read_back [OF v s] by auto
qed

end
