(* ===== verification/Xterm_Mouse_Props.thy ===== *)
theory Xterm_Mouse_Props
  imports Xterm_Mouse Xterm_Typing_Props
begin

unbundle bit_operations_syntax

text \<open>
  What the mouse sends: reports in the SGR encoding decode to the event, the protocol decides which events are
  reported, and the listeners on the document follow the protocol.
\<close>

subsection \<open>Decimal numbers\<close>

definition is_digit :: "cu \<Rightarrow> bool" where
  "is_digit c \<longleftrightarrow> 48 \<le> c \<and> c \<le> 57"

fun read_num :: "nat \<Rightarrow> ustring \<Rightarrow> nat \<times> ustring" where
  "read_num n [] = (n, [])"
| "read_num n (c # s) = (if is_digit c then read_num (10 * n + (unat c - 48)) s else (n, c # s))"

lemma ustr_append [simp]: "ustr (a @ b) = ustr a @ ustr b" "ustr [] = []"
  by (simp_all add: ustr_def)

lemma digit_unit:
  assumes "d < 10"
  shows "ustr [char_of (48 + d)] = [of_nat (48 + d)]" "is_digit (of_nat (48 + d))" "unat (of_nat (48 + d) :: cu) = 48 + d"
proof -
  have lt: "48 + d < 2 ^ 16" using assms by simp
  show u: "unat (of_nat (48 + d) :: cu) = 48 + d" using lt by (simp add: unat_of_nat take_bit_nat_eq_self del: of_nat_add)
  have "of_char (char_of (48 + d) :: char) = 48 + d" using assms by (simp add: of_char_of)
  then show "ustr [char_of (48 + d)] = [of_nat (48 + d)]" by (simp add: ustr_def)
  show "is_digit (of_nat (48 + d))" using assms u by (simp add: is_digit_def word_le_nat_alt)
qed

lemma read_digits:
  "read_num m (ustr (nat_digits n) @ s) = read_num (m * 10 ^ length (nat_digits n) + n) s"
proof (induction n arbitrary: s rule: nat_digits.induct)
  case (1 n)
  show ?case
  proof (cases "n < 10")
    case True
    then show ?thesis using digit_unit [of n] by (simp add: nat_digits.simps [of n] mult.commute del: of_nat_add)
  next
    case False
    have d: "n mod 10 < 10" by simp
    have e: "nat_digits n = nat_digits (n div 10) @ [char_of (48 + n mod 10)]" using False by (simp add: nat_digits.simps [of n])
    have "read_num m (ustr (nat_digits n) @ s) =
        read_num m (ustr (nat_digits (n div 10)) @ of_nat (48 + n mod 10) # s)"
      using digit_unit(1) [OF d] by (simp add: e del: of_nat_add)
    also have "\<dots> = read_num (m * 10 ^ length (nat_digits (n div 10)) + n div 10) (of_nat (48 + n mod 10) # s)"
      using 1 [OF False, of "of_nat (48 + n mod 10) # s"] by simp
    also have "\<dots> = read_num (10 * (m * 10 ^ length (nat_digits (n div 10)) + n div 10) + n mod 10) s"
      using digit_unit(2,3) [OF d] by (simp del: of_nat_add)
    also have "10 * (m * 10 ^ length (nat_digits (n div 10)) + n div 10) + n mod 10 = m * 10 ^ length (nat_digits n) + n"
      by (simp add: e algebra_simps)
    finally show ?thesis .
  qed
qed

lemma read_unum: "0 \<le> a \<Longrightarrow> s = [] \<or> \<not> is_digit (hd s) \<Longrightarrow> read_num 0 (unum a @ s) = (nat a, s)"
  using read_digits [of 0 "nat a" s] by (cases s) (auto simp: unum_def int_digits_def)

subsection \<open>Reading a report\<close>

text \<open>How a program reads a report of the SGR encoding: code, column, row and the final letter.\<close>

definition expect :: "cu \<Rightarrow> nat \<times> ustring \<Rightarrow> (nat \<times> ustring) option" where
  "expect c r = (case snd r of d # s \<Rightarrow> if d = c then Some (fst r, s) else None | [] \<Rightarrow> None)"

definition read_sgr :: "ustring \<Rightarrow> (nat \<times> nat \<times> nat \<times> ustring) option" where
  "read_sgr s =
     do {
       (k, s1) \<leftarrow> (if take 3 s = ESC @ ustr ''[<'' then expect 59 (read_num 0 (drop 3 s)) else None);
       (a, s2) \<leftarrow> expect 59 (read_num 0 s1);
       (case read_num 0 s2 of (b, f) \<Rightarrow> Some (k, a, b, f))
     }"

lemma read_sgr_report:
  assumes "0 \<le> a" "0 \<le> b" "f = [] \<or> \<not> is_digit (hd f)"
  shows "read_sgr (sgr_report k a b f) = Some (k, nat a, nat b, f)"
proof -
  have semi: "\<not> is_digit 59" by (simp add: is_digit_def)
  have k: "read_num 0 (unum (int k) @ 59 # x) = (k, 59 # x)" for x using read_unum [of "int k" "59 # x"] semi by simp
  have a: "read_num 0 (unum a @ 59 # x) = (nat a, 59 # x)" for x using read_unum [of a "59 # x"] assms(1) semi by simp
  have "ustr '';'' = [59]" "length ESC = 1" "length (ustr ''[<'') = 2" by (simp_all add: ustr_def ESC_def)
  then show ?thesis using read_unum [of b f] assms(2,3)
    by (simp add: read_sgr_def sgr_report_def expect_def k a)
qed

text \<open>What a code and a final letter say: button, action, and the modifiers control, alt and shift.\<close>

definition decode_code :: "nat \<Rightarrow> ustring \<Rightarrow> nat \<times> nat \<times> bool \<times> bool \<times> bool" where
  "decode_code k f =
     (let wheel = (k AND 64 \<noteq> 0); b = (if wheel then 4 else k AND 3);
          a = (if wheel then k AND 3 else if k AND 32 \<noteq> 0 then 32 else if f = ustr ''m'' then 0 else 1)
      in (b, a, k AND 16 \<noteq> 0, k AND 8 \<noteq> 0, k AND 4 \<noteq> 0))"

definition possible_event :: "mouse_event \<Rightarrow> bool" where
  "possible_event e \<longleftrightarrow>
     (if m_button e = 4 then m_action e \<in> {0, 1, 2, 3}
      else m_button e \<in> {0, 1, 2, 3} \<and> m_action e \<in> {0, 1, 32})"

lemma decode_event:
  assumes "possible_event e"
  shows "decode_code (eventCode e True) (final_byte e) = (m_button e, m_action e, m_ctrl e, m_alt e, m_shift e)"
proof (cases "m_button e = 4")
  case True
  then have "m_action e = 0 \<or> m_action e = 1 \<or> m_action e = 2 \<or> m_action e = 3"
    using assms by (simp add: possible_event_def)
  then show ?thesis using True
    by (elim disjE; cases "m_ctrl e"; cases "m_alt e"; cases "m_shift e")
      (simp_all add: eventCode_def decode_code_def Let_def)
next
  case False
  then have "m_button e = 0 \<or> m_button e = 1 \<or> m_button e = 2 \<or> m_button e = 3"
    "m_action e = 0 \<or> m_action e = 1 \<or> m_action e = 32"
    using assms by (simp_all add: possible_event_def)
  then show ?thesis
    by (elim disjE; cases "m_ctrl e"; cases "m_alt e"; cases "m_shift e")
      (simp_all add: eventCode_def decode_code_def final_byte_def ustr_def Let_def)
qed

subsection \<open>What is reported\<close>

lemma restrict_fields:
  "restrict_event p e = Some e' \<Longrightarrow> m_col e' = m_col e \<and> m_row e' = m_row e \<and> m_x e' = m_x e \<and> m_y e' = m_y e
    \<and> m_button e' = m_button e \<and> m_action e' = m_action e
    \<and> (if p = X10 then \<not> m_ctrl e' \<and> \<not> m_alt e' \<and> \<not> m_shift e'
       else m_ctrl e' = m_ctrl e \<and> m_alt e' = m_alt e \<and> m_shift e' = m_shift e)"
  by (cases p) (auto split: if_splits)

lemma final_byte_no_digit: "final_byte e = [] \<or> \<not> is_digit (hd (final_byte e))"
  by (simp add: final_byte_def ustr_def is_digit_def)

lemma sgr_report_nonempty [simp]: "sgr_report k a b f \<noteq> []"
  by (simp add: sgr_report_def ESC_def)

text \<open>An event that is reported: it is possible, the protocol has it, and the report is sent.\<close>

lemma reported:
  assumes "triggerMouseEvent e s = (True, s')"
  obtains e' where "\<not> impossible_event e (mterm s)"
    "restrict_event (activeProtocol (mterm s)) (e\<lparr>m_col := m_col e + 1, m_row := m_row e + 1\<rparr>) = Some e'"
    "mterm s' = send_report (activeEncoding (mterm s)) (encode_event (activeEncoding (mterm s)) e') (mterm s)"
    "lastEvent s' = Some e'"
  using assms by (auto simp: triggerMouseEvent_def Let_def split: if_splits option.splits)

text \<open>
  C8: In the SGR encoding a reported mouse event is sent as one string that a program can read back: it decodes to
  the event's button, kind of action, column and row (counted from one) and modifiers (none in the X10 protocol).
  Only events in the screen that the protocol wants are reported.
\<close>

theorem mouse_report_decodes:
  assumes "triggerMouseEvent e s = (True, s')" "activeEncoding (mterm s) = SGR" "possible_event e"
    "\<not> disableStdin (options (mterm s))"
  shows "\<exists>d k f. data_sent (mterm s') = data_sent (mterm s) @ [d]
    \<and> read_sgr d = Some (k, nat (m_col e) + 1, nat (m_row e) + 1, f)
    \<and> decode_code k f = (m_button e, m_action e, m_ctrl e \<and> activeProtocol (mterm s) \<noteq> X10,
        m_alt e \<and> activeProtocol (mterm s) \<noteq> X10, m_shift e \<and> activeProtocol (mterm s) \<noteq> X10)
    \<and> 0 \<le> m_col e \<and> m_col e < cols (mterm s) \<and> 0 \<le> m_row e \<and> m_row e < rows (mterm s)
    \<and> restrict_event (activeProtocol (mterm s)) e \<noteq> None"
proof -
  let ?p = "activeProtocol (mterm s)"
  obtain e' where r: "\<not> impossible_event e (mterm s)"
    "restrict_event ?p (e\<lparr>m_col := m_col e + 1, m_row := m_row e + 1\<rparr>) = Some e'"
    "mterm s' = send_report (activeEncoding (mterm s)) (encode_event (activeEncoding (mterm s)) e') (mterm s)"
    using reported [OF assms(1)] by blast
  have f: "m_col e' = m_col e + 1" "m_row e' = m_row e + 1" "m_button e' = m_button e" "m_action e' = m_action e"
    "m_ctrl e' = (m_ctrl e \<and> ?p \<noteq> X10)" "m_alt e' = (m_alt e \<and> ?p \<noteq> X10)" "m_shift e' = (m_shift e \<and> ?p \<noteq> X10)"
    using restrict_fields [OF r(2)] by (auto split: if_splits)
  have in_screen: "0 \<le> m_col e" "m_col e < cols (mterm s)" "0 \<le> m_row e" "m_row e < rows (mterm s)"
    using r(1) by (auto simp: impossible_event_def)
  let ?d = "sgr_report (eventCode e' True) (m_col e') (m_row e') (final_byte e')"
  have "data_sent (mterm s') = data_sent (mterm s) @ [?d]"
    using r(3) assms(2,4) by (simp add: send_report_def)
  moreover have "read_sgr ?d = Some (eventCode e' True, nat (m_col e) + 1, nat (m_row e) + 1, final_byte e')"
    using read_sgr_report [of "m_col e'" "m_row e'" "final_byte e'"] final_byte_no_digit f(1,2) in_screen
    by (simp add: nat_add_distrib)
  moreover have "decode_code (eventCode e' True) (final_byte e') = (m_button e', m_action e', m_ctrl e', m_alt e', m_shift e')"
    by (rule decode_event) (use assms(3) in \<open>simp only: possible_event_def f(3) f(4)\<close>)
  moreover have "restrict_event ?p e \<noteq> None" using r(2) by (cases ?p) (auto split: if_splits)
  ultimately show ?thesis using f in_screen by auto
qed

definition left_click :: mouse_event where
  "left_click =
     \<lparr>m_col = 4, m_row = 2, m_x = 40, m_y = 30, m_button = 0, m_action = 1, m_ctrl = True, m_alt = False, m_shift = False\<rparr>"

definition mouse_on :: "mouse_protocol \<Rightarrow> mouse_encoding \<Rightarrow> mouse_state" where
  "mouse_on p k = \<lparr>mterm = (new_term plain_options 80 24)\<lparr>activeProtocol := p, activeEncoding := k\<rparr>, lastEvent = None\<rparr>"

theorem mouse_report_decodes_witness:
  "\<exists>d k f. data_sent (mterm (snd (triggerMouseEvent left_click (mouse_on VT200 SGR)))) =
      data_sent (mterm (mouse_on VT200 SGR)) @ [d]
    \<and> read_sgr d = Some (k, 5, 3, f) \<and> decode_code k f = (0, 1, True, False, False)"
proof -
  have p: "possible_event left_click" by (simp add: possible_event_def left_click_def)
  have t: "triggerMouseEvent left_click (mouse_on VT200 SGR) = (True, snd (triggerMouseEvent left_click (mouse_on VT200 SGR)))"
    by (simp add: triggerMouseEvent_def impossible_event_def left_click_def mouse_on_def Let_def)
  have s: "activeEncoding (mterm (mouse_on VT200 SGR)) = SGR" "\<not> disableStdin (options (mterm (mouse_on VT200 SGR)))"
    "activeProtocol (mterm (mouse_on VT200 SGR)) = VT200" by (simp_all add: mouse_on_def plain_options_def)
  show ?thesis using mouse_report_decodes [OF t s(1) p s(2)] unfolding s(3) by (auto simp: left_click_def)
qed

text \<open>A move that is reported is never the report before it again.\<close>

lemma moves_differ:
  assumes "triggerMouseEvent e s = (True, s')" "m_action e = 32" "lastEvent s = Some l" "activeProtocol (mterm s) \<noteq> X10"
  shows "\<not> equalEvents l (the (lastEvent s')) (activeEncoding (mterm s) = SGR_PIXELS)"
proof -
  have "\<not> equalEvents l (e\<lparr>m_col := m_col e + 1, m_row := m_row e + 1\<rparr>) (activeEncoding (mterm s) = SGR_PIXELS)"
    using assms(1-3) by (auto simp: triggerMouseEvent_def Let_def split: if_splits option.splits)
  moreover obtain e' where "lastEvent s' = Some e'"
    "restrict_event (activeProtocol (mterm s)) (e\<lparr>m_col := m_col e + 1, m_row := m_row e + 1\<rparr>) = Some e'"
    using reported [OF assms(1)] by blast
  ultimately show ?thesis using assms(4) by (cases "activeProtocol (mterm s)") (auto split: if_splits)
qed

text \<open>In the default encoding nothing is sent beyond the 223rd column or row, and the event still counts as reported.\<close>

lemma default_report_limit:
  assumes "223 < m_col e \<or> 223 < m_row e"
  shows "encode_event DEFAULT e = []"
  using assms by (auto simp: Let_def)

subsection \<open>Listeners\<close>

text \<open>
  Output changes the protocol: the listener of the terminal follows the events of the mouse service, among the
  events that the output fires.
\<close>

definition listen :: "term_event list \<Rightarrow> mouse_binding \<Rightarrow> mouse_binding" where
  "listen es = fold (\<lambda>e m. case e of On_protocol_change k \<Rightarrow> protocolChanged k m | _ \<Rightarrow> m) es"

datatype mouse_input = Protocol mouse_protocol | Encoding mouse_encoding | Down bool dom_mouse | Up dom_mouse | Move dom_mouse | Turn dom_mouse

definition on_term :: "(terminal_state \<Rightarrow> terminal_state) \<Rightarrow> mouse_binding \<Rightarrow> mouse_binding" where
  "on_term f m =
     (let t = mterm (mserv m); t' = f t
      in listen (drop (length (out t)) (out t')) (m\<lparr>mserv := (mserv m)\<lparr>mterm := t'\<rparr>\<rparr>))"

fun mouse_step :: "mouse_input \<Rightarrow> mouse_binding \<Rightarrow> mouse_binding" where
  "mouse_step (Protocol p) m = on_term (set_activeProtocol p) m"
| "mouse_step (Encoding k) m = on_term (\<lambda>t. t\<lparr>activeEncoding := k\<rparr>) m"
| "mouse_step (Down force d) m = on_mousedown force d m"
| "mouse_step (Up d) m = on_mouseup d m"
| "mouse_step (Move d) m = on_mousemove d m"
| "mouse_step (Turn d) m = on_wheel d m"

definition binding_ok :: "mouse_binding \<Rightarrow> bool" where
  "binding_ok m \<longleftrightarrow>
     (let p = activeProtocol (mterm (mserv m))
      in l_mousemove m = (p = ANY) \<and> l_mousedrag m = (p \<in> {DRAG, ANY}) \<and> l_mouseup m = (p \<in> {VT200, DRAG, ANY})
         \<and> l_wheel m = (p \<in> {VT200, DRAG, ANY}) \<and> selecting m = (p = NONE)
         \<and> (doc_mouseup m \<longrightarrow> l_mouseup m) \<and> (doc_mousemove m \<longrightarrow> l_mousedrag m \<and> doc_mouseup m))"

lemma protocol_change_ok:
  "binding_ok m \<Longrightarrow> activeProtocol (mterm (mserv m')) = p \<Longrightarrow> doc_mouseup m' = doc_mouseup m \<Longrightarrow>
    doc_mousemove m' = doc_mousemove m \<Longrightarrow> binding_ok (protocolChanged (protocol_events p) m')"
  by (cases p) (auto simp: binding_ok_def protocolChanged_def Let_def)

lemma report_by_frame [simp]:
  "activeProtocol (mterm (mserv (report_by d m))) = activeProtocol (mterm (mserv m))"
  "l_mouseup (report_by d m) = l_mouseup m" "l_mousedrag (report_by d m) = l_mousedrag m"
  "l_mousemove (report_by d m) = l_mousemove m" "l_wheel (report_by d m) = l_wheel m" "selecting (report_by d m) = selecting m"
  "doc_mouseup (report_by d m) = doc_mouseup m" "doc_mousemove (report_by d m) = doc_mousemove m"
proof -
  have p: "activeProtocol (triggerDataEvent s u t) = activeProtocol t" "activeProtocol (triggerBinaryEvent s t) = activeProtocol t" for s u t
    by (simp_all add: triggerDataEvent_def triggerBinaryEvent_def emit_def Let_def)
  have "activeProtocol (mterm (snd (triggerMouseEvent e s))) = activeProtocol (mterm s)" for e s
    using p by (simp add: triggerMouseEvent_def send_report_def Let_def split: option.splits)
  then show "activeProtocol (mterm (mserv (report_by d m))) = activeProtocol (mterm (mserv m))"
    by (simp add: report_by_def report_dom_def split: option.splits prod.splits)
qed (simp_all add: report_by_def)

lemma report_by_ok: "binding_ok m \<Longrightarrow> binding_ok (report_by d m)"
  by (simp add: binding_ok_def)

lemma binding_ok_mserv:
  "binding_ok m \<Longrightarrow> activeProtocol (mterm s) = activeProtocol (mterm (mserv m)) \<Longrightarrow> binding_ok (m\<lparr>mserv := s\<rparr>)"
  by (auto simp: binding_ok_def Let_def)

lemma mouse_step_ok:
  assumes "binding_ok m"
  shows "binding_ok (mouse_step e m)"
proof (cases e)
  case (Protocol p)
  have "on_term (set_activeProtocol p) m =
      protocolChanged (protocol_events p) (m\<lparr>mserv := (mserv m)\<lparr>mterm := set_activeProtocol p (mterm (mserv m))\<rparr>\<rparr>)"
    by (simp add: on_term_def set_activeProtocol_def emit_def listen_def Let_def)
  then show ?thesis using protocol_change_ok [OF assms, of _ p] Protocol by (simp add: set_activeProtocol_def emit_def)
next
  case (Encoding k)
  then show ?thesis using assms by (auto simp: on_term_def listen_def binding_ok_def Let_def)
next
  case (Down force d)
  have "binding_ok (report_by d m)" by (rule report_by_ok [OF assms])
  then show ?thesis using Down assms
    by (auto simp: on_mousedown_def Let_def binding_ok_def)
next
  case (Up d)
  then show ?thesis using report_by_ok [OF assms, of d] assms
    by (auto simp: on_mouseup_def Let_def binding_ok_def)
next
  case (Move d)
  then show ?thesis using report_by_ok [OF assms, of d] report_by_ok [of "report_by d m" d] assms
    by (auto simp: on_mousemove_def Let_def binding_ok_def)
next
  case (Turn d)
  have "activeProtocol (triggerDataEvent s u t) = activeProtocol t" for s u t
    by (simp add: triggerDataEvent_def emit_def Let_def)
  then show ?thesis using report_by_ok [OF assms, of d] binding_ok_mserv [OF assms] assms Turn
    by (simp add: on_wheel_def Let_def)
qed

definition new_binding :: "terminal_state \<Rightarrow> mouse_binding" where
  "new_binding t =
     protocolChanged (protocol_events (activeProtocol t))
       \<lparr>mserv = \<lparr>mterm = t, lastEvent = None\<rparr>, l_mouseup = False, l_wheel = False, l_mousedrag = False, l_mousemove = False,
        doc_mouseup = False, doc_mousemove = False, selecting = True\<rparr>"

lemma new_binding_ok: "binding_ok (new_binding t)"
  by (cases "activeProtocol t") (simp_all add: new_binding_def binding_ok_def protocolChanged_def Let_def)

text \<open>
  In every reachable state the listeners are those that the protocol needs, and a button's release is waited for
  only while it is: nothing keeps listening after a program has switched the mouse off.
\<close>

theorem mouse_listeners_follow:
  "binding_ok (fold mouse_step es (new_binding t))"
proof -
  have "binding_ok m \<Longrightarrow> binding_ok (fold mouse_step es m)" for m
    by (induction es arbitrary: m) (simp_all add: mouse_step_ok)
  then show ?thesis using new_binding_ok by blast
qed

end
