(* ===== verification/Input_Link.thy ===== *)
theory Input_Link
  imports Terminal_Link Xterm_Mouse_Props
begin

text \<open>
  From the keyboard and the mouse to the shell: the terminal's events of input and what the page makes of them.
  The controller listens to \<open>onData\<close> only.
\<close>

definition page_input :: "term_event list \<Rightarrow> page \<Rightarrow> page" where
  "page_input es = fold (\<lambda>e p. case e of On_data s \<Rightarrow> onData s p | _ \<Rightarrow> p) es"

text \<open>The events that a change of the terminal has fired.\<close>

definition new_events :: "terminal_state \<Rightarrow> terminal_state \<Rightarrow> term_event list" where
  "new_events t t' = drop (length (out t)) (out t')"

definition only_adds :: "terminal_state \<Rightarrow> terminal_state \<Rightarrow> bool" where
  "only_adds t t' \<longleftrightarrow> (\<exists>es. out t' = out t @ es)"

lemma page_input_data: "page_input es p = fold onData (concat (map data_of es)) p"
  by (induction es arbitrary: p) (auto simp: page_input_def split: term_event.splits)

lemma new_events_data:
  "only_adds t t' \<Longrightarrow> data_sent t' = data_sent t @ ds \<Longrightarrow> page_input (new_events t t') p = fold onData ds p"
  by (auto simp: only_adds_def new_events_def data_sent_def page_input_data)

subsection \<open>Keys\<close>

lemma only_adds_refl [simp]: "only_adds t t"
  by (simp add: only_adds_def)

lemma only_adds_trans: "only_adds a b \<Longrightarrow> only_adds b c \<Longrightarrow> only_adds a c"
  by (auto simp: only_adds_def)

lemma only_adds_emit [simp]: "only_adds t (emit e t)"
  by (simp add: only_adds_def emit_def)

lemma only_adds_trigger [simp]: "only_adds t t' \<Longrightarrow> only_adds t (triggerDataEvent s u t')"
  by (auto simp: only_adds_def triggerDataEvent_def emit_def Let_def)

lemma only_adds_cursor [simp]: "only_adds t (emu (showCursor v)) = only_adds t (emu v)"
  by (simp add: only_adds_def showCursor_def upd_emu_def)

lemma keyDown_adds:
  assumes "types_char v c e" "\<not> isComposing v" "\<not> isSendingComposition v"
  shows "only_adds (emu v) (emu (snd (snd (keyDown e v))))"
proof (cases "isThirdLevelShift False e v")
  case True
  then show ?thesis using keyDown_third_level [of e c v] types_char_parts [OF assms(1)] assms(2,3) by auto
next
  case False
  then have plain: "\<not> ctrlKey e" "\<not> altKey e" "\<not> metaKey e" using assms(1) by (simp_all add: types_char_def)
  note parts = types_char_parts [OF assms(1)]
  have "keyCode e \<notin> special_codes" using parts by simp
  note ev = evaluate_char [OF _ this plain]
  show ?thesis
    using parts plain assms(2,3)
    by (simp add: keyDown_def Let_def comp_keydown_go ev plain_key_def send_key_def reply_def cancel_event_def)
qed

lemma keyPress_adds: "only_adds (emu v) (emu (snd (snd (keyPress e v))))"
  by (simp add: keyPress_def Let_def split: option.splits)

lemma inputEvent_adds: "only_adds (emu v) (emu (snd (snd (inputEvent s i k v))))"
  by (simp add: inputEvent_def Let_def)

lemma browser_key_adds:
  assumes "types_char v c e" "\<not> isComposing v" "\<not> isSendingComposition v"
  shows "only_adds (emu v) (emu (browser_key composed c e v))"
proof -
  obtain p1 r1 v1 where d: "keyDown e v = (p1, r1, v1)" by (cases "keyDown e v")
  obtain p2 r2 v2 where p: "keyPress (press_of c e) v1 = (p2, r2, v2)" by (cases "keyPress (press_of c e) v1")
  have a: "only_adds (emu v) (emu v1)" "only_adds (emu v1) (emu v2)"
    using keyDown_adds [OF assms] keyPress_adds [of v1 "press_of c e"] d p by simp_all
  have b: "only_adds (emu v2) (emu (snd (snd (inputEvent [c] True composed (v2\<lparr>textarea := textarea v2 @ [c]\<rparr>)))))"
    using inputEvent_adds [of "v2\<lparr>textarea := textarea v2 @ [c]\<rparr>" "[c]" True composed] by simp
  have k: "only_adds (emu v) (emu v2)" by (rule only_adds_trans [OF a])
  show ?thesis using a(1) k only_adds_trans [OF k b] by (simp add: browser_key_def d p)
qed

lemma text_encode_single: "length (text_encode [c]) < 5"
  by (simp add: text_encode_def utf8_bytes_def)

text \<open>
  C2: A typed character reaches the shell: with an open connection, standard input on and no composition of an input
  method going on, a key that types one character (with control, alt and meta up, or with the modifiers of AltGr)
  makes the page send exactly one message, and the channel of a running session that receives it appends the
  character's UTF-8 encoding, once, to the input of the pseudo-terminal. The browser is taken to ask the listeners of
  keydown, keypress and input in this order, each one unless the one before has prevented the event.
\<close>

theorem typed_key_reaches_shell:
  assumes "types_char v c e" "\<not> isComposing v" "\<not> isSendingComposition v" "\<not> disableStdin (options (emu v))"
    and "term_sub (ctl p) = Some s" "isOpen (cab p)" "chan_session ch = Some r" "ready r w"
  shows "\<exists>payload.
    sent (cab (page_input (new_events (emu v) (emu (browser_key composed c e v))) p)) = sent (cab p) @
      [Frame ''message'' (sub_identifier s) (Some (json_stringify payload))] \<and>
    channel_receive ch False payload w =
      (upd_session r (\<lambda>u. u\<lparr>pty_input := pty_input u @ text_encode [c]\<rparr>) w, Inr ())"
proof -
  have "page_input (new_events (emu v) (emu (browser_key composed c e v))) p = onData [c] p"
    using new_events_data [OF browser_key_adds [OF assms(1-3)] typed_key_sent_once [OF assms(1-4)]] by simp
  moreover have "length (text_encode [c]) < 5" by (rule text_encode_single)
  ultimately show ?thesis using keystrokes_reach_shell [OF assms(5-8), of "[c]"] by simp
qed

text \<open>AltGr and Q on a German keyboard of Windows, which types an at sign.\<close>

definition at_sign_key :: key_event where
  "at_sign_key = (letter_key 64)\<lparr>keyCode := 81, ctrlKey := True, altKey := True, altGraph := True\<rparr>"

theorem typed_key_reaches_shell_witness:
  "\<exists>payload.
    sent (cab (page_input (new_events (new_term plain_options 80 24)
        (emu (browser_key True 64 at_sign_key (new_view False True (new_term plain_options 80 24))))) (open_page 80 24))) =
      [Frame ''message'' ''id'' (Some (json_stringify payload))] \<and>
    channel_receive (new_channel\<lparr>chan_session := Some 0\<rparr>) False payload running_server =
      (upd_session 0 (\<lambda>u. u\<lparr>pty_input := pty_input u @ [64]\<rparr>) running_server, Inr ())"
proof -
  let ?v = "new_view False True (new_term plain_options 80 24)"
  have t: "types_char ?v 64 at_sign_key"
    by (simp add: types_char_def letter_key_def at_sign_key_def special_codes_def isThirdLevelShift_def new_view_def)
  have v: "\<not> isComposing ?v" "\<not> isSendingComposition ?v" "\<not> disableStdin (options (emu ?v))"
    by (simp_all add: new_view_def plain_options_def)
  have u: "text_encode [64] = [64]" by (simp add: text_encode_ascii)
  have op: "sent (cab (open_page 80 24)) = []" "sub_identifier sample_sub = ''id''" "emu ?v = new_term plain_options 80 24"
    by (simp_all add: sample_sub_def open_page_def open_cable_def new_consumer_def new_view_def)
  show ?thesis
    using typed_key_reaches_shell [OF t v, of "open_page 80 24" sample_sub "new_channel\<lparr>chan_session := Some 0\<rparr>" 0
        running_server True]
    unfolding op u by simp
qed

subsection \<open>The mouse\<close>

lemma send_report_adds: "only_adds t (send_report k s t)"
  by (simp add: send_report_def triggerBinaryEvent_def)

lemma default_report_no_data: "data_sent (send_report DEFAULT s t) = data_sent t"
  by (simp add: send_report_def triggerBinaryEvent_def)

text \<open>
  C6: Mouse reports in the terminal's default encoding never leave the page: the emulator hands them out by
  \<open>onBinary\<close>, to which the controller does not listen. The event counts as reported, and nothing is sent. In the
  two SGR encodings the page sends the report as one piece of data.
\<close>

theorem default_mouse_reports_lost:
  assumes "triggerMouseEvent e s = (True, s')" "\<not> disableStdin (options (mterm s))"
  shows "page_input (new_events (mterm s) (mterm s')) p =
    (if activeEncoding (mterm s) = DEFAULT then p
     else onData (encode_event (activeEncoding (mterm s)) (the (lastEvent s'))) p)"
proof -
  let ?k = "activeEncoding (mterm s)"
  obtain e' where r: "mterm s' = send_report ?k (encode_event ?k e') (mterm s)" "lastEvent s' = Some e'"
    using reported [OF assms(1)] by metis
  have adds: "only_adds (mterm s) (mterm s')" using send_report_adds r(1) by simp
  have d: "data_sent (mterm s') = data_sent (mterm s) @ (if ?k = DEFAULT then [] else [encode_event ?k e'])"
    using assms(2) default_report_no_data unfolding r(1) by (cases ?k) (simp_all add: send_report_def)
  have "page_input (new_events (mterm s) (mterm s')) p = fold onData (if ?k = DEFAULT then [] else [encode_event ?k e']) p"
    by (rule new_events_data [OF adds d])
  then show ?thesis using r(2) by simp
qed

theorem default_mouse_reports_lost_witness:
  "fst (triggerMouseEvent left_click (mouse_on VT200 DEFAULT))
    \<and> page_input (new_events (mterm (mouse_on VT200 DEFAULT)) (mterm (snd (triggerMouseEvent left_click (mouse_on VT200 DEFAULT)))))
        (open_page 80 24) = open_page 80 24"
proof -
  have t: "triggerMouseEvent left_click (mouse_on VT200 DEFAULT) =
      (True, snd (triggerMouseEvent left_click (mouse_on VT200 DEFAULT)))"
    by (simp add: triggerMouseEvent_def impossible_event_def left_click_def mouse_on_def Let_def)
  have s: "\<not> disableStdin (options (mterm (mouse_on VT200 DEFAULT)))" "activeEncoding (mterm (mouse_on VT200 DEFAULT)) = DEFAULT"
    by (simp_all add: mouse_on_def plain_options_def)
  show ?thesis using default_mouse_reports_lost [OF t s(1), of "open_page 80 24"] t s(2) by (metis fst_conv)
qed

end
