(* ===== verification/Editor_Lines.thy ===== *)
theory Editor_Lines
  imports JS_Prelude
begin

text \<open>
  Arrays of lines, the currency of the editor's documents (\<open>@codemirror/state\<close>, bundled into
  \<open>app/assets/builds/application.js\<close>): \<open>textLength\<close>, \<open>appendText\<close> and \<open>sliceText\<close>, and what they mean for
  the text that the lines spell, joined by line feeds. Positions are JavaScript numbers that may be
  negative on the way, so they are integers.
\<close>

definition NL :: cu where "NL = 10"

fun join_nl :: "ustring list \<Rightarrow> ustring" where
  "join_nl [] = []"
| "join_nl [l] = l"
| "join_nl (l # m # ls) = l @ NL # join_nl (m # ls)"

abbreviation len :: "'a list \<Rightarrow> int" where
  "len xs \<equiv> int (length xs)"

fun textLength :: "ustring list \<Rightarrow> int" where
  "textLength [] = -1"
| "textLength (l # ls) = textLength ls + len l + 1"

text \<open>The default upper bound of \<open>appendText\<close>.\<close>

definition MAX_TO :: int where "MAX_TO = 1000000000"

fun appendText_loop ::
    "ustring list \<Rightarrow> ustring list \<Rightarrow> int \<Rightarrow> int \<Rightarrow> int \<Rightarrow> bool \<Rightarrow> ustring list" where
  "appendText_loop [] target fr to pos first = target"
| "appendText_loop (l # ls) target fr to pos first =
     (if pos \<le> to then
        (let end = pos + len l
         in if fr \<le> end then
              (let l1 = (if to < end then take (nat (to - pos)) l else l);
                   l2 = (if pos < fr then drop (nat (fr - pos)) l1 else l1)
               in if first
                  then appendText_loop ls (butlast target @ [last target @ l2]) fr to (end + 1) False
                  else appendText_loop ls (target @ [l2]) fr to (end + 1) False)
            else appendText_loop ls target fr to (end + 1) first)
      else target)"

definition appendText :: "ustring list \<Rightarrow> ustring list \<Rightarrow> int \<Rightarrow> int \<Rightarrow> ustring list" where
  "appendText ls target fr to = appendText_loop ls target fr to 0 True"

definition sliceText :: "ustring list \<Rightarrow> int \<Rightarrow> int \<Rightarrow> ustring list" where
  "sliceText ls fr to = appendText ls [[]] fr to"

subsection \<open>The lines that a range touches\<close>

text \<open>
  \<open>cut\<close> are the pieces of lines that \<open>appendText\<close> appends; \<open>glue\<close> appends lines to lines, the first
  piece to the last line.
\<close>

fun cut :: "ustring list \<Rightarrow> int \<Rightarrow> int \<Rightarrow> int \<Rightarrow> ustring list" where
  "cut [] fr to pos = []"
| "cut (l # ls) fr to pos =
     (if pos \<le> to \<and> fr \<le> pos + len l then [sub_list (fr - pos) (to - pos) l] else [])
     @ cut ls fr to (pos + len l + 1)"

definition glue :: "ustring list \<Rightarrow> ustring list \<Rightarrow> ustring list" where
  "glue xs ys = (case ys of [] \<Rightarrow> xs | y # ys' \<Rightarrow> butlast xs @ [last xs @ y] @ ys')"

lemma glue_simps [simp]:
  "glue xs [] = xs" "glue xs (y # ys) = butlast xs @ (last xs @ y) # ys"
  by (simp_all add: glue_def)

lemma glue_empty_line: "ys \<noteq> [] \<Longrightarrow> glue [[]] ys = ys"
  by (cases ys) simp_all

lemma glue_not_Nil [simp]: "xs \<noteq> [] \<Longrightarrow> glue xs ys \<noteq> []"
  by (cases ys) simp_all

lemma cut_beyond: "to < pos \<Longrightarrow> cut ls fr to pos = []"
  by (induction ls fr to pos rule: cut.induct) auto

lemma cut_append:
  "cut (xs @ ys) fr to pos = cut xs fr to pos @ cut ys fr to (pos + textLength xs + 1)"
  by (induction xs arbitrary: pos) (simp_all add: algebra_simps)

lemma cut_shift: "cut ls (fr - d) (to - d) pos = cut ls fr to (pos + d)"
  by (induction ls arbitrary: pos) (simp_all add: algebra_simps)

lemma piece_eq:
  assumes "pos \<le> to"
  shows "(let l1 = (if to < pos + len l then take (nat (to - pos)) l else l)
     in if pos < fr then drop (nat (fr - pos)) l1 else l1) = sub_list (fr - pos) (to - pos) l"
proof -
  have all: "take (nat (to - pos)) l = (if to < pos + len l then take (nat (to - pos)) l else l)"
    using assms by auto
  have "sub_list (fr - pos) (to - pos) l = drop (nat (fr - pos)) (take (nat (to - pos)) l)"
    by (simp add: sub_list_def drop_take)
  then show ?thesis unfolding Let_def all [symmetric] by auto
qed

lemma appendText_loop_more:
  "appendText_loop ls target fr to pos False = target @ cut ls fr to pos"
proof (induction ls arbitrary: target pos)
  case (Cons l ls)
  show ?case
    using Cons piece_eq [of pos to l fr] cut_beyond [of to pos ls fr]
    by (auto simp: Let_def cut_beyond)
qed simp

lemma appendText_loop_first:
  "appendText_loop ls target fr to pos True = glue target (cut ls fr to pos)"
proof (induction ls arbitrary: target pos)
  case (Cons l ls)
  show ?case
    using Cons piece_eq [of pos to l fr]
    by (auto simp: Let_def cut_beyond appendText_loop_more)
qed simp

lemma appendText_eq: "appendText ls target fr to = glue target (cut ls fr to 0)"
  by (simp add: appendText_def appendText_loop_first)

lemma sliceText_eq: "cut ls fr to 0 \<noteq> [] \<Longrightarrow> sliceText ls fr to = cut ls fr to 0"
  by (simp add: sliceText_def appendText_eq glue_empty_line)

subsection \<open>Joined text\<close>

lemma join_nl_Cons: "ls \<noteq> [] \<Longrightarrow> join_nl (l # ls) = l @ NL # join_nl ls"
  by (cases ls) simp_all

lemma join_nl_append:
  "xs \<noteq> [] \<Longrightarrow> ys \<noteq> [] \<Longrightarrow> join_nl (xs @ ys) = join_nl xs @ NL # join_nl ys"
  by (induction xs rule: join_nl.induct) (simp_all add: join_nl_Cons)

lemma join_nl_snoc: "join_nl (xs @ [x @ y]) = join_nl (xs @ [x]) @ y"
  by (cases "xs = []") (simp_all add: join_nl_append)

lemma join_nl_glue:
  assumes "xs \<noteq> []" and "ys \<noteq> []"
  shows "join_nl (glue xs ys) = join_nl xs @ join_nl ys"
proof -
  obtain y ys' where ys: "ys = y # ys'" using assms(2) by (cases ys) auto
  have "join_nl (butlast xs @ [last xs @ y]) = join_nl xs @ y"
    using assms(1) join_nl_snoc [of "butlast xs" "last xs" y] by simp
  then show ?thesis
    using join_nl_append [of "butlast xs @ [last xs @ y]" ys']
    by (cases "ys' = []") (simp_all add: ys join_nl_Cons)
qed

lemma length_join_nl: "ls \<noteq> [] \<Longrightarrow> len (join_nl ls) = textLength ls"
  by (induction ls rule: join_nl.induct) simp_all

lemma textLength_ge: "-1 \<le> textLength ls" "ls \<noteq> [] \<Longrightarrow> 0 \<le> textLength ls"
  using length_join_nl [of ls] by (cases ls; simp)+

lemma textLength_append: "textLength (xs @ ys) = textLength xs + textLength ys + 1"
  by (induction xs) simp_all

lemma textLength_glue:
  assumes "xs \<noteq> []" and "ys \<noteq> []"
  shows "textLength (glue xs ys) = textLength xs + textLength ys"
  using assms length_join_nl [of "glue xs ys"] length_join_nl [of xs] length_join_nl [of ys]
  by (simp add: join_nl_glue)

lemma cut_not_Nil:
  "fr \<le> pos + textLength ls \<Longrightarrow> pos \<le> to \<Longrightarrow> fr \<le> to \<Longrightarrow> ls \<noteq> [] \<Longrightarrow> cut ls fr to pos \<noteq> []"
proof (induction ls arbitrary: pos)
  case (Cons l ls)
  show ?case
  proof (cases "fr \<le> pos + len l")
    case False
    then have "ls \<noteq> []" using Cons.prems(1) by (cases ls) auto
    with False Cons show ?thesis by simp
  qed (use Cons.prems in simp)
qed simp

lemma sub_list_append_left:
  "j \<le> len xs \<Longrightarrow> sub_list i j (xs @ ys) = sub_list i j xs"
  by (simp add: sub_list_def) 

lemma sub_list_append_right:
  "len xs \<le> i \<Longrightarrow> sub_list i j (xs @ ys) = sub_list (i - len xs) (j - len xs) ys"
proof -
  assume i: "len xs \<le> i"
  have "nat (j - len xs) - nat (i - len xs) = nat j - nat i" using i by linarith
  moreover have "drop (nat i) (xs @ ys) = drop (nat (i - len xs)) ys"
    using i by (simp add: nat_diff_distrib')
  ultimately show ?thesis by (simp only: sub_list_def)
qed

lemma sub_list_append_both:
  "i \<le> len xs \<Longrightarrow> len xs \<le> j \<Longrightarrow>
     sub_list i j (xs @ ys) = sub_list i (len xs) xs @ sub_list 0 (j - len xs) ys"
  by (simp add: sub_list_def nat_diff_distrib' nat_le_iff)

lemma sub_list_nonpos: "i \<le> 0 \<Longrightarrow> sub_list i j xs = sub_list 0 j xs"
  by (simp add: sub_list_def)

lemma sub_list_long: "len xs \<le> j \<Longrightarrow> sub_list i j xs = sub_list i (len xs) xs"
proof -
  assume j: "len xs \<le> j"
  have "length (drop (nat i) xs) \<le> nat j - nat i" "length (drop (nat i) xs) \<le> nat (len xs) - nat i"
    using j by simp_all
  then show ?thesis by (simp add: sub_list_def)
qed

lemma sub_list_shift1: "0 < i \<Longrightarrow> sub_list i j (x # xs) = sub_list (i - 1) (j - 1) xs"
  using sub_list_append_right [of "[x]" i j xs] by simp

text \<open>The cut of a range spells the range of the joined text.\<close>

lemma join_nl_cut:
  assumes "ls \<noteq> []" and "fr \<le> to" and "fr \<le> pos + textLength ls" and "pos \<le> to"
  shows "join_nl (cut ls fr to pos) = sub_list (fr - pos) (to - pos) (join_nl ls)"
  using assms
proof (induction ls arbitrary: pos rule: join_nl.induct)
  case (2 l)
  then show ?case by simp
next
  case (3 l m ls)
  let ?e = "pos + len l" and ?ls = "m # ls"
  have J: "join_nl (l # ?ls) = (l @ [NL]) @ join_nl ?ls" by simp
  have IH: "join_nl (cut ?ls fr to (?e + 1)) = sub_list (fr - (?e + 1)) (to - (?e + 1)) (join_nl ?ls)"
    if "?e + 1 \<le> to"
    using "3.IH" [of "?e + 1"] "3.prems" that by (simp del: cut.simps)
  have cut_eq: "cut (l # ?ls) fr to pos =
      (if fr \<le> ?e then [sub_list (fr - pos) (to - pos) l] else []) @ cut ?ls fr to (?e + 1)"
    using "3.prems"(4) by simp
  show ?case
  proof (cases "to \<le> ?e")
    case True
    then have "fr \<le> ?e" using "3.prems"(2) by simp
    with True show ?thesis
      unfolding cut_eq J
      by (simp add: cut_beyond sub_list_append_left del: cut.simps)
  next
    case beyond: False
    have rest_ne: "cut ?ls fr to (?e + 1) \<noteq> []" if "fr \<le> ?e"
      using that beyond textLength_ge(2) [of ?ls] "3.prems"(2)
      by (intro cut_not_Nil) (simp_all del: textLength.simps)
    show ?thesis
    proof (cases "fr \<le> ?e")
      case True
      have "join_nl (cut (l # ?ls) fr to pos)
          = sub_list (fr - pos) (to - pos) l @ NL # join_nl (cut ?ls fr to (?e + 1))"
        unfolding cut_eq using True rest_ne by (simp add: join_nl_Cons del: cut.simps)
      also have "\<dots> = sub_list (fr - pos) (len l) l @ NL # sub_list 0 (to - (?e + 1)) (join_nl ?ls)"
        using True beyond IH sub_list_long [of l "to - pos" "fr - pos"]
          sub_list_nonpos [of "fr - (?e + 1)" "to - (?e + 1)" "join_nl ?ls"]
        by (simp del: cut.simps join_nl.simps)
      also have "\<dots> = sub_list (fr - pos) (len (l @ [NL])) (l @ [NL])
          @ sub_list 0 (to - (?e + 1)) (join_nl ?ls)"
      proof -
        have "nat (fr - pos) \<le> length l" using True by linarith
        then show ?thesis by (simp add: sub_list_def Suc_diff_le del: join_nl.simps)
      qed
      finally show ?thesis
        unfolding J using True beyond sub_list_append_both [of "fr - pos" "l @ [NL]" "to - pos" "join_nl ?ls"]
        by (simp add: algebra_simps del: join_nl.simps)
    next
      case False
      have "join_nl (cut (l # ?ls) fr to pos) = join_nl (cut ?ls fr to (?e + 1))"
        unfolding cut_eq using False by (simp del: cut.simps)
      also have "\<dots> = sub_list (fr - (?e + 1)) (to - (?e + 1)) (join_nl ?ls)"
        using IH beyond by simp
      also have "\<dots> = sub_list (fr - pos) (to - pos) ((l @ [NL]) @ join_nl ?ls)"
        using False sub_list_append_right [of "l @ [NL]" "fr - pos" "to - pos" "join_nl ?ls"]
        by (simp add: algebra_simps del: join_nl.simps)
      finally show ?thesis unfolding J .
    qed
  qed
qed simp

end
