(* ===== verification/Editor_Text.thy ===== *)
theory Editor_Text
  imports Editor_Lines
begin

text \<open>
  The document of the editor: the class \<open>Text\<close> of \<open>@codemirror/state\<close> (bundled into
  \<open>app/assets/builds/application.js\<close>), a tree whose leaves hold at most 32 lines each. A leaf keeps its
  lines and its length, a node its children and its length; the number of lines of a node is the sum of
  its children's.

  \<open>TextNode.from\<close> calls itself on the chunks that it collects. It is modelled with fuel, \<open>None\<close> for a
  recursion that does not end; \<open>node_from_total\<close> below shows that it ends on the trees the editor builds.
  The operations on top of it are partial for the same reason, and for the reads that would find
  \<open>undefined\<close>.
\<close>

datatype text_tree = TextLeaf "ustring list" int | TextNode "text_tree list" int

fun tlength :: "text_tree \<Rightarrow> int" where
  "tlength (TextLeaf ls l) = l"
| "tlength (TextNode cs l) = l"

fun tlines :: "text_tree \<Rightarrow> nat" where
  "tlines (TextLeaf ls l) = length ls"
| "tlines (TextNode cs l) = sum_list (map tlines cs)"

fun flatten :: "text_tree \<Rightarrow> ustring list" where
  "flatten (TextLeaf ls l) = ls"
| "flatten (TextNode cs l) = concat (map flatten cs)"

text \<open>The text that a document spells.\<close>

definition doc :: "text_tree \<Rightarrow> ustring" where
  "doc t = join_nl (flatten t)"

definition empty_text :: text_tree where
  "empty_text = TextLeaf [[]] 0"

definition mk_leaf :: "ustring list \<Rightarrow> text_tree" where
  "mk_leaf ls = TextLeaf ls (textLength ls)"

definition is_leaf :: "text_tree \<Rightarrow> bool" where
  "is_leaf t = (case t of TextLeaf _ _ \<Rightarrow> True | TextNode _ _ \<Rightarrow> False)"

subsection \<open>Building nodes\<close>

text \<open>\<open>children.reduce((l, ch) => l + ch.length + 1, -1)\<close>.\<close>

definition parts_length :: "text_tree list \<Rightarrow> int" where
  "parts_length cs = foldl (\<lambda>l ch. l + tlength ch + 1) (-1) cs"

record chunk_state =
  chunked :: "text_tree list"
  currentLines :: nat
  currentLen :: int
  currentChunk :: "text_tree list"

definition chunk_init :: chunk_state where
  "chunk_init = \<lparr>chunked = [], currentLines = 0, currentLen = -1, currentChunk = []\<rparr>"

text \<open>\<open>flush\<close>; \<open>mk\<close> is the recursive call of \<open>TextNode.from\<close>.\<close>

definition flush ::
    "(text_tree list \<Rightarrow> int \<Rightarrow> text_tree option) \<Rightarrow> chunk_state \<Rightarrow> chunk_state option" where
  "flush mk st =
     (if currentLines st = 0 then Some st
      else
        (case (if length (currentChunk st) = 1 then Some (currentChunk st ! 0)
               else mk (currentChunk st) (currentLen st)) of
           None \<Rightarrow> None
         | Some t \<Rightarrow> Some \<lparr>chunked = chunked st @ [t], currentLines = 0, currentLen = -1,
                           currentChunk = []\<rparr>))"

definition push_chunk :: "text_tree \<Rightarrow> chunk_state \<Rightarrow> chunk_state" where
  "push_chunk child st =
     st\<lparr>currentLines := currentLines st + tlines child,
        currentLen := currentLen st + (tlength child + 1),
        currentChunk := currentChunk st @ [child]\<rparr>"

text \<open>The third branch of \<open>add3\<close>: a leaf joins the last leaf of the chunk when both fit into one.\<close>

definition merge_leaf :: "text_tree \<Rightarrow> chunk_state \<Rightarrow> chunk_state option" where
  "merge_leaf child st =
     (if currentLines st = 0 \<or> currentChunk st = [] then None
      else
        (case (child, last (currentChunk st)) of
           (TextLeaf ls l, TextLeaf pls pl) \<Rightarrow>
             (if length ls + length pls \<le> 32
              then Some (st\<lparr>currentLines := currentLines st + length ls,
                            currentLen := currentLen st + (l + 1),
                            currentChunk := butlast (currentChunk st) @ [TextLeaf (pls @ ls) (pl + 1 + l)]\<rparr>)
              else None)
         | _ \<Rightarrow> None))"

definition add_other ::
    "(text_tree list \<Rightarrow> int \<Rightarrow> text_tree option) \<Rightarrow> nat \<Rightarrow> text_tree \<Rightarrow> chunk_state \<Rightarrow> chunk_state option"
where
  "add_other mk chunk child st =
     (if tlines child > chunk div 2 \<and> (currentLines st > chunk div 2 \<or> currentLines st = 0) then
        map_option (\<lambda>st'. st'\<lparr>chunked := chunked st' @ [child]\<rparr>) (flush mk st)
      else
        (case merge_leaf child st of
           Some st' \<Rightarrow> Some st'
         | None \<Rightarrow>
             map_option (push_chunk child)
               (if currentLines st + tlines child > chunk then flush mk st else Some st)))"

fun add3 ::
    "(text_tree list \<Rightarrow> int \<Rightarrow> text_tree option) \<Rightarrow> nat \<Rightarrow> text_tree \<Rightarrow> chunk_state \<Rightarrow> chunk_state option"
  and add3_all ::
    "(text_tree list \<Rightarrow> int \<Rightarrow> text_tree option) \<Rightarrow> nat \<Rightarrow> text_tree list \<Rightarrow> chunk_state \<Rightarrow> chunk_state option"
where
  "add3 mk chunk (TextNode cs l) st =
     (if sum_list (map tlines cs) > chunk * 2 then add3_all mk chunk cs st
      else add_other mk chunk (TextNode cs l) st)"
| "add3 mk chunk (TextLeaf ls l) st = add_other mk chunk (TextLeaf ls l) st"
| "add3_all mk chunk [] st = Some st"
| "add3_all mk chunk (c # cs) st =
     (case add3 mk chunk c st of None \<Rightarrow> None | Some st' \<Rightarrow> add3_all mk chunk cs st')"

definition node_from_step ::
    "(text_tree list \<Rightarrow> int \<Rightarrow> text_tree option) \<Rightarrow> text_tree list \<Rightarrow> int \<Rightarrow> text_tree option" where
  "node_from_step mk children l =
     (let lines = sum_list (map tlines children)
      in if lines < 32 then Some (TextLeaf (concat (map flatten children)) l)
         else
           (let chunk = max 32 (lines div 32)
            in case add3_all mk chunk children chunk_init of
                 None \<Rightarrow> None
               | Some st \<Rightarrow>
                   (case flush mk st of
                      None \<Rightarrow> None
                    | Some st' \<Rightarrow>
                        (if length (chunked st') = 1 then Some (chunked st' ! 0)
                         else Some (TextNode (chunked st') l)))))"

fun node_from_fuel :: "nat \<Rightarrow> text_tree list \<Rightarrow> int \<Rightarrow> text_tree option" where
  "node_from_fuel 0 children l = None"
| "node_from_fuel (Suc n) children l = node_from_step (node_from_fuel n) children l"

text \<open>The recursion is on fewer lines each time, so the number of lines is fuel enough.\<close>

definition node_from :: "text_tree list \<Rightarrow> int \<Rightarrow> text_tree option" where
  "node_from children l = node_from_fuel (Suc (sum_list (map tlines children))) children l"

text \<open>\<open>TextLeaf.split\<close>: groups of 32 lines.\<close>

fun leaf_split_loop :: "ustring list \<Rightarrow> ustring list \<Rightarrow> int \<Rightarrow> text_tree list \<Rightarrow> text_tree list" where
  "leaf_split_loop [] part l target = (if l > -1 then target @ [TextLeaf part l] else target)"
| "leaf_split_loop (x # xs) part l target =
     (let part' = part @ [x]; l' = l + (len x + 1)
      in if length part' = 32 then leaf_split_loop xs [] (-1) (target @ [TextLeaf part' l'])
         else leaf_split_loop xs part' l' target)"

definition leaf_split :: "ustring list \<Rightarrow> text_tree list" where
  "leaf_split ls = leaf_split_loop ls [] (-1) []"

text \<open>\<open>Text.of\<close>: \<open>Inl\<close> is the \<open>RangeError\<close> of an empty array; \<open>Inr None\<close> does not occur.\<close>

datatype text_error = No_lines | Bad_position int int | Bad_line int nat

definition text_of :: "ustring list \<Rightarrow> text_error + text_tree option" where
  "text_of ls =
     (if ls = [] then Inl No_lines
      else if ls = [[]] then Inr (Some empty_text)
      else if length ls \<le> 32 then Inr (Some (mk_leaf ls))
      else Inr (let parts = leaf_split ls in node_from parts (parts_length parts)))"

subsection \<open>Taking ranges apart\<close>

definition leaf_decompose ::
    "ustring list \<Rightarrow> int \<Rightarrow> int \<Rightarrow> int \<Rightarrow> bool \<Rightarrow> text_tree list \<Rightarrow> text_tree list option" where
  "leaf_decompose ls l fr to open_from target =
     (let (tl, tn) = (if fr \<le> 0 \<and> l \<le> to then (ls, l) else (sliceText ls fr to, min to l - max 0 fr))
      in if open_from then
           (if target = [] then None
            else
              (case last target of
                 TextNode _ _ \<Rightarrow> None
               | TextLeaf pls pl \<Rightarrow>
                   (let joined = appendText tl pls 0 tn
                    in if length joined \<le> 32
                       then Some (butlast target @ [TextLeaf joined (pl + tn)])
                       else (let mid = length joined div 2
                             in Some (butlast target @ [mk_leaf (take mid joined), mk_leaf (drop mid joined)])))))
         else Some (target @ [TextLeaf tl tn]))"

text \<open>The bits of \<open>open\<close> are two flags: \<open>Open.From\<close> (1) and \<open>Open.To\<close> (2).\<close>

fun decompose ::
    "text_tree \<Rightarrow> int \<Rightarrow> int \<Rightarrow> bool \<Rightarrow> bool \<Rightarrow> text_tree list \<Rightarrow> text_tree list option"
  and decompose_children ::
    "text_tree list \<Rightarrow> int \<Rightarrow> int \<Rightarrow> int \<Rightarrow> bool \<Rightarrow> bool \<Rightarrow> text_tree list \<Rightarrow> text_tree list option"
where
  "decompose (TextLeaf ls l) fr to open_from open_to target = leaf_decompose ls l fr to open_from target"
| "decompose (TextNode cs l) fr to open_from open_to target =
     decompose_children cs 0 fr to open_from open_to target"
| "decompose_children [] pos fr to open_from open_to target = Some target"
| "decompose_children (c # cs) pos fr to open_from open_to target =
     (if pos \<le> to then
        (let end = pos + tlength c;
             c_from = (open_from \<and> pos \<le> fr);
             c_to = (open_to \<and> to \<le> end)
         in case (if fr \<le> end \<and> pos \<le> to then
                    (if fr \<le> pos \<and> end \<le> to \<and> \<not> (c_from \<or> c_to) then Some (target @ [c])
                     else decompose c (fr - pos) (to - pos) c_from c_to target)
                  else Some target) of
              None \<Rightarrow> None
            | Some target' \<Rightarrow> decompose_children cs (end + 1) fr to open_from open_to target')
      else Some target)"

subsection \<open>The operations\<close>

definition clip :: "text_tree \<Rightarrow> int \<Rightarrow> int \<Rightarrow> int \<times> int" where
  "clip t fr to = (let f = max 0 (min (tlength t) fr) in (f, max f (min (tlength t) to)))"

text \<open>\<open>Text.replace\<close>, which both subclasses fall back to.\<close>

definition base_replace :: "text_tree \<Rightarrow> int \<Rightarrow> int \<Rightarrow> text_tree \<Rightarrow> text_tree option" where
  "base_replace t fr0 to0 ins =
     (let (fr, to) = clip t fr0 to0
      in case decompose t 0 fr False True [] of
           None \<Rightarrow> None
         | Some parts1 \<Rightarrow>
             (case (if tlength ins \<noteq> 0 then decompose ins 0 (tlength ins) True True parts1
                    else Some parts1) of
                None \<Rightarrow> None
              | Some parts2 \<Rightarrow>
                  (case decompose t to (tlength t) True False parts2 of
                     None \<Rightarrow> None
                   | Some parts \<Rightarrow> node_from parts (tlength t - (to - fr) + tlength ins))))"

definition leaf_replace :: "ustring list \<Rightarrow> int \<Rightarrow> int \<Rightarrow> int \<Rightarrow> text_tree \<Rightarrow> text_tree option" where
  "leaf_replace ls l fr0 to0 ins =
     (case ins of
        TextNode _ _ \<Rightarrow> base_replace (TextLeaf ls l) fr0 to0 ins
      | TextLeaf ils il \<Rightarrow>
          (let (fr, to) = clip (TextLeaf ls l) fr0 to0;
               lines = appendText ls (appendText ils (sliceText ls 0 fr) 0 MAX_TO) to MAX_TO;
               newLen = l + il - (to - fr)
           in if length lines \<le> 32 then Some (TextLeaf lines newLen)
              else node_from (leaf_split lines) newLen))"

fun replace :: "text_tree \<Rightarrow> int \<Rightarrow> int \<Rightarrow> text_tree \<Rightarrow> text_tree option"
  and replace_child ::
    "text_tree list \<Rightarrow> text_tree list \<Rightarrow> int \<Rightarrow> text_tree \<Rightarrow> int \<Rightarrow> int \<Rightarrow> text_tree \<Rightarrow> text_tree option"
where
  "replace (TextLeaf ls l) fr0 to0 ins = leaf_replace ls l fr0 to0 ins"
| "replace (TextNode cs l) fr0 to0 ins =
     (let (fr, to) = clip (TextNode cs l) fr0 to0
      in if tlines ins < sum_list (map tlines cs)
         then replace_child [] cs 0 (TextNode cs l) fr to ins
         else base_replace (TextNode cs l) fr to ins)"
| "replace_child before [] pos this fr to ins = base_replace this fr to ins"
| "replace_child before (c # cs) pos this fr to ins =
     (let end = pos + tlength c
      in if pos \<le> fr \<and> to \<le> end then
           (case replace c (fr - pos) (to - pos) ins of
              None \<Rightarrow> None
            | Some updated \<Rightarrow>
                (let totalLines = tlines this - tlines c + tlines updated
                 in if tlines updated < totalLines div 16 \<and> tlines updated > totalLines div 64
                    then Some (TextNode (before @ updated # cs)
                                (tlength this - (to - fr) + tlength ins))
                    else base_replace this pos end updated))
         else replace_child (before @ [c]) cs (end + 1) this fr to ins)"

definition append_text :: "text_tree \<Rightarrow> text_tree \<Rightarrow> text_tree option" where
  "append_text t other = replace t (tlength t) (tlength t) other"

definition slice :: "text_tree \<Rightarrow> int \<Rightarrow> int \<Rightarrow> text_tree option" where
  "slice t fr0 to0 =
     (let (fr, to) = clip t fr0 to0
      in case decompose t fr to False False [] of
           None \<Rightarrow> None
         | Some parts \<Rightarrow> node_from parts (to - fr))"

subsection \<open>Reading\<close>

record line =
  line_from :: int
  line_to :: int
  line_number :: int
  line_text :: ustring

fun leaf_line :: "ustring list \<Rightarrow> int \<Rightarrow> bool \<Rightarrow> int \<Rightarrow> int \<Rightarrow> line option" where
  "leaf_line [] target isLine ln offset = None"
| "leaf_line (s # ss) target isLine ln offset =
     (let end = offset + len s
      in if target \<le> (if isLine then ln else end)
         then Some \<lparr>line_from = offset, line_to = end, line_number = ln, line_text = s\<rparr>
         else leaf_line ss target isLine (ln + 1) (end + 1))"

fun lineInner :: "text_tree \<Rightarrow> int \<Rightarrow> bool \<Rightarrow> int \<Rightarrow> int \<Rightarrow> line option"
  and line_child :: "text_tree list \<Rightarrow> int \<Rightarrow> bool \<Rightarrow> int \<Rightarrow> int \<Rightarrow> line option"
where
  "lineInner (TextLeaf ls l) target isLine ln offset = leaf_line ls target isLine ln offset"
| "lineInner (TextNode cs l) target isLine ln offset = line_child cs target isLine ln offset"
| "line_child [] target isLine ln offset = None"
| "line_child (c # cs) target isLine ln offset =
     (let end = offset + tlength c; endLine = ln + int (tlines c) - 1
      in if target \<le> (if isLine then endLine else end)
         then lineInner c target isLine ln offset
         else line_child cs target isLine (endLine + 1) (end + 1))"

definition lineAt :: "text_tree \<Rightarrow> int \<Rightarrow> text_error + line option" where
  "lineAt t pos =
     (if pos < 0 \<or> tlength t < pos then Inl (Bad_position pos (tlength t))
      else Inr (lineInner t pos False 1 0))"

definition line_of :: "text_tree \<Rightarrow> int \<Rightarrow> text_error + line option" where
  "line_of t n =
     (if n < 1 \<or> int (tlines t) < n then Inl (Bad_line n (tlines t))
      else Inr (lineInner t n True 1 0))"

fun leaf_slice_loop ::
    "ustring list \<Rightarrow> int \<Rightarrow> int \<Rightarrow> ustring \<Rightarrow> int \<Rightarrow> nat \<Rightarrow> ustring \<Rightarrow> ustring" where
  "leaf_slice_loop [] fr to sep pos i result = result"
| "leaf_slice_loop (l # ls) fr to sep pos i result =
     (if pos \<le> to then
        (let end = pos + len l;
             r1 = (if fr < pos \<and> 0 < i then result @ sep else result);
             r2 = (if fr < end \<and> pos < to then r1 @ sub_list (max 0 (fr - pos)) (to - pos) l else r1)
         in leaf_slice_loop ls fr to sep (end + 1) (Suc i) r2)
      else result)"

fun sliceString :: "text_tree \<Rightarrow> int \<Rightarrow> int \<Rightarrow> ustring \<Rightarrow> ustring"
  and slice_children :: "text_tree list \<Rightarrow> int \<Rightarrow> int \<Rightarrow> ustring \<Rightarrow> int \<Rightarrow> nat \<Rightarrow> ustring \<Rightarrow> ustring"
where
  "sliceString (TextLeaf ls l) fr0 to0 sep =
     (let (fr, to) = clip (TextLeaf ls l) fr0 to0 in leaf_slice_loop ls fr to sep 0 0 [])"
| "sliceString (TextNode cs l) fr0 to0 sep =
     (let (fr, to) = clip (TextNode cs l) fr0 to0 in slice_children cs fr to sep 0 0 [])"
| "slice_children [] fr to sep pos i result = result"
| "slice_children (c # cs) fr to sep pos i result =
     (if pos \<le> to then
        (let end = pos + tlength c;
             r1 = (if fr < pos \<and> 0 < i then result @ sep else result);
             r2 = (if fr < end \<and> pos < to then r1 @ sliceString c (fr - pos) (to - pos) sep else r1)
         in slice_children cs fr to sep (end + 1) (Suc i) r2)
      else result)"

definition toString :: "text_tree \<Rightarrow> ustring" where
  "toString t = sliceString t 0 (tlength t) [NL]"

definition text_toJSON :: "text_tree \<Rightarrow> ustring list" where
  "text_toJSON t = flatten t"

end
