(* ===== verification/Editor_Text_Spec.thy ===== *)
theory Editor_Text_Spec
  imports Editor_Text
begin

text \<open>
  The editor's documents behave like the text they spell: \<open>TextNode.from\<close> ends and keeps the lines,
  \<open>decompose\<close> collects the lines of a range, and \<open>replace\<close> and \<open>slice\<close> are the list operations on the text.
\<close>

subsection \<open>Well-formed documents\<close>

text \<open>
  Leaves hold between 1 and 32 lines, nodes at least 32, and every length is the length of the text
  below.
\<close>

fun wf_text :: "text_tree \<Rightarrow> bool" where
  "wf_text (TextLeaf ls l) \<longleftrightarrow> ls \<noteq> [] \<and> length ls \<le> 32 \<and> l = textLength ls"
| "wf_text (TextNode cs l) \<longleftrightarrow>
     cs \<noteq> [] \<and> list_all wf_text cs \<and> 32 \<le> sum_list (map tlines cs) \<and>
     l = textLength (concat (map flatten cs))"

definition wf_parts :: "text_tree list \<Rightarrow> bool" where
  "wf_parts ts \<longleftrightarrow> list_all wf_text ts"

definition lines_of :: "text_tree list \<Rightarrow> ustring list" where
  "lines_of ts = concat (map flatten ts)"

lemma parts_simps [simp]:
  "wf_parts []" "wf_parts (t # ts) \<longleftrightarrow> wf_text t \<and> wf_parts ts"
  "wf_parts (xs @ ys) \<longleftrightarrow> wf_parts xs \<and> wf_parts ys"
  "lines_of [] = []" "lines_of (t # ts) = flatten t @ lines_of ts"
  "lines_of (xs @ ys) = lines_of xs @ lines_of ys"
  by (simp_all add: wf_parts_def lines_of_def)

lemma tlines_flatten: "tlines t = length (flatten t)"
  by (induction t) (simp_all add: length_concat comp_def cong: map_cong)

lemma sum_tlines: "sum_list (map tlines ts) = length (lines_of ts)"
  by (induction ts) (simp_all add: tlines_flatten)

lemma wf_node:
  "wf_text (TextNode cs l) \<longleftrightarrow>
     cs \<noteq> [] \<and> wf_parts cs \<and> 32 \<le> length (lines_of cs) \<and> l = textLength (lines_of cs)"
  by (simp add: wf_parts_def lines_of_def sum_tlines [unfolded lines_of_def])

lemma wf_flatten: "wf_text t \<Longrightarrow> flatten t \<noteq> []"
proof (induction t)
  case (TextNode cs l)
  then show ?case by (cases cs) auto
qed simp

lemma wf_tlength: "wf_text t \<Longrightarrow> tlength t = textLength (flatten t)"
  by (cases t) simp_all

lemma wf_tlength_doc: "wf_text t \<Longrightarrow> tlength t = len (doc t)"
  by (simp add: wf_tlength doc_def length_join_nl wf_flatten)

lemma wf_tlength_ge: "wf_text t \<Longrightarrow> 0 \<le> tlength t"
  by (simp add: wf_tlength_doc)

lemma wf_parts_lines: "wf_parts ts \<Longrightarrow> ts \<noteq> [] \<Longrightarrow> lines_of ts \<noteq> []"
  by (cases ts) (auto dest: wf_flatten)

lemma parts_length_acc:
  "wf_parts ts \<Longrightarrow> foldl (\<lambda>l ch. l + tlength ch + 1) a ts = a + textLength (lines_of ts) + 1"
  by (induction ts arbitrary: a) (simp_all add: wf_tlength textLength_append)

lemma parts_length_eq: "wf_parts ts \<Longrightarrow> parts_length ts = textLength (lines_of ts)"
  by (simp add: parts_length_def parts_length_acc)

lemma wf_mk_leaf: "ls \<noteq> [] \<Longrightarrow> length ls \<le> 32 \<Longrightarrow> wf_text (mk_leaf ls)"
  by (simp add: mk_leaf_def)

lemma flatten_mk_leaf [simp]: "flatten (mk_leaf ls) = ls"
  by (simp add: mk_leaf_def)

subsection \<open>\<open>TextNode.from\<close> ends and keeps the lines\<close>

definition from_ok :: "(text_tree list \<Rightarrow> int \<Rightarrow> text_tree option) \<Rightarrow> nat \<Rightarrow> bool" where
  "from_ok mk n \<longleftrightarrow>
     (\<forall>cs. cs \<noteq> [] \<longrightarrow> wf_parts cs \<longrightarrow> length (lines_of cs) < n \<longrightarrow>
        (\<exists>t. mk cs (textLength (lines_of cs)) = Some t \<and> wf_text t \<and> flatten t = lines_of cs))"

text \<open>
  What the state of the chunking holds: the lines seen so far, and that a chunk of several children is
  well below the whole, so that the recursive call gets smaller.
\<close>

definition chunk_inv :: "nat \<Rightarrow> chunk_state \<Rightarrow> ustring list \<Rightarrow> bool" where
  "chunk_inv chunk st seen \<longleftrightarrow>
     wf_parts (chunked st) \<and> wf_parts (currentChunk st) \<and>
     lines_of (chunked st) @ lines_of (currentChunk st) = seen \<and>
     currentLines st = length (lines_of (currentChunk st)) \<and>
     currentLen st = textLength (lines_of (currentChunk st)) \<and>
     (2 \<le> length (currentChunk st) \<longrightarrow>
        33 \<le> chunk \<and> length (lines_of (butlast (currentChunk st))) < chunk \<and>
        (currentLines st \<le> chunk \<or> tlines (last (currentChunk st)) \<le> 32))"

lemma chunk_inv_init: "chunk_inv chunk chunk_init []"
  by (simp add: chunk_inv_def chunk_init_def)

lemma lines_butlast_last:
  "ts \<noteq> [] \<Longrightarrow> length (lines_of ts) = length (lines_of (butlast ts)) + tlines (last ts)"
  using parts_simps(6) [of "butlast ts" "[last ts]"] by (simp add: tlines_flatten)

lemma chunk_small:
  assumes "chunk_inv chunk st seen" and "2 \<le> length (currentChunk st)"
    and "33 \<le> chunk \<Longrightarrow> 32 * chunk \<le> n"
  shows "length (lines_of (currentChunk st)) < n"
proof -
  have ne: "currentChunk st \<noteq> []" using assms(2) by auto
  have "length (lines_of (currentChunk st)) \<le> chunk + 31"
    using assms(1,2) lines_butlast_last [OF ne] by (auto simp: chunk_inv_def)
  moreover have "33 \<le> chunk" using assms(1,2) by (simp add: chunk_inv_def)
  ultimately show ?thesis using assms(3) by linarith
qed

lemma flush_ok:
  assumes inv: "chunk_inv chunk st seen" and mk: "from_ok mk n" and n: "33 \<le> chunk \<Longrightarrow> 32 * chunk \<le> n"
  shows "\<exists>st'. flush mk st = Some st' \<and> chunk_inv chunk st' seen \<and> currentChunk st' = [] \<and>
    currentLines st' = 0"
proof (cases "currentLines st = 0")
  case True
  then have "currentChunk st = []"
    using inv wf_parts_lines [of "currentChunk st"] by (auto simp: chunk_inv_def)
  with True inv show ?thesis by (simp add: flush_def)
next
  case False
  then have ne: "currentChunk st \<noteq> []" using inv by (auto simp: chunk_inv_def)
  have "\<exists>t. (if length (currentChunk st) = 1 then Some (currentChunk st ! 0)
      else mk (currentChunk st) (currentLen st)) = Some t \<and> wf_text t \<and>
      flatten t = lines_of (currentChunk st)"
  proof (cases "length (currentChunk st) = 1")
    case True
    then obtain t where "currentChunk st = [t]" by (cases "currentChunk st") auto
    with inv show ?thesis by (simp add: chunk_inv_def)
  next
    case several: False
    with ne have two: "2 \<le> length (currentChunk st)" by (cases "currentChunk st") (auto simp: Suc_le_eq)
    show ?thesis
      using mk ne inv chunk_small [OF inv two n] several by (auto simp: from_ok_def chunk_inv_def)
  qed
  then show ?thesis
    using False inv by (auto simp: flush_def chunk_inv_def)
qed

lemma push_chunk_fields [simp]:
  "chunked (push_chunk child st) = chunked st"
  "currentLines (push_chunk child st) = currentLines st + tlines child"
  "currentLen (push_chunk child st) = currentLen st + (tlength child + 1)"
  "currentChunk (push_chunk child st) = currentChunk st @ [child]"
  by (simp_all add: push_chunk_def)

lemma push_empty_ok:
  "chunk_inv chunk st seen \<Longrightarrow> currentChunk st = [] \<Longrightarrow> wf_text child \<Longrightarrow>
     chunk_inv chunk (push_chunk child st) (seen @ flatten child)"
  by (auto simp: chunk_inv_def tlines_flatten wf_tlength textLength_append)

lemma node_has_32: "wf_text t \<Longrightarrow> \<not> is_leaf t \<Longrightarrow> 32 \<le> tlines t"
  by (cases t) (auto simp: is_leaf_def)

lemma merge_leaf_ok:
  assumes inv: "chunk_inv chunk st seen" and wf: "wf_text child" and m: "merge_leaf child st = Some st'"
  shows "chunk_inv chunk st' (seen @ flatten child)"
proof -
  obtain ls l pls pl where c: "child = TextLeaf ls l" and p: "last (currentChunk st) = TextLeaf pls pl"
    and ne: "currentChunk st \<noteq> []" and small: "length ls + length pls \<le> 32"
    and st': "st' = st\<lparr>currentLines := currentLines st + length ls,
      currentLen := currentLen st + (l + 1),
      currentChunk := butlast (currentChunk st) @ [TextLeaf (pls @ ls) (pl + 1 + l)]\<rparr>"
    using m by (auto simp: merge_leaf_def split: if_splits text_tree.splits)
  have split: "currentChunk st = butlast (currentChunk st) @ [TextLeaf pls pl]"
    using ne p by (metis append_butlast_last_id)
  have wfp: "wf_text (TextLeaf pls pl)" "wf_parts (butlast (currentChunk st))"
    using inv split parts_simps(3) [of "butlast (currentChunk st)" "[TextLeaf pls pl]"]
    by (simp_all add: chunk_inv_def)
  have lines: "lines_of (currentChunk st) = lines_of (butlast (currentChunk st)) @ pls"
    by (subst split) simp
  show ?thesis
    using inv wf wfp small lines unfolding st' c
    by (simp add: chunk_inv_def textLength_append)
qed

lemma push_fits_ok:
  assumes inv: "chunk_inv chunk st seen" and wf: "wf_text child"
    and no_merge: "merge_leaf child st = None" and fits: "currentLines st + tlines child \<le> chunk"
    and c32: "32 \<le> chunk"
  shows "chunk_inv chunk (push_chunk child st) (seen @ flatten child)"
proof (cases "currentChunk st = []")
  case True
  then show ?thesis using push_empty_ok [OF inv] wf by simp
next
  case False
  have pos: "0 < tlines child" using wf_flatten [OF wf] by (simp add: tlines_flatten)
  have wfp: "wf_parts (currentChunk st)" using inv by (simp add: chunk_inv_def)
  have last_wf: "wf_text (last (currentChunk st))"
    using wfp False parts_simps(3) [of "butlast (currentChunk st)" "[last (currentChunk st)]"] by simp
  have cl: "currentLines st = length (lines_of (currentChunk st))" using inv by (simp add: chunk_inv_def)
  have last_le: "tlines (last (currentChunk st)) \<le> currentLines st"
    using lines_butlast_last [OF False] cl by simp
  have "33 \<le> chunk"
  proof (rule ccontr)
    assume "\<not> 33 \<le> chunk"
    with c32 fits have le: "currentLines st + tlines child \<le> 32" by simp
    have pos': "0 < tlines (last (currentChunk st))"
      using wf_flatten [OF last_wf] by (simp add: tlines_flatten)
    have "is_leaf child" "is_leaf (last (currentChunk st))"
      using node_has_32 [OF wf] node_has_32 [OF last_wf] pos pos' last_le le by linarith+
    then show False
      using no_merge False le last_le cl wf_parts_lines [OF wfp False]
      by (auto simp: merge_leaf_def is_leaf_def split: text_tree.splits if_splits)
  qed
  moreover have "length (lines_of (currentChunk st)) < chunk" using pos fits cl by linarith
  ultimately show ?thesis
    using inv wf fits cl by (simp add: chunk_inv_def tlines_flatten wf_tlength textLength_append)
qed

lemma add_other_ok:
  assumes inv: "chunk_inv chunk st seen" and wf: "wf_text child"
    and mk: "from_ok mk n" and n: "33 \<le> chunk \<Longrightarrow> 32 * chunk \<le> n" and c32: "32 \<le> chunk"
  shows "\<exists>st'. add_other mk chunk child st = Some st' \<and> chunk_inv chunk st' (seen @ flatten child)"
proof -
  obtain st1 where st1: "flush mk st = Some st1" "chunk_inv chunk st1 seen" "currentChunk st1 = []"
    "currentLines st1 = 0"
    using flush_ok [OF inv mk n] by blast
  show ?thesis
  proof (cases "merge_leaf child st")
    case (Some st2)
    then show ?thesis
      using st1 wf merge_leaf_ok [OF inv wf Some] by (auto simp: add_other_def chunk_inv_def)
  next
    case None
    then show ?thesis
      using st1 wf push_empty_ok [OF st1(2,3) wf] push_fits_ok [OF inv wf None _ c32]
      by (auto simp: add_other_def chunk_inv_def not_less)
  qed
qed

lemma flatten_node: "flatten (TextNode cs l) = lines_of cs"
  by (simp add: lines_of_def)

lemma add3_ok:
  "from_ok mk n \<Longrightarrow> (33 \<le> chunk \<Longrightarrow> 32 * chunk \<le> n) \<Longrightarrow> 32 \<le> chunk \<Longrightarrow>
     chunk_inv chunk st seen \<Longrightarrow> wf_text child \<Longrightarrow>
     \<exists>st'. add3 mk chunk child st = Some st' \<and> chunk_inv chunk st' (seen @ flatten child)"
  and add3_all_ok:
  "from_ok mk n \<Longrightarrow> (33 \<le> chunk \<Longrightarrow> 32 * chunk \<le> n) \<Longrightarrow> 32 \<le> chunk \<Longrightarrow>
     chunk_inv chunk st seen \<Longrightarrow> wf_parts cs \<Longrightarrow>
     \<exists>st'. add3_all mk chunk cs st = Some st' \<and> chunk_inv chunk st' (seen @ lines_of cs)"
proof (induction mk chunk child st and mk chunk cs st arbitrary: seen and seen
    rule: add3_add3_all.induct)
  case (1 mk chunk cs l st)
  show ?case
  proof (cases "sum_list (map tlines cs) > chunk * 2")
    case True
    have "wf_parts cs" using 1(6) by (simp add: wf_node del: wf_text.simps)
    then show ?thesis
      using "1.IH" [OF True 1(2) 1(3) 1(4) 1(5)] True by (simp add: flatten_node del: flatten.simps)
  next
    case False
    then show ?thesis using add_other_ok [OF 1(5) 1(6) 1(2) 1(3) 1(4)] by simp
  qed
next
  case (2 mk chunk ls l st)
  then show ?case using add_other_ok [OF 2(4) 2(5) 2(1) 2(2) 2(3)] by simp
next
  case (3 mk chunk st)
  then show ?case by simp
next
  case (4 mk chunk c cs st)
  obtain st1 where st1: "add3 mk chunk c st = Some st1" "chunk_inv chunk st1 (seen @ flatten c)"
    using "4.IH"(1) [OF 4(3) 4(4) 4(5) 4(6)] 4(7) by auto
  show ?case
    using "4.IH"(2) [OF st1(1) 4(3) 4(4) 4(5) st1(2)] 4(7) st1(1) by simp
qed


lemma chunk_inv_done:
  assumes "chunk_inv chunk st seen" and "currentChunk st = []"
  shows "wf_parts (chunked st)" "lines_of (chunked st) = seen"
  using assms by (simp_all add: chunk_inv_def)

lemma node_from_step_ok:
  assumes mk: "from_ok mk n" and cs: "cs \<noteq> []" "wf_parts cs" "length (lines_of cs) < Suc n"
  shows "\<exists>t. node_from_step mk cs (textLength (lines_of cs)) = Some t \<and> wf_text t \<and>
    flatten t = lines_of cs"
proof (cases "length (lines_of cs) < 32")
  case True
  then show ?thesis
    using wf_parts_lines [OF cs(2,1)]
    by (simp add: node_from_step_def sum_tlines) (simp add: lines_of_def)
next
  case False
  define chunk where "chunk = max 32 (length (lines_of cs) div 32)"
  have c32: "32 \<le> chunk" by (simp add: chunk_def)
  have n: "32 * chunk \<le> n" if "33 \<le> chunk"
    using that cs(3) unfolding chunk_def by (simp add: max_def split: if_splits)
  obtain st where st: "add3_all mk chunk cs chunk_init = Some st" "chunk_inv chunk st (lines_of cs)"
    using add3_all_ok [OF mk n c32 chunk_inv_init cs(2)] by auto
  obtain st' where st': "flush mk st = Some st'" "chunk_inv chunk st' (lines_of cs)"
    "currentChunk st' = []"
    using flush_ok [OF st(2) mk n] by blast
  note fin = chunk_inv_done [OF st'(2,3)]
  have ne: "chunked st' \<noteq> []" using fin wf_parts_lines [OF cs(2,1)] by auto
  show ?thesis
  proof (cases "length (chunked st') = 1")
    case True
    then obtain t where "chunked st' = [t]" by (cases "chunked st'") auto
    with False st st' fin show ?thesis
      by (simp add: node_from_step_def sum_tlines chunk_def [symmetric])
  next
    case several: False
    have "wf_text (TextNode (chunked st') (textLength (lines_of cs)))"
      using False ne fin by (simp add: wf_node del: wf_text.simps)
    with several False st st' fin show ?thesis
      by (simp add: node_from_step_def sum_tlines chunk_def [symmetric] flatten_node
          del: wf_text.simps flatten.simps)
  qed
qed

lemma node_from_fuel_ok: "from_ok (node_from_fuel n) n"
proof (induction n)
  case 0
  show ?case by (simp add: from_ok_def)
next
  case (Suc n)
  show ?case
    unfolding from_ok_def node_from_fuel.simps using node_from_step_ok [OF Suc.IH] by blast
qed

lemma node_from_ok:
  "cs \<noteq> [] \<Longrightarrow> wf_parts cs \<Longrightarrow> l = textLength (lines_of cs) \<Longrightarrow>
     \<exists>t. node_from cs l = Some t \<and> wf_text t \<and> flatten t = lines_of cs"
  using node_from_fuel_ok [of "Suc (length (lines_of cs))"]
  by (simp add: node_from_def sum_tlines from_ok_def)

subsection \<open>Leaves and \<open>Text.of\<close>\<close>

lemma leaf_split_loop_ok:
  assumes "length part < 32" "l = textLength part" "wf_parts target"
  shows "wf_parts (leaf_split_loop ls part l target) \<and>
    lines_of (leaf_split_loop ls part l target) = lines_of target @ part @ ls"
  using assms
proof (induction ls arbitrary: part l target)
  case Nil
  then show ?case using textLength_ge(2) [of part] by (cases "part = []") auto
next
  case (Cons x ls)
  show ?case
  proof (cases "length part = 31")
    case True
    then show ?thesis
      using Cons.prems Cons.IH [of "[]" "-1" "target @ [TextLeaf (part @ [x]) (l + (len x + 1))]"]
      by (simp add: textLength_append Let_def)
  next
    case False
    then show ?thesis
      using Cons.prems Cons.IH [of "part @ [x]" "l + (len x + 1)" target]
      by (simp add: textLength_append Let_def)
  qed
qed

lemma leaf_split_ok: "wf_parts (leaf_split ls)" "lines_of (leaf_split ls) = ls"
  using leaf_split_loop_ok [of "[]" "-1" "[]" ls] by (simp_all add: leaf_split_def)

lemma leaf_split_ne: "ls \<noteq> [] \<Longrightarrow> leaf_split ls \<noteq> []"
  using leaf_split_ok(2) [of ls] by (metis parts_simps(4))

lemma text_of_ok:
  assumes "ls \<noteq> []"
  shows "\<exists>t. text_of ls = Inr (Some t) \<and> wf_text t \<and> flatten t = ls"
proof -
  have "\<exists>t. node_from (leaf_split ls) (parts_length (leaf_split ls)) = Some t \<and> wf_text t \<and>
      flatten t = ls"
    using node_from_ok [OF leaf_split_ne [OF assms] leaf_split_ok(1)]
    by (simp add: parts_length_eq leaf_split_ok)
  then show ?thesis
    using assms by (auto simp: text_of_def Let_def empty_text_def wf_mk_leaf)
qed

subsection \<open>\<open>decompose\<close> collects the lines of a range\<close>

lemma cut_all: "fr \<le> pos \<Longrightarrow> pos + textLength ls \<le> to \<Longrightarrow> cut ls fr to pos = ls"
proof (induction ls arbitrary: pos)
  case (Cons l ls)
  show ?case
    using Cons.prems Cons.IH [of "pos + len l + 1"] textLength_ge(1) [of ls]
    by (simp add: sub_list_def)
qed simp

lemma length_cut: "length (cut ls fr to pos) \<le> length ls"
  by (induction ls arbitrary: pos) (simp_all add: le_SucI)

lemma len_sub_list:
  assumes "i \<le> j" "i \<le> len xs" "0 \<le> j"
  shows "len (sub_list i j xs) = min j (len xs) - max 0 i"
  using assms unfolding sub_list_def length_take length_drop by linarith

lemma cut_none: "pos + textLength ls < fr \<Longrightarrow> cut ls fr to pos = []"
proof (induction ls arbitrary: pos)
  case (Cons l ls)
  show ?case
    using Cons.prems Cons.IH [of "pos + len l + 1"] textLength_ge(1) [of ls] by simp
qed simp

lemma textLength_cut:
  assumes "ls \<noteq> []" "fr \<le> to" "fr \<le> textLength ls" "0 \<le> to"
  shows "textLength (cut ls fr to 0) = min to (textLength ls) - max 0 fr"
proof -
  have "textLength (cut ls fr to 0) = len (join_nl (cut ls fr to 0))"
    using assms by (intro length_join_nl [symmetric] cut_not_Nil) simp_all
  also have "\<dots> = len (sub_list fr to (join_nl ls))"
    using assms join_nl_cut [of ls fr to 0] by simp
  also have "\<dots> = min to (textLength ls) - max 0 fr"
    using assms length_join_nl [of ls] by (simp add: len_sub_list)
  finally show ?thesis .
qed

lemma glue_assoc: "ys \<noteq> [] \<Longrightarrow> glue xs (ys @ zs) = glue xs ys @ zs"
  by (cases ys) simp_all

lemma glue_append: "xs \<noteq> [] \<Longrightarrow> glue (as @ xs) ys = as @ glue xs ys"
  by (cases ys) (simp_all add: butlast_append)

lemma length_glue: "xs \<noteq> [] \<Longrightarrow> ys \<noteq> [] \<Longrightarrow> length (glue xs ys) = length xs + length ys - 1"
  by (cases ys) (simp_all add: Suc_le_eq)

definition decomp_ok ::
    "bool \<Rightarrow> bool \<Rightarrow> text_tree list \<Rightarrow> ustring list \<Rightarrow> text_tree list option \<Rightarrow> bool" where
  "decomp_ok glued leaf target S r \<longleftrightarrow>
     (\<exists>ts. r = Some ts \<and> wf_parts ts \<and>
        lines_of ts = (if glued then glue (lines_of target) S else lines_of target @ S) \<and>
        (leaf \<longrightarrow> ts \<noteq> [] \<and> is_leaf (last ts)))"

definition ends_in_leaf :: "text_tree list \<Rightarrow> bool" where
  "ends_in_leaf ts \<longleftrightarrow> ts \<noteq> [] \<and> is_leaf (last ts)"

lemma ends_in_leafE:
  assumes "ends_in_leaf ts" and "wf_parts ts"
  obtains ts' ls where "ts = ts' @ [TextLeaf ls (textLength ls)]" "wf_parts ts'" "ls \<noteq> []"
    "length ls \<le> 32"
proof -
  obtain ts' t where ts: "ts = ts' @ [t]" using assms(1) by (cases ts rule: rev_cases) (auto simp: ends_in_leaf_def)
  obtain ls l where t: "t = TextLeaf ls l"
    using assms(1) by (cases t) (auto simp: ends_in_leaf_def is_leaf_def ts)
  show thesis using that [of ts' ls] assms(2) by (simp add: ts t)
qed

lemma joined_leaves:
  assumes "js \<noteq> []" "length js \<le> 63" "wf_parts ts"
  shows "decomp_ok False True ts js
    (if length js \<le> 32 then Some (ts @ [TextLeaf js (textLength js)])
     else (let mid = length js div 2 in Some (ts @ [mk_leaf (take mid js), mk_leaf (drop mid js)])))"
proof (cases "length js \<le> 32")
  case True
  then show ?thesis using assms by (simp add: decomp_ok_def is_leaf_def)
next
  case False
  have "take (length js div 2) js \<noteq> []" "drop (length js div 2) js \<noteq> []"
    using False by auto
  moreover have "length (take (length js div 2) js) \<le> 32" "length (drop (length js div 2) js) \<le> 32"
    using assms(2) by auto
  ultimately show ?thesis
    using assms False
    by (simp add: decomp_ok_def wf_mk_leaf Let_def) (simp add: mk_leaf_def is_leaf_def)
qed

lemma leaf_decompose_ok:
  assumes wf: "wf_text (TextLeaf ls l)" and r: "fr \<le> to" "fr \<le> l" "0 \<le> to"
    and target: "wf_parts target" "glued \<Longrightarrow> ends_in_leaf target"
  shows "decomp_ok glued True target (cut ls fr to 0) (leaf_decompose ls l fr to glued target)"
proof -
  define S where "S = cut ls fr to 0"
  have ls: "ls \<noteq> []" "length ls \<le> 32" "l = textLength ls" using wf by simp_all
  have S: "S \<noteq> []" "length S \<le> 32" "textLength S = min to l - max 0 fr"
    using ls r cut_not_Nil [of fr 0 ls to] length_cut [of ls fr to 0] textLength_cut [of ls fr to]
    by (simp_all add: S_def)
  have pair: "(if fr \<le> 0 \<and> l \<le> to then (ls, l) else (sliceText ls fr to, min to l - max 0 fr))
      = (S, textLength S)"
    using S sliceText_eq [of ls fr to] cut_all [of fr 0 ls to] ls by (simp add: S_def)
  show ?thesis
  proof (cases glued)
    case False
    then show ?thesis
      using S target(1)
      unfolding leaf_decompose_def pair S_def [symmetric] by (simp add: decomp_ok_def is_leaf_def)
  next
    case True
    obtain ts pls where t: "target = ts @ [TextLeaf pls (textLength pls)]" "wf_parts ts" "pls \<noteq> []"
      "length pls \<le> 32"
      using target(2) [OF True] target(1) by (elim ends_in_leafE)
    have all: "appendText S pls 0 (textLength S) = glue pls S"
      by (simp add: appendText_eq cut_all)
    have glued_lines: "lines_of ts @ glue pls S = glue (lines_of target) S"
      by (simp add: t glue_append)
    have "length (glue pls S) \<le> 63" "glue pls S \<noteq> []" "textLength (glue pls S) = textLength pls + textLength S"
      using t S by (simp_all add: length_glue textLength_glue)
    then show ?thesis
      using joined_leaves [of "glue pls S" ts] t(2)
      unfolding leaf_decompose_def pair S_def [symmetric]
      by (simp add: True all t(1) decomp_ok_def glue_append t(3) Let_def split del: if_split cong: if_cong)
  qed
qed

lemma decompose_ok:
  "wf_text t \<Longrightarrow> fr \<le> to \<Longrightarrow> fr \<le> tlength t \<Longrightarrow> 0 \<le> to \<Longrightarrow>
     wf_parts target \<Longrightarrow> (glued \<Longrightarrow> 0 \<le> fr \<and> ends_in_leaf target) \<Longrightarrow> (leaf \<Longrightarrow> to \<le> tlength t) \<Longrightarrow>
     decomp_ok glued leaf target (cut (flatten t) fr to 0) (decompose t fr to glued leaf target)"
  and decompose_children_ok:
  "wf_parts cs \<Longrightarrow> fr \<le> to \<Longrightarrow> wf_parts target \<Longrightarrow>
     (glued \<and> pos \<le> fr \<Longrightarrow> ends_in_leaf target) \<Longrightarrow>
     decomp_ok (glued \<and> pos \<le> fr) (leaf \<and> pos \<le> to \<and> to \<le> pos + textLength (lines_of cs)) target
       (cut (lines_of cs) fr to pos) (decompose_children cs pos fr to glued leaf target)"
proof (induction t fr to glued leaf target and cs pos fr to glued leaf target
    rule: decompose_decompose_children.induct)
  case (1 ls l fr to glued leaf target)
  then show ?case
    using leaf_decompose_ok [of ls l fr to target glued] by (auto simp: decomp_ok_def)
next
  case (2 cs l fr to glued leaf target)
  have wf: "wf_parts cs" "l = textLength (lines_of cs)" using 2(2) by (simp_all add: wf_node del: wf_text.simps)
  show ?case
    using "2.IH" [OF wf(1) 2(3) 2(6)] 2 wf(2)
    by (auto simp: flatten_node decomp_ok_def simp del: wf_text.simps flatten.simps)
next
  case (3 pos fr to glued leaf target)
  then show ?case by (auto simp: decomp_ok_def)
next
  case (4 c cs pos fr to glued leaf target)
  let ?e = "pos + tlength c" and ?S2 = "cut (lines_of cs) fr to (pos + tlength c + 1)"
  define S1 where "S1 = cut (flatten c) fr to pos"
  define part where "part = (if fr \<le> pos \<and> ?e \<le> to \<and> \<not> ((glued \<and> pos \<le> fr) \<or> (leaf \<and> to \<le> ?e))
    then Some (target @ [c])
    else decompose c (fr - pos) (to - pos) (glued \<and> pos \<le> fr) (leaf \<and> to \<le> ?e) target)"
  have wf: "wf_text c" "wf_parts cs" "tlength c = textLength (flatten c)"
    using "4.prems"(1) by (simp_all add: wf_tlength)
  have L: "cut (lines_of (c # cs)) fr to pos = S1 @ ?S2"
    "textLength (lines_of (c # cs)) = tlength c + textLength (lines_of cs) + 1"
    by (simp_all add: cut_append S1_def wf(3) algebra_simps textLength_append)
  have S1_ne: "S1 \<noteq> []" if "fr \<le> ?e" "pos \<le> to"
    unfolding S1_def using that "4.prems"(2) wf by (intro cut_not_Nil) (simp_all add: wf_flatten)
  consider "to < pos" | "pos \<le> to" "?e < fr" | "pos \<le> to" "fr \<le> ?e" by linarith
  then show ?case
  proof cases
    case 1
    then show ?thesis using "4.prems"(3) by (auto simp: decomp_ok_def cut_beyond)
  next
    case 2
    have S1: "S1 = []" using 2 wf(3) by (simp add: S1_def cut_none)
    have "decomp_ok (glued \<and> ?e + 1 \<le> fr) (leaf \<and> ?e + 1 \<le> to \<and> to \<le> ?e + 1 + textLength (lines_of cs))
        target ?S2 (decompose_children cs (?e + 1) fr to glued leaf target)"
      using 2 "4.IH"(2) [OF 2(1) refl refl refl _ wf(2) "4.prems"(2,3)] "4.prems"(4) wf_tlength_ge [OF wf(1)] by simp
    then show ?thesis
      using 2 "4.prems"(2) wf_tlength_ge [OF wf(1)] L S1 by (simp add: algebra_simps)
  next
    case 3
    have part_ok: "decomp_ok (glued \<and> pos \<le> fr) (leaf \<and> to \<le> ?e) target S1 part"
    proof (cases "fr \<le> pos \<and> ?e \<le> to \<and> \<not> ((glued \<and> pos \<le> fr) \<or> (leaf \<and> to \<le> ?e))")
      case True
      then have "S1 = flatten c" using wf by (simp add: S1_def cut_all)
      with True "4.prems"(3) wf(1) show ?thesis by (auto simp: part_def decomp_ok_def)
    next
      case False
      have "decomp_ok (glued \<and> pos \<le> fr) (leaf \<and> to \<le> ?e) target
          (cut (flatten c) (fr - pos) (to - pos) 0)
          (decompose c (fr - pos) (to - pos) (glued \<and> pos \<le> fr) (leaf \<and> to \<le> ?e) target)"
        using "4.IH"(1) [OF 3(1) refl refl refl _ False wf(1)] "4.prems"(2,3,4) 3 by auto
      then show ?thesis unfolding part_def if_not_P [OF False] S1_def by (simp add: cut_shift)
    qed
    then obtain ts where ts: "part = Some ts" "wf_parts ts"
      "lines_of ts = (if glued \<and> pos \<le> fr then glue (lines_of target) S1 else lines_of target @ S1)"
      "leaf \<and> to \<le> ?e \<Longrightarrow> ends_in_leaf ts"
      by (auto simp: decomp_ok_def ends_in_leaf_def)
    have rest: "decomp_ok False (leaf \<and> ?e + 1 \<le> to \<and> to \<le> ?e + 1 + textLength (lines_of cs)) ts ?S2
        (decompose_children cs (?e + 1) fr to glued leaf ts)"
      using "4.IH"(2) [OF 3(1) refl refl refl _ wf(2) "4.prems"(2) ts(2)] 3 ts(1) by (simp add: part_def)
    have eq: "decompose_children (c # cs) pos fr to glued leaf target
        = decompose_children cs (?e + 1) fr to glued leaf ts"
      using 3 ts(1) by (simp add: part_def Let_def)
    have stop: "decompose_children cs (?e + 1) fr to glued leaf ts = Some ts" if "to \<le> ?e"
      using that by (cases cs) simp_all
    show ?thesis
    proof (cases "to \<le> ?e")
      case True
      then show ?thesis
        using ts stop eq L by (auto simp: decomp_ok_def cut_beyond ends_in_leaf_def)
    next
      case False
      then show ?thesis
        using ts rest S1_ne 3 L unfolding eq by (auto simp: decomp_ok_def glue_assoc)
    qed
  qed
qed

subsection \<open>\<open>replace\<close> is the replacement in the text\<close>

definition splice :: "ustring \<Rightarrow> int \<Rightarrow> int \<Rightarrow> ustring \<Rightarrow> ustring" where
  "splice d fr to i = take (nat fr) d @ i @ drop (nat to) d"

text \<open>A result that is a well-formed document of the given text.\<close>

definition spells :: "text_tree option \<Rightarrow> ustring \<Rightarrow> bool" where
  "spells r d \<longleftrightarrow> (\<exists>t. r = Some t \<and> wf_text t \<and> doc t = d)"

lemma clip_bounds:
  assumes "clip t fr0 to0 = (fr, to)" and "wf_text t"
  shows "0 \<le> fr" "fr \<le> to" "to \<le> tlength t"
  using assms(1) wf_tlength_ge [OF assms(2)] by (auto simp: clip_def Let_def)

lemma clip_same: "0 \<le> fr \<Longrightarrow> fr \<le> to \<Longrightarrow> to \<le> tlength t \<Longrightarrow> clip t fr to = (fr, to)"
  by (simp add: clip_def)

lemma join_cut_prefix:
  "wf_text t \<Longrightarrow> 0 \<le> fr \<Longrightarrow> join_nl (cut (flatten t) 0 fr 0) = take (nat fr) (doc t)"
  using join_nl_cut [of "flatten t" 0 fr 0] wf_tlength_ge [of t]
  by (simp add: wf_flatten wf_tlength doc_def sub_list_def)

lemma join_cut_suffix:
  assumes "wf_text t" "0 \<le> to" "to \<le> tlength t" "tlength t \<le> m"
  shows "join_nl (cut (flatten t) to m 0) = drop (nat to) (doc t)"
proof -
  have "length (drop (nat to) (doc t)) \<le> nat m - nat to"
    using assms wf_tlength_doc [OF assms(1)] by simp
  then show ?thesis
    using assms join_nl_cut [of "flatten t" to m 0]
    by (simp add: wf_flatten wf_tlength doc_def sub_list_def)
qed

lemma cut_ne:
  "wf_text t \<Longrightarrow> 0 \<le> to \<Longrightarrow> fr \<le> to \<Longrightarrow> fr \<le> tlength t \<Longrightarrow> cut (flatten t) fr to 0 \<noteq> []"
  by (rule cut_not_Nil) (simp_all add: wf_tlength wf_flatten)

lemma empty_doc_lines:
  assumes "wf_text t" "tlength t = 0" shows "flatten t = [[]]"
proof -
  obtain l ls where L: "flatten t = l # ls" using wf_flatten [OF assms(1)] by (cases "flatten t") auto
  have "textLength ls + len l + 1 = 0" using assms by (simp add: wf_tlength L)
  moreover have "ls \<noteq> [] \<Longrightarrow> 0 \<le> textLength ls" by (rule textLength_ge)
  ultimately show ?thesis using L by (cases "ls = []") auto
qed

lemma node_from_spells:
  assumes "ts \<noteq> []" "wf_parts ts" "join_nl (lines_of ts) = d" "l = len d"
  shows "spells (node_from ts l) d"
proof -
  have "l = textLength (lines_of ts)"
    using assms length_join_nl [of "lines_of ts"] wf_parts_lines [of ts] by auto
  then show ?thesis using node_from_ok [OF assms(1,2)] assms(3) by (auto simp: spells_def doc_def)
qed

lemma len_splice:
  "0 \<le> fr \<Longrightarrow> fr \<le> to \<Longrightarrow> to \<le> len d \<Longrightarrow> len (splice d fr to i) = len d - (to - fr) + len i"
  by (simp add: splice_def)

lemma base_replace_spells:
  assumes wf: "wf_text t" "wf_text ins" and c: "clip t fr0 to0 = (fr, to)"
  shows "spells (base_replace t fr0 to0 ins) (splice (doc t) fr to (doc ins))"
proof -
  note b = clip_bounds [OF c wf(1)]
  note ge = wf_tlength_ge [OF wf(1)] wf_tlength_ge [OF wf(2)]
  let ?S1 = "cut (flatten t) 0 fr 0" and ?S3 = "cut (flatten t) to (tlength t) 0"
  have S: "?S1 \<noteq> []" "?S3 \<noteq> []" "join_nl ?S1 = take (nat fr) (doc t)" "join_nl ?S3 = drop (nat to) (doc t)"
    using wf(1) b ge by (simp_all add: cut_ne join_cut_prefix join_cut_suffix)
  obtain p1 where p1: "decompose t 0 fr False True [] = Some p1" "wf_parts p1" "lines_of p1 = ?S1"
    "ends_in_leaf p1"
    using decompose_ok [of t 0 fr "[]" False True] wf(1) b ge
    by (auto simp: decomp_ok_def ends_in_leaf_def)
  obtain p2 where p2: "(if tlength ins \<noteq> 0 then decompose ins 0 (tlength ins) True True p1 else Some p1) = Some p2"
    "wf_parts p2" "lines_of p2 = glue ?S1 (flatten ins)" "ends_in_leaf p2"
  proof (cases "tlength ins = 0")
    case True
    then show ?thesis using that p1 S(1) empty_doc_lines [OF wf(2)] by simp
  next
    case False
    then show ?thesis
      using that decompose_ok [of ins 0 "tlength ins" p1 True True] wf(2) ge p1
      by (auto simp: decomp_ok_def ends_in_leaf_def cut_all wf_tlength)
  qed
  obtain p3 where p3: "decompose t to (tlength t) True False p2 = Some p3" "wf_parts p3"
    "lines_of p3 = glue (glue ?S1 (flatten ins)) ?S3"
    using decompose_ok [of t to "tlength t" p2 True False] wf(1) b ge p2
    by (auto simp: decomp_ok_def)
  have "join_nl (lines_of p3) = splice (doc t) fr to (doc ins)"
    using S wf(2) by (simp add: p3 join_nl_glue splice_def wf_flatten doc_def)
  moreover have "p3 \<noteq> []"
    using p3(3) glue_not_Nil [OF glue_not_Nil [OF S(1)], of "flatten ins" ?S3] by fastforce
  ultimately have "spells (node_from p3 (tlength t - (to - fr) + tlength ins)) (splice (doc t) fr to (doc ins))"
    using p3(2) b wf by (intro node_from_spells) (simp_all add: len_splice wf_tlength_doc)
  then show ?thesis by (simp add: base_replace_def c p1 p2 p3)
qed

lemma leaf_replace_spells:
  assumes wf: "wf_text (TextLeaf ls l)" "wf_text ins" and c: "clip (TextLeaf ls l) fr0 to0 = (fr, to)"
    and short: "l \<le> MAX_TO" "tlength ins \<le> MAX_TO"
  shows "spells (leaf_replace ls l fr0 to0 ins) (splice (doc (TextLeaf ls l)) fr to (doc ins))"
proof (cases ins)
  case (TextNode cs il)
  then show ?thesis
    using base_replace_spells [OF wf c] by (simp add: leaf_replace_def del: wf_text.simps)
next
  case (TextLeaf ils il)
  let ?t = "TextLeaf ls l"
  note b = clip_bounds [OF c wf(1)]
  have il: "ils \<noteq> []" "il = textLength ils" using wf(2) TextLeaf by simp_all
  let ?lines = "glue (glue (cut ls 0 fr 0) ils) (cut ls to MAX_TO 0)"
  have S: "cut ls 0 fr 0 \<noteq> []" "cut ls to MAX_TO 0 \<noteq> []"
    "join_nl (cut ls 0 fr 0) = take (nat fr) (doc ?t)" "join_nl (cut ls to MAX_TO 0) = drop (nat to) (doc ?t)"
    using cut_ne [OF wf(1), of fr 0] cut_ne [OF wf(1), of MAX_TO to] b short(1)
      join_cut_prefix [OF wf(1), of fr] join_cut_suffix [OF wf(1), of to MAX_TO] wf_tlength_ge [OF wf(1)]
    by simp_all
  have lines: "appendText ls (appendText ils (sliceText ls 0 fr) 0 MAX_TO) to MAX_TO = ?lines"
    using S(1) short(2) il TextLeaf by (simp add: appendText_eq sliceText_eq cut_all)
  have join: "join_nl ?lines = splice (doc ?t) fr to (doc ins)"
    using S il by (simp add: join_nl_glue splice_def doc_def TextLeaf)
  have ne: "?lines \<noteq> []" using S(1) by simp
  have newLen: "l + il - (to - fr) = len (splice (doc ?t) fr to (doc ins))"
    using b wf_tlength_doc [OF wf(1)] wf_tlength_doc [OF wf(2)] TextLeaf by (simp add: len_splice)
  then have newLen': "l + il - (to - fr) = textLength ?lines"
    using length_join_nl [OF ne] join by simp
  show ?thesis
  proof (cases "length ?lines \<le> 32")
    case True
    then show ?thesis
      using ne newLen' join TextLeaf lines c
      by (simp add: leaf_replace_def spells_def) (simp add: doc_def)
  next
    case False
    have "spells (node_from (leaf_split ?lines) (l + il - (to - fr))) (splice (doc ?t) fr to (doc ins))"
      using newLen ne join by (intro node_from_spells) (simp_all add: leaf_split_ok leaf_split_ne)
    then show ?thesis using False TextLeaf lines c by (simp add: leaf_replace_def)
  qed
qed

text \<open>The text of a node around one of its children.\<close>

lemma node_context:
  assumes "wf_parts before" "wf_parts after"
  obtains A B where "len A = textLength (lines_of before) + 1"
    "\<And>c. wf_text c \<Longrightarrow> join_nl (lines_of (before @ c # after)) = A @ doc c @ B"
proof
  let ?A = "if before = [] then [] else join_nl (lines_of before) @ [NL]"
  let ?B = "if after = [] then [] else NL # join_nl (lines_of after)"
  show "len ?A = textLength (lines_of before) + 1"
    using assms wf_parts_lines [of before] by (simp add: length_join_nl)
  show "join_nl (lines_of (before @ c # after)) = ?A @ doc c @ ?B" if "wf_text c" for c
    using assms that wf_parts_lines [of before] wf_parts_lines [of after]
    by (simp add: join_nl_append wf_flatten doc_def)
qed

lemma splice_within:
  "len A \<le> fr \<Longrightarrow> fr \<le> to \<Longrightarrow> to \<le> len A + len d \<Longrightarrow>
     splice (A @ d @ B) fr to i = A @ splice d (fr - len A) (to - len A) i @ B"
  by (simp add: splice_def nat_diff_distrib' nat_le_iff) 

lemma splice_middle:
  "splice (A @ d @ B) (len A) (len A + len d) i = A @ i @ B"
  by (simp add: splice_def nat_add_distrib)

lemma replace_spells:
  "wf_text t \<Longrightarrow> wf_text ins \<Longrightarrow> clip t fr0 to0 = (fr, to) \<Longrightarrow>
     tlength t \<le> MAX_TO \<Longrightarrow> tlength ins \<le> MAX_TO \<Longrightarrow>
     spells (replace t fr0 to0 ins) (splice (doc t) fr to (doc ins))"
  and replace_child_spells:
  "this = TextNode (before @ cs) l \<Longrightarrow> wf_text this \<Longrightarrow> wf_text ins \<Longrightarrow>
     pos = textLength (lines_of before) + 1 \<Longrightarrow> 0 \<le> fr \<Longrightarrow> fr \<le> to \<Longrightarrow> to \<le> l \<Longrightarrow>
     l \<le> MAX_TO \<Longrightarrow> tlength ins \<le> MAX_TO \<Longrightarrow>
     spells (replace_child before cs pos this fr to ins) (splice (doc this) fr to (doc ins))"
proof (induction t fr0 to0 ins and before cs pos this fr to ins arbitrary: fr to and l
    rule: replace_replace_child.induct)
  case (1 ls l fr0 to0 ins)
  then show ?case using leaf_replace_spells by simp
next
  case (2 cs l fr0 to0 ins)
  note b = clip_bounds [OF "2.prems"(3,1)]
  show ?case
    using "2.IH" [OF "2.prems"(3) [symmetric] refl _ _ "2.prems"(1,2), of l] "2.prems" b
      base_replace_spells [OF "2.prems"(1,2), of fr to fr to]
    by (simp add: clip_same del: wf_text.simps)
next
  case (3 before pos this fr to ins)
  then show ?case
    using base_replace_spells [of this ins fr to fr to] by (simp add: clip_same del: wf_text.simps)
next
  case (4 before c cs pos this fr to ins)
  let ?e = "pos + tlength c"
  have wf: "wf_parts before" "wf_text c" "wf_parts cs"
    using "4.prems"(1,2) by (simp_all add: wf_node sum_tlines del: wf_text.simps)
  obtain A B where A: "len A = pos"
    and ctx: "\<And>c. wf_text c \<Longrightarrow> join_nl (lines_of (before @ c # cs)) = A @ doc c @ B"
    using node_context [OF wf(1,3)] "4.prems"(4) by metis
  have this_doc: "doc this = A @ doc c @ B"
    using ctx [OF wf(2)] by (simp add: "4.prems"(1) doc_def flatten_node del: flatten.simps)
  have this_len: "tlength this = len (doc this)" using wf_tlength_doc [OF "4.prems"(2)] .
  show ?case
  proof (cases "pos \<le> fr \<and> to \<le> ?e")
    case False
    have "?e + 1 = textLength (lines_of (before @ [c])) + 1"
      using "4.prems"(4) wf(2) by (simp add: textLength_append wf_tlength)
    then have "spells (replace_child (before @ [c]) cs (?e + 1) this fr to ins)
        (splice (doc this) fr to (doc ins))"
      using "4.IH"(2) [OF refl False _ "4.prems"(2,3), of l] "4.prems"(1,5-) by simp
    then show ?thesis using False unfolding replace_child.simps Let_def by (simp only: if_False)
  next
    case True
    have c_le: "tlength c \<le> MAX_TO"
      using this_doc this_len "4.prems"(1,8) wf_tlength_doc [OF wf(2)] by simp
    obtain u where u: "replace c (fr - pos) (to - pos) ins = Some u" "wf_text u"
      "doc u = splice (doc c) (fr - pos) (to - pos) (doc ins)"
      using "4.IH"(1) [OF refl True wf(2) "4.prems"(3) _ c_le "4.prems"(9), of "fr - pos" "to - pos"]
        True "4.prems"(6) by (auto simp: spells_def clip_same)
    have goal: "splice (doc this) fr to (doc ins) = A @ doc u @ B"
      using True A "4.prems"(6) wf_tlength_doc [OF wf(2)]
      by (simp add: this_doc u(3) splice_within)
    show ?thesis
    proof (cases "let totalLines = tlines this - tlines c + tlines u
        in tlines u < totalLines div 16 \<and> tlines u > totalLines div 64")
      case small: True
      let ?n = "TextNode (before @ u # cs) (tlength this - (to - fr) + tlength ins)"
      have lines: "tlines this - tlines c + tlines u = length (lines_of (before @ u # cs))"
        by (simp add: "4.prems"(1) sum_tlines) (simp add: tlines_flatten)
      have many: "32 \<le> length (lines_of (before @ u # cs))"
        using small unfolding Let_def lines by linarith
      have lines_ne: "lines_of (before @ u # cs) \<noteq> []" using many by (metis list.size(3) not_numeral_le_zero)
      have join: "join_nl (lines_of (before @ u # cs)) = splice (doc this) fr to (doc ins)"
        unfolding goal by (rule ctx [OF u(2)])
      have "tlength this - (to - fr) + tlength ins = len (splice (doc this) fr to (doc ins))"
        using "4.prems"(1,3,5-7) this_len by (simp add: len_splice wf_tlength_doc)
      also have "\<dots> = textLength (lines_of (before @ u # cs))"
        using length_join_nl [OF lines_ne] unfolding join .
      finally have "wf_text ?n"
        using wf u(2) many by (simp add: wf_node del: wf_text.simps)
      then show ?thesis
        using True small u(1) join
        by (simp add: spells_def Let_def doc_def flatten_node del: wf_text.simps flatten.simps)
    next
      case False
      have "spells (base_replace this pos ?e u) (splice (doc this) pos ?e (doc u))"
        using "4.prems"(2) u(2) A this_doc this_len wf_tlength_doc [OF wf(2)]
        by (intro base_replace_spells) (simp_all add: clip_same)
      moreover have "splice (doc this) pos ?e (doc u) = A @ doc u @ B"
        using splice_middle [of A "doc c" B "doc u"] A wf_tlength_doc [OF wf(2)] by (simp add: this_doc)
      moreover have "replace_child before (c # cs) pos this fr to ins = base_replace this pos ?e u"
        using True False u(1) unfolding replace_child.simps Let_def
        by (simp only: if_True if_False option.case simp_thms)
      ultimately show ?thesis using goal by simp
    qed
  qed
qed

subsection \<open>\<open>slice\<close> and \<open>sliceString\<close>\<close>

lemma slice_spells:
  assumes wf: "wf_text t" and c: "clip t fr0 to0 = (fr, to)"
  shows "spells (slice t fr0 to0) (sub_list fr to (doc t))"
proof -
  note b = clip_bounds [OF c wf]
  have ne: "cut (flatten t) fr to 0 \<noteq> []" using wf b by (intro cut_ne) simp_all
  obtain ts where ts: "decompose t fr to False False [] = Some ts" "wf_parts ts"
    "lines_of ts = cut (flatten t) fr to 0"
    using decompose_ok [of t fr to "[]" False False] wf b by (auto simp: decomp_ok_def)
  have "join_nl (cut (flatten t) fr to 0) = sub_list fr to (doc t)"
    using join_nl_cut [of "flatten t" fr to 0] wf b by (simp add: wf_flatten wf_tlength doc_def)
  then have "spells (node_from ts (to - fr)) (sub_list fr to (doc t))"
    using ts ne b wf by (intro node_from_spells) (auto simp: len_sub_list wf_tlength_doc)
  then show ?thesis by (simp add: slice_def c ts(1))
qed

text \<open>Lines joined by a separator of one's own.\<close>

fun join_sep :: "ustring \<Rightarrow> ustring list \<Rightarrow> ustring" where
  "join_sep sep [] = []"
| "join_sep sep [l] = l"
| "join_sep sep (l # m # ls) = l @ sep @ join_sep sep (m # ls)"

lemma join_sep_NL: "join_sep [NL] ls = join_nl ls"
  by (induction ls rule: join_nl.induct) simp_all

lemma join_sep_append:
  "xs \<noteq> [] \<Longrightarrow> ys \<noteq> [] \<Longrightarrow> join_sep sep (xs @ ys) = join_sep sep xs @ sep @ join_sep sep ys"
proof (induction xs rule: join_nl.induct)
  case (2 l)
  then show ?case by (cases ys) simp_all
qed simp_all

text \<open>What lines at position \<open>pos\<close> add to the result, the separator before them included.\<close>

definition slice_part :: "ustring \<Rightarrow> ustring list \<Rightarrow> int \<Rightarrow> int \<Rightarrow> int \<Rightarrow> ustring" where
  "slice_part sep ls fr to pos =
     (if fr < pos \<and> pos \<le> to \<and> ls \<noteq> [] then sep else []) @ join_sep sep (cut ls fr to pos)"

lemma slice_part_beyond: "to < pos \<Longrightarrow> slice_part sep ls fr to pos = []"
  by (simp add: slice_part_def cut_beyond)

lemma slice_part_append:
  assumes "fr \<le> to" "xs \<noteq> []"
  shows "slice_part sep (xs @ ys) fr to pos
    = slice_part sep xs fr to pos @ slice_part sep ys fr to (pos + textLength xs + 1)"
proof -
  let ?p = "pos + textLength xs + 1"
  have tl: "0 \<le> textLength xs" using assms(2) by (rule textLength_ge)
  consider "to < ?p" | "?p \<le> to" "?p \<le> fr" | "?p \<le> to" "fr < ?p" "ys = []"
    | "?p \<le> to" "fr < ?p" "ys \<noteq> []" by linarith
  then show ?thesis
  proof cases
    case 4
    have "cut xs fr to pos \<noteq> []" "cut ys fr to ?p \<noteq> []"
      using 4 assms tl textLength_ge(2) [of ys] cut_not_Nil [of fr pos xs to] cut_not_Nil [of fr ?p ys to]
      by simp_all
    then show ?thesis using 4 tl assms(2) by (simp add: slice_part_def cut_append join_sep_append)
  qed (use assms tl in \<open>auto simp: slice_part_def cut_append cut_beyond cut_none\<close>)
qed

lemma slice_part_line:
  assumes "fr \<le> to" "pos \<le> to"
  shows "slice_part sep [l] fr to pos = (if fr < pos then sep else []) @
    (if fr < pos + len l \<and> pos < to then sub_list (max 0 (fr - pos)) (to - pos) l else [])"
proof -
  have "sub_list (max 0 (fr - pos)) (to - pos) l = sub_list (fr - pos) (to - pos) l"
    by (cases "0 \<le> fr - pos") (simp_all add: sub_list_def)
  moreover have "sub_list (fr - pos) (to - pos) l = []" if "pos + len l \<le> fr \<or> to \<le> pos"
    using that by (auto simp: sub_list_def)
  ultimately show ?thesis using assms by (auto simp: slice_part_def)
qed

lemma leaf_slice_loop_eq:
  "fr \<le> to \<Longrightarrow> 0 \<le> fr \<Longrightarrow> (i = 0 \<Longrightarrow> pos = 0) \<Longrightarrow>
     leaf_slice_loop ls fr to sep pos i r = r @ slice_part sep ls fr to pos"
proof (induction ls arbitrary: pos i r)
  case (Cons l ls)
  show ?case
    using Cons.prems Cons.IH [of "Suc i" "pos + len l + 1"] slice_part_append [of fr to "[l]" sep ls pos]
      slice_part_line [of fr to pos sep l]
    by (auto simp: Let_def slice_part_beyond)
qed (simp add: slice_part_def)

lemma cut_low: "a \<le> pos \<Longrightarrow> cut ls (max a fr) to pos = cut ls fr to pos"
proof (induction ls arbitrary: pos)
  case (Cons l ls)
  have "sub_list (max a fr - pos) (to - pos) l = sub_list (fr - pos) (to - pos) l"
    using Cons.prems by (cases "a \<le> fr") (simp_all add: sub_list_def max_def)
  then show ?case using Cons.prems Cons.IH [of "pos + len l + 1"] by auto
qed simp

lemma cut_high: "pos + textLength ls \<le> b \<Longrightarrow> cut ls fr (min b to) pos = cut ls fr to pos"
proof (induction ls arbitrary: pos)
  case (Cons l ls)
  have tl: "-1 \<le> textLength ls" by (rule textLength_ge)
  have "sub_list (fr - pos) (min b to - pos) l = sub_list (fr - pos) (to - pos) l"
    using Cons.prems tl sub_list_long [of l "b - pos" "fr - pos"] sub_list_long [of l "to - pos" "fr - pos"]
    by (cases "to \<le> b") (simp_all add: min_def)
  then show ?case using Cons.prems tl Cons.IH [of "pos + len l + 1"] by auto
qed simp

lemma cut_at_end: "ls \<noteq> [] \<Longrightarrow> fr = pos + textLength ls \<Longrightarrow> fr \<le> to \<Longrightarrow> cut ls fr to pos = [[]]"
proof (induction ls arbitrary: pos)
  case (Cons l ls)
  show ?case
  proof (cases "ls = []")
    case True
    then show ?thesis using Cons.prems by (simp add: sub_list_def)
  next
    case False
    then show ?thesis
      using Cons.prems Cons.IH [of "pos + len l + 1"] textLength_ge(2) [of ls] by simp
  qed
qed simp

lemma cut_at_start: "ls \<noteq> [] \<Longrightarrow> fr \<le> pos \<Longrightarrow> cut ls fr pos pos = [[]]"
  by (cases ls) (simp_all add: cut_beyond sub_list_def)

lemma sliceString_eq:
  "wf_text t \<Longrightarrow> clip t fr0 to0 = (fr, to) \<Longrightarrow>
     sliceString t fr0 to0 sep = join_sep sep (cut (flatten t) fr to 0)"
  and slice_children_eq:
  "wf_parts cs \<Longrightarrow> fr \<le> to \<Longrightarrow> 0 \<le> fr \<Longrightarrow> (i = 0 \<Longrightarrow> pos = 0) \<Longrightarrow>
     slice_children cs fr to sep pos i r = r @ slice_part sep (lines_of cs) fr to pos"
proof (induction t fr0 to0 sep and cs fr to sep pos i r arbitrary: fr to and
    rule: sliceString_slice_children.induct)
  case (1 ls l fr0 to0 sep)
  then show ?case
    using clip_bounds [OF 1(2,1)] by (simp add: leaf_slice_loop_eq slice_part_def del: wf_text.simps)
next
  case (2 cs l fr0 to0 sep)
  then show ?case
    using clip_bounds [OF "2.prems"(2,1)]
    by (simp add: wf_node slice_part_def flatten_node del: wf_text.simps flatten.simps)
next
  case (3 fr to sep pos i r)
  then show ?case by (simp add: slice_part_def)
next
  case (4 c cs fr to sep pos i r)
  let ?e = "pos + tlength c"
  have wf: "wf_text c" "wf_parts cs" "tlength c = textLength (flatten c)" "flatten c \<noteq> []" "0 \<le> tlength c"
    using "4.prems"(1) wf_tlength_ge [of c] by (simp_all add: wf_tlength wf_flatten)
  have step: "slice_part sep (lines_of (c # cs)) fr to pos
      = slice_part sep (flatten c) fr to pos @ slice_part sep (lines_of cs) fr to (?e + 1)"
    using slice_part_append [OF "4.prems"(2) wf(4)] wf(3) by simp
  show ?case
  proof (cases "pos \<le> to")
    case False
    then show ?thesis by (simp add: slice_part_beyond)
  next
    case True
    have part: "slice_part sep (flatten c) fr to pos = (if fr < pos then sep else []) @
        (if fr < ?e \<and> pos < to then sliceString c (fr - pos) (to - pos) sep else [])"
    proof (cases "fr < ?e \<and> pos < to")
      case inside: True
      let ?f = "max 0 (fr - pos)" and ?t = "min (tlength c) (to - pos)"
      have "clip c (fr - pos) (to - pos) = (?f, ?t)"
        using inside wf(5) "4.prems"(2) by (auto simp: clip_def)
      then have "sliceString c (fr - pos) (to - pos) sep = join_sep sep (cut (flatten c) ?f ?t 0)"
        using "4.IH"(1) True inside wf(1) by simp
      also have "cut (flatten c) ?f ?t 0 = cut (flatten c) fr to pos"
        using cut_low [of 0 0 "flatten c" "fr - pos" ?t] cut_high [of 0 "flatten c" "tlength c" "fr - pos" "to - pos"]
          cut_shift [of "flatten c" fr pos to 0] wf(3) by simp
      finally show ?thesis using inside True wf(4) by (simp add: slice_part_def)
    next
      case False
      then consider "?e < fr" | "?e = fr" | "pos = to" using True by linarith
      then show ?thesis
        by cases (use False True wf "4.prems"(2) in
            \<open>auto simp: slice_part_def cut_none cut_at_end cut_at_start\<close>)
    qed
    have "i > 0" if "fr < pos" using that "4.prems"(3,4) by (cases i) auto
    then show ?thesis
      using "4.IH"(2) [OF True refl refl refl wf(2) "4.prems"(2,3)] True step part by auto
  qed
qed

lemma sliceString_doc:
  assumes "wf_text t" "clip t fr0 to0 = (fr, to)"
  shows "sliceString t fr0 to0 [NL] = sub_list fr to (doc t)"
  using sliceString_eq [OF assms, of "[NL]"] join_nl_cut [of "flatten t" fr to 0]
    clip_bounds [OF assms(2,1)] assms(1)
  by (simp add: join_sep_NL wf_flatten wf_tlength doc_def)

end
