(* ===== verification/Editor_Document.thy ===== *)
theory Editor_Document
  imports Editor_Text_Spec
begin

text \<open>
  The contract of the editor's documents as the rest of the editor relies on it (the locale \<open>text_doc\<close>,
  interpreted on the trees), the lookup of lines, and the properties of \<open>Text\<close>.
\<close>

subsection \<open>Looking up lines\<close>

text \<open>The \<open>k\<close>-th line (from 0) of the lines of a document.\<close>

definition nth_line :: "ustring list \<Rightarrow> nat \<Rightarrow> line" where
  "nth_line ls k =
     (let fr = textLength (take k ls) + 1
      in \<lparr>line_from = fr, line_to = fr + len (ls ! k), line_number = int k + 1, line_text = ls ! k\<rparr>)"

definition shift_line :: "int \<Rightarrow> int \<Rightarrow> line \<Rightarrow> line" where
  "shift_line n d l = l\<lparr>line_from := line_from l + d, line_to := line_to l + d,
     line_number := line_number l + n\<rparr>"

lemma nth_line_0: "shift_line n d (nth_line (l # ls) 0) =
    \<lparr>line_from = d, line_to = d + len l, line_number = n + 1, line_text = l\<rparr>"
  by (simp add: nth_line_def shift_line_def Let_def)

lemma nth_line_Suc: "nth_line (l # ls) (Suc k) = shift_line 1 (len l + 1) (nth_line ls k)"
  by (simp add: nth_line_def shift_line_def Let_def)

lemma shift_shift: "shift_line n d (shift_line m e l) = shift_line (n + m) (d + e) l"
  by (simp add: shift_line_def)

text \<open>The leaf's loop finds the first line whose end, or number, reaches the target.\<close>

lemma leaf_line_number:
  assumes "ln \<le> target" "target < ln + len ls"
  shows "leaf_line ls target True ln offset
    = Some (shift_line (ln - 1) offset (nth_line ls (nat (target - ln))))"
  using assms
proof (induction ls arbitrary: ln offset)
  case (Cons l ls)
  show ?case
  proof (cases "target = ln")
    case True
    then show ?thesis by (simp add: nth_line_0)
  next
    case False
    then obtain k where k: "nat (target - ln) = Suc k" "nat (target - (ln + 1)) = k"
      using Cons.prems(1) by (cases "nat (target - ln)") auto
    then show ?thesis
      using False Cons.prems Cons.IH [of "ln + 1" "offset + len l + 1"]
      by (simp add: nth_line_Suc shift_shift algebra_simps)
  qed
qed simp

lemma leaf_line_position:
  assumes "offset \<le> target" "target \<le> offset + textLength ls"
  shows "\<exists>k < length ls. leaf_line ls target False ln offset = Some (shift_line (ln - 1) offset (nth_line ls k))
    \<and> offset + line_from (nth_line ls k) \<le> target \<and> target \<le> offset + line_to (nth_line ls k)"
  using assms
proof (induction ls arbitrary: ln offset)
  case (Cons l ls)
  show ?case
  proof (cases "target \<le> offset + len l")
    case True
    then show ?thesis
      using Cons.prems by (intro exI [of _ 0]) (simp add: nth_line_0, simp add: nth_line_def)
  next
    case False
    obtain k where k: "k < length ls"
      "leaf_line ls target False (ln + 1) (offset + len l + 1)
        = Some (shift_line ln (offset + len l + 1) (nth_line ls k))"
      "offset + len l + 1 + line_from (nth_line ls k) \<le> target"
      "target \<le> offset + len l + 1 + line_to (nth_line ls k)"
      using Cons.IH [of "offset + len l + 1" "ln + 1"] Cons.prems False by auto
    then show ?thesis
      using False
      by (intro exI [of _ "Suc k"]) (simp add: nth_line_Suc shift_shift add.assoc, simp add: shift_line_def)
  qed
qed simp

text \<open>The tree's search ends in the line that a search of all lines finds.\<close>

lemma leaf_line_append:
  "leaf_line (xs @ ys) target isLine ln offset =
     (if xs \<noteq> [] \<and> target \<le> (if isLine then ln + len xs - 1 else offset + textLength xs)
      then leaf_line xs target isLine ln offset
      else leaf_line ys target isLine (ln + len xs) (offset + textLength xs + 1))"
proof (induction xs arbitrary: ln offset)
  case (Cons x xs)
  have tl: "xs \<noteq> [] \<Longrightarrow> 0 \<le> textLength xs" by (rule textLength_ge)
  show ?case
  proof (cases "xs = []")
    case True
    then show ?thesis by (simp add: add_ac)
  next
    case False
    then show ?thesis
      using tl [OF False] Cons.IH [of "ln + 1" "offset + len x + 1"]
      by (cases isLine) (simp_all add: Let_def add_ac)
  qed
qed simp

lemma lineInner_eq:
  "wf_text t \<Longrightarrow> lineInner t target isLine ln offset = leaf_line (flatten t) target isLine ln offset"
  and line_child_eq:
  "wf_parts cs \<Longrightarrow> line_child cs target isLine ln offset = leaf_line (lines_of cs) target isLine ln offset"
proof (induction t target isLine ln offset and cs target isLine ln offset
    rule: lineInner_line_child.induct)
  case (2 cs l target isLine ln offset)
  then show ?case by (simp add: wf_node flatten_node del: wf_text.simps flatten.simps)
next
  case (4 c cs target isLine ln offset)
  let ?e = "offset + tlength c" and ?el = "ln + int (tlines c) - 1"
  have wf: "wf_text c" "wf_parts cs" using 4(3) by simp_all
  have eq: "leaf_line (lines_of (c # cs)) target isLine ln offset =
      (if target \<le> (if isLine then ?el else ?e) then leaf_line (flatten c) target isLine ln offset
       else leaf_line (lines_of cs) target isLine (?el + 1) (?e + 1))"
    using wf by (simp add: leaf_line_append wf_tlength tlines_flatten wf_flatten)
  show ?case
  proof (cases "target \<le> (if isLine then ?el else ?e)")
    case True
    show ?thesis
      using 4(1) [OF refl refl True wf(1)] unfolding line_child.simps Let_def eq if_P [OF True] .
  next
    case False
    show ?thesis
      using 4(2) [OF refl refl False wf(2)] unfolding line_child.simps Let_def eq if_not_P [OF False] .
  qed
qed simp_all

lemma line_of_ok:
  assumes "wf_text t" "1 \<le> n" "n \<le> int (tlines t)"
  shows "line_of t n = Inr (Some (nth_line (flatten t) (nat (n - 1))))"
  using assms leaf_line_number [of 1 n "flatten t" 0]
  by (simp add: line_of_def lineInner_eq tlines_flatten shift_line_def)

lemma lineAt_ok:
  assumes "wf_text t" "0 \<le> pos" "pos \<le> tlength t"
  obtains k where "k < tlines t" "lineAt t pos = Inr (Some (nth_line (flatten t) k))"
    "line_from (nth_line (flatten t) k) \<le> pos" "pos \<le> line_to (nth_line (flatten t) k)"
  using assms leaf_line_position [of 0 pos "flatten t" 1]
  by (auto simp: lineAt_def lineInner_eq tlines_flatten shift_line_def wf_tlength)

text \<open>A line is the stretch of the text between its ends, and line feeds surround it.\<close>

lemma nth_line_text:
  assumes "k < length ls"
  shows "sub_list (line_from (nth_line ls k)) (line_to (nth_line ls k)) (join_nl ls) = ls ! k"
    "0 \<le> line_from (nth_line ls k)" "line_to (nth_line ls k) \<le> len (join_nl ls)"
proof -
  let ?A = "if k = 0 then [] else join_nl (take k ls) @ [NL]"
  let ?B = "if drop (Suc k) ls = [] then [] else NL # join_nl (drop (Suc k) ls)"
  have nonempty: "ls \<noteq> []" using assms by auto
  have ls: "ls = take k ls @ ls ! k # drop (Suc k) ls" using assms by (rule id_take_nth_drop)
  have J: "join_nl ls = ?A @ ls ! k @ ?B"
    using assms nonempty join_nl_append [of "take k ls" "ls ! k # drop (Suc k) ls"]
      join_nl_Cons [of "drop (Suc k) ls" "ls ! k"] by (subst ls) auto
  have A: "len ?A = textLength (take k ls) + 1" "-1 \<le> textLength (take k ls)"
    using assms nonempty length_join_nl [of "take k ls"] by (auto simp: textLength_ge)
  have fr: "line_from (nth_line ls k) = len ?A" "line_to (nth_line ls k) = len ?A + len (ls ! k)"
    using A by (simp_all add: nth_line_def Let_def)
  show "sub_list (line_from (nth_line ls k)) (line_to (nth_line ls k)) (join_nl ls) = ls ! k"
    unfolding fr J by (simp add: sub_list_def nat_add_distrib)
  show "0 \<le> line_from (nth_line ls k)" "line_to (nth_line ls k) \<le> len (join_nl ls)"
    unfolding fr J by simp_all
qed

subsection \<open>The contract of documents\<close>

text \<open>
  What the rest of the editor relies on: replacing and slicing are the operations on the text, within the
  length that \<open>appendText\<close> supports. The lemmas are what change sets need of it.
\<close>

locale text_doc =
  fixes valid :: "'t \<Rightarrow> bool"
    and spell :: "'t \<Rightarrow> ustring"
    and size_of :: "'t \<Rightarrow> int"
    and rep :: "'t \<Rightarrow> int \<Rightarrow> int \<Rightarrow> 't \<Rightarrow> 't option"
    and slc :: "'t \<Rightarrow> int \<Rightarrow> int \<Rightarrow> 't option"
    and limit :: int
  assumes size_law: "valid t \<Longrightarrow> size_of t = len (spell t)"
    and rep_law: "valid t \<Longrightarrow> valid u \<Longrightarrow> 0 \<le> fr \<Longrightarrow> fr \<le> to \<Longrightarrow> to \<le> size_of t \<Longrightarrow>
      size_of t \<le> limit \<Longrightarrow> size_of u \<le> limit \<Longrightarrow>
      \<exists>t'. rep t fr to u = Some t' \<and> valid t' \<and> spell t' = splice (spell t) fr to (spell u)"
    and slc_law: "valid t \<Longrightarrow> 0 \<le> fr \<Longrightarrow> fr \<le> to \<Longrightarrow> to \<le> size_of t \<Longrightarrow>
      \<exists>t'. slc t fr to = Some t' \<and> valid t' \<and> spell t' = sub_list fr to (spell t)"
begin

lemma append_end:
  assumes "valid t" "valid u" "size_of t \<le> limit" "size_of u \<le> limit"
  shows "\<exists>t'. rep t (size_of t) (size_of t) u = Some t' \<and> valid t' \<and> spell t' = spell t @ spell u"
  using rep_law [OF assms(1,2), of "size_of t" "size_of t"] assms size_law by (simp add: splice_def)

lemma replace_middle:
  assumes "valid d" "valid u" "spell d = X @ Y" "len X = p" "0 \<le> k" "k \<le> len Y"
    "size_of d \<le> limit" "size_of u \<le> limit"
  shows "\<exists>t'. rep d p (p + k) u = Some t' \<and> valid t' \<and> spell t' = X @ spell u @ drop (nat k) Y"
proof -
  have "size_of d = len X + len Y" using assms(1,3) size_law by simp
  moreover have "splice (spell d) p (p + k) (spell u) = X @ spell u @ drop (nat k) Y"
    using assms(3-5) by (auto simp: splice_def nat_add_distrib)
  ultimately show ?thesis using rep_law [OF assms(1,2), of p "p + k"] assms by simp
qed

lemma slice_middle:
  assumes "valid d" "spell d = X @ Y" "len X = p" "0 \<le> l" "l \<le> len Y"
  shows "\<exists>t'. slc d p (p + l) = Some t' \<and> valid t' \<and> spell t' = take (nat l) Y"
proof -
  have "size_of d = len X + len Y" using assms(1,2) size_law by simp
  moreover have "sub_list p (p + l) (spell d) = take (nat l) Y"
    using assms(2-4) by (auto simp: sub_list_def nat_add_distrib)
  ultimately show ?thesis using slc_law [OF assms(1), of p "p + l"] assms by simp
qed

end

interpretation tree: text_doc wf_text doc tlength replace slice MAX_TO
proof
  show "wf_text t \<Longrightarrow> tlength t = len (doc t)" for t by (rule wf_tlength_doc)
  show "\<exists>t'. replace t fr to u = Some t' \<and> wf_text t' \<and> doc t' = splice (doc t) fr to (doc u)"
    if "wf_text t" "wf_text u" "0 \<le> fr" "fr \<le> to" "to \<le> tlength t" "tlength t \<le> MAX_TO" "tlength u \<le> MAX_TO"
    for t fr to u
    using replace_spells [OF that(1,2) clip_same [OF that(3-5)] that(6,7)] by (simp add: spells_def)
  show "\<exists>t'. slice t fr to = Some t' \<and> wf_text t' \<and> doc t' = sub_list fr to (doc t)"
    if "wf_text t" "0 \<le> fr" "fr \<le> to" "to \<le> tlength t" for t fr to
    using slice_spells [OF that(1) clip_same [OF that(2-4)]] by (simp add: spells_def)
qed

subsection \<open>Properties of documents\<close>

text \<open>
  C31: \<open>TextNode.from\<close>, which calls itself on the chunks it collects, ends on every non-empty list of
  well-formed subtrees, with a well-formed tree (leaves of 1 to 32 lines, inner nodes of at least 32 lines,
  exact lengths) that holds exactly the lines of the subtrees.
\<close>

theorem node_from_total:
  assumes "ts \<noteq> []" "wf_parts ts"
  shows "\<exists>t. node_from ts (parts_length ts) = Some t \<and> wf_text t \<and> flatten t = lines_of ts"
  using node_from_ok [OF assms parts_length_eq [OF assms(2)]] .

theorem node_from_total_witness:
  "\<exists>t. node_from [mk_leaf (replicate 20 [97]), mk_leaf (replicate 20 [98])]
         (parts_length [mk_leaf (replicate 20 [97]), mk_leaf (replicate 20 [98])]) = Some t \<and>
     wf_text t \<and> flatten t = lines_of [mk_leaf (replicate 20 [97]), mk_leaf (replicate 20 [98])]"
  by (rule node_from_total) (simp_all add: wf_mk_leaf)

text \<open>
  \<open>Text.of\<close> followed by \<open>toJSON\<close> gives back the lines, and it builds a well-formed document; an empty
  array of lines is a \<open>RangeError\<close>.
\<close>

theorem text_of_roundtrip:
  "text_of [] = Inl No_lines \<and>
   (ls = [] \<or> (\<exists>t. text_of ls = Inr (Some t) \<and> wf_text t \<and> text_toJSON t = ls \<and> int (tlines t) = len ls \<and>
      tlength t = len (join_nl ls)))"
  using text_of_ok [of ls]
  by (auto simp: text_of_def text_toJSON_def tlines_flatten wf_tlength_doc doc_def)

text \<open>
  C27: \<open>Text.replace\<close>, on whichever of its paths (the direct path of leaves, the update of one child, the
  rebuilding from decomposed parts), is the replacement in the text: the positions are clipped to the
  document, the result is a well-formed document, and its text is the old text with the clipped range
  replaced by the text of the inserted document. The lengths are within the bound of \<open>appendText\<close>.
\<close>

theorem replace_refines:
  assumes "wf_text t" "wf_text ins" "clip t fr to = (f, e)" "tlength t \<le> MAX_TO" "tlength ins \<le> MAX_TO"
  shows "\<exists>t'. replace t fr to ins = Some t' \<and> wf_text t' \<and>
    doc t' = take (nat f) (doc t) @ doc ins @ drop (nat e) (doc t) \<and>
    tlength t' = tlength t - (e - f) + tlength ins"
proof -
  obtain t' where "replace t fr to ins = Some t'" "wf_text t'" "doc t' = splice (doc t) f e (doc ins)"
    using replace_spells [OF assms] by (auto simp: spells_def)
  moreover have "len (splice (doc t) f e (doc ins)) = len (doc t) - (e - f) + len (doc ins)"
    using clip_bounds [OF assms(3,1)] assms(1) by (intro len_splice) (simp_all add: wf_tlength_doc)
  ultimately show ?thesis using assms(1,2) by (auto simp: splice_def wf_tlength_doc)
qed

theorem replace_refines_witness:
  "\<exists>t'. replace (mk_leaf [[97, 98], [99]]) 1 3 (mk_leaf [[120], [121]]) = Some t' \<and> wf_text t' \<and>
     doc t' = [97, 120, 10, 121, 99] \<and> tlength t' = 5"
  using replace_refines [of "mk_leaf [[97, 98], [99]]" "mk_leaf [[120], [121]]" 1 3 1 3]
  by (simp add: mk_leaf_def clip_def MAX_TO_def doc_def NL_def)

text \<open>
  \<open>slice\<close> gives a document of the text between the clipped positions, and \<open>sliceString\<close> with line
  feeds gives that text itself; \<open>toString\<close> gives the whole text.
\<close>

theorem slice_refines:
  assumes "wf_text t" "clip t fr to = (f, e)"
  shows "\<exists>s. slice t fr to = Some s \<and> wf_text s \<and> doc s = sub_list f e (doc t) \<and>
    sliceString t fr to [NL] = doc s \<and> toString t = doc t"
proof -
  have "clip t 0 (tlength t) = (0, tlength t)"
    using wf_tlength_ge [OF assms(1)] by (intro clip_same) simp_all
  then have "toString t = sub_list 0 (tlength t) (doc t)"
    unfolding toString_def by (rule sliceString_doc [OF assms(1)])
  then have "toString t = doc t" using assms(1) by (simp add: sub_list_def wf_tlength_doc)
  then show ?thesis using slice_spells [OF assms] sliceString_doc [OF assms] by (auto simp: spells_def)
qed

theorem slice_refines_witness:
  "\<exists>s. slice (mk_leaf [[97, 98], [99]]) (-4) 3 = Some s \<and> wf_text s \<and> doc s = [97, 98, 10] \<and>
     sliceString (mk_leaf [[97, 98], [99]]) (-4) 3 [NL] = doc s \<and>
     toString (mk_leaf [[97, 98], [99]]) = doc (mk_leaf [[97, 98], [99]])"
proof -
  have "sub_list 0 3 (doc (mk_leaf [[97, 98], [99]])) = [97, 98, 10]"
    by (simp add: mk_leaf_def doc_def NL_def sub_list_def numeral_3_eq_3)
  then show ?thesis
    using slice_refines [of "mk_leaf [[97, 98], [99]]" "-4" 3 0 3] by (simp add: mk_leaf_def clip_def)
qed

text \<open>
  \<open>lineAt\<close> answers exactly for the positions from 0 to the length, with the line that contains the
  position; \<open>line\<close> answers exactly for the numbers from 1 to the number of lines; they agree, and the text
  of a line is the stretch of the document between its ends.
\<close>

theorem lineAt_correct:
  assumes "wf_text t" "0 \<le> pos" "pos \<le> tlength t"
  shows "\<exists>l. lineAt t pos = Inr (Some l) \<and> line_from l \<le> pos \<and> pos \<le> line_to l \<and>
    line_of t (line_number l) = Inr (Some l) \<and> line_text l = sub_list (line_from l) (line_to l) (doc t) \<and>
    0 \<le> line_from l \<and> line_to l \<le> tlength t \<and>
    lineAt t (-1) = Inl (Bad_position (-1) (tlength t)) \<and> line_of t 0 = Inl (Bad_line 0 (tlines t))"
proof -
  obtain k where k: "k < tlines t" "lineAt t pos = Inr (Some (nth_line (flatten t) k))"
    "line_from (nth_line (flatten t) k) \<le> pos" "pos \<le> line_to (nth_line (flatten t) k)"
    using lineAt_ok [OF assms] .
  let ?l = "nth_line (flatten t) k"
  have l: "line_number ?l = int k + 1" "line_text ?l = flatten t ! k" by (simp_all add: nth_line_def Let_def)
  have "line_of t (line_number ?l) = Inr (Some ?l)"
    using line_of_ok [OF assms(1), of "line_number ?l"] k(1) l(1) by simp
  moreover note nth_line_text [of k "flatten t"]
  ultimately show ?thesis
    using k l assms(1)
    by (intro exI [of _ ?l]) (auto simp: tlines_flatten doc_def wf_tlength_doc lineAt_def line_of_def)
qed

theorem lineAt_correct_witness:
  "\<exists>l. lineAt (mk_leaf [[97, 98], [99]]) 3 = Inr (Some l) \<and> line_from l \<le> 3 \<and> 3 \<le> line_to l"
  using lineAt_correct [of "mk_leaf [[97, 98], [99]]" 3] by (simp add: mk_leaf_def) blast

end
