(* ===== verification/Editor_Changes.thy ===== *)
theory Editor_Changes
  imports Editor_Document
begin

text \<open>
  Change sets of the editor: the classes \<open>ChangeDesc\<close>, \<open>ChangeSet\<close> and \<open>SectionIter\<close> and the functions
  \<open>addSection\<close>, \<open>addInsert\<close>, \<open>iterChanges\<close>, \<open>mapSet\<close> and \<open>composeSets\<close> of \<open>@codemirror/state\<close> (bundled into
  \<open>app/assets/builds/application.js\<close>).

  The code keeps sections as a flat array of numbers, two for each section; here a section is a pair, and
  an index into the array counts sections. A section \<open>(len, -1)\<close> is unaffected, a section \<open>(len, ins)\<close> replaces
  \<open>len\<close> characters by \<open>ins\<close> characters, whose text is at the section's index in \<open>inserted\<close>. Results are \<open>None\<close>
  where the code would read a property of \<open>undefined\<close>, which throws a \<open>TypeError\<close>, or would not return.
\<close>

record change_desc =
  sections :: "(int \<times> int) list"

record change_set = change_desc +
  inserted :: "text_tree list"

datatype change_error =
    Wrong_length
  | Mismatched_lengths
  | Mismatched_set int int
  | Invalid_range int int int
  | Out_of_range int int
  | Invalid_json

definition mk_desc :: "(int \<times> int) list \<Rightarrow> change_desc" where
  "mk_desc secs = \<lparr>sections = secs\<rparr>"

definition mk_set :: "(int \<times> int) list \<Rightarrow> text_tree list \<Rightarrow> change_set" where
  "mk_set secs ins = \<lparr>sections = secs, inserted = ins\<rparr>"

subsection \<open>Reading a description\<close>

fun sections_length :: "(int \<times> int) list \<Rightarrow> int" where
  "sections_length [] = 0"
| "sections_length ((l, i) # secs) = l + sections_length secs"

fun sections_newLength :: "(int \<times> int) list \<Rightarrow> int" where
  "sections_newLength [] = 0"
| "sections_newLength ((l, i) # secs) = (if i < 0 then l else i) + sections_newLength secs"

definition desc_length :: "'a change_desc_scheme \<Rightarrow> int" where
  "desc_length cs = sections_length (sections cs)"

definition newLength :: "'a change_desc_scheme \<Rightarrow> int" where
  "newLength cs = sections_newLength (sections cs)"

definition desc_empty :: "'a change_desc_scheme \<Rightarrow> bool" where
  "desc_empty cs \<longleftrightarrow> sections cs = [] \<or> length (sections cs) = 1 \<and> snd (sections cs ! 0) < 0"

text \<open>\<open>iterGaps\<close>: the calls of its callback, in order.\<close>

fun iterGaps_loop :: "(int \<times> int) list \<Rightarrow> int \<Rightarrow> int \<Rightarrow> (int \<times> int \<times> int) list" where
  "iterGaps_loop [] posA posB = []"
| "iterGaps_loop ((l, i) # secs) posA posB =
     (if i < 0 then (posA, posB, l) # iterGaps_loop secs (posA + l) (posB + l)
      else iterGaps_loop secs (posA + l) (posB + i))"

definition iterGaps :: "'a change_desc_scheme \<Rightarrow> (int \<times> int \<times> int) list" where
  "iterGaps cs = iterGaps_loop (sections cs) 0 0"

record changed_range =
  fromA :: int
  toA :: int
  fromB :: int
  toB :: int
  new_text :: text_tree

text \<open>
  \<open>iterChanges\<close>: the calls of its callback, in order. \<open>posA\<close>, \<open>posB\<close> is the start of the change being
  collected, \<open>endA\<close>, \<open>endB\<close> and \<open>t\<close> what was collected of it; a \<open>ChangeDesc\<close> has no inserted texts.
\<close>

fun iterChanges_loop ::
    "text_tree list option \<Rightarrow> bool \<Rightarrow> (int \<times> int) list \<Rightarrow> nat \<Rightarrow> int \<Rightarrow> int \<Rightarrow> int \<Rightarrow> int \<Rightarrow> text_tree
     \<Rightarrow> changed_range list option" where
  "iterChanges_loop insd individual [] i posA posB endA endB t = Some []"
| "iterChanges_loop insd individual ((l, n) # secs) i posA posB endA endB t =
     (if n < 0 then
        iterChanges_loop insd individual secs (Suc i) (posA + l) (posB + l) (posA + l) (posB + l) empty_text
      else
        (case (case insd of
                 None \<Rightarrow> Some t
               | Some ts \<Rightarrow> (if n = 0 then Some t
                             else if i < length ts then append_text t (ts ! i) else None)) of
           None \<Rightarrow> None
         | Some t' \<Rightarrow>
             (let eA = endA + l; eB = endB + n
              in if individual \<or> secs = [] \<or> snd (secs ! 0) < 0
                 then map_option (Cons \<lparr>fromA = posA, toA = eA, fromB = posB, toB = eB, new_text = t'\<rparr>)
                        (iterChanges_loop insd individual secs (Suc i) eA eB eA eB empty_text)
                 else iterChanges_loop insd individual secs (Suc i) posA posB eA eB t')))"

definition iterChanges :: "change_set \<Rightarrow> bool \<Rightarrow> changed_range list option" where
  "iterChanges cs individual =
     iterChanges_loop (Some (inserted cs)) individual (sections cs) 0 0 0 0 0 empty_text"

definition iterChangedRanges :: "change_desc \<Rightarrow> bool \<Rightarrow> changed_range list option" where
  "iterChangedRanges cs individual =
     iterChanges_loop None individual (sections cs) 0 0 0 0 0 empty_text"

fun invert_section :: "int \<times> int \<Rightarrow> int \<times> int" where
  "invert_section (l, i) = (if i < 0 then (l, i) else (i, l))"

definition invertedDesc :: "'a change_desc_scheme \<Rightarrow> change_desc" where
  "invertedDesc cs = mk_desc (map invert_section (sections cs))"

subsection \<open>Mapping positions\<close>

datatype map_mode = Simple | TrackDel | TrackBefore | TrackAfter

fun mapPos_loop :: "(int \<times> int) list \<Rightarrow> int \<Rightarrow> int \<Rightarrow> map_mode \<Rightarrow> int \<Rightarrow> int \<Rightarrow> change_error + int option" where
  "mapPos_loop [] pos assoc mode posA posB =
     (if pos > posA then Inl (Out_of_range pos posA) else Inr (Some posB))"
| "mapPos_loop ((l, ins) # secs) pos assoc mode posA posB =
     (let endA = posA + l
      in if ins < 0 then
           (if endA > pos then Inr (Some (posB + (pos - posA)))
            else mapPos_loop secs pos assoc mode endA (posB + l))
         else if mode \<noteq> Simple \<and> endA \<ge> pos \<and>
                 (mode = TrackDel \<and> posA < pos \<and> endA > pos \<or>
                  mode = TrackBefore \<and> posA < pos \<or>
                  mode = TrackAfter \<and> endA > pos) then Inr None
         else if endA > pos \<or> endA = pos \<and> assoc < 0 \<and> l = 0 then
           Inr (Some (if pos = posA \<or> assoc < 0 then posB else posB + ins))
         else mapPos_loop secs pos assoc mode endA (posB + ins))"

definition mapPos :: "'a change_desc_scheme \<Rightarrow> int \<Rightarrow> int \<Rightarrow> map_mode \<Rightarrow> change_error + int option" where
  "mapPos cs pos assoc mode = mapPos_loop (sections cs) pos assoc mode 0 0"

datatype touch = Untouched | Touched | Covered

fun touchesRange_loop :: "(int \<times> int) list \<Rightarrow> int \<Rightarrow> int \<Rightarrow> int \<Rightarrow> touch" where
  "touchesRange_loop [] fr to pos = Untouched"
| "touchesRange_loop ((l, ins) # secs) fr to pos =
     (if pos \<le> to then
        (let end = pos + l
         in if ins \<ge> 0 \<and> pos \<le> to \<and> end \<ge> fr
            then (if pos < fr \<and> end > to then Covered else Touched)
            else touchesRange_loop secs fr to end)
      else Untouched)"

definition touchesRange :: "'a change_desc_scheme \<Rightarrow> int \<Rightarrow> int \<Rightarrow> touch" where
  "touchesRange cs fr to = touchesRange_loop (sections cs) fr to 0"

subsection \<open>Building sections\<close>

definition addSection :: "(int \<times> int) list \<Rightarrow> int \<Rightarrow> int \<Rightarrow> bool \<Rightarrow> (int \<times> int) list" where
  "addSection secs l ins forceJoin =
     (if l = 0 \<and> ins \<le> 0 then secs
      else if secs \<noteq> [] \<and> ins \<le> 0 \<and> ins = snd (last secs)
        then butlast secs @ [(fst (last secs) + l, snd (last secs))]
      else if secs \<noteq> [] \<and> l = 0 \<and> fst (last secs) = 0
        then butlast secs @ [(fst (last secs), snd (last secs) + ins)]
      else if forceJoin
        then (if secs = [] then secs
              else butlast secs @ [(fst (last secs) + l, snd (last secs) + ins)])
      else secs @ [(l, ins)])"

definition addInsert :: "text_tree list \<Rightarrow> (int \<times> int) list \<Rightarrow> text_tree \<Rightarrow> text_tree list option" where
  "addInsert values secs value =
     (if tlength value = 0 then Some values
      else
        (let index = len secs - 1
         in if index < len values then
              (if values = [] then None
               else map_option (\<lambda>t. butlast values @ [t]) (append_text (last values) value))
            else Some (values @ replicate (nat (index - len values)) empty_text @ [value])))"

subsection \<open>Section iterators\<close>

record section_iter =
  it_sections :: "(int \<times> int) list"
  it_inserted :: "text_tree list"
  it_i :: nat
  it_len :: int
  it_ins :: int
  it_off :: int

definition iter_next :: "section_iter \<Rightarrow> section_iter" where
  "iter_next it =
     (if it_i it < length (it_sections it)
      then it\<lparr>it_len := fst (it_sections it ! it_i it), it_ins := snd (it_sections it ! it_i it),
              it_i := it_i it + 1, it_off := 0\<rparr>
      else it\<lparr>it_len := 0, it_ins := -2, it_off := 0\<rparr>)"

definition new_iter :: "(int \<times> int) list \<Rightarrow> text_tree list \<Rightarrow> section_iter" where
  "new_iter secs ts =
     iter_next \<lparr>it_sections = secs, it_inserted = ts, it_i = 0, it_len = 0, it_ins = 0, it_off = 0\<rparr>"

definition iter_done :: "section_iter \<Rightarrow> bool" where
  "iter_done it \<longleftrightarrow> it_ins it = -2"

definition iter_len2 :: "section_iter \<Rightarrow> int" where
  "iter_len2 it = (if it_ins it < 0 then it_len it else it_ins it)"

definition iter_text :: "section_iter \<Rightarrow> text_tree option" where
  "iter_text it =
     (if it_i it = 0 then None
      else if it_i it - 1 \<ge> length (it_inserted it) then Some empty_text
      else Some (it_inserted it ! (it_i it - 1)))"

definition iter_textBit :: "section_iter \<Rightarrow> int \<Rightarrow> text_tree option" where
  "iter_textBit it l =
     (if it_i it = 0 then None
      else if it_i it - 1 \<ge> length (it_inserted it) then (if l = 0 then Some empty_text else None)
      else slice (it_inserted it ! (it_i it - 1)) (it_off it) (it_off it + l))"

definition iter_forward :: "section_iter \<Rightarrow> int \<Rightarrow> section_iter" where
  "iter_forward it l =
     (if l = it_len it then iter_next it
      else it\<lparr>it_len := it_len it - l, it_off := it_off it + l\<rparr>)"

definition iter_forward2 :: "section_iter \<Rightarrow> int \<Rightarrow> section_iter" where
  "iter_forward2 it l =
     (if it_ins it = -1 then iter_forward it l
      else if l = it_ins it then iter_next it
      else it\<lparr>it_ins := it_ins it - l, it_off := it_off it + l\<rparr>)"

subsection \<open>Composing\<close>

text \<open>
  The loops advance by steps: \<open>Go\<close> to the next state, \<open>Finish\<close> with a result, \<open>Fail\<close> with an error of the
  code's own, \<open>Undef\<close> where the code reads a property of \<open>undefined\<close>.
\<close>

datatype ('s, 'r) step = Go 's | Finish 'r | Fail change_error | Undef

record compose_state =
  cp_sections :: "(int \<times> int) list"
  cp_insert :: "text_tree list"
  cp_a :: section_iter
  cp_b :: section_iter
  cp_open :: bool

text \<open>\<open>if (insert2) addInsert(insert2, sections, ...)\<close>: the text is only looked up for a set.\<close>

definition put_insert ::
    "bool \<Rightarrow> text_tree list \<Rightarrow> (int \<times> int) list \<Rightarrow> text_tree option \<Rightarrow> text_tree list option" where
  "put_insert mkSet values secs value =
     (if mkSet then Option.bind value (addInsert values secs) else Some values)"

definition compose_emit ::
    "compose_state \<Rightarrow> (int \<times> int) list \<Rightarrow> text_tree list option \<Rightarrow> (compose_state \<Rightarrow> compose_state)
     \<Rightarrow> (compose_state, 'r) step" where
  "compose_emit st secs ins f =
     (case ins of None \<Rightarrow> Undef | Some ts \<Rightarrow> Go (f (st\<lparr>cp_sections := secs, cp_insert := ts\<rparr>)))"

text \<open>The last branch of the loop: \<open>len\<close> characters of the middle document are consumed.\<close>

definition compose_pair :: "bool \<Rightarrow> compose_state \<Rightarrow> (compose_state, 'r) step" where
  "compose_pair mkSet st =
     (let a = cp_a st; b = cp_b st; secs = cp_sections st; ts = cp_insert st; opn = cp_open st;
          l = min (iter_len2 a) (it_len b);
          (secs', ts') =
            (if it_ins a = -1 then
               (let insB = (if it_ins b = -1 then -1 else if it_off b \<noteq> 0 then 0 else it_ins b);
                    secs' = addSection secs l insB opn
                in (secs', if insB \<noteq> 0 then put_insert mkSet ts secs' (iter_text b) else Some ts))
             else if it_ins b = -1 then
               (let secs' = addSection secs (if it_off a \<noteq> 0 then 0 else it_len a) l opn
                in (secs', put_insert mkSet ts secs' (iter_textBit a l)))
             else
               (let secs' = addSection secs (if it_off a \<noteq> 0 then 0 else it_len a)
                              (if it_off b \<noteq> 0 then 0 else it_ins b) opn
                in (secs', if it_off b = 0 then put_insert mkSet ts secs' (iter_text b) else Some ts)))
      in compose_emit st secs' ts'
           (\<lambda>s. s\<lparr>cp_open := (it_ins a > l \<or> it_ins b \<ge> 0 \<and> it_len b > l) \<and>
                              (opn \<or> length secs' > length secs),
                 cp_a := iter_forward2 a l,
                 cp_b := iter_forward b l\<rparr>))"

definition compose_step ::
    "bool \<Rightarrow> compose_state \<Rightarrow> (compose_state, (int \<times> int) list \<times> text_tree list) step" where
  "compose_step mkSet st =
     (let a = cp_a st; b = cp_b st
      in if iter_done a \<and> iter_done b then Finish (cp_sections st, cp_insert st)
         else if it_ins a = 0 then
           compose_emit st (addSection (cp_sections st) (it_len a) 0 (cp_open st)) (Some (cp_insert st))
             (\<lambda>s. s\<lparr>cp_a := iter_next a\<rparr>)
         else if it_len b = 0 \<and> \<not> iter_done b then
           (let secs' = addSection (cp_sections st) 0 (it_ins b) (cp_open st)
            in compose_emit st secs' (put_insert mkSet (cp_insert st) secs' (iter_text b))
                 (\<lambda>s. s\<lparr>cp_b := iter_next b\<rparr>))
         else if iter_done a \<or> iter_done b then Fail Mismatched_lengths
         else compose_pair mkSet st)"

text \<open>\<open>None\<close> is a loop that does not end, or a \<open>TypeError\<close>.\<close>

partial_function (option) compose_loop ::
    "bool \<Rightarrow> compose_state \<Rightarrow> (change_error + (int \<times> int) list \<times> text_tree list) option" where
  "compose_loop mkSet st =
     (case compose_step mkSet st of
        Go st' \<Rightarrow> compose_loop mkSet st'
      | Finish r \<Rightarrow> Some (Inr r)
      | Fail e \<Rightarrow> Some (Inl e)
      | Undef \<Rightarrow> None)"

definition composeSets ::
    "(int \<times> int) list \<Rightarrow> text_tree list \<Rightarrow> (int \<times> int) list \<Rightarrow> text_tree list \<Rightarrow> bool
     \<Rightarrow> (change_error + (int \<times> int) list \<times> text_tree list) option" where
  "composeSets secsA insA secsB insB mkSet =
     compose_loop mkSet \<lparr>cp_sections = [], cp_insert = [], cp_a = new_iter secsA insA,
       cp_b = new_iter secsB insB, cp_open = False\<rparr>"

subsection \<open>Mapping a change over another\<close>

record map_state =
  mp_sections :: "(int \<times> int) list"
  mp_insert :: "text_tree list"
  mp_a :: section_iter
  mp_b :: section_iter
  mp_inserted :: int

text \<open>
  The \<open>while (len)\<close> loop of the second branch: the part of \<open>A\<close> that \<open>B\<close> replaces is passed over, but the
  insertions that end in it are kept. A round is \<open>None\<close> where it throws a \<open>TypeError\<close>.
\<close>

definition map_skip_round :: "bool \<Rightarrow> int \<times> map_state \<Rightarrow> (int \<times> map_state) option" where
  "map_skip_round mkSet s =
     (case s of
        (l, st) \<Rightarrow>
          (let a = mp_a st;
               piece = min (it_len a) l;
               keep = (it_ins a \<ge> 0 \<and> mp_inserted st < int (it_i a) \<and> it_len a \<le> piece);
               secs' = addSection (mp_sections st) 0 (it_ins a) False
           in if keep then
                map_option
                  (\<lambda>ts. (l - piece,
                         st\<lparr>mp_sections := secs', mp_insert := ts, mp_inserted := int (it_i a),
                            mp_a := iter_forward a piece\<rparr>))
                  (put_insert mkSet (mp_insert st) secs' (iter_text a))
              else Some (l - piece, st\<lparr>mp_a := iter_forward a piece\<rparr>)))"

partial_function (option) map_skip :: "bool \<Rightarrow> int \<Rightarrow> map_state \<Rightarrow> map_state option" where
  "map_skip mkSet l st =
     (if l = 0 then Some st
      else
        (case map_skip_round mkSet (l, st) of
           None \<Rightarrow> None
         | Some s \<Rightarrow> map_skip mkSet (fst s) (snd s)))"

text \<open>The \<open>while (left)\<close> loop of the third branch: what \<open>B\<close> leaves of the part that \<open>A\<close> replaces.\<close>

partial_function (option) map_left :: "int \<Rightarrow> int \<Rightarrow> section_iter \<Rightarrow> (int \<times> int \<times> section_iter) option" where
  "map_left l left b =
     (if left = 0 then Some (l, left, b)
      else if it_ins b = -1 then
        map_left (l + min left (it_len b)) (left - min left (it_len b)) (iter_forward b (min left (it_len b)))
      else if it_ins b = 0 \<and> it_len b < left then map_left l (left - it_len b) (iter_next b)
      else Some (l, left, b))"

definition map_step ::
    "bool \<Rightarrow> bool \<Rightarrow> map_state \<Rightarrow> (map_state, (int \<times> int) list \<times> text_tree list) step" where
  "map_step before mkSet st =
     (let a = mp_a st; b = mp_b st
      in if iter_done a \<and> it_len b \<noteq> 0 \<or> iter_done b \<and> it_len a \<noteq> 0 then Fail Mismatched_lengths
         else if it_ins a = -1 \<and> it_ins b = -1 then
           (let l = min (it_len a) (it_len b)
            in Go (st\<lparr>mp_sections := addSection (mp_sections st) l (-1) False,
                      mp_a := iter_forward a l, mp_b := iter_forward b l\<rparr>))
         else if it_ins b \<ge> 0 \<and>
             (it_ins a < 0 \<or> mp_inserted st = int (it_i a) \<or>
              it_off a = 0 \<and> (it_len b < it_len a \<or> it_len b = it_len a \<and> \<not> before)) then
           (case map_skip mkSet (it_len b)
                   (st\<lparr>mp_sections := addSection (mp_sections st) (it_ins b) (-1) False\<rparr>) of
              None \<Rightarrow> Undef
            | Some st' \<Rightarrow> Go (st'\<lparr>mp_b := iter_next b\<rparr>))
         else if it_ins a \<ge> 0 then
           (case map_left 0 (it_len a) b of
              None \<Rightarrow> Undef
            | Some (l, left, b') \<Rightarrow>
                (let fresh = (mp_inserted st < int (it_i a));
                     secs' = addSection (mp_sections st) l (if fresh then it_ins a else 0) False
                 in case (if fresh then put_insert mkSet (mp_insert st) secs' (iter_text a)
                          else Some (mp_insert st)) of
                      None \<Rightarrow> Undef
                    | Some ts \<Rightarrow>
                        Go (st\<lparr>mp_sections := secs', mp_insert := ts, mp_inserted := int (it_i a),
                               mp_a := iter_forward a (it_len a - left), mp_b := b'\<rparr>)))
         else if iter_done a \<and> iter_done b then Finish (mp_sections st, mp_insert st)
         else Fail Mismatched_lengths)"

partial_function (option) map_loop ::
    "bool \<Rightarrow> bool \<Rightarrow> map_state \<Rightarrow> (change_error + (int \<times> int) list \<times> text_tree list) option" where
  "map_loop before mkSet st =
     (case map_step before mkSet st of
        Go st' \<Rightarrow> map_loop before mkSet st'
      | Finish r \<Rightarrow> Some (Inr r)
      | Fail e \<Rightarrow> Some (Inl e)
      | Undef \<Rightarrow> None)"

definition mapSet ::
    "(int \<times> int) list \<Rightarrow> text_tree list \<Rightarrow> (int \<times> int) list \<Rightarrow> bool \<Rightarrow> bool
     \<Rightarrow> (change_error + (int \<times> int) list \<times> text_tree list) option" where
  "mapSet secsA insA secsB before mkSet =
     map_loop before mkSet \<lparr>mp_sections = [], mp_insert = [], mp_a = new_iter secsA insA,
       mp_b = new_iter secsB [], mp_inserted = -1\<rparr>"

end
