(* ===== verification/Editor_Change_Sets.thy ===== *)
theory Editor_Change_Sets
  imports Editor_Changes
begin

text \<open>
  The operations of \<open>ChangeSet\<close>: applying a set to a document, inverting, composing, mapping, filtering, its
  JSON form, and \<open>ChangeSet.of\<close>, which builds a set from the editor's change specifications.

  An \<open>outcome\<close> is \<open>Some (Inl e)\<close> for an error that the code throws itself, \<open>Some (Inr r)\<close> for a result and
  \<open>None\<close> for a \<open>TypeError\<close> or a loop that does not end.
\<close>

type_synonym 'a outcome = "(change_error + 'a) option"

definition bind_outcome :: "'a outcome \<Rightarrow> ('a \<Rightarrow> 'b outcome) \<Rightarrow> 'b outcome" where
  "bind_outcome r f = (case r of None \<Rightarrow> None | Some (Inl e) \<Rightarrow> Some (Inl e) | Some (Inr x) \<Rightarrow> f x)"

lemma bind_outcome_simps [simp]:
  "bind_outcome None f = None" "bind_outcome (Some (Inl e)) f = Some (Inl e)"
  "bind_outcome (Some (Inr x)) f = f x"
  by (simp_all add: bind_outcome_def)

subsection \<open>Descriptions\<close>

definition composeDesc :: "change_desc \<Rightarrow> change_desc \<Rightarrow> change_desc outcome" where
  "composeDesc this other =
     (if desc_empty this then Some (Inr other)
      else if desc_empty other then Some (Inr this)
      else bind_outcome (composeSets (sections this) [] (sections other) [] False)
             (\<lambda>(secs, _). Some (Inr (mk_desc secs))))"

definition mapDesc :: "change_desc \<Rightarrow> 'a change_desc_scheme \<Rightarrow> bool \<Rightarrow> change_desc outcome" where
  "mapDesc this other before =
     (if desc_empty other then Some (Inr this)
      else bind_outcome (mapSet (sections this) [] (sections other) before False)
             (\<lambda>(secs, _). Some (Inr (mk_desc secs))))"

definition set_desc :: "change_set \<Rightarrow> change_desc" where
  "set_desc cs = mk_desc (sections cs)"

subsection \<open>Sets\<close>

fun apply_ranges :: "changed_range list \<Rightarrow> text_tree \<Rightarrow> text_tree option" where
  "apply_ranges [] d = Some d"
| "apply_ranges (r # rs) d =
     (case replace d (fromB r) (fromB r + (toA r - fromA r)) (new_text r) of
        None \<Rightarrow> None
      | Some d' \<Rightarrow> apply_ranges rs d')"

definition apply_set :: "change_set \<Rightarrow> text_tree \<Rightarrow> text_tree outcome" where
  "apply_set cs d =
     (if desc_length cs \<noteq> tlength d then Some (Inl Wrong_length)
      else
        (case iterChanges cs False of
           None \<Rightarrow> None
         | Some rs \<Rightarrow> map_option Inr (apply_ranges rs d)))"

fun invert_loop ::
    "(int \<times> int) list \<Rightarrow> text_tree \<Rightarrow> nat \<Rightarrow> int \<Rightarrow> text_tree list \<Rightarrow> text_tree list option" where
  "invert_loop [] d index pos ts = Some ts"
| "invert_loop ((l, ins) # secs) d index pos ts =
     (if ins \<ge> 0 then
        (case (if l \<noteq> 0 then slice d pos (pos + l) else Some empty_text) of
           None \<Rightarrow> None
         | Some t \<Rightarrow>
             invert_loop secs d (Suc index) (pos + l) (ts @ replicate (index - length ts) empty_text @ [t]))
      else invert_loop secs d (Suc index) (pos + l) ts)"

definition invert :: "change_set \<Rightarrow> text_tree \<Rightarrow> change_set option" where
  "invert cs d =
     map_option (mk_set (map invert_section (sections cs))) (invert_loop (sections cs) d 0 0 [])"

definition compose :: "change_set \<Rightarrow> change_set \<Rightarrow> change_set outcome" where
  "compose this other =
     (if desc_empty this then Some (Inr other)
      else if desc_empty other then Some (Inr this)
      else bind_outcome
             (composeSets (sections this) (inserted this) (sections other) (inserted other) True)
             (\<lambda>(secs, ts). Some (Inr (mk_set secs ts))))"

definition map_set :: "change_set \<Rightarrow> 'a change_desc_scheme \<Rightarrow> bool \<Rightarrow> change_set outcome" where
  "map_set this other before =
     (if desc_empty other then Some (Inr this)
      else bind_outcome (mapSet (sections this) (inserted this) (sections other) before True)
             (\<lambda>(secs, ts). Some (Inr (mk_set secs ts))))"

definition empty_set :: "int \<Rightarrow> change_set" where
  "empty_set l = mk_set (if l \<noteq> 0 then [(l, -1)] else []) []"

subsection \<open>Filtering\<close>

text \<open>
  \<open>filter\<close> splits a set into the changes outside the given ranges and the description of those inside.
  Its two inner loops tell whether the sections are used up, which leaves the outer loop.
\<close>

record filter_state =
  fl_result :: "(int \<times> int) list"
  fl_inserted :: "text_tree list"
  fl_filtered :: "(int \<times> int) list"
  fl_iter :: section_iter
  fl_pos :: int

definition filter_ins :: "section_iter \<Rightarrow> int" where
  "filter_ins it = (if it_ins it = -1 then -1 else if it_off it = 0 then it_ins it else 0)"

partial_function (option) filter_outside :: "int \<Rightarrow> filter_state \<Rightarrow> (bool \<times> filter_state) option" where
  "filter_outside bound st =
     (if fl_pos st < bound \<or> fl_pos st = bound \<and> it_len (fl_iter st) = 0 then
        (if iter_done (fl_iter st) then Some (True, st)
         else
           (let it = fl_iter st;
                l = min (it_len it) (bound - fl_pos st);
                ins = filter_ins it;
                secs = addSection (fl_result st) l ins False
            in case (if ins > 0 then put_insert True (fl_inserted st) secs (iter_text it)
                     else Some (fl_inserted st)) of
                 None \<Rightarrow> None
               | Some ts \<Rightarrow>
                   filter_outside bound
                     (st\<lparr>fl_filtered := addSection (fl_filtered st) l (-1) False, fl_result := secs,
                         fl_inserted := ts, fl_iter := iter_forward it l, fl_pos := fl_pos st + l\<rparr>)))
      else Some (False, st))"

partial_function (option) filter_inside :: "int \<Rightarrow> filter_state \<Rightarrow> (bool \<times> filter_state) option" where
  "filter_inside bound st =
     (if fl_pos st < bound then
        (if iter_done (fl_iter st) then Some (True, st)
         else
           (let it = fl_iter st;
                l = min (it_len it) (bound - fl_pos st)
            in filter_inside bound
                 (st\<lparr>fl_result := addSection (fl_result st) l (-1) False,
                     fl_filtered := addSection (fl_filtered st) l (filter_ins it) False,
                     fl_iter := iter_forward it l, fl_pos := fl_pos st + l\<rparr>)))
      else Some (False, st))"

text \<open>Past the last range the loop only ends when the sections do.\<close>

fun filter_ranges :: "int list \<Rightarrow> filter_state \<Rightarrow> filter_state option" where
  "filter_ranges [] st =
     (case filter_outside 1000000000 st of Some (True, st') \<Rightarrow> Some st' | _ \<Rightarrow> None)"
| "filter_ranges [n] st =
     (case filter_outside n st of Some (True, st') \<Rightarrow> Some st' | _ \<Rightarrow> None)"
| "filter_ranges (n # e # ns) st =
     (case filter_outside n st of
        None \<Rightarrow> None
      | Some (fin, st') \<Rightarrow>
          (if fin then Some st'
           else
             (case filter_inside e st' of
                None \<Rightarrow> None
              | Some (fin', st'') \<Rightarrow> (if fin' then Some st'' else filter_ranges ns st''))))"

definition filter_set :: "change_set \<Rightarrow> int list \<Rightarrow> (change_set \<times> change_desc) option" where
  "filter_set cs ranges =
     map_option (\<lambda>st. (mk_set (fl_result st) (fl_inserted st), mk_desc (fl_filtered st)))
       (filter_ranges ranges
          \<lparr>fl_result = [], fl_inserted = [], fl_filtered = [],
           fl_iter = new_iter (sections cs) (inserted cs), fl_pos = 0\<rparr>)"

subsection \<open>JSON\<close>

text \<open>An element of the JSON form: a number, an array of a number and strings, or anything else.\<close>

datatype change_part = Keep_part int | Change_part int "ustring list" | Other_part

fun set_toJSON_loop :: "(int \<times> int) list \<Rightarrow> text_tree list \<Rightarrow> nat \<Rightarrow> change_part list option" where
  "set_toJSON_loop [] ts i = Some []"
| "set_toJSON_loop ((l, ins) # secs) ts i =
     (case (if ins < 0 then Some (Keep_part l)
            else if ins = 0 then Some (Change_part l [])
            else if i < length ts then Some (Change_part l (text_toJSON (ts ! i)))
            else None) of
        None \<Rightarrow> None
      | Some p \<Rightarrow> map_option (Cons p) (set_toJSON_loop secs ts (Suc i)))"

definition set_toJSON :: "change_set \<Rightarrow> change_part list option" where
  "set_toJSON cs = set_toJSON_loop (sections cs) (inserted cs) 0"

fun set_fromJSON_loop ::
    "change_part list \<Rightarrow> nat \<Rightarrow> (int \<times> int) list \<Rightarrow> text_tree list \<Rightarrow> change_set outcome" where
  "set_fromJSON_loop [] i secs ts = Some (Inr (mk_set secs ts))"
| "set_fromJSON_loop (Keep_part l # ps) i secs ts = set_fromJSON_loop ps (Suc i) (secs @ [(l, -1)]) ts"
| "set_fromJSON_loop (Other_part # ps) i secs ts = Some (Inl Invalid_json)"
| "set_fromJSON_loop (Change_part l ls # ps) i secs ts =
     (if ls = [] then set_fromJSON_loop ps (Suc i) (secs @ [(l, 0)]) ts
      else
        (case text_of ls of
           Inr (Some t) \<Rightarrow>
             set_fromJSON_loop ps (Suc i) (secs @ [(l, tlength t)])
               (ts @ replicate (i - length ts) empty_text @ [t])
         | _ \<Rightarrow> None))"

text \<open>\<open>None\<close> for the argument is a value that is no array.\<close>

definition set_fromJSON :: "change_part list option \<Rightarrow> change_set outcome" where
  "set_fromJSON json =
     (case json of None \<Rightarrow> Some (Inl Invalid_json) | Some ps \<Rightarrow> set_fromJSON_loop ps 0 [] [])"

subsection \<open>\<open>ChangeSet.of\<close>\<close>

text \<open>\<open>insert.split(/\r\n?|\n/)\<close>; \<open>cur\<close> is the line being collected.\<close>

fun split_default :: "ustring \<Rightarrow> ustring \<Rightarrow> ustring list" where
  "split_default [] cur = [cur]"
| "split_default (c # cs) cur =
     (if c = 13 then
        (case cs of
           [] \<Rightarrow> cur # split_default [] []
         | d # ds \<Rightarrow> (if d = NL then cur # split_default ds [] else cur # split_default cs []))
      else if c = NL then cur # split_default cs []
      else split_default cs (cur @ [c]))"

text \<open>\<open>insert.split(sep)\<close> for a non-empty separator; \<open>skip\<close> counts the rest of a separator just found.\<close>

fun split_string :: "ustring \<Rightarrow> nat \<Rightarrow> ustring \<Rightarrow> ustring \<Rightarrow> ustring list" where
  "split_string sep skip [] cur = [cur]"
| "split_string sep (Suc skip) (c # cs) cur = split_string sep skip cs cur"
| "split_string sep 0 (c # cs) cur =
     (if take (length sep) (c # cs) = sep then cur # split_string sep (length sep - 1) cs []
      else split_string sep 0 cs (cur @ [c]))"

definition split_lines :: "ustring option \<Rightarrow> ustring \<Rightarrow> ustring list" where
  "split_lines lineSep s =
     (case lineSep of
        None \<Rightarrow> split_default s []
      | Some sep \<Rightarrow> (if sep = [] then split_default s [] else split_string sep 0 s []))"

datatype insertion = No_insert | Insert_string ustring | Insert_text text_tree

datatype change_spec =
    Spec_list "change_spec list"
  | Spec_set change_set
  | Spec_range int "int option" insertion

record of_state =
  of_sections :: "(int \<times> int) list"
  of_inserted :: "text_tree list"
  of_pos :: int
  of_total :: "change_set option"

text \<open>\<open>total = total ? total.compose(set.map(total)) : set\<close>.\<close>

definition of_add_total :: "change_set option \<Rightarrow> change_set \<Rightarrow> change_set outcome" where
  "of_add_total tot cs =
     (case tot of
        None \<Rightarrow> Some (Inr cs)
      | Some t \<Rightarrow> bind_outcome (map_set cs t False) (compose t))"

definition of_flush :: "int \<Rightarrow> bool \<Rightarrow> of_state \<Rightarrow> of_state outcome" where
  "of_flush l force st =
     (if \<not> force \<and> of_sections st = [] then Some (Inr st)
      else
        (let secs = (if of_pos st < l then addSection (of_sections st) (l - of_pos st) (-1) False
                     else of_sections st)
         in bind_outcome (of_add_total (of_total st) (mk_set secs (of_inserted st)))
              (\<lambda>t. Some (Inr \<lparr>of_sections = [], of_inserted = [], of_pos = 0, of_total = Some t\<rparr>))))"

definition insert_text :: "ustring option \<Rightarrow> insertion \<Rightarrow> text_tree option" where
  "insert_text lineSep ins =
     (case ins of
        No_insert \<Rightarrow> Some empty_text
      | Insert_string s \<Rightarrow>
          (if s = [] then Some empty_text
           else (case text_of (split_lines lineSep s) of Inr r \<Rightarrow> r | Inl _ \<Rightarrow> None))
      | Insert_text t \<Rightarrow> Some t)"

definition of_range ::
    "int \<Rightarrow> ustring option \<Rightarrow> int \<Rightarrow> int option \<Rightarrow> insertion \<Rightarrow> of_state \<Rightarrow> of_state outcome" where
  "of_range l lineSep fr to0 ins st =
     (let to = (case to0 of None \<Rightarrow> fr | Some t \<Rightarrow> t)
      in if fr > to \<or> fr < 0 \<or> to > l then Some (Inl (Invalid_range fr to l))
         else
           (case insert_text lineSep ins of
              None \<Rightarrow> None
            | Some insText \<Rightarrow>
                (if fr = to \<and> tlength insText = 0 then Some (Inr st)
                 else
                   bind_outcome (if fr < of_pos st then of_flush l False st else Some (Inr st))
                     (\<lambda>st. let secs = (if fr > of_pos st then addSection (of_sections st) (fr - of_pos st) (-1) False
                                      else of_sections st);
                               secs' = addSection secs (to - fr) (tlength insText) False
                           in case addInsert (of_inserted st) secs' insText of
                                None \<Rightarrow> None
                              | Some ts \<Rightarrow>
                                  Some (Inr (st\<lparr>of_sections := secs', of_inserted := ts, of_pos := to\<rparr>))))))"

fun of_process :: "int \<Rightarrow> ustring option \<Rightarrow> change_spec \<Rightarrow> of_state \<Rightarrow> of_state outcome"
  and of_process_all :: "int \<Rightarrow> ustring option \<Rightarrow> change_spec list \<Rightarrow> of_state \<Rightarrow> of_state outcome"
where
  "of_process l lineSep (Spec_list specs) st = of_process_all l lineSep specs st"
| "of_process l lineSep (Spec_set cs) st =
     (if desc_length cs \<noteq> l then Some (Inl (Mismatched_set (desc_length cs) l))
      else bind_outcome (of_flush l False st)
             (\<lambda>st. bind_outcome (of_add_total (of_total st) cs)
                      (\<lambda>t. Some (Inr (st\<lparr>of_total := Some t\<rparr>)))))"
| "of_process l lineSep (Spec_range fr to ins) st = of_range l lineSep fr to ins st"
| "of_process_all l lineSep [] st = Some (Inr st)"
| "of_process_all l lineSep (s # specs) st =
     bind_outcome (of_process l lineSep s st) (of_process_all l lineSep specs)"

definition set_of :: "change_spec \<Rightarrow> int \<Rightarrow> ustring option \<Rightarrow> change_set outcome" where
  "set_of spec l lineSep =
     bind_outcome
       (of_process l lineSep spec \<lparr>of_sections = [], of_inserted = [], of_pos = 0, of_total = None\<rparr>)
       (\<lambda>st. bind_outcome (of_flush l (of_total st = None) st)
                (\<lambda>st. case of_total st of Some t \<Rightarrow> Some (Inr t) | None \<Rightarrow> None))"

end
