(* ===== verification/Editor_Change_Spec.thy ===== *)
theory Editor_Change_Spec
  imports Editor_Change_Sets
begin

text \<open>
  What change sets mean: a function on texts. \<open>asec\<close> is a section with its text, \<open>run\<close> applies sections to a
  text, and the operations of \<open>ChangeSet\<close> are shown to be the corresponding operations on that function.
\<close>

datatype asec = Keep int | Repl int ustring

fun run :: "asec list \<Rightarrow> ustring \<Rightarrow> ustring" where
  "run [] d = []"
| "run (Keep l # ss) d = take (nat l) d @ run ss (drop (nat l) d)"
| "run (Repl l s # ss) d = s @ run ss (drop (nat l) d)"

fun in_len :: "asec list \<Rightarrow> int" where
  "in_len [] = 0"
| "in_len (Keep l # ss) = l + in_len ss"
| "in_len (Repl l s # ss) = l + in_len ss"

fun out_len :: "asec list \<Rightarrow> int" where
  "out_len [] = 0"
| "out_len (Keep l # ss) = l + out_len ss"
| "out_len (Repl l s # ss) = len s + out_len ss"

fun asec_ok :: "asec \<Rightarrow> bool" where
  "asec_ok (Keep l) \<longleftrightarrow> 0 \<le> l"
| "asec_ok (Repl l s) \<longleftrightarrow> 0 \<le> l"

lemma in_len_append: "in_len (xs @ ys) = in_len xs + in_len ys"
  by (induction xs rule: in_len.induct) simp_all

lemma out_len_append: "out_len (xs @ ys) = out_len xs + out_len ys"
  by (induction xs rule: in_len.induct) simp_all

lemma in_len_ge: "list_all asec_ok ss \<Longrightarrow> 0 \<le> in_len ss"
  by (induction ss rule: in_len.induct) simp_all

lemma out_len_ge: "list_all asec_ok ss \<Longrightarrow> 0 \<le> out_len ss"
  by (induction ss rule: in_len.induct) simp_all

lemma run_append:
  "list_all asec_ok xs \<Longrightarrow> run (xs @ ys) d = run xs d @ run ys (drop (nat (in_len xs)) d)"
proof (induction xs arbitrary: d rule: in_len.induct)
  case (2 l ss)
  then show ?case using in_len_ge [of ss] by (simp add: nat_add_distrib add.commute)
next
  case (3 l s ss)
  then show ?case using in_len_ge [of ss] by (simp add: nat_add_distrib add.commute)
qed simp

lemma len_run: "list_all asec_ok ss \<Longrightarrow> len d = in_len ss \<Longrightarrow> len (run ss d) = out_len ss"
proof (induction ss arbitrary: d rule: in_len.induct)
  case (2 l ss)
  then show ?case using in_len_ge [of ss] by simp
next
  case (3 l s ss)
  then show ?case using in_len_ge [of ss] by simp
qed simp

subsection \<open>The sections of a set\<close>

definition text_at :: "text_tree list \<Rightarrow> nat \<Rightarrow> ustring" where
  "text_at ts i = (if i < length ts then doc (ts ! i) else [])"

fun abs_secs :: "text_tree list \<Rightarrow> nat \<Rightarrow> (int \<times> int) list \<Rightarrow> asec list" where
  "abs_secs ts i [] = []"
| "abs_secs ts i ((l, n) # secs) = (if n < 0 then Keep l else Repl l (text_at ts i)) # abs_secs ts (Suc i) secs"

text \<open>
  Well-formed sections: an unaffected section is not empty, and every inserted text is a document of the
  length that its section gives.
\<close>

definition sec_ok :: "text_tree list \<Rightarrow> nat \<Rightarrow> int \<times> int \<Rightarrow> bool" where
  "sec_ok ts i sec \<longleftrightarrow>
     0 \<le> fst sec \<and> -1 \<le> snd sec \<and> (snd sec < 0 \<longrightarrow> 0 < fst sec) \<and>
     (if i < length ts then wf_text (ts ! i) \<and> tlength (ts ! i) = max 0 (snd sec) else snd sec \<le> 0)"

fun wf_secs :: "text_tree list \<Rightarrow> nat \<Rightarrow> (int \<times> int) list \<Rightarrow> bool" where
  "wf_secs ts i [] \<longleftrightarrow> True"
| "wf_secs ts i (sec # secs) \<longleftrightarrow> sec_ok ts i sec \<and> wf_secs ts (Suc i) secs"

definition wf_set :: "change_set \<Rightarrow> bool" where
  "wf_set cs \<longleftrightarrow> wf_secs (inserted cs) 0 (sections cs) \<and> length (inserted cs) \<le> length (sections cs)"

text \<open>The function on texts that a set stands for.\<close>

definition set_run :: "change_set \<Rightarrow> ustring \<Rightarrow> ustring" where
  "set_run cs d = run (abs_secs (inserted cs) 0 (sections cs)) d"

lemma text_at_len: "sec_ok ts i (l, n) \<Longrightarrow> len (text_at ts i) = max 0 n"
  by (auto simp: sec_ok_def text_at_def wf_tlength_doc [symmetric])

lemma abs_append: "abs_secs ts i (xs @ ys) = abs_secs ts i xs @ abs_secs ts (i + length xs) ys"
  by (induction xs arbitrary: i rule: sections_length.induct) simp_all

lemma wf_append: "wf_secs ts i (xs @ ys) \<longleftrightarrow> wf_secs ts i xs \<and> wf_secs ts (i + length xs) ys"
  by (induction xs arbitrary: i) simp_all

lemma wf_nth: "wf_secs ts i secs \<Longrightarrow> k < length secs \<Longrightarrow> sec_ok ts (i + k) (secs ! k)"
proof (induction secs arbitrary: i k)
  case (Cons sec secs)
  then show ?case using Cons.IH [of "Suc i" "k - 1"] by (cases k) auto
qed simp

lemma wf_drop: "wf_secs ts i secs \<Longrightarrow> wf_secs ts (i + k) (drop k secs)"
proof (induction secs arbitrary: i k)
  case (Cons sec secs)
  then show ?case using Cons.IH [of "Suc i" "k - 1"] by (cases k) auto
qed simp

lemma abs_ok: "wf_secs ts i secs \<Longrightarrow> list_all asec_ok (abs_secs ts i secs)"
  by (induction secs arbitrary: i rule: sections_length.induct) (auto simp: sec_ok_def)

lemma in_len_abs: "in_len (abs_secs ts i secs) = sections_length secs"
  by (induction secs arbitrary: i rule: sections_length.induct) simp_all

lemma out_len_abs: "wf_secs ts i secs \<Longrightarrow> out_len (abs_secs ts i secs) = sections_newLength secs"
  by (induction secs arbitrary: i rule: sections_length.induct) (auto simp: text_at_len)

lemma sections_length_append: "sections_length (xs @ ys) = sections_length xs + sections_length ys"
  by (induction xs rule: sections_length.induct) simp_all

lemma sections_newLength_append:
  "sections_newLength (xs @ ys) = sections_newLength xs + sections_newLength ys"
  by (induction xs rule: sections_length.induct) simp_all

lemma sections_length_ge: "wf_secs ts i secs \<Longrightarrow> 0 \<le> sections_length secs"
  by (induction secs arbitrary: i rule: sections_length.induct) (auto simp: sec_ok_def)

lemma sections_newLength_ge: "wf_secs ts i secs \<Longrightarrow> 0 \<le> sections_newLength secs"
  by (induction secs arbitrary: i rule: sections_length.induct) (auto simp: sec_ok_def)

lemma len_set_run:
  "wf_set cs \<Longrightarrow> len d = desc_length cs \<Longrightarrow> len (set_run cs d) = newLength cs"
  using len_run [OF abs_ok] by (simp add: wf_set_def set_run_def desc_length_def newLength_def in_len_abs out_len_abs)

subsection \<open>Applying a set\<close>

lemma append_text_spells:
  "wf_text t \<Longrightarrow> wf_text u \<Longrightarrow> tlength t \<le> MAX_TO \<Longrightarrow> tlength u \<le> MAX_TO \<Longrightarrow>
     spells (append_text t u) (doc t @ doc u)"
  using tree.append_end by (simp add: append_text_def spells_def)

lemma wf_empty_text [simp]: "wf_text empty_text" "doc empty_text = []" "tlength empty_text = 0"
  by (simp_all add: empty_text_def doc_def)

text \<open>
  The ranges that \<open>iterChanges\<close> reports, replaced one after the other, do to a document what the sections
  do to its text. \<open>X\<close> is the finished part, \<open>Y\<close> the rest of the old text, \<open>t\<close> the collected insertion.
\<close>

lemma iterChanges_loop_apply:
  assumes "wf_secs ts i secs" and "wf_text d" "doc d = X @ Y" "len X = posB"
    and "wf_text t" "tlength t = endB - posB" "0 \<le> endA - posA"
    and "len Y = endA - posA + sections_length secs"
    and "endA = posA \<and> t = empty_text \<or> secs \<noteq> [] \<and> 0 \<le> snd (hd secs)"
    and "endB + sections_newLength secs + len Y \<le> MAX_TO"
  shows "\<exists>rs t'. iterChanges_loop (Some ts) individual secs i posA posB endA endB t = Some rs \<and>
    apply_ranges rs d = Some t' \<and> wf_text t' \<and>
    doc t' = X @ doc t @ run (abs_secs ts i secs) (drop (nat (endA - posA)) Y)"
  using assms
proof (induction secs arbitrary: i d X Y posA posB t endA endB)
  case Nil
  then show ?case by auto
next
  case (Cons sec secs)
  obtain l n where sec: "sec = (l, n)" by (cases sec)
  have ok: "sec_ok ts i (l, n)" "wf_secs ts (Suc i) secs" "0 \<le> l"
    using Cons.prems(1) by (auto simp: sec sec_ok_def)
  note rest_ge = sections_length_ge [OF ok(2)] sections_newLength_ge [OF ok(2)]
  show ?case
  proof (cases "n < 0")
    case True
    then have e: "endA = posA" "t = empty_text" "endB = posB" using Cons.prems(6,9) by (auto simp: sec)
    have "\<exists>rs t'. iterChanges_loop (Some ts) individual secs (Suc i) (posA + l) (posB + l)
        (posA + l) (posB + l) empty_text = Some rs \<and> apply_ranges rs d = Some t' \<and> wf_text t' \<and>
        doc t' = (X @ take (nat l) Y) @ doc empty_text
          @ run (abs_secs ts (Suc i) secs) (drop (nat (posA + l - (posA + l))) (drop (nat l) Y))"
      using Cons.prems ok rest_ge True e
      by (intro Cons.IH) (auto simp: sec)
    then show ?thesis using True e by (simp add: sec)
  next
    case False
    define s where "s = text_at ts i"
    have s: "len s = n" using False text_at_len [OF ok(1)] by (simp add: s_def)
    have tY: "len (doc t) = endB - posB" using Cons.prems(5,6) wf_tlength_doc by simp
    have bound: "endB + n + sections_newLength secs + len Y \<le> MAX_TO"
      using Cons.prems(10) False by (simp add: sec)
    have ge: "0 \<le> endB - posB" "0 \<le> posB" using tY Cons.prems(4) by simp_all
    obtain t' where t': "(if n = 0 then Some t else if i < length ts then append_text t (ts ! i) else None) = Some t'"
      "wf_text t'" "doc t' = doc t @ s"
    proof (cases "n = 0")
      case True
      then show ?thesis using that Cons.prems(5) s by simp
    next
      case nz: False
      then have i: "i < length ts" "wf_text (ts ! i)" "tlength (ts ! i) = n" "s = doc (ts ! i)"
        using ok(1) False by (auto simp: sec_ok_def s_def text_at_def split: if_splits)
      have "spells (append_text t (ts ! i)) (doc t @ doc (ts ! i))"
        using Cons.prems(5,6) i bound rest_ge ge False by (intro append_text_spells) auto
      then show ?thesis using that nz i by (auto simp: spells_def)
    qed
    have t'_len: "tlength t' = endB + n - posB" using t' tY s wf_tlength_doc [of t'] by simp
    show ?thesis
    proof (cases "individual \<or> secs = [] \<or> snd (secs ! 0) < 0")
      case stop: True
      have Y: "endA + l - posA \<le> len Y" using Cons.prems(8) rest_ge by (simp add: sec)
      have d_len: "tlength d = posB + len Y" using Cons.prems(2-4) by (simp add: wf_tlength_doc)
      obtain d' where d': "replace d posB (posB + (endA + l - posA)) t' = Some d'" "wf_text d'"
        "doc d' = X @ doc t' @ drop (nat (endA + l - posA)) Y"
        using tree.replace_middle [OF Cons.prems(2) t'(2) Cons.prems(3,4), of "endA + l - posA"]
          Y Cons.prems(7) ok(3) d_len t'_len bound rest_ge ge False
        by auto
      have "\<exists>rs t''. iterChanges_loop (Some ts) individual secs (Suc i) (endA + l) (endB + n)
          (endA + l) (endB + n) empty_text = Some rs \<and> apply_ranges rs d' = Some t'' \<and> wf_text t'' \<and>
          doc t'' = (X @ doc t') @ doc empty_text
            @ run (abs_secs ts (Suc i) secs)
                (drop (nat (endA + l - (endA + l))) (drop (nat (endA + l - posA)) Y))"
        using Cons.prems(4,7,8) Y ok d' t'(3) tY s bound rest_ge
        by (intro Cons.IH) (auto simp: sec)
      then obtain rs t'' where rs: "iterChanges_loop (Some ts) individual secs (Suc i) (endA + l) (endB + n)
          (endA + l) (endB + n) empty_text = Some rs" "apply_ranges rs d' = Some t''" "wf_text t''"
        "doc t'' = X @ doc t' @ run (abs_secs ts (Suc i) secs) (drop (nat (endA + l - posA)) Y)"
        by auto
      have "nat (endA + l - posA) = nat l + nat (endA - posA)" using Cons.prems(7) ok(3) by simp
      then show ?thesis
        using False stop t' rs d'(1)
        by (simp add: sec Let_def s_def [symmetric])
    next
      case go: False
      have "\<exists>rs t''. iterChanges_loop (Some ts) individual secs (Suc i) posA posB (endA + l) (endB + n) t' = Some rs \<and>
          apply_ranges rs d = Some t'' \<and> wf_text t'' \<and>
          doc t'' = X @ doc t' @ run (abs_secs ts (Suc i) secs) (drop (nat (endA + l - posA)) Y)"
        using Cons.prems(2-4,7,8) ok t' t'_len bound go
        by (intro Cons.IH) (auto simp: sec hd_conv_nth)
      moreover have "nat (endA + l - posA) = nat l + nat (endA - posA)" using Cons.prems(7) ok(3) by simp
      ultimately show ?thesis
        using False go t' by (simp add: sec Let_def s_def [symmetric])
    qed
  qed
qed

lemma apply_set_ok:
  assumes "wf_set cs" "wf_text d" "tlength d = desc_length cs" "desc_length cs + newLength cs \<le> MAX_TO"
  shows "\<exists>t. apply_set cs d = Some (Inr t) \<and> wf_text t \<and> doc t = set_run cs (doc d)"
proof -
  have "\<exists>rs t'. iterChanges_loop (Some (inserted cs)) False (sections cs) 0 0 0 0 0 empty_text = Some rs \<and>
      apply_ranges rs d = Some t' \<and> wf_text t' \<and>
      doc t' = [] @ doc empty_text @ run (abs_secs (inserted cs) 0 (sections cs)) (drop (nat (0 - 0)) (doc d))"
    using assms wf_tlength_doc [OF assms(2)]
    by (intro iterChanges_loop_apply) (auto simp: wf_set_def desc_length_def newLength_def)
  then show ?thesis using assms(3) by (auto simp: apply_set_def iterChanges_def set_run_def)
qed

subsection \<open>Inverting\<close>

text \<open>The inverse of sections, for the text that they are applied to.\<close>

fun inverse :: "asec list \<Rightarrow> ustring \<Rightarrow> asec list" where
  "inverse [] d = []"
| "inverse (Keep l # ss) d = Keep l # inverse ss (drop (nat l) d)"
| "inverse (Repl l s # ss) d = Repl (len s) (take (nat l) d) # inverse ss (drop (nat l) d)"

lemma run_inverse:
  "list_all asec_ok ss \<Longrightarrow> len d = in_len ss \<Longrightarrow> run (inverse ss d) (run ss d) = d"
proof (induction ss d rule: inverse.induct)
  case (1 d)
  then show ?case by simp
next
  case (2 l ss d)
  have take_d: "nat l \<le> length d" using 2(2,3) in_len_ge [of ss] by simp
  then have "take (nat l) (take (nat l) d @ e) = take (nat l) d" "drop (nat l) (take (nat l) d @ e) = e" for e
    by simp_all
  then show ?case using 2 take_d in_len_ge [of ss] by simp
next
  case (3 l s ss d)
  then show ?case using in_len_ge [of ss] by simp
qed

text \<open>The texts that \<open>invert\<close> collects sit at the indices of their sections.\<close>

definition padded :: "text_tree list \<Rightarrow> nat \<Rightarrow> text_tree list \<Rightarrow> bool" where
  "padded ts i ts' \<longleftrightarrow> length ts \<le> length ts' \<and>
     (\<forall>j < length ts'. (j < length ts \<longrightarrow> ts' ! j = ts ! j) \<and> (length ts \<le> j \<and> j < i \<longrightarrow> ts' ! j = empty_text))"

lemma padded_step:
  assumes "padded (ts @ replicate (i - length ts) empty_text @ [t]) (Suc i) ts'" "length ts \<le> i"
  shows "padded ts i ts'" "i < length ts'" "ts' ! i = t"
proof -
  let ?us = "ts @ replicate (i - length ts) empty_text @ [t]"
  have us: "length ?us = Suc i" "?us ! i = t" "\<And>j. j < length ts \<Longrightarrow> ?us ! j = ts ! j"
    "\<And>j. length ts \<le> j \<Longrightarrow> j < i \<Longrightarrow> ?us ! j = empty_text"
    using assms(2) by (auto simp: nth_append)
  show "i < length ts'" "ts' ! i = t" using assms(1) us(1,2) by (auto simp: padded_def)
  show "padded ts i ts'"
    using assms(1) us(1,3,4) by (auto simp: padded_def) 
qed

lemma invert_loop_ok:
  assumes "wf_secs us i secs" "length ts \<le> i" "wf_text d" "doc d = X @ Y" "len X = pos"
    "len Y = sections_length secs"
  shows "\<exists>ts'. invert_loop secs d i pos ts = Some ts' \<and> wf_secs ts' i (map invert_section secs) \<and>
    abs_secs ts' i (map invert_section secs) = inverse (abs_secs us i secs) Y \<and>
    padded ts i ts' \<and> length ts' \<le> i + length secs"
  using assms
proof (induction secs arbitrary: i ts X Y pos)
  case Nil
  then show ?case by (auto simp: padded_def)
next
  case (Cons sec secs)
  obtain l n where sec: "sec = (l, n)" by (cases sec)
  have ok: "sec_ok us i (l, n)" "wf_secs us (Suc i) secs" "0 \<le> l" "l \<le> len Y"
    using Cons.prems(1,6) sections_length_ge [of us "Suc i" secs] by (auto simp: sec sec_ok_def)
  have XY: "doc d = (X @ take (nat l) Y) @ drop (nat l) Y" "len (X @ take (nat l) Y) = pos + l"
    "len (drop (nat l) Y) = sections_length secs"
    using Cons.prems(4-6) ok by (simp_all add: sec)
  show ?case
  proof (cases "n < 0")
    case True
    obtain ts' where ts': "invert_loop secs d (Suc i) (pos + l) ts = Some ts'"
      "wf_secs ts' (Suc i) (map invert_section secs)"
      "abs_secs ts' (Suc i) (map invert_section secs) = inverse (abs_secs us (Suc i) secs) (drop (nat l) Y)"
      "padded ts (Suc i) ts'" "length ts' \<le> Suc i + length secs"
      using Cons.IH [OF ok(2) _ Cons.prems(3) XY, of ts] Cons.prems(2) by auto
    have "sec_ok ts' i (l, n)"
      using True ok(1,3) ts'(4) Cons.prems(2) by (auto simp: sec_ok_def padded_def)
    moreover have "padded ts i ts'" using ts'(4) by (auto simp: padded_def)
    ultimately show ?thesis using True ts' by (simp add: sec)
  next
    case False
    obtain t where t: "(if l \<noteq> 0 then slice d pos (pos + l) else Some empty_text) = Some t" "wf_text t"
      "doc t = take (nat l) Y"
      using tree.slice_middle [OF Cons.prems(3-5) ok(3,4)] ok(3) by (cases "l = 0") auto
    let ?ts = "ts @ replicate (i - length ts) empty_text @ [t]"
    obtain ts' where ts': "invert_loop secs d (Suc i) (pos + l) ?ts = Some ts'"
      "wf_secs ts' (Suc i) (map invert_section secs)"
      "abs_secs ts' (Suc i) (map invert_section secs) = inverse (abs_secs us (Suc i) secs) (drop (nat l) Y)"
      "padded ?ts (Suc i) ts'" "length ts' \<le> Suc i + length secs"
      using Cons.IH [OF ok(2) _ Cons.prems(3) XY, of ?ts] Cons.prems(2) by auto
    note at = padded_step [OF ts'(4) Cons.prems(2)]
    have "tlength t = l" using t ok(3,4) by (simp add: wf_tlength_doc)
    then have "sec_ok ts' i (n, l)" using False ok(3) at t(2) by (simp add: sec_ok_def)
    moreover have "text_at ts' i = take (nat l) Y" "len (text_at us i) = n"
      using at t(3) text_at_len [OF ok(1)] False by (simp_all add: text_at_def)
    ultimately show ?thesis using False ok(3) ts' at(1) t(1) by (simp add: sec)
  qed
qed

lemma invert_ok:
  assumes "wf_set cs" "wf_text d" "tlength d = desc_length cs"
  shows "\<exists>inv. invert cs d = Some inv \<and> wf_set inv \<and> desc_length inv = newLength cs \<and>
    newLength inv = desc_length cs \<and> set_run inv (set_run cs (doc d)) = doc d"
proof -
  have wf: "wf_secs (inserted cs) 0 (sections cs)" using assms(1) by (simp add: wf_set_def)
  obtain ts' where ts': "invert_loop (sections cs) d 0 0 [] = Some ts'"
    "wf_secs ts' 0 (map invert_section (sections cs))"
    "abs_secs ts' 0 (map invert_section (sections cs)) = inverse (abs_secs (inserted cs) 0 (sections cs)) (doc d)"
    "length ts' \<le> length (sections cs)"
    using invert_loop_ok [OF wf, of "[]" d "[]" "doc d" 0] assms
    by (auto simp: desc_length_def wf_tlength_doc)
  have lens: "wf_secs us i secs \<Longrightarrow> sections_length (map invert_section secs) = sections_newLength secs"
    "wf_secs us i secs \<Longrightarrow> sections_newLength (map invert_section secs) = sections_length secs" for us i secs
    by (induction secs arbitrary: i rule: sections_length.induct) (auto simp: sec_ok_def)
  show ?thesis
    using ts' run_inverse [OF abs_ok [OF wf], of "doc d"] assms lens [OF wf]
    by (simp add: invert_def wf_set_def mk_set_def set_run_def desc_length_def newLength_def
        in_len_abs wf_tlength_doc)
qed

end
