(* ===== verification/Editor_Compose.thy ===== *)
theory Editor_Compose
  imports Editor_Change_Spec
begin

text \<open>
  \<open>composeSets\<close> is the composition of the functions that two sets stand for: it ends, raises no error on sets
  that fit together, and its result does to a text what the two sets do one after the other.
\<close>

subsection \<open>Writing sections\<close>

text \<open>
  The output under construction: well-formed, without empty sections, and no more texts than sections.
\<close>

definition out_ok :: "(int \<times> int) list \<Rightarrow> text_tree list \<Rightarrow> bool" where
  "out_ok secs ts \<longleftrightarrow> wf_secs ts 0 secs \<and> length ts \<le> length secs \<and>
     (\<forall>sec \<in> set secs. \<not> (fst sec = 0 \<and> snd sec \<le> 0))"

definition out_run :: "(int \<times> int) list \<Rightarrow> text_tree list \<Rightarrow> ustring \<Rightarrow> ustring" where
  "out_run secs ts d = run (abs_secs ts 0 secs) d"

text \<open>What one more section adds to the result.\<close>

definition piece :: "int \<Rightarrow> int \<Rightarrow> ustring \<Rightarrow> ustring \<Rightarrow> ustring" where
  "piece l n s d = (if n < 0 then take (nat l) d else s)"

lemma abs_secs_cong:
  "(\<And>j. i \<le> j \<Longrightarrow> j < i + length secs \<Longrightarrow> text_at ts j = text_at ts' j) \<Longrightarrow>
     abs_secs ts i secs = abs_secs ts' i secs"
  by (induction secs arbitrary: i rule: sections_length.induct) auto

lemma wf_secs_cong:
  "(\<And>j sec. i \<le> j \<Longrightarrow> j < i + length secs \<Longrightarrow> sec_ok ts j sec \<longrightarrow> sec_ok ts' j sec) \<Longrightarrow>
     wf_secs ts i secs \<Longrightarrow> wf_secs ts' i secs"
  by (induction secs arbitrary: i) auto

text \<open>Padding with empty documents changes nothing.\<close>

lemma padded_same:
  assumes "length ts \<le> length secs" "length secs \<le> n" "wf_secs ts 0 secs"
    and ts': "ts' = ts @ replicate (n - length ts) empty_text @ us"
  shows "wf_secs ts' 0 secs" "abs_secs ts' 0 secs = abs_secs ts 0 secs"
proof -
  have at: "text_at ts' j = text_at ts j" "sec_ok ts j sec \<longrightarrow> sec_ok ts' j sec" if "j < length secs" for j sec
    using that assms(1,2) by (auto simp: text_at_def sec_ok_def ts' nth_append)
  show "wf_secs ts' 0 secs" using at(2) assms(3) by (intro wf_secs_cong [of 0 secs ts ts']) auto
  show "abs_secs ts' 0 secs = abs_secs ts 0 secs" using at(1) by (intro abs_secs_cong) auto
qed

text \<open>A new section with its text.\<close>

lemma push_ok:
  assumes ok: "out_ok secs ts" and sec: "0 \<le> l" "-1 \<le> n" "\<not> (l = 0 \<and> n \<le> 0)"
    and v: "0 < n \<Longrightarrow> wf_text v \<and> tlength v = n" "n \<le> 0 \<Longrightarrow> tlength v = 0"
  shows "\<exists>ts'. addInsert ts (secs @ [(l, n)]) v = Some ts' \<and> out_ok (secs @ [(l, n)]) ts' \<and>
    (\<forall>d. out_run (secs @ [(l, n)]) ts' d = out_run secs ts d @
       piece l n (if 0 < n then doc v else []) (drop (nat (sections_length secs)) d))"
proof -
  have wf: "wf_secs ts 0 secs" "length ts \<le> length secs" using ok by (simp_all add: out_ok_def)
  have run: "out_run (secs @ [(l, n)]) us d = out_run secs us d
      @ run (abs_secs us (length secs) [(l, n)]) (drop (nat (sections_length secs)) d)"
    if "wf_secs us 0 secs" for us d
    using run_append [OF abs_ok [OF that]] by (simp add: out_run_def abs_append in_len_abs)
  show ?thesis
  proof (cases "0 < n")
    case False
    then have "addInsert ts (secs @ [(l, n)]) v = Some ts" using v(2) by (simp add: addInsert_def)
    moreover have "out_ok (secs @ [(l, n)]) ts"
      using ok sec False wf(2) by (auto simp: out_ok_def wf_append sec_ok_def)
    moreover have "text_at ts (length secs) = []" using wf(2) by (simp add: text_at_def)
    ultimately show ?thesis using False run [OF wf(1)] by (auto simp: piece_def)
  next
    case True
    let ?ts = "ts @ replicate (length secs - length ts) empty_text @ [v]"
    note pad = padded_same [OF wf(2) order_refl wf(1) refl, of "[v]"]
    have at: "?ts ! length secs = v" "length ?ts = Suc (length secs)" using wf(2) by (auto simp: nth_append)
    have "addInsert ts (secs @ [(l, n)]) v = Some ?ts"
      using wf(2) v(1) [OF True] True by (simp add: addInsert_def nat_diff_distrib)
    moreover have "out_ok (secs @ [(l, n)]) ?ts"
      using ok pad(1) at sec v(1) [OF True] True by (simp add: out_ok_def wf_append sec_ok_def)
    moreover have "text_at ?ts (length secs) = doc v" using at by (simp add: text_at_def)
    ultimately show ?thesis using True run [OF pad(1)] pad(2) by (auto simp: piece_def out_run_def)
  qed
qed

text \<open>The last section grows.\<close>

lemma grow_last_ok:
  assumes ok: "out_ok (secs @ [(L, N)]) ts" and sec: "0 \<le> l" "0 \<le> N" "0 \<le> n"
    and v: "0 < n \<Longrightarrow> wf_text v \<and> tlength v = n" "n \<le> 0 \<Longrightarrow> tlength v = 0"
    and small: "N \<le> MAX_TO" "n \<le> MAX_TO"
  shows "\<exists>ts'. addInsert ts (secs @ [(L + l, N + n)]) v = Some ts' \<and> out_ok (secs @ [(L + l, N + n)]) ts' \<and>
    (\<forall>d. out_run (secs @ [(L + l, N + n)]) ts' d = out_run (secs @ [(L, N)]) ts d @
       (if 0 < n then doc v else []))"
proof -
  let ?k = "length secs"
  have wf: "wf_secs ts 0 secs" "sec_ok ts ?k (L, N)" "length ts \<le> Suc ?k"
    "\<forall>sec \<in> set secs. \<not> (fst sec = 0 \<and> snd sec \<le> 0)" "\<not> (L = 0 \<and> N \<le> 0)" "0 \<le> L"
    using ok by (auto simp: out_ok_def wf_append sec_ok_def)
  have run: "out_run (secs @ [(L', N')]) us d = out_run secs us d @ text_at us ?k"
    if "wf_secs us 0 secs" "0 \<le> N'" for us d L' N'
    using run_append [OF abs_ok [OF that(1)]] that(2) by (simp add: out_run_def abs_append)
  consider "n = 0" | "0 < n" "length ts \<le> ?k" | "0 < n" "length ts = Suc ?k" using sec(3) wf(3) by linarith
  then show ?thesis
  proof cases
    case 1
    then have "addInsert ts (secs @ [(L + l, N + n)]) v = Some ts" using v(2) by (simp add: addInsert_def)
    moreover have "sec_ok ts ?k (L + l, N)" using wf(2) sec by (auto simp: sec_ok_def)
    ultimately show ?thesis
      using 1 ok wf(5,6) sec run [OF wf(1)] by (auto simp: out_ok_def wf_append)
  next
    case 2
    then have N: "N = 0" using wf(2) sec(2) by (simp add: sec_ok_def)
    have "out_ok secs ts" using wf 2(2) by (simp add: out_ok_def)
    from push_ok [OF this, of "L + l" n v] show ?thesis
      using 2 N v(1) sec wf(6) run [OF wf(1)] by (auto simp: piece_def text_at_def)
  next
    case 3
    have vn: "wf_text v" "tlength v = n" using v(1) [OF 3(1)] by simp_all
    have ne: "ts \<noteq> []" using 3(2) by auto
    have last: "last ts = ts ! ?k" "wf_text (ts ! ?k)" "tlength (ts ! ?k) = N" "ts \<noteq> []"
      using 3(2) wf(2) sec(2) ne by (auto simp: last_conv_nth sec_ok_def)
    obtain t where t: "append_text (ts ! ?k) v = Some t" "wf_text t" "doc t = doc (ts ! ?k) @ doc v"
      using append_text_spells [OF last(2) vn(1)] last(3) vn(2) small by (auto simp: spells_def)
    let ?ts = "butlast ts @ [t]"
    have same: "j < ?k \<Longrightarrow> ?ts ! j = ts ! j" "length ?ts = Suc ?k" "?ts ! ?k = t" for j
      using 3(2) by (auto simp: nth_append nth_butlast)
    have wf': "wf_secs ?ts 0 secs" using wf(1) same(1,2) 3(2)
      by (intro wf_secs_cong [OF _ wf(1)]) (auto simp: sec_ok_def)
    have abs': "abs_secs ?ts 0 secs = abs_secs ts 0 secs"
      using same(1,2) 3(2) by (intro abs_secs_cong) (auto simp: text_at_def)
    have "tlength t = N + n"
      using t(2,3) last(2,3) vn by (simp add: wf_tlength_doc)
    then have "sec_ok ?ts ?k (L + l, N + n)"
      using t(2) same(2,3) sec wf(6) by (simp add: sec_ok_def)
    then have "out_ok (secs @ [(L + l, N + n)]) ?ts"
      using wf(4) wf' same(2) sec(2) 3(1) by (auto simp: out_ok_def wf_append)
    moreover have "addInsert ts (secs @ [(L + l, N + n)]) v = Some ?ts"
      using 3 vn last(1,4) t(1) by (simp add: addInsert_def)
    moreover have "text_at ?ts ?k = text_at ts ?k @ doc v"
      using same(2,3) 3(2) t(3) by (simp add: text_at_def)
    ultimately show ?thesis
      using 3 sec run [OF wf'] run [OF wf(1)] abs' by (simp add: out_run_def)
  qed
qed

text \<open>\<open>addSection\<close> followed by \<open>addInsert\<close>, on every branch.\<close>

definition emitted ::
    "(int \<times> int) list \<Rightarrow> text_tree list \<Rightarrow> int \<Rightarrow> int \<Rightarrow> bool \<Rightarrow> ustring
     \<Rightarrow> (int \<times> int) list \<Rightarrow> text_tree list \<Rightarrow> bool" where
  "emitted secs ts l n force s secs' ts' \<longleftrightarrow> out_ok secs' ts' \<and>
     sections_length secs' = sections_length secs + l \<and>
     sections_newLength secs' = sections_newLength secs + (if n < 0 then l else n) \<and>
     (\<forall>d. sections_length secs' \<le> len d \<longrightarrow>
        out_run secs' ts' d = out_run secs ts d @ piece l n s (drop (nat (sections_length secs)) d)) \<and>
     (0 \<le> n \<and> (force \<or> length secs < length secs') \<longrightarrow> secs' \<noteq> [] \<and> 0 \<le> snd (last secs'))"

lemma take_drop_more: "0 \<le> a \<Longrightarrow> 0 \<le> b \<Longrightarrow> take (nat (a + b)) d = take (nat a) d @ take (nat b) (drop (nat a) d)"
  by (simp add: nat_add_distrib take_add)

lemma merge_keep_ok:
  assumes ok: "out_ok (secs @ [(L, -1)]) ts" and l: "0 \<le> l"
  shows "emitted (secs @ [(L, -1)]) ts l (-1) force s (secs @ [(L + l, -1)]) ts"
proof -
  have wf: "wf_secs ts 0 secs" "0 < L" "sec_ok ts (length secs) (L, -1)"
    using ok by (auto simp: out_ok_def wf_append sec_ok_def)
  have run: "out_run (secs @ [(L', -1)]) ts d = out_run secs ts d @ take (nat L') (drop (nat (sections_length secs)) d)"
    for L' d
    using run_append [OF abs_ok [OF wf(1)]] by (simp add: out_run_def abs_append in_len_abs)
  have "nat (sections_length secs + L) = nat L + nat (sections_length secs)"
    using sections_length_ge [OF wf(1)] wf(2) by (simp add: nat_add_distrib)
  then show ?thesis
    using ok wf l
    by (simp add: emitted_def out_ok_def wf_append sec_ok_def run piece_def take_drop_more
        sections_length_append sections_newLength_append)
qed

lemma sections_single [simp]:
  "sections_newLength [sec] = (if snd sec < 0 then fst sec else snd sec)"
  "sections_length [sec] = fst sec"
  by (cases sec; simp)+

lemma butlast_sec: "secs \<noteq> [] \<Longrightarrow> secs = butlast secs @ [(fst (last secs), snd (last secs))]"
  by simp

lemma emit_ok:
  assumes ok: "out_ok secs ts" and sec: "0 \<le> l" "-1 \<le> n"
    and force: "force \<Longrightarrow> \<not> (l = 0 \<and> n \<le> 0) \<Longrightarrow> 0 \<le> n"
      "force \<Longrightarrow> secs \<noteq> [] \<and> 0 \<le> snd (last secs)"
    and v: "0 < n \<Longrightarrow> wf_text v \<and> tlength v = n" "n \<le> 0 \<Longrightarrow> tlength v = 0"
    and small: "sections_newLength secs \<le> MAX_TO" "n \<le> MAX_TO"
  shows "\<exists>ts'. addInsert ts (addSection secs l n force) v = Some ts' \<and>
    emitted secs ts l n force (if 0 < n then doc v else []) (addSection secs l n force) ts'"
proof -
  let ?s = "if 0 < n then doc v else []"
  have wf: "wf_secs ts 0 secs" using ok by (simp add: out_ok_def)
  have no_insert: "n \<le> 0 \<Longrightarrow> addInsert ts xs v = Some ts" for xs using v(2) by (simp add: addInsert_def)
  have grow: "\<exists>ts'. addInsert ts (butlast secs @ [(fst (last secs) + l, snd (last secs) + n)]) v = Some ts' \<and>
      emitted secs ts l n force ?s (butlast secs @ [(fst (last secs) + l, snd (last secs) + n)]) ts'"
    if "secs \<noteq> []" "0 \<le> snd (last secs)" "0 \<le> n"
  proof -
    note nz = that
    let ?L = "fst (last secs)" and ?N = "snd (last secs)"
    have split: "secs = butlast secs @ [(?L, ?N)]" using nz(1) by (rule butlast_sec)
    have ok': "out_ok (butlast secs @ [(?L, ?N)]) ts" using ok split by simp
    have wf_bl: "wf_secs ts 0 (butlast secs)" using ok' by (simp add: out_ok_def wf_append)
    have N: "?N \<le> MAX_TO"
      using small(1) nz(2) sections_newLength_ge [OF wf_bl]
        arg_cong [OF split, of sections_newLength] by (simp add: sections_newLength_append)
    obtain ts' where ts': "addInsert ts (butlast secs @ [(?L + l, ?N + n)]) v = Some ts'"
      "out_ok (butlast secs @ [(?L + l, ?N + n)]) ts'"
      "\<And>d. out_run (butlast secs @ [(?L + l, ?N + n)]) ts' d = out_run secs ts d @ ?s"
      using grow_last_ok [OF ok' sec(1) nz(2,3) v N small(2)] split by auto
    moreover have "sections_length secs = sections_length (butlast secs) + ?L"
      "sections_newLength secs = sections_newLength (butlast secs) + ?N"
      using nz(2) arg_cong [OF split, of sections_length] arg_cong [OF split, of sections_newLength]
      by (simp_all add: sections_length_append sections_newLength_append)
    ultimately show ?thesis
      using nz(2,3)
      by (auto simp: emitted_def piece_def sections_length_append sections_newLength_append)
  qed
  consider "l = 0 \<and> n \<le> 0" | "\<not> (l = 0 \<and> n \<le> 0)" "secs \<noteq> []" "n \<le> 0" "n = snd (last secs)"
    | "\<not> (l = 0 \<and> n \<le> 0)" "\<not> (secs \<noteq> [] \<and> n \<le> 0 \<and> n = snd (last secs))" "secs \<noteq> []" "l = 0" "fst (last secs) = 0"
    | "\<not> (l = 0 \<and> n \<le> 0)" "\<not> (secs \<noteq> [] \<and> n \<le> 0 \<and> n = snd (last secs))"
      "\<not> (secs \<noteq> [] \<and> l = 0 \<and> fst (last secs) = 0)" "force"
    | "\<not> (l = 0 \<and> n \<le> 0)" "\<not> (secs \<noteq> [] \<and> n \<le> 0 \<and> n = snd (last secs))"
      "\<not> (secs \<noteq> [] \<and> l = 0 \<and> fst (last secs) = 0)" "\<not> force" by blast
  then show ?thesis
  proof cases
    case 1
    then have "addSection secs l n force = secs" by (simp add: addSection_def)
    then show ?thesis
      using 1 ok force(2) no_insert by (auto simp: emitted_def piece_def)
  next
    case 2
    have eq: "addSection secs l n force = butlast secs @ [(fst (last secs) + l, n)]"
      using 2 by (simp add: addSection_def)
    show ?thesis
    proof (cases "n = 0")
      case True
      then show ?thesis using grow 2 eq by simp
    next
      case False
      then have n: "n = -1" using 2(3) sec(2) by simp
      have split: "secs = butlast secs @ [(fst (last secs), -1)]" using butlast_sec [OF 2(2)] 2(4) n by simp
      have "emitted secs ts l (-1) force ?s (butlast secs @ [(fst (last secs) + l, -1)]) ts"
        using merge_keep_ok [of "butlast secs" "fst (last secs)" ts l force ?s] ok sec(1) split by simp
      then show ?thesis using no_insert n eq by auto
    qed
  next
    case 3
    have eq: "addSection secs l n force = butlast secs @ [(fst (last secs) + l, snd (last secs) + n)]"
      unfolding addSection_def using 3 by (simp only: if_False if_True simp_thms) simp
    have "\<not> (fst (last secs) = 0 \<and> snd (last secs) \<le> 0)" using ok 3(3) by (simp add: out_ok_def)
    then show ?thesis unfolding eq using 3 by (intro grow) auto
  next
    case 4
    have eq: "addSection secs l n force = butlast secs @ [(fst (last secs) + l, snd (last secs) + n)]"
      unfolding addSection_def using 4 force(2) by (simp only: if_False if_True simp_thms)
    show ?thesis unfolding eq using 4 force by (intro grow) auto
  next
    case 5
    have eq: "addSection secs l n force = secs @ [(l, n)]"
      unfolding addSection_def using 5 by (simp only: if_False simp_thms)
    obtain ts' where "addInsert ts (secs @ [(l, n)]) v = Some ts'" "out_ok (secs @ [(l, n)]) ts'"
      "\<And>d. out_run (secs @ [(l, n)]) ts' d = out_run secs ts d @
        piece l n ?s (drop (nat (sections_length secs)) d)"
      using push_ok [OF ok sec 5(1) v] by auto
    then show ?thesis
      unfolding eq by (auto simp: emitted_def sections_length_append sections_newLength_append)
  qed
qed

subsection \<open>What iterators still hold\<close>

definition iter_ok :: "section_iter \<Rightarrow> bool" where
  "iter_ok it \<longleftrightarrow> wf_secs (it_inserted it) 0 (it_sections it) \<and>
     (iter_done it \<and> it_len it = 0 \<and> it_i it = length (it_sections it) \<or>
      \<not> iter_done it \<and> 0 < it_i it \<and> it_i it \<le> length (it_sections it))"

abbreviation cur :: "section_iter \<Rightarrow> int \<times> int" where
  "cur it \<equiv> it_sections it ! (it_i it - 1)"

text \<open>The first set is consumed by its output, the second by its input.\<close>

definition a_ok :: "section_iter \<Rightarrow> bool" where
  "a_ok it \<longleftrightarrow> iter_ok it \<and>
     (\<not> iter_done it \<longrightarrow>
        snd (cur it) = -1 \<and> it_ins it = -1 \<and> 0 < it_len it \<or>
        0 \<le> snd (cur it) \<and> it_len it = fst (cur it) \<and> 0 \<le> it_len it \<and> 0 \<le> it_off it \<and> 0 \<le> it_ins it \<and>
        it_off it + it_ins it = snd (cur it) \<and> (0 < it_off it \<longrightarrow> 0 < it_ins it))"

definition b_ok :: "section_iter \<Rightarrow> bool" where
  "b_ok it \<longleftrightarrow> iter_ok it \<and>
     (\<not> iter_done it \<longrightarrow>
        it_ins it = snd (cur it) \<and> -1 \<le> it_ins it \<and> 0 \<le> it_len it \<and> 0 \<le> it_off it \<and>
        (0 < it_off it \<or> it_ins it = -1 \<longrightarrow> 0 < it_len it))"

definition rest :: "section_iter \<Rightarrow> asec list" where
  "rest it = abs_secs (it_inserted it) (it_i it) (drop (it_i it) (it_sections it))"

definition rem_a :: "section_iter \<Rightarrow> asec list" where
  "rem_a it =
     (if iter_done it then []
      else (if it_ins it = -1 then Keep (it_len it)
            else Repl (if it_off it = 0 then it_len it else 0)
                   (drop (nat (it_off it)) (text_at (it_inserted it) (it_i it - 1)))) # rest it)"

definition rem_b :: "section_iter \<Rightarrow> asec list" where
  "rem_b it =
     (if iter_done it then []
      else (if it_ins it = -1 then Keep (it_len it)
            else Repl (it_len it)
                   (if it_off it = 0 then text_at (it_inserted it) (it_i it - 1) else [])) # rest it)"

definition left :: "section_iter \<Rightarrow> nat" where
  "left it = (if iter_done it then 0 else Suc (length (it_sections it) - it_i it))"

lemma iter_ok_cur:
  "iter_ok it \<Longrightarrow> \<not> iter_done it \<Longrightarrow> sec_ok (it_inserted it) (it_i it - 1) (cur it)"
  using wf_nth [of "it_inserted it" 0 "it_sections it" "it_i it - 1"] by (auto simp: iter_ok_def)

lemma iter_next_ok:
  assumes "wf_secs (it_inserted it) 0 (it_sections it)" "it_i it \<le> length (it_sections it)"
  shows "a_ok (iter_next it)" "b_ok (iter_next it)" "rem_a (iter_next it) = rest it"
    "rem_b (iter_next it) = rest it" "left (iter_next it) = length (it_sections it) - it_i it"
    "it_off (iter_next it) = 0" "it_sections (iter_next it) = it_sections it"
    "it_inserted (iter_next it) = it_inserted it"
proof -
  show "it_off (iter_next it) = 0" "it_sections (iter_next it) = it_sections it"
    "it_inserted (iter_next it) = it_inserted it" by (simp_all add: iter_next_def)
  have "a_ok (iter_next it) \<and> b_ok (iter_next it) \<and> rem_a (iter_next it) = rest it \<and>
      rem_b (iter_next it) = rest it \<and> left (iter_next it) = length (it_sections it) - it_i it"
  proof (cases "it_i it < length (it_sections it)")
    case False
    then show ?thesis
      using assms by (simp add: iter_next_def a_ok_def b_ok_def iter_ok_def iter_done_def rem_a_def rem_b_def
          rest_def left_def)
  next
    case True
    obtain l n where sec: "it_sections it ! it_i it = (l, n)" by (cases "it_sections it ! it_i it")
    have ok: "sec_ok (it_inserted it) (it_i it) (l, n)" using wf_nth [OF assms(1) True] sec by simp
    have "drop (it_i it) (it_sections it) = (l, n) # drop (Suc (it_i it)) (it_sections it)"
      using True sec by (simp add: Cons_nth_drop_Suc [symmetric])
    then show ?thesis
      using True sec ok assms(1)
      by (auto simp: iter_next_def a_ok_def b_ok_def iter_ok_def iter_done_def rem_a_def rem_b_def rest_def
          left_def sec_ok_def)
  qed
  then show "a_ok (iter_next it)" "b_ok (iter_next it)" "rem_a (iter_next it) = rest it"
    "rem_b (iter_next it) = rest it" "left (iter_next it) = length (it_sections it) - it_i it" by auto
qed

lemma new_iter_ok:
  assumes "wf_secs ts 0 secs"
  shows "a_ok (new_iter secs ts)" "b_ok (new_iter secs ts)" "rem_a (new_iter secs ts) = abs_secs ts 0 secs"
    "rem_b (new_iter secs ts) = abs_secs ts 0 secs"
  using assms unfolding new_iter_def by (auto simp: iter_next_ok rest_def)

lemma iter_next_done:
  assumes "iter_ok it" "\<not> iter_done it"
  shows "a_ok (iter_next it)" "b_ok (iter_next it)" "rem_a (iter_next it) = rest it"
    "rem_b (iter_next it) = rest it" "left (iter_next it) < left it" "it_off (iter_next it) = 0"
  using assms iter_next_ok [of it] by (auto simp: iter_ok_def left_def)

text \<open>The output that \<open>l\<close> characters of the first set's output come from.\<close>

lemma forward_a_all:
  assumes ok: "a_ok it" "\<not> iter_done it" and l: "0 < l" "l \<le> iter_len2 it" "it_ins it \<noteq> 0"
    and c: "c = (if it_ins it = -1 then l else if it_off it = 0 then it_len it else 0)"
    and it': "it' = iter_forward2 it l"
  shows "a_ok it' \<and> 0 \<le> c \<and>
    in_len (rem_a it) = c + in_len (rem_a it') \<and> out_len (rem_a it) = l + out_len (rem_a it') \<and>
    run (rem_a it) d
      = (if it_ins it = -1 then take (nat l) d
         else sub_list (it_off it) (it_off it + l) (text_at (it_inserted it) (it_i it - 1)))
        @ run (rem_a it') (drop (nat c) d) \<and>
    left it' \<le> left it \<and> (l = iter_len2 it \<longrightarrow> left it' < left it) \<and>
    (0 \<le> it_ins it \<and> l < it_ins it \<longrightarrow> 0 < it_ins it' \<and> 0 < it_off it')"
proof -
  let ?t = "text_at (it_inserted it) (it_i it - 1)"
  have it: "iter_ok it" using ok(1) by (simp add: a_ok_def)
  note nxt = iter_next_done [OF it ok(2)]
  have t: "len ?t = max 0 (snd (cur it))"
    using text_at_len [of "it_inserted it" "it_i it - 1" "fst (cur it)" "snd (cur it)"] iter_ok_cur [OF it ok(2)]
    by simp
  consider "it_ins it = -1" "l = it_len it" | "it_ins it = -1" "l < it_len it"
    | "0 < it_ins it" "l = it_ins it" | "0 < it_ins it" "l < it_ins it"
    using ok l by (fastforce simp: a_ok_def iter_len2_def)
  then show ?thesis
  proof cases
    case 1
    then have "it' = iter_next it" by (simp add: it' iter_forward2_def iter_forward_def)
    with 1 show ?thesis using nxt ok l c by (simp add: rem_a_def)
  next
    case 2
    then have "it' = it\<lparr>it_len := it_len it - l, it_off := it_off it + l\<rparr>"
      by (simp add: it' iter_forward2_def iter_forward_def)
    moreover have "take (nat (it_len it)) d = take (nat l) d @ take (nat (it_len it - l)) (drop (nat l) d)"
      "drop (nat (it_len it)) d = drop (nat (it_len it - l)) (drop (nat l) d)"
      using take_drop_more [of l "it_len it - l" d] 2 l(1) by (simp_all add: nat_diff_distrib)
    ultimately show ?thesis
      using 2 ok l c by (auto simp: a_ok_def iter_ok_def iter_done_def rem_a_def rest_def left_def iter_len2_def)
  next
    case 3
    have off: "0 \<le> it_off it" "it_off it + it_ins it = len ?t" "0 \<le> it_len it"
      using 3 ok t by (auto simp: a_ok_def)
    have "it' = iter_next it" using 3 by (simp add: it' iter_forward2_def)
    moreover have "sub_list (it_off it) (it_off it + l) ?t = drop (nat (it_off it)) ?t"
      using off 3 by (simp add: sub_list_def)
    ultimately show ?thesis using 3 nxt ok c off by (simp add: rem_a_def)
  next
    case 4
    have off: "0 \<le> it_off it" "it_off it + it_ins it = len ?t" "0 \<le> it_len it"
      using 4 ok t by (auto simp: a_ok_def)
    have eq: "it' = it\<lparr>it_ins := it_ins it - l, it_off := it_off it + l\<rparr>"
      using 4 by (simp add: it' iter_forward2_def)
    have "drop (nat (it_off it)) ?t = sub_list (it_off it) (it_off it + l) ?t @ drop (nat (it_off it + l)) ?t"
      using off(1) l(1) by (simp add: sub_list_def nat_add_distrib append_take_drop_id [symmetric] add.commute
          del: append_take_drop_id) (metis append_take_drop_id drop_drop add.commute)
    moreover have "len (sub_list (it_off it) (it_off it + l) ?t) = l"
      using off 4 l(1) by (subst len_sub_list) simp_all
    ultimately show ?thesis
      using 4 ok l c eq off
      by (auto simp: a_ok_def iter_ok_def iter_done_def rem_a_def rest_def left_def iter_len2_def)
  qed
qed

lemma forward_b_all:
  assumes ok: "b_ok it" "\<not> iter_done it" and l: "0 < l" "l \<le> it_len it" and it': "it' = iter_forward it l"
  shows "b_ok it' \<and> in_len (rem_b it) = l + in_len (rem_b it') \<and>
    out_len (rem_b it) = (if it_ins it = -1 then l
      else if it_off it = 0 then len (text_at (it_inserted it) (it_i it - 1)) else 0) + out_len (rem_b it') \<and>
    run (rem_b it) d
      = (if it_ins it = -1 then take (nat l) d
         else if it_off it = 0 then text_at (it_inserted it) (it_i it - 1) else [])
        @ run (rem_b it') (drop (nat l) d) \<and>
    left it' \<le> left it \<and> (l = it_len it \<longrightarrow> left it' < left it) \<and>
    (0 \<le> it_ins it \<and> l < it_len it \<longrightarrow> 0 \<le> it_ins it' \<and> 0 < it_off it' \<and> 0 < it_len it')"
proof -
  have it: "iter_ok it" using ok(1) by (simp add: b_ok_def)
  note nxt = iter_next_done [OF it ok(2)]
  show ?thesis
  proof (cases "l = it_len it")
    case True
    then have "it' = iter_next it" by (simp add: it' iter_forward_def)
    with True show ?thesis using nxt ok l by (simp add: rem_b_def)
  next
    case False
    then have "it' = it\<lparr>it_len := it_len it - l, it_off := it_off it + l\<rparr>"
      by (simp add: it' iter_forward_def)
    moreover have "take (nat (it_len it)) d = take (nat l) d @ take (nat (it_len it - l)) (drop (nat l) d)"
      "drop (nat (it_len it)) d = drop (nat (it_len it - l)) (drop (nat l) d)"
      using take_drop_more [of l "it_len it - l" d] False l by (simp_all add: nat_diff_distrib)
    ultimately show ?thesis
      using False ok l by (auto simp: b_ok_def iter_ok_def iter_done_def rem_b_def rest_def left_def)
  qed
qed

lemma rem_asec_ok:
  "a_ok it \<Longrightarrow> list_all asec_ok (rem_a it)" "b_ok it \<Longrightarrow> list_all asec_ok (rem_b it)"
  using abs_ok [OF wf_drop [of "it_inserted it" 0 "it_sections it" "it_i it"]]
  by (auto simp: a_ok_def b_ok_def iter_ok_def rem_a_def rem_b_def rest_def)

subsection \<open>The loop\<close>

definition open_ok :: "compose_state \<Rightarrow> bool" where
  "open_ok st \<longleftrightarrow> (cp_open st \<longrightarrow> cp_sections st \<noteq> [] \<and> 0 \<le> snd (last (cp_sections st)) \<and>
     (0 < it_ins (cp_a st) \<and> 0 < it_off (cp_a st) \<or> 0 \<le> it_ins (cp_b st) \<and> 0 < it_off (cp_b st)))"

text \<open>
  \<open>la\<close> and \<open>lc\<close> are the lengths before and after, \<open>f\<close> is what the two sets do: the output does its share of it,
  and what the iterators hold does the rest.
\<close>

definition compose_inv :: "int \<Rightarrow> int \<Rightarrow> (ustring \<Rightarrow> ustring) \<Rightarrow> compose_state \<Rightarrow> bool" where
  "compose_inv la lc f st \<longleftrightarrow>
     out_ok (cp_sections st) (cp_insert st) \<and> a_ok (cp_a st) \<and> b_ok (cp_b st) \<and> open_ok st \<and>
     out_len (rem_a (cp_a st)) = in_len (rem_b (cp_b st)) \<and>
     sections_length (cp_sections st) + in_len (rem_a (cp_a st)) = la \<and>
     sections_newLength (cp_sections st) + out_len (rem_b (cp_b st)) = lc \<and>
     (\<forall>d. len d = la \<longrightarrow>
        out_run (cp_sections st) (cp_insert st) d
          @ run (rem_b (cp_b st)) (run (rem_a (cp_a st)) (drop (nat (sections_length (cp_sections st))) d)) = f d)"

lemma advance:
  assumes inv: "compose_inv la lc f st" and l: "0 \<le> l"
    and em: "emitted (cp_sections st) (cp_insert st) l n force s secs' ts'"
    and ab: "a_ok a'" "b_ok b'"
    and lens: "in_len (rem_a (cp_a st)) = l + in_len (rem_a a')"
      "out_len (rem_b (cp_b st)) = (if n < 0 then l else n) + out_len (rem_b b')"
      "out_len (rem_a a') = in_len (rem_b b')"
    and run: "\<And>d. len d = in_len (rem_a (cp_a st)) \<Longrightarrow>
      run (rem_b (cp_b st)) (run (rem_a (cp_a st)) d) = piece l n s d @ run (rem_b b') (run (rem_a a') (drop (nat l) d))"
    and st': "cp_sections st' = secs'" "cp_insert st' = ts'" "cp_a st' = a'" "cp_b st' = b'" "open_ok st'"
  shows "compose_inv la lc f st'"
proof -
  let ?S = "sections_length (cp_sections st)"
  have S: "0 \<le> ?S"
    using inv sections_length_ge [of "cp_insert st" 0 "cp_sections st"] by (simp add: compose_inv_def out_ok_def)
  have ge: "0 \<le> in_len (rem_a a')" using in_len_ge rem_asec_ok(1) [OF ab(1)] by blast
  have "out_run secs' ts' d @ run (rem_b b') (run (rem_a a') (drop (nat (?S + l)) d)) = f d" if "len d = la" for d
  proof -
    have "len (drop (nat ?S) d) = in_len (rem_a (cp_a st))"
      using inv that S lens(1) ge l by (auto simp: compose_inv_def)
    moreover have "drop (nat (?S + l)) d = drop (nat l) (drop (nat ?S) d)"
      using S l by (simp add: nat_add_distrib add.commute)
    ultimately show ?thesis
      using em inv that run [of "drop (nat ?S) d"] ge lens(1) by (auto simp: compose_inv_def emitted_def)
  qed
  then show ?thesis
    using em inv ab lens st' by (auto simp: compose_inv_def emitted_def)
qed

lemma compose_done:
  assumes inv: "compose_inv la lc f st" and fin: "iter_done (cp_a st)" "iter_done (cp_b st)"
  shows "out_ok (cp_sections st) (cp_insert st)" "sections_length (cp_sections st) = la"
    "sections_newLength (cp_sections st) = lc"
    "len d = la \<Longrightarrow> out_run (cp_sections st) (cp_insert st) d = f d"
  using inv fin by (auto simp: compose_inv_def rem_a_def rem_b_def)

lemma compose_a_nothing:
  assumes inv: "compose_inv la lc f st" and a: "it_ins (cp_a st) = 0" and max: "lc \<le> MAX_TO"
  shows "\<exists>st'. compose_step True st = Go st' \<and> compose_inv la lc f st' \<and>
    left (cp_a st') + left (cp_b st') < left (cp_a st) + left (cp_b st)"
proof -
  let ?a = "cp_a st" and ?secs' = "addSection (cp_sections st) (it_len (cp_a st)) 0 (cp_open st)"
  let ?st' = "st\<lparr>cp_sections := ?secs', cp_insert := cp_insert st, cp_a := iter_next ?a\<rparr>"
  have I: "out_ok (cp_sections st) (cp_insert st)" "a_ok ?a" "b_ok (cp_b st)" "open_ok st"
    "sections_newLength (cp_sections st) + out_len (rem_b (cp_b st)) = lc"
    "out_len (rem_a ?a) = in_len (rem_b (cp_b st))"
    using inv by (simp_all add: compose_inv_def)
  have nd: "\<not> iter_done ?a" using a by (simp add: iter_done_def)
  have off: "it_off ?a = 0" "0 \<le> it_len ?a" "snd (cur ?a) = 0" and it: "iter_ok ?a"
    using I(2) nd a by (auto simp: a_ok_def)
  note nxt = iter_next_done [OF it nd]
  have ge: "0 \<le> out_len (rem_b (cp_b st))" using rem_asec_ok(2) [OF I(3)] by (rule out_len_ge)
  have "\<exists>ts'. addInsert (cp_insert st) ?secs' empty_text = Some ts' \<and>
      emitted (cp_sections st) (cp_insert st) (it_len ?a) 0 (cp_open st) (if 0 < (0::int) then doc empty_text else []) ?secs' ts'"
    using I off max ge by (intro emit_ok) (auto simp: open_ok_def MAX_TO_def)
  then have em: "emitted (cp_sections st) (cp_insert st) (it_len ?a) 0 (cp_open st) [] ?secs' (cp_insert st)"
    by (simp add: addInsert_def)
  have txt0: "text_at (it_inserted ?a) (it_i ?a - 1) = []"
    using text_at_len [of "it_inserted ?a" "it_i ?a - 1" "fst (cur ?a)" "snd (cur ?a)"] iter_ok_cur [OF it nd] off
    by simp
  have rem: "rem_a ?a = Repl (it_len ?a) [] # rem_a (iter_next ?a)"
    using nd a off txt0 nxt(3) by (simp add: rem_a_def)
  have "compose_inv la lc f ?st'"
  proof (rule advance [OF inv off(2) em nxt(1) I(3)])
    show "open_ok ?st'"
      using I(4) em a by (auto simp: open_ok_def emitted_def)
  qed (use rem I(6) in \<open>simp_all add: piece_def\<close>)
  moreover have "compose_step True st = Go ?st'" using a nd by (simp add: compose_step_def compose_emit_def Let_def)
  ultimately show ?thesis using nxt(5) by auto
qed

lemma iter_text_ok:
  assumes "iter_ok it" "\<not> iter_done it"
  shows "\<exists>t. iter_text it = Some t \<and> wf_text t \<and> tlength t = max 0 (snd (cur it)) \<and>
    doc t = text_at (it_inserted it) (it_i it - 1)"
  using assms iter_ok_cur [OF assms]
  by (auto simp: iter_ok_def iter_text_def sec_ok_def text_at_def split: if_splits)

lemma iter_textBit_ok:
  assumes "iter_ok it" "\<not> iter_done it" "0 \<le> it_off it" "0 < l" "it_off it + l \<le> snd (cur it)"
  shows "\<exists>t. iter_textBit it l = Some t \<and> wf_text t \<and> tlength t = l \<and>
    doc t = sub_list (it_off it) (it_off it + l) (text_at (it_inserted it) (it_i it - 1))"
proof -
  let ?t = "it_inserted it ! (it_i it - 1)"
  have t: "it_i it - 1 < length (it_inserted it)" "wf_text ?t" "tlength ?t = snd (cur it)" "0 < it_i it"
    using iter_ok_cur [OF assms(1,2)] assms by (auto simp: sec_ok_def iter_ok_def split: if_splits)
  have "clip ?t (it_off it) (it_off it + l) = (it_off it, it_off it + l)"
    using t assms by (intro clip_same) simp_all
  then have "spells (slice ?t (it_off it) (it_off it + l)) (sub_list (it_off it) (it_off it + l) (doc ?t))"
    using slice_spells [OF t(2)] by blast
  moreover have "len (sub_list (it_off it) (it_off it + l) (doc ?t)) = l"
    using t assms by (subst len_sub_list) (simp_all add: wf_tlength_doc)
  ultimately show ?thesis
    using t by (auto simp: iter_textBit_def spells_def text_at_def wf_tlength_doc)
qed

lemma compose_b_insert:
  assumes inv: "compose_inv la lc f st" and b: "it_len (cp_b st) = 0" "\<not> iter_done (cp_b st)"
    and a: "it_ins (cp_a st) \<noteq> 0" and max: "lc \<le> MAX_TO"
  shows "\<exists>st'. compose_step True st = Go st' \<and> compose_inv la lc f st' \<and>
    left (cp_a st') + left (cp_b st') < left (cp_a st) + left (cp_b st)"
proof -
  let ?b = "cp_b st"
  let ?secs' = "addSection (cp_sections st) 0 (it_ins ?b) (cp_open st)"
  have I: "out_ok (cp_sections st) (cp_insert st)" "a_ok (cp_a st)" "b_ok ?b" "open_ok st"
    "sections_newLength (cp_sections st) + out_len (rem_b ?b) = lc"
    "out_len (rem_a (cp_a st)) = in_len (rem_b ?b)"
    using inv by (simp_all add: compose_inv_def)
  have off: "it_off ?b = 0" "0 \<le> it_ins ?b" "snd (cur ?b) = it_ins ?b" and it: "iter_ok ?b"
    using I(3) b by (auto simp: b_ok_def)
  note nxt = iter_next_done [OF it b(2)]
  obtain t where t: "iter_text ?b = Some t" "wf_text t" "tlength t = it_ins ?b"
    "doc t = text_at (it_inserted ?b) (it_i ?b - 1)"
    using iter_text_ok [OF it b(2)] off by auto
  have rem: "rem_b ?b = Repl 0 (doc t) # rem_b (iter_next ?b)"
    using b off t(4) nxt(4) by (simp add: rem_b_def)
  have ge: "0 \<le> out_len (rem_b (iter_next ?b))" using rem_asec_ok(2) [OF nxt(2)] by (rule out_len_ge)
  have dlen: "len (doc t) = it_ins ?b" using t(2,3) by (simp add: wf_tlength_doc)
  have wf: "0 \<le> sections_newLength (cp_sections st)"
    using I(1) sections_newLength_ge by (auto simp: out_ok_def)
  obtain ts' where ts': "addInsert (cp_insert st) ?secs' t = Some ts'"
    "emitted (cp_sections st) (cp_insert st) 0 (it_ins ?b) (cp_open st) (if 0 < it_ins ?b then doc t else []) ?secs' ts'"
  proof -
    have "\<exists>ts'. addInsert (cp_insert st) ?secs' t = Some ts' \<and>
      emitted (cp_sections st) (cp_insert st) 0 (it_ins ?b) (cp_open st) (if 0 < it_ins ?b then doc t else []) ?secs' ts'"
      using I(1,4,5) off t(2,3) max ge rem dlen wf
      by (intro emit_ok) (auto simp: open_ok_def MAX_TO_def)
    then show thesis using that by blast
  qed
  have s: "(if 0 < it_ins ?b then doc t else []) = doc t" using dlen off(2) by (cases "doc t") auto
  let ?st' = "st\<lparr>cp_sections := ?secs', cp_insert := ts', cp_b := iter_next ?b\<rparr>"
  have "compose_inv la lc f ?st'"
  proof (rule advance [OF inv order_refl ts'(2) I(2) nxt(2)])
    show "open_ok ?st'"
      using I(4) ts'(2) b off by (auto simp: open_ok_def emitted_def)
  qed (use rem I(6) off s dlen in \<open>simp_all add: piece_def\<close>)
  moreover have "compose_step True st = Go ?st'"
    using a b t(1) ts'(1) by (simp add: compose_step_def compose_emit_def put_insert_def Let_def)
  ultimately show ?thesis using nxt(5) by auto
qed

subsection \<open>The last branch\<close>

text \<open>
  Its three cases brought together: \<open>l\<close> characters of the middle document are consumed, and the section \<open>(x, y)\<close>
  is written.
\<close>

definition pair_l :: "compose_state \<Rightarrow> int" where
  "pair_l st = min (iter_len2 (cp_a st)) (it_len (cp_b st))"

definition pair_x :: "compose_state \<Rightarrow> int" where
  "pair_x st = (if it_ins (cp_a st) = -1 then pair_l st
    else if it_off (cp_a st) = 0 then it_len (cp_a st) else 0)"

definition pair_y :: "compose_state \<Rightarrow> int" where
  "pair_y st = (if it_ins (cp_b st) = -1 then (if it_ins (cp_a st) = -1 then -1 else pair_l st)
    else if it_off (cp_b st) = 0 then it_ins (cp_b st) else 0)"

definition pair_insert :: "compose_state \<Rightarrow> (int \<times> int) list \<Rightarrow> text_tree list option" where
  "pair_insert st secs' =
     (if it_ins (cp_a st) = -1 then
        (if pair_y st \<noteq> 0 then put_insert True (cp_insert st) secs' (iter_text (cp_b st)) else Some (cp_insert st))
      else if it_ins (cp_b st) = -1 then put_insert True (cp_insert st) secs' (iter_textBit (cp_a st) (pair_l st))
      else if it_off (cp_b st) = 0 then put_insert True (cp_insert st) secs' (iter_text (cp_b st))
      else Some (cp_insert st))"

definition pair_open :: "compose_state \<Rightarrow> (int \<times> int) list \<Rightarrow> bool" where
  "pair_open st secs' \<longleftrightarrow>
     (it_ins (cp_a st) > pair_l st \<or> it_ins (cp_b st) \<ge> 0 \<and> it_len (cp_b st) > pair_l st) \<and>
     (cp_open st \<or> length secs' > length (cp_sections st))"

lemma compose_pair_unfold:
  "compose_pair True st =
     (let secs' = addSection (cp_sections st) (pair_x st) (pair_y st) (cp_open st)
      in compose_emit st secs' (pair_insert st secs')
           (\<lambda>s. s\<lparr>cp_open := pair_open st secs', cp_a := iter_forward2 (cp_a st) (pair_l st),
                 cp_b := iter_forward (cp_b st) (pair_l st)\<rparr>))"
proof -
  note unfold = compose_pair_def Let_def pair_insert_def pair_x_def pair_y_def pair_open_def
    pair_l_def [symmetric] if_True if_False simp_thms prod.case
  consider "it_ins (cp_a st) = -1" "it_ins (cp_b st) = -1" | "it_ins (cp_a st) = -1" "it_ins (cp_b st) \<noteq> -1"
    | "it_ins (cp_a st) \<noteq> -1" "it_ins (cp_b st) = -1" | "it_ins (cp_a st) \<noteq> -1" "it_ins (cp_b st) \<noteq> -1"
    by blast
  then show ?thesis
  proof cases
    case 2
    then show ?thesis by (cases "it_off (cp_b st) = 0") (simp_all only: unfold)
  next
    case 4
    then show ?thesis
      by (cases "it_off (cp_a st) = 0"; cases "it_off (cp_b st) = 0") (simp_all only: unfold)
  next
    case 3
    then show ?thesis by (cases "it_off (cp_a st) = 0") (simp_all only: unfold)
  next
    case 1
    then show ?thesis unfolding unfold by simp
  qed
qed

text \<open>A state in which the last branch is taken.\<close>

definition pairing :: "compose_state \<Rightarrow> bool" where
  "pairing st \<longleftrightarrow> a_ok (cp_a st) \<and> b_ok (cp_b st) \<and> \<not> iter_done (cp_a st) \<and> \<not> iter_done (cp_b st) \<and>
     it_ins (cp_a st) \<noteq> 0 \<and> it_len (cp_b st) \<noteq> 0"

lemma pairing_facts:
  assumes "pairing st"
  shows "it_ins (cp_a st) = -1 \<and> 0 < it_len (cp_a st) \<or>
      0 < it_ins (cp_a st) \<and> 0 \<le> it_off (cp_a st) \<and> 0 \<le> it_len (cp_a st) \<and>
      it_off (cp_a st) + it_ins (cp_a st) = snd (cur (cp_a st))"
    "0 < it_len (cp_b st)" "it_ins (cp_b st) = snd (cur (cp_b st))" "-1 \<le> it_ins (cp_b st)"
  using assms by (auto simp: pairing_def a_ok_def b_ok_def)

lemma pair_l_bounds:
  assumes "pairing st"
  shows "0 < pair_l st" "pair_l st \<le> iter_len2 (cp_a st)" "pair_l st \<le> it_len (cp_b st)"
    "pair_l st = iter_len2 (cp_a st) \<or> pair_l st = it_len (cp_b st)"
  using pairing_facts [OF assms] by (auto simp: pair_l_def iter_len2_def)

lemma pair_xy_bounds:
  assumes "pairing st" shows "0 \<le> pair_x st" "-1 \<le> pair_y st"
  using pairing_facts [OF assms] pair_l_bounds(1) [OF assms] by (auto simp: pair_x_def pair_y_def)

text \<open>The text that goes with the section.\<close>

lemma pair_text:
  assumes p: "pairing st"
  shows "\<exists>v. (0 < pair_y st \<longrightarrow> wf_text v \<and> tlength v = pair_y st) \<and> (pair_y st \<le> 0 \<longrightarrow> tlength v = 0) \<and>
    (0 < pair_y st \<longrightarrow> doc v =
       (if it_ins (cp_b st) = -1
        then sub_list (it_off (cp_a st)) (it_off (cp_a st) + pair_l st)
               (text_at (it_inserted (cp_a st)) (it_i (cp_a st) - 1))
        else text_at (it_inserted (cp_b st)) (it_i (cp_b st) - 1))) \<and>
    (\<forall>secs'. pair_insert st secs' = addInsert (cp_insert st) secs' v)"
proof -
  let ?a = "cp_a st" and ?b = "cp_b st"
  have nd: "iter_ok ?a" "iter_ok ?b" "\<not> iter_done ?a" "\<not> iter_done ?b"
    using p by (auto simp: pairing_def a_ok_def b_ok_def)
  note facts = pairing_facts [OF p] and l = pair_l_bounds [OF p]
  have skip: "tlength w = 0 \<Longrightarrow> addInsert (cp_insert st) xs w = Some (cp_insert st)" for w xs
    by (simp add: addInsert_def)
  obtain tb where tb: "iter_text ?b = Some tb" "wf_text tb" "tlength tb = max 0 (it_ins ?b)"
    "doc tb = text_at (it_inserted ?b) (it_i ?b - 1)"
    using iter_text_ok [OF nd(2,4)] facts(3) by auto
  consider "it_ins ?a \<noteq> -1" "it_ins ?b = -1" | "it_ins ?a = -1" "it_ins ?b = -1"
    | "it_ins ?b \<noteq> -1" "it_off ?b = 0" | "it_ins ?b \<noteq> -1" "it_off ?b \<noteq> 0" by blast
  then show ?thesis
  proof cases
    case 1
    then show ?thesis
      using iter_textBit_ok [OF nd(1,3), of "pair_l st"] facts(1) l(1,2)
      by (auto simp: pair_y_def pair_insert_def put_insert_def iter_len2_def)
  next
    case 2
    then show ?thesis
      using tb by (intro exI [of _ tb]) (simp add: pair_y_def pair_insert_def put_insert_def)
  next
    case 3
    then show ?thesis
      using tb facts(4) skip
      by (intro exI [of _ tb]) (auto simp: pair_y_def pair_insert_def put_insert_def)
  next
    case 4
    then show ?thesis
      using skip [of empty_text] by (intro exI [of _ empty_text]) (simp add: pair_y_def pair_insert_def)
  qed
qed

lemma pair_forward:
  assumes p: "pairing st"
  defines "a' \<equiv> iter_forward2 (cp_a st) (pair_l st)" and "b' \<equiv> iter_forward (cp_b st) (pair_l st)"
  shows "a_ok a'" "b_ok b'"
    "in_len (rem_a (cp_a st)) = pair_x st + in_len (rem_a a')"
    "out_len (rem_a (cp_a st)) = pair_l st + out_len (rem_a a')"
    "in_len (rem_b (cp_b st)) = pair_l st + in_len (rem_b b')"
    "out_len (rem_b (cp_b st)) = (if pair_y st < 0 then pair_x st else pair_y st) + out_len (rem_b b')"
    "left a' + left b' < left (cp_a st) + left (cp_b st)"
    "pair_l st < it_ins (cp_a st) \<Longrightarrow> 0 < it_ins a' \<and> 0 < it_off a'"
    "0 \<le> it_ins (cp_b st) \<Longrightarrow> pair_l st < it_len (cp_b st) \<Longrightarrow> 0 \<le> it_ins b' \<and> 0 < it_off b'"
proof -
  have ok: "a_ok (cp_a st)" "b_ok (cp_b st)" "\<not> iter_done (cp_a st)" "\<not> iter_done (cp_b st)" "it_ins (cp_a st) \<noteq> 0"
    using p by (auto simp: pairing_def)
  note l = pair_l_bounds [OF p]
  note fa = forward_a_all [OF ok(1,3) l(1,2) ok(5) pair_x_def refl, of "[]", folded a'_def]
  note fb = forward_b_all [OF ok(2,4) l(1,3) refl, of "[]", folded b'_def]
  show "a_ok a'" "in_len (rem_a (cp_a st)) = pair_x st + in_len (rem_a a')"
    "out_len (rem_a (cp_a st)) = pair_l st + out_len (rem_a a')"
    "pair_l st < it_ins (cp_a st) \<Longrightarrow> 0 < it_ins a' \<and> 0 < it_off a'"
    using fa l(1) by auto
  show "b_ok b'" "in_len (rem_b (cp_b st)) = pair_l st + in_len (rem_b b')"
    "0 \<le> it_ins (cp_b st) \<Longrightarrow> pair_l st < it_len (cp_b st) \<Longrightarrow> 0 \<le> it_ins b' \<and> 0 < it_off b'"
    using fb by auto
  show "left a' + left b' < left (cp_a st) + left (cp_b st)" using fa fb l(4) by auto
  have "len (text_at (it_inserted (cp_b st)) (it_i (cp_b st) - 1)) = max 0 (it_ins (cp_b st))"
    using iter_text_ok [of "cp_b st"] ok(2,4) pairing_facts(3) [OF p] wf_tlength_doc by (auto simp: b_ok_def)
  then show "out_len (rem_b (cp_b st)) = (if pair_y st < 0 then pair_x st else pair_y st) + out_len (rem_b b')"
    using fb pairing_facts(4) [OF p] l(1) by (auto simp: pair_y_def pair_x_def)
qed

text \<open>What is written is what the two sets do to the characters consumed.\<close>

lemma pair_run:
  assumes p: "pairing st" and d: "len d = in_len (rem_a (cp_a st))"
    and s: "0 < pair_y st \<Longrightarrow> s = (if it_ins (cp_b st) = -1
        then sub_list (it_off (cp_a st)) (it_off (cp_a st) + pair_l st)
               (text_at (it_inserted (cp_a st)) (it_i (cp_a st) - 1))
        else text_at (it_inserted (cp_b st)) (it_i (cp_b st) - 1))"
  shows "run (rem_b (cp_b st)) (run (rem_a (cp_a st)) d)
    = piece (pair_x st) (pair_y st) (if 0 < pair_y st then s else []) d
      @ run (rem_b (iter_forward (cp_b st) (pair_l st)))
          (run (rem_a (iter_forward2 (cp_a st) (pair_l st))) (drop (nat (pair_x st)) d))"
proof -
  let ?a = "cp_a st" and ?b = "cp_b st" and ?l = "pair_l st"
  have ok: "a_ok ?a" "b_ok ?b" "\<not> iter_done ?a" "\<not> iter_done ?b" "it_ins ?a \<noteq> 0"
    using p by (auto simp: pairing_def)
  note l = pair_l_bounds [OF p] and facts = pairing_facts [OF p] and fw = pair_forward [OF p]
  let ?ta = "text_at (it_inserted ?a) (it_i ?a - 1)" and ?tb = "text_at (it_inserted ?b) (it_i ?b - 1)"
  define A where "A = (if it_ins ?a = -1 then take (nat ?l) d else sub_list (it_off ?a) (it_off ?a + ?l) ?ta)"
  define R where "R = run (rem_a (iter_forward2 ?a ?l)) (drop (nat (pair_x st)) d)"
  define B where "B = (if it_ins ?b = -1 then take (nat ?l) (A @ R) else if it_off ?b = 0 then ?tb else [])"
  have run_a: "run (rem_a ?a) d = A @ R"
    using forward_a_all [OF ok(1,3) l(1,2) ok(5) pair_x_def refl, of d] unfolding A_def R_def by blast
  have a': "list_all asec_ok (rem_a (iter_forward2 ?a ?l))" by (rule rem_asec_ok(1) [OF fw(1)])
  have "len R = out_len (rem_a (iter_forward2 ?a ?l))"
    unfolding R_def using d fw(3) pair_xy_bounds(1) [OF p] in_len_ge [OF a'] by (intro len_run [OF a']) simp
  moreover have "len (A @ R) = out_len (rem_a ?a)"
    using len_run [OF rem_asec_ok(1) [OF ok(1)] d] run_a by simp
  ultimately have A: "length A = nat ?l" using fw(4) by simp
  have "run (rem_b ?b) (A @ R) = B @ run (rem_b (iter_forward ?b ?l)) (drop (nat ?l) (A @ R))"
    using forward_b_all [OF ok(2,4) l(1,3) refl, of "A @ R"] unfolding B_def by blast
  moreover have "it_ins ?b = 0 \<Longrightarrow> ?tb = []"
    using iter_text_ok [of ?b] ok(2,4) facts(3) wf_tlength_doc by (fastforce simp: b_ok_def)
  then have "piece (pair_x st) (pair_y st) (if 0 < pair_y st then s else []) d = B"
    using A l(1) s facts(4) by (auto simp: piece_def B_def A_def pair_y_def pair_x_def)
  ultimately show ?thesis using run_a A by (simp add: R_def)
qed

lemma pair_emit:
  assumes inv: "compose_inv la lc f st" and p: "pairing st" and max: "lc \<le> MAX_TO"
  defines "secs' \<equiv> addSection (cp_sections st) (pair_x st) (pair_y st) (cp_open st)"
  shows "\<exists>ts' s. pair_insert st secs' = Some ts' \<and>
    emitted (cp_sections st) (cp_insert st) (pair_x st) (pair_y st) (cp_open st)
      (if 0 < pair_y st then s else []) secs' ts' \<and>
    (0 < pair_y st \<longrightarrow> s = (if it_ins (cp_b st) = -1
        then sub_list (it_off (cp_a st)) (it_off (cp_a st) + pair_l st)
               (text_at (it_inserted (cp_a st)) (it_i (cp_a st) - 1))
        else text_at (it_inserted (cp_b st)) (it_i (cp_b st) - 1)))"
proof -
  have I: "out_ok (cp_sections st) (cp_insert st)" "open_ok st"
    "sections_newLength (cp_sections st) + out_len (rem_b (cp_b st)) = lc"
    using inv by (simp_all add: compose_inv_def)
  note fw = pair_forward [OF p] and xy = pair_xy_bounds [OF p]
  obtain v where v: "0 < pair_y st \<Longrightarrow> wf_text v \<and> tlength v = pair_y st" "pair_y st \<le> 0 \<Longrightarrow> tlength v = 0"
    "0 < pair_y st \<Longrightarrow> doc v = (if it_ins (cp_b st) = -1
        then sub_list (it_off (cp_a st)) (it_off (cp_a st) + pair_l st)
               (text_at (it_inserted (cp_a st)) (it_i (cp_a st) - 1))
        else text_at (it_inserted (cp_b st)) (it_i (cp_b st) - 1))"
    "\<And>secs'. pair_insert st secs' = addInsert (cp_insert st) secs' v"
    using pair_text [OF p] by blast
  have ge: "0 \<le> out_len (rem_b (iter_forward (cp_b st) (pair_l st)))"
    using out_len_ge [OF rem_asec_ok(2) [OF fw(2)]] .
  have nl: "0 \<le> sections_newLength (cp_sections st)"
    using I(1) sections_newLength_ge by (auto simp: out_ok_def)
  have bounds: "sections_newLength (cp_sections st) \<le> MAX_TO" "pair_y st \<le> MAX_TO"
    using I(3) fw(6) ge max xy nl by (auto simp: MAX_TO_def split: if_splits)
  have "0 \<le> pair_y st" if "cp_open st"
    using I(2) that pairing_facts [OF p] pair_l_bounds(1) [OF p] by (auto simp: open_ok_def pair_y_def)
  moreover have "cp_open st \<Longrightarrow> cp_sections st \<noteq> [] \<and> 0 \<le> snd (last (cp_sections st))"
    using I(2) by (simp add: open_ok_def)
  ultimately obtain ts' where "addInsert (cp_insert st) secs' v = Some ts'"
    "emitted (cp_sections st) (cp_insert st) (pair_x st) (pair_y st) (cp_open st)
      (if 0 < pair_y st then doc v else []) secs' ts'"
    using emit_ok [OF I(1) xy _ _ v(1,2) bounds, of "cp_open st"] unfolding secs'_def by blast
  then show ?thesis using v(3,4) by (intro exI [of _ ts'] exI [of _ "doc v"]) auto
qed

lemma compose_pair_ok:
  assumes inv: "compose_inv la lc f st" and p: "pairing st" and max: "lc \<le> MAX_TO"
  shows "\<exists>st'. compose_pair True st = Go st' \<and> compose_inv la lc f st' \<and>
    left (cp_a st') + left (cp_b st') < left (cp_a st) + left (cp_b st)"
proof -
  let ?secs' = "addSection (cp_sections st) (pair_x st) (pair_y st) (cp_open st)"
  let ?a' = "iter_forward2 (cp_a st) (pair_l st)" and ?b' = "iter_forward (cp_b st) (pair_l st)"
  note fw = pair_forward [OF p]
  have mid: "out_len (rem_a (cp_a st)) = in_len (rem_b (cp_b st))" using inv by (simp add: compose_inv_def)
  obtain ts' s where ts': "pair_insert st ?secs' = Some ts'"
    and em: "emitted (cp_sections st) (cp_insert st) (pair_x st) (pair_y st) (cp_open st)
      (if 0 < pair_y st then s else []) ?secs' ts'"
    and s: "0 < pair_y st \<Longrightarrow> s = (if it_ins (cp_b st) = -1
        then sub_list (it_off (cp_a st)) (it_off (cp_a st) + pair_l st)
               (text_at (it_inserted (cp_a st)) (it_i (cp_a st) - 1))
        else text_at (it_inserted (cp_b st)) (it_i (cp_b st) - 1))"
    using pair_emit [OF inv p max] by blast
  let ?st' = "st\<lparr>cp_sections := ?secs', cp_insert := ts', cp_open := pair_open st ?secs',
    cp_a := ?a', cp_b := ?b'\<rparr>"
  have y: "0 \<le> pair_y st" if "pair_l st < it_ins (cp_a st) \<or> 0 \<le> it_ins (cp_b st)"
    using that pairing_facts(4) [OF p] pair_l_bounds(1) [OF p] by (auto simp: pair_y_def)
  have "open_ok ?st'"
    using em y fw(8,9) by (auto simp: open_ok_def pair_open_def emitted_def)
  then have "compose_inv la lc f ?st'"
    using fw mid pair_run [OF p _ s]
    by (intro advance [OF inv pair_xy_bounds(1) [OF p] em fw(1,2)]) simp_all
  moreover have "compose_pair True st = Go ?st'"
    by (simp add: compose_pair_unfold Let_def ts' compose_emit_def)
  ultimately show ?thesis using fw(7) by auto
qed

lemma compose_step_ok:
  assumes inv: "compose_inv la lc f st" and max: "lc \<le> MAX_TO"
  shows "iter_done (cp_a st) \<and> iter_done (cp_b st) \<and>
      compose_step True st = Finish (cp_sections st, cp_insert st) \<or>
    (\<exists>st'. compose_step True st = Go st' \<and> compose_inv la lc f st' \<and>
      left (cp_a st') + left (cp_b st') < left (cp_a st) + left (cp_b st))"
proof -
  let ?a = "cp_a st" and ?b = "cp_b st"
  have I: "a_ok ?a" "b_ok ?b" "out_len (rem_a ?a) = in_len (rem_b ?b)"
    using inv by (simp_all add: compose_inv_def)
  have ge: "0 \<le> out_len (rest ?a)" "0 \<le> in_len (rest ?b)"
    using out_len_ge [OF rem_asec_ok(1) [OF I(1)]] I
      out_len_ge [OF abs_ok [OF wf_drop [of "it_inserted ?a" 0 "it_sections ?a" "it_i ?a"]]]
      in_len_ge [OF abs_ok [OF wf_drop [of "it_inserted ?b" 0 "it_sections ?b" "it_i ?b"]]]
    by (auto simp: rest_def a_ok_def b_ok_def iter_ok_def)
  consider "iter_done ?a" "iter_done ?b" | "\<not> (iter_done ?a \<and> iter_done ?b)" "it_ins ?a = 0"
    | "\<not> (iter_done ?a \<and> iter_done ?b)" "it_ins ?a \<noteq> 0" "it_len ?b = 0" "\<not> iter_done ?b"
    | "\<not> (iter_done ?a \<and> iter_done ?b)" "it_ins ?a \<noteq> 0" "it_len ?b \<noteq> 0 \<or> iter_done ?b" by blast
  then show ?thesis
  proof cases
    case 1
    then show ?thesis by (simp add: compose_step_def)
  next
    case 2
    then show ?thesis using compose_a_nothing [OF inv 2(2) max] by blast
  next
    case 3
    then show ?thesis using compose_b_insert [OF inv 3(3,4,2) max] by blast
  next
    case 4
    have "\<not> iter_done ?a"
    proof
      assume "iter_done ?a"
      then show False
        using 4 I ge(2) by (auto simp: rem_a_def rem_b_def b_ok_def split: if_splits)
    qed
    moreover have "\<not> iter_done ?b"
    proof
      assume b: "iter_done ?b"
      then have "out_len (rem_a ?a) = 0" using I(3) by (simp add: rem_b_def)
      moreover have "len (text_at (it_inserted ?a) (it_i ?a - 1)) = max 0 (snd (cur ?a))"
        using iter_text_ok [of ?a] I(1) \<open>\<not> iter_done ?a\<close> wf_tlength_doc by (auto simp: a_ok_def)
      ultimately show False
        using 4(2) I(1) ge(1) \<open>\<not> iter_done ?a\<close> by (auto simp: rem_a_def a_ok_def split: if_splits)
    qed
    ultimately have "pairing st" using 4 I by (simp add: pairing_def)
    moreover have "compose_step True st = compose_pair True st"
      using 4 \<open>\<not> iter_done ?a\<close> \<open>\<not> iter_done ?b\<close> by (simp add: compose_step_def Let_def)
    ultimately show ?thesis using compose_pair_ok [OF inv _ max] by metis
  qed
qed

lemma compose_loop_ok:
  assumes "compose_inv la lc f st" and "lc \<le> MAX_TO"
  shows "\<exists>secs ts. compose_loop True st = Some (Inr (secs, ts)) \<and> out_ok secs ts \<and>
    sections_length secs = la \<and> sections_newLength secs = lc \<and>
    (\<forall>d. len d = la \<longrightarrow> out_run secs ts d = f d)"
  using assms
proof (induction "left (cp_a st) + left (cp_b st)" arbitrary: st rule: less_induct)
  case less
  from compose_step_ok [OF less.prems] show ?case
  proof (elim disjE exE conjE)
    assume "iter_done (cp_a st)" "iter_done (cp_b st)"
      "compose_step True st = Finish (cp_sections st, cp_insert st)"
    then show ?thesis
      using compose_done [OF less.prems(1)] by (simp add: compose_loop.simps [of True st])
  next
    fix st'
    assume "compose_step True st = Go st'" "compose_inv la lc f st'"
      "left (cp_a st') + left (cp_b st') < left (cp_a st) + left (cp_b st)"
    then show ?thesis
      using less.hyps [of st'] less.prems(2) by (simp add: compose_loop.simps [of True st])
  qed
qed

lemma composeSets_ok:
  assumes wf: "wf_set A" "wf_set B" and fit: "newLength A = desc_length B" and max: "newLength B \<le> MAX_TO"
  shows "\<exists>secs ts. composeSets (sections A) (inserted A) (sections B) (inserted B) True = Some (Inr (secs, ts)) \<and>
    out_ok secs ts \<and> sections_length secs = desc_length A \<and> sections_newLength secs = newLength B \<and>
    (\<forall>d. len d = desc_length A \<longrightarrow> out_run secs ts d = set_run B (set_run A d))"
  unfolding composeSets_def
proof (rule compose_loop_ok [OF _ max])
  have secs: "wf_secs (inserted A) 0 (sections A)" "wf_secs (inserted B) 0 (sections B)"
    using wf by (simp_all add: wf_set_def)
  show "compose_inv (desc_length A) (newLength B) (\<lambda>d. set_run B (set_run A d))
      \<lparr>cp_sections = [], cp_insert = [], cp_a = new_iter (sections A) (inserted A),
       cp_b = new_iter (sections B) (inserted B), cp_open = False\<rparr>"
    using fit new_iter_ok [OF secs(1)] new_iter_ok [OF secs(2)] secs
    by (simp add: compose_inv_def out_ok_def open_ok_def out_run_def in_len_abs out_len_abs
        desc_length_def newLength_def set_run_def)
qed

text \<open>Sets without changes are the identity.\<close>

lemma run_empty:
  assumes "desc_empty cs" "wf_set cs" "len d = desc_length cs"
  shows "set_run cs d = d" "newLength cs = desc_length cs"
proof -
  obtain secs where cs: "sections cs = secs" by simp
  have "secs = [] \<or> (\<exists>l n. secs = [(l, n)] \<and> n < 0)"
    using assms(1) by (cases secs) (auto simp: desc_empty_def cs)
  then show "set_run cs d = d" "newLength cs = desc_length cs"
    using assms(3) by (auto simp: set_run_def cs desc_length_def newLength_def)
qed

lemma out_ok_set: "out_ok secs ts \<Longrightarrow> wf_set (mk_set secs ts)"
  by (simp add: out_ok_def wf_set_def mk_set_def)

lemma compose_ok:
  assumes wf: "wf_set A" "wf_set B" and fit: "newLength A = desc_length B" and max: "newLength B \<le> MAX_TO"
  shows "\<exists>C. compose A B = Some (Inr C) \<and> wf_set C \<and> desc_length C = desc_length A \<and>
    newLength C = newLength B \<and> (\<forall>d. len d = desc_length A \<longrightarrow> set_run C d = set_run B (set_run A d))"
proof -
  have len_nat: "\<exists>d :: ustring. len d = desc_length A"
    using wf(1) sections_length_ge by (intro exI [of _ "replicate (nat (desc_length A)) 0"])
      (auto simp: wf_set_def desc_length_def)
  show ?thesis
  proof (cases "desc_empty A")
    case True
    then show ?thesis
      using run_empty [OF True wf(1)] len_nat wf fit by (auto simp: compose_def)
  next
    case A: False
    show ?thesis
    proof (cases "desc_empty B")
      case True
      have "newLength B = desc_length B"
        using run_empty(2) [OF True wf(2)] len_set_run [OF wf(1)] len_nat fit by metis
      moreover have "set_run B (set_run A d) = set_run A d" if "len d = desc_length A" for d
        using run_empty(1) [OF True wf(2)] len_set_run [OF wf(1) that] fit by simp
      ultimately show ?thesis using A True wf fit by (auto simp: compose_def)
    next
      case False
      then show ?thesis
        using A composeSets_ok [OF wf fit max] out_ok_set
        by (fastforce simp: compose_def mk_set_def desc_length_def newLength_def set_run_def out_run_def)
    qed
  qed
qed

end
