(* ===== verification/Editor_Change_Props.thy ===== *)
theory Editor_Change_Props
  imports Editor_Compose
begin

text \<open>
  The properties of change sets: applying, inverting and composing are operations on functions of texts;
  positions are mapped into the new document, in order; the JSON form loses nothing; \<open>ChangeSet.of\<close> builds
  the change it is asked for; and mapping over a set that does not fit does not return.
\<close>

text \<open>
  C28: A change set applied to a document of its length succeeds, and the new document's text is what the
  sections say: unaffected stretches are kept, replaced ones give way to the inserted texts. On a document
  of another length it is a \<open>RangeError\<close>.
\<close>

theorem apply_correct:
  assumes "wf_set cs" "wf_text d" "desc_length cs + newLength cs \<le> MAX_TO"
  shows "(tlength d = desc_length cs \<and>
      (\<exists>t. apply_set cs d = Some (Inr t) \<and> wf_text t \<and> doc t = set_run cs (doc d) \<and> tlength t = newLength cs)) \<or>
    (tlength d \<noteq> desc_length cs \<and> apply_set cs d = Some (Inl Wrong_length))"
proof (cases "tlength d = desc_length cs")
  case True
  then show ?thesis
    using apply_set_ok [OF assms(1,2) True assms(3)] len_set_run [OF assms(1), of "doc d"] assms(2)
    by (auto simp: wf_tlength_doc)
qed (simp add: apply_set_def)

theorem apply_correct_witness:
  "\<exists>t. apply_set (mk_set [(1, -1), (2, 1)] [empty_text, mk_leaf [[120]]]) (mk_leaf [[97, 98, 99]]) = Some (Inr t) \<and>
     doc t = [97, 120]"
  using apply_correct [of "mk_set [(1, -1), (2, 1)] [empty_text, mk_leaf [[120]]]" "mk_leaf [[97, 98, 99]]"]
  by (auto simp: wf_set_def mk_set_def sec_ok_def mk_leaf_def empty_text_def desc_length_def newLength_def
      MAX_TO_def set_run_def text_at_def doc_def)

text \<open>
  C30: \<open>invert\<close> gives a set that undoes the change: applied to the changed document it gives a document with
  the text of the original.
\<close>

theorem invert_undoes:
  assumes "wf_set cs" "wf_text d" "tlength d = desc_length cs" "desc_length cs + newLength cs \<le> MAX_TO"
  shows "\<exists>d' inv d''. apply_set cs d = Some (Inr d') \<and> invert cs d = Some inv \<and> wf_set inv \<and>
    apply_set inv d' = Some (Inr d'') \<and> doc d'' = doc d"
proof -
  obtain d' where d': "apply_set cs d = Some (Inr d')" "wf_text d'" "doc d' = set_run cs (doc d)"
    using apply_set_ok [OF assms] by blast
  obtain inv where inv: "invert cs d = Some inv" "wf_set inv" "desc_length inv = newLength cs"
    "newLength inv = desc_length cs" "set_run inv (set_run cs (doc d)) = doc d"
    using invert_ok [OF assms(1-3)] by blast
  have "tlength d' = desc_length inv"
    using d' inv(3) len_set_run [OF assms(1), of "doc d"] assms(2,3) by (simp add: wf_tlength_doc)
  then show ?thesis using apply_set_ok [OF inv(2) d'(2)] inv d' assms(4) by (auto simp: add.commute)
qed

theorem invert_undoes_witness:
  "\<exists>d' inv d''. apply_set (mk_set [(1, -1), (2, 1)] [empty_text, mk_leaf [[120]]]) (mk_leaf [[97, 98, 99]]) = Some (Inr d') \<and>
     invert (mk_set [(1, -1), (2, 1)] [empty_text, mk_leaf [[120]]]) (mk_leaf [[97, 98, 99]]) = Some inv \<and>
     wf_set inv \<and> apply_set inv d' = Some (Inr d'') \<and> doc d'' = doc (mk_leaf [[97, 98, 99]])"
  by (rule invert_undoes)
    (simp_all add: wf_set_def mk_set_def sec_ok_def mk_leaf_def empty_text_def desc_length_def newLength_def
      MAX_TO_def)

text \<open>
  C29: \<open>compose\<close> ends, raises nothing on sets that fit together, and its result, applied at once, gives the
  text that the two sets give one after the other.
\<close>

theorem compose_applies_both:
  assumes "wf_set A" "wf_set B" "newLength A = desc_length B" "wf_text d" "tlength d = desc_length A"
    and "desc_length A + newLength A \<le> MAX_TO" "desc_length B + newLength B \<le> MAX_TO"
      "desc_length A + newLength B \<le> MAX_TO"
  shows "\<exists>C d1 d2 d3. compose A B = Some (Inr C) \<and> wf_set C \<and> apply_set A d = Some (Inr d1) \<and>
    apply_set B d1 = Some (Inr d2) \<and> apply_set C d = Some (Inr d3) \<and> doc d3 = doc d2"
proof -
  have "0 \<le> desc_length B"
    using assms(2) sections_length_ge by (auto simp: wf_set_def desc_length_def)
  then obtain C where C: "compose A B = Some (Inr C)" "wf_set C" "desc_length C = desc_length A"
    "newLength C = newLength B" "\<And>d. len d = desc_length A \<Longrightarrow> set_run C d = set_run B (set_run A d)"
    using compose_ok [OF assms(1-3)] assms(7) by auto
  obtain d1 where d1: "apply_set A d = Some (Inr d1)" "wf_text d1" "doc d1 = set_run A (doc d)"
    using apply_set_ok [OF assms(1,4,5,6)] by blast
  have "tlength d1 = desc_length B"
    using d1 len_set_run [OF assms(1), of "doc d"] assms(3-5) by (simp add: wf_tlength_doc)
  then obtain d2 where d2: "apply_set B d1 = Some (Inr d2)" "doc d2 = set_run B (doc d1)"
    using apply_set_ok [OF assms(2) d1(2) _ assms(7)] by blast
  obtain d3 where d3: "apply_set C d = Some (Inr d3)" "doc d3 = set_run C (doc d)"
    using apply_set_ok [OF C(2) assms(4)] assms(5,8) C(3,4) by auto
  have "set_run C (doc d) = set_run B (set_run A (doc d))"
    using C(5) assms(4,5) by (simp add: wf_tlength_doc)
  then show ?thesis using C d1 d2 d3 by auto
qed

theorem compose_applies_both_witness:
  "\<exists>C d1 d2 d3. compose (mk_set [(1, -1), (2, 1)] [empty_text, mk_leaf [[120]]])
       (mk_set [(0, 1), (2, 0)] [mk_leaf [[121]]]) = Some (Inr C) \<and> wf_set C \<and>
     apply_set (mk_set [(1, -1), (2, 1)] [empty_text, mk_leaf [[120]]]) (mk_leaf [[97, 98, 99]]) = Some (Inr d1) \<and>
     apply_set (mk_set [(0, 1), (2, 0)] [mk_leaf [[121]]]) d1 = Some (Inr d2) \<and>
     apply_set C (mk_leaf [[97, 98, 99]]) = Some (Inr d3) \<and> doc d3 = doc d2"
  by (rule compose_applies_both)
    (simp_all add: wf_set_def mk_set_def sec_ok_def mk_leaf_def empty_text_def desc_length_def newLength_def
      MAX_TO_def)

subsection \<open>Positions\<close>

lemma mapPos_loop_bounds:
  assumes "wf_secs ts i secs" "posA \<le> pos" "pos \<le> posA + sections_length secs"
  shows "\<exists>p. mapPos_loop secs pos assoc Simple posA posB = Inr (Some p) \<and> posB \<le> p \<and>
    p \<le> posB + sections_newLength secs"
  using assms
proof (induction secs arbitrary: i posA posB)
  case (Cons sec secs)
  obtain l n where sec: "sec = (l, n)" by (cases sec)
  have ok: "0 \<le> l" "wf_secs ts (Suc i) secs" using Cons.prems(1) by (auto simp: sec sec_ok_def)
  note ge = sections_newLength_ge [OF ok(2)]
  show ?case
    using Cons.IH [OF ok(2), of "posA + l" "posB + l"] Cons.IH [OF ok(2), of "posA + l" "posB + n"]
      Cons.prems(2,3) ok(1) ge
    by (cases "n < 0"; cases "posA + l \<le> pos") (auto simp: sec Let_def)
qed simp

lemma mapPos_loop_mono:
  assumes "wf_secs ts i secs" "posA \<le> p1" "p1 \<le> p2" "p2 \<le> posA + sections_length secs"
    and "mapPos_loop secs p1 assoc Simple posA posB = Inr (Some q1)"
    and "mapPos_loop secs p2 assoc Simple posA posB = Inr (Some q2)"
  shows "q1 \<le> q2"
  using assms
proof (induction secs arbitrary: i posA posB)
  case (Cons sec secs)
  obtain l n where sec: "sec = (l, n)" by (cases sec)
  have ok: "0 \<le> l" "wf_secs ts (Suc i) secs" using Cons.prems(1) by (auto simp: sec sec_ok_def)
  note ge = sections_newLength_ge [OF ok(2)]
  show ?case
  proof (cases "n < 0")
    case True
    then show ?thesis
      using Cons.IH [OF ok(2), of "posA + l" "posB + l"] Cons.prems(2-) ok(1)
        mapPos_loop_bounds [OF ok(2), of "posA + l" p2 assoc "posB + l"]
      by (auto simp: sec Let_def split: if_splits)
  next
    case False
    then show ?thesis
      using Cons.IH [OF ok(2), of "posA + l" "posB + n"] Cons.prems(2-) ok(1)
        mapPos_loop_bounds [OF ok(2), of "posA + l" p2 assoc "posB + n"]
      by (auto simp: sec Let_def split: if_splits)
  qed
qed simp

lemma mapPos_loop_beyond:
  "wf_secs ts i secs \<Longrightarrow> posA + sections_length secs < pos \<Longrightarrow>
     mapPos_loop secs pos assoc mode posA posB = Inl (Out_of_range pos (posA + sections_length secs))"
proof (induction secs arbitrary: i posA posB)
  case (Cons sec secs)
  obtain l n where sec: "sec = (l, n)" by (cases sec)
  have ok: "0 \<le> l" "wf_secs ts (Suc i) secs" using Cons.prems(1) by (auto simp: sec sec_ok_def)
  show ?case
    using Cons.IH [OF ok(2), of "posA + l"] Cons.prems(2) ok(1) sections_length_ge [OF ok(2)]
    by (simp add: sec Let_def add.assoc)
qed simp

text \<open>
  C32: In its default mode \<open>mapPos\<close> maps every position of the old document to a position of the new one and keeps
  the order of positions. In every mode every position beyond the document is a \<open>RangeError\<close>.
\<close>

theorem mapPos_in_order:
  assumes "wf_set cs" "0 \<le> p1" "p1 \<le> p2" "p2 \<le> desc_length cs"
  shows "(\<exists>q1 q2. mapPos cs p1 assoc Simple = Inr (Some q1) \<and> mapPos cs p2 assoc Simple = Inr (Some q2) \<and>
      0 \<le> q1 \<and> q1 \<le> q2 \<and> q2 \<le> newLength cs) \<and>
    (\<forall>p mode. desc_length cs < p \<longrightarrow> mapPos cs p assoc mode = Inl (Out_of_range p (desc_length cs)))"
proof -
  have wf: "wf_secs (inserted cs) 0 (sections cs)" using assms(1) by (simp add: wf_set_def)
  obtain q1 where q1: "mapPos cs p1 assoc Simple = Inr (Some q1)" "0 \<le> q1"
    using mapPos_loop_bounds [OF wf, of 0 p1 assoc 0] assms by (auto simp: mapPos_def desc_length_def)
  obtain q2 where q2: "mapPos cs p2 assoc Simple = Inr (Some q2)" "q2 \<le> newLength cs"
    using mapPos_loop_bounds [OF wf, of 0 p2 assoc 0] assms by (auto simp: mapPos_def desc_length_def newLength_def)
  have "q1 \<le> q2"
    using mapPos_loop_mono [OF wf, of 0 p1 p2 assoc 0 q1 q2] assms q1 q2 by (simp add: mapPos_def desc_length_def)
  moreover have "mapPos cs p assoc mode = Inl (Out_of_range p (desc_length cs))" if "desc_length cs < p" for p mode
    using mapPos_loop_beyond [OF wf, of 0 p assoc mode 0] that by (simp add: mapPos_def desc_length_def)
  ultimately show ?thesis using q1 q2 by blast
qed

theorem mapPos_in_order_witness:
  "\<exists>q1 q2. mapPos (mk_set [(1, -1), (2, 0)] []) 1 (-1) Simple = Inr (Some q1) \<and>
     mapPos (mk_set [(1, -1), (2, 0)] []) 3 (-1) Simple = Inr (Some q2) \<and> 0 \<le> q1 \<and> q1 \<le> q2 \<and> q2 \<le> 1"
  using mapPos_in_order [of "mk_set [(1, -1), (2, 0)] []" 1 3 "-1"]
  by (auto simp: wf_set_def mk_set_def sec_ok_def desc_length_def newLength_def)

subsection \<open>The unchanged parts\<close>

lemma iterGaps_loop_same:
  assumes "wf_secs ts i secs" "len d = sections_length secs" "(a, b, l) \<in> set (iterGaps_loop secs posA posB)"
  shows "posA \<le> a \<and> posB \<le> b \<and> 0 < l \<and> a + l \<le> posA + sections_length secs \<and>
    take (nat l) (drop (nat (b - posB)) (run (abs_secs ts i secs) d)) = take (nat l) (drop (nat (a - posA)) d) \<and>
    (\<forall>k. 0 \<le> k \<and> k < l \<longrightarrow> mapPos_loop secs (a + k) 1 Simple posA posB = Inr (Some (b + k)))"
  using assms
proof (induction secs arbitrary: i d posA posB)
  case (Cons sec secs)
  obtain m n where sec: "sec = (m, n)" by (cases sec)
  have ok: "sec_ok ts i (m, n)" "0 \<le> m" "wf_secs ts (Suc i) secs" "n < 0 \<Longrightarrow> 0 < m"
    using Cons.prems(1) by (auto simp: sec sec_ok_def)
  note ge = sections_length_ge [OF ok(3)]
  have d': "len (drop (nat m) d) = sections_length secs" using Cons.prems(2) ok(2) ge by (simp add: sec)
  have drops: "drop (nat (x - (y + m))) (drop (nat m) e) = drop (nat (x - y)) e" if "y + m \<le> x"
    for x y and e :: ustring
    using that ok(2) by (simp add: nat_diff_distrib' [symmetric] flip: nat_add_distrib)
  show ?case
  proof (cases "n < 0")
    case True
    show ?thesis
    proof (cases "(a, b, l) = (posA, posB, m)")
      case head: True
      then show ?thesis using True ok ge Cons.prems(2) by (auto simp: sec Let_def)
    next
      case False
      then have mem: "(a, b, l) \<in> set (iterGaps_loop secs (posA + m) (posB + m))"
        using Cons.prems(3) True by (auto simp: sec)
      note IH = Cons.IH [OF ok(3) d' mem]
      have len_d: "length (take (nat m) d) = nat m" using Cons.prems(2) ge ok(2) by (simp add: sec)
      have "drop (nat (b - posB)) (take (nat m) d @ r) = drop (nat (b - (posB + m))) r" for r
        using IH len_d drops [of posB b "take (nat m) d @ r"] ok(2) by simp
      then show ?thesis
        using IH True ok(2) drops [of posA a d] by (auto simp: sec Let_def)
    qed
  next
    case False
    then have mem: "(a, b, l) \<in> set (iterGaps_loop secs (posA + m) (posB + n))"
      using Cons.prems(3) by (simp add: sec)
    note IH = Cons.IH [OF ok(3) d' mem]
    have t: "len (text_at ts i) = n" using text_at_len [OF ok(1)] False by simp
    have "drop (nat (b - posB)) (text_at ts i @ r) = drop (nat (b - (posB + n))) r" for r
    proof -
      have "nat (b - posB) = length (text_at ts i) + nat (b - (posB + n))" using IH t by linarith
      then show ?thesis by simp
    qed
    then show ?thesis
      using IH False ok(2) drops [of posA a d] by (auto simp: sec Let_def)
  qed
qed simp

text \<open>
  The gaps that \<open>iterGaps\<close> reports are unchanged: the new document has the same text there as the old
  one, and every position of a gap is mapped to its counterpart.
\<close>

theorem gaps_unchanged:
  assumes "wf_set cs" "len d = desc_length cs" "(a, b, l) \<in> set (iterGaps cs)"
  shows "0 \<le> a \<and> 0 \<le> b \<and> a + l \<le> desc_length cs \<and>
    take (nat l) (drop (nat b) (set_run cs d)) = take (nat l) (drop (nat a) d) \<and>
    (\<forall>k. 0 \<le> k \<and> k < l \<longrightarrow> mapPos cs (a + k) 1 Simple = Inr (Some (b + k)))"
proof -
  have "wf_secs (inserted cs) 0 (sections cs)" using assms(1) by (simp add: wf_set_def)
  from iterGaps_loop_same [OF this, of d a b l 0 0] assms show ?thesis
    by (simp add: desc_length_def iterGaps_def set_run_def mapPos_def)
qed

theorem gaps_unchanged_witness:
  "take 1 (drop 1 (set_run (mk_set [(2, 1), (1, -1)] [mk_leaf [[120]]]) [97, 98, 99])) = [99] \<and>
   mapPos (mk_set [(2, 1), (1, -1)] [mk_leaf [[120]]]) 2 1 Simple = Inr (Some 1)"
  using gaps_unchanged [of "mk_set [(2, 1), (1, -1)] [mk_leaf [[120]]]" "[97, 98, 99]" 2 1 1]
  by (auto simp: wf_set_def mk_set_def sec_ok_def mk_leaf_def desc_length_def iterGaps_def)

subsection \<open>The JSON form\<close>

lemma json_loop_ok:
  assumes "wf_secs us i secs" "length ts \<le> i"
  shows "\<exists>ps ts'. set_toJSON_loop secs us i = Some ps \<and>
    set_fromJSON_loop ps i secs0 ts = Some (Inr (mk_set (secs0 @ secs) ts')) \<and>
    padded ts i ts' \<and> length ts' \<le> i + length secs \<and>
    wf_secs ts' i secs \<and> abs_secs ts' i secs = abs_secs us i secs"
  using assms
proof (induction secs arbitrary: i secs0 ts)
  case Nil
  then show ?case by (auto simp: padded_def)
next
  case (Cons sec secs)
  obtain l n where sec: "sec = (l, n)" by (cases sec)
  have ok: "sec_ok us i (l, n)" "wf_secs us (Suc i) secs" using Cons.prems(1) by (simp_all add: sec)
  show ?case
  proof (cases "n \<le> 0")
    case True
    obtain ps ts' where IH: "set_toJSON_loop secs us (Suc i) = Some ps"
      "set_fromJSON_loop ps (Suc i) (secs0 @ [(l, n)]) ts = Some (Inr (mk_set ((secs0 @ [(l, n)]) @ secs) ts'))"
      "padded ts (Suc i) ts'" "length ts' \<le> Suc i + length secs"
      "wf_secs ts' (Suc i) secs" "abs_secs ts' (Suc i) secs = abs_secs us (Suc i) secs"
      using Cons.IH [OF ok(2), of ts "secs0 @ [(l, n)]"] Cons.prems(2) by auto
    have "sec_ok ts' i (l, n)"
      using True ok(1) IH(3) Cons.prems(2) by (auto simp: sec_ok_def padded_def)
    moreover have "text_at ts' i = []" "text_at us i = []"
      using calculation True ok(1) text_at_len [of ts' i l n] text_at_len [of us i l n] by simp_all
    moreover have "padded ts i ts'" using IH(3) by (auto simp: padded_def)
    moreover have "n < 0 \<Longrightarrow> n = -1" using ok(1) by (simp add: sec_ok_def)
    ultimately show ?thesis using True IH by (cases "n < 0") (auto simp: sec)
  next
    case False
    then have u: "i < length us" "wf_text (us ! i)" "tlength (us ! i) = n"
      using ok(1) by (auto simp: sec_ok_def split: if_splits)
    obtain t where t: "text_of (flatten (us ! i)) = Inr (Some t)" "wf_text t" "flatten t = flatten (us ! i)"
      using text_of_ok [OF wf_flatten [OF u(2)]] by blast
    then have tn: "tlength t = n" "doc t = doc (us ! i)" using u by (simp_all add: wf_tlength doc_def)
    let ?ts = "ts @ replicate (i - length ts) empty_text @ [t]"
    obtain ps ts' where IH: "set_toJSON_loop secs us (Suc i) = Some ps"
      "set_fromJSON_loop ps (Suc i) (secs0 @ [(l, n)]) ?ts = Some (Inr (mk_set ((secs0 @ [(l, n)]) @ secs) ts'))"
      "padded ?ts (Suc i) ts'" "length ts' \<le> Suc i + length secs"
      "wf_secs ts' (Suc i) secs" "abs_secs ts' (Suc i) secs = abs_secs us (Suc i) secs"
      using Cons.IH [OF ok(2), of ?ts "secs0 @ [(l, n)]"] Cons.prems(2) by auto
    note at = padded_step [OF IH(3) Cons.prems(2)]
    have "sec_ok ts' i (l, n)" using ok(1) at(2,3) t(2) tn False by (simp add: sec_ok_def)
    moreover have "text_at ts' i = text_at us i" using at(2,3) tn u(1) by (simp add: text_at_def)
    ultimately show ?thesis
      using False IH at(1) u(1) t(1) tn(1) wf_flatten [OF u(2)]
      by (simp add: sec text_toJSON_def) (intro exI [of _ ts'], simp)
  qed
qed

text \<open>
  \<open>fromJSON\<close> reads what \<open>toJSON\<close> writes: the same sections, and the same function on texts. A value that
  is no array, or has another kind of element, is a \<open>RangeError\<close>.
\<close>

theorem set_json_roundtrip:
  assumes "wf_set cs"
  shows "\<exists>ps cs'. set_toJSON cs = Some ps \<and> set_fromJSON (Some ps) = Some (Inr cs') \<and> wf_set cs' \<and>
    sections cs' = sections cs \<and> set_run cs' d = set_run cs d \<and>
    set_fromJSON None = Some (Inl Invalid_json) \<and> set_fromJSON (Some (Other_part # ps)) = Some (Inl Invalid_json)"
  using json_loop_ok [of "inserted cs" 0 "sections cs" "[]" "[]"] assms
  by (auto simp: set_toJSON_def set_fromJSON_def wf_set_def mk_set_def set_run_def)

theorem set_json_roundtrip_witness:
  "\<exists>ps cs'. set_toJSON (mk_set [(1, -1), (2, 1)] [empty_text, mk_leaf [[120]]]) = Some ps \<and>
     set_fromJSON (Some ps) = Some (Inr cs') \<and> sections cs' = [(1, -1), (2, 1)] \<and>
     set_run cs' [97, 98, 99] = [97, 120]"
  using set_json_roundtrip [of "mk_set [(1, -1), (2, 1)] [empty_text, mk_leaf [[120]]]" "[97, 98, 99]"]
  by (fastforce simp: wf_set_def mk_set_def sec_ok_def mk_leaf_def empty_text_def set_run_def text_at_def doc_def)

subsection \<open>\<open>ChangeSet.of\<close>\<close>

definition fresh_of :: of_state where
  "fresh_of = \<lparr>of_sections = [], of_inserted = [], of_pos = 0, of_total = None\<rparr>"

lemma of_range_fresh:
  assumes "0 \<le> fr" "fr \<le> to" "to \<le> l" "\<not> (fr = to \<and> tlength t = 0)" "0 \<le> tlength t"
  shows "of_range l sep fr (Some to) (Insert_text t) fresh_of = Some (Inr
    (fresh_of\<lparr>of_sections := (if 0 < fr then [(fr, -1)] else []) @ [(to - fr, tlength t)],
      of_inserted := (if 0 < tlength t then (if 0 < fr then [empty_text] else []) @ [t] else []),
      of_pos := to\<rparr>))"
  using assms
  by (cases "0 < fr"; cases "tlength t = 0")
    (simp_all add: of_range_def fresh_of_def insert_text_def addSection_def addInsert_def)

lemma of_flush_first:
  assumes "of_sections st \<noteq> []" "of_total st = None" "of_pos st \<le> l" "0 \<le> snd (last (of_sections st))"
  shows "of_flush l force st = Some (Inr (fresh_of\<lparr>of_total := Some
    (mk_set (of_sections st @ (if of_pos st < l then [(l - of_pos st, -1)] else [])) (of_inserted st))\<rparr>))"
  using assms by (auto simp: of_flush_def of_add_total_def fresh_of_def addSection_def Let_def)

lemma single_change:
  assumes "wf_text t" "0 \<le> fr" "fr \<le> to" "to \<le> l" "\<not> (fr = to \<and> tlength t = 0)"
  defines "cs \<equiv> mk_set ((if 0 < fr then [(fr, -1)] else []) @ [(to - fr, tlength t)] @ (if to < l then [(l - to, -1)] else []))
    (if 0 < tlength t then (if 0 < fr then [empty_text] else []) @ [t] else [])"
  shows "wf_set cs" "desc_length cs = l" "newLength cs = l - (to - fr) + tlength t"
    "len d = l \<Longrightarrow> set_run cs d = take (nat fr) d @ doc t @ drop (nat to) d"
proof -
  have tl: "0 \<le> tlength t" using wf_tlength_ge [OF assms(1)] .
  show "wf_set cs"
    using assms(1-4) tl unfolding cs_def
    by (cases "0 < fr"; cases "tlength t = 0") (simp_all add: wf_set_def mk_set_def sec_ok_def)
  show "desc_length cs = l" "newLength cs = l - (to - fr) + tlength t"
    using assms(2-4) tl unfolding cs_def by (auto simp: desc_length_def newLength_def mk_set_def)
  show "set_run cs d = take (nat fr) d @ doc t @ drop (nat to) d" if d: "len d = l"
  proof -
    have "(if 0 < tlength t then doc t else []) = doc t"
      using wf_tlength_doc [OF assms(1)] tl by (cases "doc t") auto
    moreover have "take (nat (l - to)) (drop (nat to) d) = drop (nat to) d" using d assms(2-4) by simp
    moreover have "drop (nat (to - fr)) (drop (nat fr) d) = drop (nat to) d"
      using assms(2,3) by (simp add: nat_diff_distrib)
    moreover have "\<not> to < l \<Longrightarrow> drop (nat to) d = []" using d assms(4) by simp
    moreover have "nat to - nat fr + nat fr = nat to" using assms(2,3) by simp
    ultimately show ?thesis
      using tl assms(2-4) unfolding cs_def
      by (cases "0 < fr"; cases "to < l"; cases "0 < tlength t")
        (simp_all add: set_run_def mk_set_def text_at_def nat_diff_distrib)
  qed
qed

text \<open>
  \<open>ChangeSet.of\<close> for one range of a document of length \<open>l\<close>: an invalid range is a \<open>RangeError\<close>, and any
  other gives a well-formed set for documents of that length that replaces the range by the inserted text.
\<close>

theorem of_range_correct:
  assumes "wf_text t" "0 \<le> l"
  shows "(if fr > to \<or> fr < 0 \<or> to > l
      then set_of (Spec_range fr (Some to) (Insert_text t)) l sep = Some (Inl (Invalid_range fr to l))
      else \<exists>cs. set_of (Spec_range fr (Some to) (Insert_text t)) l sep = Some (Inr cs) \<and> wf_set cs \<and>
        desc_length cs = l \<and> newLength cs = l - (to - fr) + tlength t \<and>
        (len d = l \<longrightarrow> set_run cs d = take (nat fr) d @ doc t @ drop (nat to) d))"
proof (cases "fr > to \<or> fr < 0 \<or> to > l")
  case True
  then show ?thesis by (auto simp: set_of_def of_range_def Let_def)
next
  case valid: False
  then have r: "0 \<le> fr" "fr \<le> to" "to \<le> l" by simp_all
  have tl: "0 \<le> tlength t" using wf_tlength_ge [OF assms(1)] .
  have dt: "len (doc t) = tlength t" using assms(1) by (simp add: wf_tlength_doc)
  show ?thesis
  proof (cases "fr = to \<and> tlength t = 0")
    case True
    then have "doc t = []" using dt by simp
    have "set_of (Spec_range fr (Some to) (Insert_text t)) l sep = Some (Inr (mk_set (if 0 < l then [(l, -1)] else []) []))"
      using valid True assms(2)
      by (auto simp: set_of_def of_range_def insert_text_def of_flush_def of_add_total_def addSection_def Let_def)
    then show ?thesis
      using valid True \<open>doc t = []\<close> assms(2)
      by (auto simp: wf_set_def mk_set_def sec_ok_def desc_length_def newLength_def set_run_def)
  next
    case change: False
    let ?pre = "if 0 < fr then [(fr, -1)] else []" and ?post = "if to < l then [(l - to, -1)] else []"
    let ?ts = "if 0 < tlength t then (if 0 < fr then [empty_text] else []) @ [t] else []"
    define st where "st = fresh_of\<lparr>of_sections := ?pre @ [(to - fr, tlength t)], of_inserted := ?ts, of_pos := to\<rparr>"
    have "of_range l sep fr (Some to) (Insert_text t) fresh_of = Some (Inr st)"
      unfolding st_def using of_range_fresh [OF r change tl] .
    moreover have "of_flush l True st = Some (Inr (fresh_of\<lparr>of_total := Some
        (mk_set ((?pre @ [(to - fr, tlength t)]) @ ?post) ?ts)\<rparr>))"
      using of_flush_first [where st = st and l = l and force = True] r(3) tl by (simp add: st_def fresh_of_def)
    moreover have "of_total st = None" by (simp add: st_def fresh_of_def)
    ultimately have "set_of (Spec_range fr (Some to) (Insert_text t)) l sep
        = Some (Inr (mk_set (?pre @ [(to - fr, tlength t)] @ ?post) ?ts))"
      by (simp add: set_of_def fresh_of_def [symmetric])
    then show ?thesis using valid single_change [OF assms(1) r change] by auto
  qed
qed

theorem of_range_correct_witness:
  "(\<exists>cs. set_of (Spec_range 1 (Some 3) (Insert_text (mk_leaf [[120]]))) 4 None = Some (Inr cs) \<and>
      set_run cs [97, 98, 99, 100] = [97, 120, 100]) \<and>
   set_of (Spec_range 3 (Some 5) (Insert_text (mk_leaf [[120]]))) 4 None = Some (Inl (Invalid_range 3 5 4))"
  using of_range_correct [of "mk_leaf [[120]]" 4 3 1 None "[97, 98, 99, 100]"]
    of_range_correct [of "mk_leaf [[120]]" 4 5 3 None "[]"]
  by (auto simp: mk_leaf_def doc_def numeral_3_eq_3)

subsection \<open>Mapping over a set that does not fit\<close>

definition left_in :: "section_iter \<Rightarrow> int" where
  "left_in it = it_len it + sections_length (drop (it_i it) (it_sections it))"

lemma left_in_next:
  assumes "wf_secs (it_inserted it) 0 (it_sections it)"
  shows "left_in (iter_next it) = left_in it - it_len it \<and> 0 \<le> it_len (iter_next it) \<and> 0 \<le> left_in (iter_next it) - it_len (iter_next it) \<and>
    it_sections (iter_next it) = it_sections it \<and> it_inserted (iter_next it) = it_inserted it"
proof -
  have ge: "0 \<le> sections_length (drop k (it_sections it))" for k
    using sections_length_ge [OF wf_drop [OF assms]] .
  show ?thesis
  proof (cases "it_i it < length (it_sections it)")
    case True
    obtain l n where sec: "it_sections it ! it_i it = (l, n)" by (cases "it_sections it ! it_i it")
    have "0 \<le> l" using wf_nth [OF assms True] sec by (simp add: sec_ok_def)
    moreover have "drop (it_i it) (it_sections it) = (l, n) # drop (Suc (it_i it)) (it_sections it)"
      using True sec by (simp add: Cons_nth_drop_Suc [symmetric])
    ultimately show ?thesis using True sec ge by (simp add: iter_next_def left_in_def)
  qed (simp add: iter_next_def left_in_def)
qed

text \<open>An iterator with less input than the loop wants: it is used up before the loop ends.\<close>

definition starving :: "int \<Rightarrow> section_iter \<Rightarrow> bool" where
  "starving l it \<longleftrightarrow> wf_secs (it_inserted it) 0 (it_sections it) \<and> 0 \<le> it_len it \<and> it_len it \<le> left_in it \<and>
     left_in it < l"

lemma starving_next: "starving l it \<Longrightarrow> starving (l - it_len it) (iter_next it)"
  using left_in_next [of it] by (auto simp: starving_def)

text \<open>So many rounds of the inner loop of \<open>mapSet\<close>; \<open>None\<close> if one throws or the loop has ended.\<close>

fun skip_rounds :: "nat \<Rightarrow> bool \<Rightarrow> int \<times> map_state \<Rightarrow> (int \<times> map_state) option" where
  "skip_rounds 0 mkSet s = Some s"
| "skip_rounds (Suc k) mkSet s =
     (if fst s = 0 then None else Option.bind (map_skip_round mkSet s) (skip_rounds k mkSet))"

text \<open>A loop that ends has ended after some number of rounds.\<close>

lemma map_skip_rounds: "map_skip mkSet l st = Some st' \<Longrightarrow> \<exists>k. skip_rounds k mkSet (l, st) = Some (0, st')"
proof (rule map_skip.raw_induct [where P = "\<lambda>mkSet l st st'. \<exists>k. skip_rounds k mkSet (l, st) = Some (0, st')"])
  fix skip and mkSet and l and st st' :: map_state
  assume IH: "\<And>mkSet l st st'. skip mkSet l st = Some st' \<Longrightarrow> \<exists>k. skip_rounds k mkSet (l, st) = Some (0, st')"
    and body: "(if l = 0 then Some st
      else (case map_skip_round mkSet (l, st) of None \<Rightarrow> None | Some s \<Rightarrow> skip mkSet (fst s) (snd s))) = Some st'"
  show "\<exists>k. skip_rounds k mkSet (l, st) = Some (0, st')"
  proof (cases "l = 0")
    case True
    then show ?thesis using body by (intro exI [of _ 0]) simp
  next
    case False
    then obtain s where s: "map_skip_round mkSet (l, st) = Some s" "skip mkSet (fst s) (snd s) = Some st'"
      using body by (auto split: option.splits)
    then obtain k where "skip_rounds k mkSet s = Some (0, st')" using IH by force
    then show ?thesis using s(1) False by (intro exI [of _ "Suc k"]) simp
  qed
qed

lemma skip_rounds_bounded:
  "\<forall>k. \<exists>l' st'. skip_rounds k mkSet (l, st) = Some (l', st') \<and> 0 < l' \<Longrightarrow> map_skip mkSet l st = None"
proof (cases "map_skip mkSet l st")
  case (Some st')
  assume all: "\<forall>k. \<exists>l' st'. skip_rounds k mkSet (l, st) = Some (l', st') \<and> 0 < l'"
  obtain k where "skip_rounds k mkSet (l, st) = Some (0, st')" using map_skip_rounds [OF Some] by blast
  then show ?thesis using spec [OF all, of k] by simp
qed

text \<open>
  The iterator stands at the start of a section or behind the last one, and what has been written is well-formed,
  with room for the rest: then a round of the loop works.
\<close>

definition at_section :: "section_iter \<Rightarrow> bool" where
  "at_section it \<longleftrightarrow> it_ins it = -2 \<or>
     0 < it_i it \<and> it_i it \<le> length (it_sections it) \<and> (it_len it, it_ins it) = it_sections it ! (it_i it - 1)"

definition to_insert :: "section_iter \<Rightarrow> int" where
  "to_insert it = max 0 (it_ins it) + sections_newLength (drop (it_i it) (it_sections it))"

definition hungry :: "int \<Rightarrow> map_state \<Rightarrow> bool" where
  "hungry l st \<longleftrightarrow> starving l (mp_a st) \<and> at_section (mp_a st) \<and> out_ok (mp_sections st) (mp_insert st) \<and>
     sections_newLength (mp_sections st) + to_insert (mp_a st) \<le> MAX_TO"

lemma at_section_next: "wf_secs (it_inserted it) 0 (it_sections it) \<Longrightarrow> at_section (iter_next it) \<and>
    to_insert (iter_next it) \<le> to_insert it - max 0 (it_ins it)"
proof -
  assume wf: "wf_secs (it_inserted it) 0 (it_sections it)"
  show ?thesis
  proof (cases "it_i it < length (it_sections it)")
    case True
    obtain l n where sec: "it_sections it ! it_i it = (l, n)" by (cases "it_sections it ! it_i it")
    have "0 \<le> l" using wf_nth [OF wf True] sec by (simp add: sec_ok_def)
    moreover have "drop (it_i it) (it_sections it) = (l, n) # drop (Suc (it_i it)) (it_sections it)"
      using True sec by (simp add: Cons_nth_drop_Suc [symmetric])
    ultimately show ?thesis using True sec by (simp add: iter_next_def at_section_def to_insert_def)
  qed (simp add: iter_next_def at_section_def to_insert_def)
qed

lemma hungry_round:
  assumes "hungry l st"
  shows "\<exists>s. map_skip_round True (l, st) = Some s \<and> 0 < fst s \<and> hungry (fst s) (snd s)"
proof -
  let ?a = "mp_a st"
  have h: "starving l ?a" "at_section ?a" "out_ok (mp_sections st) (mp_insert st)"
    "sections_newLength (mp_sections st) + to_insert ?a \<le> MAX_TO" using assms by (simp_all add: hungry_def)
  have wf: "wf_secs (it_inserted ?a) 0 (it_sections ?a)" "it_len ?a < l" using h(1) by (auto simp: starving_def)
  have piece: "min (it_len ?a) l = it_len ?a" using wf(2) by simp
  have nxt: "iter_forward ?a (it_len ?a) = iter_next ?a" by (simp add: iter_forward_def)
  have n: "starving (l - it_len ?a) (iter_next ?a)" "at_section (iter_next ?a)"
    "to_insert (iter_next ?a) \<le> to_insert ?a - max 0 (it_ins ?a)" "0 < l - it_len ?a"
    using starving_next [OF h(1)] at_section_next [OF wf(1)] wf(2) by simp_all
  show ?thesis
  proof (cases "0 \<le> it_ins ?a \<and> mp_inserted st < int (it_i ?a)")
    case False
    then have "map_skip_round True (l, st) = Some (l - it_len ?a, st\<lparr>mp_a := iter_next ?a\<rparr>)"
      by (auto simp: map_skip_round_def piece nxt Let_def)
    then show ?thesis using n h(3,4) by (auto simp: hungry_def)
  next
    case True
    have pos: "0 < it_i ?a" "it_i ?a \<le> length (it_sections ?a)" "(it_len ?a, it_ins ?a) = it_sections ?a ! (it_i ?a - 1)"
      using h(2) True by (auto simp: at_section_def)
    have sec: "sec_ok (it_inserted ?a) (it_i ?a - 1) (it_len ?a, it_ins ?a)"
      using wf_nth [OF wf(1), of "it_i ?a - 1"] pos by simp
    obtain v where v: "iter_text ?a = Some v" "0 < it_ins ?a \<longrightarrow> wf_text v \<and> tlength v = it_ins ?a"
      "it_ins ?a \<le> 0 \<longrightarrow> tlength v = 0"
      using sec pos(1) by (auto simp: iter_text_def sec_ok_def not_le split: if_splits)
    have small: "sections_newLength (mp_sections st) \<le> MAX_TO" "it_ins ?a \<le> MAX_TO"
      using h(3,4) sections_newLength_ge [OF wf_drop [OF wf(1), of "it_i ?a"]] sections_newLength_ge [of "mp_insert st" 0 "mp_sections st"]
      by (auto simp: to_insert_def out_ok_def)
    obtain ts where ts: "addInsert (mp_insert st) (addSection (mp_sections st) 0 (it_ins ?a) False) v = Some ts"
      "emitted (mp_sections st) (mp_insert st) 0 (it_ins ?a) False (if 0 < it_ins ?a then doc v else [])
         (addSection (mp_sections st) 0 (it_ins ?a) False) ts"
      using emit_ok [OF h(3), of 0 "it_ins ?a" False v] v True small by auto
    let ?st = "st\<lparr>mp_sections := addSection (mp_sections st) 0 (it_ins ?a) False, mp_insert := ts,
      mp_inserted := int (it_i ?a), mp_a := iter_next ?a\<rparr>"
    have "map_skip_round True (l, st) = Some (l - it_len ?a, ?st)"
      using True v(1) ts(1) wf(2) by (simp add: map_skip_round_def piece nxt put_insert_def Let_def)
    moreover have "hungry (l - it_len ?a) ?st"
      using n h(4) ts(2) True by (simp add: hungry_def emitted_def)
    ultimately show ?thesis using n(4) by auto
  qed
qed

lemma hungry_rounds: "hungry l st \<Longrightarrow> 0 < l \<Longrightarrow> \<exists>l' st'. skip_rounds k True (l, st) = Some (l', st') \<and> 0 < l'"
proof (induction k arbitrary: l st)
  case (Suc k)
  obtain s where s: "map_skip_round True (l, st) = Some s" "0 < fst s" "hungry (fst s) (snd s)"
    using hungry_round [OF Suc.prems(1)] by blast
  then show ?case using Suc.IH [of "fst s" "snd s"] Suc.prems(2) by simp
qed simp

text \<open>
  C33: Mapping a change set over one that does not fit can run for ever. If the first section of the set is
  unaffected and the first section of the other one replaces more characters than the whole document has, \<open>mapSet\<close>
  does not get to the check that raises the error for mismatched lengths: its inner loop takes pieces of length 0
  from an iterator that is done, and after any number of rounds it has thrown nothing and wants another one.
\<close>

theorem map_mismatch_hangs:
  assumes A: "wf_set A" "sections A = (m, -1) # secsA" and B: "sections B = (l, n) # secsB" "0 \<le> n"
    and l: "desc_length A < l" and small: "n + newLength A \<le> MAX_TO"
  shows "map_set A B before = None \<and>
    (\<forall>k. \<exists>l' st'. skip_rounds k True
       (l, \<lparr>mp_sections = addSection [] n (-1) False, mp_insert = [], mp_a = new_iter (sections A) (inserted A),
            mp_b = new_iter (sections B) [], mp_inserted = -1\<rparr>) = Some (l', st') \<and> 0 < l')"
proof -
  let ?a = "new_iter (sections A) (inserted A)" and ?b = "new_iter (sections B) []"
  let ?st = "\<lparr>mp_sections = addSection [] n (-1) False, mp_insert = [], mp_a = ?a, mp_b = ?b, mp_inserted = -1\<rparr>"
  have wf: "wf_secs (inserted A) 0 (sections A)" "0 < m" "0 \<le> sections_length secsA" "0 \<le> sections_newLength secsA"
    using A sections_length_ge sections_newLength_ge by (auto simp: wf_set_def sec_ok_def)
  have a: "it_ins ?a = -1" "it_len ?a = m" "left_in ?a = desc_length A" "it_i ?a = 1"
    "it_sections ?a = sections A" "it_inserted ?a = inserted A"
    using A(2) by (simp_all add: new_iter_def iter_next_def left_in_def desc_length_def)
  have b: "it_ins ?b = n" "it_len ?b = l" using B(1) by (simp_all add: new_iter_def iter_next_def)
  have "starving l ?a" using a wf A(2) l by (simp add: starving_def desc_length_def)
  moreover have "at_section ?a" using a A(2) by (simp add: at_section_def)
  moreover have "out_ok (mp_sections ?st) (mp_insert ?st)"
    "sections_newLength (mp_sections ?st) + to_insert ?a \<le> MAX_TO"
    using a A(2) B(2) small wf(2)
    by (auto simp: addSection_def out_ok_def sec_ok_def to_insert_def newLength_def)
  ultimately have "hungry l ?st" by (simp add: hungry_def)
  moreover have "0 < l" using l wf(2,3) A(2) by (simp add: desc_length_def)
  ultimately have rounds: "\<forall>k. \<exists>l' st'. skip_rounds k True (l, ?st) = Some (l', st') \<and> 0 < l'"
    using hungry_rounds by blast
  have "map_skip True l ?st = None" by (rule skip_rounds_bounded [OF rounds])
  moreover have "\<not> desc_empty B" using B by (simp add: desc_empty_def)
  moreover have "\<not> iter_done ?a" "\<not> iter_done ?b" using a b B(2) by (simp_all add: iter_done_def)
  ultimately show ?thesis
    using a b B(2) rounds
    by (simp add: map_set_def mapSet_def map_loop.simps [of before True] map_step_def Let_def)
qed

theorem map_mismatch_hangs_witness:
  "map_set (mk_set [(3, -1), (0, 1)] [empty_text, mk_leaf [[120]]]) (mk_set [(5, 0)] []) False = None"
  using map_mismatch_hangs [of "mk_set [(3, -1), (0, 1)] [empty_text, mk_leaf [[120]]]" 3 "[(0, 1)]"
      "mk_set [(5, 0)] []" 5 0 "[]" False]
  by (simp add: wf_set_def mk_set_def sec_ok_def mk_leaf_def empty_text_def desc_length_def newLength_def MAX_TO_def)

end
