(* ===== verification/Page_Controllers.thy ===== *)
theory Page_Controllers
  imports Terminal_Controller Editor_Change_Props
begin

text \<open>
  The application's own Stimulus controllers besides the terminal's: \<open>polling_controller.js\<close>,
  \<open>modal_controller.js\<close> and \<open>codemirror_controller.js\<close>, and their registration in \<open>controllers/index.js\<close>
  (all under \<open>app/javascript/controllers\<close>).

  A page is the part of the browser that a controller touches: timers, listeners on the document, the
  elements it looks up, and the calls it makes.
\<close>

subsection \<open>Registration\<close>

datatype controller_class = TerminalController | PollingController | ModalController | CodeMirrorController

text \<open>\<open>Application#register\<close> loads a definition; a later one with the same identifier replaces it.\<close>

definition register :: "string \<Rightarrow> controller_class \<Rightarrow> (string \<rightharpoonup> controller_class) \<Rightarrow> (string \<rightharpoonup> controller_class)" where
  "register ident c app = app(ident \<mapsto> c)"

definition application :: "string \<rightharpoonup> controller_class" where
  "application =
     register ''codemirror'' CodeMirrorController
       (register ''modal'' ModalController
         (register ''polling'' PollingController
           (register ''terminal'' TerminalController Map.empty)))"

subsection \<open>Polling\<close>

text \<open>
  A listener on the document is a function object: the \<open>n\<close>-th bound \<open>onVisibilityChange\<close>, or the arrow
  function that the \<open>n\<close>-th \<open>connect\<close> creates.
\<close>

datatype visibility_listener = Bound_handler nat | Refresh_handler nat

record polling_page =
  intervals :: "nat list"
  next_interval :: nat
  doc_listeners :: "visibility_listener list"
  visits :: "(ustring \<times> ustring) list"

record polling_ctl =
  poll_timer :: "nat option"
  handler :: nat
  connects :: nat

type_synonym polling = "polling_ctl \<times> polling_page"

text \<open>\<open>addEventListener\<close> ignores a listener that is registered already.\<close>

definition add_listener :: "visibility_listener \<Rightarrow> polling_page \<Rightarrow> polling_page" where
  "add_listener f p =
     (if f \<in> set (doc_listeners p) then p else p\<lparr>doc_listeners := doc_listeners p @ [f]\<rparr>)"

definition remove_listener :: "visibility_listener \<Rightarrow> polling_page \<Rightarrow> polling_page" where
  "remove_listener f p = p\<lparr>doc_listeners := filter (\<lambda>g. g \<noteq> f) (doc_listeners p)\<rparr>"

definition poll_start :: "polling \<Rightarrow> polling" where
  "poll_start s =
     (let (c, p) = s
      in if poll_timer c \<noteq> None then s
         else (c\<lparr>poll_timer := Some (next_interval p)\<rparr>,
               p\<lparr>intervals := intervals p @ [next_interval p], next_interval := Suc (next_interval p)\<rparr>))"

definition poll_stop :: "polling \<Rightarrow> polling" where
  "poll_stop s =
     (let (c, p) = s
      in case poll_timer c of
           None \<Rightarrow> s
         | Some t \<Rightarrow> (c\<lparr>poll_timer := None\<rparr>, p\<lparr>intervals := filter (\<lambda>i. i \<noteq> t) (intervals p)\<rparr>))"

text \<open>\<open>frames\<close> maps an id to the \<open>src\<close> of the frame with this id, if there is one.\<close>

definition poll_refresh :: "(ustring \<rightharpoonup> ustring) \<Rightarrow> ustring \<Rightarrow> polling \<Rightarrow> polling" where
  "poll_refresh frames frameId s =
     (let (c, p) = s
      in case frames frameId of
           None \<Rightarrow> s
         | Some src \<Rightarrow> (c, p\<lparr>visits := visits p @ [(src, frameId)]\<rparr>))"

definition poll_connect :: "polling \<Rightarrow> polling" where
  "poll_connect s =
     (let (c, p) = s;
          c1 = c\<lparr>poll_timer := None, handler := Suc (handler c), connects := Suc (connects c)\<rparr>;
          p1 = add_listener (Bound_handler (handler c1)) p;
          (c2, p2) = poll_start (c1, p1)
      in (c2, add_listener (Refresh_handler (connects c2)) p2))"

definition poll_disconnect :: "polling \<Rightarrow> polling" where
  "poll_disconnect s =
     (let (c, p) = poll_stop s in (c, remove_listener (Bound_handler (handler c)) p))"

definition onVisibilityChange :: "bool \<Rightarrow> polling \<Rightarrow> polling" where
  "onVisibilityChange hidden s = (if hidden then poll_stop s else poll_start s)"

text \<open>A \<open>visibilitychange\<close> event calls the listeners in the order of their registration.\<close>

definition call_listener ::
    "(ustring \<rightharpoonup> ustring) \<Rightarrow> ustring \<Rightarrow> bool \<Rightarrow> visibility_listener \<Rightarrow> polling \<Rightarrow> polling" where
  "call_listener frames frameId hidden f s =
     (case f of
        Bound_handler _ \<Rightarrow> onVisibilityChange hidden s
      | Refresh_handler _ \<Rightarrow> (if hidden then s else poll_refresh frames frameId s))"

definition visibility_event :: "(ustring \<rightharpoonup> ustring) \<Rightarrow> ustring \<Rightarrow> bool \<Rightarrow> polling \<Rightarrow> polling" where
  "visibility_event frames frameId hidden s =
     fold (call_listener frames frameId hidden) (doc_listeners (snd s)) s"

definition tick_event :: "(ustring \<rightharpoonup> ustring) \<Rightarrow> ustring \<Rightarrow> nat \<Rightarrow> polling \<Rightarrow> polling" where
  "tick_event frames frameId i s =
     (if i \<in> set (intervals (snd s)) then poll_refresh frames frameId s else s)"

definition fresh_polling :: polling where
  "fresh_polling =
     (\<lparr>poll_timer = None, handler = 0, connects = 0\<rparr>,
      \<lparr>intervals = [], next_interval = 1, doc_listeners = [], visits = []\<rparr>)"

subsection \<open>Modals\<close>

text \<open>An element found by its id: whether it has \<open>showModal\<close> and \<open>close\<close> functions, and whether it is shown.\<close>

record dialog =
  has_showModal :: bool
  has_close :: bool
  shown :: bool

definition modal_id :: "ustring \<Rightarrow> ustring" where
  "modal_id idValue = (if idValue = [] then ustr ''create-vm-modal'' else idValue)"

definition modal_open :: "ustring \<Rightarrow> (ustring \<rightharpoonup> dialog) \<Rightarrow> (ustring \<rightharpoonup> dialog)" where
  "modal_open idValue els =
     (case els (modal_id idValue) of
        None \<Rightarrow> els
      | Some m \<Rightarrow> (if has_showModal m then els(modal_id idValue \<mapsto> m\<lparr>shown := True\<rparr>) else els))"

text \<open>\<open>None\<close> is the \<open>TypeError\<close> of an element without \<open>close\<close>.\<close>

definition modal_close :: "ustring \<Rightarrow> (ustring \<rightharpoonup> dialog) \<Rightarrow> (ustring \<rightharpoonup> dialog) option" where
  "modal_close idValue els =
     (case els (modal_id idValue) of
        None \<Rightarrow> Some els
      | Some m \<Rightarrow> (if has_close m then Some (els(modal_id idValue \<mapsto> m\<lparr>shown := False\<rparr>)) else None))"

subsection \<open>The YAML editor\<close>

text \<open>What the controller puts into the editor, in order.\<close>

datatype editor_extension =
    Line_numbers | Highlight_active_line | Draw_selection | Indent_unit string | Indentation_markers
  | Yaml_language | Syntax_highlighting | Yaml_linter | Line_wrapping | Theme | Update_listener

definition editor_extensions :: "editor_extension list" where
  "editor_extensions =
     [Line_numbers, Highlight_active_line, Draw_selection, Indent_unit ''  '', Indentation_markers,
      Yaml_language, Syntax_highlighting, Yaml_linter, Line_wrapping, Theme, Update_listener]"

record yaml_editor =
  ed_doc :: text_tree
  ed_extensions :: "editor_extension list"
  ed_alive :: bool
  textarea_value :: ustring
  textarea_hidden :: bool

text \<open>\<open>EditorState.create\<close> splits the text of the textarea into lines.\<close>

definition cm_connect :: "ustring \<Rightarrow> yaml_editor option" where
  "cm_connect val =
     (case text_of (split_default val []) of
        Inr (Some t) \<Rightarrow>
          Some \<lparr>ed_doc = t, ed_extensions = editor_extensions, ed_alive = True, textarea_value = val,
                textarea_hidden = True\<rparr>
      | _ \<Rightarrow> None)"

text \<open>
  A transaction of the editor with the changes \<open>cs\<close>; the update listener copies the document when it
  changed.
\<close>

definition cm_update :: "change_set \<Rightarrow> yaml_editor \<Rightarrow> yaml_editor outcome" where
  "cm_update cs ed =
     bind_outcome (apply_set cs (ed_doc ed))
       (\<lambda>t. Some (Inr (if desc_empty cs then ed\<lparr>ed_doc := t\<rparr>
                       else ed\<lparr>ed_doc := t, textarea_value := toString t\<rparr>)))"

definition cm_disconnect :: "yaml_editor option \<Rightarrow> yaml_editor option" where
  "cm_disconnect ed = map_option (\<lambda>e. e\<lparr>ed_alive := False\<rparr>) ed"

fun cm_updates :: "change_set list \<Rightarrow> yaml_editor \<Rightarrow> yaml_editor outcome" where
  "cm_updates [] ed = Some (Inr ed)"
| "cm_updates (cs # css) ed = bind_outcome (cm_update cs ed) (cm_updates css)"

subsection \<open>The linter\<close>

text \<open>What \<open>load\<close> throws: a message and, for an error of the parser, a mark with the line from 0.\<close>

record yaml_exn =
  exn_mark :: "(int \<times> int) option"
  exn_message :: ustring

record diagnostic =
  diag_from :: int
  diag_to :: int
  diag_message :: ustring

text \<open>
  \<open>load\<close> is \<open>yamlLib.default\<close>: \<open>None\<close> when the module has no default export, so that reading \<open>load\<close> of it is
  a \<open>TypeError\<close>, which has no mark. The result is \<open>Inl\<close> when \<open>doc.line\<close> throws.
\<close>

definition load_error :: "(ustring \<Rightarrow> yaml_exn + 'v) option \<Rightarrow> ustring \<Rightarrow> ustring \<Rightarrow> yaml_exn option" where
  "load_error load type_error txt =
     (case load of
        None \<Rightarrow> Some \<lparr>exn_mark = None, exn_message = type_error\<rparr>
      | Some f \<Rightarrow> (case f txt of Inl e \<Rightarrow> Some e | Inr _ \<Rightarrow> None))"

definition line_match :: "yaml_exn \<Rightarrow> (int \<times> int) option" where
  "line_match e =
     (case exn_mark e of
        None \<Rightarrow> None
      | Some (l, c) \<Rightarrow> (if l = 0 then None else Some (l, c)))"

definition validateYaml ::
    "(ustring \<Rightarrow> yaml_exn + 'v) option \<Rightarrow> ustring \<Rightarrow> text_tree \<Rightarrow> (text_error + diagnostic list) option" where
  "validateYaml load type_error d =
     (case load_error load type_error (toString d) of
        None \<Rightarrow> Some (Inr [])
      | Some e \<Rightarrow>
          (case line_match e of
             None \<Rightarrow> Some (Inr [])
           | Some (l, c) \<Rightarrow>
               (case line_of d (l + 1) of
                  Inl err \<Rightarrow> Some (Inl err)
                | Inr None \<Rightarrow> None
                | Inr (Some lin) \<Rightarrow>
                    Some (Inr [\<lparr>diag_from = line_from lin + c, diag_to = line_from lin + c + 1,
                                diag_message = exn_message e\<rparr>]))))"

text \<open>
  The bundle that the page runs: js-yaml's module has no default export, and the bundler compiled
  \<open>yamlLib.default\<close> to \<open>(void 0)\<close>.
\<close>

definition bundled_load :: "(ustring \<Rightarrow> yaml_exn + unit) option" where
  "bundled_load = None"

subsection \<open>Properties of the polling controller\<close>

text \<open>
  The states of one controller on a page: Stimulus connects and disconnects it in turn, and the browser
  fires visibility changes and intervals at any time. The flag tells whether it is connected.
\<close>

inductive polling_reachable :: "(ustring \<rightharpoonup> ustring) \<Rightarrow> ustring \<Rightarrow> bool \<Rightarrow> polling \<Rightarrow> bool"
  for frames :: "ustring \<rightharpoonup> ustring" and frameId :: ustring where
  fresh: "polling_reachable frames frameId False fresh_polling"
| connected: "polling_reachable frames frameId False s \<Longrightarrow> polling_reachable frames frameId True (poll_connect s)"
| disconnected: "polling_reachable frames frameId True s \<Longrightarrow> polling_reachable frames frameId False (poll_disconnect s)"
| visibility: "polling_reachable frames frameId b s \<Longrightarrow>
    polling_reachable frames frameId b (visibility_event frames frameId hidden s)"
| interval: "polling_reachable frames frameId b s \<Longrightarrow>
    polling_reachable frames frameId b (tick_event frames frameId i s)"

fun is_refresh :: "visibility_listener \<Rightarrow> bool" where
  "is_refresh (Refresh_handler n) \<longleftrightarrow> True"
| "is_refresh (Bound_handler n) \<longleftrightarrow> False"

fun listener_ok :: "bool \<Rightarrow> nat \<Rightarrow> nat \<Rightarrow> visibility_listener \<Rightarrow> bool" where
  "listener_ok b h n (Refresh_handler m) \<longleftrightarrow> m \<le> n"
| "listener_ok b h n (Bound_handler m) \<longleftrightarrow> b \<and> m = h"

lemma listener_ok_connect: "listener_ok False h n f \<Longrightarrow> listener_ok b h' (Suc n) f"
  by (cases f) simp_all

lemma listener_ok_disconnect: "listener_ok True h n f \<Longrightarrow> f \<noteq> Bound_handler h \<Longrightarrow> listener_ok b h n f"
  by (cases f) simp_all

definition polling_inv :: "bool \<Rightarrow> polling \<Rightarrow> bool" where
  "polling_inv b s \<longleftrightarrow>
     intervals (snd s) = (case poll_timer (fst s) of None \<Rightarrow> [] | Some t \<Rightarrow> [t]) \<and>
     (\<not> b \<longrightarrow> poll_timer (fst s) = None) \<and>
     length (filter is_refresh (doc_listeners (snd s))) = connects (fst s) \<and>
     (\<forall>f \<in> set (doc_listeners (snd s)). listener_ok b (handler (fst s)) (connects (fst s)) f)"

named_theorems polling_defs
lemmas [polling_defs] = poll_start_def poll_stop_def poll_refresh_def onVisibilityChange_def add_listener_def
  remove_listener_def

lemma poll_stop_fields:
  "polling_inv b s \<Longrightarrow> intervals (snd (poll_stop s)) = [] \<and> poll_timer (fst (poll_stop s)) = None \<and>
     doc_listeners (snd (poll_stop s)) = doc_listeners (snd s) \<and> handler (fst (poll_stop s)) = handler (fst s) \<and>
     connects (fst (poll_stop s)) = connects (fst s) \<and> visits (snd (poll_stop s)) = visits (snd s)"
  by (cases s) (auto simp: polling_inv_def polling_defs split: option.splits)

lemma polling_inv_refresh: "polling_inv b s \<Longrightarrow> polling_inv b (poll_refresh frames frameId s)"
  by (cases s) (auto simp: polling_inv_def polling_defs split: option.splits)

lemma polling_inv_stop: "polling_inv b s \<Longrightarrow> polling_inv b (poll_stop s)"
  using poll_stop_fields [of b s] by (simp add: polling_inv_def)

lemma polling_inv_start: "polling_inv True s \<Longrightarrow> polling_inv True (poll_start s)"
  by (cases s) (auto simp: polling_inv_def polling_defs split: option.splits)

lemma polling_inv_call:
  assumes "polling_inv b s" "f \<in> set (doc_listeners (snd s))"
  shows "polling_inv b (call_listener frames frameId hidden f s) \<and>
    doc_listeners (snd (call_listener frames frameId hidden f s)) = doc_listeners (snd s)"
proof (cases f)
  case (Bound_handler n)
  then have "b" using assms by (auto simp: polling_inv_def)
  then show ?thesis
    using assms(1) polling_inv_stop [of True s] polling_inv_start [of s] poll_stop_fields [of True s] Bound_handler
    by (cases s) (auto simp: call_listener_def onVisibilityChange_def poll_start_def)
next
  case (Refresh_handler n)
  then show ?thesis
    using assms(1) polling_inv_refresh [of b s]
    by (cases s) (auto simp: call_listener_def poll_refresh_def split: option.splits)
qed

lemma polling_inv_calls:
  "polling_inv b s \<Longrightarrow> set fs \<subseteq> set (doc_listeners (snd s)) \<Longrightarrow>
     polling_inv b (fold (call_listener frames frameId hidden) fs s)"
proof (induction fs arbitrary: s)
  case (Cons f fs)
  then show ?case using polling_inv_call [of b s f frames frameId hidden] by simp
qed simp

lemma polling_inv_connect: "polling_inv False s \<Longrightarrow> polling_inv True (poll_connect s)"
  by (cases s) (auto simp: polling_inv_def poll_connect_def polling_defs Let_def dest: listener_ok_connect)

lemma polling_inv_disconnect:
  assumes "polling_inv True s" shows "polling_inv False (poll_disconnect s)"
proof -
  have "filter is_refresh (filter (\<lambda>g. g \<noteq> Bound_handler n) fs) = filter is_refresh fs" for n fs
    by (induction fs) auto
  then show ?thesis
    using poll_stop_fields [OF assms] assms
    by (cases "poll_stop s") (auto simp: polling_inv_def poll_disconnect_def remove_listener_def
        intro: listener_ok_disconnect)
qed

lemma polling_reachable_inv: "polling_reachable frames frameId b s \<Longrightarrow> polling_inv b s"
proof (induction rule: polling_reachable.induct)
  case fresh
  show ?case by (simp add: polling_inv_def fresh_polling_def)
next
  case (interval b s i)
  then show ?case using polling_inv_refresh by (simp add: tick_event_def)
qed (simp_all add: polling_inv_connect polling_inv_disconnect visibility_event_def polling_inv_calls)

lemma visits_calls:
  "frames frameId = Some src \<Longrightarrow>
     visits (snd (fold (call_listener frames frameId False) fs s))
       = visits (snd s) @ replicate (length (filter is_refresh fs)) (src, frameId)"
proof (induction fs arbitrary: s)
  case (Cons f fs)
  have "visits (snd (call_listener frames frameId False f s)) = visits (snd s) @ (if is_refresh f then [(src, frameId)] else [])"
    using Cons.prems by (cases s; cases f) (simp_all add: call_listener_def polling_defs)
  then show ?case using Cons by simp
qed simp

text \<open>
  However a polling controller is connected, disconnected, hidden and shown, it owns at most one running
  interval, none while it is disconnected, and the tick of an interval it does not own does nothing.
\<close>

theorem polling_one_timer:
  assumes "polling_reachable frames frameId b s"
  shows "length (intervals (snd s)) \<le> 1 \<and> (\<not> b \<longrightarrow> intervals (snd s) = []) \<and>
    (poll_timer (fst s) \<noteq> Some i \<longrightarrow> tick_event frames frameId i s = s)"
  using polling_reachable_inv [OF assms] by (auto simp: polling_inv_def tick_event_def split: option.splits)

theorem polling_one_timer_witness:
  "intervals (snd (poll_disconnect (poll_connect fresh_polling))) = []"
  using polling_one_timer [OF polling_reachable.disconnected [OF polling_reachable.connected [OF polling_reachable.fresh [of Map.empty "[]"]]]] by simp

text \<open>
  C35: The arrow function that \<open>connect\<close> registers is never removed: whenever the page becomes visible, the
  frame is visited once for every time the controller has ever been connected, also after it was
  disconnected.
\<close>

theorem polling_listener_leaks:
  assumes "polling_reachable frames frameId b s" "frames frameId = Some src"
  shows "visits (snd (visibility_event frames frameId False s))
    = visits (snd s) @ replicate (connects (fst s)) (src, frameId)"
  using polling_reachable_inv [OF assms(1)] visits_calls [of frames frameId src "doc_listeners (snd s)" s] assms(2)
  by (simp add: visibility_event_def polling_inv_def)

theorem polling_listener_leaks_witness:
  "let s = poll_disconnect (poll_connect (poll_disconnect (poll_connect fresh_polling)))
   in visits (snd (visibility_event [[1] \<mapsto> [2]] [1] False s)) = [([2], [1]), ([2], [1])]"
proof -
  have r: "polling_reachable [[1] \<mapsto> [2]] [1] False
      (poll_disconnect (poll_connect (poll_disconnect (poll_connect fresh_polling))))"
    by (intro polling_reachable.intros)
  show ?thesis
    using polling_listener_leaks [OF r, of "[2]"]
    by (simp add: poll_connect_def poll_disconnect_def fresh_polling_def polling_defs Let_def numeral_2_eq_2)
qed

subsection \<open>Properties of the YAML editor\<close>

lemma split_default_join:
  "13 \<notin> set s \<Longrightarrow> split_default s c \<noteq> [] \<and> join_nl (split_default s c) = c @ s"
  by (induction s c rule: split_default.induct) (auto simp: join_nl_Cons)

text \<open>Transactions that fit the document they are applied to.\<close>

fun updates_fit :: "change_set list \<Rightarrow> int \<Rightarrow> bool" where
  "updates_fit [] l \<longleftrightarrow> True"
| "updates_fit (cs # css) l \<longleftrightarrow>
     wf_set cs \<and> desc_length cs = l \<and> l + newLength cs \<le> MAX_TO \<and> updates_fit css (newLength cs)"

lemma cm_update_in_sync:
  assumes "wf_set cs" "desc_length cs = tlength (ed_doc ed)" "desc_length cs + newLength cs \<le> MAX_TO"
    and "wf_text (ed_doc ed)" "textarea_value ed = doc (ed_doc ed)"
  shows "\<exists>ed'. cm_update cs ed = Some (Inr ed') \<and> wf_text (ed_doc ed') \<and>
    textarea_value ed' = doc (ed_doc ed') \<and> doc (ed_doc ed') = set_run cs (doc (ed_doc ed)) \<and>
    tlength (ed_doc ed') = newLength cs"
proof -
  obtain t where t: "apply_set cs (ed_doc ed) = Some (Inr t)" "wf_text t" "doc t = set_run cs (doc (ed_doc ed))"
    using apply_set_ok [OF assms(1,4) assms(2) [symmetric] assms(3)] by blast
  have len_d: "len (doc (ed_doc ed)) = desc_length cs" using assms(2,4) by (simp add: wf_tlength_doc)
  have len: "tlength t = newLength cs"
    using t(2,3) len_set_run [OF assms(1) len_d] by (simp add: wf_tlength_doc)
  have "clip t 0 (tlength t) = (0, tlength t)" using wf_tlength_ge [OF t(2)] by (intro clip_same) simp_all
  then have "toString t = sub_list 0 (tlength t) (doc t)"
    unfolding toString_def by (rule sliceString_doc [OF t(2)])
  then have "toString t = doc t" using t(2) by (simp add: sub_list_def wf_tlength_doc)
  then show ?thesis
    using t len assms(5) run_empty(1) [OF _ assms(1) len_d] by (simp add: cm_update_def)
qed

text \<open>
  C34: The textarea that the form submits is in step with the editor: if its initial value has no carriage return (a
  browser gives the value of a textarea without), then after any sequence of transactions that fit, it holds the text
  of the editor's document, which is the initial value changed by all of them in turn, and it stays hidden.
\<close>

theorem textarea_in_sync:
  assumes "13 \<notin> set val" "updates_fit css (len val)"
  shows "\<exists>ed ed'. cm_connect val = Some ed \<and> cm_updates css ed = Some (Inr ed') \<and>
    textarea_value ed' = fold set_run css val \<and> toString (ed_doc ed') = textarea_value ed' \<and> textarea_hidden ed'"
proof -
  obtain t where t: "text_of (split_default val []) = Inr (Some t)" "wf_text t" "doc t = val"
    using text_of_ok [of "split_default val []"] split_default_join [OF assms(1), of "[]"] by (auto simp: doc_def)
  have str: "toString d = doc d" if "wf_text d" for d
  proof -
    have "clip d 0 (tlength d) = (0, tlength d)" using wf_tlength_ge [OF that] by (intro clip_same) simp_all
    then have "toString d = sub_list 0 (tlength d) (doc d)"
      unfolding toString_def by (rule sliceString_doc [OF that])
    then show ?thesis using that by (simp add: sub_list_def wf_tlength_doc)
  qed
  have run: "\<exists>ed'. cm_updates css ed = Some (Inr ed') \<and> textarea_value ed' = fold set_run css (doc (ed_doc ed)) \<and>
      toString (ed_doc ed') = textarea_value ed' \<and> textarea_hidden ed'"
    if "updates_fit css (tlength (ed_doc ed))" "wf_text (ed_doc ed)" "textarea_value ed = doc (ed_doc ed)"
      "textarea_hidden ed" for ed
    using that
  proof (induction css arbitrary: ed)
    case (Cons cs css)
    obtain ed1 where "cm_update cs ed = Some (Inr ed1)" "wf_text (ed_doc ed1)"
      "textarea_value ed1 = doc (ed_doc ed1)" "doc (ed_doc ed1) = set_run cs (doc (ed_doc ed))"
      "tlength (ed_doc ed1) = newLength cs"
      using cm_update_in_sync [of cs ed] Cons.prems by auto
    moreover have "textarea_hidden ed1"
      using calculation(1) Cons.prems(4) by (auto simp: cm_update_def bind_outcome_def split: option.splits sum.splits if_splits)
    ultimately show ?case using Cons.IH [of ed1] Cons.prems(1) by simp
  qed (simp add: str)
  let ?ed = "\<lparr>ed_doc = t, ed_extensions = editor_extensions, ed_alive = True, textarea_value = val,
    textarea_hidden = True\<rparr>"
  have "cm_connect val = Some ?ed" using t(1) by (simp add: cm_connect_def)
  then show ?thesis using run [of ?ed] t assms(2) by (simp add: wf_tlength_doc)
qed

theorem textarea_in_sync_witness:
  "\<exists>ed ed'. cm_connect [97, 10, 98] = Some ed \<and>
     cm_updates [mk_set [(1, -1), (2, 1)] [empty_text, mk_leaf [[120]]]] ed = Some (Inr ed') \<and>
     textarea_value ed' = [97, 120] \<and> toString (ed_doc ed') = textarea_value ed' \<and> textarea_hidden ed'"
  using textarea_in_sync [of "[97, 10, 98]" "[mk_set [(1, -1), (2, 1)] [empty_text, mk_leaf [[120]]]]"]
  by (simp add: wf_set_def mk_set_def sec_ok_def mk_leaf_def empty_text_def desc_length_def newLength_def
      MAX_TO_def set_run_def text_at_def doc_def)

text \<open>
  In the bundle that the page runs the linter is dead: it reports nothing for any document, since reading
  \<open>load\<close> of \<open>undefined\<close> throws an error without a mark.
\<close>

theorem yaml_linter_is_dead: "validateYaml bundled_load type_error d = Some (Inr [])"
  by (simp add: validateYaml_def bundled_load_def load_error_def line_match_def)

text \<open>
  With a loader that parses: a document that it accepts has no diagnostics, an error on the first line is
  never reported either, and an error in column \<open>c\<close> of a later line of the document is reported at exactly
  that character of the text; an error beyond the last line makes the linter itself throw.
\<close>

theorem validateYaml_positions:
  assumes "wf_text d" "load (toString d) = Inl \<lparr>exn_mark = Some (l, c), exn_message = msg\<rparr>"
  shows "(l = 0 \<longrightarrow> validateYaml (Some load) te d = Some (Inr [])) \<and>
    (1 \<le> l \<and> l < int (tlines d) \<and> 0 \<le> c \<and> c < len (flatten d ! nat l) \<longrightarrow>
      (\<exists>fr. validateYaml (Some load) te d = Some (Inr [\<lparr>diag_from = fr, diag_to = fr + 1, diag_message = msg\<rparr>]) \<and>
        0 \<le> fr \<and> fr + 1 \<le> tlength d \<and> doc d ! nat fr = flatten d ! nat l ! nat c)) \<and>
    (int (tlines d) \<le> l \<longrightarrow> validateYaml (Some load) te d = Some (Inl (Bad_line (l + 1) (tlines d))))"
proof -
  have err: "load_error (Some load) te (toString d) = Some \<lparr>exn_mark = Some (l, c), exn_message = msg\<rparr>"
    using assms(2) by (simp add: load_error_def)
  have "\<exists>fr. validateYaml (Some load) te d = Some (Inr [\<lparr>diag_from = fr, diag_to = fr + 1, diag_message = msg\<rparr>]) \<and>
        0 \<le> fr \<and> fr + 1 \<le> tlength d \<and> doc d ! nat fr = flatten d ! nat l ! nat c"
    if l: "1 \<le> l" "l < int (tlines d)" and c: "0 \<le> c" "c < len (flatten d ! nat l)"
  proof -
    let ?k = "nat l" and ?n = "nth_line (flatten d) (nat l)"
    have k: "?k < length (flatten d)" using l by (simp add: tlines_flatten)
    have line: "line_of d (l + 1) = Inr (Some ?n)" using line_of_ok [OF assms(1), of "l + 1"] l by simp
    have to: "line_to ?n = line_from ?n + len (flatten d ! ?k)" by (simp add: nth_line_def Let_def)
    note nlt = nth_line_text [OF k]
    have "doc d ! nat (line_from ?n + c) = sub_list (line_from ?n) (line_to ?n) (doc d) ! nat c"
      using c to nlt(2,3) by (simp add: sub_list_def doc_def nat_add_distrib nat_diff_distrib)
    then have "doc d ! nat (line_from ?n + c) = flatten d ! ?k ! nat c" using nlt(1) by (simp add: doc_def)
    then show ?thesis
      using l c line err nlt(2,3) to assms(1)
      by (simp add: validateYaml_def line_match_def doc_def wf_tlength_doc)
  qed
  moreover have "int (tlines d) \<le> l \<Longrightarrow> l \<noteq> 0"
    using wf_flatten [OF assms(1)] by (auto simp: tlines_flatten)
  ultimately show ?thesis
    using err by (auto simp: validateYaml_def line_match_def line_of_def)
qed

theorem validateYaml_positions_witness:
  "validateYaml (Some (\<lambda>s. Inl \<lparr>exn_mark = Some (0, 3), exn_message = [33]\<rparr> :: yaml_exn + unit)) [] (mk_leaf [[97], [98]])
     = Some (Inr []) \<and>
   (\<exists>fr. validateYaml (Some (\<lambda>s. Inl \<lparr>exn_mark = Some (1, 0), exn_message = [33]\<rparr> :: yaml_exn + unit)) [] (mk_leaf [[97], [98]])
     = Some (Inr [\<lparr>diag_from = fr, diag_to = fr + 1, diag_message = [33]\<rparr>]) \<and> doc (mk_leaf [[97], [98]]) ! nat fr = 98)"
  using validateYaml_positions [of "mk_leaf [[97], [98]]" "\<lambda>s. Inl \<lparr>exn_mark = Some (0, 3), exn_message = [33]\<rparr> :: yaml_exn + unit" 0 3 "[33]" "[]"]
    validateYaml_positions [of "mk_leaf [[97], [98]]" "\<lambda>s. Inl \<lparr>exn_mark = Some (1, 0), exn_message = [33]\<rparr> :: yaml_exn + unit" 1 0 "[33]" "[]"]
  by (auto simp: mk_leaf_def)

end
