(* ===== verification/Xterm_Text.thy ===== *)
theory Xterm_Text
  imports Xterm_Props
begin

text \<open>
  Printed text arrives on the screen: the line of the cursor holds the characters from the cursor's column on,
  with the current attributes.
\<close>

subsection \<open>Lines of a state\<close>

lemma put_line_get:
  assumes "ring_wf (lines b)" "0 \<le> i" "i < int (rlen (lines b))" "0 \<le> j" "j < int (rlen (lines b))"
  shows "lines_get (put_line i l b) j = (if i = j then Some l else lines_get b j)"
proof -
  have "nat i < maxLength (lines b)" "nat j < maxLength (lines b)" "length (arr (lines b)) = maxLength (lines b)"
    using assms by (auto simp: ring_wf_def)
  then show ?thesis
    using get_set [of "nat i" 0 "(lines b)\<lparr>fired := []\<rparr>" "nat j" "Some l"] assms(2,4)
    by (auto simp: lines_get_def put_line_def eq_nat_nat_iff)
qed

lemma upd_line_here:
  assumes t: "term_ok t" and u: "upd_line i f t = Some t'" and i: "0 \<le> i" "i < ybase (active t) + rows t"
    and j: "0 \<le> j" "j < ybase (active t) + rows t"
  shows "line_here j t' = (if i = j then map_option f (line_here i t) else line_here j t)"
proof -
  have fr: "buf_frame (cols t) (rows t) (active t)" using frame_active [OF ok_frame [OF t]] .
  have r: "ring_wf (lines (active t))" "int (rlen (lines (active t))) = ybase (active t) + rows t"
    using frame_bounds [OF fr] by (simp_all add: lines_ok_def)
  from u obtain l where l: "lines_get (active t) i = Some l" "t' = set_active (put_line i (f l) (active t)) t"
    by (auto simp: upd_line_def with_line_def put_line_def split: option.splits)
  show ?thesis using put_line_get [OF r(1), of i j "f l"] r(2) i j l by (auto simp: line_here_def)
qed

subsection \<open>Characters of width 1\<close>

definition ascii :: "cp \<Rightarrow> bool" where
  "ascii c \<longleftrightarrow> 32 \<le> c \<and> c < 127"

lemma ascii_properties:
  assumes "ascii c"
  shows "extractWidth (charProperties c p) = 1" "\<not> extractShouldJoin (charProperties c p)"
  using assms extract_property [of 1 False] by (simp_all add: charProperties_def wcwidth_def ascii_def Let_def)

definition char_slot :: "attr \<Rightarrow> cp \<Rightarrow> slot" where
  "char_slot a c = \<lparr>s_content = of_nat c OR 0x400000, s_fg = fg a, s_bg = bg a\<rparr>"

lemma slot_at_char:
  "slot_at (setCellFromCodepoint i c 1 a l) j = (if i = j \<and> 0 \<le> j \<and> j < line_length l then char_slot a c else slot_at l j)"
  by (simp add: setCellFromCodepoint_def Let_def slot_at_put_slot char_slot_def)

lemma and_mask_21: "x AND 2097151 = x mod (2097152 :: nat)"
  using take_bit_eq_mask [of 21 x] by (simp add: mask_eq_exp_minus_1 take_bit_eq_mod)

lemma char_content:
  assumes "c < 128"
  shows "unat (of_nat c OR 0x400000 :: u32) = 4194304 + c" "(of_nat c OR 0x400000 :: u32) AND 0x1FFFFF = of_nat c"
    "(of_nat c OR 0x400000 :: u32) AND 0x200000 = 0"
proof -
  let ?u = "of_nat c OR 0x400000 :: u32"
  have c: "unat (of_nat c :: u32) = c" using assms by (simp add: unsigned_of_nat take_bit_nat_eq_self)
  show u: "unat ?u = 4194304 + c"
    using or_low [of c 22 1] assms by (simp add: unsigned_or_eq c or.commute)
  have m: "(4194304 + c) mod 2097152 = c" using mod_mult_self3 [of 2 2097152 c] assms by simp
  have "unat (?u AND 0x1FFFFF) = c"
    using m by (simp add: unsigned_and_eq [of ?u] u and_mask_21 del: unsigned_or_eq)
  then have "of_nat (unat (?u AND 0x1FFFFF)) = (of_nat c :: u32)" by (rule arg_cong)
  then show "?u AND 0x1FFFFF = of_nat c" by simp
  have "(4194304 + c) AND 2097152 = ((4194304 + c) AND 4194303) AND (2097152 :: nat)" by (simp add: and.assoc)
  also have "(4194304 + c) AND 4194303 = (4194304 + c) mod (4194304 :: nat)"
    using take_bit_eq_mask [of 22 "4194304 + c"] by (simp add: mask_eq_exp_minus_1 take_bit_eq_mod)
  also have "\<dots> = c AND 2097151" using assms by (simp add: and_mask_21)
  also have "(c AND 2097151) AND 2097152 = (0 :: nat)" by (simp add: and.assoc)
  finally have "unat (?u AND 0x200000) = 0" by (simp add: unsigned_and_eq [of ?u] u del: unsigned_or_eq)
  then show "?u AND 0x200000 = 0" by (simp add: unat_eq_0)
qed

lemma char_width:
  assumes "c < 128"
  shows "width_of (of_nat c OR 0x400000) = 1"
proof -
  let ?u = "of_nat c OR 0x400000 :: u32"
  have u: "uint ?u = 4194304 + int c"
    using arg_cong [OF char_content(1) [OF assms], of int] by (simp only: uint_nat of_nat_add of_nat_numeral)
  have "sint ?u = 4194304 + int c"
    using assms u by (simp add: sint_uint signed_take_bit_int_eq_self del: unsigned_or_eq)
  then have "width_of ?u = drop_bit 22 (4194304 + int c)" by (simp only: width_of_eq)
  also have "\<dots> = 1" using assms by (simp add: drop_bit_eq_div)
  finally show ?thesis .
qed

subsection \<open>Printing at the cursor\<close>

text \<open>A state in which characters are written as they are: no charset, not inserting, no link, no screen reader.\<close>

definition plainly :: "terminal_state \<Rightarrow> bool" where
  "plainly t \<longleftrightarrow>
     charset_now t = None \<and> \<not> insertMode t \<and> urlId (extended (curAttr t)) = 0 \<and> \<not> screenReaderMode (options t)"

text \<open>The line at a row, after characters have been written from a column on.\<close>

definition written :: "line \<Rightarrow> int \<Rightarrow> attr \<Rightarrow> cp list \<Rightarrow> line \<Rightarrow> bool" where
  "written l x a cs l' \<longleftrightarrow>
     line_length l' = line_length l \<and>
     (\<forall>j. 0 \<le> j \<and> j < line_length l \<longrightarrow>
        slot_at l' j = (if x \<le> j \<and> j < x + int (length cs) then char_slot a (cs ! nat (j - x)) else slot_at l j))"

lemma written_Nil: "written l x a [] l"
  by (auto simp: written_def)

lemma written_Cons:
  assumes "written (setCellFromCodepoint x c 1 a l) (x + 1) a cs l'" "0 \<le> x" "x < line_length l"
  shows "written l x a (c # cs) l'"
proof -
  have "nat (j - x) = Suc (nat (j - (x + 1)))" if "x + 1 \<le> j" for j using that by simp
  then have n: "(c # cs) ! nat (j - x) = (if j = x then c else cs ! nat (j - (x + 1)))" if "x \<le> j" for j
    using that by (cases "j = x") auto
  show ?thesis using assms n by (auto simp: written_def slot_at_char)
qed

lemma upd_line_fields:
  assumes "upd_line i f t = Some t'"
  shows "cols t' = cols t" "rows t' = rows t" "options t' = options t" "charset_now t' = charset_now t" "insertMode t' = insertMode t"
    "curAttr t' = curAttr t" "dec t' = dec t" "xpos t' = xpos t" "ypos t' = ypos t" "ybase (active t') = ybase (active t)"
  using assms by (auto simp: upd_line_def with_line_def split: option.splits)

lemma charset_fields [simp]: "charset_now (set_active b t) = charset_now t" "charset_now (set_x v t) = charset_now t"
  "charset_now (markDirty y t) = charset_now t"
  by (simp_all add: set_active_def set_x_def upd_active_def markDirty_def)

lemma line_here_x [simp]: "line_here i (set_x v t) = line_here i t"
  by (simp add: line_here_def lines_get_def)

lemma upd_same_line:
  assumes t: "term_ok t" and li: "li = abs_row (ypos t) t" and f: "\<And>l. line_length (f l) = line_length l"
    and l: "line_here li t = Some l"
  obtains t' where "upd_line li f t = Some t'" "same_place t t'" "line_here li t' = Some (f l)"
    "\<forall>j. 0 \<le> j \<longrightarrow> j < ybase (active t) + rows t \<longrightarrow> j \<noteq> li \<longrightarrow> line_here j t' = line_here j t"
proof -
  obtain t' where t': "upd_line li f t = Some t'" "same_place t t'" using upd_here [OF t li f] .
  note b = row_in_bounds [OF t, folded li]
  show ?thesis using that [OF t'] upd_line_here [OF t t'(1)] b l by simp
qed

lemma print_one:
  assumes t: "term_ok t" and p: "plainly t" and c: "ascii c" and x: "xpos t < cols t"
    and li: "li = abs_row (ypos t) t" and l: "line_here li t = Some l"
  obtains t' q where "print_code c (t, li, pj) = Some (t', li, q)" "term_ok t'" "plainly t'" "cols t' = cols t" "rows t' = rows t"
    "xpos t' = xpos t + 1" "li = abs_row (ypos t') t'" "curAttr t' = curAttr t" "ypos t' = ypos t"
    "line_here li t' = Some (setCellFromCodepoint (xpos t) c 1 (curAttr t) l)"
    "\<forall>j. 0 \<le> j \<longrightarrow> j < ybase (active t) + rows t \<longrightarrow> j \<noteq> li \<longrightarrow> line_here j t' = line_here j t"
proof -
  have n: "translate_char t c = c" using p by (simp add: translate_char_def plainly_def)
  have lk: "link_here (a11y_char c t) = t" using p by (simp add: plainly_def link_here_def a11y_char_def Let_def)
  let ?f = "setCellFromCodepoint (xpos t) c 1 (curAttr t)"
  obtain t2 where t2: "upd_line li ?f t = Some t2" "same_place t t2" "line_here li t2 = Some (?f l)"
    "\<forall>j. 0 \<le> j \<longrightarrow> j < ybase (active t) + rows t \<longrightarrow> j \<noteq> li \<longrightarrow> line_here j t2 = line_here j t"
    using upd_same_line [OF t li, of ?f l] l by auto
  note f2 = upd_line_fields [OF t2(1)]
  let ?s = "set_x (xpos t2 + 1) t2"
  have s: "term_ok ?s" "li = abs_row (ypos ?s) ?s" "line_here li ?s = Some (?f l)"
    using ok_set_x [OF same_place_ok [OF t2(2)], of "xpos t2 + 1"] ok_bounds(3) [OF t] f2 li t2(3)
    by (simp_all add: abs_row_def)
  obtain t3 where t3: "upd_line li (\<lambda>l. l) ?s = Some t3" "same_place ?s t3" "line_here li t3 = Some (?f l)"
    "\<forall>j. 0 \<le> j \<longrightarrow> j < ybase (active ?s) + rows ?s \<longrightarrow> j \<noteq> li \<longrightarrow> line_here j t3 = line_here j ?s"
    using upd_same_line [OF s(1,2), of "\<lambda>l. l" "?f l"] s(3) by auto
  note f3 = upd_line_fields [OF t3(1)]
  have pw: "put_width0 0 li ?s = Some (set_x (xpos ?s) t3)"
    using t3(1) by (simp add: put_width0_def for_up_def id_def)
  have pc: "print_code c (t, li, pj) = Some (set_x (xpos ?s) t3, li, charProperties c pj)"
    using x t2(1) pw p
    by (simp add: print_code_def Let_def n lk ascii_properties [OF c] put_cell_def plainly_def)
  have ok: "term_ok (set_x (xpos ?s) t3)"
    using ok_set_x [OF same_place_ok [OF t3(2)], of "xpos ?s"] ok_bounds(3) [OF s(1)] by simp
  show ?thesis
    by (rule that [OF pc ok])
      (use p f2 f3 t2 t3 li in \<open>simp_all add: plainly_def abs_row_def\<close>)
qed

lemma print_all:
  assumes "term_ok t" "plainly t" "\<forall>c \<in> set cs. ascii c" "xpos t + int (length cs) \<le> cols t"
    "li = abs_row (ypos t) t" "line_here li t = Some l"
  shows "\<exists>t' q l'. print_loop cs (t, li, pj) = Some (t', li, q) \<and> term_ok t' \<and> cols t' = cols t \<and> rows t' = rows t \<and>
    xpos t' = xpos t + int (length cs) \<and> ypos t' = ypos t \<and> li = abs_row (ypos t') t' \<and>
    line_here li t' = Some l' \<and> written l (xpos t) (curAttr t) cs l' \<and>
    (\<forall>j. 0 \<le> j \<longrightarrow> j < ybase (active t) + rows t \<longrightarrow> j \<noteq> li \<longrightarrow> line_here j t' = line_here j t)"
  using assms
proof (induction cs arbitrary: t l pj)
  case Nil
  then show ?case by (simp add: written_Nil)
next
  case (Cons c cs)
  have x: "xpos t < cols t" "ascii c" using Cons.prems by simp_all
  obtain t1 q where t1: "print_code c (t, li, pj) = Some (t1, li, q)" "term_ok t1" "plainly t1" "cols t1 = cols t"
    "rows t1 = rows t" "xpos t1 = xpos t + 1" "li = abs_row (ypos t1) t1" "curAttr t1 = curAttr t" "ypos t1 = ypos t"
    "line_here li t1 = Some (setCellFromCodepoint (xpos t) c 1 (curAttr t) l)"
    "\<forall>j. 0 \<le> j \<longrightarrow> j < ybase (active t) + rows t \<longrightarrow> j \<noteq> li \<longrightarrow> line_here j t1 = line_here j t"
    using print_one [OF Cons.prems(1,2) x(2,1) Cons.prems(5,6)] by blast
  have yb: "ybase (active t1) = ybase (active t)" using t1(7,9) Cons.prems(5) by (simp add: abs_row_def)
  obtain t2 q2 l2 where t2: "print_loop cs (t1, li, q) = Some (t2, li, q2)" "term_ok t2" "cols t2 = cols t1" "rows t2 = rows t1"
    "xpos t2 = xpos t1 + int (length cs)" "ypos t2 = ypos t1" "li = abs_row (ypos t2) t2" "line_here li t2 = Some l2"
    "written (setCellFromCodepoint (xpos t) c 1 (curAttr t) l) (xpos t1) (curAttr t1) cs l2"
    "\<forall>j. 0 \<le> j \<longrightarrow> j < ybase (active t1) + rows t1 \<longrightarrow> j \<noteq> li \<longrightarrow> line_here j t2 = line_here j t1"
    using Cons.IH [OF t1(2,3) _ _ t1(7,10), of q] Cons.prems(3,4) t1(4,6) by auto
  have len: "line_length l = cols t"
    using line_here_ok [OF Cons.prems(1), of li] row_in_bounds [OF Cons.prems(1)] Cons.prems(5,6) by auto
  have "written l (xpos t) (curAttr t) (c # cs) l2"
    using t2(9) t1(6,8) ok_bounds(3) [OF Cons.prems(1)] x(1) len by (intro written_Cons) simp_all
  moreover have "\<forall>j. 0 \<le> j \<longrightarrow> j < ybase (active t) + rows t \<longrightarrow> j \<noteq> li \<longrightarrow> line_here j t2 = line_here j t"
    using t2(10) t1(11) t1(5) yb by simp
  ultimately show ?case using t1(1,4,5,6,9) t2(1-8) by auto
qed

lemma char_slot_width: "ascii c \<Longrightarrow> width_of (s_content (char_slot a c)) = 1"
  by (simp add: char_slot_def char_width ascii_def)

lemma written_width:
  assumes "written l x a cs l'" "single_width l" "\<forall>c \<in> set cs. ascii c"
  shows "single_width l'"
  using assms char_slot_width by (auto simp: single_width_def written_def getWidth_def)

lemma print_text:
  assumes t: "term_ok t" "plainly t" and cs: "\<forall>c \<in> set cs. ascii c" "xpos t + int (length cs) \<le> cols t"
    and l: "line_here (abs_row (ypos t) t) t = Some l" "single_width l"
  shows "\<exists>t' l'. print cs t = Some t' \<and> xpos t' = xpos t + int (length cs) \<and> ypos t' = ypos t \<and>
    ybase (active t') = ybase (active t) \<and>
    line_here (abs_row (ypos t) t) t' = Some l' \<and> written l (xpos t) (curAttr t) cs l' \<and>
    (\<forall>j. 0 \<le> j \<longrightarrow> j < ybase (active t) + rows t \<longrightarrow> j \<noteq> abs_row (ypos t) t \<longrightarrow> line_here j t' = line_here j t)"
proof -
  define li where "li = abs_row (ypos t) t"
  let ?m = "markDirty (ypos t) t"
  have m: "term_ok ?m" "plainly ?m" "li = abs_row (ypos ?m) ?m" "line_here li ?m = Some l"
    using t l by (simp_all add: li_def abs_row_def plainly_def line_here_def)
  obtain t2 where t2: "(if xpos t \<noteq> 0 \<and> cs \<noteq> [] then upd_line li (mend_wide (xpos t - 1) (curAttr t)) ?m else Some ?m) = Some t2"
    "same_place ?m t2" "plainly t2" "curAttr t2 = curAttr t" "line_here li t2 = Some l"
    "\<forall>j. 0 \<le> j \<longrightarrow> j < ybase (active t) + rows t \<longrightarrow> j \<noteq> li \<longrightarrow> line_here j t2 = line_here j t"
  proof (cases "xpos t \<noteq> 0 \<and> cs \<noteq> []")
    case True
    obtain s where s: "upd_line li (mend_wide (xpos t - 1) (curAttr t)) ?m = Some s" "same_place ?m s"
      "line_here li s = Some (mend_wide (xpos t - 1) (curAttr t) l)"
      "\<forall>j. 0 \<le> j \<longrightarrow> j < ybase (active ?m) + rows ?m \<longrightarrow> j \<noteq> li \<longrightarrow> line_here j s = line_here j ?m"
      by (rule upd_same_line [OF m(1,3), of "mend_wide (xpos t - 1) (curAttr t)" l]) (simp_all add: m(4))
    show ?thesis
      by (rule that [of s]) (use True s upd_line_fields [OF s(1)] m(2) single_width_not_wide [OF l(2)] in
        \<open>simp_all add: plainly_def line_here_def\<close>)
  next
    case False
    show ?thesis by (rule that [of ?m]) (use False m same_place_refl [OF m(1)] in \<open>auto simp: line_here_def\<close>)
  qed
  note ok2 = same_place_ok [OF t2(2)]
  have g2: "xpos t2 = xpos t" "ypos t2 = ypos t" "cols t2 = cols t" "rows t2 = rows t" "ybase (active t2) = ybase (active t)"
    using t2(2) by (simp_all add: same_place_def kept_def)
  have x2: "xpos t2 + int (length cs) \<le> cols t2" "li = abs_row (ypos t2) t2" using cs(2) g2 by (simp_all add: li_def abs_row_def)
  obtain t3 q l' where t3: "print_loop cs (t2, li, precedingJoinState t) = Some (t3, li, q)" "term_ok t3" "cols t3 = cols t2"
    "rows t3 = rows t2" "xpos t3 = xpos t2 + int (length cs)" "ypos t3 = ypos t2" "li = abs_row (ypos t3) t3"
    "line_here li t3 = Some l'" "written l (xpos t2) (curAttr t2) cs l'"
    "\<forall>j. 0 \<le> j \<longrightarrow> j < ybase (active t2) + rows t2 \<longrightarrow> j \<noteq> li \<longrightarrow> line_here j t3 = line_here j t2"
    using print_all [OF ok2 t2(3) cs(1) x2(1) x2(2) t2(5)] by blast
  let ?t4 = "t3\<lparr>precedingJoinState := q\<rparr>"
  let ?x = "xpos ?t4"
  let ?g = "\<lambda>l. if getWidth l ?x = 0 \<and> \<not> hasContent l ?x then blank_at ?x (curAttr t) l else l"
  have t4: "term_ok ?t4" "li = abs_row (ypos ?t4) ?t4" "line_here li ?t4 = Some l'"
    using t3 by (simp_all add: abs_row_def line_here_def)
  have y3: "ybase (active t3) = ybase (active t)" using t3(6,7) g2 by (simp add: li_def abs_row_def)
  have sw: "single_width l'" using written_width [OF t3(9) l(2) cs(1)] .
  have len: "line_length l' = cols t" using line_here_ok [OF t3(2), of li] row_in_bounds [OF t3(2)] t3(3,7,8) g2 by auto
  obtain t5 where t5: "(if ?x < cols t \<and> cs \<noteq> [] then upd_line li ?g ?t4 else Some ?t4) = Some t5"
    "same_place ?t4 t5" "line_here li t5 = Some l'"
    "\<forall>j. 0 \<le> j \<longrightarrow> j < ybase (active t) + rows t \<longrightarrow> j \<noteq> li \<longrightarrow> line_here j t5 = line_here j t3"
  proof (cases "?x < cols t \<and> cs \<noteq> []")
    case True
    have "?g l' = l'" using sw len True ok_bounds(3) [OF t4(1)] by (simp add: single_width_def)
    moreover obtain s where s: "upd_line li ?g ?t4 = Some s" "same_place ?t4 s" "line_here li s = Some (?g l')"
      "\<forall>j. 0 \<le> j \<longrightarrow> j < ybase (active ?t4) + rows ?t4 \<longrightarrow> j \<noteq> li \<longrightarrow> line_here j s = line_here j ?t4"
      by (rule upd_same_line [OF t4(1,2), of ?g l']) (simp_all add: t4(3))
    ultimately show ?thesis
      by (intro that [of s]) (use True t3(4) y3 g2 in \<open>simp_all add: line_here_def abs_row_def\<close>)
  next
    case False
    show ?thesis by (rule that [of ?t4]) (use False t4 same_place_refl [OF t4(1)] in \<open>auto simp: line_here_def\<close>)
  qed
  have "print cs t = Some (markDirty (ypos t5) t5)"
    using t2(1) t3(1) t5(1) unfolding print_def Let_def li_def [symmetric] by simp
  moreover have "xpos t5 = xpos t + int (length cs)" "ypos t5 = ypos t" "ybase (active t5) = ybase (active t)"
    using t5(2) t3(5,6,7) g2 x2(2) by (simp_all add: same_place_def abs_row_def)
  moreover have "line_here j t5 = line_here j t" if "0 \<le> j" "j < ybase (active t) + rows t" "j \<noteq> li" for j
    using t5(4) t3(10) t2(6) g2 that by simp
  ultimately show ?thesis using t5(3) t3(9) g2 t2(4) unfolding li_def [symmetric]
    by (intro exI [of _ "markDirty (ypos t5) t5"] exI [of _ l']) (simp add: line_here_def)
qed

subsection \<open>From the characters of a chunk to the screen\<close>

lemma str_decode_ascii: "\<forall>c \<in> set s. c < 128 \<Longrightarrow> str_decode_loop s = (map unat s, 0)"
proof (induction s rule: str_decode_loop.induct)
  case (2 l)
  then show ?case by (auto simp: high_surrogate_def word_less_nat_alt word_le_nat_alt)
next
  case (3 l a rest)
  then have "\<not> high_surrogate l" "l \<noteq> 65279" by (auto simp: high_surrogate_def word_less_nat_alt word_le_nat_alt)
  then show ?case using 3 by simp
qed simp

text \<open>The text of a range of columns of a line.\<close>

lemma text_from_written:
  assumes w: "single_width l'" and n: "x + int n \<le> line_length l'" "0 \<le> x"
    and s: "\<forall>k < n. s_content (slot_at l' (x + int k)) = of_nat (cs k) OR 0x400000 \<and> 0 < cs k \<and> cs k < 128"
  shows "text_from n l' x (x + int n) = map (\<lambda>k. of_nat (cs k)) [0..<n]"
  using n s
proof (induction n arbitrary: x cs)
  case (Suc n)
  have c: "s_content (slot_at l' x) = of_nat (cs 0) OR 0x400000" "0 < cs 0" "cs 0 < 128" using Suc.prems(3) by force+
  have "\<not> 4294967296 dvd cs 0" using c(2,3) by (auto dest: dvd_imp_le)
  then have cell: "cell_text l' x = [of_nat (cs 0)]"
    using char_content(2,3) [OF c(3)] c(2,3)
    by (simp add: cell_text_def Let_def c(1) combined_flag_def truthy_def stringFromCodePoint_def unsigned_of_nat
        take_bit_nat_eq_self word_of_nat_eq_0_iff)
  have "getWidth l' x = 1" using w Suc.prems(1,2) by (simp add: single_width_def)
  then have st: "col_step l' x = 1" by (simp add: col_step_def)
  have "text_from n l' (x + 1) (x + 1 + int n) = map (\<lambda>k. of_nat (cs (Suc k))) [0..<n]"
  proof (rule Suc.IH)
    show "\<forall>k < n. s_content (slot_at l' (x + 1 + int k)) = of_nat (cs (Suc k)) OR 0x400000 \<and> 0 < cs (Suc k) \<and> cs (Suc k) < 128"
    proof (intro allI impI)
      fix k assume "k < n"
      then show "s_content (slot_at l' (x + 1 + int k)) = of_nat (cs (Suc k)) OR 0x400000 \<and> 0 < cs (Suc k) \<and> cs (Suc k) < 128"
        using Suc.prems(3) [rule_format, of "Suc k"] by (simp add: algebra_simps)
    qed
  qed (use Suc.prems in simp_all)
  then show ?case using cell st by (simp add: upt_conv_Cons map_Suc_upt [symmetric] algebra_simps del: upt_Suc)
qed simp

text \<open>
  C9: Text arrives on the screen: a chunk of ASCII text that fits on the rest of the cursor's line (and in one piece of
  the parser) is shown there, read back as the line's text, with the current attributes; the rest of the line and all
  other lines stay, and the cursor is right behind the text. The terminal is not in the middle of a sequence or of a
  surrogate pair, it writes characters as they are (\<open>plainly\<close>: no charset, no insert mode, no open link, no screen
  reader), and the line has no wide characters.
\<close>

theorem text_is_shown:
  assumes e: "emulator_ok e" "currentState (parser_state e) = 0" "utf16_state e = 0" "plainly (screen_state e)"
    and s: "s \<noteq> []" "\<forall>c \<in> set s. 32 \<le> c \<and> c < 127" "length s \<le> max_parse"
    and t: "t = screen_state e" "xpos t + int (length s) \<le> cols t" "row = abs_row (ypos t) t"
    and l: "line_here row t = Some l" "single_width l"
  shows "\<exists>e' l'. parse_chunk rs (Text s) e = Some e' \<and> line_here row (screen_state e') = Some l'
    \<and> text_from (length s) l' (xpos t) (xpos t + int (length s)) = s
    \<and> xpos (screen_state e') = xpos t + int (length s) \<and> ypos (screen_state e') = ypos t
    \<and> (\<forall>j. 0 \<le> j \<and> j < cols t \<longrightarrow> slot_at l' j =
         (if xpos t \<le> j \<and> j < xpos t + int (length s)
          then \<lparr>s_content = of_nat (unat (s ! nat (j - xpos t))) OR 0x400000, s_fg = fg (curAttr t), s_bg = bg (curAttr t)\<rparr>
          else slot_at l j))
    \<and> (\<forall>j. 0 \<le> j \<and> j < ybase (active t) + rows t \<and> j \<noteq> row \<longrightarrow>
         lines_get (active (screen_state e')) j = lines_get (active t) j)"
proof -
  let ?cs = "map unat s"
  let ?c = "clearRange t"
  have ok: "term_ok t" using e(1) t(1) by (simp add: emulator_ok_def)
  have cs: "\<forall>c \<in> set ?cs. ascii c" using s(2) by (auto simp: ascii_def word_less_nat_alt word_le_nat_alt)
  have a: "active ?c = active t" "term_ok ?c" "plainly ?c" "cols ?c = cols t" "rows ?c = rows t" "curAttr ?c = curAttr t"
    using ok e(4) t(1) by (simp_all add: clearRange_def plainly_def)
  have row: "abs_row (ypos ?c) ?c = row" using a(1) t(3) by (simp add: abs_row_def)
  obtain t2 l' where p: "print ?cs ?c = Some t2" "xpos t2 = xpos t + int (length s)" "ypos t2 = ypos t"
    "ybase (active t2) = ybase (active t)" "line_here row t2 = Some l'" "written l (xpos t) (curAttr t) ?cs l'"
    "\<forall>j. 0 \<le> j \<longrightarrow> j < ybase (active t) + rows t \<longrightarrow> j \<noteq> row \<longrightarrow> line_here j t2 = line_here j t"
    using print_text [OF a(2,3) cs] a t(2) l row by (auto simp: line_here_def)
  have "\<forall>c \<in> set s. c < 128" using s(2) by (auto simp: word_less_nat_alt)
  then have dec: "str_decode 0 s = (?cs, 0)"
    using str_decode_ascii [of s] s(1) by (cases "s = []") (auto simp: str_decode_def neq_Nil_conv)
  have run: "parse (parser_state e) ?cs = (parser_state e, [Print ?cs])"
    by (rule parse_print_run [OF e(2)]) (use s(1) cs in \<open>auto simp: ascii_def in_print_run_def\<close>)
  have pieces: "chunk_pieces (Text s) = [Text s]" using s(3) by (simp add: chunk_pieces_def pieces.simps)
  obtain e' where e': "parse_chunk rs (Text s) e = Some e'"
    "active (screen_state e') = active t2"
    using p(1) unfolding parse_chunk_def pieces t(1) [symmetric]
    by (simp add: run_parser_def e(3) dec run Let_def report_dirty_def)
  have len: "line_length l = cols t" using line_here_ok [OF ok, of row] row_in_bounds [OF ok] t(3) l(1) by auto
  have sl: "slot_at l' j = (if xpos t \<le> j \<and> j < xpos t + int (length s)
          then \<lparr>s_content = of_nat (unat (s ! nat (j - xpos t))) OR 0x400000, s_fg = fg (curAttr t), s_bg = bg (curAttr t)\<rparr>
          else slot_at l j)" if "0 \<le> j" "j < cols t" for j
    using p(6) that len by (auto simp: written_def char_slot_def)
  have "text_from (length s) l' (xpos t) (xpos t + int (length s)) = map (\<lambda>k. of_nat (?cs ! k)) [0..<length s]"
  proof (rule text_from_written)
    show "single_width l'" using written_width [OF p(6) l(2) cs] .
    show "xpos t + int (length s) \<le> line_length l'" "0 \<le> xpos t"
      using p(6) len t(2) ok_bounds(3) [OF ok] by (simp_all add: written_def)
    show "\<forall>k < length s. s_content (slot_at l' (xpos t + int k)) = of_nat (?cs ! k) OR 0x400000 \<and> 0 < ?cs ! k \<and> ?cs ! k < 128"
      using sl t(2) cs ok_bounds(3) [OF ok] by (auto simp: ascii_def all_set_conv_all_nth)
  qed
  also have "\<dots> = s" by (rule nth_equalityI) simp_all
  finally have readback: "text_from (length s) l' (xpos t) (xpos t + int (length s)) = s" .
  show ?thesis
    using e' p(2-5,7) sl readback by (intro exI [of _ e'] exI [of _ l']) (auto simp: line_here_def)
qed

subsection \<open>The lines of a new terminal\<close>

lemma push_all_items:
  assumes "ring_wf r" "rlen r = 0" "n \<le> maxLength r"
  shows "ring_wf ((ring_push x ^^ n) r) \<and> ring_items ((ring_push x ^^ n) r) = replicate n x
    \<and> maxLength ((ring_push x ^^ n) r) = maxLength r"
  using assms(3)
proof (induction n)
  case 0
  then show ?case using assms(1,2) by (simp add: ring_items_def)
next
  case (Suc n)
  then have s: "ring_wf ((ring_push x ^^ n) r)" "ring_items ((ring_push x ^^ n) r) = replicate n x"
    "maxLength ((ring_push x ^^ n) r) = maxLength r" by simp_all
  have "rlen ((ring_push x ^^ n) r) = n" using arg_cong [OF s(2), of length] by simp
  then show ?case using ring_push_items [OF s(1), of x] s Suc.prems
    by (simp add: isFull_def replicate_append_same)
qed

lemma new_term_line:
  assumes "0 \<le> scrollback opts" "0 \<le> j" "j < max h 1" "max h 1 \<le> 4294967295"
  shows "line_here j (new_term opts w h) = Some (getBlankLine (max w 2) default_attr False)"
proof -
  let ?s = "\<lparr>cols = max w 2, rows = max h 1, isUserScrolling = False, cachedBlankLine = None\<rparr> :: screen"
  let ?b = "new_buffer True ?s opts"
  let ?x = "getBlankLine (max w 2) default_attr False"
  let ?r = "(ring_push ?x ^^ nat (max h 1)) ((lines ?b)\<lparr>fired := []\<rparr>)"
  have i: "buf_idle (max w 2) (max h 1) ?b"
    unfolding new_buffer_def using blank_buffer_idle [of "scrollback opts" "max h 1" "max w 2" True] assms by simp
  have e: "ring_wf ((lines ?b)\<lparr>fired := []\<rparr>)" "rlen ((lines ?b)\<lparr>fired := []\<rparr>) = 0"
    "nat (max h 1) \<le> maxLength ((lines ?b)\<lparr>fired := []\<rparr>)"
    using i by (simp_all add: buf_idle_def nat_le_iff)
  note p = push_all_items [OF e, of ?x]
  have a: "active (new_term opts w h) = fillViewportRows (max w 2) default_attr ?b"
    by (simp add: new_term_def active_def Let_def)
  have l: "lines (active (new_term opts w h)) = ?r"
    unfolding a fillViewportRows_def using i by (simp add: buf_idle_def)
  have n: "rlen ?r = nat (max h 1)" using arg_cong [OF conjunct1 [OF conjunct2 [OF p]], of length] by simp
  have j: "nat j < nat (max h 1)" using assms(2,3) by simp
  have "ring_get ?r (nat j) = Some (ring_items ?r ! nat j)" using ring_get_items [of ?r "nat j"] p n j by simp
  also have "\<dots> = Some ?x" using p j by simp
  finally show ?thesis using assms(2) unfolding line_here_def lines_get_def l by simp
qed

lemma getBlankLine_single: "0 \<le> w \<Longrightarrow> single_width (getBlankLine w a wr)"
proof -
  assume w: "0 \<le> w"
  have "getWidth (getBlankLine w a wr) i = 1" if "0 \<le> i" "i < w" for i
    using that by (simp add: getBlankLine_def new_line_def getWidth_def slot_at_fill0 line_length_def slot_of_def
        getNullCell_def width_of_eq)
  then show ?thesis using w by (simp add: single_width_def)
qed

theorem text_is_shown_witness:
  "\<exists>e' l'. parse_chunk no_resize_fn (Text [104, 105]) (new_emulator plain_options 80 24) = Some e'
    \<and> line_here 0 (screen_state e') = Some l' \<and> text_from 2 l' 0 2 = [104, 105]"
proof -
  let ?e = "new_emulator plain_options 80 24"
  have o: "0 \<le> scrollback plain_options" "''setWinLines'' \<notin> set (windowOptions plain_options)"
    "\<not> screenReaderMode plain_options" by (simp_all add: plain_options_def)
  have e: "emulator_ok ?e" using new_emulator_ok [OF o(1,2)] by simp
  have s: "currentState (parser_state ?e) = 0" "utf16_state ?e = 0" "screen_state ?e = new_term plain_options 80 24"
    by (simp_all add: new_emulator_def init_parser_def)
  have p: "plainly (new_term plain_options 80 24)"
    using o(3) by (simp add: plainly_def new_term_def Let_def default_attr_def plain_ext_def)
  have xy: "xpos (new_term plain_options 80 24) = 0" "ypos (new_term plain_options 80 24) = 0"
    "ybase (active (new_term plain_options 80 24)) = 0"
    by (simp_all add: new_term_def active_def Let_def new_buffer_def blank_buffer_def fillViewportRows_def)
  have l: "line_here 0 (new_term plain_options 80 24) = Some (getBlankLine 80 default_attr False)"
    using new_term_line [OF o(1), of 0 24 80] by simp
  have r: "0 = abs_row (ypos (new_term plain_options 80 24)) (new_term plain_options 80 24)" using xy by (simp add: abs_row_def)
  have c: "[104, 105] \<noteq> ([] :: ustring)" "\<forall>c \<in> set [104, 105 :: cu]. 32 \<le> c \<and> c < 127" "length [104, 105 :: cu] \<le> max_parse"
    "xpos (new_term plain_options 80 24) + int (length [104, 105 :: cu]) \<le> cols (new_term plain_options 80 24)"
    using xy by (simp_all add: max_parse_def)
  have w: "single_width (getBlankLine 80 default_attr False)" by (rule getBlankLine_single) simp
  have "plainly (screen_state ?e)" using p s(3) by simp
  then obtain e' l' where h: "parse_chunk no_resize_fn (Text [104, 105]) ?e = Some e'" "line_here 0 (screen_state e') = Some l'"
    "text_from (length [104, 105 :: cu]) l' (xpos (new_term plain_options 80 24))
       (xpos (new_term plain_options 80 24) + int (length [104, 105 :: cu])) = [104, 105]"
    using text_is_shown [OF e s(1,2) _ c(1-3) s(3) [symmetric] c(4) r l w, of no_resize_fn] by blast
  have "length [104, 105 :: cu] = 2" by simp
  then have "text_from 2 l' 0 2 = [104, 105]" using h(3) unfolding xy(1) by (simp only: of_nat_numeral add_0)
  then show ?thesis using h(1,2) by blast
qed

end
