(* ===== verification/Xterm_Store.thy ===== *)
theory Xterm_Store
  imports Xterm_Ring
begin

text \<open>
  What the terminal needs of the store of its lines: a bounded list. The locale \<open>line_store\<close> states the laws of the
  operations that the buffers call, in terms of the list of the elements; its lemmas say which lines a run of
  operations leaves. The ring of \<open>Xterm_Ring\<close> is an instance, for any sequence of operations on a new list.
\<close>

subsection \<open>The bounded list\<close>

datatype 'a store_op = Push 'a | Set nat 'a | Splice nat nat "'a list" | Trim_start nat | Pop

text \<open>What an operation does to the list of at most \<open>m\<close> elements: the first ones make room.\<close>

definition keep_last :: "nat \<Rightarrow> 'a list \<Rightarrow> 'a list" where
  "keep_last m xs = drop (length xs - m) xs"

fun list_op :: "nat \<Rightarrow> 'a store_op \<Rightarrow> 'a list \<Rightarrow> 'a list" where
  "list_op m (Push x) xs = keep_last m (xs @ [x])"
| "list_op m (Set i x) xs = xs[i := x]"
| "list_op m (Splice i n ys) xs = keep_last m (take i xs @ ys @ drop (i + n) xs)"
| "list_op m (Trim_start n) xs = drop n xs"
| "list_op m Pop xs = butlast xs"

text \<open>
  The calls that the list can serve: an index in the list, and an insertion that pushes out only lines before
  the inserted ones.
\<close>

fun valid_op :: "nat \<Rightarrow> 'a store_op \<Rightarrow> 'a list \<Rightarrow> bool" where
  "valid_op m (Push x) xs \<longleftrightarrow> True"
| "valid_op m (Set i x) xs \<longleftrightarrow> i < length xs"
| "valid_op m (Splice i n ys) xs \<longleftrightarrow> i + n \<le> length xs \<and> length xs - n + length ys - m \<le> i"
| "valid_op m (Trim_start n) xs \<longleftrightarrow> True"
| "valid_op m Pop xs \<longleftrightarrow> xs \<noteq> []"

fun valid_ops :: "nat \<Rightarrow> 'a store_op list \<Rightarrow> 'a list \<Rightarrow> bool" where
  "valid_ops m [] xs \<longleftrightarrow> True"
| "valid_ops m (c # cs) xs \<longleftrightarrow> valid_op m c xs \<and> valid_ops m cs (list_op m c xs)"

lemma keep_last_keep [simp]: "length xs \<le> m \<Longrightarrow> keep_last m xs = xs"
  by (simp add: keep_last_def)

lemma length_keep_last [simp]: "length (keep_last m xs) = min m (length xs)"
  by (simp add: keep_last_def)

lemma keep_last_append: "keep_last m (keep_last m xs @ ys) = keep_last m (xs @ ys)"
proof (cases "length xs \<le> m")
  case False
  then have "length xs - m + m = length xs" by simp
  then show ?thesis by (simp add: keep_last_def add.commute)
qed simp

lemma list_op_bound: "length xs \<le> m \<Longrightarrow> length (list_op m c xs) \<le> m"
  by (cases c) auto

subsection \<open>The interface\<close>

locale line_store =
  fixes ok :: "'s \<Rightarrow> bool"
    and items :: "'s \<Rightarrow> 'a list"
    and room :: "'s \<Rightarrow> nat"
    and apply_op :: "'a store_op \<Rightarrow> 's \<Rightarrow> 's"
  assumes fits: "ok s \<Longrightarrow> length (items s) \<le> room s"
    and law: "ok s \<Longrightarrow> valid_op (room s) c (items s) \<Longrightarrow>
      ok (apply_op c s) \<and> room (apply_op c s) = room s \<and> items (apply_op c s) = list_op (room s) c (items s)"
begin

text \<open>Any run of operations is the run of the operations on lists.\<close>

lemma run:
  assumes "ok s" "valid_ops (room s) cs (items s)"
  shows "ok (fold apply_op cs s) \<and> room (fold apply_op cs s) = room s
    \<and> items (fold apply_op cs s) = fold (list_op (room s)) cs (items s)"
  using assms
proof (induction cs arbitrary: s)
  case (Cons c cs)
  then have "ok (apply_op c s)" "room (apply_op c s) = room s" "items (apply_op c s) = list_op (room s) c (items s)"
    using law by auto
  then show ?case using Cons.IH [of "apply_op c s"] Cons.prems(2) by simp
qed simp

text \<open>Lines that are pushed one after the other: the store holds the last ones.\<close>

lemma pushes_keep_last:
  assumes "ok s"
  shows "items (fold apply_op (map Push xs) s) = keep_last (room s) (items s @ xs)"
proof -
  have v: "valid_ops m (map Push xs) ys" for m and ys :: "'a list" by (induction xs arbitrary: ys) simp_all
  have f: "length ys \<le> m \<Longrightarrow> fold (list_op m) (map Push xs) ys = keep_last m (ys @ xs)" for m and ys :: "'a list"
  proof (induction xs arbitrary: ys)
    case (Cons x xs)
    then show ?case using keep_last_append [of m "ys @ [x]" xs] by simp
  qed simp
  show ?thesis using run [OF assms v] f [OF fits [OF assms]] by simp
qed

text \<open>Scrolling a region of the screen: its first line goes, a line comes below it, the others stay.\<close>

lemma scroll_region:
  assumes "ok s" "items s = A @ x # R @ B"
  shows "items (fold apply_op [Splice (length A) 1 [], Splice (length A + length R) 0 [y]] s) = A @ R @ y # B"
proof -
  let ?s = "apply_op (Splice (length A) 1 []) s"
  have l: "length A + length R + length B + 1 \<le> room s" using fits [OF assms(1)] assms(2) by simp
  have 1: "ok ?s" "room ?s = room s" "items ?s = A @ R @ B"
    using law [OF assms(1), of "Splice (length A) 1 []"] assms(2) l by simp_all
  have "items (apply_op (Splice (length A + length R) 0 [y]) ?s) = A @ R @ y # B"
    using law [OF 1(1), of "Splice (length A + length R) 0 [y]"] 1(2,3) l by simp
  then show ?thesis by simp
qed

end

subsection \<open>The ring\<close>

fun ring_op :: "'a store_op \<Rightarrow> 'a ring \<Rightarrow> 'a ring" where
  "ring_op (Push x) r = ring_push x r"
| "ring_op (Set i x) r = ring_set i (Some x) r"
| "ring_op (Splice i n xs) r = ring_splice i n xs r"
| "ring_op (Trim_start n) r = ring_trimStart n r"
| "ring_op Pop r = snd (ring_pop r)"

lemma ring_op_maxLength [simp]: "ring_wf r \<Longrightarrow> valid_op (maxLength r) c (ring_items r) \<Longrightarrow> maxLength (ring_op c r) = maxLength r"
  using ring_splice_items by (cases c) (auto simp: ring_push_def ring_trimStart_def ring_pop_def Let_def fire_def)

interpretation ring: line_store ring_wf ring_items maxLength ring_op
proof unfold_locales
  fix r :: "'a ring" and c :: "'a store_op"
  assume r: "ring_wf r"
  then show le: "length (ring_items r) \<le> maxLength r" using ring_wf_bounds(1) by simp
  assume v: "valid_op (maxLength r) c (ring_items r)"
  have "ring_wf (ring_op c r) \<and> ring_items (ring_op c r) = list_op (maxLength r) c (ring_items r)"
  proof (cases c)
    case (Push x)
    have "keep_last (maxLength r) (ring_items r @ [x]) = tl (ring_items r) @ [x]" if "isFull r"
      using that ring_wf_bounds(2) [OF r] by (cases "ring_items r") (auto simp: keep_last_def isFull_def simp flip: length_ring_items)
    moreover have "keep_last (maxLength r) (ring_items r @ [x]) = ring_items r @ [x]" if "\<not> isFull r"
      using that le by (simp add: isFull_def)
    ultimately show ?thesis using ring_push_items [OF r] Push by simp
  next
    case (Splice i n xs)
    let ?l = "take i (ring_items r) @ xs @ drop (i + n) (ring_items r)"
    have "length ?l = rlen r - n + length xs" using v Splice by simp
    then have "list_op (maxLength r) c (ring_items r) = drop (rlen r - n + length xs - maxLength r) ?l"
      by (simp only: Splice list_op.simps keep_last_def)
    moreover have "i + n \<le> rlen r" "rlen r - n + length xs - maxLength r \<le> i"
      using v by (simp_all only: Splice valid_op.simps length_ring_items)
    ultimately show ?thesis using ring_splice_items [OF r, of i n xs] Splice by (simp only: ring_op.simps)
  qed (use v ring_set_items [OF r] ring_trimStart_items [OF r] ring_pop_items [OF r] in \<open>auto simp flip: length_ring_items\<close>)
  then show "ring_wf (ring_op c r) \<and> maxLength (ring_op c r) = maxLength r
      \<and> ring_items (ring_op c r) = list_op (maxLength r) c (ring_items r)" using r v by simp
qed

text \<open>
  C36: The cyclic list is the bounded list: after any sequence of pushes, writes, splices, trims and pops, on a new
  ring of any positive length, its elements are those of the plain list of which the first elements make room for new
  ones. The indices are in the list, and what a splice has too much pushes out only lines before the inserted ones; on
  other calls the ring does not behave like a list.
\<close>

theorem ring_refines_list:
  fixes cs :: "'a store_op list"
  assumes "0 < m" "valid_ops m cs []"
  shows "ring_wf (fold ring_op cs (new_ring m)) \<and> ring_items (fold ring_op cs (new_ring m)) = fold (list_op m) cs []"
proof -
  have n: "ring_wf (new_ring m :: 'a ring)" "ring_items (new_ring m :: 'a ring) = []" "maxLength (new_ring m :: 'a ring) = m"
    using new_ring_items [OF assms(1), where 'a = 'a] by (blast, blast) (simp add: new_ring_def)
  show ?thesis using ring.run [of "new_ring m" cs] n assms(2) by simp
qed

theorem ring_refines_list_witness:
  "ring_items (fold ring_op [Push 1, Push 2, Push 3, Push 4, Splice 1 1 [5, 6], Set 0 7, Pop] (new_ring 3)) = [7 :: nat, 6]"
  using ring_refines_list [of 3 "[Push 1, Push 2, Push 3, Push 4, Splice 1 1 [5, 6], Set 0 7, Pop] :: nat store_op list"]
  by (simp add: keep_last_def numeral_2_eq_2 numeral_3_eq_3)

text \<open>The scrollback: pushed lines are the last lines of the ring.\<close>

lemma ring_push_fun: "(\<lambda>x. ring_op (Push x)) = ring_push"
  by (simp add: fun_eq_iff)

lemma scrollback_keeps_last:
  "ring_wf r \<Longrightarrow> ring_items (fold ring_push xs r) = keep_last (maxLength r) (ring_items r @ xs)"
  using ring.pushes_keep_last [of r xs] by (simp add: fold_map comp_def ring_push_fun del: ring_op.simps)

end
