(* ===== verification/Xterm_Resize.thy ===== *)
theory Xterm_Resize
  imports Xterm_Screen
begin

text \<open>
  Resizing the terminal: \<open>Buffer.resize\<close> with the reflow of wrapped lines to the new width, the functions of
  \<open>BufferReflow\<close> (\<open>sl\<close>, \<open>ol\<close>, \<open>ll\<close>, \<open>al\<close> and \<open>ri\<close> in the bundle), and the resizing of the buffer set, the buffer
  service and the terminal. The lines of a group are changed in place: the group is a list of lines here, which
  is written back to its places. \<open>None\<close> is a method of \<open>undefined\<close>: the fuel of the two loops that have some is
  enough, by \<open>larger_fuel_enough\<close> in \<open>Xterm_Resize_Larger\<close> and \<open>new_lengths_enough\<close> in \<open>Xterm_Resize_Narrower\<close>. The
  options for Windows are off, and the clean-up of memory is left out.
\<close>

subsection \<open>Groups of wrapped lines\<close>

definition no_line :: line where
  "no_line = \<lparr>slots = [], combined = Map.empty, ext_map = Map.empty, isWrapped = False\<rparr>"

text \<open>A line of a group by its index; the loops stay in the group.\<close>

definition line_in :: "line list \<Rightarrow> int \<Rightarrow> line" where
  "line_in ls i = (if 0 \<le> i \<and> i < int (length ls) then ls ! nat i else no_line)"

definition upd_in :: "int \<Rightarrow> (line \<Rightarrow> line) \<Rightarrow> line list \<Rightarrow> line list" where
  "upd_in i f ls = (if 0 \<le> i then ls[nat i := f (line_in ls i)] else ls)"

text \<open>
  Copying in the line itself reads what the loop has already written, cell by cell, and so does the copying of
  the texts, in the order of the columns. (Texts beyond the end of a line are never read.)
\<close>

definition move_texts :: "int \<Rightarrow> int \<Rightarrow> int \<Rightarrow> (int \<rightharpoonup> ustring) \<Rightarrow> (int \<rightharpoonup> ustring)" where
  "move_texts w e i m = fold (\<lambda>k m. m(k - e + i := m k)) (filter (\<lambda>k. m k \<noteq> None) [e..w - 1]) m"

definition copyCellsWithin :: "int \<Rightarrow> int \<Rightarrow> int \<Rightarrow> bool \<Rightarrow> line \<Rightarrow> line" where
  "copyCellsWithin e i n applyInReverse l =
     (let l1 = (if applyInReverse then for_down 0 (n - 1) (\<lambda>a l. copy_slot l (e + a) (i + a) l) l
                else for_up 0 n (\<lambda>a l. copy_slot l (e + a) (i + a) l) l)
      in l1\<lparr>combined := move_texts (line_length l) e i (combined l1)\<rparr>)"

definition copy_between :: "int \<Rightarrow> int \<Rightarrow> int \<Rightarrow> int \<Rightarrow> int \<Rightarrow> bool \<Rightarrow> line list \<Rightarrow> line list" where
  "copy_between src dst e i n rev_order ls =
     (if src = dst then upd_in dst (copyCellsWithin e i n rev_order) ls
      else upd_in dst (copyCellsFrom (line_in ls src) e i n rev_order) ls)"

definition getWrappedLineTrimmedLength :: "line list \<Rightarrow> int \<Rightarrow> int \<Rightarrow> int" where
  "getWrappedLineTrimmedLength ls i w =
     (if i = int (length ls) - 1 then getTrimmedLength (line_in ls i)
      else if \<not> hasContent (line_in ls i) (w - 1) \<and> getWidth (line_in ls i) (w - 1) = 1
              \<and> getWidth (line_in ls (i + 1)) 0 = 2 then w - 1
      else w)"

subsection \<open>Reflow to a larger width\<close>

text \<open>
  The cells of a group move up into the wider lines: from line \<open>k\<close>, column \<open>p\<close>, to line \<open>c\<close>, column \<open>d\<close>. A wide
  character that does not fit at the end of a line goes to the next. There need not be a line \<open>c\<close> any more: then
  the code calls a method of \<open>undefined\<close>.
\<close>

fun larger_loop :: "nat \<Rightarrow> int \<Rightarrow> int \<Rightarrow> cell \<Rightarrow> line list \<Rightarrow> int \<Rightarrow> int \<Rightarrow> int \<Rightarrow> int \<Rightarrow> (line list \<times> int \<times> int) option" where
  "larger_loop fuel w e nc ls c d k p =
     (if int (length ls) \<le> k then Some (ls, c, d)
      else if int (length ls) \<le> c then None
      else
        (case fuel of
           0 \<Rightarrow> None
         | Suc fuel' \<Rightarrow>
             (let f = getWrappedLineTrimmedLength ls k w;
                  n = min (f - p) (e - d);
                  ls1 = copy_between k c p d n False ls;
                  (c1, d1) = (if d + n = e then (c + 1, 0) else (c, d + n));
                  (k1, p1) = (if p + n = f then (k + 1, 0) else (k, p + n))
              in if d1 = 0 \<and> c1 \<noteq> 0 \<and> getWidth (line_in ls1 (c1 - 1)) (e - 1) = 2
                 then (if int (length ls) \<le> c1 then None
                       else larger_loop fuel' w e nc
                              (upd_in (c1 - 1) (setCell (e - 1) nc) (copy_between (c1 - 1) c1 (e - 1) d1 1 False ls1))
                              c1 (d1 + 1) k1 p1)
                 else larger_loop fuel' w e nc ls1 c1 d1 k1 p1)))"

declare larger_loop.simps [simp del]

text \<open>The lines at the end of a group that have become empty.\<close>

fun count_empty :: "line list \<Rightarrow> int \<Rightarrow> nat \<Rightarrow> nat" where
  "count_empty ls c 0 = 0"
| "count_empty ls c (Suc f) =
     (if c < int (Suc f) \<or> getTrimmedLength (line_in ls (int (Suc f))) = 0 then Suc (count_empty ls c f) else 0)"

definition larger_fuel :: "int \<Rightarrow> line list \<Rightarrow> nat" where
  "larger_fuel e ls = length ls * nat (e + 513)"

definition larger_group :: "int \<Rightarrow> int \<Rightarrow> cell \<Rightarrow> line list \<Rightarrow> (line list \<times> nat) option" where
  "larger_group w e nc ls =
     (case larger_loop (larger_fuel e ls) w e nc ls 0 (getWrappedLineTrimmedLength ls 0 w) 1 0 of
        None \<Rightarrow> None
      | Some (ls1, c, d) \<Rightarrow>
          if int (length ls) \<le> c then None
          else (let ls2 = upd_in c (replaceCells d e nc False) ls1 in Some (ls2, count_empty ls2 c (length ls2 - 1))))"

definition write_lines :: "nat \<Rightarrow> line list \<Rightarrow> line ring \<Rightarrow> line ring" where
  "write_lines i ls r = fold (\<lambda>j. ring_set (i + j) (Some (ls ! j))) [0..<length ls] r"

text \<open>The group of a line: itself and the wrapped lines below it, among \<open>n\<close> lines; \<open>None\<close> if one is missing.\<close>

definition group_at :: "line ring \<Rightarrow> nat \<Rightarrow> nat \<Rightarrow> line list option" where
  "group_at r l n =
     (case those (map (ring_get r) [l..<n]) of
        Some (a # ls) \<Rightarrow> Some (a # takeWhile isWrapped ls)
      | _ \<Rightarrow> None)"

text \<open>
  The lines to remove, as pairs of a start and a count, and the lines changed. The group of the cursor, at the
  row \<open>y\<close>, is left alone, unless the option \<open>reflowCursorLine\<close> is on.
\<close>

function larger_scan :: "bool \<Rightarrow> int \<Rightarrow> int \<Rightarrow> int \<Rightarrow> cell \<Rightarrow> nat \<Rightarrow> nat \<Rightarrow> line ring \<Rightarrow> (line ring \<times> (nat \<times> nat) list) option" where
  "larger_scan cursor_too y w e nc n l r =
     (if n \<le> l + 1 then Some (r, [])
      else
        (case group_at r l n of
           None \<Rightarrow> None
         | Some ls \<Rightarrow>
             if length ls \<le> 1 then larger_scan cursor_too y w e nc n (l + 1) r
             else if \<not> cursor_too \<and> int l \<le> y \<and> y < int (l + length ls)
             then larger_scan cursor_too y w e nc n (l + length ls) r
             else
               (case larger_group w e nc ls of
                  None \<Rightarrow> None
                | Some (ls', m) \<Rightarrow>
                    map_option
                      (\<lambda>(r', ms). (r', if 0 < m then (l + length ls - m, m) # ms else ms))
                      (larger_scan cursor_too y w e nc n (l + length ls) (write_lines l ls' r)))))"
  by pat_completeness auto
termination
  by (relation "measure (\<lambda>(a, y, w, e, nc, n, l, r). n - l)") auto

declare larger_scan.simps [simp del]

text \<open>The lines that stay, by their places, with the number of removed ones; markers hear of the removed lines.\<close>

fun create_layout :: "nat \<Rightarrow> nat \<Rightarrow> nat \<Rightarrow> (nat \<times> nat) list \<Rightarrow> nat \<Rightarrow> line ring \<Rightarrow> nat list \<times> nat \<times> line ring" where
  "create_layout 0 n i ms removed r = ([], removed, r)"
| "create_layout (Suc fuel) n i ms removed r =
     (if n \<le> i then ([], removed, r)
      else
        (case ms of
           (s, m) # ms' \<Rightarrow>
             if s = i then create_layout fuel n (i + m) ms' (removed + m) (fire (Deleted (i - removed) m) r)
             else (case create_layout fuel n (i + 1) ms removed r of (ks, c, r') \<Rightarrow> (i # ks, c, r'))
         | [] \<Rightarrow> (case create_layout fuel n (i + 1) ms removed r of (ks, c, r') \<Rightarrow> (i # ks, c, r'))))"

definition apply_layout :: "nat list \<Rightarrow> line ring \<Rightarrow> line ring" where
  "apply_layout ks r =
     set_length (length ks) (fold (\<lambda>j r'. ring_set j (ring_get r (ks ! j)) r') [0..<length ks] r)"

text \<open>One removed line: the screen takes a line of the scrollback, or gets a new line below.\<close>

definition adjust_one :: "int \<Rightarrow> int \<Rightarrow> buffer \<Rightarrow> buffer" where
  "adjust_one w h b =
     (if ybase b = 0 then
        (let b1 = (if 0 < cy b then b\<lparr>cy := cy b - 1\<rparr> else b)
         in if int (rlen (lines b1)) < h then update_lines (ring_push (new_line w (Some (getNullCell default_attr)) False)) b1
            else b1)
      else b\<lparr>ydisp := (if ydisp b = ybase b then ydisp b - 1 else ydisp b), ybase := ybase b - 1\<rparr>)"

definition reflowLarger :: "bool \<Rightarrow> int \<Rightarrow> int \<Rightarrow> buffer \<Rightarrow> buffer option" where
  "reflowLarger cursor_too w h b =
     (case larger_scan cursor_too (ybase b + cy b) (b_cols b) w (getNullCell default_attr) (rlen (lines b)) 0 (lines b) of
        None \<Rightarrow> None
      | Some (r, []) \<Rightarrow> Some (b\<lparr>lines := r\<rparr>)
      | Some (r, ms) \<Rightarrow>
          (case create_layout (rlen r) (rlen r) 0 ms 0 (r\<lparr>fired := []\<rparr>) of
             (ks, c, _) \<Rightarrow>
               (let b1 = update_lines (\<lambda>r. apply_layout ks (snd (snd (create_layout (rlen r) (rlen r) 0 ms 0 r)))) (b\<lparr>lines := r\<rparr>);
                    b2 = (adjust_one w h ^^ c) b1
                in Some (b2\<lparr>savedY := max (savedY b2 - int c) 0\<rparr>))))"

subsection \<open>Reflow to a smaller width\<close>

text \<open>The lengths of the lines that a group of lines of width \<open>w\<close> makes at width \<open>e\<close>; \<open>l\<close> cells are done.\<close>

fun new_lengths :: "nat \<Rightarrow> line list \<Rightarrow> int \<Rightarrow> int \<Rightarrow> int \<Rightarrow> int \<Rightarrow> int \<Rightarrow> int \<Rightarrow> int list option" where
  "new_lengths 0 ls w e cells n i l = (if cells \<le> l then Some [] else None)"
| "new_lengths (Suc fuel) ls w e cells n i l =
     (if cells \<le> l then Some []
      else if cells - l < e then Some [cells - l]
      else
        (let a = getWrappedLineTrimmedLength ls i w;
             (n1, i1) = (if a < n + e then (n + e - a, i + 1) else (n + e, i))
         in if int (length ls) \<le> i1 then None
            else
              (let wide = (getWidth (line_in ls i1) (n1 - 1) = 2);
                   h = (if wide then e - 1 else e)
               in map_option (\<lambda>cs. h # cs)
                    (new_lengths fuel ls w e cells (if wide then n1 - 1 else n1) i1 (l + h)))))"

definition group_cells :: "line list \<Rightarrow> int \<Rightarrow> int" where
  "group_cells ls w = sum_list (map (\<lambda>i. getWrappedLineTrimmedLength ls (int i) w) [0..<length ls])"

definition reflowSmallerGetNewLineLengths :: "line list \<Rightarrow> int \<Rightarrow> int \<Rightarrow> int list option" where
  "reflowSmallerGetNewLineLengths ls w e = new_lengths (nat (group_cells ls w)) ls w e (group_cells ls w) 0 0 0"

text \<open>An entry of an array of numbers; 0 where there is none, and is not used.\<close>

definition entry :: "int list \<Rightarrow> int \<Rightarrow> int" where
  "entry cs i = (if 0 \<le> i \<and> i < int (length cs) then cs ! nat i else 0)"

text \<open>
  The cells of a group move down into the narrower lines, the last ones first: the last \<open>R\<close> cells of line \<open>A\<close> to
  the last \<open>f\<close> places of line \<open>m\<close>.
\<close>

function smaller_loop :: "int \<Rightarrow> int list \<Rightarrow> line list \<Rightarrow> int \<Rightarrow> int \<Rightarrow> int \<Rightarrow> int \<Rightarrow> line list" where
  "smaller_loop w cs ls m f A R =
     (if A < 0 \<or> m < 0 \<or> int (length ls) \<le> m then ls
      else
        (let n = min R f;
             ls1 = copy_between A m (R - n) (f - n) n True ls;
             (m1, f1) = (if f - n = 0 then (m - 1, entry cs (m - 1)) else (m, f - n));
             (A1, R1) = (if R - n = 0 then (A - 1, getWrappedLineTrimmedLength ls1 (max (A - 1) 0) w) else (A, R - n))
         in smaller_loop w cs ls1 m1 f1 A1 R1))"
  by pat_completeness auto
termination
  by (relation "measure (\<lambda>(w, cs, ls, m, f, A, R). nat (m + 1) + nat (A + 1))") (auto simp: min_def split: if_splits)

declare smaller_loop.simps [simp del]

text \<open>If the group needs fewer lines than it has, there is no line \<open>A\<close>, and reading its cells throws.\<close>

definition smaller_group :: "int \<Rightarrow> int \<Rightarrow> cell \<Rightarrow> int list \<Rightarrow> int \<Rightarrow> int \<Rightarrow> line list \<Rightarrow> line list option" where
  "smaller_group w e nc cs d last_cells ls =
     (let m = int (length cs) - 1;
          (m', f') = (if entry cs m = 0 \<and> cs \<noteq> [] then (m - 1, entry cs (m - 1)) else (m, entry cs m));
          A = int (length ls) - d - 1
      in if int (length ls) \<le> A \<and> 0 \<le> m' \<and> m' < int (length ls) then None
         else
           (let ls1 = smaller_loop w cs ls m' f' A last_cells
            in Some (map (\<lambda>i. if i < length cs \<and> cs ! i < e then setCell (cs ! i) nc (ls1 ! i) else ls1 ! i) [0..<length ls1])))"

text \<open>One added line: the screen gives up an unused line below, or its first line goes into the scrollback.\<close>

definition shift_view :: "int \<Rightarrow> int \<Rightarrow> buffer \<Rightarrow> buffer" where
  "shift_view h extra b =
     (if ybase b = 0 then
        (if cy b < h - 1 then update_lines (\<lambda>r. snd (ring_pop r)) (b\<lparr>cy := cy b + 1\<rparr>)
         else b\<lparr>ybase := ybase b + 1, ydisp := ydisp b + 1\<rparr>)
      else if ybase b < min (int (maxLength (lines b))) (int (rlen (lines b)) + extra) - h then
        b\<lparr>ydisp := (if ybase b = ydisp b then ydisp b + 1 else ydisp b), ybase := ybase b + 1\<rparr>
      else b)"

text \<open>The first line of the group of line \<open>l\<close>.\<close>

fun group_start :: "line ring \<Rightarrow> nat \<Rightarrow> nat" where
  "group_start r 0 = 0"
| "group_start r (Suc l) =
     (if (case ring_get r (Suc l) of Some a \<Rightarrow> isWrapped a | None \<Rightarrow> False) then group_start r l else Suc l)"

lemma group_start_le: "group_start r l \<le> l"
  by (induction l) (auto intro: le_SucI)

text \<open>
  The scan goes up from the last line; \<open>ins\<close> are the lines to insert, with their places, and \<open>extra\<close> their number.
\<close>

definition smaller_step :: "int \<Rightarrow> int \<Rightarrow> nat \<Rightarrow> line list \<Rightarrow> buffer \<times> (int \<times> line list) list \<times> nat \<Rightarrow>
    (buffer \<times> (int \<times> line list) list \<times> nat) option" where
  "smaller_step w h g u s =
     (case s of
        (b, ins, extra) \<Rightarrow>
          (case reflowSmallerGetNewLineLengths u (b_cols b) w of
             None \<Rightarrow> None
           | Some cs \<Rightarrow>
               (let nc = getNullCell default_attr;
                    d = int (length cs) - int (length u);
                    big = int (maxLength (lines b));
                    over = (if ybase b = 0 \<and> cy b \<noteq> int (rlen (lines b)) - 1 then max 0 (cy b - big + d)
                            else max 0 (int (rlen (lines b)) - big + d));
                    new = replicate (nat d) (getBlankLine w default_attr True)
                in map_option
                     (\<lambda>u'. let ins' = (if new \<noteq> [] then ins @ [(int (g + length u + extra), drop (length u) u')] else ins);
                               extra' = extra + length new;
                               b1 = b\<lparr>lines := write_lines g (take (length u) u') (lines b)\<rparr>;
                               b2 = (shift_view h (int extra') ^^ nat (d - over)) b1
                           in (b2\<lparr>savedY := min (savedY b2 + d) (ybase b2 + h - 1)\<rparr>, ins', extra'))
                     (smaller_group (b_cols b) w nc cs d (getTrimmedLength (last u)) (u @ new)))))"

function smaller_scan :: "bool \<Rightarrow> int \<Rightarrow> int \<Rightarrow> nat \<Rightarrow> buffer \<times> (int \<times> line list) list \<times> nat \<Rightarrow>
    (buffer \<times> (int \<times> line list) list \<times> nat) option" where
  "smaller_scan cursor_too w h 0 s = Some s"
| "smaller_scan cursor_too w h (Suc l) s =
     (let b = fst s; r = lines b
      in case ring_get r l of
           None \<Rightarrow> smaller_scan cursor_too w h l s
         | Some a \<Rightarrow>
             if \<not> isWrapped a \<and> getTrimmedLength a \<le> w then smaller_scan cursor_too w h l s
             else
               (let g = group_start r l
                in case those (map (ring_get r) [g..<Suc l]) of
                     None \<Rightarrow> None
                   | Some u \<Rightarrow>
                       if \<not> cursor_too \<and> int g \<le> ybase b + cy b \<and> ybase b + cy b < int (g + length u)
                       then smaller_scan cursor_too w h g s
                       else (case smaller_step w h g u s of
                               None \<Rightarrow> None
                             | Some s' \<Rightarrow> smaller_scan cursor_too w h g s')))"
  by pat_completeness auto
termination
  by (relation "measure (\<lambda>(c, w, h, l, s). l)") (auto intro: le_imp_less_Suc group_start_le)

text \<open>
  A place of the array of the ring: JavaScript's remainder of a negative number is negative or minus zero, and a
  negative index is no place of the array.
\<close>

definition set_at :: "int \<Rightarrow> 'a option \<Rightarrow> 'a ring \<Rightarrow> 'a ring" where
  "set_at i x r =
     (let j = int (startIndex r) + i; m = int (maxLength r)
      in if 0 \<le> j then r\<lparr>arr := (arr r)[nat (j mod m) := x]\<rparr>
         else if j mod m = 0 then r\<lparr>arr := (arr r)[0 := x]\<rparr>
         else r)"

text \<open>The new lines of one insertion, the last one first, down from the place \<open>f\<close>.\<close>

definition put_new :: "int \<Rightarrow> line list \<Rightarrow> line ring \<Rightarrow> line ring" where
  "put_new f new r = fold (\<lambda>j. set_at (f - int j) (Some (rev new ! j))) [0..<length new] r"

text \<open>
  The lines move to their new places, from the last place down: \<open>h\<close> is the old line to place next and \<open>q\<close> the
  number of lines inserted so far. The result has the insertions in the order in which they were made.
\<close>

function rearrange :: "line option list \<Rightarrow> int \<Rightarrow> int \<Rightarrow> nat \<Rightarrow> (int \<times> line list) list \<Rightarrow> line ring \<Rightarrow>
    line ring \<times> (int \<times> nat) list" where
  "rearrange old f h q ins r =
     (if f < 0 then (r, [])
      else
        (case ins of
           (s, new) # ins' \<Rightarrow>
             if h + int q < s then
               (case rearrange old (f - 1 - int (length new - 1)) h (q + length new) ins' (put_new f new r) of
                  (r', es) \<Rightarrow> (r', (h + 1, length new) # es))
             else
               rearrange old (f - 1) (h - 1) q ins
                 (set_at f (if 0 \<le> h \<and> h < int (length old) then old ! nat h else None) r)
         | [] \<Rightarrow>
             rearrange old (f - 1) (h - 1) q ins
               (set_at f (if 0 \<le> h \<and> h < int (length old) then old ! nat h else None) r)))"
  by pat_completeness auto
termination
  by (relation "measure (\<lambda>(old, f, h, q, ins, r). nat (f + 1))") auto

declare rearrange.simps [simp del]

text \<open>The markers hear of the insertions from the top down.\<close>

fun fire_inserts :: "(int \<times> nat) list \<Rightarrow> nat \<Rightarrow> line ring \<Rightarrow> line ring" where
  "fire_inserts [] p r = r"
| "fire_inserts ((i, n) # es) p r = fire_inserts es (p + n) (fire (Inserted (nat i + p) n) r)"

definition insert_lines :: "(int \<times> line list) list \<Rightarrow> nat \<Rightarrow> line ring \<Rightarrow> line ring" where
  "insert_lines ins extra r =
     (let n = rlen r; big = maxLength r;
          old = map (ring_get r) [0..<n];
          (r1, es) = rearrange old (min (int big - 1) (int (n + extra) - 1)) (int n - 1) 0 ins (set_length (min big (n + extra)) r);
          r2 = fire_inserts (rev es) 0 r1
      in if big < n + extra then fire (Trim (n + extra - big)) r2 else r2)"

definition reflowSmaller :: "bool \<Rightarrow> int \<Rightarrow> int \<Rightarrow> buffer \<Rightarrow> buffer option" where
  "reflowSmaller cursor_too w h b =
     map_option
       (\<lambda>(b1, ins, extra). if ins = [] then b1 else update_lines (insert_lines ins extra) b1)
       (smaller_scan cursor_too w h (rlen (lines b)) (b, [], 0))"

definition reflow :: "bool \<Rightarrow> int \<Rightarrow> int \<Rightarrow> buffer \<Rightarrow> buffer option" where
  "reflow cursor_too w h b =
     (if b_cols b = w then Some b
      else if b_cols b < w then reflowLarger cursor_too w h b
      else reflowSmaller cursor_too w h b)"

subsection \<open>Resizing a buffer\<close>

definition resize_lines :: "int \<Rightarrow> buffer \<Rightarrow> buffer option" where
  "resize_lines w b =
     map_option (\<lambda>ls. b\<lparr>lines := write_lines 0 (map (line_resize w (getNullCell default_attr)) ls) (lines b)\<rparr>)
       (those (map (ring_get (lines b)) [0..<rlen (lines b)]))"

text \<open>One more row, for a screen of \<open>h\<close> rows; the second component counts the lines taken from the scrollback.\<close>

definition add_row :: "int \<Rightarrow> int \<Rightarrow> buffer \<times> int \<Rightarrow> buffer \<times> int" where
  "add_row w h s =
     (case s of
        (b, o2) \<Rightarrow>
          if int (rlen (lines b)) < h + ybase b then
            (if 0 < ybase b \<and> int (rlen (lines b)) \<le> ybase b + cy b + o2 + 1 then
               (b\<lparr>ybase := ybase b - 1, ydisp := (if 0 < ydisp b then ydisp b - 1 else ydisp b)\<rparr>, o2 + 1)
             else (update_lines (ring_push (new_line w (Some (getNullCell default_attr)) False)) b, o2))
          else (b, o2))"

definition remove_row :: "int \<Rightarrow> buffer \<Rightarrow> buffer" where
  "remove_row h b =
     (if h + ybase b < int (rlen (lines b)) then
        (if ybase b + cy b + 1 < int (rlen (lines b)) then update_lines (\<lambda>r. snd (ring_pop r)) b
         else b\<lparr>ybase := ybase b + 1, ydisp := ydisp b + 1\<rparr>)
      else b)"

definition resize_rows :: "int \<Rightarrow> int \<Rightarrow> buffer \<Rightarrow> buffer \<times> int" where
  "resize_rows w h b =
     (if b_rows b < h then (add_row w h ^^ nat (h - b_rows b)) (b, 0)
      else ((remove_row h ^^ nat (b_rows b - h)) b, 0))"

definition shrink_store :: "nat \<Rightarrow> buffer \<Rightarrow> buffer" where
  "shrink_store n b =
     (if n < maxLength (lines b) then
        (let l = rlen (lines b) - n;
             b1 = (if 0 < l then
                     (update_lines (ring_trimStart l) b)
                       \<lparr>ybase := max (ybase b - int l) 0, ydisp := max (ydisp b - int l) 0, savedY := max (savedY b - int l) 0\<rparr>
                   else b)
         in b1\<lparr>lines := set_maxLength n (lines b1)\<rparr>)
      else b)"

definition clamp_cursor :: "int \<Rightarrow> int \<Rightarrow> int \<Rightarrow> buffer \<Rightarrow> buffer" where
  "clamp_cursor w h o2 b =
     b\<lparr>cx := min (cx b) (w - 1), cy := min (cy b) (h - 1) + o2, savedX := min (savedX b) (w - 1), scrollTop := 0\<rparr>"

definition fit_rows :: "int \<Rightarrow> int \<Rightarrow> nat \<Rightarrow> buffer \<Rightarrow> buffer" where
  "fit_rows w h n b = (case resize_rows w h b of (b1, o2) \<Rightarrow> clamp_cursor w h o2 (shrink_store n b1))"

definition resize_used :: "int \<Rightarrow> int \<Rightarrow> nat \<Rightarrow> buffer \<Rightarrow> buffer option" where
  "resize_used w h n b = map_option (fit_rows w h n) (if b_cols b < w then resize_lines w b else Some b)"

definition buffer_resize :: "bool \<Rightarrow> int \<Rightarrow> int \<Rightarrow> int \<Rightarrow> buffer \<Rightarrow> buffer option" where
  "buffer_resize cursor_too sb w h b =
     (let n = nat (correctBufferLength (hasScrollback b) sb h);
          b1 = (if maxLength (lines b) < n then b\<lparr>lines := set_maxLength n (lines b)\<rparr> else b)
      in do {
           b2 \<leftarrow> (if 0 < rlen (lines b1) then resize_used w h n b1 else Some b1);
           b3 \<leftarrow> (let b2' = b2\<lparr>scrollBottom := h - 1\<rparr> in if hasScrollback b then reflow cursor_too w h b2' else Some b2');
           b4 \<leftarrow> (if hasScrollback b \<and> w < b_cols b then resize_lines w b3 else Some b3);
           Some (b4\<lparr>b_cols := w, b_rows := h\<rparr>)
         })"

subsection \<open>Resizing the terminal\<close>

definition buffers_resize :: "bool \<Rightarrow> int \<Rightarrow> int \<Rightarrow> terminal_state \<Rightarrow> terminal_state option" where
  "buffers_resize cursor_too w h t =
     do {
       n \<leftarrow> buffer_resize cursor_too (scrollback (options t)) w h (normal_buffer t);
       a \<leftarrow> buffer_resize cursor_too (scrollback (options t)) w h (alt_buffer t);
       Some (t\<lparr>normal_buffer := setupTabStops (tabStopWidth (options t)) (Some w) n,
               alt_buffer := setupTabStops (tabStopWidth (options t)) (Some w) a\<rparr>)
     }"

definition service_resize :: "bool \<Rightarrow> int \<Rightarrow> int \<Rightarrow> terminal_state \<Rightarrow> terminal_state option" where
  "service_resize cursor_too w h t = buffers_resize cursor_too w h (t\<lparr>cols := w, rows := h\<rparr>)"

text \<open>\<open>CoreTerminal.resize\<close>: at least two columns and one row.\<close>

definition core_resize :: "bool \<Rightarrow> int \<Rightarrow> int \<Rightarrow> terminal_state \<Rightarrow> terminal_state option" where
  "core_resize cursor_too w h t = service_resize cursor_too (max w 2) (max h 1) t"

definition terminal_resize :: "bool \<Rightarrow> int \<Rightarrow> int \<Rightarrow> terminal_state \<Rightarrow> terminal_state option" where
  "terminal_resize cursor_too w h t =
     (if w = cols t \<and> h = rows t then Some t else core_resize cursor_too w h t)"

end
