(* ===== verification/Xterm_Resize_Rows.thy ===== *)
theory Xterm_Resize_Rows
  imports Xterm_Resize Xterm_Buffer_Inv
begin

text \<open>
  Resizing a buffer to another number of rows keeps its invariant, and the cursor stays on its line: rows come out
  of the scrollback and go into it, or come and go below the cursor.
\<close>

text \<open>A ring of lines with a property, and a screen of \<open>h\<close> rows of them below the scrollback.\<close>

definition lines_all :: "(line \<Rightarrow> bool) \<Rightarrow> line ring \<Rightarrow> bool" where
  "lines_all Q r \<longleftrightarrow> ring_wf r \<and> (\<forall>l \<in> set (ring_items r). Q l)"

lemma lines_ok_all: "lines_ok w = lines_all (\<lambda>l. line_length l = w)"
  by (simp add: fun_eq_iff lines_ok_def lines_all_def)

lemma lines_all_fired [simp]: "lines_all Q (r\<lparr>fired := e\<rparr>) = lines_all Q r"
  by (simp add: lines_all_def)

lemma lines_all_mono: "lines_all Q r \<Longrightarrow> (\<And>l. Q l \<Longrightarrow> Q' l) \<Longrightarrow> lines_all Q' r"
  by (simp add: lines_all_def)

lemma lines_all_get: "lines_all Q r \<Longrightarrow> i < rlen r \<Longrightarrow> \<exists>l. ring_get r i = Some l \<and> Q l"
  by (auto simp: lines_all_def ring_get_items)

lemma lines_all_set: "lines_all Q r \<Longrightarrow> i < rlen r \<Longrightarrow> Q l \<Longrightarrow> lines_all Q (ring_set i (Some l) r)"
  using ring_set_items [of r i l] set_update_subset_insert [of "ring_items r" i l] by (auto simp: lines_all_def)

lemma lines_all_push: "lines_all Q r \<Longrightarrow> Q l \<Longrightarrow> lines_all Q (ring_push l r)"
  using ring_push_items [of r l] list.set_sel(2) [of "ring_items r"]
  by (auto simp: lines_all_def split: if_splits) (metis list.set_sel(2) tl_Nil)+

definition stacked :: "(line \<Rightarrow> bool) \<Rightarrow> int \<Rightarrow> buffer \<Rightarrow> bool" where
  "stacked Q h b \<longleftrightarrow>
     lines_all Q (lines b) \<and> int (rlen (lines b)) = ybase b + h \<and> 0 \<le> ybase b \<and> 0 \<le> ydisp b \<and> ydisp b \<le> ybase b"

abbreviation fresh_line :: "int \<Rightarrow> line" where
  "fresh_line w \<equiv> new_line w (Some (getNullCell default_attr)) False"

lemma frame_stacked: "buf_frame w h b \<Longrightarrow> stacked (\<lambda>l. line_length l = w) h b"
  by (simp add: buf_frame_def stacked_def lines_ok_all)

text \<open>A buffer \<open>c\<close> made of \<open>b\<close> that has \<open>h\<close> rows below the scrollback; lines that are in both are the same.\<close>

definition rows_of :: "(line \<Rightarrow> bool) \<Rightarrow> int \<Rightarrow> buffer \<Rightarrow> buffer \<Rightarrow> bool" where
  "rows_of Q h b c \<longleftrightarrow>
     lines_all Q (lines c) \<and> int (rlen (lines c)) = ybase c + h \<and> 0 \<le> ybase c \<and> 0 \<le> ydisp c \<and> ydisp c \<le> ybase c
     \<and> maxLength (lines c) = maxLength (lines b) \<and> cx c = cx b \<and> cy c = cy b \<and> savedX c = savedX b
     \<and> b_cols c = b_cols b \<and> b_rows c = b_rows b \<and> hasScrollback c = hasScrollback b
     \<and> (\<forall>k. k < rlen (lines b) \<longrightarrow> k < rlen (lines c) \<longrightarrow> ring_get (lines c) k = ring_get (lines b) k)"

lemma rows_of_refl: "stacked Q h b \<Longrightarrow> rows_of Q h b b"
  by (simp add: rows_of_def stacked_def)

subsection \<open>Rows added\<close>

lemma ring_push_get:
  assumes "ring_wf r" "\<not> isFull r" "k < rlen r"
  shows "ring_get (ring_push x r) k = ring_get r k"
  using assms get_set [of "rlen r" 0 r k "Some x"] ring_wf_bounds [OF assms(1)]
  by (simp add: ring_push_def isFull_def Let_def)

lemma add_row_of:
  assumes b: "rows_of Q (h + i) b c" and o2: "ybase c = ybase b - o2" "0 \<le> o2" "o2 \<le> i"
    and i: "0 \<le> i" "h + i < h'" and Q: "Q (fresh_line w)" and room: "ybase b + h' \<le> int (maxLength (lines b))"
    and len: "rlen (lines b) \<le> rlen (lines c)" and cy: "cy b < h"
  shows "case add_row w h' (c, o2) of (c', o3) \<Rightarrow>
    rows_of Q (h + (i + 1)) b c' \<and> ybase c' = ybase b - o3 \<and> 0 \<le> o3 \<and> o3 \<le> i + 1 \<and> rlen (lines b) \<le> rlen (lines c')"
proof -
  have l: "int (rlen (lines c)) = ybase c + h + i" using b by (simp add: rows_of_def)
  then have new: "int (rlen (lines c)) < h' + ybase c" using i by simp
  show ?thesis
  proof (cases "0 < ybase c \<and> int (rlen (lines c)) \<le> ybase c + cy c + o2 + 1")
    case True
    then show ?thesis using new b o2 len by (auto simp: add_row_def rows_of_def)
  next
    case False
    let ?x = "fresh_line w"
    have ok: "lines_all Q (lines c)" "maxLength (lines c) = maxLength (lines b)" using b by (simp_all add: rows_of_def)
    then have wf: "ring_wf (lines c)" by (simp add: lines_all_def)
    have nf: "\<not> isFull (lines c)" using l o2 i room ok(2) by (simp add: isFull_def)
    have push: "lines_all Q (ring_push ?x (lines c\<lparr>fired := []\<rparr>))"
      by (rule lines_all_push) (use ok Q in simp_all)
    have keep: "ring_get (ring_push ?x (lines c\<lparr>fired := []\<rparr>)) k = ring_get (lines c) k" if "k < rlen (lines c)" for k
      using ring_push_get [of "lines c\<lparr>fired := []\<rparr>" k ?x] wf nf that by simp
    have "add_row w h' (c, o2) = (update_lines (ring_push ?x) c, o2)" using new False by (simp add: add_row_def)
    then show ?thesis using b o2 len push keep nf by (simp add: rows_of_def)
  qed
qed

lemma add_rows_of:
  assumes b: "stacked Q h b" "cy b < h" "Q (fresh_line w)" and room: "ybase b + h' \<le> int (maxLength (lines b))"
    and n: "h + int n \<le> h'"
  shows "case (add_row w h' ^^ n) (b, 0) of (c, o2) \<Rightarrow>
    rows_of Q (h + int n) b c \<and> ybase c = ybase b - o2 \<and> 0 \<le> o2 \<and> o2 \<le> int n \<and> rlen (lines b) \<le> rlen (lines c)"
  using n
proof (induction n)
  case 0
  then show ?case using rows_of_refl [OF b(1)] by simp
next
  case (Suc n)
  obtain c o2 where c: "(add_row w h' ^^ n) (b, 0) = (c, o2)" by (cases "(add_row w h' ^^ n) (b, 0)")
  have "rows_of Q (h + int n) b c" "ybase c = ybase b - o2" "0 \<le> o2" "o2 \<le> int n" "rlen (lines b) \<le> rlen (lines c)"
    using Suc c by simp_all
  from add_row_of [where Q = Q, OF this(1-4) _ _ b(3) room this(5) b(2)] show ?case using Suc.prems c by (simp add: algebra_simps)
qed

subsection \<open>Rows removed\<close>

lemma pop_lines_all:
  assumes "lines_all Q r" "0 < rlen r"
  shows "lines_all Q (snd (ring_pop r))" "rlen (snd (ring_pop r)) = rlen r - 1" "maxLength (snd (ring_pop r)) = maxLength r"
    "ring_get (snd (ring_pop r)) k = ring_get r k"
  using assms ring_pop_items [of r] in_set_butlastD by (fastforce simp: lines_all_def, simp_all add: ring_pop_def)

lemma remove_row_of:
  assumes b: "rows_of Q h c0 b" and h: "h' < h" "1 \<le> h'"
  shows "rows_of Q (h - 1) c0 (remove_row h' b)
    \<and> ybase (remove_row h' b) + min (cy b) (h - 2) = ybase b + min (cy b) (h - 1)
    \<and> rlen (lines (remove_row h' b)) \<le> rlen (lines b) \<and> ybase b \<le> ybase (remove_row h' b)"
proof -
  have l: "int (rlen (lines b)) = ybase b + h" "0 \<le> ybase b" and ok: "lines_all Q (lines b)"
    using b by (simp_all add: rows_of_def)
  have m: "h' + ybase b < int (rlen (lines b))" using l h by simp
  show ?thesis
  proof (cases "ybase b + cy b + 1 < int (rlen (lines b))")
    case True
    then have "remove_row h' b = update_lines (\<lambda>r. snd (ring_pop r)) b" using m by (simp add: remove_row_def)
    moreover have "0 < rlen (lines b)" using l h by linarith
    moreover have "cy b < h - 1" using True l by simp
    ultimately show ?thesis using pop_lines_all [of Q "lines b\<lparr>fired := []\<rparr>"] ok b l
      by (auto simp: rows_of_def)
  next
    case False
    then show ?thesis using m b l h by (auto simp: remove_row_def rows_of_def)
  qed
qed

lemma remove_rows_of:
  assumes b: "stacked Q h b" "cy b < h" and h: "1 \<le> h'" and n: "h' + int n \<le> h"
  shows "rows_of Q (h - int n) b ((remove_row h' ^^ n) b)
    \<and> ybase ((remove_row h' ^^ n) b) + min (cy b) (h - int n - 1) = ybase b + cy b
    \<and> rlen (lines ((remove_row h' ^^ n) b)) \<le> rlen (lines b)"
  using n
proof (induction n)
  case 0
  then show ?case using rows_of_refl [OF b(1)] b(2) by simp
next
  case (Suc n)
  let ?c = "(remove_row h' ^^ n) b"
  have c: "rows_of Q (h - int n) b ?c" "ybase ?c + min (cy b) (h - int n - 1) = ybase b + cy b" "rlen (lines ?c) \<le> rlen (lines b)"
    using Suc by simp_all
  moreover have "cy ?c = cy b" using c(1) by (simp add: rows_of_def)
  ultimately show ?case using remove_row_of [OF c(1), of h'] Suc.prems h by (simp add: algebra_simps)
qed

lemma resize_rows_of:
  assumes b: "stacked Q h b" "0 \<le> cy b" "cy b < h" "Q (fresh_line w)" "b_rows b = h" and h: "1 \<le> h'"
    and room: "ybase b + h' \<le> int (maxLength (lines b)) \<or> h' \<le> h"
  obtains c o2 where "resize_rows w h' b = (c, o2)" "rows_of Q h' b c" "0 \<le> o2"
    "ybase c + (min (cy b) (h' - 1) + o2) = ybase b + cy b" "min (cy b) (h' - 1) + o2 < h'"
    "nat (ybase b + cy b) < rlen (lines c)"
proof (cases "h < h'")
  case True
  obtain c o2 where c: "(add_row w h' ^^ nat (h' - h)) (b, 0) = (c, o2)" by (cases "(add_row w h' ^^ nat (h' - h)) (b, 0)")
  have r: "rows_of Q h' b c" "ybase c = ybase b - o2" "0 \<le> o2" "o2 \<le> h' - h"
    using add_rows_of [OF b(1,3,4), of h' "nat (h' - h)"] True room c by simp_all
  have "resize_rows w h' b = (c, o2)" using b(5) True c by (simp add: resize_rows_def)
  moreover have "nat (ybase b + cy b) < rlen (lines c)" using r b True by (auto simp: rows_of_def stacked_def)
  ultimately show ?thesis using that [of c o2] r True b by simp
next
  case False
  let ?c = "(remove_row h' ^^ nat (h - h')) b"
  have r: "rows_of Q h' b ?c" "ybase ?c + min (cy b) (h' - 1) = ybase b + cy b"
    using remove_rows_of [OF b(1,3) h, of "nat (h - h')"] False by simp_all
  have "resize_rows w h' b = (?c, 0)" using b(5) False by (simp add: resize_rows_def)
  moreover have "nat (ybase b + cy b) < rlen (lines ?c)"
  proof -
    have "int (rlen (lines ?c)) = ybase ?c + h'" using r(1) by (simp add: rows_of_def)
    moreover have "ybase b + cy b \<le> ybase ?c + (h' - 1)" unfolding r(2) [symmetric] by simp
    moreover have "0 \<le> ybase b + cy b" using b(1,2) by (simp add: stacked_def)
    ultimately show ?thesis by (simp add: nat_less_iff)
  qed
  ultimately show ?thesis using that [of ?c 0] r h by simp
qed

subsection \<open>The store\<close>

lemma trim_lines_all:
  assumes "lines_all Q r"
  shows "lines_all Q (ring_trimStart n r)" "rlen (ring_trimStart n r) = rlen r - n"
    "maxLength (ring_trimStart n r) = maxLength r"
    "n \<le> k \<Longrightarrow> k < rlen r \<Longrightarrow> ring_get (ring_trimStart n r) (k - n) = ring_get r k"
proof -
  have wf: "ring_wf r" using assms by (simp add: lines_all_def)
  note t = ring_trimStart_items [OF wf, of n]
  show "lines_all Q (ring_trimStart n r)" using assms t by (auto simp: lines_all_def dest: in_set_dropD)
  show len: "rlen (ring_trimStart n r) = rlen r - n" "maxLength (ring_trimStart n r) = maxLength r"
    by (simp_all add: ring_trimStart_def Let_def)
  show "ring_get (ring_trimStart n r) (k - n) = ring_get r k" if "n \<le> k" "k < rlen r"
    using that t len ring_get_items [of "ring_trimStart n r" "k - n"] ring_get_items [OF wf that(2)] by simp
qed

lemma set_maxLength_all:
  assumes "lines_all Q r" "rlen r \<le> n" "0 < n"
  shows "lines_all Q (set_maxLength n r)" "rlen (set_maxLength n r) = rlen r" "maxLength (set_maxLength n r) = n"
    "k < rlen r \<Longrightarrow> ring_get (set_maxLength n r) k = ring_get r k"
proof -
  have wf: "ring_wf r" using assms(1) by (simp add: lines_all_def)
  show len: "rlen (set_maxLength n r) = rlen r" "maxLength (set_maxLength n r) = n" by (auto simp: set_maxLength_def)
  show get: "ring_get (set_maxLength n r) k = ring_get r k" if "k < rlen r" for k
    using that assms(2) by (auto simp: set_maxLength_def ring_get_def cyclicIndex_def)
  have "ring_wf (set_maxLength n r) \<and> ring_items (set_maxLength n r) = ring_items r"
  proof (rule ring_eqI)
    show "length (arr (set_maxLength n r)) = maxLength (set_maxLength n r)"
      using ring_wf_bounds(3) [OF wf] by (auto simp: set_maxLength_def)
  qed (use len get ring_get_items [OF wf] assms in simp_all)
  then show "lines_all Q (set_maxLength n r)" using assms(1) by (simp add: lines_all_def)
qed

lemma shrink_store_of:
  assumes c: "lines_all Q (lines c)" "int (rlen (lines c)) = ybase c + h" "0 \<le> ybase c" "0 \<le> ydisp c" "ydisp c \<le> ybase c"
    and n: "h \<le> int n" "1 \<le> h" and k: "ybase c \<le> int k" "k < rlen (lines c)"
  shows "\<exists>l. lines_all Q (lines (shrink_store n c)) \<and> int (rlen (lines (shrink_store n c))) = ybase (shrink_store n c) + h
    \<and> ybase (shrink_store n c) = ybase c - int l \<and> 0 \<le> ybase (shrink_store n c) \<and> l \<le> k
    \<and> 0 \<le> ydisp (shrink_store n c) \<and> ydisp (shrink_store n c) \<le> ybase (shrink_store n c)
    \<and> ring_get (lines (shrink_store n c)) (k - l) = ring_get (lines c) k
    \<and> cx (shrink_store n c) = cx c \<and> cy (shrink_store n c) = cy c \<and> savedX (shrink_store n c) = savedX c
    \<and> b_cols (shrink_store n c) = b_cols c \<and> hasScrollback (shrink_store n c) = hasScrollback c
    \<and> maxLength (lines (shrink_store n c)) = min n (maxLength (lines c))"
proof (cases "n < maxLength (lines c)")
  case False
  then show ?thesis using c k by (intro exI [of _ 0]) (simp add: shrink_store_def)
next
  case small: True
  have pos: "0 < n" using n by simp
  let ?l = "rlen (lines c) - n"
  show ?thesis
  proof (cases "0 < ?l")
    case False
    then have le: "rlen (lines c) \<le> n" by simp
    show ?thesis using c k small set_maxLength_all [OF c(1) le pos] False
      by (intro exI [of _ 0]) (simp add: shrink_store_def)
  next
    case True
    let ?r = "ring_trimStart ?l (lines c\<lparr>fired := []\<rparr>)"
    have r: "lines_all Q ?r" "rlen ?r = n" using trim_lines_all [of Q "lines c\<lparr>fired := []\<rparr>" ?l] c(1) True by simp_all
    have le: "rlen ?r \<le> n" using r by simp
    have lk: "?l \<le> k" "k - ?l < n" using n c(2) k True by linarith+
    have get: "ring_get ?r (k - ?l) = ring_get (lines c) k"
      using trim_lines_all(4) [of Q "lines c\<lparr>fired := []\<rparr>" ?l k] c(1) lk k by simp
    have y: "ybase c - int ?l = int n - h" using c(2) True by simp
    have s: "lines (shrink_store n c) = set_maxLength n ?r" "ybase (shrink_store n c) = ybase c - int ?l"
      "ydisp (shrink_store n c) = max (ydisp c - int ?l) 0"
      using small True y n by (simp_all add: shrink_store_def Let_def)
    have others: "cx (shrink_store n c) = cx c" "cy (shrink_store n c) = cy c" "savedX (shrink_store n c) = savedX c"
      "b_cols (shrink_store n c) = b_cols c" "hasScrollback (shrink_store n c) = hasScrollback c"
      using small True by (simp_all add: shrink_store_def Let_def)
    show ?thesis unfolding s others
      using set_maxLength_all [OF r(1) le pos] r get lk y c n small by (intro exI [of _ ?l]) auto
  qed
qed

subsection \<open>The resize\<close>

lemma enlarge_store:
  assumes "stacked Q h b" "maxLength (lines b) < n"
  shows "stacked Q h (b\<lparr>lines := set_maxLength n (lines b)\<rparr>)"
    "k < rlen (lines b) \<Longrightarrow> ring_get (set_maxLength n (lines b)) k = ring_get (lines b) k"
    "maxLength (set_maxLength n (lines b)) = n" "rlen (set_maxLength n (lines b)) = rlen (lines b)"
proof -
  have ok: "lines_all Q (lines b)" "rlen (lines b) \<le> n" "0 < n"
    using assms ring_wf_bounds [of "lines b"] by (auto simp: stacked_def lines_all_def)
  note m = set_maxLength_all [OF ok]
  show "maxLength (set_maxLength n (lines b)) = n" "rlen (set_maxLength n (lines b)) = rlen (lines b)" using m by simp_all
  show "k < rlen (lines b) \<Longrightarrow> ring_get (set_maxLength n (lines b)) k = ring_get (lines b) k" using m by simp
  show "stacked Q h (b\<lparr>lines := set_maxLength n (lines b)\<rparr>)" using assms(1) m by (simp add: stacked_def)
qed

text \<open>The size that the store of a buffer has for a number of rows.\<close>

definition store_size :: "int \<Rightarrow> int \<Rightarrow> buffer \<Rightarrow> bool" where
  "store_size sb h b \<longleftrightarrow> maxLength (lines b) = nat (correctBufferLength (hasScrollback b) sb h)"

text \<open>With the store big enough for the new rows, the buffer in use is resized as it should be.\<close>

lemma fit_rows_of:
  assumes b: "stacked Q h b" "0 \<le> cy b" "cy b < h" "Q (fresh_line w)" "b_rows b = h" and h: "1 \<le> h'" "h' \<le> int n"
    and room: "ybase b + h' \<le> int (maxLength (lines b)) \<or> h' \<le> h" and x: "0 \<le> savedX b" "1 \<le> w"
  shows "stacked Q h' (fit_rows w h' n b)" "scrollTop (fit_rows w h' n b) = 0" "0 \<le> savedX (fit_rows w h' n b)"
    "b_cols (fit_rows w h' n b) = b_cols b" "hasScrollback (fit_rows w h' n b) = hasScrollback b"
    "0 \<le> cy (fit_rows w h' n b)" "cy (fit_rows w h' n b) < h'" "cx (fit_rows w h' n b) = min (cx b) (w - 1)"
    "maxLength (lines (fit_rows w h' n b)) = min n (maxLength (lines b))"
    "lines_get (fit_rows w h' n b) (ybase (fit_rows w h' n b) + cy (fit_rows w h' n b)) = lines_get b (ybase b + cy b)"
proof -
  obtain c o2 where c: "resize_rows w h' b = (c, o2)" "rows_of Q h' b c" "0 \<le> o2"
    "ybase c + (min (cy b) (h' - 1) + o2) = ybase b + cy b" "min (cy b) (h' - 1) + o2 < h'"
    "nat (ybase b + cy b) < rlen (lines c)"
    using resize_rows_of [OF b(1-5) h(1) room] by auto
  have f: "lines_all Q (lines c)" "int (rlen (lines c)) = ybase c + h'" "0 \<le> ybase c" "0 \<le> ydisp c" "ydisp c \<le> ybase c"
    "maxLength (lines c) = maxLength (lines b)" "cx c = cx b" "cy c = cy b" "savedX c = savedX b" "b_cols c = b_cols b"
    "hasScrollback c = hasScrollback b"
    "\<And>k. k < rlen (lines b) \<Longrightarrow> k < rlen (lines c) \<Longrightarrow> ring_get (lines c) k = ring_get (lines b) k"
    using c(2) by (simp_all add: rows_of_def)
  have g: "0 \<le> ybase b" "int (rlen (lines b)) = ybase b + h" using b(1) by (simp_all add: stacked_def)
  let ?k = "nat (ybase b + cy b)"
  have k: "ybase c \<le> int ?k" using c(3,4) g(1) b(2) h(1) by simp
  obtain l where s: "lines_all Q (lines (shrink_store n c))" "int (rlen (lines (shrink_store n c))) = ybase (shrink_store n c) + h'"
    "ybase (shrink_store n c) = ybase c - int l" "0 \<le> ybase (shrink_store n c)" "l \<le> ?k"
    "0 \<le> ydisp (shrink_store n c)" "ydisp (shrink_store n c) \<le> ybase (shrink_store n c)"
    "ring_get (lines (shrink_store n c)) (?k - l) = ring_get (lines c) ?k"
    "cx (shrink_store n c) = cx c" "cy (shrink_store n c) = cy c" "savedX (shrink_store n c) = savedX c"
    "b_cols (shrink_store n c) = b_cols c" "hasScrollback (shrink_store n c) = hasScrollback c"
    "maxLength (lines (shrink_store n c)) = min n (maxLength (lines c))"
    using shrink_store_of [OF f(1-5) h(2,1) k c(6)] by blast
  let ?d = "clamp_cursor w h' o2 (shrink_store n c)"
  have d: "fit_rows w h' n b = ?d" using c(1) by (simp add: fit_rows_def)
  have cy: "cy ?d = min (cy b) (h' - 1) + o2" using s f by (simp add: clamp_cursor_def)
  have kb: "?k < rlen (lines b)" using g b(3) b(2) by (simp add: nat_less_iff)
  have pos: "ybase ?d + cy ?d = int (?k - l)"
    using s(3,5) c(4) cy g(1) b(2) by (simp add: clamp_cursor_def of_nat_diff)
  show "lines_get (fit_rows w h' n b) (ybase (fit_rows w h' n b) + cy (fit_rows w h' n b)) = lines_get b (ybase b + cy b)"
    using s(8) f(12) [OF kb c(6)] g(1) b(2) unfolding d lines_get_def pos by (simp add: clamp_cursor_def)
  show "stacked Q h' (fit_rows w h' n b)" unfolding d using s by (simp add: stacked_def clamp_cursor_def)
  show "scrollTop (fit_rows w h' n b) = 0" "0 \<le> savedX (fit_rows w h' n b)"
    "b_cols (fit_rows w h' n b) = b_cols b" "hasScrollback (fit_rows w h' n b) = hasScrollback b"
    "cx (fit_rows w h' n b) = min (cx b) (w - 1)" "maxLength (lines (fit_rows w h' n b)) = min n (maxLength (lines b))"
    unfolding d using s f x by (simp_all add: clamp_cursor_def)
  show "0 \<le> cy (fit_rows w h' n b)" "cy (fit_rows w h' n b) < h'" unfolding d cy using c(3,5) b(2) h(1) by simp_all
qed

text \<open>The store has room for the screen, after it has been made larger if it has to be.\<close>

definition grow_store :: "nat \<Rightarrow> buffer \<Rightarrow> buffer" where
  "grow_store n b = (if maxLength (lines b) < n then b\<lparr>lines := set_maxLength n (lines b)\<rparr> else b)"

lemma buffer_resize_steps:
  assumes "n = nat (correctBufferLength (hasScrollback b) sb h)" "0 < rlen (lines (grow_store n b))"
    "resize_used w h n (grow_store n b) = Some c"
  shows "buffer_resize cursor_too sb w h b =
    (case (if hasScrollback b then reflow cursor_too w h (c\<lparr>scrollBottom := h - 1\<rparr>) else Some (c\<lparr>scrollBottom := h - 1\<rparr>)) of
       None \<Rightarrow> None
     | Some b3 \<Rightarrow> map_option (\<lambda>b4. b4\<lparr>b_cols := w, b_rows := h\<rparr>)
         (if hasScrollback b \<and> w < b_cols b then resize_lines w b3 else Some b3))"
  using assms(2,3) unfolding buffer_resize_def assms(1) [symmetric] grow_store_def [symmetric] Let_def
  by (simp split: option.split bind_split)

lemma grow_store_of:
  assumes b: "stacked Q h b" "0 \<le> cy b" "cy b < h"
    and sb: "0 \<le> sb" "h + sb \<le> 4294967295" "h' + sb \<le> 4294967295" "store_size sb h b" "1 \<le> h'"
    and n: "n = nat (correctBufferLength (hasScrollback b) sb h')"
  shows "stacked Q h (grow_store n b)" "cy (grow_store n b) = cy b" "ybase (grow_store n b) = ybase b"
    "hasScrollback (grow_store n b) = hasScrollback b" "b_cols (grow_store n b) = b_cols b" "b_rows (grow_store n b) = b_rows b"
    "savedX (grow_store n b) = savedX b" "rlen (lines (grow_store n b)) = rlen (lines b)" "h' \<le> int n"
    "ybase b + h' \<le> int (maxLength (lines (grow_store n b))) \<or> h' \<le> h" "n \<le> maxLength (lines (grow_store n b))"
    "lines_get (grow_store n b) (ybase b + cy b) = lines_get b (ybase b + cy b)"
proof -
  have g: "int (rlen (lines b)) = ybase b + h" "0 \<le> ybase b" "lines_all Q (lines b)" using b(1) by (simp_all add: stacked_def)
  have i: "int n = (if hasScrollback b then h' + sb else h')" using n sb by (simp add: correctBufferLength_def)
  have m: "int (maxLength (lines b)) = (if hasScrollback b then h + sb else h)"
    using sb b by (simp add: store_size_def correctBufferLength_def)
  have le: "ybase b + h \<le> int (maxLength (lines b))"
    using g ring_wf_bounds(1) [of "lines b"] by (simp add: lines_all_def flip: g(1))
  show "stacked Q h (grow_store n b)" "cy (grow_store n b) = cy b" "ybase (grow_store n b) = ybase b"
    "hasScrollback (grow_store n b) = hasScrollback b" "b_cols (grow_store n b) = b_cols b" "b_rows (grow_store n b) = b_rows b"
    "savedX (grow_store n b) = savedX b" "rlen (lines (grow_store n b)) = rlen (lines b)" "n \<le> maxLength (lines (grow_store n b))"
    using b(1) enlarge_store [OF b(1), of n] by (simp_all add: grow_store_def)
  have max: "int (maxLength (lines (grow_store n b))) = max (int n) (int (maxLength (lines b)))"
    using enlarge_store [OF b(1), of n] by (simp add: grow_store_def)
  show "h' \<le> int n" using i sb(1) by simp
  show "ybase b + h' \<le> int (maxLength (lines (grow_store n b))) \<or> h' \<le> h" using max i m le by (auto split: if_splits)
  show "lines_get (grow_store n b) (ybase b + cy b) = lines_get b (ybase b + cy b)"
    using enlarge_store(2) [OF b(1), of n "nat (ybase b + cy b)"] g(1,2) b(2,3)
    by (simp add: grow_store_def lines_get_def nat_less_iff)
qed

text \<open>
  C12: Resizing a buffer in use to another number of rows: it returns, the buffer is well-formed for the new screen
  with exactly the lines of the scrollback above it, the cursor is in the screen on the same line as before, and
  the store has the new size.
\<close>

theorem resize_rows_keeps_cursor_line:
  assumes b: "buf_frame w h b" "0 \<le> cy b" "cy b < h" "0 < w" and h: "1 \<le> h'"
    and sb: "0 \<le> sb" "h + sb \<le> 4294967295" "h' + sb \<le> 4294967295" "store_size sb h b"
  shows "\<exists>b'. buffer_resize cursor_too sb w h' b = Some b' \<and> buf_frame w h' b' \<and> store_size sb h' b'
    \<and> 0 \<le> cy b' \<and> cy b' < h' \<and> lines_get b' (ybase b' + cy b') = lines_get b (ybase b + cy b)"
proof -
  define n where "n = nat (correctBufferLength (hasScrollback b) sb h')"
  let ?Q = "\<lambda>l. line_length l = w" and ?b1 = "grow_store n b"
  have g: "b_cols b = w" "b_rows b = h" "0 \<le> savedX b" using b(1) by (simp_all add: buf_frame_def)
  note b1 = grow_store_of [OF frame_stacked [OF b(1)] b(2,3) sb h n_def]
  have Q: "?Q (fresh_line w)" using b(4) by simp
  have p: "0 \<le> cy ?b1" "cy ?b1 < h" "b_rows ?b1 = h" "0 \<le> savedX ?b1" "1 \<le> w"
    "ybase ?b1 + h' \<le> int (maxLength (lines ?b1)) \<or> h' \<le> h"
    using b1(2,3,6,7,10) b g by simp_all
  let ?c = "fit_rows w h' n ?b1"
  note c = fit_rows_of [where Q = ?Q, OF b1(1) p(1,2) Q p(3) h b1(9) p(6,4,5)]
  have c: "stacked ?Q h' ?c" "scrollTop ?c = 0" "0 \<le> savedX ?c" "hasScrollback ?c = hasScrollback b" "0 \<le> cy ?c" "cy ?c < h'"
    "maxLength (lines ?c) = n" "lines_get ?c (ybase ?c + cy ?c) = lines_get b (ybase b + cy b)" "b_cols ?c = w"
    using c b1(2-5,11,12) g(1) by (simp_all only: min_absorb1)
  let ?d = "?c\<lparr>scrollBottom := h' - 1, b_cols := w, b_rows := h'\<rparr>"
  have "0 < rlen (lines ?b1)" using b1(8) frame_bounds(2,3) [OF b(1)] b(2,3) by linarith
  moreover have "resize_used w h' n ?b1 = Some ?c" using b1(5) g(1) by (simp add: resize_used_def)
  ultimately have "buffer_resize cursor_too sb w h' b = Some ?d"
    using c(9) g(1) by (simp add: buffer_resize_steps [OF n_def] reflow_def)
  moreover have "buf_frame w h' ?d" using c h by (simp add: buf_frame_def stacked_def lines_ok_all)
  moreover have "store_size sb h' ?d" using c(4,7) by (simp add: store_size_def flip: n_def)
  moreover have "lines_get ?d i = lines_get ?c i" for i by (simp add: lines_get_def)
  ultimately show ?thesis using c(5,6,8) by (intro exI [of _ ?d]) simp
qed

end
