(* ===== verification/Xterm_Resize_Larger.thy ===== *)
theory Xterm_Resize_Larger
  imports Xterm_Resize_Rows
begin

text \<open>
  A group of wrapped lines on a wider screen: the loop that moves the cells ends, and it stays in the group unless
  the last line ends in the first half of a wide character. With such a line it can run out of the group, and the
  resize of the terminal throws.
\<close>

subsection \<open>Lines of a group\<close>

definition all_length :: "int \<Rightarrow> line list \<Rightarrow> bool" where
  "all_length e ls \<longleftrightarrow> (\<forall>l \<in> set ls. line_length l = e)"

lemma all_length_in: "all_length e ls \<Longrightarrow> 0 \<le> i \<Longrightarrow> i < int (length ls) \<Longrightarrow> line_length (line_in ls i) = e"
  by (simp add: all_length_def line_in_def)

lemma line_in_upd:
  "line_in (upd_in i f ls) j = (if i = j \<and> 0 \<le> i \<and> i < int (length ls) then f (line_in ls i) else line_in ls j)"
  by (auto simp: line_in_def upd_in_def nth_list_update nat_eq_iff2)

lemma length_upd_in [simp]: "length (upd_in i f ls) = length ls"
  by (simp add: upd_in_def)

lemma all_length_upd:
  assumes "all_length e ls" "\<And>l. line_length (f l) = line_length l"
  shows "all_length e (upd_in i f ls)"
proof (cases "0 \<le> i \<and> nat i < length ls")
  case True
  then have "line_length (line_in ls i) = e" using all_length_in [OF assms(1), of i] by linarith
  then show ?thesis using assms set_update_subset_insert [of ls "nat i" "f (line_in ls i)"] True
    by (auto simp: all_length_def upd_in_def)
qed (use assms(1) in \<open>auto simp: upd_in_def list_update_beyond\<close>)

lemma length_copyCellsWithin [simp]: "line_length (copyCellsWithin e i n rv l) = line_length l"
  by (simp add: copyCellsWithin_def Let_def copy_slot_def)

lemma length_copy_between [simp]: "length (copy_between k c p d n rv ls) = length ls"
  by (simp add: copy_between_def)

lemma all_length_copy: "all_length e ls \<Longrightarrow> all_length e (copy_between k c p d n rv ls)"
  by (simp add: copy_between_def all_length_upd)

lemma line_in_copy: "c \<noteq> j \<Longrightarrow> line_in (copy_between k c p d n rv ls) j = line_in ls j"
  by (simp add: copy_between_def line_in_upd)

lemma copy_none: "n \<le> 0 \<Longrightarrow> slots (line_in (copy_between k c p d n False ls) j) = slots (line_in ls j)"
  by (simp add: copy_between_def line_in_upd copyCellsWithin_def copyCellsFrom_def Let_def)

lemma getWidth_slots: "slots a = slots b \<Longrightarrow> getWidth a i = getWidth b i"
  by (simp add: getWidth_def slot_at_def line_length_def)

text \<open>A width is what is left of 32 bits.\<close>

lemma width_of_bounds: "-512 \<le> width_of c" "width_of c \<le> 511"
proof -
  have "- (2 ^ 31) \<le> sint c" "sint c < 2 ^ 31" for c :: "32 word"
    using sint_ge [of c] sint_lt [of c] by simp_all
  then have "- (2 ^ 31) \<le> sint c" "sint c < 2 ^ 31" by blast+
  then show "-512 \<le> width_of c" "width_of c \<le> 511"
    by (simp_all add: width_of_def sint_signed_drop_bit_eq drop_bit_eq_div)
qed

lemma trimmed_bounds: "getTrimmedLength l \<le> line_length l + 510"
proof (cases "List.find (\<lambda>i. truthy (s_content (slots l ! i) AND 0x3FFFFF)) (rev [0..<length (slots l)])")
  case (Some i)
  then have "i < length (slots l)" by (auto simp: find_Some_iff rev_nth)
  then show ?thesis using Some width_of_bounds(2) [of "s_content (slots l ! i)"]
    by (simp add: getTrimmedLength_def trimmed_def line_length_def)
qed (simp add: getTrimmedLength_def trimmed_def line_length_def)

lemma wrapped_length_bounds:
  assumes "1 \<le> w" "w \<le> e" "all_length e ls" "0 \<le> i" "i < int (length ls)"
  shows "getWrappedLineTrimmedLength ls i w \<le> e + 510"
    "i < int (length ls) - 1 \<Longrightarrow> w - 1 \<le> getWrappedLineTrimmedLength ls i w \<and> getWrappedLineTrimmedLength ls i w \<le> w"
    "i = int (length ls) - 1 \<Longrightarrow> getWrappedLineTrimmedLength ls i w = getTrimmedLength (line_in ls i)"
  using assms trimmed_bounds [of "line_in ls i"] all_length_in [OF assms(3-5)]
  by (auto simp: getWrappedLineTrimmedLength_def)

subsection \<open>The loop ends\<close>

text \<open>One round of the loop, as it stands in the code.\<close>

definition round :: "int \<Rightarrow> int \<Rightarrow> line list \<Rightarrow> int \<Rightarrow> int \<Rightarrow> int \<Rightarrow> int \<Rightarrow> line list \<times> int \<times> int \<times> int \<times> int" where
  "round w e ls c d k p =
     (let f = getWrappedLineTrimmedLength ls k w; n = min (f - p) (e - d)
      in (copy_between k c p d n False ls,
          if d + n = e then c + 1 else c, if d + n = e then 0 else d + n,
          if p + n = f then k + 1 else k, if p + n = f then 0 else p + n))"

definition pads :: "int \<Rightarrow> line list \<Rightarrow> int \<Rightarrow> int \<Rightarrow> bool" where
  "pads e ls c d \<longleftrightarrow> d = 0 \<and> c \<noteq> 0 \<and> getWidth (line_in ls (c - 1)) (e - 1) = 2"

definition pad :: "int \<Rightarrow> cell \<Rightarrow> line list \<Rightarrow> int \<Rightarrow> int \<Rightarrow> line list" where
  "pad e nc ls c d = upd_in (c - 1) (setCell (e - 1) nc) (copy_between (c - 1) c (e - 1) d 1 False ls)"

lemma larger_loop_end: "int (length ls) \<le> k \<Longrightarrow> larger_loop fuel w e nc ls c d k p = Some (ls, c, d)"
  by (simp add: larger_loop.simps)

lemma larger_loop_round:
  assumes "k < int (length ls)" "round w e ls c d k p = (ls1, c1, d1, k1, p1)"
  shows "larger_loop (Suc fuel) w e nc ls c d k p =
    (if int (length ls) \<le> c then None
     else if pads e ls1 c1 d1 then
       (if int (length ls) \<le> c1 then None else larger_loop fuel w e nc (pad e nc ls1 c1 d1) c1 (d1 + 1) k1 p1)
     else larger_loop fuel w e nc ls1 c1 d1 k1 p1)"
proof -
  define f where "f = getWrappedLineTrimmedLength ls k w"
  define n where "n = min (f - p) (e - d)"
  have nk: "\<not> int (length ls) \<le> k" using assms(1) by simp
  have "larger_loop (Suc fuel) w e nc ls c d k p =
    (if int (length ls) \<le> c then None
     else
       (case round w e ls c d k p of
          (ls1, c1, d1, k1, p1) \<Rightarrow>
            if pads e ls1 c1 d1 then
              (if int (length ls) \<le> c1 then None else larger_loop fuel w e nc (pad e nc ls1 c1 d1) c1 (d1 + 1) k1 p1)
            else larger_loop fuel w e nc ls1 c1 d1 k1 p1))"
    by (cases "d + n = e"; cases "p + n = f")
      (simp_all add: larger_loop.simps [of "Suc fuel"] round_def Let_def pads_def pad_def nk flip: f_def n_def)
  then show ?thesis by (simp add: assms(2))
qed

lemma all_length_pad: "all_length e ls \<Longrightarrow> all_length e (pad e nc ls c d)" "length (pad e nc ls c d) = length ls"
  by (simp_all add: pad_def all_length_upd all_length_copy)

text \<open>What every round does to the counters.\<close>

lemma round_facts:
  assumes r: "round w e ls c d k p = (ls1, c1, d1, k1, p1)" and w: "1 \<le> w" "w \<le> e" "2 \<le> e" "all_length e ls"
    and k: "0 \<le> k" "k < int (length ls)" and i: "d < e" "0 \<le> p" "p \<le> e + 510"
  shows "all_length e ls1" "length ls1 = length ls" "d1 < e" "0 \<le> p1" "p1 \<le> e + 510"
    "k1 = k + 1 \<and> p1 = 0 \<or> k1 = k \<and> p + 1 \<le> p1"
proof -
  define f where "f = getWrappedLineTrimmedLength ls k w"
  have f: "f \<le> e + 510" using wrapped_length_bounds(1) [OF w(1,2,4) k] by (simp add: f_def)
  have n: "p + min (f - p) (e - d) = f \<or> min (f - p) (e - d) = e - d" "d + min (f - p) (e - d) \<le> e" by auto
  let ?n = "min (f - p) (e - d)"
  have eqs: "ls1 = copy_between k c p d ?n False ls" "d1 = (if d + ?n = e then 0 else d + ?n)"
    "k1 = (if p + ?n = f then k + 1 else k)" "p1 = (if p + ?n = f then 0 else p + ?n)"
    using r by (auto simp only: round_def Let_def f_def prod.inject)
  show "all_length e ls1" "length ls1 = length ls" unfolding eqs using w(4) by (simp_all add: all_length_copy)
  show "d1 < e" "0 \<le> p1" "p1 \<le> e + 510" "k1 = k + 1 \<and> p1 = 0 \<or> k1 = k \<and> p + 1 \<le> p1"
    unfolding eqs using f w(3) i n by (simp_all split: if_split; linarith)+
qed

text \<open>More fuel changes nothing.\<close>

lemma larger_fuel_more:
  assumes "1 \<le> w" "w \<le> e" "2 \<le> e" "all_length e ls" "0 \<le> k" "d < e" "0 \<le> p" "p \<le> e + 510"
    "(int (length ls) - k) * (e + 513) - p \<le> int fuel"
  shows "larger_loop (Suc fuel) w e nc ls c d k p = larger_loop fuel w e nc ls c d k p"
  using assms
proof (induction fuel arbitrary: ls c d k p)
  case 0
  have "int (length ls) \<le> k"
  proof (rule ccontr)
    assume "\<not> int (length ls) \<le> k"
    then have "1 * (e + 513) \<le> (int (length ls) - k) * (e + 513)" using 0(3) by (intro mult_right_mono) linarith+
    then have "e + 513 \<le> (int (length ls) - k) * (e + 513)" by (simp only: mult_1)
    moreover have "(int (length ls) - k) * (e + 513) - p \<le> 0" using 0(9) by (simp only: of_nat_0)
    ultimately show False using 0(8) by linarith
  qed
  then show ?case by (simp add: larger_loop_end)
next
  case (Suc fuel)
  show ?case
  proof (cases "int (length ls) \<le> k")
    case True
    then show ?thesis by (simp add: larger_loop_end)
  next
    case False
    obtain ls1 c1 d1 k1 p1 where r: "round w e ls c d k p = (ls1, c1, d1, k1, p1)" by (cases "round w e ls c d k p") auto
    note f = round_facts [OF r Suc.prems(1-5) _ Suc.prems(6-8)]
    have e: "(int (length ls) - k1) * (e + 513) - p1 \<le> int fuel"
      using f(6) False Suc.prems(8,9) by (auto simp: algebra_simps)
    have ih: "larger_loop (Suc fuel) w e nc ls' c' d' k1 p1 = larger_loop fuel w e nc ls' c' d' k1 p1"
      if "all_length e ls'" "length ls' = length ls" "d' < e" for ls' c' d'
      using Suc.IH [OF Suc.prems(1-3) that(1), of k1 d' p1] that f False Suc.prems(5) e by auto
    have d1: "pads e ls1 c1 d1 \<Longrightarrow> d1 + 1 < e" using Suc.prems(3) by (simp add: pads_def)
    show ?thesis using False f(1,2,3) ih [of ls1 d1 c1] ih [of "pad e nc ls1 c1 d1" "d1 + 1" c1] d1
      by (simp add: larger_loop_round [OF _ r] all_length_pad)
  qed
qed

lemma larger_fuel_enough:
  assumes "1 \<le> w" "w < e" "2 \<le> e" "all_length e ls" "ls \<noteq> []" "larger_fuel e ls \<le> fuel" "1 < length ls"
  shows "larger_loop fuel w e nc ls 0 (getWrappedLineTrimmedLength ls 0 w) 1 0 =
    larger_loop (larger_fuel e ls) w e nc ls 0 (getWrappedLineTrimmedLength ls 0 w) 1 0"
  using assms(6)
proof (induction fuel rule: dec_induct)
  case (step n)
  have "int (length ls) * (e + 513) \<le> int n"
    using step(1) assms(3) by (simp add: larger_fuel_def flip: of_nat_le_iff [where 'a = int])
  then have "(int (length ls) - 1) * (e + 513) - 0 \<le> int n" using assms(3) by (simp add: algebra_simps)
  moreover have "getWrappedLineTrimmedLength ls 0 w < e"
    using wrapped_length_bounds(2) [of w e ls 0] assms by simp
  ultimately show ?case using larger_fuel_more [of w e ls 1 _ 0 n] assms step(3) by simp
qed simp

subsection \<open>The loop stays in the group\<close>

lemma find_last:
  "List.find P (rev [0..<n]) = Some i \<longleftrightarrow> i < n \<and> P i \<and> (\<forall>j. i < j \<longrightarrow> j < n \<longrightarrow> \<not> P j)"
proof (induction n)
  case (Suc n)
  show ?case
  proof (cases "P n")
    case True
    then show ?thesis by (auto simp: less_Suc_eq)
  next
    case False
    then show ?thesis using Suc by (auto simp: less_Suc_eq)
  qed
qed simp

text \<open>Writing the first column of a line makes it at most as long as the cell written.\<close>

lemma trimmed_copy_first:
  assumes "0 \<le> getWidth src i"
  shows "getTrimmedLength (copyCellsFrom src i 0 1 False l) \<le> max (getTrimmedLength l) (getWidth src i)"
proof -
  let ?s = "slot_at src i" and ?P = "\<lambda>s. truthy (s_content s AND 0x3FFFFF)"
  have sl: "slots (copyCellsFrom src i 0 1 False l) = (slots l)[0 := ?s]"
    by (auto simp: copyCellsFrom_def for_up_def copy_slot_def put_slot_def Let_def)
  have w: "width_of (s_content ?s) = getWidth src i" by (simp add: getWidth_def)
  let ?find = "\<lambda>ss. List.find (\<lambda>i. ?P (ss ! i)) (rev [0..<length ss])"
  show ?thesis
  proof (cases "?find ((slots l)[0 := ?s])")
    case None
    then show ?thesis using assms by (simp add: getTrimmedLength_def trimmed_def sl)
  next
    case (Some j)
    then have j: "j < length (slots l)" "?P ((slots l)[0 := ?s] ! j)"
      "\<And>m. j < m \<Longrightarrow> m < length (slots l) \<Longrightarrow> \<not> ?P ((slots l)[0 := ?s] ! m)" by (auto simp: find_last)
    show ?thesis
    proof (cases j)
      case 0
      then show ?thesis using Some j w by (simp add: getTrimmedLength_def trimmed_def sl)
    next
      case (Suc m)
      then have "?find (slots l) = Some j" using j by (auto simp: find_last)
      then show ?thesis using Some Suc by (simp add: getTrimmedLength_def trimmed_def sl)
    qed
  qed
qed

definition in_group :: "int \<Rightarrow> int \<Rightarrow> line list \<Rightarrow> int \<Rightarrow> int \<Rightarrow> int \<Rightarrow> int \<Rightarrow> bool" where
  "in_group w e ls c d k p \<longleftrightarrow>
     all_length e ls \<and> 0 \<le> c \<and> 0 \<le> d \<and> d < e \<and> 1 \<le> k \<and> k < int (length ls) \<and> 0 \<le> p \<and> p < w \<and>
     c * e + d \<le> k * w + p + c \<and> (d = 0 \<and> c \<noteq> 0 \<longrightarrow> getWidth (line_in ls (c - 1)) (e - 1) \<noteq> 2) \<and>
     getTrimmedLength (line_in ls (int (length ls) - 1)) \<le> w"

lemma behind_bound:
  assumes "2 \<le> w" "w < e" "0 \<le> c" "c * e + d \<le> x + c" "x - d < (m + 1) * w"
  shows "c \<le> (m :: int)"
proof -
  have "c * w \<le> c * (e - 1)" using assms(2,3) by (intro mult_left_mono) simp_all
  also have "\<dots> \<le> x - d" using assms(4) by (simp add: algebra_simps)
  finally have "c * w < (m + 1) * w" using assms(5) by simp
  then show ?thesis using assms(1) by (simp add: mult_less_cancel_right)
qed

lemma in_group_behind:
  assumes "2 \<le> w" "w < e" "in_group w e ls c d k p"
  shows "c \<le> k" "c = k \<Longrightarrow> d \<le> p"
proof -
  have i: "c * e + d \<le> k * w + p + c" "0 \<le> c" "0 \<le> d" "p < w" using assms(3) by (simp_all add: in_group_def)
  show "c \<le> k" using behind_bound [of w e c d "k * w + p" k] assms i by (simp add: algebra_simps)
  show "d \<le> p" if "c = k"
  proof -
    have "k * (w + 1) \<le> k * e" using assms(2) i(2) that by (intro mult_left_mono) simp_all
    then show ?thesis using i(1) that by (simp add: algebra_simps)
  qed
qed

lemma in_group_round:
  assumes w: "2 \<le> w" "w < e" and g: "in_group w e ls c d k p" and r: "round w e ls c d k p = (ls1, c1, d1, k1, p1)"
  shows "if k1 < int (length ls)
    then (if pads e ls1 c1 d1 then in_group w e (pad e nc ls1 c1 d1) c1 (d1 + 1) k1 p1 else in_group w e ls1 c1 d1 k1 p1)
    else c1 < int (length ls) \<and> 0 \<le> c1 \<and> all_length e ls1"
proof -
  let ?m = "int (length ls) - 1"
  define f where "f = getWrappedLineTrimmedLength ls k w"
  define n where "n = min (f - p) (e - d)"
  have G: "all_length e ls" "0 \<le> c" "0 \<le> d" "d < e" "1 \<le> k" "k < int (length ls)" "0 \<le> p" "p < w"
    "c * e + d \<le> k * w + p + c" "d = 0 \<and> c \<noteq> 0 \<longrightarrow> getWidth (line_in ls (c - 1)) (e - 1) \<noteq> 2"
    "getTrimmedLength (line_in ls ?m) \<le> w"
    using g by (simp_all add: in_group_def)
  have k0: "0 \<le> k" using G(5) by simp
  note b = wrapped_length_bounds [OF _ _ G(1) k0 G(6), of w]
  have "k < ?m \<or> k = ?m" using G(6) by linarith
  then have f: "f \<le> w" "k < ?m \<Longrightarrow> w - 1 \<le> f" using b(2,3) w G(11) by (auto simp: f_def)
  note behind = in_group_behind [OF w g]
  have eqs: "ls1 = copy_between k c p d n False ls" "c1 = (if d + n = e then c + 1 else c)"
    "d1 = (if d + n = e then 0 else d + n)" "k1 = (if p + n = f then k + 1 else k)" "p1 = (if p + n = f then 0 else p + n)"
    using r by (auto simp only: round_def Let_def f_def n_def prod.inject)
  have len: "all_length e ls1" "length ls1 = length ls" using G(1) by (simp_all add: eqs(1) all_length_copy)
  have n: "n \<le> f - p" "n \<le> e - d" "p + n = f \<or> d + n = e" by (auto simp: n_def)
  text \<open>There is always one column to spare after a line has been filled.\<close>
  have spare: "c1 * e + d1 \<le> k * w + (p + n) + c" using G(9) by (auto simp: eqs(2,3) algebra_simps)
  show ?thesis
  proof (cases "k1 < int (length ls)")
    case False
    then have k: "p + n = f" "k = ?m" using G(6) by (auto simp: eqs(4) split: if_splits)
    have "c1 < int (length ls)"
    proof (cases "d + n = e")
      case True
      then have "c1 * e + 0 \<le> k * w + (p + n) - 1 + c1" using spare by (simp add: eqs(2,3))
      moreover have "k * w + (p + n) - 1 - 0 < (k + 1) * w" using k(1) f(1) by (simp add: distrib_right)
      ultimately have "c1 \<le> k" using behind_bound [OF w, of c1 0 "k * w + (p + n) - 1" k] G(2) by (simp add: eqs(2))
      then show ?thesis using k(2) by simp
    qed (use behind(1) G(6) in \<open>simp add: eqs(2)\<close>)
    then show ?thesis using False len(1) G(2) by (simp add: eqs(2))
  next
    case True
    have last_wraps: "d + n = e" if "k = ?m" using that True n(3) G(6) by (auto simp: eqs(4))
    have c_m: "c \<noteq> ?m"
    proof
      assume "c = ?m"
      then have "c = k" using behind(1) G(6) by simp
      then show False using last_wraps behind(2) n(1) f(1) w \<open>c = ?m\<close> by simp
    qed
    have n0: "0 \<le> n" using f(2) G(4,6,8) last_wraps by (cases "k = ?m") (auto simp: n_def)
    have p1: "0 \<le> p1" "p1 < w" "1 \<le> k1" using w(1) G(5,7) n(1) f(1) n0 by (auto simp: eqs(4,5))
    have d1: "0 \<le> d1" "d1 < e" "0 \<le> c1" using G(2-4) n(2) n0 by (auto simp: eqs(2,3))
    have ineq: "c1 * e + d1 \<le> k1 * w + p1 + c" using spare f(1) n(1) by (auto simp: eqs(4,5) algebra_simps)
    have c1: "c \<le> c1" by (simp add: eqs(2))
    have T1: "getTrimmedLength (line_in ls1 ?m) \<le> w" using G(11) c_m by (simp add: eqs(1) line_in_copy)
    show ?thesis
    proof (cases "pads e ls1 c1 d1")
      case False
      then show ?thesis using True len p1 d1 ineq c1 T1 by (auto simp: in_group_def pads_def)
    next
      case pads: True
      have wrap: "d + n = e"
      proof (rule ccontr)
        assume nw: "d + n \<noteq> e"
        then have z: "d = 0" "n = 0" "c = c1" using pads G(3) n0 by (auto simp: pads_def eqs(2,3))
        then have "getWidth (line_in ls1 (c - 1)) (e - 1) = getWidth (line_in ls (c - 1)) (e - 1)"
          using copy_none [of n k c p d ls "c - 1"] by (intro getWidth_slots) (simp add: eqs(1))
        then show False using pads G(10) z by (simp add: pads_def)
      qed
      have ineq2: "c1 * e + (d1 + 1) \<le> k1 * w + p1 + c1" using ineq wrap by (simp add: eqs(2,3))
      have c1k: "c1 \<le> k1" using behind_bound [OF w d1(3) ineq2, of k1] p1 d1 by (simp add: algebra_simps)
      let ?ls2 = "pad e nc ls1 c1 d1"
      have T2: "getTrimmedLength (line_in ?ls2 ?m) \<le> w"
      proof (cases "c1 = ?m")
        case at: True
        have "line_in ?ls2 ?m = copyCellsFrom (line_in ls1 (c1 - 1)) (e - 1) 0 1 False (line_in ls1 ?m)"
          using at pads d1(3) len(2) by (simp add: pad_def line_in_upd copy_between_def pads_def)
        then show ?thesis using trimmed_copy_first [of "line_in ls1 (c1 - 1)" "e - 1" "line_in ls1 ?m"] pads T1 w
          by (simp add: pads_def)
      next
        case False
        then show ?thesis using T1 c1k True by (simp add: pad_def line_in_upd line_in_copy)
      qed
      have "d1 + 1 < e" using pads w by (simp add: pads_def)
      then show ?thesis using True pads all_length_pad(1) [OF len(1)] all_length_pad(2) [of e nc ls1] len(2) p1 d1 ineq2 T2 by (simp add: in_group_def)
    qed
  qed
qed

lemma larger_loop_in_group:
  assumes w: "2 \<le> w" "w < e" and g: "in_group w e ls c d k p" and fuel: "(int (length ls) - k) * (w + 1) - p \<le> int fuel"
  shows "\<exists>ls' c' d'. larger_loop fuel w e nc ls c d k p = Some (ls', c', d') \<and> all_length e ls' \<and> length ls' = length ls
    \<and> 0 \<le> c' \<and> c' < int (length ls)"
  using g fuel
proof (induction fuel arbitrary: ls c d k p)
  case 0
  have "1 * (w + 1) \<le> (int (length ls) - k) * (w + 1)" "p < w"
    using 0(1) w by (auto simp: in_group_def intro!: mult_right_mono)
  then show ?case using 0(2) by simp
next
  case (Suc fuel)
  obtain ls1 c1 d1 k1 p1 where r: "round w e ls c d k p = (ls1, c1, d1, k1, p1)" by (cases "round w e ls c d k p") auto
  have k: "k < int (length ls)" "c < int (length ls)" "d < e" "0 \<le> p" "p < w" "all_length e ls" "0 \<le> k"
    using in_group_behind(1) [OF w Suc.prems(1)] Suc.prems(1) by (auto simp: in_group_def)
  note f = round_facts [OF r _ _ _ k(6,7,1,3,4)]
  have len: "length ls1 = length ls" using f(2) w k by simp
  have "k1 = k + 1 \<and> p1 = 0 \<or> k1 = k \<and> p + 1 \<le> p1" using f(6) w k by simp
  then have fuel: "(int (length ls) - k1) * (w + 1) - p1 \<le> int fuel" using Suc.prems(2) k(5) by (auto simp: algebra_simps)
  note st = larger_loop_round [OF k(1) r, of fuel nc]
  note ir = in_group_round [OF w Suc.prems(1) r, of nc]
  show ?case
  proof (cases "k1 < int (length ls)")
    case True
    note ir = ir [unfolded if_P [OF True]]
    show ?thesis
    proof (cases "pads e ls1 c1 d1")
      case pads: True
      have g2: "in_group w e (pad e nc ls1 c1 d1) c1 (d1 + 1) k1 p1" using ir pads by simp
      have "c1 < int (length ls)" using in_group_behind(1) [OF w g2] True by simp
      moreover obtain ls' c' d' where "larger_loop fuel w e nc (pad e nc ls1 c1 d1) c1 (d1 + 1) k1 p1 = Some (ls', c', d')"
        "all_length e ls'" "length ls' = length ls" "0 \<le> c'" "c' < int (length ls)"
        using Suc.IH [OF g2] fuel len all_length_pad(2) [of e nc ls1 c1 d1] by auto
      ultimately show ?thesis using st pads k(2) by simp
    next
      case False
      then obtain ls' c' d' where "larger_loop fuel w e nc ls1 c1 d1 k1 p1 = Some (ls', c', d')"
        "all_length e ls'" "length ls' = length ls" "0 \<le> c'" "c' < int (length ls)"
        using Suc.IH [of ls1 c1 d1 k1 p1] fuel len ir by auto
      then show ?thesis using st False k(2) by simp
    qed
  next
    case False
    then show ?thesis using ir st k(2) len
      by (auto simp: larger_loop_end all_length_pad)
  qed
qed

subsection \<open>A group on a wider screen\<close>

text \<open>A line that does not end in the first half of a wide character.\<close>

definition uncut :: "int \<Rightarrow> line \<Rightarrow> bool" where
  "uncut w l \<longleftrightarrow> getTrimmedLength l \<le> w"

lemma count_empty_le: "count_empty ls c n \<le> n"
  by (induction ls c n rule: count_empty.induct) simp_all

lemma larger_group_ok:
  assumes w: "2 \<le> w" "w < e" and ls: "all_length e ls" "2 \<le> length ls" "uncut w (last ls)"
  shows "\<exists>ls' m. larger_group w e nc ls = Some (ls', m) \<and> all_length e ls' \<and> length ls' = length ls \<and> m < length ls"
proof -
  let ?d = "getWrappedLineTrimmedLength ls 0 w"
  have "w - 1 \<le> ?d \<and> ?d \<le> w" by (rule wrapped_length_bounds(2) [of w e]) (use w ls in linarith)+
  then have d: "0 \<le> ?d" "?d \<le> w" using w by simp_all
  have last: "line_in ls (int (length ls) - 1) = last ls" using ls(2) by (cases ls) (auto simp: line_in_def last_conv_nth)
  have g: "in_group w e ls 0 ?d 1 0" using w ls d last by (simp add: in_group_def uncut_def)
  have fuel: "(int (length ls) - 1) * (w + 1) - 0 \<le> int (larger_fuel e ls)"
  proof -
    have "(int (length ls) - 1) * (w + 1) \<le> int (length ls) * (e + 513)" using w by (intro mult_mono) simp_all
    also have "\<dots> = int (larger_fuel e ls)" using w by (simp add: larger_fuel_def)
    finally show ?thesis by simp
  qed
  obtain ls1 c1 d1 where l: "larger_loop (larger_fuel e ls) w e nc ls 0 ?d 1 0 = Some (ls1, c1, d1)"
    "all_length e ls1" "length ls1 = length ls" "0 \<le> c1" "c1 < int (length ls)"
    using larger_loop_in_group [OF w g fuel] by blast
  let ?ls2 = "upd_in c1 (replaceCells d1 e nc False) ls1"
  have "larger_group w e nc ls = Some (?ls2, count_empty ?ls2 c1 (length ?ls2 - 1))" using l by (simp add: larger_group_def Let_def)
  moreover have "count_empty ?ls2 c1 (length ?ls2 - 1) < length ls"
    using count_empty_le [of ?ls2 c1 "length ?ls2 - 1"] l(3) ls(2) by simp
  ultimately show ?thesis using l by (auto simp: all_length_upd)
qed

text \<open>
  A full row and a second row that starts with a wide character and ends in the first half of one, on a screen one
  column wider: the loop takes the cells one by one to the end of the group and beyond, where there is no line.
\<close>

lemma larger_group_throws:
  assumes w: "2 \<le> w" and len: "line_length a = w + 1" "line_length b = w + 1"
    and a: "hasContent a (w - 1)" and b: "getWidth b 0 = 2" "getTrimmedLength b = w + 1"
  shows "larger_group w (w + 1) nc [a, b] = None"
proof -
  let ?e = "w + 1"
  have f0: "getWrappedLineTrimmedLength [a, b] 0 w = w" using a by (simp add: getWrappedLineTrimmedLength_def line_in_def)
  have f1: "getWrappedLineTrimmedLength [x, y] 1 w = getTrimmedLength y" for x y
    by (simp add: getWrappedLineTrimmedLength_def line_in_def)
  define a1 where "a1 = copyCellsFrom b 0 w 1 False a"
  define b1 where "b1 = copyCellsFrom a1 w 0 1 False b"
  have sl: "slots b1 = slots b"
  proof -
    have "slot_at a1 w = slot_at b 0"
      using len w by (simp add: a1_def copyCellsFrom_def for_up_def copy_slot_def Let_def slot_at_put_slot)
    moreover have "slots b1 = (slots b)[0 := slot_at a1 w]"
      by (auto simp: b1_def copyCellsFrom_def for_up_def copy_slot_def put_slot_def Let_def)
    moreover have "slot_at b 0 = slots b ! 0" using len(2) w by (simp add: slot_at_def)
    ultimately show ?thesis by simp
  qed
  have r1: "round w ?e [a, b] 0 w 1 0 = ([a1, b], 1, 0, 1, 1)"
    using w b(2) by (simp add: round_def f1 [simplified] Let_def copy_between_def line_in_def upd_in_def a1_def)
  have wa: "getWidth a1 w = 2"
    using b(1) len w by (simp add: getWidth_def a1_def copyCellsFrom_def for_up_def copy_slot_def Let_def slot_at_put_slot)
  have p1: "pads ?e [a1, b] 1 0" using wa by (simp add: pads_def line_in_def)
  define a2 where "a2 = setCell w nc a1"
  have pad1: "pad ?e nc [a1, b] 1 0 = [a2, b1]" by (simp add: pad_def copy_between_def line_in_def upd_in_def a2_def b1_def)
  define b2 where "b2 = copyCellsWithin 1 1 w False b1"
  have T: "getTrimmedLength b1 = w + 1" using b(2) by (simp only: getTrimmedLength_def trimmed_def sl)
  have r2: "round w ?e [a2, b1] 1 1 1 1 = ([a2, b2], 2, 0, 2, 0)"
    using w T by (simp add: round_def f1 [simplified] Let_def copy_between_def line_in_def upd_in_def b2_def)
  have fuel: "\<exists>n. larger_fuel ?e [a, b] = Suc (Suc n)"
    using w by (simp add: larger_fuel_def nat_add_distrib)
  then obtain n where n: "larger_fuel ?e [a, b] = Suc (Suc n)" by blast
  have "larger_loop (larger_fuel ?e [a, b]) w ?e nc [a, b] 0 w 1 0 = larger_loop (Suc n) w ?e nc [a2, b1] 1 1 1 1"
    unfolding n using larger_loop_round [OF _ r1, of "Suc n" nc] p1 pad1 by simp
  also have "\<dots> = (if pads ?e [a2, b2] 2 0 then None else Some ([a2, b2], 2, 0))"
    using larger_loop_round [OF _ r2, of n nc] by (simp add: larger_loop_end)
  finally show ?thesis by (simp add: larger_group_def f0 split: if_splits)
qed

subsection \<open>The scan\<close>

lemma those_get: "ring_wf r \<Longrightarrow> those (map (ring_get r) [l..<rlen r]) = Some (drop l (ring_items r))"
proof -
  assume r: "ring_wf r"
  have "those (map Some xs) = Some xs" for xs :: "'a list" by (induction xs) simp_all
  moreover have "map (ring_get r) [l..<rlen r] = map Some (drop l (ring_items r))"
    by (rule nth_equalityI) (simp_all add: ring_get_items [OF r])
  ultimately show ?thesis by simp
qed

lemma group_at_items:
  assumes "ring_wf r" "l < rlen r"
  shows "group_at r l (rlen r) = Some (ring_items r ! l # takeWhile isWrapped (drop (Suc l) (ring_items r)))"
proof -
  have "drop l (ring_items r) = ring_items r ! l # drop (Suc l) (ring_items r)"
    using assms(2) by (simp add: Cons_nth_drop_Suc)
  then show ?thesis using those_get [OF assms(1), of l] by (simp add: group_at_def)
qed

text \<open>Lines that are not wrapped are left alone.\<close>

lemma larger_scan_skip:
  assumes r: "ring_wf r" and l: "l < rlen r" and u: "\<And>i. i \<le> l \<Longrightarrow> \<not> isWrapped (ring_items r ! i)" and i: "i \<le> l"
  shows "larger_scan cursor_too y w e nc (rlen r) i r = larger_scan cursor_too y w e nc (rlen r) l r"
  using i
proof (induction i rule: inc_induct)
  case (step i)
  have "takeWhile isWrapped (drop (Suc i) (ring_items r)) = []"
    using u [of "Suc i"] step(2) l Cons_nth_drop_Suc [of "Suc i" "ring_items r"] by (cases "drop (Suc i) (ring_items r)") auto
  then have "group_at r i (rlen r) = Some [ring_items r ! i]" using group_at_items [OF r, of i] step(2) l by simp
  then show ?case using step l by (simp add: larger_scan.simps [where l = i])
qed simp

text \<open>
  C16: An error of the emulator. The reflow to one more column calls a method of \<open>undefined\<close> and throws if the
  cursor is below the first group of wrapped lines and this group is a line that is full up to the old width and one
  wrapped line that starts with a wide character and ends in the first half of one: the cells are taken to the end of
  the two lines and beyond. (The lines have been given their new length by the resize already. A narrowing with the
  cursor on the lines leaves such a group: the lemma \<open>narrow_then_wide_throws\<close> below tells a story in full.)
\<close>

theorem widening_throws:
  assumes r: "ring_wf (lines c)" "ring_items (lines c) = us @ [a, b] @ vs"
    and wrap: "\<forall>u \<in> set us. \<not> isWrapped u" "\<not> isWrapped a" "isWrapped b" "vs = [] \<or> \<not> isWrapped (hd vs)"
    and w: "2 \<le> w" "b_cols c = w" "line_length a = w + 1" "line_length b = w + 1"
    and cells: "hasContent a (w - 1)" "getWidth b 0 = 2" "getTrimmedLength b = w + 1"
    and cursor: "int (length us) + 2 \<le> ybase c + cy c"
  shows "reflowLarger False (w + 1) h c = None"
proof -
  let ?r = "lines c" and ?l = "length us" and ?y = "ybase c + cy c" and ?nc = "getNullCell default_attr"
  have n: "?l + 1 < rlen ?r" using arg_cong [OF r(2), of length] by simp
  have u: "\<not> isWrapped (ring_items ?r ! i)" if "i \<le> ?l" for i using wrap that by (auto simp: r(2) nth_append)
  have "takeWhile isWrapped (drop (Suc ?l) (ring_items ?r)) = [b]" using wrap(3,4) by (cases vs) (auto simp: r(2))
  then have g: "group_at ?r ?l (rlen ?r) = Some [a, b]" using group_at_items [OF r(1), of ?l] n by (simp add: r(2))
  have "larger_scan False ?y w (w + 1) ?nc (rlen ?r) ?l ?r = None"
    using n g cursor larger_group_throws [OF w(1,3,4) cells, of ?nc] by (simp add: larger_scan.simps [where l = ?l])
  then have "larger_scan False ?y w (w + 1) ?nc (rlen ?r) 0 ?r = None"
    using larger_scan_skip [OF r(1) _ u, of ?l 0 False ?y w "w + 1" ?nc] n by simp
  then show ?thesis by (simp add: reflowLarger_def w(2))
qed

definition wide_cell :: cell where
  "wide_cell = fromCharData (0, [0x4E2D], 2)"

definition half_cut :: line where
  "half_cut = setCell 2 wide_cell (setCell 0 wide_cell (getBlankLine 4 default_attr True))"

definition full_row :: line where
  "full_row = setCell 2 wide_cell (getBlankLine 4 default_attr False)"

theorem widening_throws_witness:
  "\<exists>c. b_cols c = 3 \<and> ring_items (lines c) = [full_row, half_cut, fresh_line 4] \<and> cy c = 2 \<and> reflowLarger False 4 3 c = None"
proof -
  let ?xs = "[full_row, half_cut, fresh_line 4]"
  define r where "r = fold ring_push ?xs (new_ring 8)"
  define c where "c = (blank_buffer True 5 8 3 3)\<lparr>lines := r, cy := 2\<rparr>"
  have "\<not> isFull (new_ring 8 :: line ring)" "\<not> isFull (ring_push full_row (new_ring 8))"
    "\<not> isFull (ring_push half_cut (ring_push full_row (new_ring 8)))" by code_simp+
  then have r: "ring_wf r" "ring_items r = [] @ [full_row, half_cut] @ [fresh_line 4]"
    unfolding r_def by (simp_all add: ring_push_items new_ring_items)
  have f: "\<not> isWrapped full_row" "isWrapped half_cut" "\<not> isWrapped (fresh_line 4)" "line_length full_row = 4" "line_length half_cut = 4"
    "hasContent full_row 2" "getWidth half_cut 0 = 2" "getTrimmedLength half_cut = 4" by code_simp+
  have c: "ybase c = 0" "b_cols c = 3" "cy c = 2" "lines c = r" by (simp_all add: c_def blank_buffer_def setupTabStops_def)
  have "reflowLarger False (3 + 1) 3 c = None"
    by (rule widening_throws [of c "[]" full_row half_cut "[fresh_line 4]"]) (use r f c in simp_all)
  then show ?thesis using c r by (intro exI [of _ c]) simp
qed

text \<open>
  The story in full, on a screen of four columns: two rows of two wide characters, with the cursor on the second one,
  are narrowed to three columns, and widened to four again with the cursor on the third row.
\<close>

definition wide_text :: "int list \<Rightarrow> line \<Rightarrow> line" where
  "wide_text is l = fold (\<lambda>i l. setCell (i + 1) (fromCharData (0, [], 0)) (setCell i wide_cell l)) is l"

definition two_rows :: buffer where
  "two_rows = (blank_buffer True 2 8 4 3)
     \<lparr>lines := fold ring_push [wide_text [0, 2] (getBlankLine 4 default_attr False),
        wide_text [0, 2] (getBlankLine 4 default_attr True), getBlankLine 4 default_attr False] (new_ring 5), cy := 1\<rparr>"

lemma narrow_then_wide_throws:
  "case buffer_resize False 2 3 3 two_rows of
     None \<Rightarrow> False | Some b \<Rightarrow> buffer_resize False 2 4 3 (b\<lparr>cy := 2\<rparr>) = None"
  unfolding Option.is_none_def [symmetric] by code_simp

subsection \<open>The scan keeps the lines\<close>

lemma write_lines_of:
  assumes r: "lines_all Q r" and ls: "\<forall>l \<in> set ls. Q l" "i + length ls \<le> rlen r"
  shows "lines_all Q (write_lines i ls r)" "rlen (write_lines i ls r) = rlen r"
    "maxLength (write_lines i ls r) = maxLength r"
    "k < rlen r \<Longrightarrow> ring_get (write_lines i ls r) k = (if i \<le> k \<and> k < i + length ls then Some (ls ! (k - i)) else ring_get r k)"
proof -
  let ?w = "\<lambda>m. fold (\<lambda>j. ring_set (i + j) (Some (ls ! j))) [0..<m] r"
  note b = ring_wf_bounds [of r] and wf = r [unfolded lines_all_def, THEN conjunct1]
  have "lines_all Q (?w m) \<and> rlen (?w m) = rlen r \<and> maxLength (?w m) = maxLength r" if "m \<le> length ls" for m
    using that
  proof (induction m)
    case (Suc m)
    then show ?case using lines_all_set [of Q "?w m" "i + m" "ls ! m"] ls by simp
  qed (use r in simp)
  from this [of "length ls"] show "lines_all Q (write_lines i ls r)" "rlen (write_lines i ls r) = rlen r"
    "maxLength (write_lines i ls r) = maxLength r" by (simp_all add: write_lines_def)
  show "ring_get (write_lines i ls r) k = (if i \<le> k \<and> k < i + length ls then Some (ls ! (k - i)) else ring_get r k)"
    if "k < rlen r"
    using get_written [of r 0 i "length ls" k ls] b [OF wf] ls(2) that by (simp add: write_lines_def)
qed

fun removals :: "nat \<Rightarrow> nat \<Rightarrow> (nat \<times> nat) list \<Rightarrow> bool" where
  "removals l n [] \<longleftrightarrow> l \<le> n"
| "removals l n ((s, m) # ms) \<longleftrightarrow> l \<le> s \<and> 0 < m \<and> s + m \<le> n \<and> removals (s + m) n ms"

lemma removals_mono: "removals l n ms \<Longrightarrow> l' \<le> l \<Longrightarrow> removals l' n ms"
  by (cases ms) auto

text \<open>With no line cut at the right edge the scan returns, and finds stretches of lines to remove in their order.\<close>

lemma larger_scan_ok:
  assumes w: "2 \<le> w" "w < e" and r: "lines_all (\<lambda>l. line_length l = e) r" "l \<le> rlen r"
    and cut: "\<And>k. l \<le> k \<Longrightarrow> k < rlen r \<Longrightarrow> uncut w (the (ring_get r k))"
  shows "\<exists>r' ms. larger_scan cursor_too y w e nc (rlen r) l r = Some (r', ms) \<and> lines_all (\<lambda>l. line_length l = e) r'
    \<and> rlen r' = rlen r \<and> maxLength r' = maxLength r \<and> removals l (rlen r) ms \<and> (ms \<noteq> [] \<longrightarrow> l < fst (hd ms))"
  using r cut
proof (induction "rlen r - l" arbitrary: l r rule: less_induct)
  case less
  show ?case
  proof (cases "rlen r \<le> l + 1")
    case True
    then show ?thesis using less.prems by (simp add: larger_scan.simps [where l = l])
  next
    case False
    have wf: "ring_wf r" using less.prems(1) by (simp add: lines_all_def)
    let ?xs = "ring_items r"
    define ls where "ls = ?xs ! l # takeWhile isWrapped (drop (Suc l) ?xs)"
    have g: "group_at r l (rlen r) = Some ls" using group_at_items [OF wf, of l] False by (simp add: ls_def)
    obtain t where t: "drop l ?xs = ls @ t"
    proof
      have "drop l ?xs = ?xs ! l # drop (Suc l) ?xs" using False by (simp add: Cons_nth_drop_Suc)
      then show "drop l ?xs = ls @ dropWhile isWrapped (drop (Suc l) ?xs)" by (simp add: ls_def)
    qed
    have len: "0 < length ls" "l + length ls \<le> rlen r"
      using arg_cong [OF t, of length] False by (simp_all add: ls_def)
    have nth: "?xs ! (l + j) = ls ! j" if "j < length ls" for j
      using that t False nth_drop [of l ?xs j] by (simp add: nth_append)
    have all: "all_length e ls"
      using less.prems(1) set_drop_subset [of l ?xs] unfolding all_length_def lines_all_def t by auto
    have dec: "rlen r - (l + length ls) < rlen r - l" using len by linarith
    define j where "j = length ls - 1"
    have j: "j < length ls" using len by (simp add: j_def)
    then have j: "j < length ls" "l + j < rlen r" "last ls = ls ! j"
      using len(2) by (linarith | simp add: j_def last_conv_nth flip: length_greater_0_conv)+
    have cut: "uncut w (last ls)"
      using less.prems(3) [of "l + j"] nth [OF j(1)] ring_items_nth [OF j(2)] j by simp
    have skip: ?thesis if m: "larger_scan cursor_too y w e nc (rlen r) l r = larger_scan cursor_too y w e nc (rlen r) (l + m) r"
      "0 < m" "l + m \<le> rlen r" for m
    proof -
      obtain r' ms where "larger_scan cursor_too y w e nc (rlen r) (l + m) r = Some (r', ms)" "lines_all (\<lambda>l. line_length l = e) r'"
        "rlen r' = rlen r" "maxLength r' = maxLength r" "removals (l + m) (rlen r) ms" "ms \<noteq> [] \<longrightarrow> l + m < fst (hd ms)"
        using less.hyps [of r "l + m", OF _ less.prems(1) m(3) less.prems(3)] m(2,3) by (auto simp: diff_less_mono2)
      then show ?thesis using m removals_mono [of "l + m" "rlen r" ms l] by auto
    qed
    show ?thesis
    proof (cases "length ls \<le> 1 \<or> \<not> cursor_too \<and> int l \<le> y \<and> y < int (l + length ls)")
      case True
      then show ?thesis using skip [of 1] skip [of "length ls"] g False len by (auto simp: larger_scan.simps [where l = l])
    next
      case move: False
      then obtain ls' m where lg: "larger_group w e nc ls = Some (ls', m)" "all_length e ls'" "length ls' = length ls" "m < length ls"
        using larger_group_ok [OF w all _ cut, of nc] by auto
      let ?r = "write_lines l ls' r"
      have wr: "lines_all (\<lambda>l. line_length l = e) ?r" "rlen ?r = rlen r" "maxLength ?r = maxLength r"
        "\<And>k. k < rlen r \<Longrightarrow> l + length ls \<le> k \<Longrightarrow> ring_get ?r k = ring_get r k"
        using write_lines_of [OF less.prems(1), of ls' l] lg(2,3) len by (auto simp: all_length_def)
      obtain r' ms where ih: "larger_scan cursor_too y w e nc (rlen r) (l + length ls) ?r = Some (r', ms)"
        "lines_all (\<lambda>l. line_length l = e) r'" "rlen r' = rlen r" "maxLength r' = maxLength r" "removals (l + length ls) (rlen r) ms"
        "ms \<noteq> [] \<longrightarrow> l + length ls < fst (hd ms)"
        using less.hyps [of ?r "l + length ls"] wr less.prems(3) len dec by auto
      have "larger_scan cursor_too y w e nc (rlen r) l r =
          Some (r', if 0 < m then (l + length ls - m, m) # ms else ms)"
        using g move False lg ih(1) by (auto simp add: larger_scan.simps [where l = l])
      then show ?thesis using ih lg(4) len removals_mono [of "l + length ls" "rlen r" ms l] by auto
    qed
  qed
qed

end
