(* ===== verification/Xterm_Resize_Wider.thy ===== *)
theory Xterm_Resize_Wider
  imports Xterm_Resize_Larger
begin

text \<open>
  A wider screen: the lines that have become empty are removed, the screen moves up over the scrollback, and the
  buffer is well-formed for the new size.
\<close>

subsection \<open>The lines that stay\<close>

lemma create_layout_of:
  assumes "removals i n ms" "n - i \<le> fuel" "create_layout fuel n i ms removed r = (ks, c, r')"
  shows "length ks + c = n - i + removed \<and> removed \<le> c \<and> set ks \<subseteq> {i..<n} \<and> (\<exists>es. r' = r\<lparr>fired := es\<rparr>)"
  using assms
proof (induction fuel n i ms removed r arbitrary: ks c r' rule: create_layout.induct)
  case (1 n i ms removed r)
  then show ?case by (auto intro: exI [of _ "fired r"])
next
  case (2 fuel n i ms removed r)
  show ?case
  proof (cases "n \<le> i")
    case True
    then show ?thesis using 2(6) by (auto intro: exI [of _ "fired r"])
  next
    case False
    have keep: ?thesis if "create_layout fuel n (i + 1) ms removed r = (ks0, c, r')" "ks = i # ks0"
      "length ks0 + c = n - (i + 1) + removed \<and> removed \<le> c \<and> set ks0 \<subseteq> {i + 1..<n} \<and> (\<exists>es. r' = r\<lparr>fired := es\<rparr>)" for ks0
      using that False by auto
    show ?thesis
    proof (cases ms)
      case Nil
      then obtain ks0 where k: "create_layout fuel n (i + 1) ms removed r = (ks0, c, r')" "ks = i # ks0"
        using 2(6) False by (auto split: prod.splits)
      have "removals (i + 1) n ms" using Nil False by simp
      then show ?thesis using 2(1) [OF False Nil _ _ k(1)] keep [OF k] Nil 2(5) by simp
    next
      case (Cons x ms')
      obtain s m where x: "(s, m) = x" by (cases x) simp
      show ?thesis
      proof (cases "s = i")
        case True
        have rest: "create_layout fuel n (i + m) ms' (removed + m) (fire (Deleted (i - removed) m) r) = (ks, c, r')"
          using 2(6) False Cons x [symmetric] True by simp
        have ms: "removals (i + m) n ms'" "0 < m" "i + m \<le> n" using 2(4) Cons x [symmetric] True by simp_all
        have "n - (i + m) \<le> fuel" using 2(5) ms(2) by linarith
        from 2(2) [OF False Cons x True ms(1) this rest] show ?thesis using ms(2,3) by (auto simp: fire_def)
      next
        case ne: False
        then obtain ks0 where k: "create_layout fuel n (i + 1) ms removed r = (ks0, c, r')" "ks = i # ks0"
          using 2(6) False Cons x [symmetric] by (auto split: prod.splits)
        have "removals (i + 1) n ms" using 2(4) Cons x [symmetric] ne by auto
        then show ?thesis using 2(3) [OF False Cons x ne _ _ k(1)] keep [OF k] 2(5) by simp
      qed
    qed
  qed
qed

lemma apply_layout_of:
  assumes r: "lines_all Q r" and ks: "\<forall>k \<in> set ks. k < rlen r" "length ks \<le> rlen r"
  shows "lines_all Q (apply_layout ks r)" "rlen (apply_layout ks r) = length ks" "maxLength (apply_layout ks r) = maxLength r"
    "ring_items (apply_layout ks r) = map (\<lambda>k. ring_items r ! k) ks"
proof -
  let ?R = "\<lambda>m. fold (\<lambda>j r'. ring_set j (ring_get r (ks ! j)) r') [0..<m] r"
  have wf: "ring_wf r" using r by (simp add: lines_all_def)
  note b = ring_wf_bounds [OF wf]
  have R: "rlen (?R m) = rlen r \<and> maxLength (?R m) = maxLength r \<and> length (arr (?R m)) = length (arr r)
      \<and> (\<forall>k < maxLength r. ring_get (?R m) k = (if k < m then ring_get r (ks ! k) else ring_get r k))"
    if "m \<le> length ks" for m
    using that
  proof (induction m)
    case (Suc m)
    then show ?case using get_set [of m 0 "?R m"] b ks(2) by auto
  qed simp
  let ?a = "apply_layout ks r"
  have a: "?a = (?R (length ks))\<lparr>rlen := length ks\<rparr>"
    using R [of "length ks"] ks(2) by (simp add: apply_layout_def set_length_def)
  have get: "ring_get ?a k = Some (ring_items r ! (ks ! k))" if "k < length ks" for k
  proof -
    have "ring_get ?a k = ring_get (?R (length ks)) k" unfolding a by (simp add: ring_get_def cyclicIndex_def)
    then show ?thesis using R [of "length ks"] that ks b(1) ring_get_items [OF wf, of "ks ! k"] by simp
  qed
  show len: "rlen ?a = length ks" "maxLength ?a = maxLength r" using R [of "length ks"] by (simp_all add: a)
  have "ring_wf ?a \<and> ring_items ?a = map (\<lambda>k. ring_items r ! k) ks"
    by (rule ring_eqI) (use get len R [of "length ks"] b ks(2) in \<open>simp_all add: a\<close>)
  then show "ring_items ?a = map (\<lambda>k. ring_items r ! k) ks" "lines_all Q ?a"
    using r ks(1) by (auto simp: lines_all_def)
qed

subsection \<open>The screen moves up\<close>

text \<open>There are \<open>j\<close> lines too few below the scrollback; all but the lines and the position of the screen is the same.\<close>

definition short_by :: "(line \<Rightarrow> bool) \<Rightarrow> int \<Rightarrow> int \<Rightarrow> buffer \<Rightarrow> bool" where
  "short_by Q h j b \<longleftrightarrow>
     lines_all Q (lines b) \<and> int (rlen (lines b)) = ybase b + h - j \<and> 0 \<le> ybase b \<and> 0 \<le> ydisp b \<and> ydisp b \<le> ybase b \<and>
     0 \<le> cy b \<and> cy b < h \<and> h \<le> int (maxLength (lines b))"

definition same_rest :: "buffer \<Rightarrow> buffer \<Rightarrow> bool" where
  "same_rest b c \<longleftrightarrow>
     scrollTop c = scrollTop b \<and> scrollBottom c = scrollBottom b \<and> savedX c = savedX b \<and> cx c = cx b \<and>
     hasScrollback c = hasScrollback b \<and> b_cols c = b_cols b \<and> b_rows c = b_rows b \<and>
     maxLength (lines c) = maxLength (lines b)"

lemma adjust_one_of:
  assumes b: "short_by Q h j b" and Q: "Q (fresh_line w)" and j: "1 \<le> j"
  shows "short_by Q h (j - 1) (adjust_one w h b) \<and> same_rest b (adjust_one w h b)"
proof (cases "ybase b = 0")
  case True
  let ?b1 = "if 0 < cy b then b\<lparr>cy := cy b - 1\<rparr> else b"
  have l: "int (rlen (lines b)) < h" using b True j by (simp add: short_by_def)
  have nf: "\<not> isFull (lines b)" using b l by (simp add: short_by_def isFull_def)
  have push: "lines_all Q (ring_push (fresh_line w) (lines b\<lparr>fired := []\<rparr>))"
    by (rule lines_all_push) (use b Q in \<open>simp_all add: short_by_def\<close>)
  have "adjust_one w h b = update_lines (ring_push (fresh_line w)) ?b1" using True l by (simp add: adjust_one_def Let_def)
  then show ?thesis using b push nf True by (auto simp: short_by_def same_rest_def)
next
  case False
  then show ?thesis using b j by (auto simp: adjust_one_def short_by_def same_rest_def)
qed

lemma adjust_all_of:
  assumes "short_by Q h (int c) b" "Q (fresh_line w)"
  shows "short_by Q h 0 ((adjust_one w h ^^ c) b) \<and> same_rest b ((adjust_one w h ^^ c) b)"
proof -
  have "short_by Q h (int c - int n) ((adjust_one w h ^^ n) b) \<and> same_rest b ((adjust_one w h ^^ n) b)" if "n \<le> c" for n
    using that
  proof (induction n)
    case 0
    then show ?case using assms(1) by (simp add: same_rest_def)
  next
    case (Suc n)
    then show ?case using adjust_one_of [of Q h "int c - int n" "(adjust_one w h ^^ n) b" w] assms(2)
      by (simp add: same_rest_def algebra_simps)
  qed
  from this [of c] show ?thesis by simp
qed

lemma reflowLarger_of:
  assumes b: "stacked (\<lambda>l. line_length l = e \<and> uncut (b_cols b) l) h b" "0 \<le> cy b" "cy b < h" and w: "2 \<le> b_cols b" "b_cols b < e"
  shows "\<exists>c. reflowLarger cursor_too e h b = Some c \<and> stacked (\<lambda>l. line_length l = e) h c \<and> 0 \<le> cy c \<and> cy c < h
    \<and> same_rest b c"
proof -
  let ?Q = "\<lambda>l. line_length l = e" and ?r = "lines b" and ?nc = "getNullCell default_attr"
  have s: "lines_all ?Q ?r" "int (rlen ?r) = ybase b + h" "0 \<le> ybase b" "0 \<le> ydisp b" "ydisp b \<le> ybase b"
    using b(1) by (auto simp: stacked_def lines_all_def)
  have cut: "uncut (b_cols b) (the (ring_get ?r k))" if "k < rlen ?r" for k
    using b(1) lines_all_get [of _ ?r k] that by (force simp: stacked_def)
  obtain r ms where sc: "larger_scan cursor_too (ybase b + cy b) (b_cols b) e ?nc (rlen ?r) 0 ?r = Some (r, ms)" "lines_all ?Q r"
    "rlen r = rlen ?r" "maxLength r = maxLength ?r" "removals 0 (rlen ?r) ms" "ms \<noteq> [] \<longrightarrow> 0 < fst (hd ms)"
    using larger_scan_ok [OF w s(1), of 0 cursor_too "ybase b + cy b" ?nc] cut by auto
  show ?thesis
  proof (cases ms)
    case Nil
    then have "reflowLarger cursor_too e h b = Some (b\<lparr>lines := r\<rparr>)" using sc(1) by (simp add: reflowLarger_def)
    then show ?thesis using sc s b by (simp add: stacked_def same_rest_def)
  next
    case (Cons x ms')
    obtain ks c r1 where cl: "create_layout (rlen r) (rlen r) 0 ms 0 (r\<lparr>fired := []\<rparr>) = (ks, c, r1)"
      by (cases "create_layout (rlen r) (rlen r) 0 ms 0 (r\<lparr>fired := []\<rparr>)")
    have k: "length ks + c = rlen r" "set ks \<subseteq> {0..<rlen r}" "\<exists>es. r1 = r\<lparr>fired := []\<rparr>\<lparr>fired := es\<rparr>"
      using create_layout_of [OF _ _ cl] sc(3,5) by auto
    let ?f = "\<lambda>r. apply_layout ks (snd (snd (create_layout (rlen r) (rlen r) 0 ms 0 r)))"
    define b1 where "b1 = update_lines ?f (b\<lparr>lines := r\<rparr>)"
    let ?b2 = "(adjust_one e h ^^ c) b1"
    have e: "reflowLarger cursor_too e h b = Some (?b2\<lparr>savedY := max (savedY ?b2 - int c) 0\<rparr>)"
      using sc(1) cl Cons by (simp add: reflowLarger_def Let_def b1_def)
    have r1: "lines_all ?Q r1" "rlen r1 = rlen r" "maxLength r1 = maxLength r" using k(3) sc(2) by auto
    have ks: "\<forall>k \<in> set ks. k < rlen r1" using k(2) r1(2) by auto
    have l1: "lines b1 = apply_layout ks r1" using cl by (simp add: b1_def)
    have a: "lines_all ?Q (apply_layout ks r1)" "rlen (apply_layout ks r1) = length ks"
      "maxLength (apply_layout ks r1) = maxLength ?r"
      using apply_layout_of [OF r1(1) ks] k(1) r1(2,3) sc(4) by simp_all
    have h: "h \<le> int (maxLength ?r)" using s(2,3) ring_wf_bounds(1) [of ?r] s(1) by (simp add: lines_all_def)
    have f1: "ybase b1 = ybase b" "ydisp b1 = ydisp b" "cy b1 = cy b" "scrollTop b1 = scrollTop b" "scrollBottom b1 = scrollBottom b"
      "savedX b1 = savedX b" "cx b1 = cx b" "hasScrollback b1 = hasScrollback b" "b_cols b1 = b_cols b" "b_rows b1 = b_rows b"
      by (simp_all add: b1_def)
    have short: "short_by ?Q h (int c) b1"
      using a s b(2,3) k(1) sc(3) h unfolding short_by_def l1 f1 by simp
    have "short_by ?Q h 0 ?b2 \<and> same_rest b1 ?b2" by (rule adjust_all_of [OF short]) (use w in simp)
    then show ?thesis unfolding e using a(3) f1 by (simp add: short_by_def stacked_def same_rest_def l1)
  qed
qed

subsection \<open>Lines made wider\<close>

lemma trimmed_cases:
  obtains (empty) "getTrimmedLength l = 0" "\<And>j. 0 \<le> j \<Longrightarrow> j < line_length l \<Longrightarrow> \<not> hasContent l j"
  | (last) i where "0 \<le> i" "i < line_length l" "hasContent l i" "getTrimmedLength l = i + getWidth l i"
      "\<And>j. i < j \<Longrightarrow> j < line_length l \<Longrightarrow> \<not> hasContent l j"
proof (cases "List.find (\<lambda>i. truthy (s_content (slots l ! i) AND 0x3FFFFF)) (rev [0..<length (slots l)])")
  case None
  then have "\<forall>i < length (slots l). \<not> truthy (s_content (slots l ! i) AND 0x3FFFFF)" by (simp add: find_None_iff)
  then show ?thesis using empty None
    by (simp add: getTrimmedLength_def trimmed_def hasContent_def slot_at_def line_length_def nat_less_iff)
next
  case (Some i)
  then have i: "i < length (slots l)" "truthy (s_content (slots l ! i) AND 0x3FFFFF)"
    "\<forall>j. i < j \<longrightarrow> j < length (slots l) \<longrightarrow> \<not> truthy (s_content (slots l ! j) AND 0x3FFFFF)" by (simp_all add: find_last)
  show ?thesis
  proof (rule last [of "int i"])
    show "getTrimmedLength l = int i + getWidth l (int i)"
      using Some i(1) by (simp add: getTrimmedLength_def trimmed_def getWidth_def slot_at_def line_length_def)
    show "\<not> hasContent l j" if "int i < j" "j < line_length l" for j
      using i(3) [rule_format, of "nat j"] that by (simp add: hasContent_def slot_at_def line_length_def nat_less_iff zless_nat_eq_int_zless)
  qed (use i in \<open>simp_all add: hasContent_def slot_at_def line_length_def\<close>)
qed

lemma null_content [simp]: "\<not> truthy (content (getNullCell a) AND 0x3FFFFF)"
proof -
  have "content null_cell = 0x400000" by code_simp
  then show ?thesis by (simp add: getNullCell_def truthy_def)
qed

lemma slot_at_wider:
  assumes "line_length l < e"
  shows "slot_at (line_resize e c l) j =
    (if 0 \<le> j \<and> j < line_length l then slot_at l j else if line_length l \<le> j \<and> j < e then slot_of c else no_slot)"
proof -
  let ?l = "l\<lparr>slots := slots l @ replicate (nat (e - line_length l)) no_slot\<rparr>"
  have len: "line_length ?l = e" using assms by (simp add: line_length_def)
  have "line_resize e c l = for_up (line_length l) e (\<lambda>i. setCell i c) ?l" using assms by (simp add: line_resize_def)
  moreover have "slot_at ?l j = (if 0 \<le> j \<and> j < line_length l then slot_at l j else no_slot)"
    using assms len by (auto simp: slot_at_def line_length_def nth_append)
  ultimately show ?thesis using assms len slot_at_fill0 [of "line_length l" e c ?l j] by (auto simp: line_length_def)
qed

lemma trimmed_unique:
  assumes "0 \<le> i" "i < line_length l" "hasContent l i" "\<And>j. i < j \<Longrightarrow> j < line_length l \<Longrightarrow> \<not> hasContent l j"
  shows "getTrimmedLength l = i + getWidth l i"
proof (cases rule: trimmed_cases [of l])
  case empty
  then show ?thesis using assms by blast
next
  case (last k)
  then have "k = i" using assms by (metis linorder_neqE_linordered_idom)
  then show ?thesis using last by simp
qed

lemma trimmed_wider:
  assumes "line_length l < e"
  shows "getTrimmedLength (line_resize e (getNullCell a) l) = getTrimmedLength l"
proof -
  let ?l = "line_resize e (getNullCell a) l"
  have "0 \<le> e" using assms by (simp add: line_length_def)
  then have len: "line_length ?l = e" by simp
  have c: "hasContent ?l j \<longleftrightarrow> hasContent l j" if "0 \<le> j" "j < line_length l" for j
    using that by (simp add: hasContent_def slot_at_wider [OF assms])
  have n: "\<not> hasContent ?l j" if "line_length l \<le> j" "j < e" for j
    using that by (simp add: hasContent_def slot_at_wider [OF assms] slot_of_def line_length_def)
  show ?thesis
  proof (cases rule: trimmed_cases [of l])
    case empty
    then have none: "\<not> hasContent ?l j" if "0 \<le> j" "j < e" for j using c n that by (meson not_le)
    show ?thesis
    proof (cases rule: trimmed_cases [of ?l])
      case (last i)
      then show ?thesis using none len by simp
    qed (use empty in simp)
  next
    case (last i)
    have "\<not> hasContent ?l j" if "i < j" "j < e" for j
      using last(1) last(5) [of j] c [of j] n [of j] that by (cases "j < line_length l") simp_all
    then have "getTrimmedLength ?l = i + getWidth ?l i" using last(1-3) c [of i] len assms by (intro trimmed_unique) simp_all
    then show ?thesis using last by (simp add: getWidth_def slot_at_wider [OF assms])
  qed
qed

lemma slot_at_new:
  assumes "0 \<le> w"
  shows "slot_at (new_line w (Some c) wr) j = (if 0 \<le> j \<and> j < w then slot_of c else no_slot)"
proof -
  let ?z = "\<lparr>slots = replicate (nat w) no_slot, combined = Map.empty, ext_map = Map.empty, isWrapped = wr\<rparr>"
  have len: "line_length ?z = w" using assms by (simp add: line_length_def)
  have "slot_at ?z j = no_slot" using len by (simp add: slot_at_def)
  moreover have "slot_at (new_line w (Some c) wr) j = slot_at (for_up 0 w (\<lambda>i. setCell i c) ?z) j" by (simp add: new_line_def)
  ultimately show ?thesis using slot_at_fill0 [of 0 w c ?z j] len by simp
qed

lemma trimmed_fresh:
  assumes "0 \<le> w"
  shows "getTrimmedLength (fresh_line w) = 0"
proof -
  have "\<not> hasContent (fresh_line w) j" if "0 \<le> j" "j < line_length (fresh_line w)" for j
    using that assms by (simp add: hasContent_def slot_at_new slot_of_def)
  then show ?thesis by (cases rule: trimmed_cases [of "fresh_line w"]) auto
qed

lemma resize_lines_of:
  assumes b: "stacked Q h b" and Q: "\<And>l. Q l \<Longrightarrow> Q' (line_resize e (getNullCell default_attr) l)"
  shows "\<exists>c. resize_lines e b = Some c \<and> stacked Q' h c \<and> cy c = cy b \<and> same_rest b c \<and> ybase c = ybase b \<and> savedY c = savedY b"
proof -
  let ?r = "lines b" and ?f = "line_resize e (getNullCell default_attr)"
  have s: "lines_all Q ?r" "ring_wf ?r" using b by (simp_all add: stacked_def lines_all_def)
  let ?ls = "map ?f (ring_items ?r)"
  have "lines_all (\<lambda>l. True) ?r" using s by (simp add: lines_all_def)
  note w = write_lines_of [OF this, of ?ls 0]
  have it: "ring_wf (write_lines 0 ?ls ?r) \<and> ring_items (write_lines 0 ?ls ?r) = ?ls"
  proof (rule ring_eqI)
    show "ring_get (write_lines 0 ?ls ?r) i = Some (?ls ! i)" if "i < length ?ls" for i
      using w(4) [of i] that by simp
    show "length (arr (write_lines 0 ?ls ?r)) = maxLength (write_lines 0 ?ls ?r)"
      using w(1) ring_wf_bounds(3) [of "write_lines 0 ?ls ?r"] by (simp add: lines_all_def)
  qed (use w ring_wf_bounds [OF s(2)] in simp_all)
  have "resize_lines e b = Some (b\<lparr>lines := write_lines 0 ?ls ?r\<rparr>)"
    using those_get [OF s(2), of 0] by (simp add: resize_lines_def)
  moreover have "lines_all Q' (write_lines 0 ?ls ?r)" using it s(1) Q by (auto simp: lines_all_def)
  ultimately show ?thesis using b w by (simp add: stacked_def same_rest_def)
qed

subsection \<open>A wider buffer\<close>

lemma stacked_bottom [simp]: "stacked Q h (b\<lparr>scrollBottom := v\<rparr>) = stacked Q h b"
  by (simp add: stacked_def)

lemma stacked_used: "stacked Q h b \<Longrightarrow> 0 \<le> cy b \<Longrightarrow> cy b < h \<Longrightarrow> 0 < rlen (lines b)"
  unfolding stacked_def by linarith

text \<open>A buffer that fits a screen, with the cursor in the screen.\<close>

definition fits :: "int \<Rightarrow> int \<Rightarrow> int \<Rightarrow> buffer \<Rightarrow> bool" where
  "fits sb w h b \<longleftrightarrow> buf_frame w h b \<and> store_size sb h b \<and> 0 \<le> cy b \<and> cy b < h \<and> 0 \<le> cx b"

lemma grow_store_cx [simp]: "cx (grow_store n b) = cx b"
  by (simp add: grow_store_def)

lemma fitsI:
  assumes "stacked (\<lambda>l. line_length l = w) h b" "scrollTop b = 0" "scrollBottom b = h - 1" "0 \<le> savedX b" "1 \<le> h"
    "0 \<le> cy b" "cy b < h" "0 \<le> cx b" "maxLength (lines b) = nat (correctBufferLength (hasScrollback b) sb h)"
  shows "fits sb w h (b\<lparr>b_cols := w, b_rows := h\<rparr>)"
  using assms by (simp add: fits_def buf_frame_def stacked_def lines_ok_all store_size_def)

lemma resize_wider:
  assumes b: "fits sb w h b" and w: "2 \<le> w" "w < w'" and h: "1 \<le> h'"
    and sb: "0 \<le> sb" "h + sb \<le> 4294967295" "h' + sb \<le> 4294967295" and cut: "hasScrollback b \<Longrightarrow> \<forall>l \<in> set (ring_items (lines b)). uncut w l"
  shows "\<exists>b'. buffer_resize cursor_too sb w' h' b = Some b' \<and> fits sb w' h' b' \<and> hasScrollback b' = hasScrollback b"
proof -
  define n where "n = nat (correctBufferLength (hasScrollback b) sb h')"
  let ?Q = "\<lambda>l. line_length l = w \<and> (hasScrollback b \<longrightarrow> uncut w l)"
    and ?Q' = "\<lambda>l. line_length l = w' \<and> (hasScrollback b \<longrightarrow> uncut w l)" and ?b1 = "grow_store n b"
  have g: "b_cols b = w" "b_rows b = h" "0 \<le> savedX b" "0 \<le> cy b" "cy b < h" "store_size sb h b" "0 \<le> cx b"
    using b by (simp_all add: fits_def buf_frame_def)
  have s: "stacked ?Q h b" using b cut by (auto simp: fits_def buf_frame_def stacked_def lines_ok_def lines_all_def)
  note b1 = grow_store_of [OF s g(4,5) sb g(6) h n_def]
  have wide: "\<And>l. ?Q l \<Longrightarrow> ?Q' (line_resize w' (getNullCell default_attr) l)"
    using w trimmed_wider [of _ w' default_attr] by (simp add: uncut_def)
  from resize_lines_of [where Q = ?Q and Q' = ?Q' and e = w', OF b1(1) wide]
  obtain b2 where b2: "resize_lines w' ?b1 = Some b2" "stacked ?Q' h b2" "cy b2 = cy ?b1" "same_rest ?b1 b2"
    "ybase b2 = ybase ?b1" by fast
  have r: "b_cols b2 = w" "b_rows b2 = h" "savedX b2 = savedX b" "hasScrollback b2 = hasScrollback b"
    "maxLength (lines b2) = maxLength (lines ?b1)" "cx b2 = cx b"
    using b2(4) b1(4-7) g(1,2) by (simp_all add: same_rest_def)
  have Q: "?Q' (fresh_line w')" using w trimmed_fresh [of w'] by (simp add: uncut_def)
  have w1: "1 \<le> w'" using w by linarith
  have p: "0 \<le> cy b2" "cy b2 < h" "0 \<le> savedX b2" "ybase b2 + h' \<le> int (maxLength (lines b2)) \<or> h' \<le> h"
    using b2(3,5) b1(2,3,10) g(3-5) r(3,5) w by (simp_all only:)
  let ?c = "fit_rows w' h' n b2"
  note c = fit_rows_of [OF b2(2) p(1,2) Q r(2) h b1(9) p(4,3) w1]
  let ?d = "?c\<lparr>scrollBottom := h' - 1\<rparr>"
  have used: "resize_used w' h' n ?b1 = Some ?c" using b2(1) b1(5) g(1) w by (simp add: resize_used_def)
  have pos: "0 < rlen (lines ?b1)" by (rule stacked_used [OF b1(1)]) (use g b1(2) in simp_all)
  have size: "maxLength (lines ?c) = n" "0 \<le> cx ?c" using c(8,9) r(5,6) b1(11) g(7) w1 by simp_all
  show ?thesis
  proof (cases "hasScrollback b")
    case False
    have st: "stacked (\<lambda>l. line_length l = w') h' ?d" using c(1) by (auto simp: stacked_def elim: lines_all_mono)
    have "fits sb w' h' (?d\<lparr>b_cols := w', b_rows := h'\<rparr>)"
      by (rule fitsI [OF st]) (use c(2,3,5,6,7) r(4) size h n_def in simp_all)
    then show ?thesis using buffer_resize_steps [OF n_def pos used] False c(5) r(4) by simp
  next
    case True
    have "stacked (\<lambda>l. line_length l = w' \<and> uncut (b_cols ?d) l) h' ?d"
      using c(1,4) r(1) True by simp
    then obtain e where e: "reflowLarger cursor_too w' h' ?d = Some e" "stacked (\<lambda>l. line_length l = w') h' e" "0 \<le> cy e" "cy e < h'"
      "same_rest ?d e"
      using reflowLarger_of [of w' ?d h' cursor_too] c(4,6,7) r(1) w by auto
    have "reflow cursor_too w' h' ?d = Some e" using e(1) c(4) r(1) w by (simp add: reflow_def)
    moreover have "fits sb w' h' (e\<lparr>b_cols := w', b_rows := h'\<rparr>)"
      by (rule fitsI [OF e(2)]) (use e(3-5) c(2,3,5) r(4) size h n_def in \<open>simp_all add: same_rest_def\<close>)
    moreover have "hasScrollback e" using e(5) c(5) r(4) True by (simp add: same_rest_def)
    ultimately show ?thesis using buffer_resize_steps [OF n_def pos used] True g(1) w by simp
  qed
qed

end
