(* ===== verification/Xterm_Resize_Insert.thy ===== *)
theory Xterm_Resize_Insert
  imports Xterm_Resize Xterm_Buffer_Inv
begin

text \<open>
  Where the lines go when a reflow to a smaller width inserts new ones: with room for all, each group of new lines
  is at its place between the old lines. Without room, the code writes lines to places before the start of the
  list, and the newest line can be overwritten.
\<close>

subsection \<open>Writing to places\<close>

lemma set_at_inside: "0 \<le> i \<Longrightarrow> set_at i x r = ring_set (nat i) x r"
  by (simp add: set_at_def ring_set_def cyclicIndex_def Let_def nat_mod_distrib nat_add_distrib)

text \<open>A place before the first one is the place that far before the end, if the list starts far enough in the array.\<close>

lemma set_at_before:
  assumes "i < 0" "0 \<le> int (startIndex r) + i" "- i \<le> int (maxLength r)"
  shows "set_at i x r = ring_set (nat (int (maxLength r) + i)) x r"
proof -
  have "(int (startIndex r) + i) mod int (maxLength r) = (int (startIndex r) + (int (maxLength r) + i)) mod int (maxLength r)"
    by (metis add.assoc add.commute mod_add_self2)
  also have "\<dots> = int ((startIndex r + nat (int (maxLength r) + i)) mod maxLength r)"
    using assms by (simp add: zmod_int)
  finally show ?thesis using assms by (simp add: set_at_def ring_set_def cyclicIndex_def Let_def)
qed

lemma set_at_fields [simp]:
  "rlen (set_at i x r) = rlen r" "maxLength (set_at i x r) = maxLength r" "startIndex (set_at i x r) = startIndex r"
  "length (arr (set_at i x r)) = length (arr r)" "fired (set_at i x r) = fired r"
  by (simp_all add: set_at_def Let_def)

lemma set_at_get:
  assumes "0 \<le> i" "i < int (maxLength r)" "length (arr r) = maxLength r" "k < maxLength r"
  shows "ring_get (set_at i x r) k = (if nat i = k then x else ring_get r k)"
  using assms get_set [of "nat i" 0 r k x] by (simp add: set_at_inside nat_less_iff)

lemma put_new_fields [simp]:
  "rlen (put_new f new r) = rlen r" "maxLength (put_new f new r) = maxLength r"
  "startIndex (put_new f new r) = startIndex r" "length (arr (put_new f new r)) = length (arr r)"
  "fired (put_new f new r) = fired r"
proof -
  have "rlen (fold (\<lambda>j. set_at (f - int j) (g j)) js r) = rlen r
    \<and> maxLength (fold (\<lambda>j. set_at (f - int j) (g j)) js r) = maxLength r
    \<and> startIndex (fold (\<lambda>j. set_at (f - int j) (g j)) js r) = startIndex r
    \<and> length (arr (fold (\<lambda>j. set_at (f - int j) (g j)) js r)) = length (arr r)
    \<and> fired (fold (\<lambda>j. set_at (f - int j) (g j)) js r) = fired r" for js g
    by (induction js arbitrary: r) simp_all
  then show "rlen (put_new f new r) = rlen r" "maxLength (put_new f new r) = maxLength r"
    "startIndex (put_new f new r) = startIndex r" "length (arr (put_new f new r)) = length (arr r)"
    "fired (put_new f new r) = fired r"
    by (simp_all add: put_new_def)
qed

lemma put_new_get:
  assumes "int (length new) \<le> f + 1" "f < int (maxLength r)" "length (arr r) = maxLength r" "k < maxLength r"
  shows "ring_get (put_new f new r) k =
    (if f - int (length new) < int k \<and> int k \<le> f then Some (new ! nat (int k - (f + 1 - int (length new)))) else ring_get r k)"
proof -
  let ?R = "\<lambda>n. fold (\<lambda>j. set_at (f - int j) (Some (rev new ! j))) [0..<n] r"
  have fields: "maxLength (?R n) = maxLength r \<and> length (arr (?R n)) = length (arr r)" for n
    by (induction n) simp_all
  have "n \<le> length new \<Longrightarrow> ring_get (?R n) k =
      (if f - int n < int k \<and> int k \<le> f then Some (rev new ! nat (f - int k)) else ring_get r k)" for n
  proof (induction n)
    case (Suc n)
    have "ring_get (set_at (f - int n) (Some (rev new ! n)) (?R n)) k =
        (if nat (f - int n) = k then Some (rev new ! n) else ring_get (?R n) k)"
      by (rule set_at_get) (use Suc.prems assms fields [of n] in simp_all)
    then show ?case using Suc assms(1) by auto
  qed auto
  from this [of "length new"] show ?thesis
    using assms(1) by (auto simp: put_new_def rev_nth intro!: arg_cong [where f = "\<lambda>i. new ! i"])
qed

subsection \<open>The intended list\<close>

text \<open>The lines \<open>xs\<close> with the insertions, the last one first; \<open>q\<close> lines are inserted already below.\<close>

fun merged :: "'a list \<Rightarrow> nat \<Rightarrow> (int \<times> 'a list) list \<Rightarrow> 'a list" where
  "merged xs q [] = xs"
| "merged xs q ((s, new) # ins) =
     merged (take (nat (s - int q)) xs) (q + length new) ins @ new @ drop (nat (s - int q)) xs"

fun ins_ok :: "int \<Rightarrow> nat \<Rightarrow> (int \<times> 'a list) list \<Rightarrow> bool" where
  "ins_ok m q [] \<longleftrightarrow> True"
| "ins_ok m q ((s, new) # ins) \<longleftrightarrow>
     new \<noteq> [] \<and> 0 \<le> s - int q \<and> s - int q \<le> m \<and> ins_ok (s - int q) (q + length new) ins"

definition ins_size :: "(int \<times> 'a list) list \<Rightarrow> nat" where
  "ins_size ins = sum_list (map (\<lambda>i. length (snd i)) ins)"

lemma ins_size_simps [simp]: "ins_size [] = 0" "ins_size ((s, new) # ins) = length new + ins_size ins"
  by (simp_all add: ins_size_def)

lemma length_merged: "ins_ok (int (length xs)) q ins \<Longrightarrow> length (merged xs q ins) = length xs + ins_size ins"
proof (induction xs q ins rule: merged.induct)
  case (2 xs q s new ins)
  then have "nat (s - int q) \<le> length xs" by (simp add: nat_le_iff)
  then have l: "length (take (nat (s - int q)) xs) = nat (s - int q)" by simp
  have "int (length (take (nat (s - int q)) xs)) = s - int q" using l 2(2) by simp
  then have "length (merged (take (nat (s - int q)) xs) (q + length new) ins) = nat (s - int q) + ins_size ins"
    using 2 l by simp
  then show ?case using \<open>nat (s - int q) \<le> length xs\<close> by simp
qed simp

text \<open>The last old line, when no insertion is behind it.\<close>

lemma merged_snoc:
  assumes "case ins of [] \<Rightarrow> True | (s, new) # _ \<Rightarrow> s - int q \<le> int (length xs)"
  shows "merged (xs @ [x]) q ins = merged xs q ins @ [x]"
  using assms by (cases ins) (auto split: prod.splits)

definition same_outline :: "'a ring \<Rightarrow> 'a ring \<Rightarrow> bool" where
  "same_outline r r' \<longleftrightarrow> rlen r' = rlen r \<and> maxLength r' = maxLength r \<and> startIndex r' = startIndex r
    \<and> length (arr r') = length (arr r) \<and> fired r' = fired r"

lemma rearrange_step:
  assumes "\<not> f < 0"
  shows "fst (rearrange old f h q [] r) = fst (rearrange old (f - 1) (h - 1) q []
      (set_at f (if 0 \<le> h \<and> h < int (length old) then old ! nat h else None) r))"
    and "h + int q < s \<Longrightarrow> fst (rearrange old f h q ((s, new) # ins) r) =
      fst (rearrange old (f - 1 - int (length new - 1)) h (q + length new) ins (put_new f new r))"
    and "\<not> h + int q < s \<Longrightarrow> fst (rearrange old f h q ((s, new) # ins) r) =
      fst (rearrange old (f - 1) (h - 1) q ((s, new) # ins)
        (set_at f (if 0 \<le> h \<and> h < int (length old) then old ! nat h else None) r))"
  using assms by (simp_all add: rearrange.simps [of old f] split: prod.splits)

lemma rearrange_fields: "same_outline r (fst (rearrange old f h q ins r))"
proof (induction old f h q ins r rule: rearrange.induct)
  case (1 old f h q ins r)
  show ?case
  proof (cases "f < 0")
    case False
    note IH = 1 [OF False]
    show ?thesis
    proof (cases ins)
      case Nil
      then show ?thesis using IH(1) [OF Nil] rearrange_step(1) [OF False] by (simp add: same_outline_def)
    next
      case (Cons i ins')
      obtain s new where i: "(s, new) = i" by (cases i) simp
      show ?thesis
      proof (cases "h + int q < s")
        case True
        then show ?thesis using IH(2) [OF Cons i True] rearrange_step(2) [OF False True] Cons i [symmetric]
          by (simp add: same_outline_def)
      next
        case nin: False
        then show ?thesis using IH(3) [OF Cons i nin] rearrange_step(3) [OF False nin] Cons i [symmetric]
          by (simp add: same_outline_def)
      qed
    qed
  qed (simp add: rearrange.simps same_outline_def)
qed

lemma ins_size_pos: "ins_ok m q ((s, new) # ins) \<Longrightarrow> 0 < length new"
  by simp

text \<open>With room for all lines, every place up to \<open>f\<close> gets the line of the intended list.\<close>

lemma rearrange_get:
  assumes "ins_ok (h + 1) q ins" "-1 \<le> h" "h < int (length xs)" "f = h + int (ins_size ins)" "f < int (maxLength r)"
    "length (arr r) = maxLength r" "k < maxLength r"
  shows "ring_get (fst (rearrange (map Some xs) f h q ins r)) k =
    (if int k \<le> f then Some (merged (take (nat (h + 1)) xs) q ins ! k) else ring_get r k)"
  using assms
proof (induction "map Some xs" f h q ins r rule: rearrange.induct)
  case (1 f h q ins r)
  note IH = 1(1,2,3) and p = "1.prems"
  let ?old = "map Some xs"
  show ?case
  proof (cases "f < 0")
    case True
    then show ?thesis by (simp add: rearrange.simps)
  next
    case f: False
    let ?x = "if 0 \<le> h \<and> h < int (length ?old) then ?old ! nat h else None"
    text \<open>An old line goes to the place \<open>f\<close>.\<close>
    have old_line: "ring_get (fst (rearrange ?old (f - 1) (h - 1) q ins (set_at f ?x r))) k =
        (if int k \<le> f then Some (merged (take (nat (h + 1)) xs) q ins ! k) else ring_get r k)"
      if h0: "0 \<le> h" and ok: "ins_ok h q ins"
        and ih: "ring_get (fst (rearrange ?old (f - 1) (h - 1) q ins (set_at f ?x r))) k =
          (if int k \<le> f - 1 then Some (merged (take (nat h) xs) q ins ! k) else ring_get (set_at f ?x r) k)"
    proof -
      have hx: "?x = Some (xs ! nat h)" using h0 p(3) by simp
      have t: "take (nat (h + 1)) xs = take (nat h) xs @ [xs ! nat h]"
        using h0 p(3) by (simp add: nat_add_distrib take_Suc_conv_app_nth)
      have lt: "int (length (take (nat h) xs)) = h" using h0 p(3) by simp
      have "merged (take (nat (h + 1)) xs) q ins = merged (take (nat h) xs) q ins @ [xs ! nat h]"
        unfolding t by (rule merged_snoc) (use ok lt in \<open>auto split: list.splits\<close>)
      moreover have "int (length (merged (take (nat h) xs) q ins)) = f"
        using length_merged [of "take (nat h) xs" q ins] ok p(4) lt by simp
      moreover have "ring_get (set_at f ?x r) k = (if nat f = k then ?x else ring_get r k)"
        by (rule set_at_get) (use f p in simp_all)
      ultimately show ?thesis using ih hx by (auto simp: nth_append)
    qed
    show ?thesis
    proof (cases ins)
      case Nil
      have "rearrange ?old f h q ins r = rearrange ?old (f - 1) (h - 1) q ins (set_at f ?x r)"
        using f Nil by (simp add: rearrange.simps [of ?old f])
      moreover have "0 \<le> h" using f p(4) Nil by simp
      ultimately show ?thesis using old_line IH(1) [OF f Nil] p Nil by simp
    next
      case (Cons i ins')
      obtain s new where i: "(s, new) = i" by (cases i) simp
      have ok: "new \<noteq> []" "0 \<le> s - int q" "s - int q \<le> h + 1" "ins_ok (s - int q) (q + length new) ins'"
        using p(1) Cons i [symmetric] by simp_all
      show ?thesis
      proof (cases "h + int q < s")
        case True
        have s: "s - int q = h + 1" using True ok(3) by simp
        have e: "f - 1 - int (length new - 1) = f - int (length new)" using ok(1) by (cases new) simp_all
        have r: "fst (rearrange ?old f h q ins r) =
            fst (rearrange ?old (f - int (length new)) h (q + length new) ins' (put_new f new r))"
          using f Cons i [symmetric] True e by (simp add: rearrange.simps [of ?old f] split: prod.splits)
        have f': "f - int (length new) = h + int (ins_size ins')" using p(4) Cons i [symmetric] by simp
        have ih: "ring_get (fst (rearrange ?old (f - int (length new)) h (q + length new) ins' (put_new f new r))) k =
            (if int k \<le> f - int (length new) then Some (merged (take (nat (h + 1)) xs) (q + length new) ins' ! k)
             else ring_get (put_new f new r) k)"
        proof (rule IH(2) [OF f Cons i True, unfolded e])
          show "ins_ok (h + 1) (q + length new) ins'" using ok(4) s by simp
          show "f - int (length new) < int (maxLength (put_new f new r))" using p(5) by simp
        qed (use p f' in simp_all)
        have lt: "int (length (take (nat (h + 1)) xs)) = h + 1" using p(2,3) by simp
        then have m: "merged (take (nat (h + 1)) xs) q ins = merged (take (nat (h + 1)) xs) (q + length new) ins' @ new"
          using Cons i [symmetric] s by simp
        have len: "int (length (merged (take (nat (h + 1)) xs) (q + length new) ins')) = f - int (length new) + 1"
          using length_merged [of "take (nat (h + 1)) xs" "q + length new" ins'] ok(4) s lt f' by simp
        have "int (length new) \<le> f + 1" using f' p(2) by simp
        then have "ring_get (put_new f new r) k =
            (if f - int (length new) < int k \<and> int k \<le> f then Some (new ! nat (int k - (f + 1 - int (length new))))
             else ring_get r k)"
          by (rule put_new_get) (use p in simp_all)
        then show ?thesis unfolding r ih m using len by (auto simp: nth_append intro!: arg_cong [where f = "\<lambda>j. new ! j"])
      next
        case False
        have "rearrange ?old f h q ins r = rearrange ?old (f - 1) (h - 1) q ins (set_at f ?x r)"
          using f Cons i [symmetric] False by (simp add: rearrange.simps [of ?old f])
        moreover have "0 \<le> h" using False ok(2) by simp
        moreover have "ins_ok h q ins" using Cons i [symmetric] ok False by simp
        ultimately show ?thesis using old_line IH(3) [OF f Cons i False] p by simp
      qed
    qed
  qed
qed

lemma fire_inserts_fields [simp]:
  "rlen (fire_inserts es p r) = rlen r" "maxLength (fire_inserts es p r) = maxLength r"
  "ring_get (fire_inserts es p r) k = ring_get r k" "arr (fire_inserts es p r) = arr r"
  by (induction es p r rule: fire_inserts.induct) simp_all

lemma set_length_fields [simp]:
  "rlen (set_length n r) = n" "maxLength (set_length n r) = maxLength r" "length (arr (set_length n r)) = length (arr r)"
  "startIndex (set_length n r) = startIndex r"
proof -
  have "length (fold (\<lambda>i a. a[i := None]) js xs) = length xs" for js and xs :: "'a option list"
    by (induction js arbitrary: xs) simp_all
  then show "rlen (set_length n r) = n" "maxLength (set_length n r) = maxLength r"
    "length (arr (set_length n r)) = length (arr r)" "startIndex (set_length n r) = startIndex r"
    by (simp_all add: set_length_def Let_def)
qed

text \<open>
  A reflow to a smaller width that has room for all lines loses none and keeps their order: the list is the
  old lines with each group of new lines at its place.
\<close>

theorem insert_lines_merges:
  assumes r: "ring_wf r" and ok: "ins_ok (int (rlen r)) 0 ins" and room: "rlen r + ins_size ins \<le> maxLength r"
  shows "ring_wf (insert_lines ins (ins_size ins) r)
    \<and> ring_items (insert_lines ins (ins_size ins) r) = merged (ring_items r) 0 ins"
proof -
  let ?n = "rlen r" and ?e = "ins_size ins" and ?xs = "ring_items r"
  let ?r0 = "set_length (?n + ?e) r"
  note b = ring_wf_bounds [OF r]
  have old: "map (ring_get r) [0..<?n] = map Some ?xs"
    by (rule nth_equalityI) (simp_all add: ring_get_items [OF r])
  define p where "p = rearrange (map Some ?xs) (int (?n + ?e) - 1) (int ?n - 1) 0 ins ?r0"
  have i: "insert_lines ins ?e r = fire_inserts (rev (snd p)) 0 (fst p)"
    using room old by (simp add: insert_lines_def Let_def p_def split: prod.splits)
  have fields: "rlen (fst p) = ?n + ?e" "maxLength (fst p) = maxLength r" "length (arr (fst p)) = maxLength r"
    using rearrange_fields [of ?r0 "map Some ?xs" "int (?n + ?e) - 1" "int ?n - 1" 0 ins] b by (simp_all add: p_def same_outline_def)
  have get: "ring_get (fst p) k = Some (merged ?xs 0 ins ! k)" if k: "k < ?n + ?e" for k
  proof -
    have "ring_get (fst p) k = (if int k \<le> int (?n + ?e) - 1
        then Some (merged (take (nat (int ?n - 1 + 1)) ?xs) 0 ins ! k) else ring_get ?r0 k)"
      unfolding p_def by (rule rearrange_get) (use ok room b k in simp_all)
    then show ?thesis using k by simp
  qed
  have len: "length (merged ?xs 0 ins) = ?n + ?e" using length_merged [of ?xs 0 ins] ok by simp
  show ?thesis unfolding i
    by (rule ring_eqI) (use fields get len b room in simp_all)
qed

lemma example_ring:
  defines "l \<equiv> \<lambda>n. new_line n None False"
  shows "\<exists>r. ring_wf r \<and> rlen r = 3 \<and> maxLength r = 8 \<and> ring_items r = [l 2, l 3, l 2]"
    and "\<exists>r. ring_wf r \<and> rlen r = 2 \<and> maxLength r = 2 \<and> startIndex r = 1 \<and> ring_items r = [l 3, l 5]"
    and "l 2 \<noteq> l 4" "l 5 \<noteq> l 4"
proof -
  let ?a = "fold ring_push [l 2, l 3, l 2] (new_ring 8)" and ?b = "fold ring_push [l 2, l 3, l 5] (new_ring 2)"
  have "\<not> isFull (new_ring 8 :: line ring)" "\<not> isFull (ring_push (l 2) (new_ring 8))"
    "\<not> isFull (ring_push (l 3) (ring_push (l 2) (new_ring 8)))"
    "rlen ?a = 3" "maxLength ?a = 8" unfolding l_def by code_simp+
  then show "\<exists>r. ring_wf r \<and> rlen r = 3 \<and> maxLength r = 8 \<and> ring_items r = [l 2, l 3, l 2]"
    by (intro exI [of _ ?a]) (simp add: ring_push_items new_ring_items)
  have "\<not> isFull (new_ring 2 :: line ring)" "\<not> isFull (ring_push (l 2) (new_ring 2))"
    "isFull (ring_push (l 3) (ring_push (l 2) (new_ring 2)))"
    "rlen ?b = 2" "maxLength ?b = 2" "startIndex ?b = 1" unfolding l_def by code_simp+
  then show "\<exists>r. ring_wf r \<and> rlen r = 2 \<and> maxLength r = 2 \<and> startIndex r = 1 \<and> ring_items r = [l 3, l 5]"
    by (intro exI [of _ ?b]) (simp add: ring_push_items new_ring_items)
  have "line_length (l 2) \<noteq> line_length (l 4)" "line_length (l 5) \<noteq> line_length (l 4)" unfolding l_def by code_simp+
  then show "l 2 \<noteq> l 4" "l 5 \<noteq> l 4" by metis+
qed

theorem insert_lines_merges_witness:
  "\<exists>r a b c d. rlen r = 3 \<and> ring_items r = [a, b, a] \<and> a \<noteq> (c :: line) \<and>
     ring_items (insert_lines [(3, [c]), (2, [c, d])] 3 r) = [a, c, d, b, a, c]"
proof -
  let ?l = "\<lambda>n. new_line n None False"
  obtain r where r: "ring_wf r" "rlen r = 3" "maxLength r = 8" "ring_items r = [?l 2, ?l 3, ?l 2]"
    using example_ring(1) by blast
  have "ring_items (insert_lines [(3, [?l 4]), (2, [?l 4, ?l 5])] 3 r) = [?l 2, ?l 4, ?l 5, ?l 3, ?l 2, ?l 4]"
    using insert_lines_merges [OF r(1), of "[(3, [?l 4]), (2, [?l 4, ?l 5])]"] r by (simp add: numeral_eq_Suc)
  then show ?thesis using r(2,4) example_ring(3) by metis
qed

subsection \<open>Without room\<close>

text \<open>Lines written before the first place are at the end of the list, if the list does not start the array.\<close>

lemma put_new_last:
  assumes "-1 \<le> f" "f + 1 < int (length new)" "int (length new) \<le> f + 1 + int (startIndex r)"
    "f < int (maxLength r) - 1" "length (arr r) = maxLength r"
    "int (length new) \<le> f + 1 + int (maxLength r)"
  shows "ring_get (put_new f new r) (maxLength r - 1) = Some (new ! nat (int (length new) - f - 2))"
proof -
  let ?R = "\<lambda>n. fold (\<lambda>j. set_at (f - int j) (Some (rev new ! j))) [0..<n] r"
  have fields: "maxLength (?R n) = maxLength r \<and> length (arr (?R n)) = length (arr r) \<and> startIndex (?R n) = startIndex r" for n
    by (induction n) simp_all
  have "n \<le> length new \<Longrightarrow> ring_get (?R n) (maxLength r - 1) =
      (if f + 2 \<le> int n then Some (rev new ! nat (f + 1)) else ring_get r (maxLength r - 1))" for n
  proof (induction n)
    case (Suc n)
    let ?x = "Some (rev new ! n)"
    have step: "?R (Suc n) = set_at (f - int n) ?x (?R n)" by simp
    show ?case
    proof (cases "int n \<le> f")
      case True
      have "ring_get (set_at (f - int n) ?x (?R n)) (maxLength r - 1) =
          (if nat (f - int n) = maxLength r - 1 then ?x else ring_get (?R n) (maxLength r - 1))"
        by (rule set_at_get) (use True assms fields [of n] in simp_all)
      then show ?thesis using Suc True assms unfolding step by auto
    next
      case False
      have "set_at (f - int n) ?x (?R n) = ring_set (nat (int (maxLength (?R n)) + (f - int n))) ?x (?R n)"
        by (rule set_at_before) (use False Suc.prems assms fields [of n] in simp_all)
      then have "ring_get (?R (Suc n)) (maxLength r - 1) =
          (if nat (int (maxLength r) + (f - int n)) = maxLength r - 1 then ?x else ring_get (?R n) (maxLength r - 1))"
        unfolding step using fields [of n] assms Suc.prems False
          get_set [of "nat (int (maxLength r) + (f - int n))" 0 "?R n" "maxLength r - 1" ?x] by simp
      moreover have "nat (int (maxLength r) + (f - int n)) = maxLength r - 1 \<longleftrightarrow> int n = f + 1"
        using assms Suc.prems False by linarith
      moreover have "nat (f + 1) = n" if "int n = f + 1" using that by simp
      ultimately show ?thesis using Suc.IH Suc.prems False by auto
    qed
  qed (use assms in auto)
  from this [of "length new"] show ?thesis
    using assms by (simp add: put_new_def rev_nth) (rule arg_cong [where f = "\<lambda>i. new ! i"], simp)
qed

lemma rearrange_down:
  assumes "n + s \<le> nat (f + 1)" "0 < s" "0 \<le> f"
  shows "\<exists>r'. same_outline r r' \<and> fst (rearrange old f (int s + int n - 1) 0 [(int s, new)] r) =
    fst (rearrange old (f - int n) (int s - 1) 0 [(int s, new)] r')"
  using assms
proof (induction n arbitrary: f r)
  case 0
  then show ?case by (auto simp: same_outline_def)
next
  case (Suc n)
  let ?r = "set_at f (if 0 \<le> int s + int (Suc n) - 1 \<and> int s + int (Suc n) - 1 < int (length old)
    then old ! nat (int s + int (Suc n) - 1) else None) r"
  have step: "fst (rearrange old f (int s + int (Suc n) - 1) 0 [(int s, new)] r) =
      fst (rearrange old (f - 1) (int s + int n - 1) 0 [(int s, new)] ?r)"
    using rearrange_step(3) [of f "int s + int (Suc n) - 1" 0 "int s" old new "[]" r] Suc.prems by simp
  have "\<exists>r'. same_outline ?r r' \<and> fst (rearrange old (f - 1) (int s + int n - 1) 0 [(int s, new)] ?r) =
      fst (rearrange old (f - 1 - int n) (int s - 1) 0 [(int s, new)] r')"
    by (rule Suc.IH) (use Suc.prems in simp_all)
  then obtain r' where "same_outline ?r r'" "fst (rearrange old (f - 1) (int s + int n - 1) 0 [(int s, new)] ?r) =
      fst (rearrange old (f - 1 - int n) (int s - 1) 0 [(int s, new)] r')" by blast
  then show ?case unfolding step by (auto simp: same_outline_def algebra_simps)
qed

text \<open>
  C17: A reflow to a smaller width without room for all lines can lose the newest line. The new lines of one group
  are inserted in the middle of the list, as the only insertion. They are more than the \<open>f\<close> places that the old lines
  behind them leave, by at most the list's start index in its array. The code writes the rest of them before the first
  place, which is the end of the list, so one of the new lines is now the last one, where the old last line belongs.
\<close>

theorem reflow_overwrites_newest:
  assumes r: "ring_wf r" and s: "0 < s" "s < rlen r" and f: "f = maxLength r - rlen r + s"
    and over: "f < length new" "length new \<le> f + min (startIndex r) (maxLength r)"
  shows "ring_get (insert_lines [(int s, new)] (length new) r) (maxLength r - 1) = Some (new ! (length new - f - 1))
    \<and> rlen (insert_lines [(int s, new)] (length new) r) = maxLength r
    \<and> last (merged (ring_items r) 0 [(int s, new)]) = last (ring_items r)"
proof -
  let ?n = "rlen r" and ?big = "maxLength r" and ?k = "length new"
  note b = ring_wf_bounds [OF r]
  have big: "?big < ?n + ?k" using f over s b by simp
  let ?r0 = "set_length ?big r" and ?old = "map (ring_get r) [0..<?n]"
  define p where "p = rearrange ?old (int ?big - 1) (int ?n - 1) 0 [(int s, new)] ?r0"
  have i: "insert_lines [(int s, new)] ?k r = fire (Trim (?n + ?k - ?big)) (fire_inserts (rev (snd p)) 0 (fst p))"
    using big by (simp add: insert_lines_def Let_def p_def min_def split: prod.splits)
  have e: "int s + int (?n - s) - 1 = int ?n - 1" "int ?big - 1 - int (?n - s) = int f - 1"
    using s b f by simp_all
  have "\<exists>r'. same_outline ?r0 r' \<and> fst (rearrange ?old (int ?big - 1) (int s + int (?n - s) - 1) 0 [(int s, new)] ?r0) =
      fst (rearrange ?old (int ?big - 1 - int (?n - s)) (int s - 1) 0 [(int s, new)] r')"
    by (rule rearrange_down) (use s b in simp_all)
  then obtain r' where r': "same_outline ?r0 r'" "fst p = fst (rearrange ?old (int f - 1) (int s - 1) 0 [(int s, new)] r')"
    unfolding p_def e by blast
  have "fst p = put_new (int f - 1) new r'"
    using r'(2) rearrange_step(2) [of "int f - 1" "int s - 1" 0 "int s" ?old new "[]" r'] f s over
    by (simp add: rearrange.simps)
  moreover have "ring_get (put_new (int f - 1) new r') (maxLength r' - 1) = Some (new ! nat (int ?k - (int f - 1) - 2))"
    by (rule put_new_last) (use r'(1) f s b over r in \<open>auto simp: same_outline_def ring_wf_def\<close>)
  moreover have "nat (int ?k - (int f - 1) - 2) = ?k - f - 1" using over by simp
  ultimately have "ring_get (insert_lines [(int s, new)] ?k r) (?big - 1) = Some (new ! (?k - f - 1))"
    using r'(1) unfolding i by (simp add: same_outline_def)
  moreover have "rlen (insert_lines [(int s, new)] ?k r) = ?big"
    using r'(1) \<open>fst p = put_new (int f - 1) new r'\<close> unfolding i by (simp add: same_outline_def)
  moreover have "last (merged (ring_items r) 0 [(int s, new)]) = last (ring_items r)"
    using s r by (simp add: last_append)
  ultimately show ?thesis by blast
qed

theorem reflow_overwrites_newest_witness:
  "\<exists>r a b c d. rlen r = 2 \<and> ring_items r = [a, b] \<and> b \<noteq> c \<and>
     ring_get (insert_lines [(1, [c, d])] 2 r) 1 = Some (c :: line) \<and> last (merged (ring_items r) 0 [(1, [c, d])]) = b"
proof -
  let ?l = "\<lambda>n. new_line n None False"
  obtain r where r: "ring_wf r" "rlen r = 2" "maxLength r = 2" "startIndex r = 1" "ring_items r = [?l 3, ?l 5]"
    using example_ring(2) by blast
  have "ring_get (insert_lines [(1, [?l 4, ?l 6])] 2 r) 1 = Some (?l 4)
      \<and> last (merged (ring_items r) 0 [(1, [?l 4, ?l 6])]) = ?l 5"
    using reflow_overwrites_newest [OF r(1), of 1 1 "[?l 4, ?l 6]"] r by (simp add: numeral_2_eq_2)
  then show ?thesis using r(2,5) example_ring(4) by metis
qed

end
