(* ===== verification/Xterm_Resize_Narrower.thy ===== *)
theory Xterm_Resize_Narrower
  imports Xterm_Resize_Wider Xterm_Resize_Insert
begin

text \<open>
  A narrower screen: the wrapped lines are cut into new ones, which are inserted, and the screen moves down over
  the scrollback. It returns, and the buffer is well-formed for the new size.
\<close>

subsection \<open>The lengths of the new lines\<close>

text \<open>The text of a line has no negative length, and a line that starts with a wide character is not empty.\<close>

definition sane :: "line \<Rightarrow> bool" where
  "sane l \<longleftrightarrow> 0 \<le> getTrimmedLength l \<and> (getWidth l 0 = 2 \<longrightarrow> 0 < getTrimmedLength l)"

definition cells_before :: "line list \<Rightarrow> int \<Rightarrow> nat \<Rightarrow> int" where
  "cells_before ls w m = sum_list (map (\<lambda>i. getWrappedLineTrimmedLength ls (int i) w) [0..<m])"

lemma cells_before_simps [simp]: "cells_before ls w 0 = 0"
  "cells_before ls w (Suc m) = cells_before ls w m + getWrappedLineTrimmedLength ls (int m) w"
  by (simp_all add: cells_before_def)

lemma group_cells_before: "group_cells ls w = cells_before ls w (length ls)"
  by (simp add: group_cells_def cells_before_def)

lemma inner_length: "m + 1 < length ls \<Longrightarrow> w - 1 \<le> getWrappedLineTrimmedLength ls (int m) w"
  by (simp add: getWrappedLineTrimmedLength_def)

lemma new_lengths_ok:
  assumes e: "2 \<le> e" "e < w" and m: "m < length ls" and pos: "l = cells_before ls w m + n" "0 \<le> n"
    "n \<le> getWrappedLineTrimmedLength ls (int m) w" and fuel: "group_cells ls w - l \<le> int fuel"
  shows "\<exists>cs. new_lengths fuel ls w e (group_cells ls w) n (int m) l = Some cs \<and> group_cells ls w - l \<le> int (length cs) * e
    \<and> (group_cells ls w \<le> l \<longrightarrow> cs = [])"
  using m pos fuel
proof (induction fuel arbitrary: m n l)
  case 0
  then show ?case by simp
next
  case (Suc fuel)
  let ?S = "group_cells ls w" and ?f = "\<lambda>m. getWrappedLineTrimmedLength ls (int m) w"
  show ?case
  proof (cases "?S - l < e")
    case True
    then show ?thesis using e by (cases "?S \<le> l") simp_all
  next
    case False
    define m1 where "m1 = (if ?f m < n + e then m + 1 else m)"
    define n1 where "n1 = (if ?f m < n + e then n + e - ?f m else n + e)"
    have last: "?f m < n + e \<Longrightarrow> m + 1 < length ls"
    proof (rule ccontr)
      assume a: "?f m < n + e" "\<not> m + 1 < length ls"
      then have "length ls = Suc m" using Suc.prems(1) by simp
      then have "?S = cells_before ls w m + ?f m" by (simp add: group_cells_before)
      then show False using a(1) False Suc.prems(2) by linarith
    qed
    then have m1: "m1 < length ls" using Suc.prems(1) by (simp add: m1_def)
    have n1: "1 \<le> n1" "cells_before ls w m1 + n1 = l + e" using Suc.prems(2,3) e by (auto simp: n1_def m1_def)
    have le: "n1 \<le> ?f m1"
    proof (cases "?f m < n + e")
      case t: True
      show ?thesis
      proof (cases "m1 + 1 < length ls")
        case True
        then show ?thesis using inner_length [OF True, of w] Suc.prems(4) e t by (simp add: n1_def)
      next
        case f: False
        then have "length ls = Suc m1" using m1 by simp
        then have "?S = cells_before ls w m1 + ?f m1" by (simp add: group_cells_before)
        then show ?thesis using n1(2) False by linarith
      qed
    qed (simp add: n1_def m1_def)
    let ?wide = "getWidth (line_in ls (int m1)) (n1 - 1) = 2"
    let ?n2 = "if ?wide then n1 - 1 else n1" and ?h = "if ?wide then e - 1 else e"
    have "l + ?h = cells_before ls w m1 + ?n2" "0 \<le> ?n2" "?n2 \<le> ?f m1" "?S - (l + ?h) \<le> int fuel"
      using n1 le e Suc.prems(5) by auto
    from Suc.IH [OF m1 this] obtain cs where cs: "new_lengths fuel ls w e ?S ?n2 (int m1) (l + ?h) = Some cs"
      "?S - (l + ?h) \<le> int (length cs) * e" by blast
    have nl: "\<not> ?S \<le> l" using False e by linarith
    have "new_lengths (Suc fuel) ls w e ?S n (int m) l = Some (?h # cs)"
    proof -
      have step: "(if ?f m < n + e then (n + e - ?f m, int m + 1) else (n + e, int m)) = (n1, int m1)"
        by (simp add: m1_def n1_def)
      show ?thesis using cs(1) False nl m1 by (simp add: Let_def step)
    qed
    moreover have "?S - l \<le> int (length (?h # cs)) * e" using cs(2) by (auto simp: algebra_simps split: if_splits)
    ultimately show ?thesis using nl by blast
  qed
qed

lemma line_in_nat: "m < length ls \<Longrightarrow> line_in ls (int m) = ls ! m"
  by (simp add: line_in_def)

lemma cells_before_inner: "m < length ls \<Longrightarrow> int m * (w - 1) \<le> cells_before ls w m"
proof (induction m)
  case (Suc m)
  then show ?case using inner_length [of m ls w] by (simp add: algebra_simps)
qed simp

text \<open>A group gets at least as many lines as it has, or is a single empty line.\<close>

lemma new_lengths_enough:
  assumes e: "2 \<le> e" "e < w" and ls: "ls \<noteq> []" "sane (last ls)"
  shows "\<exists>cs. reflowSmallerGetNewLineLengths ls w e = Some cs \<and> (length ls \<le> length cs \<or> cs = [])"
proof -
  let ?S = "group_cells ls w" and ?f = "\<lambda>m. getWrappedLineTrimmedLength ls (int m) w" and ?m = "length ls - 1"
  have len: "0 < length ls" "length ls = Suc ?m" using ls(1) by (simp_all add: Suc_le_eq flip: length_greater_0_conv)
  have im: "int ?m = int (length ls) - 1" using len(1) by linarith
  have lm: "line_in ls (int ?m) = last ls" using len(1) ls(1) by (simp add: line_in_nat last_conv_nth)
  have last: "?f ?m = getTrimmedLength (last ls)"
    unfolding getWrappedLineTrimmedLength_def if_P [OF im] lm by simp
  have T: "0 \<le> getTrimmedLength (last ls)" using ls(2) by (simp add: sane_def)
  have S: "?S = cells_before ls w ?m + getTrimmedLength (last ls)"
    using last by (subst group_cells_before, subst len(2)) simp
  have f0: "0 \<le> ?f 0"
  proof (cases "1 < length ls")
    case True
    then show ?thesis using inner_length [of 0 ls w] e by simp
  next
    case False
    then show ?thesis using last T len by simp
  qed
  have "?S - 0 \<le> int (nat ?S)" by simp
  from new_lengths_ok [OF e len(1) _ _ _ this, of 0] f0
  obtain cs where cs: "new_lengths (nat ?S) ls w e ?S 0 0 0 = Some cs" "?S \<le> int (length cs) * e" "?S \<le> 0 \<longrightarrow> cs = []"
    by auto
  have "length ls \<le> length cs" if ne: "cs \<noteq> []"
  proof (rule ccontr)
    assume "\<not> length ls \<le> length cs"
    then have "length cs \<le> ?m" by simp
    then have "int (length cs) * e \<le> int ?m * (w - 1)" using e by (intro mult_mono) simp_all
    then have eq: "getTrimmedLength (last ls) = 0" "cells_before ls w ?m = int ?m * (w - 1)"
      using cs(2) S T cells_before_inner [of ?m ls w] len by linarith+
    show False
    proof (cases ?m)
      case 0
      then show False using S eq cs(3) ne by simp
    next
      case (Suc j)
      have j: "j < length ls" "j + 1 < length ls" "int j \<noteq> int (length ls) - 1" "int j + 1 = int ?m" using Suc len by auto
      have "?f j \<le> w - 1"
        using eq(2) cells_before_inner [OF j(1), of w] unfolding Suc by (simp add: algebra_simps)
      then have "getWidth (line_in ls (int j + 1)) 0 = 2"
        using j(3) by (simp add: getWrappedLineTrimmedLength_def split: if_splits)
      moreover have "line_in ls (int j + 1) = last ls"
        unfolding j(4) by (rule lm)
      ultimately show False using ls(2) eq(1) by (simp add: sane_def)
    qed
  qed
  then show ?thesis using cs(1) by (auto simp: reflowSmallerGetNewLineLengths_def)
qed

lemma smaller_group_ok:
  assumes "d = int (length cs) - int (length u)" "length u \<le> length cs \<or> cs = []"
  shows "\<exists>u'. smaller_group w e nc cs d c (u @ replicate (nat d) x) = Some u' \<and> length u' = length u + nat d"
proof -
  have loop: "length (smaller_loop w cs ls m f A R) = length ls" for cs ls m f A R
  proof (induction w cs ls m f A R rule: smaller_loop.induct)
    case (1 w cs ls m f A R)
    show ?case
    proof (cases "A < 0 \<or> m < 0 \<or> int (length ls) \<le> m")
      case True
      then show ?thesis by (simp add: smaller_loop.simps)
    next
      case False
      let ?n = "min R f"
      let ?ls1 = "copy_between A m (R - ?n) (f - ?n) ?n True ls"
      obtain m1 f1 where m1: "(m1, f1) = (if f - ?n = 0 then (m - 1, entry cs (m - 1)) else (m, f - ?n))" by fastforce
      obtain A1 R1 where A1: "(A1, R1) = (if R - ?n = 0 then (A - 1, getWrappedLineTrimmedLength ?ls1 (max (A - 1) 0) w) else (A, R - ?n))"
        by fastforce
      have "length (smaller_loop w cs ?ls1 m1 f1 A1 R1) = length ?ls1" by (rule 1 [OF False refl refl m1 refl A1 refl])
      moreover have "smaller_loop w cs ls m f A R = smaller_loop w cs ?ls1 m1 f1 A1 R1"
        by (subst smaller_loop.simps) (simp only: Let_def if_not_P [OF False] m1 [symmetric] A1 [symmetric] prod.case)
      ultimately show ?thesis by simp
    qed
  qed
  have len: "length (u @ replicate (nat d) x) = length u + nat d" by simp
  show ?thesis
  proof (cases "cs = []")
    case True
    then show ?thesis by (simp add: smaller_group_def Let_def entry_def loop)
  next
    case False
    then have "int (length u + nat d) - d - 1 < int (length u + nat d)" using assms by simp
    then show ?thesis using loop by (simp add: smaller_group_def Let_def not_le split: prod.splits)
  qed
qed

subsection \<open>The screen moves down\<close>

text \<open>What a shift leaves alone: the lines themselves, their number apart, and all but the position of the screen.\<close>

definition view_of :: "buffer \<Rightarrow> buffer \<Rightarrow> bool" where
  "view_of b c \<longleftrightarrow>
     same_rest b c \<and> arr (lines c) = arr (lines b) \<and> startIndex (lines c) = startIndex (lines b)
     \<and> 0 \<le> ydisp c \<and> ydisp c \<le> ybase c"

lemma view_of_trans: "view_of a b \<Longrightarrow> view_of b c \<Longrightarrow> view_of a c"
  by (simp add: view_of_def same_rest_def)

lemma view_of_get: "view_of b c \<Longrightarrow> ring_get (lines c) k = ring_get (lines b) k"
  by (simp add: view_of_def ring_get_def cyclicIndex_def same_rest_def)

lemma pop_arr [simp]: "arr (snd (ring_pop r)) = arr r" "startIndex (snd (ring_pop r)) = startIndex r"
  "maxLength (snd (ring_pop r)) = maxLength r" "rlen (snd (ring_pop r)) = rlen r - 1"
  by (simp_all add: ring_pop_def)

lemma shift_view_of:
  assumes "0 \<le> ydisp b" "ydisp b \<le> ybase b"
  shows "view_of b (shift_view h x b)"
    "ybase b = 0 \<Longrightarrow> cy b < h - 1 \<Longrightarrow> ybase (shift_view h x b) = 0 \<and> cy (shift_view h x b) = cy b + 1
       \<and> rlen (lines (shift_view h x b)) = rlen (lines b) - 1"
    "ybase b = 0 \<Longrightarrow> \<not> cy b < h - 1 \<Longrightarrow> ybase (shift_view h x b) = 1 \<and> cy (shift_view h x b) = cy b
       \<and> rlen (lines (shift_view h x b)) = rlen (lines b)"
    "ybase b \<noteq> 0 \<Longrightarrow> ybase (shift_view h x b)
         = (if ybase b < min (int (maxLength (lines b))) (int (rlen (lines b)) + x) - h then ybase b + 1 else ybase b)
       \<and> cy (shift_view h x b) = cy b \<and> rlen (lines (shift_view h x b)) = rlen (lines b)"
  using assms by (auto simp: shift_view_def view_of_def same_rest_def)

lemma shift_scrolled:
  assumes b: "0 < ybase b" "0 \<le> ydisp b" "ydisp b \<le> ybase b"
    and cap: "c = min (int (maxLength (lines b))) (int (rlen (lines b)) + x) - h" "ybase b \<le> c"
  shows "view_of b ((shift_view h x ^^ m) b) \<and> ybase ((shift_view h x ^^ m) b) = min (ybase b + int m) c
    \<and> cy ((shift_view h x ^^ m) b) = cy b \<and> rlen (lines ((shift_view h x ^^ m) b)) = rlen (lines b)"
proof (induction m)
  case 0
  then show ?case using b cap by (simp add: view_of_def same_rest_def)
next
  case (Suc m)
  let ?b = "(shift_view h x ^^ m) b"
  have v: "view_of b ?b" "ybase ?b = min (ybase b + int m) c" "cy ?b = cy b" "rlen (lines ?b) = rlen (lines b)" using Suc by simp_all
  have m: "maxLength (lines ?b) = maxLength (lines b)" "0 \<le> ydisp ?b" "ydisp ?b \<le> ybase ?b"
    using v(1) by (simp_all add: view_of_def same_rest_def)
  have "ybase ?b \<noteq> 0" using v(2) b(1) cap(2) by simp
  note s = shift_view_of(1,4) [OF m(2,3), of h x] this
  show ?case using s view_of_trans [OF v(1) s(1)] v m(1) cap by (simp add: min_def)
qed

text \<open>With nothing above the screen, unused lines are given up first: \<open>p\<close> of them.\<close>

lemma shift_top:
  assumes b: "ybase b = 0" "ydisp b = 0" "cy b = h - 1 - p" "0 \<le> p" "0 \<le> cy b"
    and n: "h \<le> int (rlen (lines b)) + cy b" and big: "int (maxLength (lines b)) = h + sb" "1 \<le> sb"
    and x: "int (rlen (lines b)) + x = h + d" and m: "int m \<le> d"
  shows "view_of b ((shift_view h x ^^ m) b) \<and> ybase ((shift_view h x ^^ m) b) = (if int m \<le> p then 0 else min (int m - p) sb)
    \<and> cy ((shift_view h x ^^ m) b) = cy b + min (int m) p
    \<and> int (rlen (lines ((shift_view h x ^^ m) b))) = int (rlen (lines b)) - min (int m) p"
  using m
proof (induction m)
  case 0
  then show ?case using b by (simp add: view_of_def same_rest_def)
next
  case (Suc m)
  let ?b = "(shift_view h x ^^ m) b"
  have v: "view_of b ?b" "ybase ?b = (if int m \<le> p then 0 else min (int m - p) sb)" "cy ?b = cy b + min (int m) p"
    "int (rlen (lines ?b)) = int (rlen (lines b)) - min (int m) p" using Suc by simp_all
  have f: "maxLength (lines ?b) = maxLength (lines b)" "0 \<le> ydisp ?b" "ydisp ?b \<le> ybase ?b"
    using v(1) by (simp_all add: view_of_def same_rest_def)
  note s = shift_view_of [OF f(2,3), of h x]
  note t = view_of_trans [OF v(1) s(1)]
  consider (pop) "int m < p" | (first) "int m = p" | (on) "p < int m" by linarith
  then show ?case
  proof cases
    case pop
    then have "ybase ?b = 0" "cy ?b < h - 1" "0 < rlen (lines ?b)" using v b n by auto
    then show ?thesis using s(2) t pop v by auto
  next
    case first
    then have "ybase ?b = 0" "\<not> cy ?b < h - 1" using v b by auto
    then show ?thesis using s(3) t first v big(2) b(4) by auto
  next
    case on
    then have "ybase ?b \<noteq> 0" using v(2) big(2) by auto
    moreover have "min (int (maxLength (lines ?b))) (int (rlen (lines ?b)) + x) - h = min sb (d - p)"
      using f(1) big(1) v(4) on x by (auto simp: min_def)
    ultimately show ?thesis using s(4) t on v Suc.prems by (auto simp: min_def)
  qed
qed

subsection \<open>New lines are inserted\<close>

text \<open>A place that has a line keeps one.\<close>

definition has :: "line ring \<Rightarrow> nat \<Rightarrow> bool" where
  "has r k \<longleftrightarrow> ring_get r k \<noteq> None"

lemma has_set_at:
  assumes "length (arr r) = maxLength r" "k < maxLength r" "i < int (maxLength r)" "has r k \<or> int k = i"
  shows "has (set_at i (Some x) r) k"
proof (cases "int k = i")
  case True
  then show ?thesis using set_at_get [of i r k "Some x"] assms by (auto simp: has_def)
next
  case False
  have "set_at i (Some x) r = r \<or> (\<exists>j. set_at i (Some x) r = r\<lparr>arr := (arr r)[j := Some x]\<rparr>)"
    by (auto simp: set_at_def Let_def)
  moreover have "(startIndex r + k) mod maxLength r < length (arr r)" using assms(1,2) by simp
  then have "(arr r)[j := Some x] ! ((startIndex r + k) mod maxLength r) =
      (if j = (startIndex r + k) mod maxLength r then Some x else arr r ! ((startIndex r + k) mod maxLength r))" for j
    by (metis nth_list_update_eq nth_list_update_neq)
  ultimately show ?thesis using False assms(4) by (auto simp: has_def ring_get_def cyclicIndex_def)
qed

lemma has_put_new:
  assumes "length (arr r) = maxLength r" "k < maxLength r" "f < int (maxLength r)"
    "has r k \<or> f - int (length new) < int k \<and> int k \<le> f"
  shows "has (put_new f new r) k"
proof -
  let ?R = "\<lambda>n. fold (\<lambda>j. set_at (f - int j) (Some (rev new ! j))) [0..<n] r"
  have "length (arr (?R n)) = maxLength (?R n) \<and> maxLength (?R n) = maxLength r
      \<and> (has r k \<or> f - int n < int k \<and> int k \<le> f \<longrightarrow> has (?R n) k)" for n
  proof (induction n)
    case (Suc n)
    have "has r k \<or> f - int (Suc n) < int k \<and> int k \<le> f \<Longrightarrow> (has r k \<or> f - int n < int k \<and> int k \<le> f) \<or> int k = f - int n"
      by linarith
    then show ?case using Suc has_set_at [of "?R n" k "f - int n" "rev new ! n"] assms(2,3) by auto
  qed (use assms(1) in auto)
  from this [of "length new"] show ?thesis using assms(4) by (simp add: put_new_def)
qed

fun ins_after :: "nat \<Rightarrow> (int \<times> line list) list \<Rightarrow> bool" where
  "ins_after q [] \<longleftrightarrow> True"
| "ins_after q ((s, new) # ins) \<longleftrightarrow> int q \<le> s \<and> new \<noteq> [] \<and> ins_after (q + length new) ins"

lemma ins_after_append: "ins_after q (xs @ ys) \<longleftrightarrow> ins_after q xs \<and> ins_after (q + ins_size xs) ys"
  by (induction q xs rule: ins_after.induct) (simp_all add: add.assoc)

lemma ins_size_append: "ins_size (xs @ ys) = ins_size xs + ins_size ys"
  by (simp add: ins_size_def)

lemma rearrange_fills:
  assumes "ins_after q ins" "-1 \<le> h" "h < int (length old)" "f \<le> h + int (ins_size ins)" "f < int (maxLength r)"
    "length (arr r) = maxLength r" "\<forall>x \<in> set old. x \<noteq> None" "k < maxLength r" "has r k \<or> int k \<le> f"
  shows "has (fst (rearrange old f h q ins r)) k"
  using assms
proof (induction old f h q ins r rule: rearrange.induct)
  case (1 old f h q ins r)
  note p = "1.prems"
  show ?case
  proof (cases "f < 0")
    case True
    then show ?thesis using p(9) by (simp add: rearrange.simps)
  next
    case f: False
    note IH = 1(1-3) [OF f]
    let ?x = "if 0 \<le> h \<and> h < int (length old) then old ! nat h else None"
    have old_line: "has (fst (rearrange old (f - 1) (h - 1) q ins (set_at f ?x r))) k"
      if h0: "0 \<le> h" and ih: "\<lbrakk>ins_after q ins; - 1 \<le> h - 1; h - 1 < int (length old); f - 1 \<le> h - 1 + int (ins_size ins);
          f - 1 < int (maxLength (set_at f ?x r)); length (arr (set_at f ?x r)) = maxLength (set_at f ?x r);
          \<forall>x \<in> set old. x \<noteq> None; k < maxLength (set_at f ?x r); has (set_at f ?x r) k \<or> int k \<le> f - 1\<rbrakk>
          \<Longrightarrow> has (fst (rearrange old (f - 1) (h - 1) q ins (set_at f ?x r))) k"
    proof -
      obtain y where y: "?x = Some y" using h0 p(3,7) nth_mem [of "nat h" old] by fastforce
      have "has (set_at f ?x r) k \<or> int k \<le> f - 1"
        using has_set_at [of r k f y] p(5,6,8,9) unfolding y by force
      then show ?thesis using p h0 by (intro ih) simp_all
    qed
    show ?thesis
    proof (cases ins)
      case Nil
      moreover have "0 \<le> h" using f p(4) Nil by simp
      ultimately show ?thesis using old_line IH(1) [OF Nil] rearrange_step(1) [OF f] by simp
    next
      case (Cons i ins')
      obtain s new where i: "(s, new) = i" by (cases i) simp
      have ia: "int q \<le> s" "new \<noteq> []" "ins_after (q + length new) ins'" using p(1) Cons i [symmetric] by simp_all
      show ?thesis
      proof (cases "h + int q < s")
        case True
        have e: "f - 1 - int (length new - 1) = f - int (length new)" using ia(2) by (cases new) simp_all
        have "has (put_new f new r) k \<or> int k \<le> f - int (length new)"
          using has_put_new [of r k f new] p(5,6,8,9) by force
        then have "has (fst (rearrange old (f - int (length new)) h (q + length new) ins' (put_new f new r))) k"
          using IH(2) [OF Cons i True, unfolded e] ia p Cons i [symmetric] by simp
        then show ?thesis using rearrange_step(2) [OF f True] e Cons i [symmetric] by simp
      next
        case False
        moreover have "0 \<le> h" using False ia(1) by simp
        ultimately show ?thesis using old_line IH(3) [OF Cons i False] rearrange_step(3) [OF f False] Cons i [symmetric] by simp
      qed
    qed
  qed
qed

lemma insert_lines_fills:
  assumes r: "length (arr r) = maxLength r" "0 < maxLength r" "rlen r \<le> maxLength r" "\<forall>k < rlen r. has r k" and ins: "ins_after 0 ins"
  shows "ring_wf (insert_lines ins (ins_size ins) r)"
    "rlen (insert_lines ins (ins_size ins) r) = min (maxLength r) (rlen r + ins_size ins)"
    "maxLength (insert_lines ins (ins_size ins) r) = maxLength r"
proof -
  let ?n = "rlen r" and ?e = "ins_size ins" and ?big = "maxLength r"
  let ?f = "min (int ?big - 1) (int (?n + ?e) - 1)" and ?r0 = "set_length (min ?big (?n + ?e)) r"
  define p where "p = rearrange (map (ring_get r) [0..<?n]) ?f (int ?n - 1) 0 ins ?r0"
  have fields: "rlen (fst p) = min ?big (?n + ?e)" "maxLength (fst p) = ?big" "length (arr (fst p)) = ?big"
    using rearrange_fields [of ?r0 "map (ring_get r) [0..<?n]" ?f "int ?n - 1" 0 ins] r(1) by (simp_all add: p_def same_outline_def)
  have all: "has (fst p) k" if "k < min ?big (?n + ?e)" for k
    unfolding p_def by (rule rearrange_fills) (use ins r that in \<open>auto simp: has_def\<close>)
  define q where "q = fire_inserts (rev (snd p)) 0 (fst p)"
  have i: "insert_lines ins ?e r = (if ?big < ?n + ?e then fire (Trim (?n + ?e - ?big)) q else q)"
    by (simp add: insert_lines_def Let_def p_def q_def split: prod.splits)
  have q: "rlen q = min ?big (?n + ?e)" "maxLength q = ?big" "length (arr q) = ?big" "\<And>k. ring_get q k = ring_get (fst p) k"
    using fields by (simp_all add: q_def)
  have "ring_wf q" using q all r(2) by (auto simp: ring_wf_def has_def)
  moreover have "ring_wf (fire e q) = ring_wf q" for e by (simp add: fire_def)
  ultimately show "ring_wf (insert_lines ins ?e r)" by (simp add: i)
  show "rlen (insert_lines ins ?e r) = min ?big (?n + ?e)" "maxLength (insert_lines ins ?e r) = ?big"
    using q by (simp_all add: i)
qed

subsection \<open>The scan\<close>

lemma write_lines_raw:
  assumes "length (arr r) = maxLength r" "i + length ls \<le> maxLength r"
  shows "same_frame r (write_lines i ls r)"
    "k < maxLength r \<Longrightarrow> ring_get (write_lines i ls r) k = (if i \<le> k \<and> k < i + length ls then Some (ls ! (k - i)) else ring_get r k)"
proof -
  show "same_frame r (write_lines i ls r)" unfolding write_lines_def by (rule same_frame_fold) simp
  show "k < maxLength r \<Longrightarrow> ring_get (write_lines i ls r) k = (if i \<le> k \<and> k < i + length ls then Some (ls ! (k - i)) else ring_get r k)"
    using get_written [of r 0 i "length ls" k ls] assms by (simp add: write_lines_def)
qed

text \<open>
  Of the \<open>n\<close> lines those from \<open>l\<close> on have been looked at. Lines at the end may have been given up, but they are still
  in the array. With the lines that will be inserted, the screen has its rows.
\<close>

definition scan_ok :: "int \<Rightarrow> int \<Rightarrow> nat \<Rightarrow> nat \<Rightarrow> buffer \<times> (int \<times> line list) list \<times> nat \<Rightarrow> bool" where
  "scan_ok sb h n l s \<longleftrightarrow>
     (case s of
        (b, ins, extra) \<Rightarrow>
          int (maxLength (lines b)) = h + sb \<and> length (arr (lines b)) = maxLength (lines b) \<and> n \<le> maxLength (lines b) \<and>
          rlen (lines b) \<le> n \<and> (\<forall>k < n. has (lines b) k) \<and> (\<forall>k < l. sane (the (ring_get (lines b) k))) \<and>
          ybase b + h = min (h + sb) (int (rlen (lines b)) + int extra) \<and> 0 \<le> ybase b \<and> 0 \<le> ydisp b \<and> ydisp b \<le> ybase b \<and>
          0 \<le> cy b \<and> cy b < h \<and> (ybase b = 0 \<longrightarrow> h \<le> int (rlen (lines b)) + cy b) \<and> ins_after 0 ins \<and> extra = ins_size ins)"

text \<open>The screen after the new lines of a group have been counted.\<close>

lemma shift_lines_of:
  assumes s: "scan_ok sb h n l (b, ins, extra)" "1 \<le> sb" and d: "0 \<le> d" "x = int extra + d"
    and over: "over = (if ybase b = 0 \<and> cy b \<noteq> int (rlen (lines b)) - 1 then max 0 (cy b - (h + sb) + d)
      else max 0 (int (rlen (lines b)) - (h + sb) + d))"
    and c: "c = (shift_view h x ^^ nat (d - over)) b"
  shows "view_of b c" "ybase c + h = min (h + sb) (int (rlen (lines c)) + x)" "0 \<le> ybase c" "0 \<le> cy c" "cy c < h"
    "ybase c = 0 \<longrightarrow> h \<le> int (rlen (lines c)) + cy c" "rlen (lines c) \<le> rlen (lines b)"
proof -
  have p: "int (maxLength (lines b)) = h + sb" "ybase b + h = min (h + sb) (int (rlen (lines b)) + int extra)" "0 \<le> ybase b"
    "0 \<le> ydisp b" "ydisp b \<le> ybase b" "0 \<le> cy b" "cy b < h" "ybase b = 0 \<longrightarrow> h \<le> int (rlen (lines b)) + cy b"
    "int (rlen (lines b)) \<le> h + sb"
    using s(1) by (auto simp: scan_ok_def)
  have "view_of b c \<and> ybase c + h = min (h + sb) (int (rlen (lines c)) + x) \<and> 0 \<le> ybase c \<and> 0 \<le> cy c \<and> cy c < h
    \<and> (ybase c = 0 \<longrightarrow> h \<le> int (rlen (lines c)) + cy c) \<and> rlen (lines c) \<le> rlen (lines b)"
  proof (cases "ybase b = 0")
    case False
    then have y: "0 < ybase b" using p(3) by simp
    let ?cap = "min (int (maxLength (lines b))) (int (rlen (lines b)) + x) - h"
    have le: "ybase b \<le> ?cap" using p(1,2) d by (simp add: min_def split: if_splits)
    note sc = shift_scrolled [OF y p(4,5) refl le, of "nat (d - over)", folded c]
    have "ybase b + int (nat (d - over)) \<ge> ?cap"
      using over p(1,2,9) d False by (simp add: min_def max_def split: if_splits)
    then have yc: "ybase c = ?cap" using sc by simp
    have "0 < ybase c" unfolding yc using le y by linarith
    moreover have "ybase c + h = min (h + sb) (int (rlen (lines c)) + x)" unfolding yc using sc p(1) by simp
    moreover have "view_of b c" "cy c = cy b" "rlen (lines c) = rlen (lines b)" using sc by simp_all
    ultimately show ?thesis using p(6,7) by auto
  next
    case True
    have m: "int (nat (d - over)) \<le> d" using d(1) over by (simp add: max_def split: if_splits)
    have x: "int (rlen (lines b)) + x = h + d" using p(2) True d(2) s(2) by (simp add: min_def split: if_splits)
    note st = shift_top [OF True _ _ _ p(6) _ p(1) s(2) x m, of "h - 1 - cy b", folded c]
    have st: "view_of b c" "ybase c = (if int (nat (d - over)) \<le> h - 1 - cy b then 0 else min (int (nat (d - over)) - (h - 1 - cy b)) sb)"
      "cy c = cy b + min (int (nat (d - over))) (h - 1 - cy b)"
      "int (rlen (lines c)) = int (rlen (lines b)) - min (int (nat (d - over))) (h - 1 - cy b)"
      using st p True by simp_all
    have "0 \<le> min (int (nat (d - over))) (h - 1 - cy b)" using p(7) by simp
    then have rl: "rlen (lines c) \<le> rlen (lines b)" using st(4) by linarith
    have enough: "int (nat (d - over)) = d \<or> sb + (h - 1 - cy b) \<le> int (nat (d - over))"
      using over d(1) True p(7,9) s(2) by (auto simp: max_def split: if_splits)
    show ?thesis
    proof (cases "int (nat (d - over)) \<le> h - 1 - cy b")
      case t: True
      then show ?thesis using st enough x s(2) p(6,7,8) True d(1) rl by (simp add: min_def)
    next
      case f: False
      then show ?thesis using st enough x m s(2) p(6,7,8) True rl by (auto simp: min_def split: if_splits)
    qed
  qed
  then show "view_of b c" "ybase c + h = min (h + sb) (int (rlen (lines c)) + x)" "0 \<le> ybase c" "0 \<le> cy c" "cy c < h"
    "ybase c = 0 \<longrightarrow> h \<le> int (rlen (lines c)) + cy c" "rlen (lines c) \<le> rlen (lines b)" by blast+
qed

lemma smaller_step_ok:
  assumes s: "scan_ok sb h n (Suc l) (b, ins, extra)" "1 \<le> sb" and w: "2 \<le> w" "w < b_cols b"
    and g: "g \<le> l" "l < n" and u: "u = map (\<lambda>k. the (ring_get (lines b) k)) [g..<Suc l]"
  shows "\<exists>s'. smaller_step w h g u (b, ins, extra) = Some s' \<and> scan_ok sb h n g s' \<and> same_rest b (fst s')"
proof -
  have p: "int (maxLength (lines b)) = h + sb" "length (arr (lines b)) = maxLength (lines b)" "n \<le> maxLength (lines b)"
    "\<forall>k < n. has (lines b) k" "\<forall>k < Suc l. sane (the (ring_get (lines b) k))" "rlen (lines b) \<le> n" "0 \<le> ydisp b" "ydisp b \<le> ybase b"
    "ins_after 0 ins" "extra = ins_size ins"
    using s(1) by (auto simp: scan_ok_def)
  have len: "length u = Suc l - g" "u \<noteq> []" using g(1) by (simp_all add: u)
  have "last u = the (ring_get (lines b) l)" using g(1) by (simp add: u)
  then have "sane (last u)" using p(5) by simp
  from new_lengths_enough [OF w len(2) this]
  obtain cs where cs: "reflowSmallerGetNewLineLengths u (b_cols b) w = Some cs" "length u \<le> length cs \<or> cs = []" by blast
  define d where "d = int (length cs) - int (length u)"
  let ?new = "replicate (nat d) (getBlankLine w default_attr True)"
  obtain u' where u': "smaller_group (b_cols b) w (getNullCell default_attr) cs d (getTrimmedLength (last u)) (u @ ?new) = Some u'"
    "length u' = length u + nat d" using smaller_group_ok [OF d_def cs(2)] by blast
  define over where "over = (if ybase b = 0 \<and> cy b \<noteq> int (rlen (lines b)) - 1 then max 0 (cy b - (h + sb) + d)
      else max 0 (int (rlen (lines b)) - (h + sb) + d))"
  define r where "r = write_lines g (take (length u) u') (lines b)"
  define ins' where "ins' = (if ?new \<noteq> [] then ins @ [(int (g + length u + extra), drop (length u) u')] else ins)"
  define c where "c = (shift_view h (int (extra + nat d)) ^^ nat (d - over)) (b\<lparr>lines := r\<rparr>)"
  have step: "smaller_step w h g u (b, ins, extra)
      = Some (c\<lparr>savedY := min (savedY c + d) (ybase c + h - 1)\<rparr>, ins', extra + nat d)"
    using cs(1) u'(1) p(1) by (simp add: smaller_step_def Let_def flip: d_def) (simp add: over_def c_def r_def ins'_def)
  have gu: "g + length (take (length u) u') \<le> maxLength (lines b)" "g + length u = Suc l" using len(1) u'(2) g p(3) by simp_all
  note wr = write_lines_raw [OF p(2) gu(1), folded r_def]
  have r: "maxLength r = maxLength (lines b)" "rlen r = rlen (lines b)" "length (arr r) = maxLength r"
    using wr(1) p(2) by (simp_all add: same_frame_def)
  have has: "\<forall>k < n. has r k" using wr(2) p(3,4) by (auto simp: has_def)
  have sane: "\<forall>k < g. sane (the (ring_get r k))" using wr(2) p(3,5) g by auto
  have s1: "scan_ok sb h n g (b\<lparr>lines := r\<rparr>, ins, extra)" using s(1) r has sane by (simp add: scan_ok_def)
  have ins: "ins_after 0 ins' \<and> extra + nat d = ins_size ins'"
    using p(9,10) u'(2) by (auto simp: ins'_def ins_after_append ins_size_append)
  have vc: "view_of (b\<lparr>lines := r\<rparr>) c" "ybase c + h = min (h + sb) (int (rlen (lines c)) + int (extra + nat d))" "0 \<le> ybase c"
    "0 \<le> cy c" "cy c < h" "ybase c = 0 \<longrightarrow> h \<le> int (rlen (lines c)) + cy c" "rlen (lines c) \<le> rlen r"
  proof -
    have *: "view_of (b\<lparr>lines := r\<rparr>) c \<and> ybase c + h = min (h + sb) (int (rlen (lines c)) + int (extra + nat d)) \<and> 0 \<le> ybase c
      \<and> 0 \<le> cy c \<and> cy c < h \<and> (ybase c = 0 \<longrightarrow> h \<le> int (rlen (lines c)) + cy c) \<and> rlen (lines c) \<le> rlen r"
    proof (cases "0 \<le> d")
      case True
      have x: "int (extra + nat d) = int extra + d" using True by simp
      have o2: "over = (if ybase (b\<lparr>lines := r\<rparr>) = 0 \<and> cy (b\<lparr>lines := r\<rparr>) \<noteq> int (rlen (lines (b\<lparr>lines := r\<rparr>))) - 1
          then max 0 (cy (b\<lparr>lines := r\<rparr>) - (h + sb) + d) else max 0 (int (rlen (lines (b\<lparr>lines := r\<rparr>))) - (h + sb) + d))"
        using r(2) by (simp add: over_def)
      show ?thesis using shift_lines_of [OF s1 s(2) True x o2 c_def] by simp
    next
      case False
      moreover have "0 \<le> over" by (simp add: over_def)
      ultimately have "c = b\<lparr>lines := r\<rparr>" by (simp add: c_def)
      then show ?thesis using s1 False by (simp add: scan_ok_def view_of_def same_rest_def)
    qed
    then show "view_of (b\<lparr>lines := r\<rparr>) c" "ybase c + h = min (h + sb) (int (rlen (lines c)) + int (extra + nat d))" "0 \<le> ybase c"
      "0 \<le> cy c" "cy c < h" "ybase c = 0 \<longrightarrow> h \<le> int (rlen (lines c)) + cy c" "rlen (lines c) \<le> rlen r" by blast+
  qed
  have fc: "maxLength (lines c) = maxLength (lines b)" "arr (lines c) = arr r" "0 \<le> ydisp c" "ydisp c \<le> ybase c" "same_rest b c"
    using vc(1) r(1) by (simp_all add: view_of_def same_rest_def)
  have "has (lines c) k = has r k" "ring_get (lines c) k = ring_get r k" for k
    using view_of_get [OF vc(1)] by (simp_all add: has_def)
  then have "scan_ok sb h n g (c\<lparr>savedY := min (savedY c + d) (ybase c + h - 1)\<rparr>, ins', extra + nat d)"
    using p(1,2,3,6) r fc(1-4) has sane vc(2-7) ins by (simp add: scan_ok_def)
  then show ?thesis using step fc(5) by (simp add: same_rest_def)
qed

lemma same_rest_trans: "same_rest a b \<Longrightarrow> same_rest b c \<Longrightarrow> same_rest a c"
  by (simp add: same_rest_def)

lemma scan_ok_mono: "scan_ok sb h n l s \<Longrightarrow> l' \<le> l \<Longrightarrow> scan_ok sb h n l' s"
  by (auto simp: scan_ok_def)

lemma those_has:
  assumes "\<forall>k. g \<le> k \<and> k < l \<longrightarrow> has r k"
  shows "those (map (ring_get r) [g..<l]) = Some (map (\<lambda>k. the (ring_get r k)) [g..<l])"
proof -
  have "map (ring_get r) [g..<l] = map Some (map (\<lambda>k. the (ring_get r k)) [g..<l])"
    using assms by (auto simp: has_def)
  moreover have "those (map Some xs) = Some xs" for xs :: "line list" by (induction xs) simp_all
  ultimately show ?thesis by (simp only:)
qed

lemma smaller_scan_ok:
  assumes "scan_ok sb h n l (b, ins, extra)" "1 \<le> sb" "2 \<le> w" "w < b_cols b" "l \<le> n"
  shows "\<exists>b' ins' extra'. smaller_scan cursor_too w h l (b, ins, extra) = Some (b', ins', extra')
    \<and> scan_ok sb h n 0 (b', ins', extra') \<and> same_rest b b'"
  using assms
proof (induction l arbitrary: b ins extra rule: less_induct)
  case (less l)
  show ?case
  proof (cases l)
    case 0
    then show ?thesis using less.prems(1) by (simp add: same_rest_def)
  next
    case (Suc m)
    let ?s = "(b, ins, extra)" and ?r = "lines b"
    have all: "\<forall>k < n. has ?r k" using less.prems(1) by (simp add: scan_ok_def)
    have ind: ?thesis if i: "k \<le> m" "scan_ok sb h n k (b1, ins1, extra1)" "same_rest b b1"
      "smaller_scan cursor_too w h l ?s = smaller_scan cursor_too w h k (b1, ins1, extra1)" for k b1 ins1 extra1
    proof -
      have "w < b_cols b1" using i(3) less.prems(4) by (simp add: same_rest_def)
      then obtain b' ins' extra' where "smaller_scan cursor_too w h k (b1, ins1, extra1) = Some (b', ins', extra')"
        "scan_ok sb h n 0 (b', ins', extra')" "same_rest b1 b'"
        using less.IH [of k b1 ins1 extra1] i(1,2) less.prems(2,3,5) Suc by auto
      then show ?thesis using i(3,4) same_rest_trans by fastforce
    qed
    have refl: "same_rest b b" by (simp add: same_rest_def)
    have "has ?r m" using all less.prems(5) Suc by simp
    then obtain a where a: "ring_get ?r m = Some a" by (auto simp: has_def)
    show ?thesis
    proof (cases "\<not> isWrapped a \<and> getTrimmedLength a \<le> w")
      case True
      then show ?thesis
        using ind [of m b ins extra] scan_ok_mono [OF less.prems(1), of m] refl a Suc by simp
    next
      case False
      let ?g = "group_start ?r m"
      define u where "u = map (\<lambda>k. the (ring_get ?r k)) [?g..<Suc m]"
      have g: "?g \<le> m" by (rule group_start_le)
      have th: "those (map (ring_get ?r) [?g..<Suc m]) = Some u"
        unfolding u_def by (rule those_has) (use all less.prems(5) Suc in auto)
      show ?thesis
      proof (cases "\<not> cursor_too \<and> int ?g \<le> ybase b + cy b \<and> ybase b + cy b < int (?g + length u)")
        case True
        then have "smaller_scan cursor_too w h l ?s = smaller_scan cursor_too w h ?g ?s"
          using False a th Suc by (auto simp: Let_def simp del: upt_Suc)
        then show ?thesis using ind [of ?g b ins extra] g scan_ok_mono [OF less.prems(1), of ?g] refl Suc by simp
      next
        case step: False
        obtain b1 ins1 extra1 where s: "smaller_step w h ?g u ?s = Some (b1, ins1, extra1)" "scan_ok sb h n ?g (b1, ins1, extra1)"
          "same_rest b b1"
          using smaller_step_ok [OF less.prems(1) [unfolded Suc] less.prems(2-4) g _ u_def] less.prems(5) Suc by fastforce
        have "smaller_scan cursor_too w h l ?s = smaller_scan cursor_too w h ?g (b1, ins1, extra1)"
          using False step a th Suc s(1) by (auto simp: Let_def simp del: upt_Suc)
        then show ?thesis using ind [OF g s(2,3)] by simp
      qed
    qed
  qed
qed

lemma reflowSmaller_of:
  assumes b: "stacked sane h b" "0 \<le> cy b" "cy b < h" and big: "int (maxLength (lines b)) = h + sb" "1 \<le> sb"
    and w: "2 \<le> w" "w < b_cols b"
  shows "\<exists>c. reflowSmaller cursor_too w h b = Some c \<and> stacked (\<lambda>l. True) h c \<and> 0 \<le> cy c \<and> cy c < h \<and> same_rest b c"
proof -
  let ?r = "lines b" and ?n = "rlen (lines b)"
  have s: "lines_all sane ?r" "int ?n = ybase b + h" "0 \<le> ybase b" "0 \<le> ydisp b" "ydisp b \<le> ybase b" "ring_wf ?r"
    using b(1) by (auto simp: stacked_def lines_all_def)
  note rb = ring_wf_bounds [OF s(6)]
  have "\<forall>k < ?n. has ?r k" by (simp add: has_def ring_get_items [OF s(6)])
  moreover have "\<forall>k < ?n. sane (the (ring_get ?r k))" using lines_all_get [OF s(1)] by fastforce
  ultimately have "scan_ok sb h ?n ?n (b, [], 0)" using s(2-5) rb b(2,3) big by (simp add: scan_ok_def min_def)
  from smaller_scan_ok [OF this big(2) w] obtain b1 ins extra where
    sc: "smaller_scan cursor_too w h ?n (b, [], 0) = Some (b1, ins, extra)" "scan_ok sb h ?n 0 (b1, ins, extra)" "same_rest b b1"
    by blast
  let ?r1 = "lines b1"
  have r1: "length (arr ?r1) = maxLength ?r1" "maxLength ?r1 = maxLength ?r" "rlen ?r1 \<le> ?n" "\<forall>k < ?n. has ?r1 k"
    "ybase b1 + h = min (h + sb) (int (rlen ?r1) + int extra)" "ins_after 0 ins" "extra = ins_size ins"
    "0 \<le> ybase b1" "0 \<le> ydisp b1" "ydisp b1 \<le> ybase b1" "0 \<le> cy b1" "cy b1 < h"
    using sc(2,3) by (simp_all add: scan_ok_def same_rest_def)
  show ?thesis
  proof (cases "ins = []")
    case True
    then have "extra = 0" using r1(7) by (simp add: ins_size_def)
    moreover have "ring_wf ?r1" using r1(1-4) rb(2) rb(1) by (auto simp: ring_wf_def has_def)
    moreover have "int (rlen ?r1) \<le> h + sb" using r1(3) rb(1) big(1) by linarith
    ultimately have "stacked (\<lambda>l. True) h b1" using r1(5,8-10) by (simp add: stacked_def lines_all_def)
    moreover have "reflowSmaller cursor_too w h b = Some b1" using sc(1) True by (simp add: reflowSmaller_def)
    ultimately show ?thesis using r1(11,12) sc(3) by blast
  next
    case False
    let ?c = "update_lines (insert_lines ins extra) b1"
    have "length (arr (?r1\<lparr>fired := []\<rparr>)) = maxLength (?r1\<lparr>fired := []\<rparr>)" "0 < maxLength (?r1\<lparr>fired := []\<rparr>)"
      "rlen (?r1\<lparr>fired := []\<rparr>) \<le> maxLength (?r1\<lparr>fired := []\<rparr>)" "\<forall>k < rlen (?r1\<lparr>fired := []\<rparr>). has (?r1\<lparr>fired := []\<rparr>) k"
      using r1(1-4) rb by (simp_all add: has_def)
    note f = insert_lines_fills [OF this r1(6), folded r1(7)]
    have "int (rlen (lines ?c)) = ybase b1 + h" using f(2) r1(2,5) big(1) by (simp add: min_def split: if_splits)
    then have "stacked (\<lambda>l. True) h ?c" using f(1) r1(8-10) by (simp add: stacked_def lines_all_def)
    moreover have "reflowSmaller cursor_too w h b = Some ?c" using sc(1) False by (simp add: reflowSmaller_def)
    moreover have "same_rest b ?c" using sc(3) f(3) by (simp add: same_rest_def)
    ultimately show ?thesis using r1(11,12) by (intro exI [of _ ?c]) simp
  qed
qed

subsection \<open>A narrower buffer\<close>

lemma sane_fresh: "1 \<le> w \<Longrightarrow> sane (fresh_line w)"
proof -
  assume w: "1 \<le> w"
  have "width_of (content (getNullCell default_attr)) = 1" by code_simp
  then have "getWidth (fresh_line w) 0 = 1" using w by (simp add: getWidth_def slot_at_new slot_of_def)
  then show ?thesis using w trimmed_fresh [of w] by (simp add: sane_def)
qed

lemma resize_narrower:
  assumes b: "fits sb w h b" and w: "2 \<le> w'" "w' < w" and h: "1 \<le> h'" and scr: "hasScrollback b"
    and sb: "1 \<le> sb" "h + sb \<le> 4294967295" "h' + sb \<le> 4294967295" and sane: "\<forall>l \<in> set (ring_items (lines b)). sane l"
  shows "\<exists>b'. buffer_resize cursor_too sb w' h' b = Some b' \<and> fits sb w' h' b' \<and> hasScrollback b' = hasScrollback b"
proof -
  define n where "n = nat (correctBufferLength (hasScrollback b) sb h')"
  have sb0: "0 \<le> sb" using sb(1) by simp
  let ?b1 = "grow_store n b"
  have g: "b_cols b = w" "b_rows b = h" "0 \<le> savedX b" "0 \<le> cy b" "cy b < h" "store_size sb h b" "0 \<le> cx b"
    using b by (simp_all add: fits_def buf_frame_def)
  have s: "stacked sane h b" using b sane by (auto simp: fits_def buf_frame_def stacked_def lines_ok_def lines_all_def)
  note b1 = grow_store_of [OF s g(4,5) sb0 sb(2,3) g(6) h n_def]
  have w1: "1 \<le> w'" using w(1) by simp
  have p: "0 \<le> cy ?b1" "cy ?b1 < h" "b_rows ?b1 = h" "0 \<le> savedX ?b1"
    "ybase ?b1 + h' \<le> int (maxLength (lines ?b1)) \<or> h' \<le> h"
    using b1(2,3,6,7,10) g(2-5) by simp_all
  let ?c = "fit_rows w' h' n ?b1"
  note c = fit_rows_of [where Q = sane, OF b1(1) p(1,2) sane_fresh [OF w1] p(3) h b1(9) p(5,4) w1]
  let ?d = "?c\<lparr>scrollBottom := h' - 1\<rparr>"
  have used: "resize_used w' h' n ?b1 = Some ?c" using b1(5) g(1) w by (simp add: resize_used_def)
  have pos: "0 < rlen (lines ?b1)" by (rule stacked_used [OF b1(1) p(1,2)])
  have size: "maxLength (lines ?c) = n" "0 \<le> cx ?c" using c(8,9) b1(11) g(7) w1 by simp_all
  have n: "int n = h' + sb" using n_def scr sb h by (simp add: correctBufferLength_def)
  have f: "stacked sane h' ?d" "0 \<le> cy ?d" "cy ?d < h'" "int (maxLength (lines ?d)) = h' + sb" "w' < b_cols ?d" "b_cols ?d = w"
    using c(1,4,6,7) size(1) n b1(5) g(1) w by simp_all
  obtain e where e: "reflowSmaller cursor_too w' h' ?d = Some e" "stacked (\<lambda>l. True) h' e" "0 \<le> cy e" "cy e < h'" "same_rest ?d e"
    using reflowSmaller_of [OF f(1-4) sb(1) w(1) f(5)] by blast
  have r: "reflow cursor_too w' h' ?d = Some e" using e(1) f(6) w by (simp add: reflow_def)
  have "line_length (line_resize w' (getNullCell default_attr) l) = w'" for l using w1 by simp
  then obtain e2 where e2: "resize_lines w' e = Some e2" "stacked (\<lambda>l. line_length l = w') h' e2" "cy e2 = cy e" "same_rest e e2"
    using resize_lines_of [OF e(2), of "\<lambda>l. line_length l = w'" w'] by auto
  have "fits sb w' h' (e2\<lparr>b_cols := w', b_rows := h'\<rparr>)"
    by (rule fitsI [OF e2(2)])
      (use e(3-5) e2(3,4) c(2,3,5) b1(4) size h n_def in \<open>simp_all add: same_rest_def\<close>)
  moreover have "hasScrollback e2" using e(5) e2(4) c(5) b1(4) scr by (simp add: same_rest_def)
  ultimately show ?thesis using buffer_resize_steps [OF n_def pos used] r scr g(1) w e2(1) by simp
qed

end
