(* ===== verification/Xterm_Resize_Props.thy ===== *)
theory Xterm_Resize_Props
  imports Xterm_Resize_Narrower Xterm_Props
begin

text \<open>
  Resizing the terminal: when its lines have no wide character cut in half, a resize returns and gives a
  well-formed terminal of the new size.
\<close>

subsection \<open>Buffers\<close>

lemma resize_same_width:
  assumes b: "fits sb w h b" and w: "1 \<le> w" and h: "1 \<le> h'" and sb: "0 \<le> sb" "h + sb \<le> 4294967295" "h' + sb \<le> 4294967295"
  shows "\<exists>b'. buffer_resize cursor_too sb w h' b = Some b' \<and> fits sb w h' b' \<and> hasScrollback b' = hasScrollback b"
proof -
  define n where "n = nat (correctBufferLength (hasScrollback b) sb h')"
  let ?Q = "\<lambda>l. line_length l = w" and ?b1 = "grow_store n b"
  have g: "b_cols b = w" "b_rows b = h" "0 \<le> savedX b" "0 \<le> cy b" "cy b < h" "store_size sb h b" "0 \<le> cx b" "buf_frame w h b"
    using b by (simp_all add: fits_def buf_frame_def)
  note b1 = grow_store_of [OF frame_stacked [OF g(8)] g(4,5) sb g(6) h n_def]
  have Q: "?Q (fresh_line w)" using w by simp
  have p: "0 \<le> cy ?b1" "cy ?b1 < h" "b_rows ?b1 = h" "0 \<le> savedX ?b1" "ybase ?b1 + h' \<le> int (maxLength (lines ?b1)) \<or> h' \<le> h"
    using b1(2,3,6,7,10) g by simp_all
  let ?c = "fit_rows w h' n ?b1"
  note c = fit_rows_of [where Q = ?Q, OF b1(1) p(1,2) Q p(3) h b1(9) p(5,4) w]
  let ?d = "?c\<lparr>scrollBottom := h' - 1\<rparr>"
  have pos: "0 < rlen (lines ?b1)" by (rule stacked_used [OF b1(1) p(1,2)])
  have used: "resize_used w h' n ?b1 = Some ?c" using b1(5) g(1) by (simp add: resize_used_def)
  have size: "maxLength (lines ?c) = n" "0 \<le> cx ?c" using c(8,9) b1(11) g(7) w by simp_all
  have "stacked ?Q h' ?d" using c(1) by simp
  then have "fits sb w h' (?d\<lparr>b_cols := w, b_rows := h'\<rparr>)"
    by (rule fitsI) (use c(2,3,5-7) b1(4) size h n_def in simp_all)
  moreover have "reflow cursor_too w h' ?d = Some ?d" using c(4) b1(5) g(1) by (simp add: reflow_def)
  ultimately show ?thesis using buffer_resize_steps [OF n_def pos used] g(1) c(5) b1(4) by simp
qed

text \<open>A line of text: no wide character is cut in half at its end.\<close>

definition whole :: "int \<Rightarrow> line \<Rightarrow> bool" where
  "whole w l \<longleftrightarrow> sane l \<and> uncut w l"

lemma buffer_resize_fits:
  assumes b: "fits sb w h b" and w: "2 \<le> w" "2 \<le> w'" and h: "1 \<le> h'" and scr: "hasScrollback b"
    and sb: "1 \<le> sb" "h + sb \<le> 4294967295" "h' + sb \<le> 4294967295" and whole: "\<forall>l \<in> set (ring_items (lines b)). whole w l"
  shows "\<exists>b'. buffer_resize cursor_too sb w' h' b = Some b' \<and> fits sb w' h' b' \<and> hasScrollback b' = hasScrollback b"
proof -
  have sb0: "0 \<le> sb" "1 \<le> w" using sb w by simp_all
  have lines: "\<forall>l \<in> set (ring_items (lines b)). sane l" "\<forall>l \<in> set (ring_items (lines b)). uncut w l"
    using whole by (simp_all add: whole_def)
  consider "w' = w" | "w < w'" | "w' < w" by linarith
  then show ?thesis
  proof cases
    case 1
    then show ?thesis using resize_same_width [OF b sb0(2) h sb0(1) sb(2,3)] by simp
  next
    case 2
    then show ?thesis using resize_wider [OF b w(1) 2 h sb0(1) sb(2,3)] lines(2) by simp
  next
    case 3
    then show ?thesis using resize_narrower [OF b w(2) 3 h scr sb lines(1)] by simp
  qed
qed

text \<open>A buffer that is not in use.\<close>

lemma idle_resize:
  assumes b: "buf_idle w h b" and nb: "\<not> hasScrollback b" and h: "1 \<le> h'"
  shows "\<exists>b'. buffer_resize cursor_too sb w' h' b = Some b' \<and> buf_idle w' h' b' \<and> \<not> hasScrollback b'"
proof -
  have n: "nat (correctBufferLength False sb h') = nat h'" by (simp add: correctBufferLength_def)
  let ?b1 = "grow_store (nat h') b"
  have r: "ring_wf (lines b)" "rlen (lines b) = 0" using b by (simp_all add: buf_idle_def)
  have "lines_all (\<lambda>l. True) (lines b)" using r(1) by (simp add: lines_all_def)
  then have m: "ring_wf (set_maxLength (nat h') (lines b))" "rlen (set_maxLength (nat h') (lines b)) = 0"
    "maxLength (set_maxLength (nat h') (lines b)) = nat h'"
    using set_maxLength_all [of "\<lambda>l. True" "lines b" "nat h'"] r(2) h by (simp_all add: lines_all_def)
  have "buffer_resize cursor_too sb w' h' b = Some (?b1\<lparr>scrollBottom := h' - 1, b_cols := w', b_rows := h'\<rparr>)"
    using nb r(2) m(2) by (simp add: buffer_resize_def Let_def n grow_store_def)
  moreover have "buf_idle w' h' (?b1\<lparr>scrollBottom := h' - 1, b_cols := w', b_rows := h'\<rparr>)"
    using b m h by (simp add: buf_idle_def grow_store_def not_less nat_le_iff)
  ultimately show ?thesis using nb by (simp add: grow_store_def)
qed

text \<open>The alternate buffer in use: its lines are not reflowed, and when it gets narrower they are not cut either.\<close>

lemma resize_over:
  assumes b: "fits sb w h b" and w: "1 \<le> w'" "w' \<le> w" and h: "1 \<le> h'" and nb: "\<not> hasScrollback b"
    and sb: "0 \<le> sb" "h + sb \<le> 4294967295" "h' + sb \<le> 4294967295"
  shows "\<exists>b'. buffer_resize cursor_too sb w' h' b = Some b' \<and> stacked (\<lambda>l. w' \<le> line_length l) h' b' \<and> \<not> hasScrollback b'
    \<and> store_size sb h' b' \<and> 0 \<le> cx b' \<and> 0 \<le> cy b' \<and> cy b' < h'"
proof -
  define n where "n = nat (correctBufferLength (hasScrollback b) sb h')"
  let ?Q = "\<lambda>l. w' \<le> line_length l" and ?b1 = "grow_store n b"
  have g: "b_cols b = w" "b_rows b = h" "0 \<le> savedX b" "0 \<le> cy b" "cy b < h" "store_size sb h b" "0 \<le> cx b" "buf_frame w h b"
    using b by (simp_all add: fits_def buf_frame_def)
  have st: "stacked ?Q h b" using frame_stacked [OF g(8)] w by (auto simp: stacked_def elim: lines_all_mono)
  note b1 = grow_store_of [OF st g(4,5) sb g(6) h n_def]
  have Q: "?Q (fresh_line w')" using w by simp
  have p: "0 \<le> cy ?b1" "cy ?b1 < h" "b_rows ?b1 = h" "0 \<le> savedX ?b1" "ybase ?b1 + h' \<le> int (maxLength (lines ?b1)) \<or> h' \<le> h"
    using b1(2,3,6,7,10) g by simp_all
  let ?c = "fit_rows w' h' n ?b1"
  note c = fit_rows_of [where Q = ?Q, OF b1(1) p(1,2) Q p(3) h b1(9) p(5,4) w(1)]
  have pos: "0 < rlen (lines ?b1)" by (rule stacked_used [OF b1(1) p(1,2)])
  have used: "resize_used w' h' n ?b1 = Some ?c" using b1(5) g(1) w by (simp add: resize_used_def)
  have size: "maxLength (lines ?c) = n" "0 \<le> cx ?c" using c(8,9) b1(11) g(7) w by simp_all
  let ?d = "?c\<lparr>scrollBottom := h' - 1, b_cols := w', b_rows := h'\<rparr>"
  have "buffer_resize cursor_too sb w' h' b = Some ?d" using buffer_resize_steps [OF n_def pos used] nb by simp
  moreover have "stacked ?Q h' ?d" using c(1) by (simp add: stacked_def)
  moreover have "store_size sb h' ?d" using c(5) b1(4) size(1) n_def by (simp add: store_size_def)
  ultimately show ?thesis using c(5-7) b1(4) nb size(2) by simp
qed

subsection \<open>The terminal\<close>

text \<open>
  The stores of lines are as big as the buffers need, the buffers with and without scrollback are the normal and
  the alternate one, and the cursor of the normal buffer is on the screen, also while the other one is in use.
\<close>

definition stores :: "terminal_state \<Rightarrow> bool" where
  "stores t \<longleftrightarrow>
     hasScrollback (normal_buffer t) \<and> \<not> hasScrollback (alt_buffer t) \<and>
     store_size (scrollback (options t)) (rows t) (normal_buffer t) \<and>
     0 \<le> cx (normal_buffer t) \<and> 0 \<le> cy (normal_buffer t) \<and> cy (normal_buffer t) < rows t \<and>
     (alt_active t \<longrightarrow> store_size (scrollback (options t)) (rows t) (alt_buffer t))"

text \<open>
  A terminal that fits its screen except that the lines of the alternate buffer, which is active, may be wider.
\<close>

definition term_over :: "terminal_state \<Rightarrow> bool" where
  "term_over t \<longleftrightarrow>
     geometry t \<and> buf_frame (cols t) (rows t) (normal_buffer t) \<and> alt_active t \<and>
     stacked (\<lambda>l. cols t \<le> line_length l) (rows t) (alt_buffer t) \<and> 0 \<le> xpos t \<and> 0 \<le> ypos t \<and> ypos t < rows t"

lemma setupTabStops_fits [simp]: "stacked Q h (setupTabStops k v b) = stacked Q h b" "buf_frame w h (setupTabStops k v b) = buf_frame w h b"
  "buf_idle w h (setupTabStops k v b) = buf_idle w h b" "hasScrollback (setupTabStops k v b) = hasScrollback b"
  "store_size sb h (setupTabStops k v b) = store_size sb h b" "cx (setupTabStops k v b) = cx b" "cy (setupTabStops k v b) = cy b"
  by (simp_all add: setupTabStops_def stacked_def buf_frame_def buf_idle_def store_size_def split: option.split)

lemma buffers_resize_eq:
  assumes "buffer_resize cursor_too (scrollback (options t)) (max w 2) (max h 1) (normal_buffer t) = Some n"
    and "buffer_resize cursor_too (scrollback (options t)) (max w 2) (max h 1) (alt_buffer t) = Some a"
    and "\<not> (w = cols t \<and> h = rows t)"
  shows "terminal_resize cursor_too w h t = Some (t\<lparr>cols := max w 2, rows := max h 1,
    normal_buffer := setupTabStops (tabStopWidth (options t)) (Some (max w 2)) n,
    alt_buffer := setupTabStops (tabStopWidth (options t)) (Some (max w 2)) a\<rparr>)"
  using assms(1,2) unfolding terminal_resize_def if_not_P [OF assms(3)]
  by (simp add: core_resize_def service_resize_def buffers_resize_def)

lemma terminal_resize_ok:
  assumes t: "term_ok t" "stores t"
    and sb: "1 \<le> scrollback (options t)" "rows t + scrollback (options t) \<le> 4294967295"
      "max h 1 + scrollback (options t) \<le> 4294967295"
    and whole: "\<forall>l \<in> set (ring_items (lines (normal_buffer t))). whole (cols t) l"
  shows "\<exists>t'. terminal_resize cursor_too w h t = Some t' \<and> stores t' \<and> cols t' = max w 2 \<and> rows t' = max h 1 \<and>
    (if alt_active t \<and> max w 2 < cols t then term_over t' else term_ok t')"
proof (cases "w = cols t \<and> h = rows t")
  case True
  then have "max w 2 = w" "max h 1 = h" using t(1) by (simp_all add: term_ok_def term_frame_def geometry_def)
  then show ?thesis using True t by (simp add: terminal_resize_def)
next
  case False
  let ?w = "max w 2" and ?h = "max h 1" and ?sb = "scrollback (options t)"
  have f: "geometry t" "buf_frame (cols t) (rows t) (normal_buffer t)" using t(1) by (simp_all add: term_ok_def term_frame_def)
  have s: "hasScrollback (normal_buffer t)" "\<not> hasScrollback (alt_buffer t)" "store_size ?sb (rows t) (normal_buffer t)"
    using t(2) by (simp_all add: stores_def)
  have b: "fits ?sb (cols t) (rows t) (normal_buffer t)" using f t(2) by (simp add: fits_def stores_def)
  have c: "2 \<le> cols t" "0 \<le> ?sb" using f(1) by (simp_all add: geometry_def)
  obtain n where n: "buffer_resize cursor_too ?sb ?w ?h (normal_buffer t) = Some n" "fits ?sb ?w ?h n" "hasScrollback n"
    using buffer_resize_fits [OF b c(1) _ _ s(1) sb whole, of ?w cursor_too] s(1) by auto
  show ?thesis
  proof (cases "alt_active t")
    case no: False
    then have "buf_idle (cols t) (rows t) (alt_buffer t)" using t(1) by (simp add: term_ok_def term_frame_def)
    then obtain a where a: "buffer_resize cursor_too ?sb ?w ?h (alt_buffer t) = Some a" "buf_idle ?w ?h a" "\<not> hasScrollback a"
      using idle_resize [OF _ s(2), of _ _ ?h cursor_too ?sb ?w] by fastforce
    show ?thesis using buffers_resize_eq [OF n(1) a(1) False] n a f(1) sb no
      by (simp add: term_ok_def term_frame_def geometry_def fits_def stores_def active_def)
  next
    case True
    then have "fits ?sb (cols t) (rows t) (alt_buffer t)"
      using t by (simp add: term_ok_def term_frame_def fits_def stores_def active_def)
    note alt = this
    show ?thesis
    proof (cases "?w < cols t")
      case narrow: True
      have m: "1 \<le> ?w" "1 \<le> ?h" by simp_all
      obtain a where a: "buffer_resize cursor_too ?sb ?w ?h (alt_buffer t) = Some a" "stacked (\<lambda>l. ?w \<le> line_length l) ?h a"
        "\<not> hasScrollback a" "store_size ?sb ?h a" "0 \<le> cx a" "0 \<le> cy a" "cy a < ?h"
        using resize_over [OF alt m(1) less_imp_le [OF narrow] m(2) s(2) c(2) sb(2,3), of cursor_too] by blast
      show ?thesis using buffers_resize_eq [OF n(1) a(1) False] n a f(1) sb True narrow
        by (simp add: term_over_def geometry_def fits_def stores_def active_def)
    next
      case wide: False
      have "\<exists>a. buffer_resize cursor_too ?sb ?w ?h (alt_buffer t) = Some a \<and> fits ?sb ?w ?h a \<and> \<not> hasScrollback a"
      proof (cases "?w = cols t")
        case True
        then show ?thesis using resize_same_width [OF alt, of ?h cursor_too] c sb s(2) by auto
      next
        case False
        then show ?thesis using resize_wider [OF alt c(1), of ?w ?h cursor_too] wide c(2) sb s(2) by auto
      qed
      then obtain a where a: "buffer_resize cursor_too ?sb ?w ?h (alt_buffer t) = Some a" "fits ?sb ?w ?h a" "\<not> hasScrollback a"
        by blast
      have "h \<le> 4294967295" using sb(1,3) by linarith
      then show ?thesis using buffers_resize_eq [OF n(1) a(1) False] n a f(1) sb True wide
        by (auto simp: term_ok_def term_frame_def geometry_def fits_def stores_def active_def)
    qed
  qed
qed

lemma push_pow:
  "lines_all Q r \<Longrightarrow> Q x \<Longrightarrow> lines_all Q ((ring_push x ^^ n) r) \<and> maxLength ((ring_push x ^^ n) r) = maxLength r"
  by (induction n) (simp_all add: lines_all_push)

lemma new_term_resizable:
  assumes "0 \<le> scrollback opts" "max h 1 + scrollback opts \<le> 4294967295"
  shows "stores (new_term opts w h)" "\<forall>l \<in> set (ring_items (lines (normal_buffer (new_term opts w h)))). whole (max w 2) l"
proof -
  let ?n = "nat (max h 1 + scrollback opts)" and ?w = "max w 2" and ?m = "nat (max h 1)"
  have f: "normal_buffer (new_term opts w h) = fillViewportRows ?w default_attr (blank_buffer True (scrollback opts) (tabStopWidth opts) ?w (max h 1))"
    "alt_buffer (new_term opts w h) = blank_buffer False (scrollback opts) (tabStopWidth opts) ?w (max h 1)"
    by (simp_all add: new_term_def new_buffer_def Let_def)
  have l: "lines (normal_buffer (new_term opts w h)) = (ring_push (fresh_line ?w) ^^ ?m) (new_ring ?n)"
    unfolding f using assms
    by (simp add: fillViewportRows_def blank_buffer_def setupTabStops_def correctBufferLength_def getBlankLine_def new_ring_def)
  have "1 \<le> max h 1" by simp
  then have "0 < max h 1 + scrollback opts" using assms(1) by linarith
  then have "lines_all (whole ?w) (new_ring ?n)"
    by (simp add: lines_all_def new_ring_items)
  moreover have "whole ?w (fresh_line ?w)" using sane_fresh [of ?w] trimmed_fresh [of ?w] by (simp add: whole_def uncut_def)
  ultimately have p: "lines_all (whole ?w) ((ring_push (fresh_line ?w) ^^ ?m) (new_ring ?n))"
    "maxLength ((ring_push (fresh_line ?w) ^^ ?m) (new_ring ?n)) = maxLength (new_ring ?n :: line ring)"
    using push_pow [of "whole ?w" "new_ring ?n" "fresh_line ?w" ?m] by simp_all
  show "\<forall>l \<in> set (ring_items (lines (normal_buffer (new_term opts w h)))). whole (max w 2) l"
    using p(1) unfolding l by (simp add: lines_all_def)
  have "hasScrollback (normal_buffer (new_term opts w h))" "\<not> hasScrollback (alt_buffer (new_term opts w h))"
    "cx (normal_buffer (new_term opts w h)) = 0" "cy (normal_buffer (new_term opts w h)) = 0" "\<not> alt_active (new_term opts w h)"
    unfolding f by (simp_all add: fillViewportRows_def blank_buffer_def setupTabStops_def new_term_def Let_def)
  moreover have "0 < max h 1" by simp
  ultimately show "stores (new_term opts w h)" using p(2) assms unfolding stores_def store_size_def l
    by (simp add: new_ring_def correctBufferLength_def)
qed

text \<open>
  C11: Resizing the terminal to any size, with the normal or the alternate buffer active, throws nothing and ends, if
  no line of the normal buffer has a wide character cut in half (and the store of the lines is in order and there is
  some scrollback, within what an array can hold). The terminal has the new size, at least 2 columns and a row, and is
  well-formed for it: all lines as wide as the screen, exactly the scrollback above the screen, the cursor on a row of
  it, and the stores as big as the new height asks for. Only when the alternate buffer is active and gets narrower may
  the lines of that buffer be wider than the screen, since they are neither reflowed nor cut.
\<close>

theorem resize_keeps_screen:
  assumes "term_ok t" "stores t"
    and "1 \<le> scrollback (options t)" "rows t + scrollback (options t) \<le> 4294967295" "max h 1 + scrollback (options t) \<le> 4294967295"
    and "\<forall>l \<in> set (ring_items (lines (normal_buffer t))). whole (cols t) l"
  shows "\<exists>t'. terminal_resize cursor_too w h t = Some t' \<and> stores t' \<and> cols t' = max w 2 \<and> rows t' = max h 1 \<and>
    (if alt_active t \<and> max w 2 < cols t then term_over t' else term_ok t')"
  by (rule terminal_resize_ok [OF assms])

theorem resize_keeps_screen_witness:
  "\<exists>t'. terminal_resize False 120 40 (new_term plain_options 80 24) = Some t' \<and> term_ok t' \<and> stores t' \<and> cols t' = 120 \<and> rows t' = 40"
proof -
  let ?t = "new_term plain_options 80 24"
  have "term_ok ?t" using new_emulator_ok [of plain_options 24 80] by (simp add: plain_options_def emulator_ok_def new_emulator_def)
  moreover have "stores ?t" "\<forall>l \<in> set (ring_items (lines (normal_buffer ?t))). whole 80 l"
    using new_term_resizable [of plain_options 24 80] by (simp_all add: plain_options_def)
  ultimately show ?thesis using resize_keeps_screen [of ?t 40 False 120] by (auto simp: plain_options_def)
qed

theorem resize_rows_keeps_cursor_line_witness:
  "let b = normal_buffer (new_term plain_options 80 24)
   in \<exists>b'. buffer_resize False 1000 80 40 b = Some b' \<and> buf_frame 80 40 b' \<and> cy b' < 40
     \<and> lines_get b' (ybase b' + cy b') = lines_get b (ybase b + cy b)"
proof -
  let ?t = "new_term plain_options 80 24" and ?b = "normal_buffer (new_term plain_options 80 24)"
  have "term_ok ?t" using new_emulator_ok [of plain_options 24 80] by (simp add: plain_options_def emulator_ok_def new_emulator_def)
  then have b: "buf_frame 80 24 ?b" "0 \<le> cy ?b" "cy ?b < 24" by (simp_all add: term_ok_def term_frame_def active_def)
  have "store_size 1000 24 ?b"
    using new_term_resizable(1) [of plain_options 24 80] by (simp add: stores_def plain_options_def)
  then show ?thesis using resize_rows_keeps_cursor_line [OF b, of 40 1000 False] by (auto simp: Let_def)
qed

end
