(* ===== verification/Resize_Link.thy ===== *)
theory Resize_Link
  imports Terminal_Link Xterm_Resize_Props
begin

text \<open>
  From the window of the browser to the pseudo-terminal: \<open>FitAddon\<close> finds the size that fits the element, the
  terminal is resized, and the controller's listener sends the new size to the server.
\<close>

subsection \<open>FitAddon\<close>

text \<open>
  What the document says about the terminal: the computed styles that \<open>parseInt\<close> makes numbers of (\<open>None\<close> is
  \<open>NaN\<close>), whether the element is attached and the character cell has a size, the option for the width of the
  scroll bar, and how many whole cells a number of pixels has, \<open>Math.floor(p / width)\<close> and likewise for the height.
\<close>

record layout =
  attached :: bool
  cell_measured :: bool
  overview_width :: "int option"
  parent_height :: "int option"
  parent_width :: "int option"
  padding_top :: "int option"
  padding_bottom :: "int option"
  padding_left :: "int option"
  padding_right :: "int option"
  cells_across :: "int \<Rightarrow> int"
  cells_down :: "int \<Rightarrow> int"

definition minus_num :: "int option \<Rightarrow> int option \<Rightarrow> int option" where
  "minus_num a b = Option.bind a (\<lambda>x. map_option (\<lambda>y. x - y) b)"

definition plus_num :: "int option \<Rightarrow> int option \<Rightarrow> int option" where
  "plus_num a b = Option.bind a (\<lambda>x. map_option (\<lambda>y. x + y) b)"

definition bar_width :: "int \<Rightarrow> layout \<Rightarrow> int" where
  "bar_width sb l =
     (if sb = 0 then 0 else (case overview_width l of None \<Rightarrow> 14 | Some w \<Rightarrow> if w = 0 then 14 else w))"

text \<open>The columns and rows to ask for; the outer \<open>None\<close> is \<open>undefined\<close>, the inner ones \<open>NaN\<close>.\<close>

definition proposeDimensions :: "int \<Rightarrow> layout \<Rightarrow> (int option \<times> int option) option" where
  "proposeDimensions sb l =
     (if \<not> attached l \<or> \<not> cell_measured l then None
      else
        (let a = map_option (max 0) (parent_width l);
             m = plus_num (padding_top l) (padding_bottom l);
             d = plus_num (padding_right l) (padding_left l);
             c = minus_num (parent_height l) m;
             p = minus_num (minus_num a d) (Some (bar_width sb l))
         in Some (map_option (\<lambda>p. max 2 (cells_across l p)) p, map_option (\<lambda>c. max 1 (cells_down l c)) c)))"

text \<open>\<open>fit\<close>; \<open>None\<close> is an exception of the resize.\<close>

definition fit_addon :: "layout \<Rightarrow> terminal_state \<Rightarrow> terminal_state option" where
  "fit_addon l t =
     (case proposeDimensions (scrollback (options t)) l of
        Some (Some c, Some r) \<Rightarrow>
          if rows t \<noteq> r \<or> cols t \<noteq> c then terminal_resize False c r t else Some t
      | _ \<Rightarrow> Some t)"

subsection \<open>The listener\<close>

text \<open>
  The controller's listener for the resizing of the window, with the terminal's own state beside the page. When the
  resize throws, nothing is sent; \<open>broken\<close> is what it has made of the terminal by then. The third component tells
  that it has thrown.
\<close>

definition window_resized :: "(terminal_state \<Rightarrow> terminal_state) \<Rightarrow> layout \<Rightarrow> terminal_state \<Rightarrow> page \<Rightarrow> terminal_state \<times> page \<times> bool" where
  "window_resized broken l t p =
     (case fit_addon l t of
        None \<Rightarrow> (broken t, p, True)
      | Some t' \<Rightarrow> (t', resizeListener (word_of_int (cols t')) (word_of_int (rows t')) p, False))"

lemma proposed_bounds:
  "proposeDimensions sb l = Some (Some c, Some r) \<Longrightarrow> 2 \<le> c \<and> 1 \<le> r"
  by (auto simp: proposeDimensions_def Let_def split: if_splits)

lemma resize_sent:
  assumes "term_sub (ctl p) = Some s" "isOpen (cab p)" "chan_session ch = Some r" "ready r w"
  shows "\<exists>payload. sent (cab (resizeListener c h p)) = sent (cab p) @
      [Frame ''message'' (sub_identifier s) (Some (json_stringify payload))] \<and>
    channel_receive ch False payload w =
      (upd_session r (\<lambda>u. u\<lparr>winsize := Some (unat h mod 65536, unat c mod 65536)\<rparr>) w, Inr ())"
  using assms
  by (intro exI [of _ "wire_payload (resize_message c h)"])
    (simp add: resizeListener_def fit_def upd_ctl_def sendResize_def sendBytes_open message_frame_def receive_wire_payload write_resize)

text \<open>
  C1: When the browser's window changes, the size gets everywhere: with an open connection and a terminal none of whose
  normal buffer's lines has a wide character cut in half (and whose store of lines is in order, with some scrollback),
  whether the normal or the alternate buffer is active, the listener does not throw, the terminal gets the columns and
  rows that fit the element, and the one message that is sent sets the window size of the pseudo-terminal of a running
  session to just these (each modulo 65536). The terminal is well-formed for its size; only if the alternate buffer is
  active and gets narrower may that buffer's lines be wider.
\<close>

theorem window_resize_reaches_pty:
  assumes t: "term_ok t" "stores t" "\<forall>l \<in> set (ring_items (lines (normal_buffer t))). whole (cols t) l"
    and sb: "1 \<le> scrollback (options t)" "rows t + scrollback (options t) \<le> 4294967295"
    and l: "proposeDimensions (scrollback (options t)) l = Some (Some c, Some r)" "c < 4294967296"
      "r + scrollback (options t) \<le> 4294967295"
    and p: "term_sub (ctl p) = Some s" "isOpen (cab p)" "chan_session ch = Some k" "ready k w"
  shows "\<exists>t' p' payload. window_resized broken l t p = (t', p', False) \<and> cols t' = c \<and> rows t' = r
    \<and> (if alt_active t \<and> c < cols t then term_over t' else term_ok t')
    \<and> sent (cab p') = sent (cab p) @ [Frame ''message'' (sub_identifier s) (Some (json_stringify payload))]
    \<and> channel_receive ch False payload w =
        (upd_session k (\<lambda>u. u\<lparr>winsize := Some (nat r mod 65536, nat c mod 65536)\<rparr>) w, Inr ())"
proof -
  have b: "max c 2 = c" "max r 1 = r" "2 \<le> c" "1 \<le> r" using proposed_bounds [OF l(1)] by simp_all
  have h: "max r 1 + scrollback (options t) \<le> 4294967295" using l(3) b(2) by simp
  obtain t' where t': "terminal_resize False c r t = Some t'" "cols t' = c" "rows t' = r"
    "if alt_active t \<and> c < cols t then term_over t' else term_ok t'"
    using terminal_resize_ok [OF t(1,2) sb h t(3), of False c] unfolding b by blast
  have f: "fit_addon l t = Some t'"
    using l(1) t'(1) by (cases "c = cols t \<and> r = rows t") (auto simp: fit_addon_def terminal_resize_def split: if_splits)
  have w: "unat (word_of_int r :: 32 word) = nat r" "unat (word_of_int c :: 32 word) = nat c"
    using b(3,4) l(2,3) sb(1) by (simp_all add: unat_eq_nat_uint uint_word_of_int)
  let ?p = "resizeListener (word_of_int c) (word_of_int r) p"
  have "window_resized broken l t p = (t', ?p, False)" using f t'(2,3) by (simp add: window_resized_def)
  moreover obtain payload where "sent (cab ?p) = sent (cab p) @ [Frame ''message'' (sub_identifier s) (Some (json_stringify payload))]"
    "channel_receive ch False payload w = (upd_session k (\<lambda>u. u\<lparr>winsize := Some (nat r mod 65536, nat c mod 65536)\<rparr>) w, Inr ())"
    using resize_sent [OF p, of "word_of_int c" "word_of_int r"] unfolding w by blast
  ultimately show ?thesis using t'(2-4) by blast
qed

definition sample_layout :: layout where
  "sample_layout =
     \<lparr>attached = True, cell_measured = True, overview_width = None, parent_height = Some 680, parent_width = Some 974,
      padding_top = Some 0, padding_bottom = Some 0, padding_left = Some 0, padding_right = Some 0,
      cells_across = (\<lambda>p. p div 8), cells_down = (\<lambda>p. p div 17)\<rparr>"

theorem window_resize_reaches_pty_witness:
  "\<exists>t' p' payload. window_resized (\<lambda>t. t) sample_layout (new_term plain_options 80 24) (open_page 80 24) = (t', p', False)
    \<and> cols t' = 120 \<and> rows t' = 40
    \<and> sent (cab p') = [Frame ''message'' ''id'' (Some (json_stringify payload))]
    \<and> channel_receive (new_channel\<lparr>chan_session := Some 0\<rparr>) False payload running_server =
        (upd_session 0 (\<lambda>u. u\<lparr>winsize := Some (40, 120)\<rparr>) running_server, Inr ())"
proof -
  let ?t = "new_term plain_options 80 24"
  have t: "term_ok ?t" "stores ?t" "\<forall>l \<in> set (ring_items (lines (normal_buffer ?t))). whole (cols ?t) l"
    using new_emulator_ok [of plain_options 24 80] new_term_resizable [of plain_options 24 80]
    by (simp_all add: plain_options_def emulator_ok_def new_emulator_def)
  have l: "proposeDimensions (scrollback (options ?t)) sample_layout = Some (Some 120, Some 40)"
    by (simp add: proposeDimensions_def sample_layout_def plus_num_def minus_num_def bar_width_def plain_options_def)
  have o: "sent (cab (open_page 80 24)) = []" "sub_identifier sample_sub = ''id''" "rows ?t = 24" "scrollback (options ?t) = 1000"
    by (simp_all add: sample_sub_def open_page_def open_cable_def new_consumer_def plain_options_def)
  show ?thesis
    using window_resize_reaches_pty [OF t _ _ l, of "open_page 80 24" sample_sub "new_channel\<lparr>chan_session := Some 0\<rparr>" 0
        running_server "\<lambda>t. t"] o by auto
qed

text \<open>When the resize throws, the server is not told of the new size.\<close>

lemma resize_throws_unsent:
  "fit_addon l t = None \<Longrightarrow> window_resized broken l t p = (broken t, p, True)"
  by (simp add: window_resized_def)

end
