(* ===== verification/Spec2Isabelle.thy ===== *)
theory Spec2Isabelle
  imports Input_Link Editor_Change_Props Page_Controllers Xterm_Text Xterm_Store Resize_Link
begin

text \<open>
  Verification development of Multipass WebUI, a Rails application that manages virtual machines and gives each
  of them a terminal in the browser.

  \<^bold>\<open>The program.\<close> A page with a terminal runs the controller \<open>app/javascript/controllers/terminal_controller.js\<close>.
  It owns a terminal emulator (xterm.js) and a subscription of the Action Cable client; both libraries are bundled
  into \<open>app/assets/builds/application.js\<close>, which is the JavaScript that the browser runs and from which they are
  modelled here. What the user types goes to the emulator, which hands it out as data; the controller encodes it
  and performs \<open>receive\<close> on the channel \<open>app/channels/terminal_channel.rb\<close>, which writes it to the pseudo-terminal of
  a session of \<open>app/services/terminals/session.rb\<close>. The session's reader thread broadcasts what the shell prints;
  the channel's stream brings it to the page, and the controller writes it to the emulator, which decodes, parses
  and prints it. The other pages have small controllers (polling, a dialog, a YAML editor); the editor is
  CodeMirror, in the same bundle, of which the documents and their changes are modelled.

  \<^bold>\<open>The theories.\<close> A name of a definition is the name of the function or method it translates, where
  Isabelle allows it; the manifest gives the lines of each.

  \<^item> \<open>JS_Prelude\<close>: bytes, UTF-16 code units, truth values, \<open>JSON.stringify\<close>, decimal numbers.
    \<open>Byte_Codecs\<close>: base64 on both sides of the wire, as a locale \<open>byte_wire\<close> of what a chunk's codec promises, with an
    interpretation for each direction, and \<open>TextEncoder\<close>. \<open>Names\<close>: \<open>name_validator.rb\<close>.
  \<^item> \<open>Terminal_Session\<close>: the registry, the mutex, the reader loop, the scrollback and the ends of a session. The
    objects are in a heap by reference, an exception of Ruby is an \<open>Inl\<close>, and each answer of the operating system is
    an argument. \<open>Terminal_Channel\<close> is the channel, \<open>Cable_Client\<close> the client's connection, monitor, subscriptions
    and guarantor (a step for every event of the browser), \<open>Terminal_Controller\<close> the page.
  \<^item> \<open>Terminal_Link\<close> and \<open>Input_Link\<close>: both ends together. Output of the shell reaches the screen in order; the
    resize message arrives; a typed character reaches the shell once; and the ways in which the code loses data.
  \<^item> \<open>Xterm_Decode\<close>, \<open>Xterm_Params\<close>, \<open>Xterm_Parser\<close>: bytes or strings to code points, parameters, and the state
    machine of control sequences with its table. Decoding and parsing a stream does not depend on its chunks.
  \<^item> \<open>Xterm_Cells\<close>, \<open>Xterm_Line\<close>, \<open>Xterm_Width\<close>: attributes, cells, lines as arrays of three words per cell,
    and the width of characters. \<open>Xterm_Ring\<close>: the cyclic list of lines, each operation refining one on lists;
    \<open>Xterm_Store\<close> states the contract of this list as the locale \<open>line_store\<close>, with the ring as its interpretation.
    \<open>Xterm_Buffer\<close>: markers, tab stops, scrolling.
  \<^item> \<open>Xterm_Resize\<close>: \<open>Buffer.resize\<close> with the reflow of wrapped lines, up to the terminal's \<open>resize\<close>.
    \<open>Xterm_Resize_Rows\<close> proves the change of rows correct, \<open>Xterm_Resize_Larger\<close> the loop that joins lines and
    \<open>Xterm_Resize_Wider\<close> what follows it, \<open>Xterm_Resize_Insert\<close> the insertion of lines and \<open>Xterm_Resize_Narrower\<close>
    the splitting; each with what goes wrong there. \<open>Xterm_Resize_Props\<close> puts them together for the terminal, and
    \<open>Resize_Link\<close> adds \<open>FitAddon\<close> and the page: from the window of the browser to the pseudo-terminal.
  \<^item> \<open>Xterm_Screen\<close>, \<open>Xterm_Cursor\<close>, \<open>Xterm_Print\<close>, \<open>Xterm_Erase\<close>, \<open>Xterm_Attributes\<close>, \<open>Xterm_Color\<close>,
    \<open>Xterm_Modes\<close>, \<open>Xterm_Osc\<close>: the state of the terminal and the handlers of \<open>InputHandler\<close>; \<open>None\<close> is a
    \<open>TypeError\<close>. What the emitters fire is the log \<open>out\<close>. \<open>Xterm_Handler\<close> is the table of the handlers and \<open>parse\<close>
    of a chunk.
  \<^item> \<open>Xterm_Buffer_Inv\<close>, \<open>Xterm_Invariant\<close>, \<open>Xterm_Edit_Inv\<close>, \<open>Xterm_Safe\<close>: the invariant of the terminal
    (\<open>term_ok\<close>) and its proof for every handler; \<open>Xterm_Props\<close> and \<open>Xterm_Text\<close> state what follows: no output throws
    except by erasing above the cursor, the size never changes, and printed text is read back.
  \<^item> \<open>Xterm_Write\<close>: the queue of chunks with its timers: order, completeness, and what a throwing chunk does.
  \<^item> \<open>Xterm_Keys\<close>, \<open>Xterm_Typing\<close>, \<open>Xterm_Mouse\<close> with their \<open>_Props\<close>: keys, input methods, pasting and the mouse.
  \<^item> \<open>Editor_Lines\<close>, \<open>Editor_Text\<close>: the tree of the document; \<open>Editor_Text_Spec\<close> proves each operation correct for
    the text it spells, \<open>Editor_Document\<close> gathers this into the locale \<open>text_doc\<close>, its interpretation and the
    properties. \<open>Editor_Changes\<close>, \<open>Editor_Change_Sets\<close>: change sets; \<open>Editor_Change_Spec\<close> gives them a meaning as
    functions on texts, \<open>Editor_Compose\<close> and \<open>Editor_Change_Props\<close> prove applying, composing, inverting and mapping
    correct for it.
  \<^item> \<open>Page_Controllers\<close>: polling with its timer and listeners, the dialog, and the editor of YAML files, whose text
    area follows the document.

  \<^bold>\<open>The lemmas.\<close> Each operation has lemmas on its result (named after it), each invariant a lemma per operation that
  keeps it and one for runs of events by induction, and a property is a few steps over these. Errors of the code
  are properties too: they say exactly when the code throws, loses data or never returns.

  \<^bold>\<open>Bounds and fuel.\<close> Words of the cells are \<open>32 word\<close>, code units \<open>16 word\<close>, bytes \<open>8 word\<close>. Sizes and positions
  are \<open>int\<close>: JavaScript's numbers are exact up to 2 to the 53, which no size here comes near. Loops with fuel take at
  least one step of a counted quantity: \<open>text_from\<close> (columns left), \<open>range_first\<close> and \<open>range_last\<close> (lines left),
  \<open>chunk_pieces\<close> (length left), the reflow's \<open>larger_loop\<close> (a place of the group; \<open>larger_fuel_enough\<close>) and \<open>new_lengths\<close> (cells left,
  \<open>new_lengths_enough\<close>); the loops of the editor that need not end are partial functions, with theorems on when they
  end.

  \<^bold>\<open>Not modelled, and why.\<close> The Ruby side beyond the terminal (\<open>client.rb\<close>, \<open>vms.rb\<close>, controllers, models) builds
  command lines and views around external programs and a database. Turbo and Stimulus, in the bundle, only call the
  page's controllers. Of xterm.js: the renderer, the selection and the accessibility tree work on the document, and
  what they are asked to do is logged. The batched clean-up of a buffer's memory after a resize is left out, and so
  are the heuristics for Windows, which this application never switches on. The column switch of mode 3, which the
  page does not enable, has the resize as its argument \<open>resizer\<close>. The theorems on resizing ask for lines
  of the normal buffer with no wide character cut in half: the reflow can throw on others. The alternate buffer, which
  has no scrollback, is not reflowed, and its lines stay too wide when it gets narrower (\<open>term_over\<close>). An
  exception of a handler leaves a state that is an argument (\<open>broken\<close>). Of CodeMirror: the view, the state's fields and
  the language support; js-yaml's answer is an argument. Log messages and styles are left out.

  \<^bold>\<open>What is taken for granted.\<close> The browser asks the listeners of keydown, keypress and input about a key in this
  order, each unless the one before has prevented the event (\<open>browser_key\<close>). There is enough memory and stack:
  \<open>sendBytes\<close> spreads its bytes over the arguments of a call, and repeating a character allocates an array, which can
  fail for huge sizes. A cell that says that its text is kept apart has such a text (\<open>combined_text\<close> gives the empty
  string otherwise). The socket that the Action Cable client uses always has the client's handlers, because only
  sockets that have been given up lose them.
\<close>

end
